(* ===== verification/Prelude.thy ===== *)
theory Prelude
  imports Complex_Main "HOL-Library.AList" "HOL-Library.Char_ord" "HOL-Library.List_Lexorder"
    "HOL-Library.Word" "HOL-Library.Multiset"
begin

text \<open>
  What every component shares: the exceptions of the Python code as values, Python's dicts as
  association lists in insertion order, sequencing of steps that may raise, the binary search
  of the standard library's \<open>bisect\<close> module, and the external functions the code relies
  on (hashing, float formatting, compression, set iteration order) collected in one record,
  which the definitions that use them take as an argument.

  A Python \<open>str\<close> is a list of characters (code points below 256, and case mapping on the
  ASCII letters); \<open>bytes\<close> is a list of characters too.  Python integers are \<open>int\<close>,
  finite floats are the rationals they denote.
\<close>

section \<open>Exceptions and results\<close>

datatype exn =
    KeyError | IndexError | TypeErr | ValueErr | SyntaxErr | ReplayErr | RuntimeErr
  | DecodeErr
  | SqlErr | SqlUnsupported
  | RedisErr | RedisUnsupported
  | MongoErr | MongoUnsupported
  | AttrErr | NameErr
  | Untyped \<comment> \<open>a value outside its declared Python type: outside the model\<close>

type_synonym 'a res = "exn + 'a"

definition bindE :: "'a res \<Rightarrow> ('a \<Rightarrow> 'b res) \<Rightarrow> 'b res" where
  "bindE m f = (case m of Inl e \<Rightarrow> Inl e | Inr x \<Rightarrow> f x)"

lemma bindE_simps [simp]:
  "bindE (Inl e) f = Inl e"
  "bindE (Inr x) f = f x"
  by (simp_all add: bindE_def)

lemma bindE_eq_Inr: "bindE m f = Inr y \<longleftrightarrow> (\<exists>x. m = Inr x \<and> f x = Inr y)"
  by (cases m) auto

lemma bindE_eq_Inl: "bindE m f = Inl e \<longleftrightarrow> m = Inl e \<or> (\<exists>x. m = Inr x \<and> f x = Inl e)"
  by (cases m) auto

fun mapE :: "('a \<Rightarrow> 'b res) \<Rightarrow> 'a list \<Rightarrow> 'b list res" where
  "mapE f [] = Inr []"
| "mapE f (x # xs) = bindE (f x) (\<lambda>y. bindE (mapE f xs) (\<lambda>ys. Inr (y # ys)))"

fun filterE :: "('a \<Rightarrow> bool res) \<Rightarrow> 'a list \<Rightarrow> 'a list res" where
  "filterE f [] = Inr []"
| "filterE f (x # xs) =
     bindE (f x) (\<lambda>b. bindE (filterE f xs) (\<lambda>ys. Inr (if b then x # ys else ys)))"

lemma mapE_total: "(\<And>x. x \<in> set xs \<Longrightarrow> f x = Inr (g x)) \<Longrightarrow> mapE f xs = Inr (map g xs)"
  by (induction xs) auto

lemma mapE_eq_Inr_nth:
  "mapE f xs = Inr ys \<longleftrightarrow> length xs = length ys \<and> (\<forall>i<length xs. f (xs ! i) = Inr (ys ! i))"
proof (induction xs arbitrary: ys)
  case (Cons x xs)
  show ?case
    by (cases ys) (auto simp: bindE_eq_Inr Cons less_Suc_eq_0_disj nth_Cons')
qed auto

lemma mapE_cong [fundef_cong]:
  "xs = ys \<Longrightarrow> (\<And>x. x \<in> set ys \<Longrightarrow> f x = g x) \<Longrightarrow> mapE f xs = mapE g ys"
  by (induction ys arbitrary: xs) auto

lemma mapE_snoc: "mapE f (xs @ [x]) = bindE (mapE f xs) (\<lambda>ys. bindE (f x) (\<lambda>y. Inr (ys @ [y])))"
proof (induction xs)
  case Nil
  show ?case by (cases "f x") auto
next
  case (Cons a xs)
  then show ?case by (cases "f a"; cases "mapE f xs"; cases "f x") auto
qed

lemma filterE_total:
  "(\<And>x. x \<in> set xs \<Longrightarrow> f x = Inr (g x)) \<Longrightarrow> filterE f xs = Inr (filter g xs)"
  by (induction xs) auto

text \<open>
  A method that mutates an object and may raise half-way returns the exception, if any,
  together with the object as it is at that moment.
\<close>

type_synonym 's act = "exn option \<times> 's"

definition andthen :: "'s act \<Rightarrow> ('s \<Rightarrow> 's act) \<Rightarrow> 's act" where
  "andthen m f = (case m of (Some e, s) \<Rightarrow> (Some e, s) | (None, s) \<Rightarrow> f s)"

lemma andthen_simps [simp]:
  "andthen (Some e, s) f = (Some e, s)"
  "andthen (None, s) f = f s"
  by (simp_all add: andthen_def)

lemma andthen_eq_None:
  "andthen m f = (None, t) \<longleftrightarrow> (\<exists>s. m = (None, s) \<and> f s = (None, t))"
  by (cases m; cases "fst m") auto

section \<open>Python dicts in insertion order\<close>

type_synonym ('k, 'v) dict = "('k \<times> 'v) list"

text \<open>\<open>d[k] = v\<close> keeps the place of a key that is present and appends a new one.\<close>

abbreviation dset :: "'k \<Rightarrow> 'v \<Rightarrow> ('k, 'v) dict \<Rightarrow> ('k, 'v) dict" where
  "dset \<equiv> AList.update"

definition dget :: "('k, 'v) dict \<Rightarrow> 'k \<Rightarrow> 'v \<Rightarrow> 'v" where
  "dget d k dflt = (case map_of d k of None \<Rightarrow> dflt | Some v \<Rightarrow> v)"

definition setdefault :: "'k \<Rightarrow> 'v \<Rightarrow> ('k, 'v) dict \<Rightarrow> ('k, 'v) dict" where
  "setdefault k v d = (case map_of d k of None \<Rightarrow> d @ [(k, v)] | Some _ \<Rightarrow> d)"

definition dappend :: "'k \<Rightarrow> 'v \<Rightarrow> ('k, 'v list) dict \<Rightarrow> ('k, 'v list) dict" where
  \<comment> \<open>\<open>d.setdefault(k, []).append(v)\<close>\<close>
  "dappend k v d = dset k (dget d k [] @ [v]) d"

definition has_key :: "'k \<Rightarrow> ('k, 'v) dict \<Rightarrow> bool" where
  "has_key k d \<longleftrightarrow> map_of d k \<noteq> None"

lemma has_key_iff [simp]: "has_key k d \<longleftrightarrow> k \<in> fst ` set d"
  by (simp add: has_key_def map_of_eq_None_iff)

lemma map_of_dset [simp]: "map_of (dset k v d) = (map_of d)(k \<mapsto> v)"
  by (rule update_conv')

lemma distinct_dset [simp]: "distinct (map fst (dset k v d)) = distinct (map fst d)"
proof
  show "distinct (map fst d) \<Longrightarrow> distinct (map fst (dset k v d))"
    by (rule distinct_update)
  show "distinct (map fst (dset k v d)) \<Longrightarrow> distinct (map fst d)"
    by (induction d) (auto simp: update_keys split: if_splits)
qed

lemma fst_set_dset [simp]: "fst ` set (dset k v d) = insert k (fst ` set d)"
  by (induction d) auto

lemma map_of_setdefault [simp]:
  "map_of (setdefault k v d) = (if map_of d k = None then (map_of d)(k \<mapsto> v) else map_of d)"
  by (auto simp: setdefault_def map_add_def fun_eq_iff split: option.splits)

lemma fst_set_setdefault [simp]: "fst ` set (setdefault k v d) = insert k (fst ` set d)"
  by (auto simp: setdefault_def split: option.splits dest: map_of_SomeD)
    (metis imageI fst_conv map_of_SomeD)

lemma distinct_setdefault [simp]:
  "distinct (map fst d) \<Longrightarrow> distinct (map fst (setdefault k v d))"
  by (auto simp: setdefault_def map_of_eq_None_iff split: option.splits)

lemma map_of_dappend [simp]: "map_of (dappend k v d) = (map_of d)(k \<mapsto> dget d k [] @ [v])"
  by (simp add: dappend_def)

lemma distinct_dappend [simp]: "distinct (map fst (dappend k v d)) = distinct (map fst d)"
  by (simp add: dappend_def)

lemma fst_set_dappend [simp]: "fst ` set (dappend k v d) = insert k (fst ` set d)"
  by (simp add: dappend_def)

lemma dget_dset [simp]: "dget (dset k v d) k' x = (if k' = k then v else dget d k' x)"
  by (simp add: dget_def)

lemma dget_dappend [simp]:
  "dget (dappend k v d) k' x = (if k' = k then dget d k [] @ [v] else dget d k' x)"
  by (simp add: dget_def)

lemma dget_Nil [simp]: "dget [] k x = x"
  by (simp add: dget_def)

lemma dset_keys: "map fst (dset k v d) = (if k \<in> fst ` set d then map fst d else map fst d @ [k])"
  by (induction d) auto

section \<open>The standard library's bisect\<close>

text \<open>
  \<open>bisect.bisect_right(a, x)\<close>: the loop \<open>while lo < hi\<close> with its midpoint.  The test
  \<open>x < a[mid]\<close> is passed as \<open>before\<close>.
\<close>

function bisect_loop :: "('a \<Rightarrow> bool) \<Rightarrow> 'a list \<Rightarrow> nat \<Rightarrow> nat \<Rightarrow> nat" where
  "bisect_loop before a lo hi =
     (if lo < hi then
        (let mid = (lo + hi) div 2 in
         if before (a ! mid) then bisect_loop before a lo mid
         else bisect_loop before a (Suc mid) hi)
      else lo)"
  by pat_completeness auto
termination
  by (relation "measure (\<lambda>(b, a, lo, hi). hi - lo)") (auto simp: Let_def)

declare bisect_loop.simps [simp del]

definition bisect_right :: "'a::linorder list \<Rightarrow> 'a \<Rightarrow> nat" where
  "bisect_right a x = bisect_loop (\<lambda>y. x < y) a 0 (length a)"

text \<open>
  Where \<open>before\<close> is false on a prefix and true from there on, the loop finds the boundary.
\<close>

lemma bisect_loop_boundary:
  assumes "lo \<le> k" "k \<le> hi"
    and "\<And>i. lo \<le> i \<Longrightarrow> i < k \<Longrightarrow> \<not> before (a ! i)"
    and "\<And>i. k \<le> i \<Longrightarrow> i < hi \<Longrightarrow> before (a ! i)"
  shows "bisect_loop before a lo hi = k"
  using assms
proof (induction before a lo hi rule: bisect_loop.induct)
  case (1 before a lo hi)
  let ?mid = "(lo + hi) div 2"
  show ?case
  proof (cases "lo < hi")
    case False
    with "1.prems"(1,2) show ?thesis by (simp add: bisect_loop.simps)
  next
    case True
    then have mid: "lo \<le> ?mid" "?mid < hi" by auto
    show ?thesis
    proof (cases "before (a ! ?mid)")
      case b: True
      with "1.prems"(3) mid have "k \<le> ?mid" by (meson not_le)
      with "1.IH"(1)[OF True refl b] "1.prems" mid b True show ?thesis
        by (simp add: bisect_loop.simps[of _ _ lo hi] Let_def)
    next
      case nb: False
      with "1.prems"(4) mid have "Suc ?mid \<le> k" by (meson not_less_eq_eq)
      with "1.IH"(2)[OF True refl nb] "1.prems" mid nb True show ?thesis
        by (simp add: bisect_loop.simps[of _ _ lo hi] Let_def)
    qed
  qed
qed

lemma length_filter_le_boundary:
  fixes a :: "'a::linorder list"
  assumes "sorted a"
  shows "i < length (filter (\<lambda>y. y \<le> x) a) \<Longrightarrow> a ! i \<le> x"
    and "length (filter (\<lambda>y. y \<le> x) a) \<le> i \<Longrightarrow> i < length a \<Longrightarrow> x < a ! i"
proof -
  have "filter (\<lambda>y. y \<le> x) a = takeWhile (\<lambda>y. y \<le> x) a"
    using assms
    by (induction a)
      (auto simp: filter_empty_conv takeWhile_eq_Nil_iff neq_Nil_conv dest: order.trans)
  then have len: "length (filter (\<lambda>y. y \<le> x) a) = length (takeWhile (\<lambda>y. y \<le> x) a)"
    by simp
  show "i < length (filter (\<lambda>y. y \<le> x) a) \<Longrightarrow> a ! i \<le> x"
    unfolding len by (metis nth_mem set_takeWhileD takeWhile_nth)
  assume i: "length (filter (\<lambda>y. y \<le> x) a) \<le> i" "i < length a"
  let ?m = "length (takeWhile (\<lambda>y. y \<le> x) a)"
  from i have m: "?m < length a" by (simp add: len)
  then have "\<not> a ! ?m \<le> x" by (rule nth_length_takeWhile)
  moreover have "a ! ?m \<le> a ! i"
    using assms i by (simp add: len sorted_nth_mono)
  ultimately show "x < a ! i" by simp
qed

lemma bisect_right_count:
  assumes "sorted a"
  shows "bisect_right a x = length (filter (\<lambda>y. y \<le> x) a)"
  unfolding bisect_right_def
  by (rule bisect_loop_boundary) (use length_filter_le_boundary[OF assms] in \<open>auto simp: not_less\<close>)

section \<open>Lists\<close>

text \<open>Python's indexing, with negative indices from the end.\<close>

definition py_index :: "'a list \<Rightarrow> int \<Rightarrow> 'a res" where
  "py_index xs i =
     (let j = (if 0 \<le> i then i else int (length xs) + i)
      in if j < 0 \<or> int (length xs) \<le> j then Inl IndexError else Inr (xs ! nat j))"

lemma py_index_nat [simp]: "i < length xs \<Longrightarrow> py_index xs (int i) = Inr (xs ! i)"
  by (simp add: py_index_def)

lemma py_index_last: "xs \<noteq> [] \<Longrightarrow> py_index xs (-1) = Inr (last xs)"
  by (simp add: py_index_def last_conv_nth nat_diff_distrib Suc_leI)

definition starts_with :: "'a list \<Rightarrow> 'a list \<Rightarrow> bool" where
  \<comment> \<open>\<open>s.startswith(p)\<close>\<close>
  "starts_with p s \<longleftrightarrow> take (length p) s = p"

lemma starts_with_append [simp]: "starts_with p (p @ s)"
  by (simp add: starts_with_def)

lemma starts_with_iff: "starts_with p s \<longleftrightarrow> (\<exists>t. s = p @ t)"
  unfolding starts_with_def by (metis append_eq_conv_conj append_take_drop_id)

lemma filter_snoc_last:
  "P x \<Longrightarrow> last (filter P (xs @ [x])) = x"
  by simp

section \<open>External functions\<close>

text \<open>
  Functions of compiled libraries and of the Python runtime that the code calls and whose
  bodies are not part of it.  \<open>x_blake\<close> is \<open>hashlib.blake2b(_, digest_size=32).digest()\<close>;
  \<open>x_frepr\<close> is \<open>repr\<close> of a float; the four codecs are those of \<open>zlib\<close> and
  \<open>lzma\<close>; \<open>x_gear\<close> is the table of 64-bit numbers drawn from \<open>random.Random\<close>;
  \<open>x_iter\<close> is the order in which a \<open>set\<close> of strings is iterated; \<open>x_gcm_enc\<close>
  and \<open>x_gcm_dec\<close> are AES-256-GCM (key, nonce, associated data, text, and for decryption the
  tag), \<open>x_hkdf\<close> is HKDF-SHA256 with the salt and context of the code.
\<close>

record ext =
  x_blake :: "string \<Rightarrow> string"
  x_frepr :: "rat \<Rightarrow> string"
  x_zlib :: "string \<Rightarrow> string"
  x_unzlib :: "string \<Rightarrow> string"
  x_lzma :: "string \<Rightarrow> string"
  x_unlzma :: "string \<Rightarrow> string"
  x_gear :: "nat \<Rightarrow> 64 word"
  x_iter :: "string set \<Rightarrow> string list"
  x_gcm_enc :: "string \<Rightarrow> string \<Rightarrow> string \<Rightarrow> string \<Rightarrow> string \<times> string"
  x_gcm_dec :: "string \<Rightarrow> string \<Rightarrow> string \<Rightarrow> string \<Rightarrow> string \<Rightarrow> string option"
  x_hkdf :: "string \<Rightarrow> string"

definition digest_ok :: "ext \<Rightarrow> bool" where
  \<comment> \<open>\<open>digest_size=32\<close>\<close>
  "digest_ok X \<longleftrightarrow> (\<forall>b. length (x_blake X b) = 32)"

definition codecs_ok :: "ext \<Rightarrow> bool" where
  \<comment> \<open>decompression inverts compression\<close>
  "codecs_ok X \<longleftrightarrow> (\<forall>b. x_unzlib X (x_zlib X b) = b) \<and> (\<forall>b. x_unlzma X (x_lzma X b) = b)"

definition gcm_ok :: "ext \<Rightarrow> bool" where
  \<comment> \<open>decryption under the same key, nonce and associated data inverts encryption; a tag has 16 bytes\<close>
  "gcm_ok X \<longleftrightarrow> (\<forall>k n a p. case x_gcm_enc X k n a p of (ct, tag) \<Rightarrow>
     x_gcm_dec X k n a ct tag = Some p \<and> length tag = 16)"

definition iter_ok :: "ext \<Rightarrow> bool" where
  \<comment> \<open>iterating a finite set yields each element once\<close>
  "iter_ok X \<longleftrightarrow> (\<forall>S. finite S \<longrightarrow> set (x_iter X S) = S \<and> distinct (x_iter X S))"

lemma iter_okD:
  assumes "iter_ok X" "finite S"
  shows "set (x_iter X S) = S" "distinct (x_iter X S)"
  using assms by (auto simp: iter_ok_def)

text \<open>A collision of the hash function: two inputs with one digest.\<close>

definition collision :: "ext \<Rightarrow> bool" where
  "collision X \<longleftrightarrow> (\<exists>a b. a \<noteq> b \<and> x_blake X a = x_blake X b)"

end
