(* ===== verification/PyVal.thy ===== *)
theory PyVal
  imports Prelude "HOL-Library.Log_Nat"
begin

text \<open>
  The Python values that live in documents and operation payloads, with the operators the code
  applies to them: equality, the ordering that raises \<open>TypeError\<close> on unrelated types,
  truth, \<open>hash\<close>, \<open>str\<close> and \<open>repr\<close>, decimal integers and the rounding of
  decimal literals to doubles.
\<close>

section \<open>Values\<close>

datatype pyval =
    PNone
  | PBool bool
  | PInt int
  | PFloat rat
  | PStr string
  | PList "pyval list"
  | PDict "(string \<times> pyval) list"

type_synonym doc = "(string, pyval) dict"

definition doc_get :: "doc \<Rightarrow> string \<Rightarrow> pyval" where
  \<comment> \<open>\<open>doc.get(f)\<close>\<close>
  "doc_get d f = dget d f PNone"

lemma doc_get_dset [simp]: "doc_get (dset k v d) f = (if f = k then v else doc_get d f)"
  by (simp add: doc_get_def)

section \<open>Equality, hashing and order\<close>

fun num_of :: "pyval \<Rightarrow> rat option" where
  "num_of (PBool b) = Some (if b then 1 else 0)"
| "num_of (PInt i) = Some (of_int i)"
| "num_of (PFloat q) = Some q"
| "num_of _ = None"

text \<open>
  The key under which a dict files a value: numbers of equal value are one key whatever their
  type, lists and dicts are unhashable.
\<close>

datatype hkey = HNone | HNum rat | HStr string

fun hash_key :: "pyval \<Rightarrow> hkey res" where
  "hash_key PNone = Inr HNone"
| "hash_key (PStr s) = Inr (HStr s)"
| "hash_key (PList xs) = Inl TypeErr"
| "hash_key (PDict d) = Inl TypeErr"
| "hash_key (PBool b) = Inr (HNum (if b then 1 else 0))"
| "hash_key (PInt i) = Inr (HNum (of_int i))"
| "hash_key (PFloat q) = Inr (HNum q)"

fun py_eq :: "pyval \<Rightarrow> pyval \<Rightarrow> bool"
  and py_eq_list :: "pyval list \<Rightarrow> pyval list \<Rightarrow> bool"
  and py_eq_dict :: "(string \<times> pyval) list \<Rightarrow> (string \<times> pyval) list \<Rightarrow> bool" where
  "py_eq PNone b = (b = PNone)"
| "py_eq (PStr s) b = (b = PStr s)"
| "py_eq (PList xs) b = (case b of PList ys \<Rightarrow> py_eq_list xs ys | _ \<Rightarrow> False)"
| "py_eq (PDict d) b =
     (case b of PDict e \<Rightarrow> length d = length e \<and> py_eq_dict d e | _ \<Rightarrow> False)"
| "py_eq (PBool x) b = (num_of b = Some (if x then 1 else 0))"
| "py_eq (PInt i) b = (num_of b = Some (of_int i))"
| "py_eq (PFloat q) b = (num_of b = Some q)"
| "py_eq_list [] ys = (ys = [])"
| "py_eq_list (x # xs) ys = (case ys of [] \<Rightarrow> False | y # ys' \<Rightarrow> py_eq x y \<and> py_eq_list xs ys')"
| "py_eq_dict [] e = True"
| "py_eq_dict ((k, v) # d) e =
     ((case map_of e k of None \<Rightarrow> False | Some w \<Rightarrow> py_eq v w) \<and> py_eq_dict d e)"

text \<open>\<open>a < b\<close>; \<open>None\<close> is \<open>TypeError\<close>.\<close>

fun py_lt :: "pyval \<Rightarrow> pyval \<Rightarrow> bool option"
  and py_lt_list :: "pyval list \<Rightarrow> pyval list \<Rightarrow> bool option" where
  "py_lt (PBool x) b = map_option (\<lambda>y. (if x then 1 else 0) < y) (num_of b)"
| "py_lt (PInt i) b = map_option (\<lambda>y. of_int i < y) (num_of b)"
| "py_lt (PFloat q) b = map_option (\<lambda>y. q < y) (num_of b)"
| "py_lt (PStr s) b = (case b of PStr t \<Rightarrow> Some (s < t) | _ \<Rightarrow> None)"
| "py_lt (PList xs) b = (case b of PList ys \<Rightarrow> py_lt_list xs ys | _ \<Rightarrow> None)"
| "py_lt PNone b = None"
| "py_lt (PDict d) b = None"
| "py_lt_list [] ys = Some (ys \<noteq> [])"
| "py_lt_list (x # xs) ys =
     (case ys of [] \<Rightarrow> Some False
      | y # ys' \<Rightarrow> if py_eq x y then py_lt_list xs ys' else py_lt x y)"

definition py_le :: "pyval \<Rightarrow> pyval \<Rightarrow> bool option" where
  \<comment> \<open>\<open>a <= b\<close> on values that are not lists\<close>
  "py_le a b = (case py_lt a b of None \<Rightarrow> None | Some r \<Rightarrow> Some (r \<or> py_eq a b))"

text \<open>Two hashable values are equal exactly when they are filed under one key.\<close>

lemma hash_key_eq_iff:
  assumes "hash_key a = Inr h" "hash_key b = Inr k"
  shows "py_eq a b \<longleftrightarrow> h = k"
  using assms by (cases a; cases b) auto

lemma py_eq_hashable:
  assumes "py_eq a b" "hash_key b = Inr k"
  shows "hash_key a = Inr k"
  using assms by (cases a; cases b) (auto split: if_splits)

lemma hash_key_cases:
  obtains h where "hash_key a = Inr h" | "hash_key a = Inl TypeErr"
  by (cases a) auto

lemma py_lt_num: "num_of a = Some x \<Longrightarrow> num_of b = Some y \<Longrightarrow> py_lt a b = Some (x < y)"
  by (cases a) auto

lemma py_eq_num: "num_of a = Some x \<Longrightarrow> num_of b = Some y \<Longrightarrow> py_eq a b \<longleftrightarrow> x = y"
  by (cases a) auto

fun py_truth :: "pyval \<Rightarrow> bool" where
  "py_truth PNone = False"
| "py_truth (PBool b) = b"
| "py_truth (PInt i) = (i \<noteq> 0)"
| "py_truth (PFloat q) = (q \<noteq> 0)"
| "py_truth (PStr s) = (s \<noteq> [])"
| "py_truth (PList xs) = (xs \<noteq> [])"
| "py_truth (PDict d) = (d \<noteq> [])"

section \<open>Characters\<close>

definition is_digit :: "char \<Rightarrow> bool" where
  "is_digit c \<longleftrightarrow> CHR ''0'' \<le> c \<and> c \<le> CHR ''9''"

definition is_lower :: "char \<Rightarrow> bool" where
  "is_lower c \<longleftrightarrow> CHR ''a'' \<le> c \<and> c \<le> CHR ''z''"

definition is_upper :: "char \<Rightarrow> bool" where
  "is_upper c \<longleftrightarrow> CHR ''A'' \<le> c \<and> c \<le> CHR ''Z''"

definition is_space :: "char \<Rightarrow> bool" where
  \<comment> \<open>the characters matched by \<open>\s\<close> and removed by \<open>str.strip\<close>\<close>
  "is_space c \<longleftrightarrow> (let n = (of_char c :: nat) in
     (9 \<le> n \<and> n \<le> 13) \<or> (28 \<le> n \<and> n \<le> 32) \<or> n = 133 \<or> n = 160)"

definition char_lower :: "char \<Rightarrow> char" where
  "char_lower c = (if is_upper c then char_of ((of_char c :: nat) + 32) else c)"

definition char_upper :: "char \<Rightarrow> char" where
  "char_upper c = (if is_lower c then char_of ((of_char c :: nat) - 32) else c)"

definition str_lower :: "string \<Rightarrow> string" where
  "str_lower = map char_lower"

definition str_upper :: "string \<Rightarrow> string" where
  "str_upper = map char_upper"

definition str_strip :: "string \<Rightarrow> string" where
  "str_strip s = rev (dropWhile is_space (rev (dropWhile is_space s)))"

fun str_find :: "string \<Rightarrow> string \<Rightarrow> bool" where
  \<comment> \<open>\<open>p in s\<close>\<close>
  "str_find p [] = (p = [])"
| "str_find p (c # s) = (starts_with p (c # s) \<or> str_find p s)"

section \<open>Decimal integers\<close>

definition digit_char :: "nat \<Rightarrow> char" where
  "digit_char d = char_of (48 + d)"

definition digit_val :: "char \<Rightarrow> nat" where
  "digit_val c = of_char c - 48"

fun show_nat :: "nat \<Rightarrow> string" where
  "show_nat n = (if n < 10 then [digit_char n] else show_nat (n div 10) @ [digit_char (n mod 10)])"

declare show_nat.simps [simp del]

definition read_nat :: "string \<Rightarrow> nat" where
  "read_nat s = foldl (\<lambda>a c. 10 * a + digit_val c) 0 s"

definition show_int :: "int \<Rightarrow> string" where
  "show_int i = (if i < 0 then CHR ''-'' # show_nat (nat (- i)) else show_nat (nat i))"

lemma of_char_digit_char: "d < 10 \<Longrightarrow> (of_char (digit_char d) :: nat) = 48 + d"
  by (simp add: digit_char_def)

lemma digit_val_char [simp]: "d < 10 \<Longrightarrow> digit_val (digit_char d) = d"
  by (simp add: digit_val_def of_char_digit_char)

lemma is_digit_iff: "is_digit c \<longleftrightarrow> 48 \<le> (of_char c :: nat) \<and> (of_char c :: nat) \<le> 57"
  by (simp add: is_digit_def less_eq_char_def)

lemma is_digit_digit_char [simp]: "d < 10 \<Longrightarrow> is_digit (digit_char d)"
  by (simp add: is_digit_iff of_char_digit_char)

lemma show_nat_digits: "list_all is_digit (show_nat n)"
proof (induction n rule: show_nat.induct)
  case (1 n)
  then show ?case by (subst show_nat.simps) auto
qed

lemma show_nat_not_Nil [simp]: "show_nat n \<noteq> []"
  by (subst show_nat.simps) simp

lemma read_nat_snoc: "read_nat (s @ [c]) = 10 * read_nat s + digit_val c"
  by (simp add: read_nat_def)

lemma read_show_nat [simp]: "read_nat (show_nat n) = n"
proof (induction n rule: show_nat.induct)
  case (1 n)
  show ?case
  proof (cases "n < 10")
    case True
    then show ?thesis by (subst show_nat.simps) (simp add: read_nat_def)
  next
    case False
    with 1 show ?thesis by (subst show_nat.simps) (simp add: read_nat_snoc)
  qed
qed

text \<open>\<open>int(s)\<close> for a string: surrounding white space, a sign, digits with single underscores.\<close>

fun digit_groups :: "string \<Rightarrow> bool" where
  "digit_groups [] = False"
| "digit_groups [c] = is_digit c"
| "digit_groups (c # d # s) =
     (is_digit c \<and> (if d = CHR ''_'' then digit_groups s else digit_groups (d # s)))"

definition int_digits :: "string \<Rightarrow> int res" where
  "int_digits s =
     (if digit_groups s then Inr (int (read_nat (filter is_digit s))) else Inl ValueErr)"

definition int_of_str :: "string \<Rightarrow> int res" where
  "int_of_str s =
     (case str_strip s of
        [] \<Rightarrow> Inl ValueErr
      | c # t \<Rightarrow>
          if c = CHR ''-'' then bindE (int_digits t) (\<lambda>n. Inr (- n))
          else if c = CHR ''+'' then int_digits t
          else int_digits (c # t))"

lemma digit_groups_digits: "list_all is_digit s \<Longrightarrow> s \<noteq> [] \<Longrightarrow> digit_groups s"
  by (induction s rule: digit_groups.induct) (auto simp: is_digit_iff)

lemma filter_list_all: "list_all P s \<Longrightarrow> filter P s = s"
  by (induction s) auto

lemma int_digits_show_nat [simp]: "int_digits (show_nat n) = Inr (int n)"
  by (simp add: int_digits_def digit_groups_digits show_nat_digits filter_list_all)

lemma is_digit_not_space: "is_digit c \<Longrightarrow> \<not> is_space c"
  by (auto simp: is_digit_iff is_space_def Let_def)

lemma strip_no_space:
  "list_all (\<lambda>c. \<not> is_space c) s \<Longrightarrow> str_strip s = s"
proof -
  assume a: "list_all (\<lambda>c. \<not> is_space c) s"
  then have "dropWhile is_space s = s"
    by (cases s) auto
  moreover from a have "list_all (\<lambda>c. \<not> is_space c) (rev s)"
    by (simp add: list_all_iff)
  then have "dropWhile is_space (rev s) = rev s"
    by (cases "rev s") simp_all
  ultimately show ?thesis by (simp add: str_strip_def)
qed

lemma show_int_no_space: "list_all (\<lambda>c. \<not> is_space c) (show_int i)"
proof -
  have "list_all (\<lambda>c. \<not> is_space c) (show_nat n)" for n
    using show_nat_digits[of n] by (auto simp: list_all_iff is_digit_not_space)
  then show ?thesis by (auto simp: show_int_def is_space_def Let_def)
qed

text \<open>\<open>int(str(i)) == i\<close>\<close>

lemma int_of_show_int [simp]: "int_of_str (show_int i) = Inr i"
proof (cases "i < 0")
  case True
  then show ?thesis
    by (simp add: int_of_str_def strip_no_space[OF show_int_no_space])
      (simp add: show_int_def)
next
  case False
  obtain c t where ct: "show_nat (nat i) = c # t"
    by (cases "show_nat (nat i)") auto
  with show_nat_digits[of "nat i"] have "is_digit c" by simp
  then have "c \<noteq> CHR ''-''" "c \<noteq> CHR ''+''"
    by (auto simp: is_digit_iff)
  with False ct int_digits_show_nat[of "nat i"] show ?thesis
    by (simp add: int_of_str_def strip_no_space[OF show_int_no_space]) (simp add: show_int_def)
qed

section \<open>Doubles\<close>

text \<open>
  Rounding to the nearest double, ties to even, with an unbounded exponent (overflow to
  infinity and subnormal numbers are not modelled).
\<close>

definition round_half_even :: "rat \<Rightarrow> int" where
  "round_half_even q =
     (let f = \<lfloor>q\<rfloor>; r = q - of_int f
      in if r < 1 / 2 then f else if 1 / 2 < r then f + 1 else if even f then f else f + 1)"

definition pow2 :: "int \<Rightarrow> rat" where
  "pow2 e = (if 0 \<le> e then 2 ^ nat e else 1 / 2 ^ nat (- e))"

definition exponent :: "rat \<Rightarrow> int" where
  "exponent q =
     (let (n, d) = quotient_of q; k = bitlen n - bitlen d in if pow2 k \<le> q then k else k - 1)"

definition fl :: "rat \<Rightarrow> rat" where
  "fl q = (if q = 0 then 0
           else let p = pow2 (exponent \<bar>q\<bar> - 52) in of_int (round_half_even (q / p)) * p)"

definition read_decimal :: "string \<Rightarrow> string \<Rightarrow> rat" where
  \<comment> \<open>the double nearest to the literal \<open>whole.frac\<close>\<close>
  "read_decimal whole frc =
     fl (of_nat (read_nat (whole @ frc)) / 10 ^ length frc)"

section \<open>str and repr\<close>

definition hex_digit :: "nat \<Rightarrow> char" where
  "hex_digit n = (if n < 10 then char_of (48 + n) else char_of (87 + n))"

definition hex2 :: "nat \<Rightarrow> string" where
  "hex2 n = [hex_digit (n div 16), hex_digit (n mod 16)]"

definition repr_char :: "char \<Rightarrow> char \<Rightarrow> string" where
  "repr_char q c =
     (let n = (of_char c :: nat) in
      if c = q \<or> n = 92 then [CHR 0x5C, c]
      else if n = 10 then [CHR 0x5C, CHR ''n'']
      else if n = 13 then [CHR 0x5C, CHR ''r'']
      else if n = 9 then [CHR 0x5C, CHR ''t'']
      else if n < 32 \<or> (127 \<le> n \<and> n \<le> 160) \<or> n = 173 then CHR 0x5C # CHR ''x'' # hex2 n
      else [c])"

definition str_repr :: "string \<Rightarrow> string" where
  "str_repr s =
     (let q = (if CHR 0x27 \<in> set s \<and> CHR 0x22 \<notin> set s then CHR 0x22 else CHR 0x27)
      in q # concat (map (repr_char q) s) @ [q])"

fun join :: "string \<Rightarrow> string list \<Rightarrow> string" where
  \<comment> \<open>\<open>sep.join(xs)\<close>\<close>
  "join sep [] = []"
| "join sep [x] = x"
| "join sep (x # y # xs) = x @ sep @ join sep (y # xs)"

fun py_repr :: "ext \<Rightarrow> pyval \<Rightarrow> string" where
  "py_repr X PNone = ''None''"
| "py_repr X (PBool b) = (if b then ''True'' else ''False'')"
| "py_repr X (PInt i) = show_int i"
| "py_repr X (PFloat q) = x_frepr X q"
| "py_repr X (PStr s) = str_repr s"
| "py_repr X (PList xs) = ''['' @ join '', '' (map (py_repr X) xs) @ '']''"
| "py_repr X (PDict d) =
     ''{'' @ join '', '' (map (\<lambda>(k, v). str_repr k @ '': '' @ py_repr X v) d) @ ''}''"

fun py_str :: "ext \<Rightarrow> pyval \<Rightarrow> string" where
  "py_str X (PStr s) = s"
| "py_str X v = py_repr X v"

end
