(* ===== verification/Json.thy ===== *)
theory Json
  imports PyVal
begin

text \<open>
  What the code uses of the \<open>json\<close> module: \<open>json.dumps\<close> with its separators and
  \<open>sort_keys\<close>, the canonical encoding \<open>canon\<close> of \<open>nedb.log\<close> that is hashed into
  the chain, and \<open>json.loads\<close>.  The scanner takes fuel; the length of the text plus one
  is enough for any text the encoder produces, which the round trip shows.
\<close>

section \<open>Encoding\<close>

definition json_char :: "char \<Rightarrow> string" where
  "json_char c =
     (if c = CHR 0x22 then [CHR 0x5C, CHR 0x22]
      else if c = CHR 0x5C then [CHR 0x5C, CHR 0x5C]
      else if c = CHR 0x0A then [CHR 0x5C, CHR ''n'']
      else if c = CHR 0x0D then [CHR 0x5C, CHR ''r'']
      else if c = CHR 0x09 then [CHR 0x5C, CHR ''t'']
      else if c = CHR 0x0C then [CHR 0x5C, CHR ''f'']
      else if c = CHR 0x08 then [CHR 0x5C, CHR ''b'']
      else if 32 \<le> (of_char c :: nat) \<and> (of_char c :: nat) \<le> 126 then [c]
      else [CHR 0x5C, CHR ''u'', CHR ''0'', CHR ''0''] @ hex2 (of_char c))"

definition json_str :: "string \<Rightarrow> string" where
  "json_str s = CHR 0x22 # concat (map json_char s) @ [CHR 0x22]"

fun dumps :: "ext \<Rightarrow> string \<Rightarrow> string \<Rightarrow> pyval \<Rightarrow> string" where
  "dumps X isep ksep PNone = ''null''"
| "dumps X isep ksep (PBool b) = (if b then ''true'' else ''false'')"
| "dumps X isep ksep (PInt i) = show_int i"
| "dumps X isep ksep (PFloat q) = x_frepr X q"
| "dumps X isep ksep (PStr s) = json_str s"
| "dumps X isep ksep (PList xs) = ''['' @ join isep (map (dumps X isep ksep) xs) @ '']''"
| "dumps X isep ksep (PDict d) =
     ''{'' @ join isep (map (\<lambda>(k, v). json_str k @ ksep @ dumps X isep ksep v) d) @ ''}''"

text \<open>\<open>sort_keys=True\<close> sorts every dict of the value by key.\<close>

fun sort_keys :: "pyval \<Rightarrow> pyval" where
  "sort_keys (PList xs) = PList (map sort_keys xs)"
| "sort_keys (PDict d) = PDict (sort_key fst (map (\<lambda>(k, v). (k, sort_keys v)) d))"
| "sort_keys v = v"

definition canon :: "ext \<Rightarrow> pyval \<Rightarrow> string" where
  "canon X v = dumps X '','' '':'' (sort_keys v)"

section \<open>Decoding\<close>

definition json_space :: "char \<Rightarrow> bool" where
  "json_space c \<longleftrightarrow> c \<in> {CHR '' '', CHR 0x09, CHR 0x0A, CHR 0x0D}"

abbreviation skip :: "string \<Rightarrow> string" where
  "skip \<equiv> dropWhile json_space"

definition hex_val :: "char \<Rightarrow> nat option" where
  "hex_val c =
     (let n = of_char c in
      if 48 \<le> n \<and> n \<le> 57 then Some (n - 48)
      else if 97 \<le> n \<and> n \<le> 102 then Some (n - 87)
      else if 65 \<le> n \<and> n \<le> 70 then Some (n - 55)
      else None)"

fun hex4 :: "char \<Rightarrow> char \<Rightarrow> char \<Rightarrow> char \<Rightarrow> char res" where
  \<comment> \<open>code points from 256 on are outside the model's strings\<close>
  "hex4 a b c d =
     (case (hex_val a, hex_val b, hex_val c, hex_val d) of
        (Some p, Some q, Some r, Some s) \<Rightarrow>
          if p = 0 \<and> q = 0 then Inr (char_of (16 * r + s)) else Inl Untyped
      | _ \<Rightarrow> Inl DecodeErr)"

definition unescape :: "char \<Rightarrow> char option" where
  "unescape c =
     (if c = CHR 0x22 \<or> c = CHR 0x5C \<or> c = CHR ''/'' then Some c
      else if c = CHR ''n'' then Some (CHR 0x0A)
      else if c = CHR ''r'' then Some (CHR 0x0D)
      else if c = CHR ''t'' then Some (CHR 0x09)
      else if c = CHR ''f'' then Some (CHR 0x0C)
      else if c = CHR ''b'' then Some (CHR 0x08)
      else None)"

text \<open>The characters of a string after its opening quote, and what follows the closing one.\<close>

fun scan_str :: "string \<Rightarrow> (string \<times> string) res" where
  "scan_str [] = Inl DecodeErr"
| "scan_str (c # s) =
     (if c = CHR 0x22 then Inr ([], s)
      else if c = CHR 0x5C then
        (case s of
           [] \<Rightarrow> Inl DecodeErr
         | e # t \<Rightarrow>
             if e = CHR ''u'' then
               (case t of
                  h1 # h2 # h3 # h4 # u \<Rightarrow>
                    bindE (hex4 h1 h2 h3 h4)
                      (\<lambda>x. bindE (scan_str u) (\<lambda>(xs, r). Inr (x # xs, r)))
                | _ \<Rightarrow> Inl DecodeErr)
             else
               (case unescape e of
                  None \<Rightarrow> Inl DecodeErr
                | Some x \<Rightarrow> bindE (scan_str t) (\<lambda>(xs, r). Inr (x # xs, r))))
      else if (of_char c :: nat) < 32 then Inl DecodeErr
      else bindE (scan_str s) (\<lambda>(xs, r). Inr (c # xs, r)))"

definition scan_int_part :: "string \<Rightarrow> (string \<times> string) res" where
  "scan_int_part s =
     (case s of
        [] \<Rightarrow> Inl DecodeErr
      | c # t \<Rightarrow>
          if c = CHR ''0'' then Inr (''0'', t)
          else if is_digit c then Inr (takeWhile is_digit s, dropWhile is_digit s)
          else Inl DecodeErr)"

definition scan_frac :: "string \<Rightarrow> string option \<times> string" where
  "scan_frac s =
     (case s of
        c # d # t \<Rightarrow>
          if c = CHR ''.'' \<and> is_digit d then (Some (takeWhile is_digit (d # t)), dropWhile is_digit (d # t))
          else (None, s)
      | _ \<Rightarrow> (None, s))"

definition scan_exp :: "string \<Rightarrow> int option \<times> string" where
  "scan_exp s =
     (case s of
        c # d # t \<Rightarrow>
          if c = CHR ''e'' \<or> c = CHR ''E'' then
            (if is_digit d
             then (Some (int (read_nat (takeWhile is_digit (d # t)))), dropWhile is_digit (d # t))
             else if (d = CHR ''+'' \<or> d = CHR ''-'') \<and> t \<noteq> [] \<and> is_digit (hd t)
             then (Some ((if d = CHR ''-'' then -1 else 1) * int (read_nat (takeWhile is_digit t))),
                   dropWhile is_digit t)
             else (None, s))
          else (None, s)
      | _ \<Rightarrow> (None, s))"

definition pow10 :: "int \<Rightarrow> rat" where
  "pow10 e = (if 0 \<le> e then 10 ^ nat e else 1 / 10 ^ nat (- e))"

definition scan_unsigned :: "bool \<Rightarrow> string \<Rightarrow> (pyval \<times> string) res" where
  "scan_unsigned neg s =
     bindE (scan_int_part s) (\<lambda>(ip, r1).
       (case scan_frac r1 of (fp, r2) \<Rightarrow>
          (case scan_exp r2 of (ep, r3) \<Rightarrow>
             if fp = None \<and> ep = None
             then Inr (PInt ((if neg then -1 else 1) * int (read_nat ip)), r3)
             else
               (let ds = (case fp of None \<Rightarrow> [] | Some f \<Rightarrow> f);
                    e = (case ep of None \<Rightarrow> 0 | Some x \<Rightarrow> x);
                    m = of_nat (read_nat (ip @ ds)) * pow10 (e - int (length ds))
                in Inr (PFloat (fl (if neg then - m else m)), r3)))))"

definition scan_num :: "string \<Rightarrow> (pyval \<times> string) res" where
  "scan_num s =
     (case s of
        [] \<Rightarrow> Inl DecodeErr
      | c # t \<Rightarrow> if c = CHR ''-'' then scan_unsigned True t else scan_unsigned False s)"

fun scan_value :: "nat \<Rightarrow> string \<Rightarrow> (pyval \<times> string) res"
  and scan_items :: "nat \<Rightarrow> string \<Rightarrow> (pyval list \<times> string) res"
  and scan_pairs :: "nat \<Rightarrow> string \<Rightarrow> ((string \<times> pyval) list \<times> string) res" where
  "scan_value 0 s = Inl DecodeErr"
| "scan_value (Suc n) [] = Inl DecodeErr"
| "scan_value (Suc n) (c # s) =
     (if c = CHR 0x22 then bindE (scan_str s) (\<lambda>(x, r). Inr (PStr x, r))
      else if c = CHR ''['' then
        (case skip s of
           [] \<Rightarrow> Inl DecodeErr
         | d # t \<Rightarrow> if d = CHR '']'' then Inr (PList [], t)
                    else bindE (scan_items n (d # t)) (\<lambda>(xs, r). Inr (PList xs, r)))
      else if c = CHR ''{'' then
        (case skip s of
           [] \<Rightarrow> Inl DecodeErr
         | d # t \<Rightarrow> if d = CHR ''}'' then Inr (PDict [], t)
                    else bindE (scan_pairs n (d # t))
                           (\<lambda>(ps, r). Inr (PDict (fold (\<lambda>(k, v). dset k v) ps []), r)))
      else if starts_with ''null'' (c # s) then Inr (PNone, drop 3 s)
      else if starts_with ''true'' (c # s) then Inr (PBool True, drop 3 s)
      else if starts_with ''false'' (c # s) then Inr (PBool False, drop 4 s)
      else scan_num (c # s))"
| "scan_items 0 s = Inl DecodeErr"
| "scan_items (Suc n) s =
     bindE (scan_value n s) (\<lambda>(x, r).
       (case skip r of
          [] \<Rightarrow> Inl DecodeErr
        | d # t \<Rightarrow>
            if d = CHR '','' then bindE (scan_items n (skip t)) (\<lambda>(xs, r'). Inr (x # xs, r'))
            else if d = CHR '']'' then Inr ([x], t)
            else Inl DecodeErr))"
| "scan_pairs 0 s = Inl DecodeErr"
| "scan_pairs (Suc n) s =
     (case s of
        [] \<Rightarrow> Inl DecodeErr
      | q # s1 \<Rightarrow>
          if q \<noteq> CHR 0x22 then Inl DecodeErr
          else bindE (scan_str s1) (\<lambda>(k, r1).
            (case skip r1 of
               [] \<Rightarrow> Inl DecodeErr
             | c # r2 \<Rightarrow>
                 if c \<noteq> CHR '':'' then Inl DecodeErr
                 else bindE (scan_value n (skip r2)) (\<lambda>(v, r3).
                   (case skip r3 of
                      [] \<Rightarrow> Inl DecodeErr
                    | d # t \<Rightarrow>
                        if d = CHR '','' then
                          bindE (scan_pairs n (skip t)) (\<lambda>(ps, r'). Inr ((k, v) # ps, r'))
                        else if d = CHR ''}'' then Inr ([(k, v)], t)
                        else Inl DecodeErr)))))"

definition loads :: "string \<Rightarrow> pyval res" where
  "loads s =
     bindE (scan_value (Suc (length s)) (skip s))
       (\<lambda>(v, r). if skip r = [] then Inr v else Inl DecodeErr)"

section \<open>Strings round-trip\<close>

lemma hex_val_digit: "n < 16 \<Longrightarrow> hex_val (hex_digit n) = Some n"
  by (auto simp: hex_val_def hex_digit_def Let_def)

lemma hex_val_0: "hex_val (CHR ''0'') = Some 0"
  by (simp add: hex_val_def)

lemma hex4_char:
  "hex4 (CHR ''0'') (CHR ''0'') (hex_digit (of_char c div 16)) (hex_digit (of_char c mod 16)) = Inr c"
  by (simp add: hex_val_digit hex_val_0 less_mult_imp_div_less)

lemma scan_str_char: "scan_str (json_char c @ s) = bindE (scan_str s) (\<lambda>(xs, r). Inr (c # xs, r))"
  unfolding json_char_def by (simp add: hex2_def hex4_char unescape_def del: hex4.simps)

lemma scan_json_chars: "scan_str (concat (map json_char xs) @ CHR 0x22 # r) = Inr (xs, r)"
  by (induction xs) (simp_all add: scan_str_char)

lemma scan_json_str: "s = json_str x @ r \<Longrightarrow> scan_str (tl s) = Inr (x, r)"
  by (simp add: json_str_def scan_json_chars)

section \<open>Integers round-trip\<close>

definition num_end :: "string \<Rightarrow> bool" where
  "num_end r \<longleftrightarrow> (case r of [] \<Rightarrow> True
     | c # _ \<Rightarrow> \<not> is_digit c \<and> c \<noteq> CHR ''.'' \<and> c \<noteq> CHR ''e'' \<and> c \<noteq> CHR ''E'')"

lemma show_nat_lead: "show_nat n = CHR ''0'' # t \<Longrightarrow> n = 0 \<and> t = []"
proof (induction n arbitrary: t rule: show_nat.induct)
  case (1 n)
  show ?case
  proof (cases "n < 10")
    case True
    with "1.prems" have "digit_char n = CHR ''0''" "t = []"
      by (simp_all add: show_nat.simps[of n])
    with True digit_val_char[of n] show ?thesis by (simp add: digit_val_def)
  next
    case False
    with "1.prems" obtain u where "show_nat (n div 10) = CHR ''0'' # u"
      by (cases "show_nat (n div 10)") (auto simp: show_nat.simps[of n])
    with "1.IH" False show ?thesis by auto
  qed
qed

lemma takeWhile_digits: "list_all is_digit s \<Longrightarrow> num_end r \<Longrightarrow> takeWhile is_digit (s @ r) = s"
  and dropWhile_digits: "list_all is_digit s \<Longrightarrow> num_end r \<Longrightarrow> dropWhile is_digit (s @ r) = r"
  by (induction s) (auto simp: num_end_def split: list.splits)

lemma scan_int_part_show:
  assumes "num_end r"
  shows "scan_int_part (show_nat n @ r) = Inr (show_nat n, r)"
proof -
  obtain c t where ct: "show_nat n = c # t" by (cases "show_nat n") auto
  show ?thesis
  proof (cases "c = CHR ''0''")
    case True
    with ct show_nat_lead[of n t] show ?thesis by (simp add: scan_int_part_def)
  next
    case False
    have "is_digit c" using show_nat_digits[of n] ct by simp
    with False ct takeWhile_digits[OF show_nat_digits assms, of n]
      dropWhile_digits[OF show_nat_digits assms, of n]
    show ?thesis by (simp add: scan_int_part_def)
  qed
qed

lemma num_end_no_frac: "num_end r \<Longrightarrow> scan_frac r = (None, r) \<and> scan_exp r = (None, r)"
  by (auto simp: num_end_def scan_frac_def scan_exp_def split: list.splits)

lemma scan_unsigned_show:
  "num_end r \<Longrightarrow>
   scan_unsigned neg (show_nat n @ r) = Inr (PInt ((if neg then -1 else 1) * int n), r)"
  by (simp add: scan_unsigned_def scan_int_part_show num_end_no_frac)

lemma scan_num_int:
  assumes "num_end r"
  shows "scan_num (show_int i @ r) = Inr (PInt i, r)"
proof (cases "i < 0")
  case True
  with assms show ?thesis by (simp add: show_int_def scan_num_def scan_unsigned_show)
next
  case False
  obtain c t where ct: "show_nat (nat i) = c # t" by (cases "show_nat (nat i)") auto
  with show_nat_digits[of "nat i"] have "c \<noteq> CHR ''-''" by (auto simp: is_digit_iff)
  with ct have "scan_num (show_nat (nat i) @ r) = scan_unsigned False (show_nat (nat i) @ r)"
    by (simp add: scan_num_def)
  with False assms show ?thesis by (simp add: show_int_def scan_unsigned_show)
qed

section \<open>Values round-trip\<close>

text \<open>
  Values as the code builds them: dicts have distinct keys and floats are doubles.  Of the
  runtime's \<open>repr\<close> of a float the round trip needs that \<open>json.loads\<close> reads it back.
\<close>

fun pv_ok :: "pyval \<Rightarrow> bool" where
  "pv_ok (PFloat q) = (fl q = q)"
| "pv_ok (PList xs) = (\<forall>x\<in>set xs. pv_ok x)"
| "pv_ok (PDict d) = (distinct (map fst d) \<and> (\<forall>p\<in>set d. pv_ok (snd p)))"
| "pv_ok v = True"

definition num_start :: "char \<Rightarrow> bool" where
  "num_start c \<longleftrightarrow> c = CHR ''-'' \<or> is_digit c"

definition frepr_ok :: "ext \<Rightarrow> bool" where
  "frepr_ok X \<longleftrightarrow> (\<forall>q. fl q = q \<longrightarrow>
     (\<exists>c t. x_frepr X q = c # t \<and> num_start c) \<and>
     (\<forall>r. num_end r \<longrightarrow> scan_num (x_frepr X q @ r) = Inr (PFloat q, r)))"

definition seps :: "string \<Rightarrow> string \<Rightarrow> bool" where
  "seps isep ksep \<longleftrightarrow>
     (\<exists>sp. isep = CHR '','' # sp \<and> list_all json_space sp) \<and>
     (\<exists>sp. ksep = CHR '':'' # sp \<and> list_all json_space sp)"

lemma seps_canon [simp]: "seps '','' '':''"
  by (simp add: seps_def)

lemma seps_default [simp]: "seps '', '' '': ''"
  by (simp add: seps_def json_space_def)

definition val_start :: "char \<Rightarrow> bool" where
  "val_start c \<longleftrightarrow>
     num_start c \<or> c \<in> {CHR 0x22, CHR ''['', CHR ''{'', CHR ''n'', CHR ''t'', CHR ''f''}"

lemma num_start_chars [simp]:
  "\<not> num_start (CHR 0x22)" "\<not> num_start (CHR ''['')" "\<not> num_start (CHR ''{'')"
  "\<not> num_start (CHR ''n'')" "\<not> num_start (CHR ''t'')" "\<not> num_start (CHR ''f'')"
  "\<not> num_start (CHR '']'')" "\<not> num_start (CHR ''}'')" "\<not> num_start (CHR '' '')"
  "\<not> num_start (CHR 0x09)" "\<not> num_start (CHR 0x0A)" "\<not> num_start (CHR 0x0D)"
  by code_simp+

lemma num_start_facts:
  assumes "num_start c"
  shows "\<not> json_space c"
    "c \<notin> {CHR 0x22, CHR ''['', CHR ''{'', CHR ''n'', CHR ''t'', CHR ''f'', CHR '']'', CHR ''}''}"
  using assms by (auto simp: json_space_def)

lemma val_start_facts: "val_start c \<Longrightarrow> \<not> json_space c \<and> c \<noteq> CHR '']'' \<and> c \<noteq> CHR ''}''"
proof (cases "num_start c")
  case True
  then show ?thesis using num_start_facts[of c] by simp
qed (auto simp: val_start_def json_space_def)

lemma show_int_start: "\<exists>c t. show_int i = c # t \<and> num_start c"
proof (cases "i < 0")
  case False
  then show ?thesis
    using show_nat_digits[of "nat i"]
    by (cases "show_nat (nat i)") (auto simp: show_int_def num_start_def)
qed (simp add: show_int_def num_start_def)

lemma dumps_start:
  assumes "frepr_ok X" "pv_ok v"
  shows "\<exists>c t. dumps X isep ksep v = c # t \<and> val_start c"
proof (cases v)
  case (PInt i)
  then show ?thesis using show_int_start[of i] by (auto simp: val_start_def)
next
  case (PFloat q)
  with assms show ?thesis by (auto simp: val_start_def frepr_ok_def)
qed (auto simp: val_start_def json_str_def)

lemma skip_val: "s = c # t \<Longrightarrow> val_start c \<Longrightarrow> skip s = s"
  by (simp add: val_start_facts)

lemma skip_spaces: "list_all json_space sp \<Longrightarrow> skip (sp @ s) = skip s"
  by (induction sp) auto

lemma scan_value_num:
  assumes "s = c # t" "num_start c"
  shows "scan_value (Suc n) s = scan_num s"
  using assms num_start_facts[OF assms(2)] by (auto simp: starts_with_def)

lemma fold_dset_fresh:
  "distinct (map fst (acc @ ps)) \<Longrightarrow> fold (\<lambda>(k, v). dset k v) ps acc = acc @ ps"
proof (induction ps arbitrary: acc)
  case (Cons p ps)
  obtain k v where p: "p = (k, v)" by force
  with Cons.prems have "k \<notin> fst ` set acc" by auto
  then have "dset k v acc = acc @ [(k, v)]"
    by (induction acc) auto
  with Cons p show ?case by simp
qed simp

lemma join_Cons: "xs \<noteq> [] \<Longrightarrow> join sep (x # xs) = x @ sep @ join sep xs"
  by (cases xs) auto

definition scans :: "ext \<Rightarrow> string \<Rightarrow> string \<Rightarrow> pyval \<Rightarrow> bool" where
  "scans X isep ksep v \<longleftrightarrow> (\<forall>n r. length (dumps X isep ksep v) \<le> n \<longrightarrow> num_end r \<longrightarrow>
     scan_value n (dumps X isep ksep v @ r) = Inr (v, r))"

lemma num_end_simps [simp]:
  "num_end (CHR '','' # r)" "num_end (CHR '']'' # r)" "num_end (CHR ''}'' # r)" "num_end []"
  by (simp_all add: num_end_def is_digit_iff)

lemma scan_items_join:
  assumes X: "frepr_ok X" and sep: "seps isep ksep"
  shows "xs \<noteq> [] \<Longrightarrow> (\<forall>x\<in>set xs. pv_ok x \<and> scans X isep ksep x) \<Longrightarrow>
    length (join isep (map (dumps X isep ksep) xs)) < n \<Longrightarrow>
    scan_items n (join isep (map (dumps X isep ksep) xs) @ CHR '']'' # r) = Inr (xs, r)"
proof (induction xs arbitrary: n)
  case Nil
  then show ?case by simp
next
  case (Cons x xs)
  let ?d = "dumps X isep ksep"
  obtain m where n: "n = Suc m" using Cons.prems(3) by (cases n) auto
  have sx: "scan_value m (?d x @ r') = Inr (x, r')" if "num_end r'" "length (?d x) \<le> m" for r'
    using Cons.prems(2) that by (auto simp: scans_def)
  show ?case
  proof (cases "xs = []")
    case True
    with Cons.prems(3) n sx show ?thesis by (simp add: json_space_def)
  next
    case False
    obtain sp where isep: "isep = CHR '','' # sp" and sp: "list_all json_space sp"
      using sep by (auto simp: seps_def)
    obtain y ys where xs: "xs = y # ys" using False by (cases xs) auto
    obtain c t where ct: "?d y = c # t" "val_start c"
      using dumps_start[OF X] Cons.prems(2) xs by fastforce
    define rest where "rest = join isep (map ?d xs)"
    have eq: "join isep (map ?d (x # xs)) @ CHR '']'' # r = ?d x @ isep @ rest @ CHR '']'' # r"
      using False by (simp add: join_Cons rest_def)
    have "\<exists>u. rest = c # u" using ct xs by (cases ys) (auto simp: rest_def)
    then have sr: "skip (sp @ rest @ CHR '']'' # r) = rest @ CHR '']'' # r"
      using ct(2) by (auto simp: skip_spaces[OF sp] val_start_facts)
    moreover
    have "length (join isep (map ?d (x # xs))) = length (?d x) + length isep + length rest"
      using False by (simp add: join_Cons rest_def)
    moreover have "1 \<le> length isep" by (simp add: isep)
    ultimately have "length rest < m" using Cons.prems(3) n by linarith
    then have "scan_items m (rest @ CHR '']'' # r) = Inr (xs, r)"
      using Cons.IH[OF False] Cons.prems by (simp add: rest_def)
    moreover have "length (?d x) \<le> m"
      using Cons.prems(3) n False by (simp add: join_Cons)
    moreover have i1: "isep @ u = CHR '','' # sp @ u" for u by (simp add: isep)
    ultimately show ?thesis
      unfolding eq using sx by (simp add: n i1 json_space_def sr)
  qed
qed

lemma scan_pairs_join:
  assumes X: "frepr_ok X" and sep: "seps isep ksep"
  shows "ps \<noteq> [] \<Longrightarrow> (\<forall>p\<in>set ps. pv_ok (snd p) \<and> scans X isep ksep (snd p)) \<Longrightarrow>
    length (join isep (map (\<lambda>(k, v). json_str k @ ksep @ dumps X isep ksep v) ps)) < n \<Longrightarrow>
    scan_pairs n (join isep (map (\<lambda>(k, v). json_str k @ ksep @ dumps X isep ksep v) ps)
      @ CHR ''}'' # r) = Inr (ps, r)"
proof (induction ps arbitrary: n)
  case Nil
  then show ?case by simp
next
  case (Cons p ps)
  let ?d = "dumps X isep ksep"
  let ?p = "\<lambda>(k, v). json_str k @ ksep @ ?d v"
  obtain k v where p: "p = (k, v)" by force
  obtain m where n: "n = Suc m" using Cons.prems(3) by (cases n) auto
  obtain sp where isep: "isep = CHR '','' # sp" and sp: "list_all json_space sp"
    using sep by (auto simp: seps_def)
  obtain sq where ksep: "ksep = CHR '':'' # sq" and sq: "list_all json_space sq"
    using sep by (auto simp: seps_def)
  obtain c t where ct: "?d v = c # t" "val_start c"
    using dumps_start[OF X] Cons.prems(2) p by fastforce
  have skv: "skip (sq @ ?d v @ s) = ?d v @ s" for s
    using ct by (simp add: skip_spaces[OF sq] val_start_facts)
  have sv: "scan_value m (?d v @ r') = Inr (v, r')" if "num_end r'" "length (?d v) \<le> m" for r'
    using Cons.prems(2) that p by (auto simp: scans_def)
  have k1: "ksep @ u = CHR '':'' # sq @ u" for u by (simp add: ksep)
  have i1: "isep @ u = CHR '','' # sp @ u" for u by (simp add: isep)
  have q: "json_str x = CHR 0x22 # concat (map json_char x) @ [CHR 0x22]" for x
    by (simp add: json_str_def)
  show ?case
  proof (cases "ps = []")
    case True
    then have "length (?d v) \<le> m" using Cons.prems(3) n p by simp
    with True show ?thesis
      by (simp add: n p q scan_json_chars k1 json_space_def skv sv)
  next
    case False
    define rest where "rest = join isep (map ?p ps)"
    have eq: "join isep (map ?p (p # ps)) @ CHR ''}'' # r =
        json_str k @ ksep @ ?d v @ isep @ rest @ CHR ''}'' # r"
      using False by (simp add: join_Cons rest_def p)
    have "\<exists>u. rest = CHR 0x22 # u"
      using False by (cases ps; cases "tl ps") (auto simp: q rest_def)
    then have sr: "skip (sp @ rest @ CHR ''}'' # r) = rest @ CHR ''}'' # r"
      by (auto simp: skip_spaces[OF sp] json_space_def)
    moreover
    have "length (join isep (map ?p (p # ps))) = length (?p p) + length isep + length rest"
      using False by (simp add: join_Cons rest_def)
    moreover have "1 \<le> length isep" by (simp add: isep)
    ultimately have "length rest < m" using Cons.prems(3) n by linarith
    then have "scan_pairs m (rest @ CHR ''}'' # r) = Inr (ps, r)"
      using Cons.IH[OF False] Cons.prems by (simp add: rest_def)
    moreover have "length (?d v) \<le> m"
      using Cons.prems(3) n False p by (simp add: join_Cons)
    ultimately show ?thesis
      unfolding eq by (simp add: n p q scan_json_chars k1 i1 json_space_def skv sv sr)
  qed
qed

lemma scans_all:
  assumes X: "frepr_ok X" and sep: "seps isep ksep"
  shows "pv_ok v \<Longrightarrow> scans X isep ksep v"
proof (induction v)
  case PNone
  show ?case by (auto simp: scans_def starts_with_def dest!: Suc_le_D)
next
  case (PBool b)
  show ?case by (auto simp: scans_def starts_with_def dest!: Suc_le_D)
next
  case (PInt i)
  obtain c t where ct: "show_int i = c # t" "num_start c" using show_int_start by blast
  then show ?case
    by (auto simp: scans_def dest!: Suc_le_D simp del: scan_value.simps)
      (metis append_Cons ct(1) scan_num_int scan_value_num)
next
  case (PFloat q)
  then obtain c t where ct: "x_frepr X q = c # t" "num_start c"
    and s: "\<And>r. num_end r \<Longrightarrow> scan_num (x_frepr X q @ r) = Inr (PFloat q, r)"
    using X by (auto simp: frepr_ok_def)
  from ct show ?case
    by (auto simp: scans_def dest!: Suc_le_D simp del: scan_value.simps)
      (metis append_Cons ct(1) s scan_value_num)
next
  case (PStr s)
  show ?case
    by (auto simp: scans_def json_str_def scan_json_chars dest!: Suc_le_D)
next
  case (PList xs)
  then have all: "\<forall>x\<in>set xs. pv_ok x \<and> scans X isep ksep x" by auto
  let ?j = "join isep (map (dumps X isep ksep) xs)"
  show ?case
  proof (cases "xs = []")
    case True
    then show ?thesis by (auto simp: scans_def json_space_def dest!: Suc_le_D)
  next
    case False
    obtain c t where ct: "dumps X isep ksep (hd xs) = c # t" "val_start c"
      using dumps_start[OF X] all False by (metis hd_in_set)
    have j: "\<exists>u. ?j = c # u" using ct False by (cases xs; cases "tl xs") auto
    show ?thesis
      unfolding scans_def
    proof (intro allI impI)
      fix n r
      assume len: "length (dumps X isep ksep (PList xs)) \<le> n"
      then obtain m where n: "n = Suc m" by (cases n) auto
      have "length ?j < m" using len n by simp
      from scan_items_join[OF X sep False all this, of r] j ct(2) False
      show "scan_value n (dumps X isep ksep (PList xs) @ r) = Inr (PList xs, r)"
        using val_start_facts[OF ct(2)] by (auto simp: n)
    qed
  qed
next
  case (PDict d)
  then have all: "\<forall>p\<in>set d. pv_ok (snd p) \<and> scans X isep ksep (snd p)"
    by (metis pv_ok.simps(3) snds.intros)
  let ?j = "join isep (map (\<lambda>(k, v). json_str k @ ksep @ dumps X isep ksep v) d)"
  show ?case
  proof (cases "d = []")
    case True
    then show ?thesis by (auto simp: scans_def json_space_def dest!: Suc_le_D)
  next
    case False
    have j: "\<exists>u. ?j = CHR 0x22 # u"
      using False by (cases d; cases "tl d") (auto simp: json_str_def)
    have dist: "distinct (map fst d)" using PDict.prems by simp
    show ?thesis
      unfolding scans_def
    proof (intro allI impI)
      fix n r
      assume len: "length (dumps X isep ksep (PDict d)) \<le> n"
      then obtain m where n: "n = Suc m" by (cases n) auto
      have "length ?j < m" using len n by simp
      from scan_pairs_join[OF X sep False all this, of r] j False
        fold_dset_fresh[of "[]" d] dist
      show "scan_value n (dumps X isep ksep (PDict d) @ r) = Inr (PDict d, r)"
        by (auto simp: n json_space_def)
    qed
  qed
qed

lemma loads_dumps:
  assumes "frepr_ok X" "seps isep ksep" "pv_ok v"
  shows "loads (dumps X isep ksep v) = Inr v"
proof -
  let ?t = "dumps X isep ksep v"
  have "scans X isep ksep v" by (rule scans_all[OF assms])
  then have "scan_value (Suc (length ?t)) (?t @ []) = Inr (v, [])"
    unfolding scans_def using num_end_simps(4) by (meson le_SucI order.refl)
  moreover have "skip ?t = ?t"
    using dumps_start[OF assms(1,3)] skip_val by blast
  ultimately show ?thesis by (simp add: loads_def del: scan_value.simps)
qed

section \<open>The canonical encoding\<close>

lemma distinct_fst_sort: "distinct (map fst (sort_key f e)) \<longleftrightarrow> distinct (map fst e)"
  by (rule mset_eq_imp_distinct_iff) simp

lemma map_fst_snd_map: "map fst (map (\<lambda>(k, v). (k, f v)) d) = map fst d"
  by (induction d) auto

lemma pv_ok_sort_keys: "pv_ok v \<Longrightarrow> pv_ok (sort_keys v)"
proof (induction v)
  case (PDict d)
  then have "\<forall>p\<in>set d. pv_ok (sort_keys (snd p))"
    by (metis pv_ok.simps(3) snds.intros)
  with PDict.prems show ?case by (auto simp: distinct_fst_sort map_fst_snd_map simp del: map_map)
qed auto

text \<open>
  Two values with one canonical encoding are the same up to the order of dict keys: the
  encoding that is hashed loses nothing else.
\<close>

lemma canon_inj:
  assumes "frepr_ok X" "pv_ok a" "pv_ok b" "canon X a = canon X b"
  shows "sort_keys a = sort_keys b"
proof -
  have "loads (canon X a) = Inr (sort_keys a)" "loads (canon X b) = Inr (sort_keys b)"
    unfolding canon_def by (rule loads_dumps[OF assms(1) seps_canon]; rule pv_ok_sort_keys; fact)+
  with assms(4) show ?thesis by simp
qed

section \<open>A concrete instance of the external functions\<close>

text \<open>
  For evaluating the model on examples.  A double is a dyadic rational, so it has an exact
  decimal notation; the instance prints that one.
\<close>

definition exact_repr :: "rat \<Rightarrow> string" where
  "exact_repr q =
     (let m = nat (52 - exponent \<bar>q\<bar>) in
      (if q < 0 then ''-'' else []) @ show_nat (nat \<lfloor>\<bar>q\<bar> * 2 ^ m\<rfloor> * 5 ^ m) @ ''e-'' @ show_nat m)"

definition ext0 :: ext where
  "ext0 = \<lparr> x_blake = (\<lambda>b. take 32 (b @ replicate 32 (CHR 0x00))), x_frepr = exact_repr,
     x_zlib = id, x_unzlib = id, x_lzma = id, x_unlzma = id, x_gear = (\<lambda>n. of_nat n),
     x_iter = sorted_list_of_set,
     x_gcm_enc = (\<lambda>k n a p. (p, replicate 16 (CHR 0x00))), x_gcm_dec = (\<lambda>k n a ct tag. Some ct),
     x_hkdf = (\<lambda>m. take 32 (m @ replicate 32 (CHR 0x00))) \<rparr>"

lemma ext0_ok: "digest_ok ext0" "codecs_ok ext0" "iter_ok ext0" "gcm_ok ext0"
  by (auto simp: ext0_def digest_ok_def codecs_ok_def iter_ok_def gcm_ok_def min_def)

lemma pow2_int: "0 \<le> e \<Longrightarrow> pow2 e = of_int (2 ^ nat e)"
  by (simp add: pow2_def)

lemma fl_dyadic:
  assumes "fl q = q"
  shows "\<exists>k. q * 2 ^ nat (52 - exponent \<bar>q\<bar>) = of_int k"
proof (cases "q = 0")
  case True
  then show ?thesis by (intro exI[of _ 0]) simp
next
  case False
  define e where "e = exponent \<bar>q\<bar> - 52"
  define k where "k = round_half_even (q / pow2 e)"
  have q: "q = of_int k * pow2 e"
    using assms False by (simp add: fl_def e_def k_def Let_def)
  have e': "52 - exponent \<bar>q\<bar> = - e" by (simp add: e_def)
  show ?thesis
  proof (cases "0 \<le> e")
    case True
    then have "q * 2 ^ nat (- e) = of_int (k * 2 ^ nat e)" by (subst q) (simp add: pow2_int)
    then show ?thesis unfolding e' by blast
  next
    case False
    then have "q * 2 ^ nat (- e) = of_int k" by (subst q) (simp add: pow2_def)
    then show ?thesis unfolding e' by blast
  qed
qed

lemma exact_repr_value:
  assumes "fl q = q" "m = nat (52 - exponent \<bar>q\<bar>)"
  shows "of_nat (nat \<lfloor>\<bar>q\<bar> * 2 ^ m\<rfloor> * 5 ^ m) * pow10 (- int m) = \<bar>q\<bar>"
proof -
  obtain k where "q * 2 ^ m = of_int k" using fl_dyadic assms by blast
  then have k: "\<bar>q\<bar> * 2 ^ m = of_int \<bar>k\<bar>"
    by (metis abs_mult abs_of_pos of_int_abs zero_less_numeral zero_less_power)
  then have "of_nat (nat \<lfloor>\<bar>q\<bar> * 2 ^ m\<rfloor> * 5 ^ m) = \<bar>q\<bar> * 2 ^ m * 5 ^ m"
    by simp
  also have "\<dots> = \<bar>q\<bar> * 10 ^ m"
    by (simp flip: power_mult_distrib)
  finally show ?thesis by (simp add: pow10_def)
qed

lemma scan_exp_neg:
  assumes "num_end r"
  shows "scan_exp (''e-'' @ show_nat m @ r) = (Some (- int m), r)"
proof -
  obtain c t where ct: "show_nat m = c # t" by (cases "show_nat m") auto
  then have "is_digit c" using show_nat_digits[of m] by simp
  with ct takeWhile_digits[OF show_nat_digits assms, of m]
    dropWhile_digits[OF show_nat_digits assms, of m] read_show_nat[of m]
  show ?thesis by (simp add: scan_exp_def is_digit_iff)
qed

lemma scan_int_part_e:
  "scan_int_part (show_nat n @ CHR ''e'' # r) = Inr (show_nat n, CHR ''e'' # r)"
proof -
  obtain c t where ct: "show_nat n = c # t" by (cases "show_nat n") auto
  have d: "takeWhile is_digit (show_nat n @ CHR ''e'' # r) = show_nat n"
    "dropWhile is_digit (show_nat n @ CHR ''e'' # r) = CHR ''e'' # r"
    using show_nat_digits[of n] by (auto simp: list_all_iff takeWhile_append dropWhile_append is_digit_iff)
  show ?thesis
  proof (cases "c = CHR ''0''")
    case True
    with ct show_nat_lead[of n t] show ?thesis by (simp add: scan_int_part_def)
  next
    case False
    have "is_digit c" using show_nat_digits[of n] ct by simp
    with False ct d show ?thesis by (simp add: scan_int_part_def)
  qed
qed

lemma scan_unsigned_exact:
  assumes "num_end r"
  shows "scan_unsigned neg (show_nat n @ ''e-'' @ show_nat m @ r) =
    Inr (PFloat (fl ((if neg then -1 else 1) * (of_nat n * pow10 (- int m)))), r)"
proof -
  have f: "scan_frac (''e-'' @ show_nat m @ r) = (None, ''e-'' @ show_nat m @ r)"
    by (cases "show_nat m") (simp_all add: scan_frac_def)
  have i: "scan_int_part (show_nat n @ ''e-'' @ show_nat m @ r) =
      Inr (show_nat n, ''e-'' @ show_nat m @ r)"
    using scan_int_part_e[of n "CHR ''-'' # show_nat m @ r"] by simp
  show ?thesis
    unfolding scan_unsigned_def i bindE_simps prod.case f scan_exp_neg[OF assms]
    by (simp add: Let_def)
qed

lemma exact_repr_ok: "frepr_ok ext0"
  unfolding frepr_ok_def
proof (intro allI impI conjI)
  fix q :: rat and r
  assume q: "fl q = q"
  define m where "m = nat (52 - exponent \<bar>q\<bar>)"
  define n where "n = nat \<lfloor>\<bar>q\<bar> * 2 ^ m\<rfloor> * 5 ^ m"
  have rep: "x_frepr ext0 q = (if q < 0 then ''-'' else []) @ show_nat n @ ''e-'' @ show_nat m"
    by (simp add: ext0_def exact_repr_def Let_def m_def n_def)
  have v: "of_nat n * pow10 (- int m) = \<bar>q\<bar>"
    unfolding n_def by (rule exact_repr_value[OF q m_def])
  obtain c t where ct: "show_nat n = c # t" by (cases "show_nat n") auto
  have c: "is_digit c" "c \<noteq> CHR ''-''"
    using show_nat_digits[of n] ct by (auto simp: is_digit_iff)
  show "\<exists>c t. x_frepr ext0 q = c # t \<and> num_start c"
    using c by (simp add: rep ct num_start_def)
  assume r: "num_end r"
  show "scan_num (x_frepr ext0 q @ r) = Inr (PFloat q, r)"
  proof (cases "q < 0")
    case True
    have "scan_num (x_frepr ext0 q @ r) = scan_unsigned True (show_nat n @ ''e-'' @ show_nat m @ r)"
      using True by (simp add: rep scan_num_def)
    then show ?thesis using True q by (simp only: scan_unsigned_exact[OF r] v) simp
  next
    case False
    have "scan_num (x_frepr ext0 q @ r) = scan_unsigned False (show_nat n @ ''e-'' @ show_nat m @ r)"
      using False c by (simp add: rep scan_num_def ct)
    then show ?thesis using False q by (simp only: scan_unsigned_exact[OF r] v) simp
  qed
qed

end
