(* ===== verification/Hex.thy ===== *)
theory Hex
  imports Json
begin

text \<open>
  \<open>bytes.hex\<close>, \<open>bytes.fromhex\<close> and the hex digest \<open>blake\<close> of \<open>nedb.log\<close>.
\<close>

definition hexlify :: "string \<Rightarrow> string" where
  "hexlify b = concat (map (\<lambda>c. hex2 (of_char c)) b)"

definition hex_space :: "char \<Rightarrow> bool" where
  "hex_space c \<longleftrightarrow> c = CHR '' '' \<or> (9 \<le> (of_char c :: nat) \<and> (of_char c :: nat) \<le> 13)"

text \<open>White space is skipped between bytes, not inside one.\<close>

fun fromhex :: "string \<Rightarrow> string res" where
  "fromhex [] = Inr []"
| "fromhex [c] = (if hex_space c then Inr [] else Inl ValueErr)"
| "fromhex (c # d # s) =
     (if hex_space c then fromhex (d # s)
      else (case (hex_val c, hex_val d) of
              (Some a, Some b) \<Rightarrow> bindE (fromhex s) (\<lambda>r. Inr (char_of (16 * a + b) # r))
            | _ \<Rightarrow> Inl ValueErr))"

definition blake :: "ext \<Rightarrow> string \<Rightarrow> string" where
  "blake X data = hexlify (x_blake X data)"

definition GENESIS :: string where
  "GENESIS = replicate 64 (CHR ''0'')"

lemma length_hexlify [simp]: "length (hexlify b) = 2 * length b"
  by (induction b) (auto simp: hexlify_def hex2_def)

lemma length_blake [simp]: "digest_ok X \<Longrightarrow> length (blake X b) = 64"
  by (simp add: blake_def digest_ok_def)

lemma length_GENESIS [simp]: "length GENESIS = 64"
  by (simp add: GENESIS_def)

lemma hex_digit_not_space: "n < 16 \<Longrightarrow> \<not> hex_space (hex_digit n)"
  by (auto simp: hex_space_def hex_digit_def dest: arg_cong[of _ _ "of_char :: char \<Rightarrow> nat"])

lemma fromhex_hexlify [simp]: "fromhex (hexlify b) = Inr b"
proof (induction b)
  case Nil
  show ?case by (simp add: hexlify_def)
next
  case (Cons c b)
  have "hexlify (c # b) = hex_digit (of_char c div 16) # hex_digit (of_char c mod 16) # hexlify b"
    by (simp add: hexlify_def hex2_def)
  with Cons show ?case
    by (simp add: hex_val_digit hex_digit_not_space less_mult_imp_div_less)
qed

lemma mapE_fromhex_hexlify [simp]: "mapE fromhex (map hexlify bs) = Inr bs"
  by (induction bs) auto

lemma hexlify_inj: "hexlify a = hexlify b \<longleftrightarrow> a = b"
  by (metis fromhex_hexlify sum.inject(2))

lemma blake_collision: "blake X a = blake X b \<Longrightarrow> a = b \<or> collision X"
  by (auto simp: blake_def hexlify_inj collision_def)

end
