(* ===== verification/Chain.thy ===== *)
theory Chain
  imports Main
begin

text \<open>
  The contract of a hash chain, as an interface: \<open>step\<close> extends a head by an entry and,
  unless the hash is \<open>broken\<close>, the new head determines the old one and the entry.  Then a
  head commits to the whole sequence of entries.  The operation log and the derived chain of
  the inclusion proofs interpret it.
\<close>

locale hash_chain =
  fixes step :: "'h \<Rightarrow> 'e \<Rightarrow> 'h"
    and good_head :: "'h \<Rightarrow> bool"
    and good_entry :: "'e \<Rightarrow> bool"
    and broken :: bool
  assumes good_step: "good_head h \<Longrightarrow> good_entry e \<Longrightarrow> good_head (step h e)"
    and binding: "good_head h \<Longrightarrow> good_head g \<Longrightarrow> good_entry a \<Longrightarrow> good_entry b \<Longrightarrow>
      step h a = step g b \<Longrightarrow> broken \<or> (h = g \<and> a = b)"
begin

lemma good_foldl: "good_head h \<Longrightarrow> list_all good_entry es \<Longrightarrow> good_head (foldl step h es)"
  by (induction es arbitrary: h) (auto intro: good_step)

text \<open>Two runs of the same length that end in one head are the same run.\<close>

lemma fold_binding_length:
  "length xs = length ys \<Longrightarrow> good_head g \<Longrightarrow> good_head h \<Longrightarrow>
   list_all good_entry xs \<Longrightarrow> list_all good_entry ys \<Longrightarrow>
   foldl step g xs = foldl step h ys \<Longrightarrow> broken \<or> (g = h \<and> xs = ys)"
proof (induction xs ys arbitrary: g h rule: list_induct2)
  case (Cons x xs y ys)
  then have "broken \<or> (step g x = step h y \<and> xs = ys)"
    using good_step by auto
  with Cons.prems show ?case using binding by auto
qed simp

text \<open>
  From one starting head, runs of any two lengths that end alike are the same run, unless an
  entry has been found that leads back to the start.
\<close>

lemma fold_binding:
  "good_head g \<Longrightarrow> list_all good_entry xs \<Longrightarrow> list_all good_entry ys \<Longrightarrow>
   foldl step g xs = foldl step g ys \<Longrightarrow>
   broken \<or> (\<exists>h e. good_head h \<and> good_entry e \<and> step h e = g) \<or> xs = ys"
proof (induction xs arbitrary: ys rule: rev_induct)
  case Nil
  show ?case
  proof (cases ys rule: rev_cases)
    case (snoc ys' y)
    with Nil have "good_head (foldl step g ys')" by (auto intro: good_foldl)
    moreover have "good_entry y" "step (foldl step g ys') y = g" using snoc Nil by auto
    ultimately show ?thesis by blast
  qed simp
next
  case (snoc x xs)
  have gx: "good_head (foldl step g xs)"
    using snoc.prems by (auto intro: good_foldl)
  show ?case
  proof (cases ys rule: rev_cases)
    case Nil
    with snoc.prems gx show ?thesis by auto
  next
    case (snoc ys' y)
    with snoc.prems gx have "broken \<or> (foldl step g xs = foldl step g ys' \<and> x = y)"
      using good_foldl binding by auto
    with snoc snoc.IH[of ys'] snoc.prems show ?thesis by auto
  qed
qed

end

end
