(* ===== verification/OpLog.thy ===== *)
theory OpLog
  imports Hex Chain
begin

text \<open>
  \<open>nedb.log\<close>: operations, the append-only log chained by hash, with its nonce and
  idempotency tables, and its reload and verification.
\<close>

section \<open>Operations\<close>

record prov =
  p_caused :: "int list option"
  p_evidence :: "string option"
  p_conf :: "rat option"
  p_from :: "string option"
  p_to :: "string option"

definition no_prov :: prov where
  "no_prov = \<lparr> p_caused = None, p_evidence = None, p_conf = None, p_from = None, p_to = None \<rparr>"

record oprec =
  o_seq :: int
  o_client :: string
  o_nonce :: int
  o_op :: string
  o_payload :: doc
  o_ts :: rat
  o_idem :: "string option"
  o_prev :: string
  o_hash :: string
  o_prov :: prov

definition opt_str :: "string option \<Rightarrow> pyval" where
  "opt_str x = (case x of None \<Rightarrow> PNone | Some s \<Rightarrow> PStr s)"

definition opt_entry :: "string \<Rightarrow> ('a \<Rightarrow> pyval) \<Rightarrow> 'a option \<Rightarrow> doc" where
  \<comment> \<open>\<open>if x is not None: d[k] = x\<close>\<close>
  "opt_entry k f x = (case x of None \<Rightarrow> [] | Some y \<Rightarrow> [(k, f y)])"

definition prov_entries :: "prov \<Rightarrow> doc" where
  "prov_entries p =
     opt_entry ''caused_by'' (\<lambda>xs. PList (map PInt xs)) (p_caused p) @
     opt_entry ''evidence'' PStr (p_evidence p) @
     opt_entry ''confidence'' PFloat (p_conf p) @
     opt_entry ''valid_from'' PStr (p_from p) @
     opt_entry ''valid_to'' PStr (p_to p)"

definition to_dict :: "oprec \<Rightarrow> doc" where
  "to_dict o' =
     [(''seq'', PInt (o_seq o')), (''client'', PStr (o_client o')), (''nonce'', PInt (o_nonce o')),
      (''op'', PStr (o_op o')), (''payload'', PDict (o_payload o')), (''ts'', PFloat (o_ts o')),
      (''idem'', opt_str (o_idem o')), (''prev_hash'', PStr (o_prev o')),
      (''hash'', PStr (o_hash o'))] @ prov_entries (o_prov o')"

text \<open>
  \<open>from_dict\<close> reads fields of their declared types; a field of another type is outside the
  model (\<open>Untyped\<close>), a missing required one is a \<open>KeyError\<close>.
\<close>

definition need :: "doc \<Rightarrow> string \<Rightarrow> pyval res" where
  \<comment> \<open>\<open>d[k]\<close>\<close>
  "need d k = (case map_of d k of None \<Rightarrow> Inl KeyError | Some v \<Rightarrow> Inr v)"

fun as_int :: "pyval \<Rightarrow> int res" where
  "as_int (PInt i) = Inr i"
| "as_int _ = Inl Untyped"

fun as_str :: "pyval \<Rightarrow> string res" where
  "as_str (PStr s) = Inr s"
| "as_str _ = Inl Untyped"

fun as_float :: "pyval \<Rightarrow> rat res" where
  "as_float (PFloat q) = Inr q"
| "as_float _ = Inl Untyped"

fun as_dict :: "pyval \<Rightarrow> doc res" where
  "as_dict (PDict d) = Inr d"
| "as_dict _ = Inl Untyped"

fun as_ints :: "pyval \<Rightarrow> int list res" where
  "as_ints (PList xs) = mapE as_int xs"
| "as_ints _ = Inl Untyped"

definition optional :: "(pyval \<Rightarrow> 'a res) \<Rightarrow> doc \<Rightarrow> string \<Rightarrow> 'a option res" where
  \<comment> \<open>\<open>d.get(k)\<close>\<close>
  "optional f d k =
     (let v = doc_get d k in if v = PNone then Inr None else bindE (f v) (\<lambda>x. Inr (Some x)))"

definition from_dict :: "doc \<Rightarrow> oprec res" where
  "from_dict d =
     bindE (bindE (need d ''seq'') as_int) (\<lambda>sq.
     bindE (bindE (need d ''client'') as_str) (\<lambda>cl.
     bindE (bindE (need d ''nonce'') as_int) (\<lambda>nc.
     bindE (bindE (need d ''op'') as_str) (\<lambda>op.
     bindE (bindE (need d ''payload'') as_dict) (\<lambda>pl.
     bindE (bindE (need d ''ts'') as_float) (\<lambda>ts.
     bindE (optional as_str d ''idem'') (\<lambda>idm.
     bindE (bindE (need d ''prev_hash'') as_str) (\<lambda>pv.
     bindE (bindE (need d ''hash'') as_str) (\<lambda>h.
     bindE (optional as_ints d ''caused_by'') (\<lambda>cb.
     bindE (optional as_str d ''evidence'') (\<lambda>ev.
     bindE (optional as_float d ''confidence'') (\<lambda>cf.
     bindE (optional as_str d ''valid_from'') (\<lambda>vf.
     bindE (optional as_str d ''valid_to'') (\<lambda>vt.
       Inr \<lparr> o_seq = sq, o_client = cl, o_nonce = nc, o_op = op, o_payload = pl, o_ts = ts,
             o_idem = idm, o_prev = pv, o_hash = h,
             o_prov = \<lparr> p_caused = cb, p_evidence = ev, p_conf = cf, p_from = vf, p_to = vt \<rparr>
           \<rparr>))))))))))))))"

section \<open>The log\<close>

record oplog =
  l_ops :: "oprec list"
  l_last :: "(string, int) dict"
  l_idem :: "(string, int) dict"
  l_head :: string

definition log_init :: oplog where
  "log_init = \<lparr> l_ops = [], l_last = [], l_idem = [], l_head = GENESIS \<rparr>"

text \<open>The body hashed at append time, and \<open>_op_body\<close>, rebuilt from a stored operation.\<close>

definition append_body :: "int \<Rightarrow> string \<Rightarrow> int \<Rightarrow> string \<Rightarrow> doc \<Rightarrow> rat \<Rightarrow> string option \<Rightarrow> prov \<Rightarrow> pyval" where
  "append_body sq client nonce op payload ts idm pr =
     PDict ([(''seq'', PInt sq), (''client'', PStr client), (''nonce'', PInt nonce),
        (''op'', PStr op), (''payload'', PDict payload), (''ts'', PFloat ts),
        (''idem'', opt_str idm)] @ prov_entries pr)"

definition op_body :: "oprec \<Rightarrow> pyval" where
  "op_body o' =
     PDict ([(''seq'', PInt (o_seq o')), (''client'', PStr (o_client o')),
        (''nonce'', PInt (o_nonce o')), (''op'', PStr (o_op o')),
        (''payload'', PDict (o_payload o')), (''ts'', PFloat (o_ts o')),
        (''idem'', opt_str (o_idem o'))] @ prov_entries (o_prov o'))"

definition log_append :: "ext \<Rightarrow> string \<Rightarrow> int \<Rightarrow> string \<Rightarrow> doc \<Rightarrow> string option \<Rightarrow> rat \<Rightarrow> prov \<Rightarrow>
    oplog \<Rightarrow> (oprec \<times> bool \<times> oplog) res" where
  "log_append X client nonce op payload idm ts pr l =
     (case (case idm of None \<Rightarrow> None | Some k \<Rightarrow> map_of (l_idem l) k) of
        Some i \<Rightarrow> bindE (py_index (l_ops l) i) (\<lambda>orig. Inr (orig, False, l))
      | None \<Rightarrow>
          if nonce \<le> dget (l_last l) client 0 then Inl ReplayErr
          else
            (let sq = int (length (l_ops l));
                 h = blake X (l_head l @ canon X (append_body sq client nonce op payload ts idm pr));
                 r = \<lparr> o_seq = sq, o_client = client, o_nonce = nonce, o_op = op,
                       o_payload = payload, o_ts = ts, o_idem = idm, o_prev = l_head l,
                       o_hash = h, o_prov = pr \<rparr>
             in Inr (r, True,
                  l\<lparr> l_ops := l_ops l @ [r], l_last := dset client nonce (l_last l),
                     l_idem := (case idm of None \<Rightarrow> l_idem l | Some k \<Rightarrow> dset k sq (l_idem l)),
                     l_head := h \<rparr>)))"

definition load_step :: "oprec \<Rightarrow> oplog \<Rightarrow> oplog" where
  "load_step o' l =
     l\<lparr> l_last := (if o_nonce o' > dget (l_last l) (o_client o') 0
                   then dset (o_client o') (o_nonce o') (l_last l) else l_last l),
        l_idem := (case o_idem o' of
                     None \<Rightarrow> l_idem l
                   | Some k \<Rightarrow> if has_key k (l_idem l) then l_idem l
                               else dset k (o_seq o') (l_idem l)) \<rparr>"

definition log_load :: "oprec list \<Rightarrow> oplog" where
  "log_load ops =
     (fold load_step ops \<lparr> l_ops = ops, l_last = [], l_idem = [], l_head = GENESIS \<rparr>)
       \<lparr> l_head := (if ops = [] then GENESIS else o_hash (last ops)) \<rparr>"

fun verify_from :: "ext \<Rightarrow> string \<Rightarrow> oprec list \<Rightarrow> bool" where
  "verify_from X prev [] = True"
| "verify_from X prev (o' # os) =
     (if o_prev o' \<noteq> prev then False
      else if o_hash o' \<noteq> blake X (prev @ canon X (op_body o')) then False
      else verify_from X (o_hash o') os)"

definition log_verify :: "ext \<Rightarrow> oplog \<Rightarrow> bool" where
  "log_verify X l = verify_from X GENESIS (l_ops l)"

definition slice_until :: "int \<Rightarrow> oplog \<Rightarrow> oprec list" where
  "slice_until n l = filter (\<lambda>o'. o_seq o' \<le> n) (l_ops l)"

section \<open>Serialisation\<close>

lemma mapE_as_int [simp]: "mapE as_int (map PInt xs) = Inr xs"
  by (induction xs) auto

lemma map_of_opt_entry:
  "map_of (opt_entry k f x @ ys) k' =
     (if k' = k \<and> x \<noteq> None then map_option f x else map_of ys k')"
  by (cases x) (simp_all add: opt_entry_def)

lemma map_of_prov_entries:
  "map_of (prov_entries p) k =
     (if k = ''caused_by'' then map_option (\<lambda>xs. PList (map PInt xs)) (p_caused p)
      else if k = ''evidence'' then map_option PStr (p_evidence p)
      else if k = ''confidence'' then map_option PFloat (p_conf p)
      else if k = ''valid_from'' then map_option PStr (p_from p)
      else if k = ''valid_to'' then map_option PStr (p_to p)
      else None)"
  by (simp add: prov_entries_def map_of_opt_entry opt_entry_def[of "''valid_to''"]
      del: map_of_append split: option.split)

lemma optional_entry:
  assumes "doc_get d k = (case x of None \<Rightarrow> PNone | Some y \<Rightarrow> g y)"
    and "\<And>y. f (g y) = Inr y" "\<And>y. g y \<noteq> PNone"
  shows "optional f d k = Inr x"
  using assms by (cases x) (simp_all add: optional_def)

lemma from_to_dict: "from_dict (to_dict r) = Inr r"
proof -
  have m: "map_of (to_dict r) k = map_of (prov_entries (o_prov r)) k"
    if "k \<notin> {''seq'', ''client'', ''nonce'', ''op'', ''payload'', ''ts'', ''idem'', ''prev_hash'', ''hash''}" for k
    using that by (simp add: to_dict_def del: map_of_append)
  have g: "doc_get (to_dict r) k = (case map_of (prov_entries (o_prov r)) k of None \<Rightarrow> PNone | Some v \<Rightarrow> v)"
    if "k \<notin> {''seq'', ''client'', ''nonce'', ''op'', ''payload'', ''ts'', ''idem'', ''prev_hash'', ''hash''}" for k
    unfolding doc_get_def dget_def m[OF that] ..
  have "optional as_str (to_dict r) ''idem'' = Inr (o_idem r)"
    by (rule optional_entry[where g = PStr])
      (simp_all add: doc_get_def dget_def to_dict_def opt_str_def split: option.split)
  moreover have "optional as_ints (to_dict r) ''caused_by'' = Inr (p_caused (o_prov r))"
    by (rule optional_entry[where g = "\<lambda>xs. PList (map PInt xs)"])
      (simp_all add: g map_of_prov_entries split: option.split)
  moreover have "optional as_str (to_dict r) ''evidence'' = Inr (p_evidence (o_prov r))"
    "optional as_str (to_dict r) ''valid_from'' = Inr (p_from (o_prov r))"
    "optional as_str (to_dict r) ''valid_to'' = Inr (p_to (o_prov r))"
    by (rule optional_entry[where g = PStr], simp_all add: g map_of_prov_entries split: option.split)+
  moreover have "optional as_float (to_dict r) ''confidence'' = Inr (p_conf (o_prov r))"
    by (rule optional_entry[where g = PFloat])
      (simp_all add: g map_of_prov_entries split: option.split)
  ultimately show ?thesis
    by (simp add: from_dict_def) (simp add: to_dict_def need_def)
qed

text \<open>Operations whose payload and floats are as the code builds them.\<close>

definition op_ok :: "oprec \<Rightarrow> bool" where
  "op_ok r \<longleftrightarrow> pv_ok (PDict (o_payload r)) \<and> fl (o_ts r) = o_ts r \<and>
     (\<forall>q. p_conf (o_prov r) = Some q \<longrightarrow> fl q = q)"

lemma pv_ok_opt_str [simp]: "pv_ok (opt_str x)"
  by (cases x) (simp_all add: opt_str_def)

lemma prov_entries_ok:
  assumes "\<And>q. p_conf p = Some q \<Longrightarrow> fl q = q"
  shows "distinct (map fst (prov_entries p))" "\<forall>e\<in>set (prov_entries p). pv_ok (snd e)"
    "fst ` set (prov_entries p) \<subseteq>
       {''caused_by'', ''evidence'', ''confidence'', ''valid_from'', ''valid_to''}"
  using assms by (auto simp: prov_entries_def opt_entry_def split: option.splits)

lemma pv_ok_to_dict: "op_ok r \<Longrightarrow> pv_ok (PDict (to_dict r))"
  using prov_entries_ok[of "o_prov r"]
  by (auto simp: op_ok_def to_dict_def)

lemma pv_ok_op_body: "op_ok r \<Longrightarrow> pv_ok (op_body r)"
  using prov_entries_ok[of "o_prov r"]
  by (auto simp: op_ok_def op_body_def)

text \<open>One line of the append-only file, and back.\<close>

definition op_line :: "ext \<Rightarrow> oprec \<Rightarrow> string" where
  "op_line X r = dumps X '', '' '': '' (PDict (to_dict r))"

definition parse_line :: "string \<Rightarrow> oprec res" where
  "parse_line s = bindE (bindE (loads s) as_dict) from_dict"

lemma parse_op_line: "frepr_ok X \<Longrightarrow> op_ok r \<Longrightarrow> parse_line (op_line X r) = Inr r"
  by (simp add: parse_line_def op_line_def loads_dumps pv_ok_to_dict from_to_dict
      del: pv_ok.simps dumps.simps)

section \<open>The chain\<close>

definition chain_link :: "ext \<Rightarrow> string \<Rightarrow> string \<Rightarrow> string" where
  "chain_link X prev body = blake X (prev @ body)"

definition chain_head :: "ext \<Rightarrow> string \<Rightarrow> bool" where
  "chain_head X h \<longleftrightarrow> (digest_ok X \<longrightarrow> length h = 64)"

interpretation ch: hash_chain "chain_link X" "chain_head X" "\<lambda>_. True"
  "collision X \<or> \<not> digest_ok X" for X
proof unfold_locales
  fix h g a b
  assume "chain_head X h" "chain_head X g" "chain_link X h a = chain_link X g b"
  then show "(collision X \<or> \<not> digest_ok X) \<or> h = g \<and> a = b"
    using blake_collision[of X "h @ a" "g @ b"] by (auto simp: chain_head_def chain_link_def)
qed (simp add: chain_head_def chain_link_def)

definition chain_end :: "string \<Rightarrow> oprec list \<Rightarrow> string" where
  "chain_end prev ops = (if ops = [] then prev else o_hash (last ops))"

definition bodies :: "ext \<Rightarrow> oprec list \<Rightarrow> string list" where
  "bodies X ops = map (\<lambda>r. canon X (op_body r)) ops"

lemma verify_append:
  "verify_from X prev (xs @ ys) \<longleftrightarrow> verify_from X prev xs \<and> verify_from X (chain_end prev xs) ys"
  by (induction X prev xs rule: verify_from.induct) (auto simp: chain_end_def)

lemma verify_end: "verify_from X prev ops \<Longrightarrow> chain_end prev ops = foldl (chain_link X) prev (bodies X ops)"
  by (induction X prev ops rule: verify_from.induct)
    (auto simp: chain_end_def bodies_def chain_link_def split: if_splits)

lemma chain_head_GENESIS [simp]: "chain_head X GENESIS"
  by (simp add: chain_head_def)

text \<open>In a verified chain the bodies determine every hash field.\<close>

lemma verify_bodies_eq:
  "verify_from X prev xs \<Longrightarrow> verify_from X prev ys \<Longrightarrow> bodies X xs = bodies X ys \<Longrightarrow>
   map o_hash xs = map o_hash ys \<and> map o_prev xs = map o_prev ys"
proof (induction xs arbitrary: ys prev)
  case (Cons x xs)
  from Cons.prems(3) obtain y ys' where ys: "ys = y # ys'"
    and b: "canon X (op_body x) = canon X (op_body y)" "bodies X xs = bodies X ys'"
    by (cases ys) (auto simp: bodies_def)
  have x: "o_prev x = prev" "o_hash x = blake X (prev @ canon X (op_body x))"
      "verify_from X (o_hash x) xs"
    using Cons.prems(1) by (simp_all split: if_splits)
  have y: "o_prev y = prev" "o_hash y = blake X (prev @ canon X (op_body y))"
      "verify_from X (o_hash y) ys'"
    using Cons.prems(2) ys by (simp_all split: if_splits)
  have h: "o_hash x = o_hash y" using x(2) y(2) b(1) by simp
  from Cons.IH[OF x(3), of ys'] y(3) h b(2) show ?case by (simp add: ys x(1) y(1) h)
qed (simp add: bodies_def)

lemma chain_binding:
  assumes d: "digest_ok X"
    and v: "verify_from X GENESIS xs" "verify_from X GENESIS ys"
    and e: "chain_end GENESIS xs = chain_end GENESIS ys"
  shows "collision X \<or> (\<exists>b. blake X b = GENESIS) \<or> bodies X xs = bodies X ys"
proof -
  have "foldl (chain_link X) GENESIS (bodies X xs) = foldl (chain_link X) GENESIS (bodies X ys)"
    using e verify_end[OF v(1)] verify_end[OF v(2)] by simp
  then have "(collision X \<or> \<not> digest_ok X) \<or>
      (\<exists>h e. chain_head X h \<and> True \<and> chain_link X h e = GENESIS) \<or> bodies X xs = bodies X ys"
    by (intro ch.fold_binding) (simp_all add: list_all_iff)
  with d show ?thesis by (auto simp: chain_link_def)
qed

text \<open>Equal canonical bodies are equal operations, up to the order of dict keys in the payload.\<close>

definition same_op :: "oprec \<Rightarrow> oprec \<Rightarrow> bool" where
  "same_op a b \<longleftrightarrow>
     a\<lparr>o_payload := []\<rparr> = b\<lparr>o_payload := []\<rparr> \<and>
     sort_keys (PDict (o_payload a)) = sort_keys (PDict (o_payload b))"

lemma map_of_sort_key:
  assumes "distinct (map fst d)"
  shows "map_of (sort_key fst d) = map_of d"
proof -
  have "distinct (map fst (sort_key fst d))" using assms by (simp add: distinct_fst_sort)
  moreover have "set (sort_key fst d) = set d" by simp
  ultimately show ?thesis using assms by (metis map_of_inject_set)
qed

lemma sort_keys_lookup:
  assumes "sort_keys (PDict d) = sort_keys (PDict e)" "distinct (map fst d)" "distinct (map fst e)"
  shows "map_option sort_keys (map_of d k) = map_option sort_keys (map_of e k)"
proof -
  have m: "map_of (map (\<lambda>(k, v). (k, sort_keys v)) d) k = map_option sort_keys (map_of d k)" for d
    by (induction d) auto
  have "map_of (sort_key fst (map (\<lambda>(k, v). (k, sort_keys v)) x)) k = map_option sort_keys (map_of x k)"
    if "distinct (map fst x)" for x
    using that by (subst map_of_sort_key) (simp_all add: map_fst_snd_map m del: map_map)
  with assms show ?thesis by (metis pyval.inject(6) sort_keys.simps(2))
qed

lemma map_of_op_body:
  "map_of ([(''seq'', PInt (o_seq r)), (''client'', PStr (o_client r)),
        (''nonce'', PInt (o_nonce r)), (''op'', PStr (o_op r)),
        (''payload'', PDict (o_payload r)), (''ts'', PFloat (o_ts r)),
        (''idem'', opt_str (o_idem r))] @ prov_entries (o_prov r)) k =
     (if k = ''seq'' then Some (PInt (o_seq r))
      else if k = ''client'' then Some (PStr (o_client r))
      else if k = ''nonce'' then Some (PInt (o_nonce r))
      else if k = ''op'' then Some (PStr (o_op r))
      else if k = ''payload'' then Some (PDict (o_payload r))
      else if k = ''ts'' then Some (PFloat (o_ts r))
      else if k = ''idem'' then Some (opt_str (o_idem r))
      else map_of (prov_entries (o_prov r)) k)"
  by (simp del: map_of_append)

lemma sort_keys_opt_str [simp]: "sort_keys (opt_str x) = opt_str x"
  by (cases x) (simp_all add: opt_str_def)

lemma opt_str_inj: "opt_str x = opt_str y \<longleftrightarrow> x = y"
  by (cases x; cases y) (simp_all add: opt_str_def)

lemma map_PInt_inj: "map PInt xs = map PInt ys \<longleftrightarrow> xs = ys"
  by (rule inj_map_eq_map) (simp add: inj_def)

lemma same_op_body:
  assumes k: "sort_keys (op_body a) = sort_keys (op_body b)"
    and ok: "op_ok a" "op_ok b"
    and h: "o_prev a = o_prev b" "o_hash a = o_hash b"
  shows "same_op a b"
proof -
  let ?d = "\<lambda>r. [(''seq'', PInt (o_seq r)), (''client'', PStr (o_client r)),
        (''nonce'', PInt (o_nonce r)), (''op'', PStr (o_op r)),
        (''payload'', PDict (o_payload r)), (''ts'', PFloat (o_ts r)),
        (''idem'', opt_str (o_idem r))] @ prov_entries (o_prov r)"
  have "distinct (map fst (?d a))" "distinct (map fst (?d b))"
    using pv_ok_op_body[OF ok(1)] pv_ok_op_body[OF ok(2)] by (simp_all only: op_body_def pv_ok.simps)
  from sort_keys_lookup[OF k[unfolded op_body_def] this]
  have l: "map_option sort_keys (map_of (?d a) x) = map_option sort_keys (map_of (?d b) x)" for x .
  note l' = l[unfolded map_of_op_body]
  have f: "o_seq a = o_seq b" "o_client a = o_client b" "o_nonce a = o_nonce b" "o_op a = o_op b"
    "o_ts a = o_ts b" "o_idem a = o_idem b"
    "sort_keys (PDict (o_payload a)) = sort_keys (PDict (o_payload b))"
    using l'[of "''seq''"] l'[of "''client''"] l'[of "''nonce''"] l'[of "''op''"] l'[of "''ts''"]
      l'[of "''idem''"] l'[of "''payload''"]
    by (simp_all add: opt_str_inj del: sort_keys.simps(2))
  have p: "map_option sort_keys (map_of (prov_entries (o_prov a)) x) =
      map_option sort_keys (map_of (prov_entries (o_prov b)) x)"
    if "x \<in> {''caused_by'', ''evidence'', ''confidence'', ''valid_from'', ''valid_to''}" for x
    using l'[of x] that by auto
  have "p_caused (o_prov a) = p_caused (o_prov b)"
    using p[of "''caused_by''"]
    by (cases "p_caused (o_prov a)"; cases "p_caused (o_prov b)")
      (auto simp: map_of_prov_entries o_def map_PInt_inj)
  moreover have "p_evidence (o_prov a) = p_evidence (o_prov b)" "p_from (o_prov a) = p_from (o_prov b)"
    "p_to (o_prov a) = p_to (o_prov b)" "p_conf (o_prov a) = p_conf (o_prov b)"
    using p[of "''evidence''"] p[of "''valid_from''"] p[of "''valid_to''"] p[of "''confidence''"]
    by (auto simp: map_of_prov_entries option.map_comp map_option_case split: option.splits)
  ultimately show ?thesis
    using f h by (simp add: same_op_def)
qed

text \<open>The head commits to the operations.\<close>

lemma head_commits:
  assumes X: "digest_ok X" "frepr_ok X"
    and ok: "\<forall>r\<in>set xs \<union> set ys. op_ok r"
    and v: "verify_from X GENESIS xs" "verify_from X GENESIS ys"
    and e: "chain_end GENESIS xs = chain_end GENESIS ys"
  shows "collision X \<or> (\<exists>b. blake X b = GENESIS) \<or> list_all2 same_op xs ys"
proof -
  {
    assume b: "bodies X xs = bodies X ys"
    note h = verify_bodies_eq[OF v b]
    have "list_all2 same_op xs ys"
    proof (rule list_all2_all_nthI)
      show len: "length xs = length ys" using h map_eq_imp_length_eq by blast
      fix i assume i: "i < length xs"
      have "canon X (op_body (xs ! i)) = canon X (op_body (ys ! i))"
        using b i len by (simp add: bodies_def list_eq_iff_nth_eq)
      moreover have "op_ok (xs ! i)" "op_ok (ys ! i)" using ok i len by auto
      ultimately have "sort_keys (op_body (xs ! i)) = sort_keys (op_body (ys ! i))"
        using canon_inj[OF X(2)] pv_ok_op_body by blast
      then show "same_op (xs ! i) (ys ! i)"
        using h i len \<open>op_ok (xs ! i)\<close> \<open>op_ok (ys ! i)\<close>
        by (intro same_op_body) (auto simp: list_eq_iff_nth_eq)
    qed
  }
  then show ?thesis using chain_binding[OF X(1) v e] by blast
qed

section \<open>Logs built by appending\<close>

definition log_ok :: "ext \<Rightarrow> oplog \<Rightarrow> bool" where
  "log_ok X l \<longleftrightarrow>
     log_verify X l \<and> log_load (l_ops l) = l \<and>
     map o_seq (l_ops l) = map int [0..<length (l_ops l)] \<and>
     (\<forall>k i. map_of (l_idem l) k = Some i \<longrightarrow>
        0 \<le> i \<and> i < int (length (l_ops l)) \<and> o_idem (l_ops l ! nat i) = Some k)"

lemma load_step_frame:
  "l_ops (load_step r l) = l_ops l" "l_head (load_step r l) = l_head l"
  "load_step r (l\<lparr>l_ops := x\<rparr>) = (load_step r l)\<lparr>l_ops := x\<rparr>"
  "load_step r (l\<lparr>l_head := h\<rparr>) = (load_step r l)\<lparr>l_head := h\<rparr>"
  by (cases l; simp add: load_step_def split: option.split)+

lemma load_fold_frame:
  "l_ops (fold load_step rs l) = l_ops l"
  "fold load_step rs (l\<lparr>l_ops := x\<rparr>) = (fold load_step rs l)\<lparr>l_ops := x\<rparr>"
  by (induction rs arbitrary: l) (simp_all add: load_step_frame)

lemma log_load_frame [simp]:
  "l_ops (log_load rs) = rs" "l_head (log_load rs) = chain_end GENESIS rs"
  by (simp_all add: log_load_def chain_end_def load_fold_frame)

lemma log_load_snoc:
  "log_load (rs @ [r]) = (load_step r (log_load rs))\<lparr>l_ops := rs @ [r], l_head := o_hash r\<rparr>"
proof -
  let ?b = "\<lambda>os. \<lparr> l_ops = os, l_last = [], l_idem = [], l_head = GENESIS \<rparr>"
  have "fold load_step rs (?b (rs @ [r])) = (fold load_step rs (?b rs))\<lparr>l_ops := rs @ [r]\<rparr>"
    using load_fold_frame(2)[where l = "?b rs" and rs = rs and x = "rs @ [r]"] by simp
  then show ?thesis by (simp add: log_load_def load_step_frame)
qed

lemma log_init_load: "log_load [] = log_init"
  by (simp add: log_load_def log_init_def)

lemma log_init_fields [simp]: "l_ops log_init = []" "l_idem log_init = []" "l_last log_init = []"
    "l_head log_init = GENESIS"
  by (simp_all add: log_init_def)

lemma log_ok_init: "log_ok X log_init"
  by (simp add: log_ok_def log_verify_def log_init_load)

lemma log_ok_head: "log_ok X l \<Longrightarrow> l_head l = chain_end GENESIS (l_ops l)"
  unfolding log_ok_def by (metis log_load_frame(2))

text \<open>What a successful append returns.\<close>

lemma append_cases:
  assumes "log_append X c n op pl idm ts pr l = Inr (r, created, l')"
  obtains (dup) k i where "idm = Some k" "map_of (l_idem l) k = Some i" "\<not> created" "l' = l"
      "py_index (l_ops l) i = Inr r"
    | (new) "created" "dget (l_last l) c 0 < n" "case idm of None \<Rightarrow> True | Some k \<Rightarrow> map_of (l_idem l) k = None"
      "l_ops l' = l_ops l @ [r]" "o_seq r = int (length (l_ops l))" "o_client r = c" "o_nonce r = n"
      "o_op r = op" "o_payload r = pl" "o_idem r = idm" "o_ts r = ts" "o_prov r = pr"
      "o_prev r = l_head l" "o_hash r = blake X (l_head l @ canon X (op_body r))"
      "l' = l\<lparr> l_ops := l_ops l @ [r], l_last := dset c n (l_last l),
         l_idem := (case idm of None \<Rightarrow> l_idem l | Some k \<Rightarrow> dset k (o_seq r) (l_idem l)),
         l_head := o_hash r \<rparr>"
proof (cases "case idm of None \<Rightarrow> None | Some k \<Rightarrow> map_of (l_idem l) k")
  case None
  with assms have n: "dget (l_last l) c 0 < n"
    by (auto simp: log_append_def split: if_splits)
  show ?thesis
  proof (rule new)
    show "case idm of None \<Rightarrow> True | Some k \<Rightarrow> map_of (l_idem l) k = None"
      using None by (auto split: option.splits)
  qed (cases idm; use assms None n in \<open>auto simp: log_append_def Let_def op_body_def append_body_def\<close>)+
next
  case (Some i)
  then obtain k where "idm = Some k" "map_of (l_idem l) k = Some i" by (auto split: option.splits)
  with assms show ?thesis
    by (intro dup[of k i]) (auto simp: log_append_def bindE_eq_Inr)
qed

lemma log_ok_append:
  assumes ok: "log_ok X l" and a: "log_append X c n op pl idm ts pr l = Inr (r, created, l')"
  shows "log_ok X l'"
  using a
proof (cases rule: append_cases)
  case dup
  with ok show ?thesis by simp
next
  case new
  let ?ops = "l_ops l"
  have head: "l_head l = chain_end GENESIS ?ops" by (rule log_ok_head[OF ok])
  have v: "log_verify X l'"
    using ok new head by (simp add: log_ok_def log_verify_def verify_append)
  have load: "log_load ?ops = l" using ok by (simp add: log_ok_def)
  have nk: "k \<notin> fst ` set (l_idem l)" if "idm = Some k" for k
    using new(3) that by (simp add: map_of_eq_None_iff)
  have ld: "log_load (l_ops l') = l'"
    unfolding new(4) log_load_snoc load
    using new nk by (auto simp: load_step_def split: option.splits)
  have idx: "0 \<le> i \<and> i < int (length (l_ops l')) \<and> o_idem (l_ops l' ! nat i) = Some k"
    if "map_of (l_idem l') k = Some i" for k i
  proof (cases "idm = Some k")
    case True
    with that new(5,15) have "i = int (length ?ops)" by simp
    with new(4,10) True show ?thesis by simp
  next
    case False
    with that new(15) have "map_of (l_idem l) k = Some i" by (auto split: option.splits)
    with ok have "0 \<le> i" "i < int (length ?ops)" "o_idem (?ops ! nat i) = Some k"
      by (auto simp: log_ok_def)
    then show ?thesis by (simp add: new(4) nth_append nat_less_iff)
  qed
  show ?thesis
    using ok v ld idx new(4,5) by (simp add: log_ok_def)
qed

lemma append_replay:
  assumes "n \<le> dget (l_last l) c 0" "case idm of None \<Rightarrow> True | Some k \<Rightarrow> map_of (l_idem l) k = None"
  shows "log_append X c n op pl idm ts pr l = Inl ReplayErr"
  using assms by (auto simp: log_append_def split: option.splits)

lemma append_accepts:
  assumes "dget (l_last l) c 0 < n" "case idm of None \<Rightarrow> True | Some k \<Rightarrow> map_of (l_idem l) k = None"
  shows "\<exists>r l'. log_append X c n op pl idm ts pr l = Inr (r, True, l')"
  using assms by (auto simp: log_append_def Let_def split: option.splits)

text \<open>The nonce table holds the greatest nonce of each client, and nonces only grow.\<close>

definition nonces_ok :: "oplog \<Rightarrow> bool" where
  "nonces_ok l \<longleftrightarrow>
     (\<forall>r\<in>set (l_ops l). o_nonce r \<le> dget (l_last l) (o_client r) 0) \<and>
     (\<forall>i j. i < j \<longrightarrow> j < length (l_ops l) \<longrightarrow> o_client (l_ops l ! i) = o_client (l_ops l ! j) \<longrightarrow>
        o_nonce (l_ops l ! i) < o_nonce (l_ops l ! j))"

lemma nonces_ok_init: "nonces_ok log_init"
  by (simp add: nonces_ok_def log_init_def)

lemma nonces_ok_append:
  assumes ok: "nonces_ok l" and a: "log_append X c n op pl idm ts pr l = Inr (r, created, l')"
  shows "nonces_ok l'"
  using a
proof (cases rule: append_cases)
  case dup
  with ok show ?thesis by simp
next
  case new
  have last: "l_last l' = dset c n (l_last l)" by (simp add: new(15))
  have below: "o_nonce x < n" if "x \<in> set (l_ops l)" "o_client x = c" for x
    using ok new(2) that by (fastforce simp: nonces_ok_def)
  have "o_nonce x \<le> dget (l_last l') (o_client x) 0" if "x \<in> set (l_ops l')" for x
    using ok that below new(4,6,7) by (fastforce simp: nonces_ok_def last)
  moreover have "o_nonce (l_ops l' ! i) < o_nonce (l_ops l' ! j)"
    if "i < j" "j < length (l_ops l')" "o_client (l_ops l' ! i) = o_client (l_ops l' ! j)" for i j
    using ok that below new(4,6,7) by (cases "j < length (l_ops l)") (auto simp: nonces_ok_def nth_append)
  ultimately show ?thesis by (simp add: nonces_ok_def)
qed

lemma append_idempotent:
  assumes ok: "log_ok X l"
    and a: "log_append X c n op pl (Some k) ts pr l = Inr (r, created, l')"
  shows "log_append X c' n' op' pl' (Some k) ts' pr' l' = Inr (r, False, l')"
  using a
proof (cases rule: append_cases)
  case (dup k' i)
  then show ?thesis by (simp add: log_append_def)
next
  case new
  then have "map_of (l_idem l') k = Some (int (length (l_ops l)))"
    "py_index (l_ops l') (int (length (l_ops l))) = Inr r"
    by (simp_all add: py_index_nat)
  then show ?thesis by (simp add: log_append_def)
qed

lemma slice_until_take:
  assumes "log_ok X l" "0 \<le> n"
  shows "slice_until n l = take (Suc (nat n)) (l_ops l)"
proof -
  have "filter (\<lambda>r. o_seq r \<le> n) xs = take (Suc (nat n) - k) xs"
    if "map o_seq xs = map int [k..<k + length xs]" for xs k
    using that
  proof (induction xs arbitrary: k)
    case (Cons x xs)
    then have "o_seq x = int k" "map o_seq xs = map int [Suc k..<Suc k + length xs]"
      by (simp_all add: upt_conv_Cons del: upt_Suc)
    with Cons.IH[of "Suc k"] assms(2) show ?case
      by (cases "k \<le> nat n") (auto simp: Suc_diff_le)
  qed simp
  from this[of "l_ops l" 0] assms(1) show ?thesis
    by (simp add: slice_until_def log_ok_def)
qed

end
