(* ===== verification/TimeTravel.thy ===== *)
theory TimeTravel
  imports Prelude
begin

text \<open>
  The contract behind "AS OF seq" reads, as an interface.  A component that keeps history
  offers \<open>step\<close> (apply one event, which carries its sequence number), \<open>read_head\<close>
  and \<open>read_at\<close>; it promises that an event never changes what is read at an earlier
  sequence number, and that a read at a number no event has passed is the read at HEAD.
  Then reading the full history at \<open>n\<close> is reading, at HEAD, the history cut at \<open>n\<close>.
  The store and the relations both interpret it.
\<close>

locale time_travel =
  fixes step :: "'e \<Rightarrow> 's \<Rightarrow> 's"
    and seq_of :: "'e \<Rightarrow> int"
    and read_at :: "'s \<Rightarrow> 'q \<Rightarrow> int \<Rightarrow> 'r"
    and read_head :: "'s \<Rightarrow> 'q \<Rightarrow> 'r"
    and inv :: "'s \<Rightarrow> bool"
    and upto :: "'s \<Rightarrow> int \<Rightarrow> bool"
  assumes inv_step: "inv s \<Longrightarrow> upto s m \<Longrightarrow> m \<le> seq_of e \<Longrightarrow> inv (step e s)"
    and upto_step: "inv s \<Longrightarrow> upto s m \<Longrightarrow> m \<le> seq_of e \<Longrightarrow> upto (step e s) (seq_of e)"
    and upto_mono: "upto s m \<Longrightarrow> m \<le> n \<Longrightarrow> upto s n"
    and past_stable: "inv s \<Longrightarrow> upto s m \<Longrightarrow> m \<le> seq_of e \<Longrightarrow> n < seq_of e \<Longrightarrow>
      read_at (step e s) q n = read_at s q n"
    and head_now: "inv s \<Longrightarrow> upto s n \<Longrightarrow> read_at s q n = read_head s q"
begin

lemma inv_fold:
  "inv s \<Longrightarrow> upto s m \<Longrightarrow> sorted (map seq_of es) \<Longrightarrow> (\<forall>e\<in>set es. m \<le> seq_of e) \<Longrightarrow>
   inv (fold step es s)"
proof (induction es arbitrary: s m)
  case (Cons e es)
  then have "inv (step e s)" "upto (step e s) (seq_of e)"
    using inv_step upto_step by auto
  with Cons show ?case by auto
qed simp

lemma upto_fold:
  "inv s \<Longrightarrow> upto s m \<Longrightarrow> sorted (map seq_of es) \<Longrightarrow> (\<forall>e\<in>set es. m \<le> seq_of e \<and> seq_of e \<le> n) \<Longrightarrow>
   m \<le> n \<Longrightarrow> upto (fold step es s) n"
proof (induction es arbitrary: s m)
  case Nil
  then show ?case using upto_mono by simp
next
  case (Cons e es)
  then have "inv (step e s)" "upto (step e s) (seq_of e)"
    using inv_step upto_step by auto
  with Cons show ?case by auto
qed

lemma past_stable_fold:
  "inv s \<Longrightarrow> upto s m \<Longrightarrow> sorted (map seq_of es) \<Longrightarrow> (\<forall>e\<in>set es. m \<le> seq_of e \<and> n < seq_of e) \<Longrightarrow>
   read_at (fold step es s) q n = read_at s q n"
proof (induction es arbitrary: s m)
  case (Cons e es)
  then have "inv (step e s)" "upto (step e s) (seq_of e)"
    using inv_step upto_step by auto
  with Cons have "read_at (fold step es (step e s)) q n = read_at (step e s) q n"
    by auto
  with Cons.prems show ?case using past_stable by auto
qed simp

lemma sorted_split:
  assumes "sorted (map seq_of es)"
  shows "es = filter (\<lambda>e. seq_of e \<le> n) es @ filter (\<lambda>e. n < seq_of e) es"
  using assms
proof (induction es)
  case (Cons e es)
  show ?case
  proof (cases "seq_of e \<le> n")
    case True
    with Cons show ?thesis by simp
  next
    case False
    with Cons.prems have "\<forall>x\<in>set es. n < seq_of x" by auto
    then have "filter (\<lambda>e. seq_of e \<le> n) es = []" "filter (\<lambda>e. n < seq_of e) es = es"
      by (auto simp: filter_empty_conv filter_id_conv)
    with False show ?thesis by simp
  qed
qed simp

theorem read_at_cut:
  assumes "inv s" "upto s m" "sorted (map seq_of es)" "\<forall>e\<in>set es. m \<le> seq_of e" "m \<le> n"
  shows "read_at (fold step es s) q n = read_head (fold step (filter (\<lambda>e. seq_of e \<le> n) es) s) q"
proof -
  let ?old = "filter (\<lambda>e. seq_of e \<le> n) es" and ?new = "filter (\<lambda>e. n < seq_of e) es"
  have so: "sorted (map seq_of ?old)" "sorted (map seq_of ?new)"
    using assms(3) by (simp_all add: sorted_filter)
  have i: "inv (fold step ?old s)"
    using inv_fold assms(1,2,4) so by auto
  have u: "upto (fold step ?old s) n"
    using upto_fold assms(1,2,4,5) so by auto
  have "fold step es s = fold step ?new (fold step ?old s)"
    by (subst sorted_split[OF assms(3), of n]) simp
  then have "read_at (fold step es s) q n = read_at (fold step ?old s) q n"
    using past_stable_fold[OF i u so(2)] by auto
  also have "\<dots> = read_head (fold step ?old s) q"
    by (rule head_now[OF i u])
  finally show ?thesis .
qed

end

end
