(* ===== verification/Store.thy ===== *)
theory Store
  imports TimeTravel
begin

text \<open>
  \<open>nedb.store\<close>: the multi-version key/value store.  Each key has an ascending chain of
  \<open>(seq, value)\<close> versions and, beside it, the list of their sequence numbers for
  \<open>bisect\<close>; a delete is a version holding the tombstone (\<open>None\<close> here).  Stored values
  are documents, never Python's \<open>None\<close>.
\<close>

section \<open>State and operations\<close>

record 'v mvcc =
  mv_v :: "(string, (int \<times> 'v option) list) dict"
  mv_seqs :: "(string, int list) dict"

definition mv_init :: "'v mvcc" where
  "mv_init = \<lparr> mv_v = [], mv_seqs = [] \<rparr>"

definition mv_put :: "string \<Rightarrow> 'v \<Rightarrow> int \<Rightarrow> 'v mvcc \<Rightarrow> 'v mvcc" where
  "mv_put key val seq s =
     s\<lparr> mv_v := dappend key (seq, Some val) (mv_v s), mv_seqs := dappend key seq (mv_seqs s) \<rparr>"

definition mv_delete :: "string \<Rightarrow> int \<Rightarrow> 'v mvcc \<Rightarrow> 'v mvcc" where
  "mv_delete key seq s =
     s\<lparr> mv_v := dappend key (seq, None) (mv_v s), mv_seqs := dappend key seq (mv_seqs s) \<rparr>"

definition mv_get :: "'v mvcc \<Rightarrow> string \<Rightarrow> int option \<Rightarrow> 'v option res" where
  "mv_get s key as_of =
     (case map_of (mv_v s) key of
        None \<Rightarrow> Inr None
      | Some chain \<Rightarrow>
          if chain = [] then Inr None
          else (case as_of of
                  None \<Rightarrow> bindE (py_index chain (-1)) (\<lambda>(_, val). Inr val)
                | Some n \<Rightarrow>
                    (case map_of (mv_seqs s) key of
                       None \<Rightarrow> Inl KeyError
                     | Some ss \<Rightarrow>
                         (let i = int (bisect_right ss n) - 1 in
                          if i < 0 then Inr None
                          else bindE (py_index chain i) (\<lambda>(_, val). Inr val)))))"

definition mv_keys :: "'v mvcc \<Rightarrow> string \<Rightarrow> int option \<Rightarrow> string list res" where
  "mv_keys s prefix as_of =
     filterE (\<lambda>k. if prefix \<noteq> [] \<and> \<not> starts_with prefix k then Inr False
                  else bindE (mv_get s k as_of) (\<lambda>v. Inr (v \<noteq> None)))
       (map fst (mv_v s))"

definition mv_snapshot :: "'v mvcc \<Rightarrow> string \<Rightarrow> int option \<Rightarrow> (string, 'v option) dict res" where
  "mv_snapshot s prefix as_of =
     bindE (mv_keys s prefix as_of)
       (mapE (\<lambda>k. bindE (mv_get s k as_of) (\<lambda>v. Inr (k, v))))"

section \<open>Well-formed stores\<close>

definition mv_wf :: "'v mvcc \<Rightarrow> bool" where
  "mv_wf s \<longleftrightarrow>
     distinct (map fst (mv_v s)) \<and>
     (\<forall>k. map_of (mv_seqs s) k = map_option (map fst) (map_of (mv_v s) k)) \<and>
     (\<forall>k ch. map_of (mv_v s) k = Some ch \<longrightarrow> ch \<noteq> [] \<and> sorted (map fst ch))"

definition mv_upto :: "'v mvcc \<Rightarrow> int \<Rightarrow> bool" where
  "mv_upto s n \<longleftrightarrow> (\<forall>k ch. map_of (mv_v s) k = Some ch \<longrightarrow> (\<forall>e\<in>set ch. fst e \<le> n))"

text \<open>What a well-formed store promises, stated on the history of a key.\<close>

definition history :: "'v mvcc \<Rightarrow> string \<Rightarrow> (int \<times> 'v option) list" where
  "history s k = dget (mv_v s) k []"

definition visible :: "(int \<times> 'v option) list \<Rightarrow> 'v option" where
  "visible h = (if h = [] then None else snd (last h))"

lemma mv_wf_init [simp]: "mv_wf mv_init"
  by (simp add: mv_wf_def mv_init_def)

lemma mv_upto_init [simp]: "mv_upto mv_init n"
  by (simp add: mv_upto_def mv_init_def)

lemma mv_upto_mono: "mv_upto s m \<Longrightarrow> m \<le> n \<Longrightarrow> mv_upto s n"
  unfolding mv_upto_def by (meson order.trans)

lemma history_upto: "mv_upto s n \<Longrightarrow> e \<in> set (history s k) \<Longrightarrow> fst e \<le> n"
  unfolding mv_upto_def history_def dget_def
  by (cases "map_of (mv_v s) k") auto

lemma history_sorted: "mv_wf s \<Longrightarrow> sorted (map fst (history s k))"
  by (auto simp: mv_wf_def history_def dget_def split: option.splits)

lemma history_put [simp]:
  "history (mv_put k v q s) k' = (if k' = k then history s k @ [(q, Some v)] else history s k')"
  by (simp add: history_def mv_put_def)

lemma history_delete [simp]:
  "history (mv_delete k q s) k' = (if k' = k then history s k @ [(q, None)] else history s k')"
  by (simp add: history_def mv_delete_def)

lemma history_init [simp]: "history mv_init k = []"
  by (simp add: history_def mv_init_def)

lemma visible_Nil [simp]: "visible [] = None"
  by (simp add: visible_def)

lemma visible_snoc [simp]: "visible (h @ [e]) = snd e"
  by (simp add: visible_def)

lemma mv_wf_chain:
  assumes "mv_wf s" "map_of (mv_v s) k = Some ch"
  shows "map_of (mv_seqs s) k = Some (map fst ch)" "ch \<noteq> []" "sorted (map fst ch)"
  using assms by (auto simp: mv_wf_def)

lemma mv_wf_append:
  assumes wf: "mv_wf s" and up: "mv_upto s m" and q: "m \<le> q"
    and t: "mv_v t = dappend k (q, x) (mv_v s)" "mv_seqs t = dappend k q (mv_seqs s)"
  shows "mv_wf t" "mv_upto t q"
proof -
  have d: "dget (mv_seqs s) k [] = map fst (dget (mv_v s) k [])"
    using wf by (cases "map_of (mv_v s) k") (simp_all add: mv_wf_def dget_def)
  have below: "fst e \<le> q" if "e \<in> set (dget (mv_v s) k [])" for e
    using history_upto[OF mv_upto_mono[OF up q]] that by (simp add: history_def)
  have so: "sorted (map fst (dget (mv_v s) k []))"
    using history_sorted[OF wf] by (simp add: history_def)
  show "mv_wf t"
    unfolding mv_wf_def t
    using wf below so
    by (auto simp: mv_wf_def d sorted_append)
  show "mv_upto t q"
    unfolding mv_upto_def t
    using mv_upto_mono[OF up q] below by (auto simp: mv_upto_def)
qed

lemma mv_wf_put [intro]: "mv_wf s \<Longrightarrow> mv_upto s m \<Longrightarrow> m \<le> q \<Longrightarrow> mv_wf (mv_put k v q s)"
  and mv_upto_put: "mv_wf s \<Longrightarrow> mv_upto s m \<Longrightarrow> m \<le> q \<Longrightarrow> mv_upto (mv_put k v q s) q"
  by (rule mv_wf_append; simp add: mv_put_def)+

lemma mv_wf_delete [intro]: "mv_wf s \<Longrightarrow> mv_upto s m \<Longrightarrow> m \<le> q \<Longrightarrow> mv_wf (mv_delete k q s)"
  and mv_upto_delete: "mv_wf s \<Longrightarrow> mv_upto s m \<Longrightarrow> m \<le> q \<Longrightarrow> mv_upto (mv_delete k q s) q"
  by (rule mv_wf_append; simp add: mv_delete_def)+

section \<open>Reads\<close>

lemma mv_get_head [simp]: "mv_get s k None = Inr (visible (history s k))"
  by (auto simp: mv_get_def history_def dget_def visible_def py_index_last
      split: option.splits prod.splits)

lemma filter_prefix_nth:
  fixes h :: "(int \<times> 'a) list"
  assumes "sorted (map fst h)" "filter (\<lambda>e. fst e \<le> n) h \<noteq> []"
  shows "h ! (length (filter (\<lambda>e. fst e \<le> n) h) - 1) = last (filter (\<lambda>e. fst e \<le> n) h)"
proof -
  have t: "filter (\<lambda>e. fst e \<le> n) h = takeWhile (\<lambda>e. fst e \<le> n) h"
    using assms(1)
    by (induction h) (auto simp: filter_empty_conv takeWhile_eq_Nil_iff neq_Nil_conv)
  from assms(2) show ?thesis
    by (simp add: t last_conv_nth takeWhile_nth)
qed

lemma mv_get_as_of:
  assumes wf: "mv_wf s"
  shows "mv_get s k (Some n) = Inr (visible (filter (\<lambda>e. fst e \<le> n) (history s k)))"
proof (cases "map_of (mv_v s) k")
  case None
  then show ?thesis by (simp add: mv_get_def history_def dget_def)
next
  case (Some ch)
  note c = mv_wf_chain[OF wf Some]
  let ?f = "filter (\<lambda>e. fst e \<le> n) ch"
  have b: "bisect_right (map fst ch) n = length ?f"
    using bisect_right_count[OF c(3)] by (simp add: filter_map o_def)
  have h: "history s k = ch" using Some by (simp add: history_def dget_def)
  show ?thesis
  proof (cases "?f = []")
    case True
    then show ?thesis
      using Some c b h by (simp add: mv_get_def)
  next
    case False
    then have pos: "0 < length ?f" by simp
    moreover have "length ?f \<le> length ch" by (rule length_filter_le)
    ultimately have len: "length ?f - 1 < length ch" by linarith
    from pos have i: "int (length ?f) - 1 = int (length ?f - 1)" by linarith
    have x: "py_index ch (int (length ?f) - 1) = Inr (last ?f)"
      unfolding i using len filter_prefix_nth[OF c(3) False] by (simp only: py_index_nat)
    have "mv_get s k (Some n) = bindE (py_index ch (int (length ?f) - 1)) (\<lambda>(_, val). Inr val)"
      using pos by (simp only: mv_get_def Some c(1) b option.case c(2) if_False Let_def) simp
    also have "\<dots> = Inr (snd (last ?f))"
      unfolding x by (simp add: case_prod_beta)
    finally show ?thesis
      using False by (simp add: h visible_def)
  qed
qed

lemma mv_get_total: "mv_wf s \<Longrightarrow> \<exists>v. mv_get s k as_of = Inr v"
  by (cases as_of) (auto simp: mv_get_as_of)

text \<open>The value read, for a well-formed store.\<close>

definition reads :: "'v mvcc \<Rightarrow> string \<Rightarrow> int option \<Rightarrow> 'v option" where
  "reads s k as_of =
     visible (case as_of of None \<Rightarrow> history s k
                          | Some n \<Rightarrow> filter (\<lambda>e. fst e \<le> n) (history s k))"

lemma mv_get_reads: "mv_wf s \<Longrightarrow> mv_get s k as_of = Inr (reads s k as_of)"
  by (cases as_of) (simp_all add: reads_def mv_get_as_of)

lemma reads_head [simp]: "reads s k None = visible (history s k)"
  by (simp add: reads_def)

definition live_keys :: "'v mvcc \<Rightarrow> string \<Rightarrow> int option \<Rightarrow> string list" where
  "live_keys s prefix as_of =
     filter (\<lambda>k. starts_with prefix k \<and> reads s k as_of \<noteq> None) (map fst (mv_v s))"

lemma mv_keys_live:
  assumes "mv_wf s"
  shows "mv_keys s prefix as_of = Inr (live_keys s prefix as_of)"
  unfolding mv_keys_def live_keys_def
  by (rule filterE_total) (auto simp: mv_get_reads[OF assms] starts_with_def)

lemma history_key: "history s k \<noteq> [] \<Longrightarrow> k \<in> fst ` set (mv_v s)"
  by (auto simp: history_def dget_def split: option.splits dest!: map_of_SomeD)
    (metis fst_conv image_eqI)

lemma reads_key: "reads s k as_of \<noteq> None \<Longrightarrow> k \<in> fst ` set (mv_v s)"
  by (rule history_key) (auto simp: reads_def split: option.splits)

lemma set_live_keys:
  "set (live_keys s prefix as_of) = {k. starts_with prefix k \<and> reads s k as_of \<noteq> None}"
  using reads_key[of s _ as_of] by (auto simp: live_keys_def)

lemma distinct_live_keys: "mv_wf s \<Longrightarrow> distinct (live_keys s prefix as_of)"
  by (simp add: live_keys_def mv_wf_def)

lemma mv_snapshot_reads:
  assumes "mv_wf s"
  shows "mv_snapshot s prefix as_of =
     Inr (map (\<lambda>k. (k, reads s k as_of)) (live_keys s prefix as_of))"
  using assms
  by (simp add: mv_snapshot_def mv_keys_live mv_get_reads)
    (rule mapE_total, simp)

section \<open>Time travel\<close>

text \<open>The writes a store receives, with their sequence numbers.\<close>

datatype 'v wr = WPut string 'v int | WDel string int

fun mv_write :: "'v wr \<Rightarrow> 'v mvcc \<Rightarrow> 'v mvcc" where
  "mv_write (WPut k v q) s = mv_put k v q s"
| "mv_write (WDel k q) s = mv_delete k q s"

fun write_seq :: "'v wr \<Rightarrow> int" where
  "write_seq (WPut k v q) = q"
| "write_seq (WDel k q) = q"

definition mv_read_at :: "'v mvcc \<Rightarrow> string \<Rightarrow> int \<Rightarrow> 'v option res" where
  "mv_read_at s k n = mv_get s k (Some n)"

definition mv_read_head :: "'v mvcc \<Rightarrow> string \<Rightarrow> 'v option res" where
  "mv_read_head s k = mv_get s k None"

interpretation mv: time_travel mv_write write_seq mv_read_at mv_read_head mv_wf mv_upto
proof unfold_locales
  fix s :: "'v mvcc" and m n :: int and e :: "'v wr" and q
  assume wf: "mv_wf s"
  {
    assume up: "mv_upto s m" and m: "m \<le> write_seq e"
    show wf': "mv_wf (mv_write e s)"
      using wf up m by (cases e) auto
    show "mv_upto (mv_write e s) (write_seq e)"
      using wf up m by (cases e) (auto intro: mv_upto_put mv_upto_delete)
    assume "n < write_seq e"
    then show "mv_read_at (mv_write e s) q n = mv_read_at s q n"
      unfolding mv_read_at_def mv_get_as_of[OF wf] mv_get_as_of[OF wf']
      by (cases e) auto
  }
  assume "mv_upto s n"
  then have "filter (\<lambda>e. fst e \<le> n) (history s q) = history s q"
    by (auto simp: filter_id_conv dest: history_upto)
  then show "mv_read_at s q n = mv_read_head s q"
    by (simp add: mv_read_at_def mv_read_head_def mv_get_as_of[OF wf])
qed (rule mv_upto_mono)

end
