(* ===== verification/Relations.thy ===== *)
theory Relations
  imports TimeTravel
begin

text \<open>
  \<open>nedb.relations\<close>: adjacency lists of edges \<open>[to, added, removed]\<close> under
  \<open>(frm, rel)\<close>, and the reverse index under \<open>(to, rel)\<close>.
\<close>

section \<open>State and operations\<close>

type_synonym edge = "string \<times> int \<times> int option"

record rels =
  r_adj :: "(string \<times> string, edge list) dict"
  r_radj :: "(string \<times> string, edge list) dict"

definition rels_init :: rels where
  "rels_init = \<lparr> r_adj = [], r_radj = [] \<rparr>"

definition is_open :: "string \<Rightarrow> edge \<Rightarrow> bool" where
  \<comment> \<open>\<open>e[0] == to and e[2] is None\<close>\<close>
  "is_open node e \<longleftrightarrow> fst e = node \<and> snd (snd e) = None"

definition rel_link :: "string \<Rightarrow> string \<Rightarrow> string \<Rightarrow> int \<Rightarrow> rels \<Rightarrow> rels" where
  "rel_link frm rel to seq r =
     (if list_ex (is_open to) (dget (r_adj r) (frm, rel) []) then r
      else r\<lparr> r_adj := dappend (frm, rel) (to, seq, None) (r_adj r),
              r_radj := dappend (to, rel) (frm, seq, None) (r_radj r) \<rparr>)"

definition close_edge :: "string \<Rightarrow> int \<Rightarrow> edge \<Rightarrow> edge" where
  "close_edge node seq e = (if is_open node e then (fst e, fst (snd e), Some seq) else e)"

definition close_in :: "string \<times> string \<Rightarrow> string \<Rightarrow> int \<Rightarrow> (string \<times> string, edge list) dict \<Rightarrow>
    (string \<times> string, edge list) dict" where
  \<comment> \<open>mutate the edges of \<open>d.get(key, [])\<close> in place\<close>
  "close_in key node seq d =
     (case map_of d key of None \<Rightarrow> d | Some es \<Rightarrow> dset key (map (close_edge node seq) es) d)"

definition rel_unlink :: "string \<Rightarrow> string \<Rightarrow> string \<Rightarrow> int \<Rightarrow> rels \<Rightarrow> rels" where
  "rel_unlink frm rel to seq r =
     r\<lparr> r_adj := close_in (frm, rel) to seq (r_adj r),
        r_radj := close_in (to, rel) frm seq (r_radj r) \<rparr>"

definition edge_live :: "int option \<Rightarrow> edge \<Rightarrow> bool" where
  "edge_live as_of e =
     (case e of (node, added, removed) \<Rightarrow>
        (case as_of of
           None \<Rightarrow> removed = None
         | Some n \<Rightarrow> added \<le> n \<and> (removed = None \<or> the removed > n)))"

definition live :: "edge list \<Rightarrow> int option \<Rightarrow> string list" where
  "live edges as_of = map fst (filter (edge_live as_of) edges)"

definition neighbors :: "rels \<Rightarrow> string \<Rightarrow> string \<Rightarrow> int option \<Rightarrow> string list" where
  "neighbors r frm rel as_of = live (dget (r_adj r) (frm, rel) []) as_of"

definition inbound :: "rels \<Rightarrow> string \<Rightarrow> string \<Rightarrow> int option \<Rightarrow> string list" where
  "inbound r to rel as_of = live (dget (r_radj r) (to, rel) []) as_of"

section \<open>Lookups after an operation\<close>

lemma dget_close_in [simp]:
  "dget (close_in key node seq d) k' [] =
     (if k' = key then map (close_edge node seq) (dget d key []) else dget d k' [])"
  by (auto simp: close_in_def dget_def split: option.splits)

lemma adj_init [simp]: "dget (r_adj rels_init) k [] = []" "dget (r_radj rels_init) k [] = []"
  by (simp_all add: rels_init_def)

lemma live_Nil [simp]: "live [] t = []"
  by (simp add: live_def)

lemma live_snoc: "live (es @ [e]) t = live es t @ (if edge_live t e then [fst e] else [])"
  by (simp add: live_def)

lemma fst_close_edge [simp]: "fst (close_edge node seq e) = fst e"
  by (simp add: close_edge_def)

lemma edge_live_open: "edge_live None e \<longleftrightarrow> snd (snd e) = None"
  by (cases e) (simp add: edge_live_def)

lemma live_close_head:
  "live (map (close_edge node seq) es) None = filter (\<lambda>x. x \<noteq> node) (live es None)"
  by (induction es) (auto simp: live_def edge_live_open close_edge_def is_open_def)

lemma live_close_past:
  "n < seq \<Longrightarrow> live (map (close_edge node seq) es) (Some n) = live es (Some n)"
  by (induction es) (auto simp: live_def edge_live_def close_edge_def is_open_def split: prod.splits)

lemma list_ex_open: "list_ex (is_open to) es \<longleftrightarrow> to \<in> set (live es None)"
  by (induction es) (auto simp: live_def edge_live_open is_open_def)

section \<open>Time travel\<close>

datatype rel_event = ELink string string string int | EUnlink string string string int

fun rel_apply :: "rel_event \<Rightarrow> rels \<Rightarrow> rels" where
  "rel_apply (ELink f r t q) = rel_link f r t q"
| "rel_apply (EUnlink f r t q) = rel_unlink f r t q"

fun rel_seq :: "rel_event \<Rightarrow> int" where
  "rel_seq (ELink f r t q) = q"
| "rel_seq (EUnlink f r t q) = q"

datatype rel_query = Out string string | In string string

definition rel_read :: "rels \<Rightarrow> rel_query \<Rightarrow> int option \<Rightarrow> string list" where
  "rel_read r q as_of =
     (case q of Out f l \<Rightarrow> neighbors r f l as_of | In t l \<Rightarrow> inbound r t l as_of)"

definition rel_read_at :: "rels \<Rightarrow> rel_query \<Rightarrow> int \<Rightarrow> string list" where
  "rel_read_at r q n = rel_read r q (Some n)"

definition rel_read_head :: "rels \<Rightarrow> rel_query \<Rightarrow> string list" where
  "rel_read_head r q = rel_read r q None"

definition edges_upto :: "edge list \<Rightarrow> int \<Rightarrow> bool" where
  "edges_upto es n \<longleftrightarrow> (\<forall>e\<in>set es. fst (snd e) \<le> n \<and> (\<forall>x. snd (snd e) = Some x \<longrightarrow> x \<le> n))"

definition rel_upto :: "rels \<Rightarrow> int \<Rightarrow> bool" where
  "rel_upto r n \<longleftrightarrow>
     (\<forall>k. edges_upto (dget (r_adj r) k []) n) \<and> (\<forall>k. edges_upto (dget (r_radj r) k []) n)"

lemma rel_upto_init [simp]: "rel_upto rels_init n"
  by (simp add: rel_upto_def edges_upto_def)

lemma edges_upto_mono: "edges_upto es m \<Longrightarrow> m \<le> n \<Longrightarrow> edges_upto es n"
  unfolding edges_upto_def by (meson order.trans)

lemma edges_upto_snoc:
  "edges_upto es m \<Longrightarrow> m \<le> q \<Longrightarrow> edges_upto (es @ [(x, q, None)]) q"
  using edges_upto_mono[of es m q] by (auto simp: edges_upto_def)

lemma edges_upto_close:
  "edges_upto es m \<Longrightarrow> m \<le> q \<Longrightarrow> edges_upto (map (close_edge x q) es) q"
  using edges_upto_mono[of es m q] by (auto simp: edges_upto_def close_edge_def)

lemma live_now:
  assumes "edges_upto es n"
  shows "live es (Some n) = live es None"
proof -
  have "edge_live (Some n) e = edge_live None e" if "e \<in> set es" for e
    using assms that
    by (cases e; cases "snd (snd e)") (fastforce simp: edges_upto_def edge_live_def)+
  then have "filter (edge_live (Some n)) es = filter (edge_live None) es"
    by (rule filter_cong[OF refl])
  then show ?thesis by (simp add: live_def)
qed

lemma rel_upto_mono: "rel_upto r m \<Longrightarrow> m \<le> n \<Longrightarrow> rel_upto r n"
  unfolding rel_upto_def by (meson edges_upto_mono)

lemma rel_upto_apply:
  assumes "rel_upto r m" "m \<le> rel_seq e"
  shows "rel_upto (rel_apply e r) (rel_seq e)"
proof -
  have a: "edges_upto (dget (r_adj r) k []) m" and b: "edges_upto (dget (r_radj r) k []) m" for k
    using assms(1) by (cases k, simp add: rel_upto_def)+
  note up = edges_upto_mono[OF a assms(2)] edges_upto_mono[OF b assms(2)]
    edges_upto_snoc[OF a assms(2)] edges_upto_snoc[OF b assms(2)]
    edges_upto_close[OF a assms(2)] edges_upto_close[OF b assms(2)]
  show ?thesis
    by (cases e) (use up in \<open>auto simp: rel_upto_def rel_link_def rel_unlink_def\<close>)
qed

lemma rel_past_stable:
  assumes "n < rel_seq e"
  shows "rel_read_at (rel_apply e r) q n = rel_read_at r q n"
  using assms
  by (cases e; cases q)
    (auto simp: rel_read_at_def rel_read_def neighbors_def inbound_def rel_link_def rel_unlink_def
      live_snoc live_close_past edge_live_def)

interpretation rt: time_travel rel_apply rel_seq rel_read_at rel_read_head "\<lambda>_. True" rel_upto
proof unfold_locales
  fix s n q
  assume "rel_upto s n"
  then show "rel_read_at s q n = rel_read_head s q"
    by (cases q)
      (auto simp: rel_read_at_def rel_read_head_def rel_read_def neighbors_def inbound_def
        rel_upto_def live_now)
qed (auto intro: rel_upto_mono rel_upto_apply rel_past_stable)

section \<open>The two indexes agree\<close>

text \<open>
  Invariant: the edges from \<open>a\<close> to \<open>b\<close> and the reverse edges from \<open>b\<close> to \<open>a\<close> have the
  same life times, and no node is linked twice at HEAD.
\<close>

definition spans :: "edge list \<Rightarrow> string \<Rightarrow> (int \<times> int option) list" where
  "spans es node = map snd (filter (\<lambda>e. fst e = node) es)"

definition rel_wf :: "rels \<Rightarrow> bool" where
  "rel_wf r \<longleftrightarrow>
     (\<forall>a l b. spans (dget (r_adj r) (a, l) []) b = spans (dget (r_radj r) (b, l) []) a) \<and>
     (\<forall>a l. distinct (live (dget (r_adj r) (a, l) []) None)) \<and>
     (\<forall>b l. distinct (live (dget (r_radj r) (b, l) []) None))"

lemma rel_wf_init [simp]: "rel_wf rels_init"
  by (simp add: rel_wf_def spans_def)

lemma spans_snoc: "spans (es @ [e]) x = spans es x @ (if fst e = x then [snd e] else [])"
  by (simp add: spans_def)

lemma spans_close:
  "spans (map (close_edge node q) es) x =
     (if x = node then map (\<lambda>(a, r). (a, if r = None then Some q else r)) (spans es x)
      else spans es x)"
  by (induction es) (auto simp: spans_def close_edge_def is_open_def split: if_splits)

lemma live_spans: "x \<in> set (live es t) \<longleftrightarrow> (\<exists>s\<in>set (spans es x). edge_live t (x, s))"
  by (auto simp: live_def spans_def) force+

lemma rel_wf_link:
  assumes wf: "rel_wf r"
  shows "rel_wf (rel_link f l t q r)"
proof (cases "t \<in> set (live (dget (r_adj r) (f, l) []) None)")
  case True
  with wf show ?thesis by (simp add: rel_link_def list_ex_open)
next
  case False
  have "f \<notin> set (live (dget (r_radj r) (t, l) []) None)"
    using False wf by (auto simp: live_spans rel_wf_def edge_live_open)
  with False wf show ?thesis
    by (auto simp: rel_wf_def rel_link_def list_ex_open spans_snoc live_snoc)
qed

lemma rel_wf_unlink:
  assumes "rel_wf r"
  shows "rel_wf (rel_unlink f l t q r)"
  using assms by (auto simp: rel_wf_def rel_unlink_def spans_close live_close_head)

lemma rel_wf_apply: "rel_wf r \<Longrightarrow> rel_wf (rel_apply e r)"
  by (cases e) (simp_all add: rel_wf_link rel_wf_unlink)

lemma rel_wf_fold: "rel_wf r \<Longrightarrow> rel_wf (fold rel_apply es r)"
  by (induction es arbitrary: r) (auto simp: rel_wf_apply)

lemma neighbor_iff_inbound:
  assumes "rel_wf r"
  shows "b \<in> set (neighbors r a l t) \<longleftrightarrow> a \<in> set (inbound r b l t)"
proof -
  have "edge_live t (b, s) = edge_live t (a, s)" for s
    by (cases s) (simp add: edge_live_def)
  with assms show ?thesis
    by (simp add: neighbors_def inbound_def live_spans rel_wf_def)
qed

section \<open>Effect of an operation at HEAD\<close>

lemma neighbors_link_head:
  "neighbors (rel_link f l t q r) a k None =
     (if (a, k) = (f, l) \<and> t \<notin> set (neighbors r f l None) then neighbors r f l None @ [t]
      else neighbors r a k None)"
  by (auto simp: rel_link_def neighbors_def list_ex_open live_snoc edge_live_open)

lemma neighbors_unlink_head:
  "neighbors (rel_unlink f l t q r) a k None =
     (if (a, k) = (f, l) then filter (\<lambda>x. x \<noteq> t) (neighbors r f l None)
      else neighbors r a k None)"
  by (auto simp: rel_unlink_def neighbors_def live_close_head)

end
