(* ===== verification/Indexes.thy ===== *)
theory Indexes
  imports PyVal
begin

text \<open>
  \<open>nedb.index\<close>: the equality, ordered and full-text indexes at HEAD, keyed by
  \<open>"collection.field"\<close>.  A method that raises half-way leaves the index structures as they
  are at that moment, so \<open>add\<close> and \<open>remove\<close> return the exception beside the state.
\<close>

section \<open>Tokens\<close>

definition tok_char :: "char \<Rightarrow> bool" where
  "tok_char c \<longleftrightarrow> is_lower c \<or> is_digit c"

function findall_tok :: "string \<Rightarrow> string list" where
  "findall_tok s =
     (case dropWhile (\<lambda>c. \<not> tok_char c) s of
        [] \<Rightarrow> []
      | c # t \<Rightarrow> takeWhile tok_char (c # t) # findall_tok (dropWhile tok_char t))"
  by pat_completeness auto
termination
proof (relation "measure length")
  fix s c t assume "dropWhile (\<lambda>c. \<not> tok_char c) s = c # t"
  then have "length (c # t) \<le> length s" by (metis length_dropWhile_le)
  moreover have "length (dropWhile tok_char t) \<le> length t" by (rule length_dropWhile_le)
  ultimately show "(dropWhile tok_char t, s) \<in> measure length" by simp
qed simp

declare findall_tok.simps [simp del]

text \<open>The set of tokens, each listed once; no caller depends on the order of the set.\<close>

definition tokenize :: "string \<Rightarrow> string list" where
  "tokenize text = remdups (findall_tok (str_lower text))"

section \<open>State\<close>

type_synonym vmap = "(hkey, string set) dict"
type_synonym invmap = "(string, string set) dict"

record indexes =
  ix_eq :: "(string, vmap) dict"
  ix_ordered :: "(string, (pyval \<times> string) list) dict"
  ix_inv :: "(string, invmap) dict"
  ix_config :: "(string \<times> string \<times> string) list"

definition ix_init :: indexes where
  "ix_init = \<lparr> ix_eq = [], ix_ordered = [], ix_inv = [], ix_config = [] \<rparr>"

definition ix_key :: "string \<Rightarrow> string \<Rightarrow> string" where
  "ix_key coll field = coll @ ''.'' @ field"

definition ix_ensure :: "string \<Rightarrow> string \<Rightarrow> string \<Rightarrow> indexes \<Rightarrow> indexes act" where
  "ix_ensure coll field kind ix =
     (let k = ix_key coll field;
          ix1 = (if (coll, field, kind) \<in> set (ix_config ix) then ix
                 else ix\<lparr> ix_config := ix_config ix @ [(coll, field, kind)] \<rparr>)
      in if kind = ''eq'' then (None, ix1\<lparr> ix_eq := setdefault k [] (ix_eq ix1) \<rparr>)
         else if kind = ''ordered'' then (None, ix1\<lparr> ix_ordered := setdefault k [] (ix_ordered ix1) \<rparr>)
         else if kind = ''search'' then (None, ix1\<lparr> ix_inv := setdefault k [] (ix_inv ix1) \<rparr>)
         else (Some ValueErr, ix1))"

section \<open>Maintenance\<close>

text \<open>\<open>k.split(".", 1)[1]\<close>\<close>

definition after_dot :: "string \<Rightarrow> string res" where
  "after_dot k = (case dropWhile (\<lambda>c. c \<noteq> CHR ''.'') k of [] \<Rightarrow> Inl IndexError | _ # t \<Rightarrow> Inr t)"

text \<open>A loop over the entries of a dict whose body updates the entry and may raise.\<close>

fun update_each :: "(string \<Rightarrow> 'v \<Rightarrow> 'v res) \<Rightarrow> (string, 'v) dict \<Rightarrow> (string, 'v) dict act" where
  "update_each g [] = (None, [])"
| "update_each g ((k, v) # r) =
     (case g k v of
        Inl e \<Rightarrow> (Some e, (k, v) # r)
      | Inr v' \<Rightarrow> (case update_each g r of (e, r') \<Rightarrow> (e, (k, v') # r')))"

definition eq_add :: "string \<Rightarrow> string \<Rightarrow> doc \<Rightarrow> string \<Rightarrow> vmap \<Rightarrow> vmap res" where
  "eq_add coll key d fld vm =
     bindE (after_dot fld) (\<lambda>f.
       if starts_with (coll @ ''.'') fld \<and> has_key f d
       then bindE (hash_key (doc_get d f)) (\<lambda>h. Inr (dset h (insert key (dget vm h {})) vm))
       else Inr vm)"

definition eq_remove :: "string \<Rightarrow> string \<Rightarrow> doc \<Rightarrow> string \<Rightarrow> vmap \<Rightarrow> vmap res" where
  "eq_remove coll key d fld vm =
     bindE (after_dot fld) (\<lambda>f.
       if starts_with (coll @ ''.'') fld \<and> has_key f d
       then bindE (hash_key (doc_get d f)) (\<lambda>h.
              if has_key h vm then Inr (dset h (dget vm h {} - {key}) vm) else Inr vm)
       else Inr vm)"

fun orderable :: "pyval \<Rightarrow> bool" where
  \<comment> \<open>\<open>isinstance(v, (int, float, str))\<close>; a \<open>bool\<close> is an \<open>int\<close>\<close>
  "orderable (PBool b) = True"
| "orderable (PInt i) = True"
| "orderable (PFloat q) = True"
| "orderable (PStr s) = True"
| "orderable _ = False"

fun pair_lt :: "pyval \<times> string \<Rightarrow> pyval \<times> string \<Rightarrow> bool option" where
  "pair_lt (a, k) (b, l) = (if py_eq a b then Some (k < l) else py_lt a b)"

function insort_pos :: "(pyval \<times> string) list \<Rightarrow> pyval \<times> string \<Rightarrow> nat \<Rightarrow> nat \<Rightarrow> nat res" where
  "insort_pos a x lo hi =
     (if lo < hi then
        (case pair_lt x (a ! ((lo + hi) div 2)) of
           None \<Rightarrow> Inl TypeErr
         | Some b \<Rightarrow> if b then insort_pos a x lo ((lo + hi) div 2)
                     else insort_pos a x (Suc ((lo + hi) div 2)) hi)
      else Inr lo)"
  by pat_completeness auto
termination
  by (relation "measure (\<lambda>(a, x, lo, hi). hi - lo)") auto

declare insort_pos.simps [simp del]

definition insort_pair :: "pyval \<times> string \<Rightarrow> (pyval \<times> string) list \<Rightarrow> (pyval \<times> string) list res" where
  "insort_pair x a = bindE (insort_pos a x 0 (length a)) (\<lambda>i. Inr (take i a @ x # drop i a))"

definition ord_add :: "string \<Rightarrow> string \<Rightarrow> doc \<Rightarrow> string \<Rightarrow> (pyval \<times> string) list \<Rightarrow>
    (pyval \<times> string) list res" where
  "ord_add coll key d fld lst =
     bindE (after_dot fld) (\<lambda>f.
       if starts_with (coll @ ''.'') fld \<and> has_key f d \<and> orderable (doc_get d f)
       then insort_pair (doc_get d f, key) lst
       else Inr lst)"

fun remove_pair :: "pyval \<times> string \<Rightarrow> (pyval \<times> string) list \<Rightarrow> (pyval \<times> string) list" where
  \<comment> \<open>\<open>lst.remove(x)\<close>, with its \<open>ValueError\<close> ignored\<close>
  "remove_pair x [] = []"
| "remove_pair x (y # ys) =
     (if py_eq (fst y) (fst x) \<and> snd y = snd x then ys else y # remove_pair x ys)"

definition ord_remove :: "string \<Rightarrow> string \<Rightarrow> doc \<Rightarrow> string \<Rightarrow> (pyval \<times> string) list \<Rightarrow>
    (pyval \<times> string) list res" where
  "ord_remove coll key d fld lst =
     bindE (after_dot fld) (\<lambda>f.
       if starts_with (coll @ ''.'') fld \<and> has_key f d
       then Inr (remove_pair (doc_get d f, key) lst)
       else Inr lst)"

fun str_of :: "pyval \<Rightarrow> string option" where
  "str_of (PStr s) = Some s"
| "str_of _ = None"

definition inv_add :: "string \<Rightarrow> string \<Rightarrow> doc \<Rightarrow> string \<Rightarrow> invmap \<Rightarrow> invmap res" where
  "inv_add coll key d fld im =
     bindE (after_dot fld) (\<lambda>f.
       case str_of (doc_get d f) of
         Some s \<Rightarrow>
           if starts_with (coll @ ''.'') fld
           then Inr (fold (\<lambda>tok m. dset tok (insert key (dget m tok {})) m) (tokenize s) im)
           else Inr im
       | None \<Rightarrow> Inr im)"

definition inv_remove :: "string \<Rightarrow> string \<Rightarrow> doc \<Rightarrow> string \<Rightarrow> invmap \<Rightarrow> invmap res" where
  "inv_remove coll key d fld im =
     bindE (after_dot fld) (\<lambda>f.
       case str_of (doc_get d f) of
         Some s \<Rightarrow>
           if starts_with (coll @ ''.'') fld
           then Inr (fold (\<lambda>tok m. if has_key tok m then dset tok (dget m tok {} - {key}) m else m)
                       (tokenize s) im)
           else Inr im
       | None \<Rightarrow> Inr im)"

definition ix_add :: "string \<Rightarrow> string \<Rightarrow> doc \<Rightarrow> indexes \<Rightarrow> indexes act" where
  "ix_add coll key d ix =
     (case update_each (eq_add coll key d) (ix_eq ix) of (e1, q) \<Rightarrow>
        andthen (e1, ix\<lparr> ix_eq := q \<rparr>) (\<lambda>ix1.
          case update_each (ord_add coll key d) (ix_ordered ix1) of (e2, o') \<Rightarrow>
            andthen (e2, ix1\<lparr> ix_ordered := o' \<rparr>) (\<lambda>ix2.
              case update_each (inv_add coll key d) (ix_inv ix2) of (e3, v) \<Rightarrow>
                (e3, ix2\<lparr> ix_inv := v \<rparr>))))"

definition ix_remove :: "string \<Rightarrow> string \<Rightarrow> doc \<Rightarrow> indexes \<Rightarrow> indexes act" where
  "ix_remove coll key d ix =
     (case update_each (eq_remove coll key d) (ix_eq ix) of (e1, q) \<Rightarrow>
        andthen (e1, ix\<lparr> ix_eq := q \<rparr>) (\<lambda>ix1.
          case update_each (ord_remove coll key d) (ix_ordered ix1) of (e2, o') \<Rightarrow>
            andthen (e2, ix1\<lparr> ix_ordered := o' \<rparr>) (\<lambda>ix2.
              case update_each (inv_remove coll key d) (ix_inv ix2) of (e3, v) \<Rightarrow>
                (e3, ix2\<lparr> ix_inv := v \<rparr>))))"

section \<open>Lookups\<close>

definition eq_lookup :: "indexes \<Rightarrow> string \<Rightarrow> string \<Rightarrow> pyval \<Rightarrow> string set res" where
  "eq_lookup ix coll field v =
     bindE (hash_key v) (\<lambda>h. Inr (dget (dget (ix_eq ix) (ix_key coll field) []) h {}))"

definition search_lookup :: "indexes \<Rightarrow> string \<Rightarrow> string \<Rightarrow> string \<Rightarrow> string set" where
  "search_lookup ix coll field term =
     dget (dget (ix_inv ix) (ix_key coll field) []) term {}"

definition has_eq :: "indexes \<Rightarrow> string \<Rightarrow> string \<Rightarrow> bool" where
  "has_eq ix coll field \<longleftrightarrow> has_key (ix_key coll field) (ix_eq ix)"

definition search_fields :: "indexes \<Rightarrow> string \<Rightarrow> string list" where
  \<comment> \<open>\<open>k.split(".", 1)[1]\<close>; a key with the prefix has a dot\<close>
  "search_fields ix coll =
     map (\<lambda>k. tl (dropWhile (\<lambda>c. c \<noteq> CHR ''.'') k))
       (filter (starts_with (coll @ ''.'')) (map fst (ix_inv ix)))"

section \<open>Keys\<close>

text \<open>
  A collection name without \<open>.\<close> and \<open>:\<close> keeps the index names and the document keys
  of different collections apart.
\<close>

definition good_coll :: "string \<Rightarrow> bool" where
  "good_coll c \<longleftrightarrow> CHR ''.'' \<notin> set c \<and> CHR '':'' \<notin> set c"

definition doc_key :: "string \<Rightarrow> string \<Rightarrow> string" where
  \<comment> \<open>\<open>f"{coll}:{id}"\<close>\<close>
  "doc_key coll id' = coll @ '':'' @ id'"

lemma after_dot_ix_key: "good_coll c \<Longrightarrow> after_dot (ix_key c f) = Inr f"
  unfolding after_dot_def ix_key_def good_coll_def
  by (induction c) auto

lemma append_sep_inj:
  "x \<notin> set a \<Longrightarrow> x \<notin> set b \<Longrightarrow> a @ x # s = b @ x # t \<longleftrightarrow> a = b \<and> s = t"
proof (induction a arbitrary: b)
  case Nil
  then show ?case by (cases b) auto
next
  case (Cons y a)
  then show ?case by (cases b) auto
qed

lemma starts_with_ix_key:
  "good_coll c \<Longrightarrow> good_coll c' \<Longrightarrow> starts_with (c' @ ''.'') (ix_key c f) \<longleftrightarrow> c' = c"
  by (auto simp: starts_with_iff ix_key_def good_coll_def append_sep_inj)

lemma doc_key_inj: "good_coll c \<Longrightarrow> good_coll c' \<Longrightarrow> doc_key c i = doc_key c' j \<longleftrightarrow> c = c' \<and> i = j"
  by (simp add: doc_key_def good_coll_def append_sep_inj)

lemma doc_key_same [simp]: "doc_key c i = doc_key c j \<longleftrightarrow> i = j"
  by (simp add: doc_key_def)

lemma starts_with_doc_key:
  "good_coll c \<Longrightarrow> good_coll c' \<Longrightarrow> starts_with (c' @ '':'') (doc_key c i) \<longleftrightarrow> c' = c"
  by (auto simp: starts_with_iff doc_key_def good_coll_def append_sep_inj)

section \<open>Loops over entries\<close>

lemma update_each_ok:
  "update_each g d = (None, d') \<Longrightarrow> map_of d k = Some v \<Longrightarrow>
   \<exists>v'. g k v = Inr v' \<and> map_of d' k = Some v'"
proof (induction g d arbitrary: d' rule: update_each.induct)
  case (2 g k' v' r)
  from 2(2) obtain w r' where "g k' v' = Inr w" "update_each g r = (None, r')" "d' = (k', w) # r'"
    by (auto split: sum.splits prod.splits)
  with 2(1)[of w r'] 2(3) show ?case by (auto split: if_splits)
qed simp

lemma update_each_keys: "update_each g d = (e, d') \<Longrightarrow> map fst d' = map fst d"
  by (induction g d arbitrary: e d' rule: update_each.induct)
    (auto split: sum.splits prod.splits)

lemma update_each_back:
  assumes u: "update_each g d = (None, d')" and v': "map_of d' k = Some v'"
  shows "\<exists>v. map_of d k = Some v \<and> g k v = Inr v'"
proof -
  have "k \<in> fst ` set d'" using v' by (metis map_of_eq_None_iff option.distinct(1))
  then have "k \<in> set (map fst d)" using update_each_keys[OF u] by (metis set_map)
  then obtain v where "map_of d k = Some v"
    by (metis map_of_eq_None_iff not_Some_eq set_map)
  with update_each_ok[OF u this] v' show ?thesis by auto
qed

lemma ix_add_parts:
  assumes "ix_add c k d ix = (None, ix')"
  shows "update_each (eq_add c k d) (ix_eq ix) = (None, ix_eq ix')"
    "update_each (ord_add c k d) (ix_ordered ix) = (None, ix_ordered ix')"
    "update_each (inv_add c k d) (ix_inv ix) = (None, ix_inv ix')"
    "ix_config ix' = ix_config ix"
  using assms by (auto simp: ix_add_def andthen_eq_None split: prod.splits)

lemma ix_remove_parts:
  assumes "ix_remove c k d ix = (None, ix')"
  shows "update_each (eq_remove c k d) (ix_eq ix) = (None, ix_eq ix')"
    "update_each (ord_remove c k d) (ix_ordered ix) = (None, ix_ordered ix')"
    "update_each (inv_remove c k d) (ix_inv ix) = (None, ix_inv ix')"
    "ix_config ix' = ix_config ix"
  using assms by (auto simp: ix_remove_def andthen_eq_None split: prod.splits)

text \<open>The key sets of an index do not depend on how the call ends.\<close>

lemma ix_add_keys:
  assumes "ix_add c k d ix = (e, ix')"
  shows "map fst (ix_eq ix') = map fst (ix_eq ix)" "map fst (ix_inv ix') = map fst (ix_inv ix)"
    "ix_config ix' = ix_config ix"
  using assms update_each_keys
  by (auto simp: ix_add_def andthen_def split: prod.splits option.splits)

lemma ix_remove_keys:
  assumes "ix_remove c k d ix = (e, ix')"
  shows "map fst (ix_eq ix') = map fst (ix_eq ix)" "map fst (ix_inv ix') = map fst (ix_inv ix)"
    "ix_config ix' = ix_config ix"
  using assms update_each_keys
  by (auto simp: ix_remove_def andthen_def split: prod.splits option.splits)

section \<open>The equality index is exact\<close>

definition has_hash :: "doc \<Rightarrow> string \<Rightarrow> hkey \<Rightarrow> bool" where
  "has_hash d f h \<longleftrightarrow> (\<exists>v. map_of d f = Some v \<and> hash_key v = Inr h)"

text \<open>
  The documents an index covers are given as a view; while an index is being filled its view is
  part of the collection, so every index name has a view of its own.
\<close>

type_synonym view = "string \<Rightarrow> doc option"

definition keyable :: "doc \<Rightarrow> string \<Rightarrow> bool" where
  \<comment> \<open>the field is absent or its value can be a key of an index\<close>
  "keyable d f \<longleftrightarrow> (\<forall>v. map_of d f = Some v \<longrightarrow> (\<exists>h. hash_key v = Inr h))"

definition eq_exact :: "indexes \<Rightarrow> (string \<Rightarrow> view) \<Rightarrow> bool" where
  "eq_exact ix V \<longleftrightarrow>
     (\<forall>c f vm i h. good_coll c \<longrightarrow> map_of (ix_eq ix) (ix_key c f) = Some vm \<longrightarrow>
        (doc_key c i \<in> dget vm h {} \<longleftrightarrow>
         (\<exists>d. V (ix_key c f) (doc_key c i) = Some d \<and> has_hash d f h)) \<and>
        (\<forall>d. V (ix_key c f) (doc_key c i) = Some d \<longrightarrow> keyable d f))"

lemma doc_get_Some: "map_of d f = Some v \<Longrightarrow> doc_get d f = v"
  by (simp add: doc_get_def dget_def)

lemma has_key_Some: "has_key f d \<longleftrightarrow> (\<exists>v. map_of d f = Some v)"
  by (auto simp: has_key_def simp del: has_key_iff)

lemma eq_add_dget:
  assumes "good_coll c0" "good_coll c" "eq_add c key d (ix_key c0 f) vm = Inr vm'"
  shows "dget vm' h {} = (if c0 = c \<and> has_hash d f h then insert key (dget vm h {}) else dget vm h {})"
  using assms
  by (auto simp: eq_add_def after_dot_ix_key starts_with_ix_key bindE_eq_Inr has_hash_def has_key_Some
      doc_get_Some simp del: has_key_iff split: if_splits)

lemma eq_add_keyable:
  assumes "good_coll c" "eq_add c key d (ix_key c f) vm = Inr vm'"
  shows "keyable d f"
  using assms
  by (auto simp: eq_add_def after_dot_ix_key starts_with_ix_key bindE_eq_Inr keyable_def has_key_Some
      doc_get_Some simp del: has_key_iff split: if_splits)

lemma dget_not_key: "k \<notin> fst ` set d \<Longrightarrow> dget d k x = x"
  by (auto simp: dget_def split: option.splits dest: map_of_SomeD)
    (metis fst_conv imageI map_of_SomeD)

lemma eq_remove_dget:
  assumes "good_coll c0" "good_coll c" "eq_remove c key d (ix_key c0 f) vm = Inr vm'"
  shows "dget vm' h {} = dget vm h {} - (if c0 = c \<and> has_hash d f h then {key} else {})"
proof (cases "c0 = c \<and> (\<exists>v. map_of d f = Some v)")
  case True
  then obtain v where v: "map_of d f = Some v" by blast
  with True assms have "bindE (hash_key v) (\<lambda>h. if has_key h vm
      then Inr (dset h (dget vm h {} - {key}) vm) else Inr vm) = Inr vm'"
    by (simp add: eq_remove_def after_dot_ix_key starts_with_ix_key has_key_Some doc_get_Some
        del: has_key_iff)
  then obtain h0 where h0: "hash_key v = Inr h0"
    and vm': "vm' = (if has_key h0 vm then dset h0 (dget vm h0 {} - {key}) vm else vm)"
    by (auto simp: bindE_eq_Inr simp del: has_key_iff split: if_splits)
  have "has_hash d f h \<longleftrightarrow> h = h0" using v h0 by (auto simp: has_hash_def)
  with True show ?thesis by (auto simp: vm' dget_not_key)
next
  case False
  with assms show ?thesis
    by (auto simp: eq_remove_def after_dot_ix_key starts_with_ix_key has_key_Some has_hash_def
        simp del: has_key_iff)
qed

lemma eq_exact_add:
  assumes ex: "eq_exact ix V" and g: "good_coll c"
    and none: "\<And>fld. V fld (doc_key c i) \<in> {None, Some d}"
    and a: "ix_add c (doc_key c i) d ix = (None, ix')"
  shows "eq_exact ix' (\<lambda>fld. (V fld)(doc_key c i := Some d))"
  unfolding eq_exact_def
proof (intro allI impI)
  fix c0 f vm' j h
  assume g0: "good_coll c0" and m': "map_of (ix_eq ix') (ix_key c0 f) = Some vm'"
  obtain vm where vm: "map_of (ix_eq ix) (ix_key c0 f) = Some vm"
    and e: "eq_add c (doc_key c i) d (ix_key c0 f) vm = Inr vm'"
    using update_each_back[OF ix_add_parts(1)[OF a] m'] by blast
  have old: "doc_key c0 j \<in> dget vm h {} \<longleftrightarrow>
      (\<exists>d. V (ix_key c0 f) (doc_key c0 j) = Some d \<and> has_hash d f h)"
    and oldk: "\<forall>d. V (ix_key c0 f) (doc_key c0 j) = Some d \<longrightarrow> keyable d f"
    using ex g0 vm by (auto simp: eq_exact_def)
  have "keyable d f" if "c0 = c" using eq_add_keyable[of c] g e that by simp
  then show "(doc_key c0 j \<in> dget vm' h {} \<longleftrightarrow>
      (\<exists>x. ((V (ix_key c0 f))(doc_key c i := Some d)) (doc_key c0 j) = Some x \<and> has_hash x f h)) \<and>
      (\<forall>x. ((V (ix_key c0 f))(doc_key c i := Some d)) (doc_key c0 j) = Some x \<longrightarrow> keyable x f)"
    using old oldk none[of "ix_key c0 f"] by (auto simp: eq_add_dget[OF g0 g e] doc_key_inj[OF g0 g])
qed

lemma eq_exact_remove:
  assumes ex: "eq_exact ix V" and g: "good_coll c"
    and old: "\<And>fld. V fld (doc_key c i) = Some d"
    and a: "ix_remove c (doc_key c i) d ix = (None, ix')"
  shows "eq_exact ix' (\<lambda>fld. (V fld)(doc_key c i := None))"
  unfolding eq_exact_def
proof (intro allI impI)
  fix c0 f vm' j h
  assume g0: "good_coll c0" and m': "map_of (ix_eq ix') (ix_key c0 f) = Some vm'"
  obtain vm where vm: "map_of (ix_eq ix) (ix_key c0 f) = Some vm"
    and e: "eq_remove c (doc_key c i) d (ix_key c0 f) vm = Inr vm'"
    using update_each_back[OF ix_remove_parts(1)[OF a] m'] by blast
  have ih: "doc_key c0 j \<in> dget vm h {} \<longleftrightarrow>
      (\<exists>d. V (ix_key c0 f) (doc_key c0 j) = Some d \<and> has_hash d f h)"
    and ihk: "\<forall>d. V (ix_key c0 f) (doc_key c0 j) = Some d \<longrightarrow> keyable d f"
    using ex g0 vm by (auto simp: eq_exact_def)
  show "(doc_key c0 j \<in> dget vm' h {} \<longleftrightarrow>
      (\<exists>x. ((V (ix_key c0 f))(doc_key c i := None)) (doc_key c0 j) = Some x \<and> has_hash x f h)) \<and>
      (\<forall>x. ((V (ix_key c0 f))(doc_key c i := None)) (doc_key c0 j) = Some x \<longrightarrow> keyable x f)"
    using ih ihk old[of "ix_key c0 f"] by (auto simp: eq_remove_dget[OF g0 g e] doc_key_inj[OF g0 g])
qed

section \<open>The full-text index is exact\<close>

definition has_token :: "doc \<Rightarrow> string \<Rightarrow> string \<Rightarrow> bool" where
  "has_token d f tok \<longleftrightarrow> (\<exists>s. str_of (doc_get d f) = Some s \<and> tok \<in> set (tokenize s))"

definition inv_exact :: "indexes \<Rightarrow> (string \<Rightarrow> view) \<Rightarrow> bool" where
  "inv_exact ix V \<longleftrightarrow>
     (\<forall>c f im i tok. good_coll c \<longrightarrow> map_of (ix_inv ix) (ix_key c f) = Some im \<longrightarrow>
        (doc_key c i \<in> dget im tok {} \<longleftrightarrow>
         (\<exists>d. V (ix_key c f) (doc_key c i) = Some d \<and> has_token d f tok)))"

lemma dget_fold_add:
  "dget (fold (\<lambda>tok m. dset tok (insert key (dget m tok {})) m) ts im) t {} =
     (if t \<in> set ts then insert key (dget im t {}) else dget im t {})"
  by (induction ts arbitrary: im) auto

lemma dget_fold_remove:
  "dget (fold (\<lambda>tok m. if has_key tok m then dset tok (dget m tok {} - {key}) m else m) ts im) t {} =
     (if t \<in> set ts then dget im t {} - {key} else dget im t {})"
proof (induction ts arbitrary: im)
  case (Cons tok ts)
  show ?case
    unfolding fold_simps comp_apply
    by (subst Cons.IH) (auto simp: dget_not_key)
qed simp

lemma inv_add_dget:
  assumes "good_coll c0" "good_coll c" "inv_add c key d (ix_key c0 f) im = Inr im'"
  shows "dget im' t {} = (if c0 = c \<and> has_token d f t then insert key (dget im t {}) else dget im t {})"
  using assms
  by (auto simp: inv_add_def after_dot_ix_key starts_with_ix_key has_token_def dget_fold_add
      split: option.splits if_splits)

lemma inv_remove_dget:
  assumes "good_coll c0" "good_coll c" "inv_remove c key d (ix_key c0 f) im = Inr im'"
  shows "dget im' t {} = dget im t {} - (if c0 = c \<and> has_token d f t then {key} else {})"
  using assms
  by (auto simp: inv_remove_def after_dot_ix_key starts_with_ix_key has_token_def dget_fold_remove
      simp del: has_key_iff split: option.splits if_splits)

lemma inv_exact_add:
  assumes ex: "inv_exact ix V" and g: "good_coll c"
    and none: "\<And>fld. V fld (doc_key c i) \<in> {None, Some d}"
    and a: "ix_add c (doc_key c i) d ix = (None, ix')"
  shows "inv_exact ix' (\<lambda>fld. (V fld)(doc_key c i := Some d))"
  unfolding inv_exact_def
proof (intro allI impI)
  fix c0 f im' j t
  assume g0: "good_coll c0" and m': "map_of (ix_inv ix') (ix_key c0 f) = Some im'"
  obtain im where im: "map_of (ix_inv ix) (ix_key c0 f) = Some im"
    and e: "inv_add c (doc_key c i) d (ix_key c0 f) im = Inr im'"
    using update_each_back[OF ix_add_parts(3)[OF a] m'] by blast
  have old: "doc_key c0 j \<in> dget im t {} \<longleftrightarrow>
      (\<exists>d. V (ix_key c0 f) (doc_key c0 j) = Some d \<and> has_token d f t)"
    using ex g0 im by (auto simp: inv_exact_def)
  show "doc_key c0 j \<in> dget im' t {} \<longleftrightarrow>
      (\<exists>x. ((V (ix_key c0 f))(doc_key c i := Some d)) (doc_key c0 j) = Some x \<and> has_token x f t)"
    using old none[of "ix_key c0 f"] by (auto simp: inv_add_dget[OF g0 g e] doc_key_inj[OF g0 g])
qed

lemma inv_exact_remove:
  assumes ex: "inv_exact ix V" and g: "good_coll c"
    and old: "\<And>fld. V fld (doc_key c i) = Some d"
    and a: "ix_remove c (doc_key c i) d ix = (None, ix')"
  shows "inv_exact ix' (\<lambda>fld. (V fld)(doc_key c i := None))"
  unfolding inv_exact_def
proof (intro allI impI)
  fix c0 f im' j t
  assume g0: "good_coll c0" and m': "map_of (ix_inv ix') (ix_key c0 f) = Some im'"
  obtain im where im: "map_of (ix_inv ix) (ix_key c0 f) = Some im"
    and e: "inv_remove c (doc_key c i) d (ix_key c0 f) im = Inr im'"
    using update_each_back[OF ix_remove_parts(3)[OF a] m'] by blast
  have ih: "doc_key c0 j \<in> dget im t {} \<longleftrightarrow>
      (\<exists>d. V (ix_key c0 f) (doc_key c0 j) = Some d \<and> has_token d f t)"
    using ex g0 im by (auto simp: inv_exact_def)
  show "doc_key c0 j \<in> dget im' t {} \<longleftrightarrow>
      (\<exists>x. ((V (ix_key c0 f))(doc_key c i := None)) (doc_key c0 j) = Some x \<and> has_token x f t)"
    using ih old[of "ix_key c0 f"] by (auto simp: inv_remove_dget[OF g0 g e] doc_key_inj[OF g0 g])
qed

section \<open>An index holds keys of its own collection\<close>

definition ix_own :: "indexes \<Rightarrow> bool" where
  "ix_own ix \<longleftrightarrow>
     (\<forall>c f vm h k. good_coll c \<longrightarrow> map_of (ix_eq ix) (ix_key c f) = Some vm \<longrightarrow>
        k \<in> dget vm h {} \<longrightarrow> starts_with (c @ '':'') k) \<and>
     (\<forall>c f im t k. good_coll c \<longrightarrow> map_of (ix_inv ix) (ix_key c f) = Some im \<longrightarrow>
        k \<in> dget im t {} \<longrightarrow> starts_with (c @ '':'') k)"

lemma own_doc_key [simp]: "starts_with (c @ '':'') (doc_key c i)"
  by (simp add: doc_key_def starts_with_iff)

lemma starts_doc_key: "starts_with (c @ '':'') k \<longleftrightarrow> (\<exists>i. k = doc_key c i)"
  by (auto simp: starts_with_iff doc_key_def)

lemma ix_own_add:
  assumes own: "ix_own ix" and g: "good_coll c" and a: "ix_add c (doc_key c i) d ix = (None, ix')"
  shows "ix_own ix'"
  unfolding ix_own_def
proof (intro conjI allI impI)
  fix c0 f vm' h k
  assume g0: "good_coll c0" and m': "map_of (ix_eq ix') (ix_key c0 f) = Some vm'"
    and k: "k \<in> dget vm' h {}"
  obtain vm where vm: "map_of (ix_eq ix) (ix_key c0 f) = Some vm"
    and e: "eq_add c (doc_key c i) d (ix_key c0 f) vm = Inr vm'"
    using update_each_back[OF ix_add_parts(1)[OF a] m'] by blast
  show "starts_with (c0 @ '':'') k"
    using own g0 vm k by (auto simp: ix_own_def eq_add_dget[OF g0 g e] split: if_splits)
next
  fix c0 f im' t k
  assume g0: "good_coll c0" and m': "map_of (ix_inv ix') (ix_key c0 f) = Some im'"
    and k: "k \<in> dget im' t {}"
  obtain im where im: "map_of (ix_inv ix) (ix_key c0 f) = Some im"
    and e: "inv_add c (doc_key c i) d (ix_key c0 f) im = Inr im'"
    using update_each_back[OF ix_add_parts(3)[OF a] m'] by blast
  show "starts_with (c0 @ '':'') k"
    using own g0 im k by (auto simp: ix_own_def inv_add_dget[OF g0 g e] split: if_splits)
qed

lemma ix_own_remove:
  assumes own: "ix_own ix" and g: "good_coll c" and a: "ix_remove c (doc_key c i) d ix = (None, ix')"
  shows "ix_own ix'"
  unfolding ix_own_def
proof (intro conjI allI impI)
  fix c0 f vm' h k
  assume g0: "good_coll c0" and m': "map_of (ix_eq ix') (ix_key c0 f) = Some vm'"
    and k: "k \<in> dget vm' h {}"
  obtain vm where vm: "map_of (ix_eq ix) (ix_key c0 f) = Some vm"
    and e: "eq_remove c (doc_key c i) d (ix_key c0 f) vm = Inr vm'"
    using update_each_back[OF ix_remove_parts(1)[OF a] m'] by blast
  show "starts_with (c0 @ '':'') k"
    using own g0 vm k by (auto simp: ix_own_def eq_remove_dget[OF g0 g e])
next
  fix c0 f im' t k
  assume g0: "good_coll c0" and m': "map_of (ix_inv ix') (ix_key c0 f) = Some im'"
    and k: "k \<in> dget im' t {}"
  obtain im where im: "map_of (ix_inv ix) (ix_key c0 f) = Some im"
    and e: "inv_remove c (doc_key c i) d (ix_key c0 f) im = Inr im'"
    using update_each_back[OF ix_remove_parts(3)[OF a] m'] by blast
  show "starts_with (c0 @ '':'') k"
    using own g0 im k by (auto simp: ix_own_def inv_remove_dget[OF g0 g e])
qed

text \<open>What a lookup returns.\<close>

lemma eq_index_keys:
  assumes "eq_exact ix V" "ix_own ix" "good_coll c" "map_of (ix_eq ix) (ix_key c f) = Some vm"
  shows "dget vm h {} =
    {k. starts_with (c @ '':'') k \<and> (\<exists>d. V (ix_key c f) k = Some d \<and> has_hash d f h)}"
  using assms unfolding eq_exact_def ix_own_def starts_doc_key by blast

lemma eq_index_keyable:
  assumes "eq_exact ix V" "good_coll c" "map_of (ix_eq ix) (ix_key c f) = Some vm"
    "starts_with (c @ '':'') k" "V (ix_key c f) k = Some d"
  shows "keyable d f"
  using assms unfolding eq_exact_def starts_doc_key by blast

lemma inv_index_keys:
  assumes "inv_exact ix V" "ix_own ix" "good_coll c" "map_of (ix_inv ix) (ix_key c f) = Some im"
  shows "dget im t {} =
    {k. starts_with (c @ '':'') k \<and> (\<exists>d. V (ix_key c f) k = Some d \<and> has_token d f t)}"
  using assms unfolding inv_exact_def ix_own_def starts_doc_key by blast

section \<open>Index sets are finite\<close>

definition sets_finite :: "('k, 'a set) dict \<Rightarrow> bool" where
  "sets_finite m \<longleftrightarrow> (\<forall>e\<in>set m. finite (snd e))"

definition ix_finite :: "indexes \<Rightarrow> bool" where
  "ix_finite ix \<longleftrightarrow> (\<forall>e\<in>set (ix_eq ix). sets_finite (snd e)) \<and> (\<forall>e\<in>set (ix_inv ix). sets_finite (snd e))"

lemma sets_finite_dget: "sets_finite m \<Longrightarrow> finite (dget m k {})"
  by (auto simp: sets_finite_def dget_def split: option.splits dest!: map_of_SomeD)

lemma sets_finite_dset: "sets_finite m \<Longrightarrow> finite S \<Longrightarrow> sets_finite (dset k S m)"
  by (induction m) (auto simp: sets_finite_def)

lemma sets_finite_dget_dget:
  "(\<forall>e\<in>set d. sets_finite (snd e)) \<Longrightarrow> finite (dget (dget d k []) h {})"
  by (cases "map_of d k")
    (auto simp: dget_def[of d] intro!: sets_finite_dget dest!: map_of_SomeD)

lemma update_each_all:
  assumes "update_each g d = (e, d')" "\<forall>x\<in>set d. P (snd x)"
    and "\<And>k v v'. P v \<Longrightarrow> g k v = Inr v' \<Longrightarrow> P v'"
  shows "\<forall>x\<in>set d'. P (snd x)"
  using assms
  by (induction g d arbitrary: e d' rule: update_each.induct)
    (fastforce split: sum.splits prod.splits)+

lemma sets_finite_folds:
  "sets_finite m \<Longrightarrow> sets_finite (fold (\<lambda>tok m. dset tok (insert key (dget m tok {})) m) ts m)"
  "sets_finite m \<Longrightarrow> sets_finite
     (fold (\<lambda>tok m. if has_key tok m then dset tok (dget m tok {} - {key}) m else m) ts m)"
  by (induction ts arbitrary: m)
    (simp_all add: sets_finite_dset sets_finite_dget del: has_key_iff)

lemma entry_finite:
  "sets_finite vm \<Longrightarrow> eq_add c key d fld vm = Inr vm' \<Longrightarrow> sets_finite vm'"
  "sets_finite vm \<Longrightarrow> eq_remove c key d fld vm = Inr vm' \<Longrightarrow> sets_finite vm'"
  "sets_finite im \<Longrightarrow> inv_add c key d fld im = Inr im' \<Longrightarrow> sets_finite im'"
  "sets_finite im \<Longrightarrow> inv_remove c key d fld im = Inr im' \<Longrightarrow> sets_finite im'"
  by (auto simp: eq_add_def eq_remove_def inv_add_def inv_remove_def bindE_eq_Inr sets_finite_dset
      sets_finite_dget sets_finite_folds simp del: has_key_iff split: if_splits option.splits)

lemma ix_finite_add:
  assumes "ix_finite ix" "ix_add c key d ix = (e, ix')"
  shows "ix_finite ix'"
  using assms entry_finite(1,3)
  by (auto simp: ix_finite_def ix_add_def andthen_def split: prod.splits option.splits
      dest!: update_each_all[where P = sets_finite])

lemma ix_finite_remove:
  assumes "ix_finite ix" "ix_remove c key d ix = (e, ix')"
  shows "ix_finite ix'"
  using assms entry_finite(2,4)
  by (auto simp: ix_finite_def ix_remove_def andthen_def split: prod.splits option.splits
      dest!: update_each_all[where P = sets_finite])

end
