(* ===== verification/Materialize.thy ===== *)
theory Materialize
  imports OpLog Store Relations Indexes
begin

text \<open>
  \<open>apply_op\<close> of \<open>nedb.engine\<close>: the deterministic fold of one logged operation into the
  materialized state (store, relations, indexes, causal reverse index).
\<close>

section \<open>State and operations\<close>

record mat =
  m_store :: "doc mvcc"
  m_rels :: rels
  m_ix :: indexes
  m_causes :: "(int, int list) dict"

definition mat_init :: mat where
  "mat_init = \<lparr> m_store = mv_init, m_rels = rels_init, m_ix = ix_init, m_causes = [] \<rparr>"

definition str_field :: "doc \<Rightarrow> string \<Rightarrow> string res" where
  \<comment> \<open>\<open>p[k]\<close> for a field that holds a string\<close>
  "str_field p k = bindE (need p k) as_str"

definition on_ix :: "(indexes \<Rightarrow> indexes act) \<Rightarrow> mat \<Rightarrow> mat act" where
  "on_ix f m = (case f (m_ix m) of (e, ix) \<Rightarrow> (e, m\<lparr> m_ix := ix \<rparr>))"

definition drop_old :: "string \<Rightarrow> string \<Rightarrow> mat \<Rightarrow> mat act" where
  \<comment> \<open>\<open>old = store.get(key)\<close>; \<open>if old is not None: indexes.remove(coll, key, old)\<close>\<close>
  "drop_old coll key m =
     (case mv_get (m_store m) key None of
        Inl e \<Rightarrow> (Some e, m)
      | Inr None \<Rightarrow> (None, m)
      | Inr (Some old) \<Rightarrow> on_ix (ix_remove coll key old) m)"

definition put_args :: "doc \<Rightarrow> (string \<times> string \<times> doc) res" where
  "put_args p =
     bindE (str_field p ''key'') (\<lambda>key. bindE (str_field p ''coll'') (\<lambda>coll.
     bindE (bindE (need p ''doc'') as_dict) (\<lambda>d. Inr (key, coll, d))))"

definition delete_args :: "doc \<Rightarrow> (string \<times> string) res" where
  "delete_args p =
     bindE (str_field p ''key'') (\<lambda>key. bindE (str_field p ''coll'') (\<lambda>coll. Inr (key, coll)))"

definition link_args :: "doc \<Rightarrow> (string \<times> string \<times> string) res" where
  "link_args p =
     bindE (str_field p ''frm'') (\<lambda>f. bindE (str_field p ''rel'') (\<lambda>r.
     bindE (str_field p ''to'') (\<lambda>t. Inr (f, r, t))))"

definition stamp :: "int \<Rightarrow> doc \<Rightarrow> doc" where
  \<comment> \<open>\<open>doc["_seq"] = op.seq\<close>\<close>
  "stamp q d = dset ''_seq'' (PInt q) d"

definition apply_effect :: "oprec \<Rightarrow> mat \<Rightarrow> mat act" where
  "apply_effect r m =
     (let p = o_payload r in
      if o_op r = ''put'' then
        (case put_args p of
           Inl e \<Rightarrow> (Some e, m)
         | Inr (key, coll, d) \<Rightarrow>
             andthen (drop_old coll key m) (\<lambda>m.
               on_ix (ix_add coll key (stamp (o_seq r) d))
                 (m\<lparr> m_store := mv_put key (stamp (o_seq r) d) (o_seq r) (m_store m) \<rparr>)))
      else if o_op r = ''delete'' then
        (case delete_args p of
           Inl e \<Rightarrow> (Some e, m)
         | Inr (key, coll) \<Rightarrow>
             andthen (drop_old coll key m) (\<lambda>m.
               (None, m\<lparr> m_store := mv_delete key (o_seq r) (m_store m) \<rparr>)))
      else if o_op r = ''link'' then
        (case link_args p of
           Inl e \<Rightarrow> (Some e, m)
         | Inr (f, l, t) \<Rightarrow> (None, m\<lparr> m_rels := rel_link f l t (o_seq r) (m_rels m) \<rparr>))
      else if o_op r = ''unlink'' then
        (case link_args p of
           Inl e \<Rightarrow> (Some e, m)
         | Inr (f, l, t) \<Rightarrow> (None, m\<lparr> m_rels := rel_unlink f l t (o_seq r) (m_rels m) \<rparr>))
      else (None, m))"

definition causes_of :: "oprec \<Rightarrow> int list" where
  "causes_of r = (case p_caused (o_prov r) of None \<Rightarrow> [] | Some cs \<Rightarrow> cs)"

definition note_causes :: "oprec \<Rightarrow> (int, int list) dict \<Rightarrow> (int, int list) dict" where
  "note_causes r cm = fold (\<lambda>c. dappend c (o_seq r)) (causes_of r) cm"

text \<open>\<open>causes\<close> says whether a \<open>cause_map\<close> is passed.\<close>

definition apply_op :: "bool \<Rightarrow> oprec \<Rightarrow> mat \<Rightarrow> mat act" where
  "apply_op causes r m =
     andthen (apply_effect r m) (\<lambda>m.
       (None, if causes then m\<lparr> m_causes := note_causes r (m_causes m) \<rparr> else m))"

text \<open>The loop \<open>for op in ops: apply_op(...)\<close>.\<close>

fun fold_ops :: "bool \<Rightarrow> oprec list \<Rightarrow> mat \<Rightarrow> mat act" where
  "fold_ops causes [] m = (None, m)"
| "fold_ops causes (r # rs) m = andthen (apply_op causes r m) (fold_ops causes rs)"

section \<open>What an operation writes\<close>

definition store_event :: "oprec \<Rightarrow> doc wr option" where
  "store_event r =
     (if o_op r = ''put'' then
        (case put_args (o_payload r) of
           Inl _ \<Rightarrow> None | Inr (key, coll, d) \<Rightarrow> Some (WPut key (stamp (o_seq r) d) (o_seq r)))
      else if o_op r = ''delete'' then
        (case delete_args (o_payload r) of Inl _ \<Rightarrow> None | Inr (key, coll) \<Rightarrow> Some (WDel key (o_seq r)))
      else None)"

definition rel_event_of :: "oprec \<Rightarrow> rel_event option" where
  "rel_event_of r =
     (if o_op r = ''link'' then
        (case link_args (o_payload r) of Inl _ \<Rightarrow> None | Inr (f, l, t) \<Rightarrow> Some (ELink f l t (o_seq r)))
      else if o_op r = ''unlink'' then
        (case link_args (o_payload r) of Inl _ \<Rightarrow> None | Inr (f, l, t) \<Rightarrow> Some (EUnlink f l t (o_seq r)))
      else None)"

definition writes :: "oprec list \<Rightarrow> doc wr list" where
  "writes rs = List.map_filter store_event rs"

definition rel_events :: "oprec list \<Rightarrow> rel_event list" where
  "rel_events rs = List.map_filter rel_event_of rs"

lemma on_ix_frame:
  "on_ix f m = (e, m') \<Longrightarrow> m_store m' = m_store m \<and> m_rels m' = m_rels m \<and> m_causes m' = m_causes m"
  by (auto simp: on_ix_def split: prod.splits)

lemma drop_old_frame:
  "drop_old c k m = (e, m') \<Longrightarrow> m_store m' = m_store m \<and> m_rels m' = m_rels m \<and> m_causes m' = m_causes m"
  by (auto simp: drop_old_def dest: on_ix_frame split: sum.splits option.splits)

lemma apply_effect_writes:
  assumes "apply_effect r m = (None, m')"
  shows "m_store m' = (case store_event r of None \<Rightarrow> m_store m | Some w \<Rightarrow> mv_write w (m_store m)) \<and>
    m_rels m' = (case rel_event_of r of None \<Rightarrow> m_rels m | Some e \<Rightarrow> rel_apply e (m_rels m)) \<and>
    m_causes m' = m_causes m"
  using assms
  by (auto simp: apply_effect_def andthen_eq_None store_event_def rel_event_of_def Let_def
      dest!: on_ix_frame drop_old_frame split: if_splits sum.splits prod.splits)

lemma apply_op_writes:
  assumes "apply_op c r m = (None, m')"
  shows "m_store m' = (case store_event r of None \<Rightarrow> m_store m | Some w \<Rightarrow> mv_write w (m_store m))"
    "m_rels m' = (case rel_event_of r of None \<Rightarrow> m_rels m | Some e \<Rightarrow> rel_apply e (m_rels m))"
    "m_causes m' = (if c then note_causes r (m_causes m) else m_causes m)"
proof -
  from assms obtain m1 where e: "apply_effect r m = (None, m1)"
    and m': "m' = (if c then m1\<lparr> m_causes := note_causes r (m_causes m1) \<rparr> else m1)"
    by (auto simp: apply_op_def andthen_eq_None)
  from apply_effect_writes[OF e] m'
  show "m_store m' = (case store_event r of None \<Rightarrow> m_store m | Some w \<Rightarrow> mv_write w (m_store m))"
    "m_rels m' = (case rel_event_of r of None \<Rightarrow> m_rels m | Some e \<Rightarrow> rel_apply e (m_rels m))"
    "m_causes m' = (if c then note_causes r (m_causes m) else m_causes m)" by auto
qed

lemma fold_ops_append: "fold_ops c (xs @ ys) m = andthen (fold_ops c xs m) (fold_ops c ys)"
proof (induction xs arbitrary: m)
  case (Cons x xs)
  then show ?case
    by (cases "apply_op c x m"; cases "fst (apply_op c x m)") auto
qed simp

lemma fold_ops_writes:
  assumes "fold_ops c rs m = (None, m')"
  shows "m_store m' = fold mv_write (writes rs) (m_store m)"
    "m_rels m' = fold rel_apply (rel_events rs) (m_rels m)"
    "m_causes m' = (if c then fold note_causes rs (m_causes m) else m_causes m)"
  using assms
proof (induction rs arbitrary: m)
  case (Cons r rs)
  {
    case 1
    then obtain m1 where "apply_op c r m = (None, m1)" "fold_ops c rs m1 = (None, m')"
      by (auto simp: andthen_eq_None)
    then show ?case
      using Cons.IH(1)[of m1] apply_op_writes(1)
      by (auto simp: writes_def map_filter_simps split: option.splits)
  next
    case 2
    then obtain m1 where "apply_op c r m = (None, m1)" "fold_ops c rs m1 = (None, m')"
      by (auto simp: andthen_eq_None)
    then show ?case
      using Cons.IH(2)[of m1] apply_op_writes(2)
      by (auto simp: rel_events_def map_filter_simps split: option.splits)
  next
    case 3
    then obtain m1 where "apply_op c r m = (None, m1)" "fold_ops c rs m1 = (None, m')"
      by (auto simp: andthen_eq_None)
    then show ?case
      using Cons.IH(3)[of m1] apply_op_writes(3) by auto
  }
qed (simp_all add: writes_def rel_events_def map_filter_simps)

text \<open>The store and the relations do not depend on the index configuration.\<close>

lemma fold_ops_same_data:
  assumes "fold_ops c rs m = (None, m')" "fold_ops c' rs n = (None, n')"
    and "m_store m = m_store n" "m_rels m = m_rels n"
  shows "m_store m' = m_store n'" "m_rels m' = m_rels n'"
  using fold_ops_writes[OF assms(1)] fold_ops_writes[OF assms(2)] assms(3,4) by simp_all

section \<open>Reads as of a sequence number\<close>

lemma write_seq_event: "store_event r = Some w \<Longrightarrow> write_seq w = o_seq r"
  by (auto simp: store_event_def split: if_splits sum.splits)

lemma rel_seq_event: "rel_event_of r = Some e \<Longrightarrow> rel_seq e = o_seq r"
  by (auto simp: rel_event_of_def split: if_splits sum.splits)

lemma set_writes: "w \<in> set (writes rs) \<Longrightarrow> \<exists>r\<in>set rs. store_event r = Some w"
  by (auto simp: writes_def map_filter_def)

lemma set_rel_events: "e \<in> set (rel_events rs) \<Longrightarrow> \<exists>r\<in>set rs. rel_event_of r = Some e"
  by (auto simp: rel_events_def map_filter_def)

lemma sorted_map_filter:
  "sorted (map o_seq rs) \<Longrightarrow> (\<And>r w. f r = Some w \<Longrightarrow> g w = o_seq r) \<Longrightarrow>
   sorted (map g (List.map_filter f rs))"
proof (induction rs)
  case (Cons r rs)
  have "\<forall>w\<in>set (List.map_filter f rs). \<exists>x\<in>set rs. f x = Some w" by (auto simp: map_filter_def)
  with Cons show ?case by (auto simp: map_filter_simps split: option.split)
qed (simp add: map_filter_simps)

lemma filter_map_filter:
  "(\<And>r w. f r = Some w \<Longrightarrow> g w = o_seq r) \<Longrightarrow>
   filter (\<lambda>w. g w \<le> n) (List.map_filter f rs) = List.map_filter f (filter (\<lambda>r. o_seq r \<le> n) rs)"
  by (induction rs) (auto simp: map_filter_simps split: option.split)

text \<open>
  Reading the state of a log at \<open>n\<close> is reading, at HEAD, the state of the log cut at \<open>n\<close>.
\<close>

lemma store_as_of:
  assumes "fold_ops c rs mat_init = (None, m)"
    and "fold_ops c' (filter (\<lambda>r. o_seq r \<le> n) rs) mat_init = (None, m')"
    and "sorted (map o_seq rs)" "\<forall>r\<in>set rs. 0 \<le> o_seq r" "0 \<le> n"
  shows "mv_get (m_store m) k (Some n) = mv_get (m_store m') k None"
proof -
  have w: "sorted (map write_seq (writes rs))"
    unfolding writes_def by (rule sorted_map_filter[OF assms(3) write_seq_event])
  have p: "\<forall>w\<in>set (writes rs). 0 \<le> write_seq w"
    using assms(4) set_writes write_seq_event by metis
  have f: "filter (\<lambda>w. write_seq w \<le> n) (writes rs) = writes (filter (\<lambda>r. o_seq r \<le> n) rs)"
    unfolding writes_def by (rule filter_map_filter[OF write_seq_event])
  have "mv_read_at (fold mv_write (writes rs) mv_init) k n =
      mv_read_head (fold mv_write (filter (\<lambda>w. write_seq w \<le> n) (writes rs)) mv_init) k"
    by (rule mv.read_at_cut[where m = 0]) (use w p assms(5) in simp_all)
  then show ?thesis
    using fold_ops_writes(1)[OF assms(1)] fold_ops_writes(1)[OF assms(2)]
    by (simp add: f mv_read_at_def mv_read_head_def mat_init_def)
qed

lemma rels_as_of:
  assumes "fold_ops c rs mat_init = (None, m)"
    and "fold_ops c' (filter (\<lambda>r. o_seq r \<le> n) rs) mat_init = (None, m')"
    and "sorted (map o_seq rs)" "\<forall>r\<in>set rs. 0 \<le> o_seq r" "0 \<le> n"
  shows "rel_read (m_rels m) q (Some n) = rel_read (m_rels m') q None"
proof -
  have w: "sorted (map rel_seq (rel_events rs))"
    unfolding rel_events_def by (rule sorted_map_filter[OF assms(3) rel_seq_event])
  have p: "\<forall>e\<in>set (rel_events rs). 0 \<le> rel_seq e"
    using assms(4) set_rel_events rel_seq_event by metis
  have f: "filter (\<lambda>e. rel_seq e \<le> n) (rel_events rs) = rel_events (filter (\<lambda>r. o_seq r \<le> n) rs)"
    unfolding rel_events_def by (rule filter_map_filter[OF rel_seq_event])
  have "rel_read_at (fold rel_apply (rel_events rs) rels_init) q n =
      rel_read_head (fold rel_apply (filter (\<lambda>e. rel_seq e \<le> n) (rel_events rs)) rels_init) q"
    by (rule rt.read_at_cut[where m = 0]) (use w p assms(5) in simp_all)
  then show ?thesis
    using fold_ops_writes(2)[OF assms(1)] fold_ops_writes(2)[OF assms(2)]
    by (simp add: f rel_read_at_def rel_read_head_def mat_init_def)
qed

section \<open>Invariant\<close>

definition head_view :: "mat \<Rightarrow> view" where
  "head_view m k = visible (history (m_store m) k)"

text \<open>
  \<open>mat_ok q m\<close>: no version is later than \<open>q\<close>, the store and the relations are well formed,
  and the indexes hold exactly the documents visible at HEAD.
\<close>

definition mat_ok :: "int \<Rightarrow> mat \<Rightarrow> bool" where
  "mat_ok q m \<longleftrightarrow>
     mv_wf (m_store m) \<and> mv_upto (m_store m) q \<and> rel_wf (m_rels m) \<and>
     eq_exact (m_ix m) (\<lambda>_. head_view m) \<and> inv_exact (m_ix m) (\<lambda>_. head_view m) \<and>
     ix_own (m_ix m) \<and> ix_finite (m_ix m)"

definition good_op :: "oprec \<Rightarrow> bool" where
  "good_op r \<longleftrightarrow>
     (o_op r = ''put'' \<longrightarrow>
        (\<exists>c i d. put_args (o_payload r) = Inr (doc_key c i, c, d) \<and> good_coll c)) \<and>
     (o_op r = ''delete'' \<longrightarrow>
        (\<exists>c i. delete_args (o_payload r) = Inr (doc_key c i, c) \<and> good_coll c)) \<and>
     (o_op r = ''link'' \<or> o_op r = ''unlink'' \<longrightarrow> (\<exists>a. link_args (o_payload r) = Inr a))"

lemma mat_ok_mono: "mat_ok p m \<Longrightarrow> p \<le> q \<Longrightarrow> mat_ok q m"
  using mv_upto_mono by (auto simp: mat_ok_def)

lemma ix_init_ok [simp]: "eq_exact ix_init V" "inv_exact ix_init V" "ix_own ix_init" "ix_finite ix_init"
  by (simp_all add: eq_exact_def inv_exact_def ix_own_def ix_finite_def ix_init_def)

lemma mat_ok_init: "mat_ok q mat_init"
  by (simp add: mat_ok_def mat_init_def)

lemma drop_old_ok:
  assumes ok: "mat_ok q m" and g: "good_coll c" and d: "drop_old c (doc_key c i) m = (None, m')"
  shows "m_store m' = m_store m" "m_rels m' = m_rels m"
    "eq_exact (m_ix m') (\<lambda>_. (head_view m)(doc_key c i := None))"
    "inv_exact (m_ix m') (\<lambda>_. (head_view m)(doc_key c i := None))" "ix_own (m_ix m')"
    "ix_finite (m_ix m')"
proof -
  show "m_store m' = m_store m" "m_rels m' = m_rels m" using drop_old_frame[OF d] by simp_all
  note ok' = ok[unfolded mat_ok_def]
  have "eq_exact (m_ix m') (\<lambda>_. (head_view m)(doc_key c i := None)) \<and>
      inv_exact (m_ix m') (\<lambda>_. (head_view m)(doc_key c i := None)) \<and> ix_own (m_ix m') \<and>
      ix_finite (m_ix m')"
  proof (cases "head_view m (doc_key c i)")
    case None
    with d have "m' = m" by (simp add: drop_old_def head_view_def)
    moreover have "(head_view m)(doc_key c i := None) = head_view m" using None by auto
    ultimately show ?thesis using ok' by simp
  next
    case (Some old)
    with d have r: "ix_remove c (doc_key c i) old (m_ix m) = (None, m_ix m')"
      by (auto simp: drop_old_def head_view_def on_ix_def split: prod.splits)
    show ?thesis
      using eq_exact_remove[OF _ g _ r, of "\<lambda>_. head_view m"]
        inv_exact_remove[OF _ g _ r, of "\<lambda>_. head_view m"] ix_own_remove[OF _ g r]
        ix_finite_remove[OF _ r] ok' Some by auto
  qed
  then show "eq_exact (m_ix m') (\<lambda>_. (head_view m)(doc_key c i := None))"
    "inv_exact (m_ix m') (\<lambda>_. (head_view m)(doc_key c i := None))" "ix_own (m_ix m')"
    "ix_finite (m_ix m')" by simp_all
qed

lemma head_view_put: "m_store m' = mv_put k d q (m_store m) \<Longrightarrow> head_view m' = (head_view m)(k := Some d)"
  by (auto simp: head_view_def)

lemma head_view_delete: "m_store m' = mv_delete k q (m_store m) \<Longrightarrow> head_view m' = (head_view m)(k := None)"
  by (auto simp: head_view_def)

lemma apply_put_ok:
  assumes ok: "mat_ok p m" and g: "good_coll c" and q: "p \<le> q"
    and a: "andthen (drop_old c (doc_key c i) m) (\<lambda>m. on_ix (ix_add c (doc_key c i) d)
      (m\<lparr> m_store := mv_put (doc_key c i) d q (m_store m) \<rparr>)) = (None, m')"
  shows "mat_ok q m'"
proof -
  obtain m1 where m1: "drop_old c (doc_key c i) m = (None, m1)"
    and m2: "on_ix (ix_add c (doc_key c i) d)
      (m1\<lparr> m_store := mv_put (doc_key c i) d q (m_store m1) \<rparr>) = (None, m')"
    using a by (auto simp: andthen_eq_None)
  note i1 = drop_old_ok[OF ok g m1]
  have st: "m_store m' = mv_put (doc_key c i) d q (m_store m)" and rl: "m_rels m' = m_rels m"
    using on_ix_frame[OF m2] i1(1,2) by simp_all
  have ad: "ix_add c (doc_key c i) d (m_ix m1) = (None, m_ix m')"
    using m2 by (auto simp: on_ix_def split: prod.splits)
  have v: "head_view m' = (head_view m)(doc_key c i := None, doc_key c i := Some d)"
    using head_view_put[OF st] by simp
  note ok' = ok[unfolded mat_ok_def]
  have "mv_wf (m_store m')" "mv_upto (m_store m') q"
    using ok' q unfolding st by (auto intro: mv_upto_put)
  moreover have "eq_exact (m_ix m') (\<lambda>_. head_view m')" "inv_exact (m_ix m') (\<lambda>_. head_view m')"
    unfolding v using eq_exact_add[OF i1(3) g _ ad] inv_exact_add[OF i1(4) g _ ad] by simp_all
  ultimately show ?thesis
    using ok' rl ix_own_add[OF i1(5) g ad] ix_finite_add[OF i1(6) ad] by (simp add: mat_ok_def)
qed

lemma apply_delete_ok:
  assumes ok: "mat_ok p m" and g: "good_coll c" and q: "p \<le> q"
    and a: "andthen (drop_old c (doc_key c i) m) (\<lambda>m.
      (None, m\<lparr> m_store := mv_delete (doc_key c i) q (m_store m) \<rparr>)) = (None, m')"
  shows "mat_ok q m'"
proof -
  obtain m1 where m1: "drop_old c (doc_key c i) m = (None, m1)"
    and m': "m' = m1\<lparr> m_store := mv_delete (doc_key c i) q (m_store m1) \<rparr>"
    using a by (auto simp: andthen_eq_None)
  note i1 = drop_old_ok[OF ok g m1]
  have st: "m_store m' = mv_delete (doc_key c i) q (m_store m)" using i1(1) m' by simp
  note ok' = ok[unfolded mat_ok_def]
  have "mv_wf (m_store m')" "mv_upto (m_store m') q"
    using ok' q unfolding st by (auto intro: mv_upto_delete)
  moreover have "m_ix m' = m_ix m1" "m_rels m' = m_rels m" using m' i1(2) by simp_all
  ultimately show ?thesis
    using ok' i1 head_view_delete[OF st] by (simp add: mat_ok_def)
qed

lemma mat_ok_store_only:
  assumes "mat_ok p m" "m_store m' = m_store m" "m_ix m' = m_ix m" "rel_wf (m_rels m')"
  shows "mat_ok p m'"
proof -
  have "head_view m' = head_view m" using assms(2) by (auto simp: head_view_def)
  with assms show ?thesis by (simp add: mat_ok_def)
qed

lemma apply_op_ok:
  assumes ok: "mat_ok p m" and g: "good_op r" and q: "p \<le> o_seq r"
    and a: "apply_op c r m = (None, m')"
  shows "mat_ok (o_seq r) m'"
proof -
  from a obtain m1 where e: "apply_effect r m = (None, m1)"
    and m': "m' = (if c then m1\<lparr> m_causes := note_causes r (m_causes m1) \<rparr> else m1)"
    by (auto simp: apply_op_def andthen_eq_None)
  have up: "mat_ok (o_seq r) m" by (rule mat_ok_mono[OF ok q])
  have rw: "rel_wf (m_rels m)" using ok by (simp add: mat_ok_def)
  have "mat_ok (o_seq r) m1"
  proof (cases "o_op r = ''put'' \<or> o_op r = ''delete''")
    case True
    then show ?thesis
    proof
      assume o: "o_op r = ''put''"
      with g obtain cl i d where p: "put_args (o_payload r) = Inr (doc_key cl i, cl, d)" "good_coll cl"
        by (auto simp: good_op_def)
      show ?thesis by (rule apply_put_ok[OF ok p(2) q]) (use e o p in \<open>simp add: apply_effect_def\<close>)
    next
      assume o: "o_op r = ''delete''"
      with g obtain cl i where p: "delete_args (o_payload r) = Inr (doc_key cl i, cl)" "good_coll cl"
        by (auto simp: good_op_def)
      show ?thesis by (rule apply_delete_ok[OF ok p(2) q]) (use e o p in \<open>simp add: apply_effect_def\<close>)
    qed
  next
    case False
    then have f: "m_store m1 = m_store m \<and> m_ix m1 = m_ix m \<and> rel_wf (m_rels m1)"
      using e rw rel_wf_link rel_wf_unlink
      by (auto simp: apply_effect_def Let_def split: if_splits sum.splits)
    then show ?thesis by (intro mat_ok_store_only[OF up]) simp_all
  qed
  then show ?thesis
    by (rule mat_ok_store_only) (use m' \<open>mat_ok (o_seq r) m1\<close> in \<open>auto simp: mat_ok_def\<close>)
qed

lemma fold_ops_ok:
  assumes "mat_ok p m" "\<forall>r\<in>set rs. good_op r" "sorted (map o_seq rs)" "\<forall>r\<in>set rs. p \<le> o_seq r"
    "\<forall>r\<in>set rs. o_seq r \<le> n" "p \<le> n" "fold_ops c rs m = (None, m')"
  shows "mat_ok n m'"
  using assms
proof (induction rs arbitrary: p m)
  case Nil
  then show ?case by (auto intro: mat_ok_mono)
next
  case (Cons r rs)
  from Cons.prems obtain m1 where a: "apply_op c r m = (None, m1)" and f: "fold_ops c rs m1 = (None, m')"
    by (auto simp: andthen_eq_None)
  have "mat_ok (o_seq r) m1" by (rule apply_op_ok[OF Cons.prems(1) _ _ a]) (use Cons.prems in auto)
  then show ?case by (rule Cons.IH) (use Cons.prems f in auto)
qed

section \<open>Without indexes the fold cannot fail\<close>

lemma no_index [simp]: "ix_add c k d ix_init = (None, ix_init)" "ix_remove c k d ix_init = (None, ix_init)"
  by (simp_all add: ix_add_def ix_remove_def ix_init_def)

lemma drop_old_no_index: "m_ix m = ix_init \<Longrightarrow> drop_old c k m = (None, m)"
  by (simp add: drop_old_def on_ix_def split: option.split)

lemma apply_op_total:
  assumes "good_op r" "m_ix m = ix_init"
  shows "\<exists>m'. apply_op c r m = (None, m') \<and> m_ix m' = ix_init"
  using assms
  by (auto simp: apply_op_def apply_effect_def good_op_def drop_old_no_index on_ix_def Let_def)

lemma fold_ops_total:
  "\<forall>r\<in>set rs. good_op r \<Longrightarrow> m_ix m = ix_init \<Longrightarrow> \<exists>m'. fold_ops c rs m = (None, m') \<and> m_ix m' = ix_init"
proof (induction rs arbitrary: m)
  case (Cons r rs)
  from apply_op_total[of r m c] Cons.prems obtain m1 where "apply_op c r m = (None, m1)" "m_ix m1 = ix_init"
    by auto
  with Cons show ?case by simp
qed simp

end
