(* ===== verification/Merkle.thy ===== *)
theory Merkle
  imports Hex
begin

text \<open>
  \<open>nedb.merkle\<close>: the Merkle tree over the chunk hashes of a file version, its inclusion
  proofs and their verification.
\<close>

section \<open>The tree\<close>

text \<open>One level: pairs are hashed, an odd last node with itself.\<close>

fun next_level :: "ext \<Rightarrow> string list \<Rightarrow> string list" where
  "next_level X [] = []"
| "next_level X [a] = [x_blake X (a @ a)]"
| "next_level X (a # b # level) = x_blake X (a @ b) # next_level X level"

lemma length_next_level [simp]: "length (next_level X level) = (length level + 1) div 2"
  by (induction X level rule: next_level.induct) auto

lemma next_level_eq_Nil [simp]: "next_level X level = [] \<longleftrightarrow> level = []"
  by (cases "(X, level)" rule: next_level.cases) auto

function root_loop :: "ext \<Rightarrow> string list \<Rightarrow> string" where
  "root_loop X level = (if 1 < length level then root_loop X (next_level X level) else level ! 0)"
  by pat_completeness auto
termination
  by (relation "measure (\<lambda>(X, level). length level)") auto

declare root_loop.simps [simp del]

definition merkle_root :: "ext \<Rightarrow> string list \<Rightarrow> string res" where
  "merkle_root X leaves =
     (if leaves = [] then Inr (replicate 64 (CHR ''0''))
      else bindE (mapE fromhex leaves) (\<lambda>level. Inr (hexlify (root_loop X level))))"

text \<open>The sibling of node \<open>idx\<close> of a level and the side it stands on.\<close>

definition sibling :: "string list \<Rightarrow> int \<Rightarrow> (string \<times> string) res" where
  "sibling level idx =
     (if idx mod 2 = 0 then
        bindE (if idx + 1 < int (length level) then py_index level (idx + 1)
               else py_index level idx) (\<lambda>sib. Inr (hexlify sib, ''R''))
      else bindE (py_index level (idx - 1)) (\<lambda>sib. Inr (hexlify sib, ''L'')))"

function proof_loop :: "ext \<Rightarrow> string list \<Rightarrow> int \<Rightarrow> (string \<times> string) list res" where
  "proof_loop X level idx =
     (if 1 < length level then
        bindE (sibling level idx) (\<lambda>p.
        bindE (proof_loop X (next_level X level) (idx div 2)) (\<lambda>ps. Inr (p # ps)))
      else Inr [])"
  by pat_completeness auto
termination
  by (relation "measure (\<lambda>(X, level, idx). length level)") auto

declare proof_loop.simps [simp del]

definition merkle_proof :: "ext \<Rightarrow> string list \<Rightarrow> int \<Rightarrow> (string \<times> string) list res" where
  "merkle_proof X leaves idx = bindE (mapE fromhex leaves) (\<lambda>level. proof_loop X level idx)"

fun climb :: "ext \<Rightarrow> string \<Rightarrow> (string \<times> string) list \<Rightarrow> string res" where
  "climb X h [] = Inr h"
| "climb X h ((sib_hex, side) # path) =
     bindE (fromhex sib_hex) (\<lambda>sib.
       climb X (if side = ''R'' then x_blake X (h @ sib) else x_blake X (sib @ h)) path)"

definition merkle_verify :: "ext \<Rightarrow> string \<Rightarrow> (string \<times> string) list \<Rightarrow> string \<Rightarrow> bool res" where
  "merkle_verify X leaf path rt =
     bindE (fromhex leaf) (\<lambda>h. bindE (climb X h path) (\<lambda>h'. Inr (hexlify h' = rt)))"

section \<open>Completeness\<close>

lemma nth_next_level:
  "i < length level \<Longrightarrow> next_level X level ! (i div 2) =
     (if even i then x_blake X (level ! i @ (if i + 1 < length level then level ! (i + 1) else level ! i))
      else x_blake X (level ! (i - 1) @ level ! i))"
proof (induction X level arbitrary: i rule: next_level.induct)
  case (3 X a b level)
  show ?case
  proof (cases "i < 2")
    case True
    then have "i = 0 \<or> i = 1" by auto
    then show ?thesis by auto
  next
    case False
    then obtain j where j: "i = Suc (Suc j)" by (metis Suc_1 add_2_eq_Suc le_Suc_ex not_less)
    with 3 have "next_level X level ! (j div 2) =
       (if even j then x_blake X (level ! j @ (if j + 1 < length level then level ! (j + 1) else level ! j))
        else x_blake X (level ! (j - 1) @ level ! j))" by simp
    with j show ?thesis by (auto elim: oddE)
  qed
qed auto

lemma sibling_step:
  assumes i: "i < length level" and n: "1 < length level"
  obtains s d where "sibling level (int i) = Inr (hexlify s, d)"
    "(if d = ''R'' then x_blake X (level ! i @ s) else x_blake X (s @ level ! i)) =
     next_level X level ! (i div 2)"
proof (cases "even i")
  case True
  show ?thesis
  proof (cases "i + 1 < length level")
    case l: True
    have "py_index level (int i + 1) = Inr (level ! (i + 1))"
      using py_index_nat[OF l] by (simp add: add.commute)
    with True l i that[of "level ! (i + 1)" "''R''"] show ?thesis
      by (simp add: sibling_def nth_next_level even_of_nat_iff flip: even_iff_mod_2_eq_zero)
  next
    case l: False
    with True i that[of "level ! i" "''R''"] show ?thesis
      by (simp add: sibling_def nth_next_level flip: even_iff_mod_2_eq_zero)
  qed
next
  case False
  then obtain j where j: "i = Suc j" by (cases i) auto
  with i have "py_index level (int i - 1) = Inr (level ! j)" by simp
  with False i j that[of "level ! j" "''L''"] show ?thesis
    by (simp add: sibling_def nth_next_level flip: even_iff_mod_2_eq_zero)
qed

lemma proof_loop_climb:
  "i < length level \<Longrightarrow>
   \<exists>path. proof_loop X level (int i) = Inr path \<and> climb X (level ! i) path = Inr (root_loop X level)"
proof (induction X level arbitrary: i rule: root_loop.induct)
  case (1 X level)
  show ?case
  proof (cases "1 < length level")
    case False
    with 1 have "i = 0" by auto
    with False show ?thesis by (simp add: proof_loop.simps root_loop.simps)
  next
    case True
    obtain s d where s: "sibling level (int i) = Inr (hexlify s, d)"
      "(if d = ''R'' then x_blake X (level ! i @ s) else x_blake X (s @ level ! i)) =
       next_level X level ! (i div 2)"
      by (rule sibling_step[OF "1.prems" True])
    have "i div 2 < length (next_level X level)" using "1.prems" by simp
    from "1.IH"[OF True this] obtain path where
      "proof_loop X (next_level X level) (int i div 2) = Inr path"
      "climb X (next_level X level ! (i div 2)) path = Inr (root_loop X (next_level X level))"
      by (auto simp: zdiv_int)
    with True s show ?thesis
      by (simp add: proof_loop.simps[of X level] root_loop.simps[of X level])
  qed
qed

lemma proof_verifies:
  assumes l: "mapE fromhex leaves = Inr level" and i: "i < length leaves"
  shows "\<exists>path rt. merkle_proof X leaves (int i) = Inr path \<and> merkle_root X leaves = Inr rt \<and>
    merkle_verify X (leaves ! i) path rt = Inr True"
proof -
  have len: "length level = length leaves" and nth: "fromhex (leaves ! i) = Inr (level ! i)"
    using l i by (auto simp: mapE_eq_Inr_nth)
  from proof_loop_climb[of i level X] i len obtain path where
    "proof_loop X level (int i) = Inr path" "climb X (level ! i) path = Inr (root_loop X level)"
    by auto
  with l nth i show ?thesis
    by (auto simp: merkle_proof_def merkle_root_def merkle_verify_def)
qed

text \<open>The proof has one step per level: it is logarithmic in the number of leaves.\<close>

lemma proof_loop_length:
  "proof_loop X level idx = Inr path \<Longrightarrow> level \<noteq> [] \<Longrightarrow>
   length level \<le> 2 ^ length path \<and> 2 ^ length path < 2 * length level"
proof (induction X level idx arbitrary: path rule: proof_loop.induct)
  case (1 X level idx)
  show ?case
  proof (cases "1 < length level")
    case False
    with "1.prems" show ?thesis by (cases level) (auto simp: proof_loop.simps)
  next
    case True
    with "1.prems" obtain p ps where ps: "sibling level idx = Inr p"
      "proof_loop X (next_level X level) (idx div 2) = Inr ps" "path = p # ps"
      by (subst (asm) proof_loop.simps) (auto simp: bindE_eq_Inr)
    have "next_level X level \<noteq> []" using True by auto
    from "1.IH"[OF True ps(2) this] have b: "(length level + 1) div 2 \<le> 2 ^ length ps"
      "2 ^ length ps < 2 * ((length level + 1) div 2)" by simp_all
    have "2 ^ length ps \<noteq> length level" if "odd (length level)"
      using that True by (cases "length ps") (auto dest: arg_cong[of _ _ even])
    with b have "2 ^ length ps < length level" by (cases "even (length level)") auto
    with b ps(3) show ?thesis by auto
  qed
qed

section \<open>Binding\<close>

lemma collisionI: "x_blake X (a @ b) = x_blake X (c @ d) \<Longrightarrow> length a = length c \<Longrightarrow>
  collision X \<or> a = c \<and> b = d"
  by (metis append_eq_append_conv collision_def)

lemma next_level_inj:
  "length xs = length ys \<Longrightarrow> (\<forall>x\<in>set xs. length x = 32) \<Longrightarrow> (\<forall>y\<in>set ys. length y = 32) \<Longrightarrow>
   next_level X xs = next_level X ys \<Longrightarrow> collision X \<or> xs = ys"
proof (induction X xs arbitrary: ys rule: next_level.induct)
  case (2 X a)
  then obtain b where "ys = [b]" by (cases ys) auto
  with 2 show ?case using collisionI[of X a a b b] by auto
next
  case (3 X a b xs)
  then obtain c d zs where ys: "ys = c # d # zs" by (cases ys; cases "tl ys") auto
  with 3 have "collision X \<or> xs = zs" by auto
  moreover have "collision X \<or> a = c \<and> b = d" using 3 ys by (intro collisionI) auto
  ultimately show ?case using ys by auto
qed simp

lemma next_level_32: "digest_ok X \<Longrightarrow> \<forall>x\<in>set (next_level X xs). length x = 32"
  by (induction X xs rule: next_level.induct) (auto simp: digest_ok_def)

lemma root_loop_inj:
  "digest_ok X \<Longrightarrow> length xs = length ys \<Longrightarrow> xs \<noteq> [] \<Longrightarrow>
   (\<forall>x\<in>set xs. length x = 32) \<Longrightarrow> (\<forall>y\<in>set ys. length y = 32) \<Longrightarrow>
   root_loop X xs = root_loop X ys \<Longrightarrow> collision X \<or> xs = ys"
proof (induction X xs arbitrary: ys rule: root_loop.induct)
  case (1 X xs)
  show ?case
  proof (cases "1 < length xs")
    case False
    with "1.prems"(2,3) obtain x y where "xs = [x]" "ys = [y]"
      by (cases xs; cases ys) auto
    with "1.prems" show ?thesis by (simp add: root_loop.simps)
  next
    case True
    then have r: "root_loop X (next_level X xs) = root_loop X (next_level X ys)"
      using "1.prems"(2,6) by (simp add: root_loop.simps[of X xs] root_loop.simps[of X ys])
    have "next_level X xs \<noteq> []" using True by auto
    with "1.IH"[OF True, of "next_level X ys"] r "1.prems" next_level_32
    have "collision X \<or> next_level X xs = next_level X ys" by simp
    with next_level_inj "1.prems" show ?thesis by blast
  qed
qed

text \<open>Two accepted proofs of one shape for one root have the same leaf and the same siblings.\<close>

definition sibling_ok :: "string \<times> string \<Rightarrow> bool" where
  "sibling_ok p \<longleftrightarrow> (\<exists>b. fromhex (fst p) = Inr b \<and> length b = 32)"

lemma climb_binding:
  "digest_ok X \<Longrightarrow> map snd p = map snd q \<Longrightarrow> climb X h p = Inr r \<Longrightarrow> climb X g q = Inr r \<Longrightarrow>
   length h = 32 \<Longrightarrow> length g = 32 \<Longrightarrow> list_all sibling_ok p \<Longrightarrow> list_all sibling_ok q \<Longrightarrow>
   collision X \<or> h = g"
proof (induction p arbitrary: h g q)
  case (Cons sd p)
  obtain s d where sd: "sd = (s, d)" by (cases sd)
  from Cons.prems sd obtain t q' where q: "q = (t, d) # q'" by (cases q) auto
  from Cons.prems sd q obtain a b where ab: "fromhex s = Inr a" "fromhex t = Inr b"
    "length a = 32" "length b = 32" by (auto simp: sibling_ok_def)
  let ?f = "\<lambda>h s. if d = ''R'' then x_blake X (h @ s) else x_blake X (s @ h)"
  from Cons.prems sd q ab have "climb X (?f h a) p = Inr r" "climb X (?f g b) q' = Inr r"
    "length (?f h a) = 32" "length (?f g b) = 32" "map snd p = map snd q'"
    "list_all sibling_ok p" "list_all sibling_ok q'"
    by (auto simp: digest_ok_def)
  with Cons.IH[OF Cons.prems(1)] have "collision X \<or> ?f h a = ?f g b" by blast
  with Cons.prems(5,6) ab show ?case
    using collisionI[of X h a g b] collisionI[of X a h b g] by (auto split: if_splits)
qed simp

text \<open>
  A level of odd length and the same level with its last node repeated have the same parent, so
  lists of different lengths can share a root.
\<close>

lemma next_level_dup:
  "odd (length xs) \<Longrightarrow> next_level X (xs @ [last xs]) = next_level X xs"
  by (induction X xs rule: next_level.induct) auto

lemma root_loop_dup:
  assumes "odd (length xs)" "1 < length xs"
  shows "root_loop X (xs @ [last xs]) = root_loop X xs"
proof -
  have "root_loop X (xs @ [last xs]) = root_loop X (next_level X (xs @ [last xs]))"
    using assms by (cases "xs = []"; subst root_loop.simps) simp_all
  also have "\<dots> = root_loop X (next_level X xs)"
    by (subst next_level_dup[OF assms(1)]) (rule refl)
  also have "\<dots> = root_loop X xs"
    using assms by (subst (2) root_loop.simps) simp
  finally show ?thesis .
qed

end
