(* ===== verification/Cascade.thy ===== *)
theory Cascade
  imports Merkle
begin

unbundle bit_operations_syntax

text \<open>
  \<open>nedb.cascade\<close>: content-defined chunking with the 64-bit Gear hash, and the
  content-addressed, deduplicating store of versioned files in two temperature tiers.
\<close>

section \<open>Chunking\<close>

definition CHUNK_MASK :: "64 word" where "CHUNK_MASK = push_bit 13 1 - 1"
definition CHUNK_MIN :: nat where "CHUNK_MIN = 2 * 1024"
definition CHUNK_MAX :: nat where "CHUNK_MAX = 64 * 1024"

text \<open>The inner loop from position \<open>pos\<close> of the chunk that starts at \<open>i\<close>.\<close>

function cut_loop :: "ext \<Rightarrow> string \<Rightarrow> nat \<Rightarrow> nat \<Rightarrow> 64 word \<Rightarrow> nat \<Rightarrow> nat" where
  "cut_loop X data i limit h pos =
     (if pos < limit then
        (let h' = push_bit 1 h + x_gear X (of_char (data ! pos)); pos' = pos + 1 in
         if CHUNK_MIN \<le> pos' - i \<and> h' AND CHUNK_MASK = 0 then pos'
         else cut_loop X data i limit h' pos')
      else limit)"
  by pat_completeness auto
termination
  by (relation "measure (\<lambda>(X, data, i, limit, h, pos). limit - pos)") auto

declare cut_loop.simps [simp del]

lemma cut_loop_le:
  "pos \<le> limit \<Longrightarrow> pos \<le> cut_loop X data i limit h pos \<and> cut_loop X data i limit h pos \<le> limit"
proof (induction X data i limit h pos rule: cut_loop.induct)
  case (1 X data i limit h pos)
  show ?case
  proof (cases "pos < limit")
    case True
    with "1.IH"[OF True refl refl] show ?thesis
      by (auto simp: cut_loop.simps[of X data i limit h pos] Let_def)
  qed (use "1.prems" in \<open>simp add: cut_loop.simps\<close>)
qed

lemma cut_loop_bounds:
  assumes "pos < limit"
  shows "pos < cut_loop X data i limit h pos \<and> cut_loop X data i limit h pos \<le> limit"
  using assms cut_loop_le[of "Suc pos" limit X data i]
  by (auto simp: cut_loop.simps[of X data i limit h pos] Let_def Suc_le_eq)

function chunk_loop :: "ext \<Rightarrow> string \<Rightarrow> nat \<Rightarrow> string list" where
  "chunk_loop X data i =
     (if i < length data then
        (let limit = min (i + CHUNK_MAX) (length data);
             cut = cut_loop X data i limit 0 i
         in take (cut - i) (drop i data) # chunk_loop X data cut)
      else [])"
  by pat_completeness auto
termination
proof (relation "measure (\<lambda>(X, data, i). length data - i)")
  fix X :: ext and data :: string and i limit cut
  assume i: "i < length data" and l: "limit = min (i + CHUNK_MAX) (length data)"
    and c: "cut = cut_loop X data i limit 0 i"
  have "i < limit" using i l by (simp add: CHUNK_MAX_def)
  with cut_loop_bounds[OF this, of X data i 0] i l c
  show "((X, data, cut), X, data, i) \<in> measure (\<lambda>(X, data, i). length data - i)" by auto
qed simp

declare chunk_loop.simps [simp del]

definition chunk :: "ext \<Rightarrow> string \<Rightarrow> string list" where
  "chunk X data = chunk_loop X data 0"

lemma chunk_Nil [simp]: "chunk X [] = []"
  by (simp add: chunk_def chunk_loop.simps)

lemma chunk_loop_step:
  assumes "i < length data"
  obtains cut where "chunk_loop X data i = take (cut - i) (drop i data) # chunk_loop X data cut"
    "i < cut" "cut \<le> length data" "cut \<le> i + CHUNK_MAX"
    "cut = cut_loop X data i (min (i + CHUNK_MAX) (length data)) 0 i"
proof -
  let ?l = "min (i + CHUNK_MAX) (length data)"
  have "i < ?l" using assms by (simp add: CHUNK_MAX_def)
  from cut_loop_bounds[OF this, of X data i 0] that[of "cut_loop X data i ?l 0 i"] assms
  show ?thesis by (auto simp: chunk_loop.simps[of X data i] Let_def)
qed

lemma concat_chunk_loop: "concat (chunk_loop X data i) = drop i data"
proof (induction X data i rule: chunk_loop.induct)
  case (1 X data i)
  show ?case
  proof (cases "i < length data")
    case True
    from chunk_loop_step[OF True, of X] obtain cut where
      c: "chunk_loop X data i = take (cut - i) (drop i data) # chunk_loop X data cut" "i < cut"
      "cut = cut_loop X data i (min (i + CHUNK_MAX) (length data)) 0 i" by metis
    then have "concat (chunk_loop X data cut) = drop cut data" using "1"[OF True refl] by simp
    with c(1,2) show ?thesis
      using append_take_drop_id[of "cut - i" "drop i data"] by simp
  qed (simp add: chunk_loop.simps)
qed

text \<open>The size bounds: the early exit respects the minimum, only the last chunk may be shorter.\<close>

lemma cut_loop_min:
  "i \<le> pos \<Longrightarrow> pos \<le> limit \<Longrightarrow> cut_loop X data i limit h pos = limit \<or> i + CHUNK_MIN \<le> cut_loop X data i limit h pos"
proof (induction X data i limit h pos rule: cut_loop.induct)
  case (1 X data i limit h pos)
  then show ?case
    unfolding cut_loop.simps[of X data i limit h pos] Let_def by (cases "pos < limit") auto
qed

lemma chunk_loop_sizes:
  "chunk_loop X data i = xs @ c # ys \<Longrightarrow>
   0 < length c \<and> length c \<le> CHUNK_MAX \<and> (ys \<noteq> [] \<longrightarrow> CHUNK_MIN \<le> length c)"
proof (induction X data i arbitrary: xs rule: chunk_loop.induct)
  case (1 X data i)
  have i: "i < length data" using "1.prems" by (auto simp: chunk_loop.simps[of X data i] split: if_splits)
  let ?l = "min (i + CHUNK_MAX) (length data)"
  from chunk_loop_step[OF i, of X] obtain cut where
    c: "chunk_loop X data i = take (cut - i) (drop i data) # chunk_loop X data cut" "i < cut"
    "cut \<le> length data" "cut \<le> i + CHUNK_MAX" "cut = cut_loop X data i ?l 0 i" by metis
  show ?case
  proof (cases xs)
    case Nil
    with "1.prems" c have ys: "c = take (cut - i) (drop i data)" "ys = chunk_loop X data cut" by simp_all
    have "cut = ?l \<or> i + CHUNK_MIN \<le> cut"
      using cut_loop_min[of i i ?l X data 0] i c(5) by simp
    moreover have "ys \<noteq> [] \<Longrightarrow> cut < length data"
      using ys(2) by (auto simp: chunk_loop.simps[of X data cut] split: if_splits)
    ultimately show ?thesis using c ys by (auto simp: min_def CHUNK_MIN_def CHUNK_MAX_def split: if_splits)
  next
    case (Cons x xs')
    with "1.prems" c have "chunk_loop X data cut = xs' @ c # ys" by simp
    with "1.IH"[OF i refl] c(5) show ?thesis by simp
  qed
qed

text \<open>
  The chunks from a boundary on depend on the bytes from there on only, so two files that agree
  after a boundary of each share all later chunks.
\<close>

lemma cut_loop_shift:
  "cut_loop X (a @ b) (length a + i) (length a + limit) h (length a + pos) =
   length a + cut_loop X b i limit h pos"
proof (induction X b i limit h pos rule: cut_loop.induct)
  case (1 X b i limit h pos)
  then show ?case
    by (simp add: cut_loop.simps[of X b i limit h pos]
        cut_loop.simps[of X "a @ b" "length a + i" "length a + limit" h "length a + pos"] Let_def)
qed

lemma chunk_loop_shift: "chunk_loop X (a @ b) (length a + i) = chunk_loop X b i"
proof (induction X b i rule: chunk_loop.induct)
  case (1 X b i)
  let ?l = "min (i + CHUNK_MAX) (length b)"
  have l: "min (length a + i + CHUNK_MAX) (length a + length b) = length a + ?l" by auto
  show ?case
  proof (cases "i < length b")
    case True
    note IH = "1"[OF True refl refl]
    have c: "cut_loop X (a @ b) (length a + i) (length a + ?l) 0 (length a + i) =
        length a + cut_loop X b i ?l 0 i" by (rule cut_loop_shift)
    show ?thesis
      using True IH
      by (simp add: chunk_loop.simps[of X "a @ b" "length a + i"] chunk_loop.simps[of X b i] Let_def l c)
  qed (simp add: chunk_loop.simps)
qed

lemma chunk_loop_suffix:
  "chunk_loop X data i = xs @ ys \<Longrightarrow> chunk X (concat ys) = ys"
proof (induction X data i arbitrary: xs rule: chunk_loop.induct)
  case (1 X data i)
  show ?case
  proof (cases xs)
    case Nil
    then have "ys = chunk_loop X data i" using "1.prems" by simp
    moreover from this have "concat ys = drop i data" by (simp add: concat_chunk_loop)
    moreover have "chunk_loop X (drop i data) 0 = chunk_loop X data i"
    proof (cases "i \<le> length data")
      case True
      then have "length (take i data) = i" by simp
      with chunk_loop_shift[of X "take i data" "drop i data" 0] show ?thesis by simp
    qed (simp add: chunk_loop.simps)
    ultimately show ?thesis by (simp add: chunk_def)
  next
    case (Cons x xs')
    then have i: "i < length data"
      using "1.prems" by (auto simp: chunk_loop.simps[of X data i] split: if_splits)
    from chunk_loop_step[OF i, of X] obtain cut where
      c: "chunk_loop X data i = take (cut - i) (drop i data) # chunk_loop X data cut"
      "cut = cut_loop X data i (min (i + CHUNK_MAX) (length data)) 0 i" by metis
    with Cons "1.prems" have "chunk_loop X data cut = xs' @ ys" by simp
    with "1.IH"[OF i refl] c(2) show ?thesis by simp
  qed
qed

lemma concat_chunk: "concat (chunk X data) = data"
  by (simp add: chunk_def concat_chunk_loop)

lemma chunk_resync:
  "chunk X d = xs @ ys \<Longrightarrow> chunk X d' = xs' @ ys' \<Longrightarrow> concat ys = concat ys' \<Longrightarrow> ys = ys'"
  using chunk_loop_suffix unfolding chunk_def by metis

section \<open>The blob store\<close>

record filerec =
  f_versions :: "string list list"
  f_roots :: "string list"

record blobs =
  b_tier :: string
  b_chunks :: "(string, string) dict"
  b_files :: "(string, filerec) dict"
  b_logical :: nat
  b_dedup :: nat

definition blob_init :: "string \<Rightarrow> blobs" where
  "blob_init tier =
     \<lparr> b_tier = tier, b_chunks = [], b_files = [], b_logical = 0, b_dedup = 0 \<rparr>"

definition compress :: "ext \<Rightarrow> string \<Rightarrow> string \<Rightarrow> string" where
  "compress X tier b = (if tier = ''cold'' then x_lzma X b else x_zlib X b)"

definition decompress :: "ext \<Rightarrow> string \<Rightarrow> string \<Rightarrow> string" where
  "decompress X tier b = (if tier = ''cold'' then x_unlzma X b else x_unzlib X b)"

definition store_chunk :: "ext \<Rightarrow> string \<Rightarrow> blobs \<Rightarrow> blobs" where
  "store_chunk X c b =
     (let hh = blake X c in
      if has_key hh (b_chunks b) then b\<lparr> b_dedup := b_dedup b + 1 \<rparr>
      else b\<lparr> b_chunks := dset hh (compress X (b_tier b) c) (b_chunks b) \<rparr>)"

definition put_file :: "ext \<Rightarrow> string \<Rightarrow> string \<Rightarrow> blobs \<Rightarrow> (nat \<times> blobs) res" where
  "put_file X name data b =
     (let cs = chunk X data;
          recipe = map (blake X) cs;
          b1 = fold (store_chunk X) cs b;
          b2 = b1\<lparr> b_logical := b_logical b1 + length data \<rparr>;
          f = dget (b_files b2) name \<lparr> f_versions = [], f_roots = [] \<rparr>
      in bindE (merkle_root X recipe) (\<lambda>rt.
           (let f' = \<lparr> f_versions = f_versions f @ [recipe], f_roots = f_roots f @ [rt] \<rparr>
            in Inr (length (f_versions f') - 1, b2\<lparr> b_files := dset name f' (b_files b2) \<rparr>))))"

definition read_recipe :: "ext \<Rightarrow> blobs \<Rightarrow> string list \<Rightarrow> string res" where
  "read_recipe X b recipe =
     bindE (mapE (\<lambda>hh. case map_of (b_chunks b) hh of
                        None \<Rightarrow> Inl KeyError
                      | Some z \<Rightarrow> Inr (decompress X (b_tier b) z)) recipe)
       (\<lambda>parts. Inr (concat parts))"

definition get_file :: "ext \<Rightarrow> blobs \<Rightarrow> string \<Rightarrow> int \<Rightarrow> string res" where
  "get_file X b name version =
     (case map_of (b_files b) name of
        None \<Rightarrow> Inl KeyError
      | Some f \<Rightarrow> bindE (py_index (f_versions f) version) (read_recipe X b))"

definition file_root :: "blobs \<Rightarrow> string \<Rightarrow> int \<Rightarrow> string res" where
  "file_root b name version =
     (case map_of (b_files b) name of
        None \<Rightarrow> Inl KeyError
      | Some f \<Rightarrow> py_index (f_roots f) version)"

definition stored_bytes :: "blobs \<Rightarrow> nat" where
  "stored_bytes b = sum_list (map (\<lambda>(k, v). length v) (b_chunks b))"

text \<open>The compression ratio is a float division rounded to two decimals.\<close>

definition blob_stats :: "blobs \<Rightarrow> doc" where
  "blob_stats b =
     (let stored = stored_bytes b in
      [(''tier'', PStr (b_tier b)), (''unique_chunks'', PInt (int (length (b_chunks b)))),
       (''dedup_hits'', PInt (int (b_dedup b))), (''logical_bytes'', PInt (int (b_logical b))),
       (''stored_bytes'', PInt (int stored)),
       (''ratio'', if stored \<noteq> 0
          then PFloat (fl (of_int (round_half_even (fl (of_nat (b_logical b) / of_nat stored) * 100)) / 100))
          else PFloat 0)])"

section \<open>Invariant\<close>

definition blobs_ok :: "ext \<Rightarrow> blobs \<Rightarrow> bool" where
  "blobs_ok X b \<longleftrightarrow>
     distinct (map fst (b_chunks b)) \<and>
     (\<forall>k z. map_of (b_chunks b) k = Some z \<longrightarrow> (\<exists>c. k = blake X c \<and> z = compress X (b_tier b) c)) \<and>
     (\<forall>n f. map_of (b_files b) n = Some f \<longrightarrow>
        mapE (merkle_root X) (f_versions f) = Inr (f_roots f) \<and>
        (\<forall>r\<in>set (f_versions f). \<forall>h\<in>set r. map_of (b_chunks b) h \<noteq> None))"

lemma blobs_ok_init [simp]: "blobs_ok X (blob_init tier)"
  by (simp add: blobs_ok_def blob_init_def)

lemma blobs_okD:
  assumes "blobs_ok X b"
  shows "distinct (map fst (b_chunks b))"
    "map_of (b_chunks b) k = Some z \<Longrightarrow> \<exists>c. k = blake X c \<and> z = compress X (b_tier b) c"
    "map_of (b_files b) n = Some f \<Longrightarrow> mapE (merkle_root X) (f_versions f) = Inr (f_roots f)"
    "map_of (b_files b) n = Some f \<Longrightarrow> r \<in> set (f_versions f) \<Longrightarrow> h \<in> set r \<Longrightarrow>
       map_of (b_chunks b) h \<noteq> None"
  using assms unfolding blobs_ok_def by blast+

lemma store_chunk_frame [simp]:
  "b_tier (store_chunk X c b) = b_tier b" "b_files (store_chunk X c b) = b_files b"
  "b_logical (store_chunk X c b) = b_logical b"
  by (simp_all add: store_chunk_def Let_def)

lemma store_chunks_frame [simp]:
  "b_tier (fold (store_chunk X) cs b) = b_tier b" "b_files (fold (store_chunk X) cs b) = b_files b"
  "b_logical (fold (store_chunk X) cs b) = b_logical b"
  by (induction cs arbitrary: b) simp_all

lemma store_chunk_lookup:
  "map_of (b_chunks (store_chunk X c b)) =
     (if map_of (b_chunks b) (blake X c) = None
      then (map_of (b_chunks b))(blake X c \<mapsto> compress X (b_tier b) c) else map_of (b_chunks b))"
  by (auto simp: store_chunk_def Let_def map_of_eq_None_iff)

lemma store_chunk_ok: "blobs_ok X b \<Longrightarrow> blobs_ok X (store_chunk X c b)"
proof -
  assume ok: "blobs_ok X b"
  have "distinct (map fst (b_chunks (store_chunk X c b)))"
    using ok by (simp add: blobs_ok_def store_chunk_def Let_def)
  then show ?thesis
    using ok unfolding blobs_ok_def store_chunk_frame store_chunk_lookup
    by (auto split: if_splits)
qed

lemma store_chunks_keep:
  "map_of (b_chunks b) h = Some z \<Longrightarrow> map_of (b_chunks (fold (store_chunk X) cs b)) h = Some z"
proof (induction cs arbitrary: b)
  case (Cons c cs)
  have "map_of (b_chunks (store_chunk X c b)) h = Some z"
    using Cons.prems by (cases "h = blake X c") (simp_all add: store_chunk_lookup)
  with Cons.IH show ?case by simp
qed simp

lemma store_chunks_ok: "blobs_ok X b \<Longrightarrow> blobs_ok X (fold (store_chunk X) cs b)"
  by (induction cs arbitrary: b) (simp_all add: store_chunk_ok)

lemma store_chunks_have:
  "c \<in> set cs \<Longrightarrow> map_of (b_chunks (fold (store_chunk X) cs b)) (blake X c) \<noteq> None"
proof (induction cs arbitrary: b)
  case (Cons d cs)
  show ?case
  proof (cases "c = d")
    case True
    obtain z where "map_of (b_chunks (store_chunk X d b)) (blake X d) = Some z"
      by (cases "map_of (b_chunks b) (blake X d)") (auto simp: store_chunk_lookup)
    with store_chunks_keep[OF this] True show ?thesis by simp
  qed (use Cons in simp)
qed simp

lemma mapE_fromhex_blake: "mapE fromhex (map (blake X) cs) = Inr (map (x_blake X) cs)"
  by (induction cs) (simp_all add: blake_def)

lemma merkle_root_total: "\<exists>rt. merkle_root X (map (blake X) cs) = Inr rt"
  by (simp add: merkle_root_def mapE_fromhex_blake)

lemma put_file_total:
  obtains rt f where "merkle_root X (map (blake X) (chunk X data)) = Inr rt"
    "f = dget (b_files b) name \<lparr> f_versions = [], f_roots = [] \<rparr>"
    "put_file X name data b = Inr (length (f_versions f),
       (fold (store_chunk X) (chunk X data) b)
         \<lparr> b_logical := b_logical b + length data,
           b_files := dset name \<lparr> f_versions = f_versions f @ [map (blake X) (chunk X data)],
                                  f_roots = f_roots f @ [rt] \<rparr> (b_files b) \<rparr>)"
proof -
  obtain rt where "merkle_root X (map (blake X) (chunk X data)) = Inr rt"
    using merkle_root_total by blast
  with that[OF this refl] show ?thesis by (simp add: put_file_def Let_def)
qed

lemma put_file_ok:
  assumes ok: "blobs_ok X b" and p: "put_file X name data b = Inr (v, b')"
  shows "blobs_ok X b'"
proof -
  obtain rt f where rt: "merkle_root X (map (blake X) (chunk X data)) = Inr rt"
    and f: "f = dget (b_files b) name \<lparr> f_versions = [], f_roots = [] \<rparr>"
    and r: "put_file X name data b = Inr (length (f_versions f),
       (fold (store_chunk X) (chunk X data) b)
         \<lparr> b_logical := b_logical b + length data,
           b_files := dset name \<lparr> f_versions = f_versions f @ [map (blake X) (chunk X data)],
                                  f_roots = f_roots f @ [rt] \<rparr> (b_files b) \<rparr>)"
    by (rule put_file_total)
  let ?b1 = "fold (store_chunk X) (chunk X data) b"
  have b1: "blobs_ok X ?b1" using ok by (rule store_chunks_ok)
  have b': "b_chunks b' = b_chunks ?b1" "b_tier b' = b_tier b"
    "b_files b' = dset name \<lparr> f_versions = f_versions f @ [map (blake X) (chunk X data)],
                             f_roots = f_roots f @ [rt] \<rparr> (b_files b)"
    using p r by auto
  have "mapE (merkle_root X) (f_versions f) = Inr (f_roots f) \<and>
      (\<forall>r\<in>set (f_versions f). \<forall>h\<in>set r. map_of (b_chunks ?b1) h \<noteq> None)"
    using b1 f by (cases "map_of (b_files b) name") (auto simp: blobs_ok_def dget_def)
  with rt store_chunks_have[of _ "chunk X data" X b]
  have "mapE (merkle_root X) (f_versions f @ [map (blake X) (chunk X data)]) = Inr (f_roots f @ [rt]) \<and>
      (\<forall>r\<in>set (f_versions f @ [map (blake X) (chunk X data)]). \<forall>h\<in>set r.
         map_of (b_chunks ?b1) h \<noteq> None)"
    by (auto simp: mapE_snoc)
  note newf = this
  have "mapE (merkle_root X) (f_versions g) = Inr (f_roots g) \<and>
      (\<forall>r\<in>set (f_versions g). \<forall>h\<in>set r. map_of (b_chunks ?b1) h \<noteq> None)"
    if "map_of (b_files b') n = Some g" for n g
  proof (cases "n = name")
    case True
    with that have "g = \<lparr> f_versions = f_versions f @ [map (blake X) (chunk X data)],
                          f_roots = f_roots f @ [rt] \<rparr>" by (simp add: b')
    with newf show ?thesis by simp
  next
    case False
    with that have "map_of (b_files ?b1) n = Some g" by (simp add: b')
    from blobs_okD(3,4)[OF b1 this] show ?thesis by blast
  qed
  moreover have "b_tier b' = b_tier ?b1" by (simp add: b')
  ultimately show ?thesis
    using blobs_okD(1,2)[OF b1] unfolding blobs_ok_def b'(1) by metis
qed

section \<open>Refinement: a file is the list of its versions\<close>

definition contents :: "ext \<Rightarrow> blobs \<Rightarrow> string \<Rightarrow> string res list" where
  "contents X b name =
     (case map_of (b_files b) name of
        None \<Rightarrow> [] | Some f \<Rightarrow> map (read_recipe X b) (f_versions f))"

lemma decompress_compress [simp]: "codecs_ok X \<Longrightarrow> decompress X t (compress X t c) = c"
  by (simp add: codecs_ok_def compress_def decompress_def)

lemma read_recipe_keep:
  assumes "\<And>h z. map_of (b_chunks b) h = Some z \<Longrightarrow> map_of (b_chunks b') h = Some z"
    and "b_tier b' = b_tier b" "\<forall>h\<in>set r. map_of (b_chunks b) h \<noteq> None"
  shows "read_recipe X b' r = read_recipe X b r"
proof -
  have "map_of (b_chunks b') h = map_of (b_chunks b) h" if "h \<in> set r" for h
    using assms(1)[of h] assms(3) that by (cases "map_of (b_chunks b) h") auto
  then show ?thesis
    unfolding read_recipe_def assms(2) by (metis (no_types, lifting) mapE_cong)
qed

lemma read_own_recipe:
  assumes X: "codecs_ok X" and ok: "blobs_ok X b"
    and hv: "\<forall>c\<in>set cs. map_of (b_chunks b) (blake X c) \<noteq> None"
  shows "collision X \<or> read_recipe X b (map (blake X) cs) = Inr (concat cs)"
proof -
  {
    assume nc: "\<not> collision X"
    have "mapE (\<lambda>hh. case map_of (b_chunks b) hh of None \<Rightarrow> Inl KeyError
        | Some z \<Rightarrow> Inr (decompress X (b_tier b) z)) (map (blake X) cs) = Inr cs"
      using hv
    proof (induction cs)
      case (Cons c cs)
      then obtain z where z: "map_of (b_chunks b) (blake X c) = Some z" by auto
      from blobs_okD(2)[OF ok z] obtain d where "blake X c = blake X d" "z = compress X (b_tier b) d"
        by blast
      with blake_collision nc X have "decompress X (b_tier b) z = c" by fastforce
      with Cons z show ?case by simp
    qed simp
    then have "read_recipe X b (map (blake X) cs) = Inr (concat cs)" by (simp add: read_recipe_def)
  }
  then show ?thesis by blast
qed

lemma put_file_contents:
  assumes X: "codecs_ok X" and ok: "blobs_ok X b" and p: "put_file X name data b = Inr (v, b')"
  shows "collision X \<or>
    (v = length (contents X b name) \<and>
     (\<forall>n. contents X b' n = (if n = name then contents X b name @ [Inr data] else contents X b n)))"
proof -
  obtain rt f where f: "f = dget (b_files b) name \<lparr> f_versions = [], f_roots = [] \<rparr>"
    and r: "put_file X name data b = Inr (length (f_versions f),
       (fold (store_chunk X) (chunk X data) b)
         \<lparr> b_logical := b_logical b + length data,
           b_files := dset name \<lparr> f_versions = f_versions f @ [map (blake X) (chunk X data)],
                                  f_roots = f_roots f @ [rt] \<rparr> (b_files b) \<rparr>)"
    by (rule put_file_total)
  let ?b1 = "fold (store_chunk X) (chunk X data) b"
  have b': "v = length (f_versions f)" "b_chunks b' = b_chunks ?b1" "b_tier b' = b_tier b"
    "b_files b' = dset name \<lparr> f_versions = f_versions f @ [map (blake X) (chunk X data)],
                             f_roots = f_roots f @ [rt] \<rparr> (b_files b)"
    using p r by auto
  have ok': "blobs_ok X b'" using put_file_ok[OF ok p] .
  have old: "read_recipe X b' q = read_recipe X b q"
    if "map_of (b_files b) n = Some g" "q \<in> set (f_versions g)" for n g q
    by (rule read_recipe_keep)
      (use ok that store_chunks_keep b' in \<open>auto simp: blobs_ok_def\<close>)
  have new: "collision X \<or> read_recipe X b' (map (blake X) (chunk X data)) = Inr data"
    using read_own_recipe[OF X ok', of "chunk X data"] store_chunks_have[of _ "chunk X data" X b] b'
    by (simp add: concat_chunk)
  have old_all: "map (read_recipe X b') (f_versions g) = map (read_recipe X b) (f_versions g)"
    if "map_of (b_files b) n = Some g" for n g
    using old[OF that] by simp
  {
    assume n: "read_recipe X b' (map (blake X) (chunk X data)) = Inr data"
    have "v = length (contents X b name)"
      by (simp add: b' f contents_def dget_def split: option.split)
    moreover have "contents X b' n = (if n = name then contents X b name @ [Inr data] else contents X b n)" for n
      using n f old_all
      by (cases "map_of (b_files b) n") (auto simp: contents_def b'(4) dget_def)
    ultimately have ?thesis by simp
  }
  with new show ?thesis by blast
qed

lemma py_index_map: "py_index (map f xs) i = bindE (py_index xs i) (\<lambda>x. Inr (f x))"
  by (auto simp: py_index_def Let_def)

lemma get_file_contents:
  "map_of (b_files b) name \<noteq> None \<Longrightarrow>
   get_file X b name i = bindE (py_index (contents X b name) i) (\<lambda>r. r)"
  by (cases "map_of (b_files b) name"; cases "py_index (f_versions (the (map_of (b_files b) name))) i")
    (auto simp: get_file_def contents_def py_index_map)

text \<open>Storing bytes that are stored already adds no chunk.\<close>

lemma store_chunks_known:
  "\<forall>c\<in>set cs. map_of (b_chunks b) (blake X c) \<noteq> None \<Longrightarrow>
   fold (store_chunk X) cs b = b\<lparr> b_dedup := b_dedup b + length cs \<rparr>"
proof (induction cs arbitrary: b)
  case (Cons c cs)
  then have "store_chunk X c b = b\<lparr> b_dedup := b_dedup b + 1 \<rparr>"
    by (simp add: store_chunk_def Let_def has_key_def del: has_key_iff)
  with Cons show ?case by simp
qed simp

lemma put_file_again:
  assumes p: "put_file X name data b = Inr (v, b')" and q: "put_file X name' data b' = Inr (w, b'')"
  shows "b_chunks b'' = b_chunks b'" "b_dedup b'' = b_dedup b' + length (chunk X data)"
proof -
  have b': "b_chunks b' = b_chunks (fold (store_chunk X) (chunk X data) b)"
    using p by (auto simp: put_file_def Let_def bindE_eq_Inr)
  have "fold (store_chunk X) (chunk X data) b' = b'\<lparr> b_dedup := b_dedup b' + length (chunk X data) \<rparr>"
    by (rule store_chunks_known) (simp add: b' store_chunks_have del: not_None_eq)
  with q show "b_chunks b'' = b_chunks b'" "b_dedup b'' = b_dedup b' + length (chunk X data)"
    by (auto simp: put_file_def Let_def bindE_eq_Inr)
qed

end
