(* ===== verification/Crypto.thy ===== *)
theory Crypto
  imports Hex
begin

text \<open>
  \<open>nedb.crypto\<close>: encryption at rest.  A data key (DEK), wrapped by the operator's key (TMK)
  in \<open>key.enc\<close>, encrypts the lines of the append-only file.  The cipher and the key
  derivation are external; \<open>os.urandom\<close> is an argument.  Base64 is the one of the standard
  library, decoding in its non-strict mode.
\<close>

section \<open>Base64\<close>

definition b64_char :: "nat \<Rightarrow> char" where
  \<comment> \<open>\<open>A-Z a-z 0-9 + /\<close>\<close>
  "b64_char n =
     char_of (if n < 26 then n + 65 else if n < 52 then n + 71 else if n < 62 then n - 4
              else if n = 62 then 43 else 47)"

definition b64_val :: "char \<Rightarrow> nat option" where
  "b64_val c =
     (let n = (of_char c :: nat) in
      if 65 \<le> n \<and> n \<le> 90 then Some (n - 65)
      else if 97 \<le> n \<and> n \<le> 122 then Some (n - 71)
      else if 48 \<le> n \<and> n \<le> 57 then Some (n + 4)
      else if n = 43 then Some 62
      else if n = 47 then Some 63
      else None)"

fun b64_encode :: "string \<Rightarrow> string" where
  "b64_encode [] = []"
| "b64_encode [a] =
     (let x = of_char a in [b64_char (x div 4), b64_char (x mod 4 * 16), CHR ''='', CHR ''=''])"
| "b64_encode [a, b] =
     (let x = of_char a; y = of_char b in
      [b64_char (x div 4), b64_char (x mod 4 * 16 + y div 16), b64_char (y mod 16 * 4), CHR ''=''])"
| "b64_encode (a # b # c # s) =
     (let x = of_char a; y = of_char b; z = of_char c in
      b64_char (x div 4) # b64_char (x mod 4 * 16 + y div 16) #
      b64_char (y mod 16 * 4 + z div 64) # b64_char (z mod 64) # b64_encode s)"

text \<open>
  The decoder's loop: position in the quad, padding characters seen, and the bits left over.
  Characters outside the alphabet are skipped.
\<close>

fun b64_loop :: "nat \<Rightarrow> nat \<Rightarrow> nat \<Rightarrow> string \<Rightarrow> string res" where
  "b64_loop qp pads left [] = (if qp = 0 then Inr [] else Inl ValueErr)"
| "b64_loop qp pads left (c # s) =
     (if c = CHR ''='' then
        (if 2 \<le> qp then
           (if 4 \<le> qp + pads + 1 then Inr [] else b64_loop qp (pads + 1) left s)
         else b64_loop qp pads left s)
      else (case b64_val c of
              None \<Rightarrow> b64_loop qp pads left s
            | Some v \<Rightarrow>
                (if qp = 0 then b64_loop 1 0 v s
                 else if qp = 1 then
                   bindE (b64_loop 2 0 (v mod 16) s) (\<lambda>r. Inr (char_of (left * 4 + v div 16) # r))
                 else if qp = 2 then
                   bindE (b64_loop 3 0 (v mod 4) s) (\<lambda>r. Inr (char_of (left * 16 + v div 4) # r))
                 else bindE (b64_loop 0 0 0 s) (\<lambda>r. Inr (char_of (left * 64 + v) # r)))))"

definition is_ascii :: "string \<Rightarrow> bool" where
  "is_ascii s \<longleftrightarrow> list_all (\<lambda>c. (of_char c :: nat) < 128) s"

definition b64_decode :: "string \<Rightarrow> string res" where
  \<comment> \<open>\<open>base64.b64decode\<close> of a \<open>str\<close>\<close>
  "b64_decode s = (if is_ascii s then b64_loop 0 0 0 s else Inl ValueErr)"

text \<open>\<open>str.encode\<close> and \<open>bytes.decode\<close> (UTF-8) on code points below 256.\<close>

definition utf8_char :: "char \<Rightarrow> string" where
  "utf8_char c =
     (let n = (of_char c :: nat) in
      if n < 128 then [c] else [char_of (192 + n div 64), char_of (128 + n mod 64)])"

definition utf8_encode :: "string \<Rightarrow> string" where
  "utf8_encode s = concat (map utf8_char s)"

text \<open>Sequences for code points from 256 on are outside the model.\<close>

fun utf8_decode :: "string \<Rightarrow> string res" where
  "utf8_decode [] = Inr []"
| "utf8_decode (c # s) =
     (let n = (of_char c :: nat) in
      if n < 128 then bindE (utf8_decode s) (\<lambda>r. Inr (c # r))
      else if n = 194 \<or> n = 195 then
        (case s of
           [] \<Rightarrow> Inl ValueErr
         | d # t \<Rightarrow>
             (let m = (of_char d :: nat) in
              if 128 \<le> m \<and> m < 192 then
                bindE (utf8_decode t) (\<lambda>r. Inr (char_of ((n - 192) * 64 + (m - 128)) # r))
              else Inl ValueErr))
      else if 196 \<le> n \<and> n < 245 then Inl Untyped
      else Inl ValueErr)"

section \<open>Encryption\<close>

definition KEY_LEN :: nat where "KEY_LEN = 32"
definition NONCE_LEN :: nat where "NONCE_LEN = 12"
definition TAG_LEN :: nat where "TAG_LEN = 16"

definition AAD_DEK :: string where "AAD_DEK = ''NEDB-DEK-v1''"
definition AAD_DATA :: string where "AAD_DATA = ''NEDB-data-v1''"

text \<open>The part of the environment \<open>resolve_tmk\<close> reads: \<open>NEDB_TMK\<close> and the content of the
  file that \<open>NEDB_TMK_FILE\<close> names.\<close>

definition byte_space :: "char \<Rightarrow> bool" where
  "byte_space c \<longleftrightarrow> c = CHR '' '' \<or> (9 \<le> (of_char c :: nat) \<and> (of_char c :: nat) \<le> 13)"

definition bytes_strip :: "string \<Rightarrow> string" where
  "bytes_strip s = rev (dropWhile byte_space (rev (dropWhile byte_space s)))"

definition derive_key :: "ext \<Rightarrow> string \<Rightarrow> string" where
  "derive_key X material = x_hkdf X material"

definition resolve_tmk :: "ext \<Rightarrow> string option \<Rightarrow> string option \<Rightarrow> string option \<Rightarrow> string option res" where
  "resolve_tmk X arg env_hex env_file =
     (case arg of
        Some m \<Rightarrow> Inr (Some (derive_key X m))
      | None \<Rightarrow>
          if env_hex \<noteq> None \<and> env_hex \<noteq> Some [] then
            bindE (fromhex (the env_hex)) (\<lambda>m. Inr (Some (derive_key X m)))
          else (case env_file of
                  Some content \<Rightarrow> Inr (Some (derive_key X (bytes_strip content)))
                | None \<Rightarrow> Inr None))"

definition encrypt_bytes :: "ext \<Rightarrow> string \<Rightarrow> string \<Rightarrow> string \<Rightarrow> string \<Rightarrow> string" where
  \<comment> \<open>\<open>nonce\<close> is what \<open>os.urandom\<close> returned\<close>
  "encrypt_bytes X nonce plaintext dek aad =
     (case x_gcm_enc X dek nonce aad plaintext of (ct, tag) \<Rightarrow> nonce @ ct @ tag)"

definition decrypt_bytes :: "ext \<Rightarrow> string \<Rightarrow> string \<Rightarrow> string \<Rightarrow> string res" where
  "decrypt_bytes X data dek aad =
     (let n = length data;
          nonce = take NONCE_LEN data;
          ciphertext = drop NONCE_LEN (take (n - TAG_LEN) data);
          tag = drop (n - TAG_LEN) data
      in case x_gcm_dec X dek nonce aad ciphertext tag of None \<Rightarrow> Inl ValueErr | Some p \<Rightarrow> Inr p)"

section \<open>The wrapped data key\<close>

definition wrap_dek :: "ext \<Rightarrow> string \<Rightarrow> string \<Rightarrow> string \<Rightarrow> doc" where
  "wrap_dek X nonce dek tmk =
     (case x_gcm_enc X tmk nonce AAD_DEK dek of (ct, tag) \<Rightarrow>
        [(''v'', PInt 1), (''alg'', PStr ''AES-256-GCM''), (''n'', PStr (hexlify nonce)),
         (''ct'', PStr (hexlify (ct @ tag)))])"

definition hex_field :: "doc \<Rightarrow> string \<Rightarrow> string res" where
  \<comment> \<open>\<open>bytes.fromhex(d[k])\<close>\<close>
  "hex_field d k =
     (case map_of d k of None \<Rightarrow> Inl KeyError | Some (PStr s) \<Rightarrow> fromhex s | Some _ \<Rightarrow> Inl TypeErr)"

definition unwrap_dek :: "ext \<Rightarrow> doc \<Rightarrow> string \<Rightarrow> string res" where
  "unwrap_dek X wrapped tmk =
     bindE (hex_field wrapped ''n'') (\<lambda>nonce.
     bindE (hex_field wrapped ''ct'') (\<lambda>ct_with_tag.
       (let n = length ct_with_tag - TAG_LEN;
            ct = take n ct_with_tag; tag = drop n ct_with_tag
        in case x_gcm_dec X tmk nonce AAD_DEK ct tag of None \<Rightarrow> Inl ValueErr | Some p \<Rightarrow> Inr p)))"

text \<open>\<open>key.enc\<close> is the content of the file, \<open>None\<close> when there is none.\<close>

definition save_wrapped_dek :: "ext \<Rightarrow> string \<Rightarrow> string \<Rightarrow> string \<Rightarrow> string" where
  "save_wrapped_dek X nonce dek tmk = dumps X '', '' '': '' (PDict (wrap_dek X nonce dek tmk))"

definition load_or_create_dek :: "ext \<Rightarrow> string \<Rightarrow> string \<Rightarrow> string option \<Rightarrow> string \<Rightarrow>
    (string \<times> string) res" where
  \<comment> \<open>the fresh key and nonce, the file and the TMK; the DEK and the file afterwards\<close>
  "load_or_create_dek X fresh nonce file tmk =
     (case file of
        Some txt \<Rightarrow>
          bindE (loads txt) (\<lambda>v. case v of
              PDict wrapped \<Rightarrow> bindE (unwrap_dek X wrapped tmk) (\<lambda>dek. Inr (dek, txt))
            | _ \<Rightarrow> Inl TypeErr)
      | None \<Rightarrow> Inr (fresh, save_wrapped_dek X nonce fresh tmk))"

definition rewrap_dek :: "ext \<Rightarrow> string \<Rightarrow> string \<Rightarrow> string \<Rightarrow> string option \<Rightarrow> string \<Rightarrow> string \<Rightarrow> string res" where
  \<comment> \<open>returns the new content of \<open>key.enc\<close>\<close>
  "rewrap_dek X fresh n1 n2 file old_tmk new_tmk =
     bindE (load_or_create_dek X fresh n1 file old_tmk) (\<lambda>(dek, _).
       Inr (save_wrapped_dek X n2 dek new_tmk))"

section \<open>Lines of the append-only file\<close>

definition envelope :: "string \<Rightarrow> pyval" where
  "envelope ct = PDict [(''enc'', PInt 1), (''ct'', PStr (b64_encode ct))]"

definition aof_encode :: "ext \<Rightarrow> string \<Rightarrow> string \<Rightarrow> string option \<Rightarrow> string" where
  "aof_encode X nonce op_json dek =
     (case dek of
        None \<Rightarrow> op_json
      | Some k \<Rightarrow> dumps X '','' '':'' (envelope (encrypt_bytes X nonce (utf8_encode op_json) k AAD_DATA)))"

definition open_envelope :: "ext \<Rightarrow> string \<Rightarrow> string \<Rightarrow> string option res" where
  \<comment> \<open>the body of the \<open>try\<close>: \<open>None\<close> when the line is no envelope\<close>
  "open_envelope X k s =
     bindE (loads s) (\<lambda>env.
       case env of
         PDict d \<Rightarrow>
           if py_eq (doc_get d ''enc'') (PInt 1) then
             (case map_of d ''ct'' of
                None \<Rightarrow> Inl KeyError
              | Some (PStr c) \<Rightarrow>
                  bindE (b64_decode c) (\<lambda>ct. bindE (decrypt_bytes X ct k AAD_DATA)
                    (\<lambda>p. bindE (utf8_decode p) (\<lambda>t. Inr (Some t))))
              | Some _ \<Rightarrow> Inl TypeErr)
           else Inr None
       | _ \<Rightarrow> Inr None)"

definition aof_decode :: "ext \<Rightarrow> string \<Rightarrow> string option \<Rightarrow> string" where
  "aof_decode X line dek =
     (let stripped = str_strip line in
      if stripped = [] then stripped
      else (case dek of
              None \<Rightarrow> stripped
            | Some k \<Rightarrow> (case open_envelope X k stripped of Inr (Some t) \<Rightarrow> t | _ \<Rightarrow> stripped)))"

text \<open>Blob chunks in a snapshot.\<close>

definition chunk_encode :: "ext \<Rightarrow> string \<Rightarrow> string \<Rightarrow> string option \<Rightarrow> string" where
  "chunk_encode X nonce b dek =
     (case dek of None \<Rightarrow> b | Some k \<Rightarrow> encrypt_bytes X nonce b k AAD_DATA)"

definition chunk_decode :: "ext \<Rightarrow> string \<Rightarrow> string option \<Rightarrow> string res" where
  "chunk_decode X b dek = (case dek of None \<Rightarrow> Inr b | Some k \<Rightarrow> decrypt_bytes X b k AAD_DATA)"

section \<open>Round trips\<close>

lemma of_b64_char:
  "n < 64 \<Longrightarrow> (of_char (b64_char n) :: nat) =
     (if n < 26 then n + 65 else if n < 52 then n + 71 else if n < 62 then n - 4
      else if n = 62 then 43 else 47)"
  by (simp add: b64_char_def of_char_of)

lemma b64_val_char: "n < 64 \<Longrightarrow> b64_val (b64_char n) = Some n \<and> b64_char n \<noteq> CHR ''='' \<and>
    (of_char (b64_char n) :: nat) < 128"
proof (intro conjI)
  assume n: "n < 64"
  show "b64_val (b64_char n) = Some n"
    using n by (auto simp: b64_val_def Let_def of_b64_char)
  have "(of_char (b64_char n) :: nat) \<noteq> of_char (CHR ''='')" using n by (auto simp: of_b64_char)
  then show "b64_char n \<noteq> CHR ''=''" by auto
  show "(of_char (b64_char n) :: nat) < 128" using n by (auto simp: of_b64_char)
qed

lemma quad_arith:
  fixes x y z :: nat
  assumes "x < 256" "y < 256" "z < 256"
  shows "x div 4 < 64" "x mod 4 * 16 + y div 16 < 64" "y mod 16 * 4 + z div 64 < 64" "z mod 64 < 64"
    "x mod 4 * 16 < 64" "y mod 16 * 4 < 64"
    "y div 16 div 16 = 0" "z div 64 div 4 = 0" "y div 16 mod 16 = y div 16" "z div 64 mod 4 = z div 64"
proof -
  have y: "y div 16 < 16" and z: "z div 64 < 4" using assms by (simp_all add: less_mult_imp_div_less)
  have m: "x mod 4 < 4" "y mod 16 < 16" by simp_all
  show "x div 4 < 64" using assms by (simp add: less_mult_imp_div_less)
  show "x mod 4 * 16 + y div 16 < 64" using y m by linarith
  show "y mod 16 * 4 + z div 64 < 64" using z m by linarith
  show "x mod 4 * 16 < 64" "y mod 16 * 4 < 64" using m by linarith+
  show "y div 16 div 16 = 0" "y div 16 mod 16 = y div 16" using y by (simp_all add: div_less)
  show "z div 64 div 4 = 0" "z div 64 mod 4 = z div 64" using z by (simp_all add: div_less)
qed simp

lemma of_char_256: "(of_char c :: nat) < 256"
  using nat_of_char_less_256 by simp

lemma b64_loop_encode: "b64_loop 0 0 0 (b64_encode s) = Inr s"
proof (induction s rule: b64_encode.induct)
  case (2 a)
  note q = quad_arith[OF of_char_256[of a] of_char_256[of a] of_char_256[of a]]
  show ?case by (simp add: Let_def b64_val_char q)
next
  case (3 a b)
  note q = quad_arith[OF of_char_256[of a] of_char_256[of b] of_char_256[of b]]
  show ?case by (simp add: Let_def b64_val_char q)
next
  case (4 a b c s)
  note q = quad_arith[OF of_char_256[of a] of_char_256[of b] of_char_256[of c]]
  show ?case by (simp add: Let_def b64_val_char q 4[simplified])
qed simp

lemma is_ascii_b64: "is_ascii (b64_encode s)"
proof (induction s rule: b64_encode.induct)
  case (2 a)
  note q = quad_arith[OF of_char_256[of a] of_char_256[of a] of_char_256[of a]]
  show ?case by (simp add: Let_def is_ascii_def b64_val_char q)
next
  case (3 a b)
  note q = quad_arith[OF of_char_256[of a] of_char_256[of b] of_char_256[of b]]
  show ?case by (simp add: Let_def is_ascii_def b64_val_char q)
next
  case (4 a b c s)
  note q = quad_arith[OF of_char_256[of a] of_char_256[of b] of_char_256[of c]]
  show ?case using 4 by (simp add: Let_def is_ascii_def b64_val_char q)
qed (simp add: is_ascii_def)

lemma b64_decode_encode [simp]: "b64_decode (b64_encode s) = Inr s"
  by (simp add: b64_decode_def is_ascii_b64 b64_loop_encode)

lemma utf8_decode_char: "utf8_decode (utf8_char c @ s) = bindE (utf8_decode s) (\<lambda>r. Inr (c # r))"
proof (cases "(of_char c :: nat) < 128")
  case False
  define n where "n = (of_char c :: nat)"
  have n: "128 \<le> n" "n < 256" using False of_char_256[of c] by (simp_all add: n_def)
  have c: "char_of n = c" by (simp add: n_def)
  have "n div 64 < 4" using n(2) by (simp add: less_mult_imp_div_less)
  moreover have "2 \<le> n div 64" using div_le_mono[OF n(1), of 64] by simp
  ultimately have h: "n div 64 = 2 \<or> n div 64 = 3" by linarith
  have m: "n mod 64 < 64" by simp
  have u: "utf8_char c = [char_of (192 + n div 64), char_of (128 + n mod 64)]"
    using False by (simp add: utf8_char_def n_def Let_def)
  have 1: "(of_char (char_of (192 + n div 64) :: char) :: nat) = 192 + n div 64"
    using h by (auto simp: of_char_of)
  have 2: "(of_char (char_of (128 + n mod 64) :: char) :: nat) = 128 + n mod 64"
    using m by (simp add: of_char_of)
  have 3: "(192 + n div 64 - 192) * 64 + (128 + n mod 64 - 128) = n" by simp
  have 4: "\<not> 192 + n div 64 < 128" "192 + n div 64 = 194 \<or> 192 + n div 64 = 195"
    "128 \<le> 128 + n mod 64 \<and> 128 + n mod 64 < 192" using h m by auto
  show ?thesis
    unfolding u append_Cons append_Nil
    by (subst utf8_decode.simps)
      (simp only: Let_def 1 2 3 4 if_True if_False list.case c simp_thms)
qed (simp add: utf8_char_def Let_def)

lemma utf8_decode_encode [simp]: "utf8_decode (utf8_encode s) = Inr s"
  by (induction s) (simp_all add: utf8_encode_def utf8_decode_char del: utf8_decode.simps(2))

lemma decrypt_encrypt:
  assumes "gcm_ok X" "length nonce = NONCE_LEN"
  shows "decrypt_bytes X (encrypt_bytes X nonce p k aad) k aad = Inr p"
proof -
  obtain ct tag where e: "x_gcm_enc X k nonce aad p = (ct, tag)" by (cases "x_gcm_enc X k nonce aad p")
  have "x_gcm_dec X k nonce aad ct tag = Some p" "length tag = 16"
    using assms(1)[unfolded gcm_ok_def, rule_format, of k nonce aad p] e by simp_all
  with e assms(2) show ?thesis
    by (simp add: decrypt_bytes_def encrypt_bytes_def Let_def TAG_LEN_def NONCE_LEN_def)
qed

lemma strip_braces: "str_strip (CHR ''{'' # s @ ''}'') = CHR ''{'' # s @ ''}''"
proof -
  have "\<not> is_space (CHR ''{'')" "\<not> is_space (CHR ''}'')" by code_simp+
  then show ?thesis by (simp add: str_strip_def)
qed

lemma strip_dumps_dict [simp]: "str_strip (dumps X i k (PDict d)) = dumps X i k (PDict d)"
  using strip_braces by simp

lemma aof_decode_encode:
  assumes X: "gcm_ok X" "frepr_ok X" and n: "length nonce = NONCE_LEN"
    and s: "str_strip s = s" "s \<noteq> []"
  shows "aof_decode X (aof_encode X nonce s dek) dek = s"
proof (cases dek)
  case None
  with s show ?thesis by (simp add: aof_decode_def aof_encode_def)
next
  case (Some k)
  let ?e = "envelope (encrypt_bytes X nonce (utf8_encode s) k AAD_DATA)"
  have "loads (dumps X '','' '':'' ?e) = Inr ?e"
    by (rule loads_dumps) (simp_all add: X seps_def envelope_def)
  moreover have "dumps X '','' '':'' ?e \<noteq> []" by (simp add: envelope_def)
  moreover have "str_strip (dumps X '','' '':'' ?e) = dumps X '','' '':'' ?e"
    unfolding envelope_def by (rule strip_dumps_dict)
  ultimately show ?thesis
    using Some decrypt_encrypt[OF X(1) n]
    by (simp add: aof_decode_def aof_encode_def open_envelope_def envelope_def doc_get_def dget_def
        del: dumps.simps)
qed

lemma pv_ok_wrap: "pv_ok (PDict (wrap_dek X nonce dek tmk))"
  by (simp add: wrap_dek_def split: prod.split)

lemma unwrap_wrap: "gcm_ok X \<Longrightarrow> unwrap_dek X (wrap_dek X nonce dek tmk) tmk = Inr dek"
proof -
  assume X: "gcm_ok X"
  obtain ct tag where e: "x_gcm_enc X tmk nonce AAD_DEK dek = (ct, tag)"
    by (cases "x_gcm_enc X tmk nonce AAD_DEK dek")
  have "x_gcm_dec X tmk nonce AAD_DEK ct tag = Some dek" "length tag = 16"
    using X[unfolded gcm_ok_def, rule_format, of tmk nonce AAD_DEK dek] e by simp_all
  with e show "unwrap_dek X (wrap_dek X nonce dek tmk) tmk = Inr dek"
    by (simp add: unwrap_dek_def wrap_dek_def hex_field_def TAG_LEN_def)
qed

lemma load_saved_dek:
  assumes "gcm_ok X" "frepr_ok X"
  shows "load_or_create_dek X f m (Some (save_wrapped_dek X nonce dek tmk)) tmk =
    Inr (dek, save_wrapped_dek X nonce dek tmk)"
proof -
  have "loads (save_wrapped_dek X nonce dek tmk) = Inr (PDict (wrap_dek X nonce dek tmk))"
    unfolding save_wrapped_dek_def by (rule loads_dumps) (simp_all add: assms seps_def pv_ok_wrap json_space_def del: pv_ok.simps)
  then show ?thesis by (simp add: load_or_create_dek_def unwrap_wrap[OF assms(1)])
qed

text \<open>Rotation keeps the data key: what opened with the old TMK opens with the new one.\<close>

lemma rewrap_keeps_dek:
  assumes X: "gcm_ok X" "frepr_ok X"
    and l: "load_or_create_dek X f n1 file old = Inr (dek, txt)"
    and r: "rewrap_dek X f n1 n2 file old new = Inr txt'"
  shows "load_or_create_dek X f' n' (Some txt') new = Inr (dek, txt')"
  using r l load_saved_dek[OF X] by (auto simp: rewrap_dek_def)

end
