(* ===== verification/Engine.thy ===== *)
theory Engine
  imports Materialize Cascade Crypto
begin

text \<open>
  \<open>NEDB\<close> of \<open>nedb.engine\<close>: its state and its operations.  A call returns its result, or
  the exception it raises, together with the engine as the call leaves it.

  What a call reads from its surroundings is an argument: \<open>v_now\<close> is the \<open>time.time()\<close> of
  the call itself, \<open>v_ts i\<close> and \<open>v_rand i\<close> the time and the \<open>os.urandom\<close> bytes of its
  \<open>i\<close>-th appended operation.  The append-only file is the list of its lines; lines written
  but not flushed are in \<open>e_buf\<close>.
\<close>

section \<open>State\<close>

record env =
  v_now :: rat
  v_ts :: "nat \<Rightarrow> rat"
  v_rand :: "nat \<Rightarrow> string"

record disk =
  d_aof :: "string list option"
  d_meta :: "string option"
  d_snap :: "string option"
  d_key :: "string option"

record engine =
  e_log :: oplog
  e_mat :: mat
  e_blobs :: "(string, blobs) dict"
  e_nonce :: "(string, int) dict"
  e_path :: bool
  e_open :: bool \<comment> \<open>\<open>_aof is not None\<close>\<close>
  e_defer :: bool
  e_dek :: "string option"
  e_buf :: "string list"
  e_disk :: disk

definition empty_disk :: disk where
  "empty_disk = \<lparr> d_aof = None, d_meta = None, d_snap = None, d_key = None \<rparr>"

definition engine_new :: "bool \<Rightarrow> string option \<Rightarrow> disk \<Rightarrow> engine" where
  \<comment> \<open>\<open>__init__\<close> before \<open>_open\<close>\<close>
  "engine_new path dek d =
     \<lparr> e_log = log_init, e_mat = mat_init,
       e_blobs = [(''warm'', blob_init ''warm''), (''cold'', blob_init ''cold'')],
       e_nonce = [], e_path = path, e_open = False, e_defer = False, e_dek = dek, e_buf = [],
       e_disk = d \<rparr>"

type_synonym 'a call = "'a res \<times> engine"

definition bindC :: "'a call \<Rightarrow> ('a \<Rightarrow> engine \<Rightarrow> 'b call) \<Rightarrow> 'b call" where
  "bindC c f = (case c of (Inl x, e) \<Rightarrow> (Inl x, e) | (Inr a, e) \<Rightarrow> f a e)"

lemma bindC_simps [simp]:
  "bindC (Inl x, e) f = (Inl x, e)" "bindC (Inr a, e) f = f a e"
  by (simp_all add: bindC_def)

lemma bindC_Inr: "bindC c f = (Inr b, e) \<longleftrightarrow> (\<exists>a e1. c = (Inr a, e1) \<and> f a e1 = (Inr b, e))"
  by (cases c; cases "fst c") auto

definition store_of :: "engine \<Rightarrow> doc mvcc" where
  "store_of e = m_store (e_mat e)"

section \<open>Persistence of one operation\<close>

definition eng_flush :: "engine \<Rightarrow> engine" where
  "eng_flush e =
     (if e_open e then
        e\<lparr> e_disk := (e_disk e)\<lparr> d_aof :=
              Some ((case d_aof (e_disk e) of None \<Rightarrow> [] | Some ls \<Rightarrow> ls) @ e_buf e) \<rparr>,
           e_buf := [] \<rparr>
      else e)"

definition eng_close :: "engine \<Rightarrow> engine" where
  "eng_close e = (if e_open e then (eng_flush e)\<lparr> e_open := False \<rparr> else e)"

definition eng_append :: "ext \<Rightarrow> rat \<Rightarrow> string \<Rightarrow> string \<Rightarrow> int \<Rightarrow> string \<Rightarrow> doc \<Rightarrow> string option \<Rightarrow> prov \<Rightarrow>
    engine \<Rightarrow> (oprec \<times> bool) call" where
  \<comment> \<open>\<open>_log_append\<close>\<close>
  "eng_append X ts rnd client nonce op payload idm pr e =
     (case log_append X client nonce op payload idm ts pr (e_log e) of
        Inl x \<Rightarrow> (Inl x, e)
      | Inr (r, created, l) \<Rightarrow>
          (let e1 = e\<lparr> e_log := l \<rparr> in
           if created \<and> e_open e1 then
             (let e2 = e1\<lparr> e_buf := e_buf e1 @ [aof_encode X rnd (op_line X r) (e_dek e1)] \<rparr>
              in (Inr (r, created), if e_defer e2 then e2 else eng_flush e2))
           else (Inr (r, created), e1)))"

definition meta_json :: "(string \<times> string \<times> string) list \<Rightarrow> pyval" where
  "meta_json cfg =
     PDict [(''indexes'', PList (map (\<lambda>(c, f, k). PList [PStr c, PStr f, PStr k]) cfg))]"

definition persist_meta :: "ext \<Rightarrow> engine \<Rightarrow> engine" where
  "persist_meta X e =
     (if e_path e then
        e\<lparr> e_disk := (e_disk e)\<lparr> d_meta :=
             Some (dumps X '', '' '': '' (meta_json (ix_config (m_ix (e_mat e))))) \<rparr> \<rparr>
      else e)"

section \<open>Mutations\<close>

definition next_nonce :: "string \<Rightarrow> engine \<Rightarrow> int \<times> engine" where
  "next_nonce client e =
     (let n = dget (e_nonce e) client 0 + 1 in (n, e\<lparr> e_nonce := dset client n (e_nonce e) \<rparr>))"

definition pick_nonce :: "string \<Rightarrow> int option \<Rightarrow> engine \<Rightarrow> int \<times> engine" where
  \<comment> \<open>\<open>nonce = self._next(client) if nonce is None else nonce\<close>\<close>
  "pick_nonce client nonce e = (case nonce of None \<Rightarrow> next_nonce client e | Some n \<Rightarrow> (n, e))"

definition eng_fold :: "bool \<Rightarrow> oprec \<Rightarrow> engine \<Rightarrow> unit call" where
  "eng_fold causes r e =
     (case apply_op causes r (e_mat e) of
        (x, m) \<Rightarrow> (case x of None \<Rightarrow> Inr () | Some ex \<Rightarrow> Inl ex, e\<lparr> e_mat := m \<rparr>))"

definition commit :: "ext \<Rightarrow> rat \<Rightarrow> string \<Rightarrow> string \<Rightarrow> int \<Rightarrow> string \<Rightarrow> doc \<Rightarrow> string option \<Rightarrow> prov \<Rightarrow>
    engine \<Rightarrow> unit call" where
  \<comment> \<open>append, and fold the operation when it is new\<close>
  "commit X ts rnd client nonce op payload idm pr e =
     bindC (eng_append X ts rnd client nonce op payload idm pr e)
       (\<lambda>(r, created) e. if created then eng_fold True r e else (Inr (), e))"

definition embed_ttl :: "rat \<Rightarrow> rat option \<Rightarrow> doc \<Rightarrow> doc" where
  "embed_ttl now ttl d =
     (case ttl of None \<Rightarrow> d | Some s \<Rightarrow> dset ''_expires_at'' (PFloat (fl (now + s))) d)"

definition set_opt :: "string \<Rightarrow> ('a \<Rightarrow> pyval) \<Rightarrow> 'a option \<Rightarrow> doc \<Rightarrow> doc" where
  "set_opt k f x d = (case x of None \<Rightarrow> d | Some y \<Rightarrow> dset k (f y) d)"

definition put_doc :: "string \<Rightarrow> doc \<Rightarrow> rat \<Rightarrow> rat option \<Rightarrow> prov \<Rightarrow> doc" where
  "put_doc id' d now ttl pr =
     set_opt ''_valid_to'' PStr (p_to pr)
     (set_opt ''_valid_from'' PStr (p_from pr)
     (set_opt ''_confidence'' PFloat (p_conf pr)
     (set_opt ''_evidence'' PStr (p_evidence pr)
     (set_opt ''_caused_by'' (\<lambda>cs. PList (map PInt cs)) (p_caused pr)
     (embed_ttl now ttl (setdefault ''_id'' (PStr id') d))))))"

definition put_payload :: "string \<Rightarrow> string \<Rightarrow> doc \<Rightarrow> doc" where
  "put_payload coll id' d =
     [(''key'', PStr (doc_key coll id')), (''coll'', PStr coll), (''id'', PStr id'), (''doc'', PDict d)]"

definition delete_payload :: "string \<Rightarrow> string \<Rightarrow> doc" where
  "delete_payload coll id' =
     [(''key'', PStr (doc_key coll id')), (''coll'', PStr coll), (''id'', PStr id')]"

definition link_payload :: "string \<Rightarrow> string \<Rightarrow> string \<Rightarrow> doc" where
  "link_payload f r t = [(''frm'', PStr f), (''rel'', PStr r), (''to'', PStr t)]"

definition eng_put :: "ext \<Rightarrow> env \<Rightarrow> string \<Rightarrow> string \<Rightarrow> doc \<Rightarrow> string \<Rightarrow> int option \<Rightarrow> string option \<Rightarrow>
    rat option \<Rightarrow> prov \<Rightarrow> engine \<Rightarrow> doc option call" where
  "eng_put X V coll id' d client nonce idm ttl pr e =
     (let d' = put_doc id' d (v_now V) ttl pr in
      case pick_nonce client nonce e of (n, e1) \<Rightarrow>
        bindC (commit X (v_ts V 0) (v_rand V 0) client n ''put'' (put_payload coll id' d') idm pr e1)
          (\<lambda>_ e2. (mv_get (store_of e2) (doc_key coll id') None, e2)))"

definition eng_delete :: "ext \<Rightarrow> env \<Rightarrow> string \<Rightarrow> string \<Rightarrow> string \<Rightarrow> int option \<Rightarrow> string option \<Rightarrow>
    engine \<Rightarrow> unit call" where
  "eng_delete X V coll id' client nonce idm e =
     (case pick_nonce client nonce e of (n, e1) \<Rightarrow>
        commit X (v_ts V 0) (v_rand V 0) client n ''delete'' (delete_payload coll id') idm no_prov e1)"

definition eng_link :: "ext \<Rightarrow> env \<Rightarrow> string \<Rightarrow> string \<Rightarrow> string \<Rightarrow> string \<Rightarrow> int option \<Rightarrow>
    engine \<Rightarrow> unit call" where
  "eng_link X V f r t client nonce e =
     (case pick_nonce client nonce e of (n, e1) \<Rightarrow>
        commit X (v_ts V 0) (v_rand V 0) client n ''link'' (link_payload f r t) None no_prov e1)"

definition eng_unlink :: "ext \<Rightarrow> env \<Rightarrow> string \<Rightarrow> string \<Rightarrow> string \<Rightarrow> string \<Rightarrow> int option \<Rightarrow>
    engine \<Rightarrow> unit call" where
  "eng_unlink X V f r t client nonce e =
     (case pick_nonce client nonce e of (n, e1) \<Rightarrow>
        commit X (v_ts V 0) (v_rand V 0) client n ''unlink'' (link_payload f r t) None no_prov e1)"

section \<open>Expiry\<close>

definition ttl_delete :: "ext \<Rightarrow> rat \<Rightarrow> string \<Rightarrow> string \<Rightarrow> string \<Rightarrow> engine \<Rightarrow> unit call" where
  \<comment> \<open>append a delete as client \<open>__ttl__\<close> and fold the last operation, without a cause map\<close>
  "ttl_delete X ts rnd coll id' e =
     (case next_nonce ''__ttl__'' e of (n, e1) \<Rightarrow>
        bindC (eng_append X ts rnd ''__ttl__'' n ''delete'' (delete_payload coll id') None no_prov e1)
          (\<lambda>_ e2. case py_index (l_ops (e_log e2)) (-1) of
             Inl x \<Rightarrow> (Inl x, e2) | Inr r \<Rightarrow> eng_fold False r e2))"

definition check_ttl :: "ext \<Rightarrow> env \<Rightarrow> string \<Rightarrow> string \<Rightarrow> doc option \<Rightarrow> engine \<Rightarrow> doc option call" where
  "check_ttl X V coll id' d e =
     (case d of
        None \<Rightarrow> (Inr None, e)
      | Some dc \<Rightarrow>
          (let ex = doc_get dc ''_expires_at'' in
           if ex = PNone then (Inr (Some dc), e)
           else case py_lt ex (PFloat (v_now V)) of
                  None \<Rightarrow> (Inl TypeErr, e)
                | Some False \<Rightarrow> (Inr (Some dc), e)
                | Some True \<Rightarrow>
                    bindC (ttl_delete X (v_ts V 0) (v_rand V 0) coll id' e) (\<lambda>_ e. (Inr None, e))))"

definition eng_get :: "ext \<Rightarrow> env \<Rightarrow> string \<Rightarrow> string \<Rightarrow> int option \<Rightarrow> engine \<Rightarrow> doc option call" where
  "eng_get X V coll id' as_of e =
     (case mv_get (store_of e) (doc_key coll id') as_of of
        Inl x \<Rightarrow> (Inl x, e)
      | Inr d \<Rightarrow> if as_of = None then check_ttl X V coll id' d e else (Inr d, e))"

definition eng_expire :: "ext \<Rightarrow> env \<Rightarrow> string \<Rightarrow> string \<Rightarrow> rat \<Rightarrow> engine \<Rightarrow> bool call" where
  "eng_expire X V coll id' ttl e =
     (case mv_get (store_of e) (doc_key coll id') None of
        Inl x \<Rightarrow> (Inl x, e)
      | Inr None \<Rightarrow> (Inr False, e)
      | Inr (Some d) \<Rightarrow>
          bindC (eng_put X V coll id' d ''local'' None None (Some ttl) no_prov e) (\<lambda>_ e. (Inr True, e)))"

text \<open>\<open>key.split(":", 1)\<close> into collection and id\<close>

definition split_key :: "string \<Rightarrow> (string \<times> string) res" where
  "split_key k =
     (case dropWhile (\<lambda>c. c \<noteq> CHR '':'') k of
        [] \<Rightarrow> Inl ValueErr | _ # r \<Rightarrow> Inr (takeWhile (\<lambda>c. c \<noteq> CHR '':'') k, r))"

definition expired :: "rat \<Rightarrow> doc option \<Rightarrow> bool res" where
  \<comment> \<open>\<open>doc and doc.get("_expires_at") and now > doc["_expires_at"]\<close>\<close>
  "expired now d =
     (case d of
        None \<Rightarrow> Inr False
      | Some dc \<Rightarrow>
          (let ex = doc_get dc ''_expires_at'' in
           if dc = [] \<or> \<not> py_truth ex then Inr False
           else case py_lt ex (PFloat now) of None \<Rightarrow> Inl TypeErr | Some b \<Rightarrow> Inr b))"

fun sweep_keys :: "ext \<Rightarrow> env \<Rightarrow> string list \<Rightarrow> nat \<Rightarrow> engine \<Rightarrow> nat call" where
  "sweep_keys X V [] n e = (Inr n, e)"
| "sweep_keys X V (k # ks) n e =
     (case bindE (mv_get (store_of e) k None) (expired (v_now V)) of
        Inl x \<Rightarrow> (Inl x, e)
      | Inr False \<Rightarrow> sweep_keys X V ks n e
      | Inr True \<Rightarrow>
          (case split_key k of
             Inl x \<Rightarrow> (Inl x, e)
           | Inr (coll, id') \<Rightarrow>
               bindC (ttl_delete X (v_ts V n) (v_rand V n) coll id' e)
                 (\<lambda>_ e. sweep_keys X V ks (Suc n) e)))"

definition eng_sweep :: "ext \<Rightarrow> env \<Rightarrow> engine \<Rightarrow> nat call" where
  "eng_sweep X V e =
     (case mv_keys (store_of e) [] None of
        Inl x \<Rightarrow> (Inl x, e)
      | Inr ks \<Rightarrow>
          bindC (sweep_keys X V ks 0 e)
            (\<lambda>n e. (Inr n, if 0 < n then persist_meta X e else e)))"

section \<open>Valid time\<close>

definition str_lt :: "pyval \<Rightarrow> pyval \<Rightarrow> bool res" where
  "str_lt a b = (case py_lt a b of None \<Rightarrow> Inl TypeErr | Some r \<Rightarrow> Inr r)"

definition valid_at :: "doc \<Rightarrow> string \<Rightarrow> bool res" where
  "valid_at d date =
     (let vf = doc_get d ''_valid_from''; vt = doc_get d ''_valid_to'' in
      if vf = PNone \<and> vt = PNone then Inr True
      else bindE (if vf = PNone then Inr False else str_lt (PStr date) vf) (\<lambda>early.
           if early then Inr False
           else bindE (if vt = PNone then Inr False else str_lt vt (PStr date)) (\<lambda>late.
                  Inr (\<not> late))))"

section \<open>Relations, indexes, files\<close>

definition eng_neighbors :: "string \<Rightarrow> string \<Rightarrow> int option \<Rightarrow> engine \<Rightarrow> string list" where
  "eng_neighbors f r as_of e = neighbors (m_rels (e_mat e)) f r as_of"

definition eng_inbound :: "string \<Rightarrow> string \<Rightarrow> int option \<Rightarrow> engine \<Rightarrow> string list" where
  "eng_inbound t r as_of e = inbound (m_rels (e_mat e)) t r as_of"

definition on_mat :: "(mat \<Rightarrow> mat act) \<Rightarrow> engine \<Rightarrow> unit call" where
  "on_mat f e =
     (case f (e_mat e) of (x, m) \<Rightarrow> (case x of None \<Rightarrow> Inr () | Some ex \<Rightarrow> Inl ex, e\<lparr> e_mat := m \<rparr>))"

fun backfill :: "string \<Rightarrow> string list \<Rightarrow> mat \<Rightarrow> mat act" where
  "backfill coll [] m = (None, m)"
| "backfill coll (k # ks) m =
     andthen
       (case mv_get (m_store m) k None of
          Inl x \<Rightarrow> (Some x, m)
        | Inr None \<Rightarrow> (None, m)
        | Inr (Some d) \<Rightarrow> on_ix (ix_add coll k d) m)
       (backfill coll ks)"

definition index_mat :: "string \<Rightarrow> string \<Rightarrow> string \<Rightarrow> mat \<Rightarrow> mat act" where
  "index_mat coll field kind m =
     andthen (on_ix (ix_ensure coll field kind) m) (\<lambda>m.
       case mv_keys (m_store m) (coll @ '':'') None of
         Inl x \<Rightarrow> (Some x, m) | Inr ks \<Rightarrow> backfill coll ks m)"

definition eng_create_index :: "ext \<Rightarrow> string \<Rightarrow> string \<Rightarrow> string \<Rightarrow> engine \<Rightarrow> unit call" where
  "eng_create_index X coll field kind e =
     bindC (on_mat (index_mat coll field kind) e) (\<lambda>_ e. (Inr (), persist_meta X e))"

definition file_payload :: "string \<Rightarrow> string \<Rightarrow> nat \<Rightarrow> string \<Rightarrow> doc" where
  "file_payload name tier version rt =
     [(''name'', PStr name), (''tier'', PStr tier), (''version'', PInt (int version)), (''root'', PStr rt)]"

definition eng_put_file :: "ext \<Rightarrow> env \<Rightarrow> string \<Rightarrow> string \<Rightarrow> string \<Rightarrow> string \<Rightarrow> int option \<Rightarrow>
    string option \<Rightarrow> engine \<Rightarrow> nat call" where
  "eng_put_file X V name data tier client nonce idm e =
     (case map_of (e_blobs e) tier of
        None \<Rightarrow> (Inl KeyError, e)
      | Some bs \<Rightarrow>
          (case put_file X name data bs of
             Inl x \<Rightarrow> (Inl x, e)
           | Inr (version, bs') \<Rightarrow>
               (let e1 = e\<lparr> e_blobs := dset tier bs' (e_blobs e) \<rparr> in
                case file_root bs' name (int version) of
                  Inl x \<Rightarrow> (Inl x, e1)
                | Inr rt \<Rightarrow>
                    (case pick_nonce client nonce e1 of (n, e2) \<Rightarrow>
                       bindC (eng_append X (v_ts V 0) (v_rand V 0) client n ''put_file''
                                (file_payload name tier version rt) idm no_prov e2)
                         (\<lambda>_ e3. (Inr version, e3))))))"

definition tier_of :: "engine \<Rightarrow> string \<Rightarrow> blobs res" where
  "tier_of e tier = (case map_of (e_blobs e) tier of None \<Rightarrow> Inl KeyError | Some b \<Rightarrow> Inr b)"

definition eng_get_file :: "ext \<Rightarrow> string \<Rightarrow> int \<Rightarrow> string \<Rightarrow> engine \<Rightarrow> string res" where
  "eng_get_file X name version tier e = bindE (tier_of e tier) (\<lambda>b. get_file X b name version)"

definition eng_file_root :: "string \<Rightarrow> int \<Rightarrow> string \<Rightarrow> engine \<Rightarrow> string res" where
  "eng_file_root name version tier e = bindE (tier_of e tier) (\<lambda>b. file_root b name version)"

definition eng_file_proof :: "ext \<Rightarrow> string \<Rightarrow> int \<Rightarrow> int \<Rightarrow> string \<Rightarrow> engine \<Rightarrow>
    (string \<times> (string \<times> string) list \<times> string) res" where
  "eng_file_proof X name idx version tier e =
     bindE (tier_of e tier) (\<lambda>b.
       case map_of (b_files b) name of
         None \<Rightarrow> Inl KeyError
       | Some f \<Rightarrow>
           bindE (py_index (f_versions f) version) (\<lambda>recipe.
           bindE (py_index (f_roots f) version) (\<lambda>rt.
           bindE (py_index recipe idx) (\<lambda>leaf.
           bindE (merkle_proof X recipe idx) (\<lambda>p. Inr (leaf, p, rt))))))"

section \<open>Integrity\<close>

definition eng_verify :: "ext \<Rightarrow> engine \<Rightarrow> bool" where
  "eng_verify X e = log_verify X (e_log e)"

definition eng_head :: "engine \<Rightarrow> string" where
  "eng_head e = l_head (e_log e)"

definition eng_seq :: "engine \<Rightarrow> int" where
  "eng_seq e = int (length (l_ops (e_log e))) - 1"

fun ensure_all :: "(string \<times> string \<times> string) list \<Rightarrow> indexes \<Rightarrow> indexes act" where
  "ensure_all [] ix = (None, ix)"
| "ensure_all ((c, f, k) # cfg) ix = andthen (ix_ensure c f k ix) (ensure_all cfg)"

definition rebuild :: "engine \<Rightarrow> mat act" where
  "rebuild e =
     andthen (on_ix (ensure_all (ix_config (m_ix (e_mat e)))) mat_init)
       (fold_ops False (l_ops (e_log e)))"

definition same_dict :: "(string, doc option) dict \<Rightarrow> (string, doc option) dict \<Rightarrow> bool" where
  \<comment> \<open>\<open>==\<close> of two dicts of documents\<close>
  "same_dict a b \<longleftrightarrow>
     length a = length b \<and>
     list_all (\<lambda>(k, v). case (v, map_of b k) of
         (Some d, Some (Some d')) \<Rightarrow> py_eq (PDict d) (PDict d')
       | (None, Some None) \<Rightarrow> True
       | _ \<Rightarrow> False) a"

definition verify_determinism :: "engine \<Rightarrow> bool res" where
  "verify_determinism e =
     (case rebuild e of
        (Some x, _) \<Rightarrow> Inl x
      | (None, m) \<Rightarrow>
          bindE (mv_snapshot (m_store m) [] None) (\<lambda>a.
          bindE (mv_snapshot (store_of e) [] None) (\<lambda>b. Inr (same_dict a b))))"

end
