(* ===== verification/Nql.thy ===== *)
theory Nql
  imports PyVal
begin

text \<open>
  \<open>nedb.query\<close>: the NQL lexer and parser, the plan they compile to, the comparison used by
  WHERE, and the fluent builder.
\<close>

section \<open>Plans\<close>

record plan =
  q_from :: string
  q_as_of :: "int option"
  q_where :: "(string \<times> string \<times> pyval) list"
  q_search :: "string option"
  q_order :: "(string \<times> string) option"
  q_traverse :: "string option"
  q_limit :: "int option"
  q_group :: "string option"
  q_agg :: "(string \<times> string option) option"
  q_trace :: "string option"
  q_reverse :: bool
  q_valid :: "string option"

definition empty_plan :: "string \<Rightarrow> plan" where
  "empty_plan coll =
     \<lparr> q_from = coll, q_as_of = None, q_where = [], q_search = None, q_order = None,
       q_traverse = None, q_limit = None, q_group = None, q_agg = None, q_trace = None,
       q_reverse = False, q_valid = None \<rparr>"

section \<open>Lexer\<close>

datatype tok =
    TStr string
  | TNum pyval
  | TOp string
  | TKw string
  | TWord string

definition KEYWORDS :: "string list" where
  "KEYWORDS =
     [''from'', ''as'', ''of'', ''where'', ''and'', ''search'', ''order'', ''by'', ''asc'', ''desc'',
      ''traverse'', ''trace'', ''reverse'', ''limit'', ''valid'', ''true'', ''false'', ''null'',
      ''group'', ''count'', ''sum'', ''avg'', ''min'', ''max'']"

definition word_start :: "char \<Rightarrow> bool" where
  "word_start c \<longleftrightarrow> is_lower c \<or> is_upper c \<or> c = CHR ''_''"

definition word_char :: "char \<Rightarrow> bool" where
  "word_char c \<longleftrightarrow> word_start c \<or> is_digit c"

definition word_tok :: "string \<Rightarrow> tok" where
  "word_tok w = (let lw = str_lower w in if lw \<in> set KEYWORDS then TKw lw else TWord w)"

text \<open>The number \<open>-?\d+(\.\d+)?\<close> at the head of the text, and what follows it.\<close>

definition lex_digits :: "string \<Rightarrow> (string \<times> string) option" where
  "lex_digits s =
     (let ds = takeWhile is_digit s in if ds = [] then None else Some (ds, dropWhile is_digit s))"

definition lex_unsigned :: "string \<Rightarrow> (pyval \<times> string) option" where
  "lex_unsigned s =
     (case lex_digits s of
        None \<Rightarrow> None
      | Some (ds, r) \<Rightarrow>
          Some (case (case r of [] \<Rightarrow> None | c # r' \<Rightarrow> if c = CHR ''.'' then lex_digits r' else None) of
                  None \<Rightarrow> (PInt (int (read_nat ds)), r)
                | Some (fs, r2) \<Rightarrow> (PFloat (read_decimal ds fs), r2)))"

fun negate :: "pyval \<Rightarrow> pyval" where
  "negate (PInt i) = PInt (- i)"
| "negate (PFloat q) = PFloat (- q)"
| "negate v = v"

definition lex_number :: "string \<Rightarrow> (pyval \<times> string) option" where
  "lex_number s =
     (case s of
        [] \<Rightarrow> None
      | c # s' \<Rightarrow>
          if c = CHR ''-'' then map_option (\<lambda>(v, r). (negate v, r)) (lex_unsigned s')
          else lex_unsigned s)"

definition lex_op :: "string \<Rightarrow> (string \<times> string) option" where
  "lex_op s =
     (if starts_with ''<='' s then Some (''<='', drop 2 s)
      else if starts_with ''>='' s then Some (''>='', drop 2 s)
      else if starts_with ''!='' s then Some (''!='', drop 2 s)
      else if starts_with ''='' s then Some (''='', drop 1 s)
      else if starts_with ''<'' s then Some (''<'', drop 1 s)
      else if starts_with ''>'' s then Some (''>'', drop 1 s)
      else None)"

definition lex_quoted :: "char \<Rightarrow> string \<Rightarrow> (string \<times> string) option" where
  "lex_quoted q s =
     (case s of
        [] \<Rightarrow> None
      | c # s' \<Rightarrow>
          if c = q then
            (case dropWhile (\<lambda>d. d \<noteq> q) s' of
               [] \<Rightarrow> None
             | _ # r \<Rightarrow> Some (takeWhile (\<lambda>d. d \<noteq> q) s', r))
          else None)"

text \<open>One match of the token expression; white space yields no token.\<close>

definition next_token :: "string \<Rightarrow> (tok option \<times> string) option" where
  "next_token s =
     (if s \<noteq> [] \<and> is_space (hd s) then Some (None, dropWhile is_space s)
      else case lex_quoted (CHR 0x22) s of Some (x, r) \<Rightarrow> Some (Some (TStr x), r)
      | None \<Rightarrow> (case lex_quoted (CHR 0x27) s of Some (x, r) \<Rightarrow> Some (Some (TStr x), r)
      | None \<Rightarrow> (case lex_number s of Some (v, r) \<Rightarrow> Some (Some (TNum v), r)
      | None \<Rightarrow> (case lex_op s of Some (x, r) \<Rightarrow> Some (Some (TOp x), r)
      | None \<Rightarrow>
          if s \<noteq> [] \<and> word_start (hd s) then
            Some (Some (word_tok (takeWhile word_char s)), dropWhile word_char s)
          else None))))"

lemma length_dropWhile_hd: "s \<noteq> [] \<Longrightarrow> P (hd s) \<Longrightarrow> length (dropWhile P s) < length s"
  by (cases s) (auto simp: length_dropWhile_le le_imp_less_Suc)

lemma lex_quoted_shorter: "lex_quoted q s = Some (x, r) \<Longrightarrow> length r < length s"
proof (cases s)
  case (Cons c s')
  assume "lex_quoted q s = Some (x, r)"
  with Cons obtain d where "dropWhile (\<lambda>d. d \<noteq> q) s' = d # r"
    by (auto simp: lex_quoted_def split: if_splits list.splits)
  then have "length (d # r) \<le> length s'" by (metis length_dropWhile_le)
  with Cons show ?thesis by simp
qed (simp add: lex_quoted_def)

lemma lex_digits_shorter: "lex_digits s = Some (x, r) \<Longrightarrow> length r < length s"
  by (cases s) (auto simp: lex_digits_def Let_def length_dropWhile_le le_imp_less_Suc split: if_splits)

lemma lex_unsigned_shorter: "lex_unsigned s = Some (x, r) \<Longrightarrow> length r < length s"
proof -
  assume a: "lex_unsigned s = Some (x, r)"
  then obtain ds r1 where d: "lex_digits s = Some (ds, r1)"
    by (auto simp: lex_unsigned_def split: option.splits)
  note l = lex_digits_shorter[OF d]
  show ?thesis
  proof (cases "case r1 of [] \<Rightarrow> None | c # r' \<Rightarrow> if c = CHR ''.'' then lex_digits r' else None")
    case None
    with a d l show ?thesis by (simp add: lex_unsigned_def)
  next
    case (Some p)
    then obtain r' where r': "r1 = CHR ''.'' # r'" "lex_digits r' = Some p"
      by (auto split: list.splits if_splits)
    with a d Some lex_digits_shorter[of r' "fst p" r] have "length r < length r'"
      by (cases p) (simp add: lex_unsigned_def)
    with r' l show ?thesis by simp
  qed
qed

lemma lex_number_shorter: "lex_number s = Some (x, r) \<Longrightarrow> length r < length s"
  by (auto simp: lex_number_def dest: lex_unsigned_shorter
      split: list.splits if_splits)

lemma lex_op_shorter: "lex_op s = Some (x, r) \<Longrightarrow> length r < length s"
  by (cases s) (auto simp: lex_op_def starts_with_def split: if_splits)

lemma next_token_shorter: "next_token s = Some (t, r) \<Longrightarrow> length r < length s"
  using length_dropWhile_hd[of s is_space] length_dropWhile_hd[of s word_char]
  by (auto simp: next_token_def word_char_def split: if_splits option.splits
      dest: lex_quoted_shorter lex_number_shorter lex_op_shorter)

function nql_lex :: "string \<Rightarrow> tok list res" where
  "nql_lex s =
     (if s = [] then Inr []
      else case next_token s of
             None \<Rightarrow> Inl SyntaxErr
           | Some p \<Rightarrow>
               bindE (nql_lex (snd p)) (\<lambda>ts. Inr (case fst p of None \<Rightarrow> ts | Some t \<Rightarrow> t # ts)))"
  by pat_completeness auto
termination
  by (relation "measure length") (auto dest: next_token_shorter)

declare nql_lex.simps [simp del]

section \<open>Parser\<close>

text \<open>
  The parser's position is the list of tokens that remain; a clause is entered when its keyword
  is next.
\<close>

fun tok_name :: "tok \<Rightarrow> string option" where
  "tok_name (TWord w) = Some w"
| "tok_name (TKw k) = Some k"
| "tok_name _ = None"

definition name_tok :: "tok list \<Rightarrow> (string \<times> tok list) res" where
  "name_tok ts =
     (case ts of
        [] \<Rightarrow> Inl SyntaxErr
      | t # r \<Rightarrow> (case tok_name t of None \<Rightarrow> Inl SyntaxErr | Some n \<Rightarrow> Inr (n, r)))"

definition at_kw :: "string \<Rightarrow> tok list \<Rightarrow> bool" where
  "at_kw k ts = (case ts of t # _ \<Rightarrow> t = TKw k | [] \<Rightarrow> False)"

definition expect_kw :: "string \<Rightarrow> tok list \<Rightarrow> tok list res" where
  "expect_kw k ts = (if at_kw k ts then Inr (tl ts) else Inl SyntaxErr)"

fun value_of :: "tok \<Rightarrow> pyval option" where
  "value_of (TNum v) = Some v"
| "value_of (TStr s) = Some (PStr s)"
| "value_of (TKw k) =
     (if k = ''true'' then Some (PBool True)
      else if k = ''false'' then Some (PBool False)
      else if k = ''null'' then Some PNone
      else None)"
| "value_of (TWord w) = Some (PStr w)"
| "value_of (TOp _) = None"

definition py_int :: "pyval \<Rightarrow> int" where
  \<comment> \<open>\<open>int(v)\<close> of a number token: truncation\<close>
  "py_int v = (case v of PInt i \<Rightarrow> i | PFloat q \<Rightarrow> if q < 0 then \<lceil>q\<rceil> else \<lfloor>q\<rfloor> | _ \<Rightarrow> 0)"

type_synonym 'a parse = "('a \<times> tok list) res"

fun num_tok :: "tok list \<Rightarrow> int parse" where
  "num_tok (TNum v # r) = Inr (py_int v, r)"
| "num_tok _ = Inl SyntaxErr"

fun str_tok :: "tok list \<Rightarrow> string parse" where
  "str_tok (TStr s # r) = Inr (s, r)"
| "str_tok _ = Inl SyntaxErr"

definition clause :: "string \<Rightarrow> (tok list \<Rightarrow> 'a parse) \<Rightarrow> 'a \<Rightarrow> tok list \<Rightarrow> 'a parse" where
  \<comment> \<open>\<open>if peek() == ("kw", k): i += 1; ...\<close>\<close>
  "clause k body old ts = (if at_kw k ts then body (tl ts) else Inr (old, ts))"

definition cl_as_of :: "plan \<Rightarrow> tok list \<Rightarrow> plan parse" where
  "cl_as_of p = clause ''as'' (\<lambda>ts.
     bindE (expect_kw ''of'' ts) (\<lambda>ts. bindE (num_tok ts) (\<lambda>(n, ts). Inr (p\<lparr> q_as_of := Some n \<rparr>, ts)))) p"

definition cl_valid :: "plan \<Rightarrow> tok list \<Rightarrow> plan parse" where
  "cl_valid p = clause ''valid'' (\<lambda>ts.
     (let ts = (if at_kw ''as'' ts then tl ts else ts);
          ts = (if at_kw ''of'' ts then tl ts else ts)
      in bindE (str_tok ts) (\<lambda>(d, ts). Inr (p\<lparr> q_valid := Some d \<rparr>, ts)))) p"

fun tok_is :: "string \<Rightarrow> tok \<Rightarrow> bool" where
  \<comment> \<open>\<open>tok[1] == k\<close>, whatever the kind of the token\<close>
  "tok_is k (TStr s) = (s = k)"
| "tok_is k (TNum v) = False"
| "tok_is k (TOp s) = (s = k)"
| "tok_is k (TKw s) = (s = k)"
| "tok_is k (TWord s) = (s = k)"

definition skip_text :: "string \<Rightarrow> tok list \<Rightarrow> tok list" where
  "skip_text k ts = (case ts of [] \<Rightarrow> [] | t # r \<Rightarrow> if tok_is k t then r else t # r)"

definition cl_valid2 :: "plan \<Rightarrow> tok list \<Rightarrow> plan parse" where
  "cl_valid2 p ts =
     (if at_kw ''valid'' ts \<and> q_valid p = None then
        bindE (str_tok (skip_text ''of'' (skip_text ''as'' (tl ts))))
          (\<lambda>(d, ts). Inr (p\<lparr> q_valid := Some d \<rparr>, ts))
      else Inr (p, ts))"

function where_loop :: "tok list \<Rightarrow> (string \<times> string \<times> pyval) list parse" where
  "where_loop ts =
     (case ts of
        [] \<Rightarrow> Inl SyntaxErr
      | f # ts1 \<Rightarrow>
          (case tok_name f of
             None \<Rightarrow> Inl SyntaxErr
           | Some field \<Rightarrow>
               (case ts1 of
                  TOp op # t # ts3 \<Rightarrow>
                    (case value_of t of
                       None \<Rightarrow> Inl SyntaxErr
                     | Some v \<Rightarrow>
                         if at_kw ''and'' ts3 then
                           bindE (where_loop (tl ts3)) (\<lambda>(ws, r). Inr ((field, op, v) # ws, r))
                         else Inr ([(field, op, v)], ts3))
                | _ \<Rightarrow> Inl SyntaxErr)))"
  by pat_completeness auto
termination
  by (relation "measure length") (auto simp: less_Suc_eq_le le_SucI)

declare where_loop.simps [simp del]

definition cl_where :: "plan \<Rightarrow> tok list \<Rightarrow> plan parse" where
  "cl_where p = clause ''where'' (\<lambda>ts.
     bindE (where_loop ts) (\<lambda>(ws, ts). Inr (p\<lparr> q_where := q_where p @ ws \<rparr>, ts))) p"

definition cl_search :: "plan \<Rightarrow> tok list \<Rightarrow> plan parse" where
  "cl_search p = clause ''search'' (\<lambda>ts.
     bindE (str_tok ts) (\<lambda>(s, ts). Inr (p\<lparr> q_search := Some s \<rparr>, ts))) p"

definition cl_order :: "plan \<Rightarrow> tok list \<Rightarrow> plan parse" where
  "cl_order p = clause ''order'' (\<lambda>ts.
     bindE (expect_kw ''by'' ts) (\<lambda>ts. bindE (name_tok ts) (\<lambda>(f, ts).
       if at_kw ''asc'' ts then Inr (p\<lparr> q_order := Some (f, ''ASC'') \<rparr>, tl ts)
       else if at_kw ''desc'' ts then Inr (p\<lparr> q_order := Some (f, ''DESC'') \<rparr>, tl ts)
       else Inr (p\<lparr> q_order := Some (f, ''ASC'') \<rparr>, ts)))) p"

definition cl_traverse :: "plan \<Rightarrow> tok list \<Rightarrow> plan parse" where
  "cl_traverse p = clause ''traverse'' (\<lambda>ts.
     bindE (name_tok ts) (\<lambda>(r, ts). Inr (p\<lparr> q_traverse := Some r \<rparr>, ts))) p"

definition cl_trace :: "plan \<Rightarrow> tok list \<Rightarrow> plan parse" where
  "cl_trace p = clause ''trace'' (\<lambda>ts.
     bindE (name_tok ts) (\<lambda>(f, ts).
       if at_kw ''reverse'' ts then Inr (p\<lparr> q_trace := Some f, q_reverse := True \<rparr>, tl ts)
       else Inr (p\<lparr> q_trace := Some f \<rparr>, ts))) p"

definition cl_limit :: "plan \<Rightarrow> tok list \<Rightarrow> plan parse" where
  "cl_limit p = clause ''limit'' (\<lambda>ts.
     bindE (num_tok ts) (\<lambda>(n, ts). Inr (p\<lparr> q_limit := Some n \<rparr>, ts))) p"

definition AGGS :: "string list" where
  "AGGS = [''count'', ''sum'', ''avg'', ''min'', ''max'']"

definition cl_group :: "plan \<Rightarrow> tok list \<Rightarrow> plan parse" where
  "cl_group p = clause ''group'' (\<lambda>ts.
     bindE (expect_kw ''by'' ts) (\<lambda>ts. bindE (name_tok ts) (\<lambda>(f, ts).
       (let p = p\<lparr> q_group := Some f \<rparr> in
        case ts of
          TKw agg # r \<Rightarrow>
            if agg \<notin> set AGGS then Inr (p, ts)
            else if agg = ''count'' then Inr (p\<lparr> q_agg := Some (''count'', None) \<rparr>, r)
            else bindE (name_tok r) (\<lambda>(af, r). Inr (p\<lparr> q_agg := Some (agg, Some af) \<rparr>, r))
        | _ \<Rightarrow> Inr (p, ts))))) p"

definition parse_toks :: "tok list \<Rightarrow> plan res" where
  "parse_toks ts =
     bindE (expect_kw ''from'' ts) (\<lambda>ts.
     bindE (name_tok ts) (\<lambda>(coll, ts).
     bindE (cl_as_of (empty_plan coll) ts) (\<lambda>(p, ts).
     bindE (cl_valid p ts) (\<lambda>(p, ts).
     bindE (cl_where p ts) (\<lambda>(p, ts).
     bindE (cl_valid2 p ts) (\<lambda>(p, ts).
     bindE (cl_search p ts) (\<lambda>(p, ts).
     bindE (cl_order p ts) (\<lambda>(p, ts).
     bindE (cl_traverse p ts) (\<lambda>(p, ts).
     bindE (cl_trace p ts) (\<lambda>(p, ts).
     bindE (cl_limit p ts) (\<lambda>(p, ts).
     bindE (cl_group p ts) (\<lambda>(p, ts).
       if ts \<noteq> [] then Inl SyntaxErr else Inr p))))))))))))"

definition parse_nql :: "string \<Rightarrow> plan res" where
  "parse_nql text = bindE (nql_lex text) parse_toks"

section \<open>Comparison\<close>

definition or_false :: "bool option \<Rightarrow> bool" where
  \<comment> \<open>\<open>except TypeError: return False\<close>\<close>
  "or_false x = (case x of None \<Rightarrow> False | Some b \<Rightarrow> b)"

definition nql_cmp :: "pyval \<Rightarrow> string \<Rightarrow> pyval \<Rightarrow> bool" where
  "nql_cmp a op b =
     (if op = ''='' then py_eq a b
      else if op = ''!='' then \<not> py_eq a b
      else if a = PNone then False
      else if op = ''<'' then or_false (py_lt a b)
      else if op = ''<='' then or_false (py_le a b)
      else if op = ''>'' then or_false (py_lt b a)
      else if op = ''>='' then or_false (py_le b a)
      else False)"

section \<open>The fluent builder\<close>

definition b_as_of :: "int \<Rightarrow> plan \<Rightarrow> plan" where
  "b_as_of n p = p\<lparr> q_as_of := Some n \<rparr>"

definition b_where :: "string \<Rightarrow> string \<Rightarrow> pyval \<Rightarrow> plan \<Rightarrow> plan" where
  "b_where f op v p = p\<lparr> q_where := q_where p @ [(f, op, v)] \<rparr>"

definition b_search :: "string \<Rightarrow> plan \<Rightarrow> plan" where
  "b_search t p = p\<lparr> q_search := Some t \<rparr>"

definition b_order_by :: "string \<Rightarrow> bool \<Rightarrow> plan \<Rightarrow> plan" where
  "b_order_by f desc p = p\<lparr> q_order := Some (f, if desc then ''DESC'' else ''ASC'') \<rparr>"

definition b_traverse :: "string \<Rightarrow> plan \<Rightarrow> plan" where
  "b_traverse r p = p\<lparr> q_traverse := Some r \<rparr>"

definition b_limit :: "int \<Rightarrow> plan \<Rightarrow> plan" where
  "b_limit n p = p\<lparr> q_limit := Some n \<rparr>"

end
