(* ===== verification/Execute.thy ===== *)
theory Execute
  imports Engine Nql
begin

text \<open>
  \<open>NEDB.execute\<close> of \<open>nedb.engine\<close>: the interpreter of query plans.  Its stages are the
  blocks of the method in their order: candidate keys, load and filter, ORDER BY, TRAVERSE,
  TRACE, LIMIT, VALID AS OF, GROUP BY.  The engine is only read.
\<close>

lemma bindE_cong [fundef_cong]:
  "m = m' \<Longrightarrow> (\<And>x. m' = Inr x \<Longrightarrow> f x = g x) \<Longrightarrow> bindE m f = bindE m' g"
  by (cases m') auto

type_synonym row = "string \<times> doc"

section \<open>Candidates\<close>

definition search_text :: "plan \<Rightarrow> string option" where
  \<comment> \<open>\<open>if search\<close>: the empty text counts as none\<close>
  "search_text p = (case q_search p of None \<Rightarrow> None | Some s \<Rightarrow> if s = [] then None else Some s)"

definition search_keys :: "indexes \<Rightarrow> string \<Rightarrow> string \<Rightarrow> string set option" where
  "search_keys ix coll text =
     (let fs = search_fields ix coll;
          per_term = map (\<lambda>t. \<Union> (set (map (\<lambda>f. search_lookup ix coll f t) fs))) (tokenize text)
      in if fs = [] then None
         else Some (case per_term of [] \<Rightarrow> {} | s # ss \<Rightarrow> fold (\<inter>) ss s))"

fun eq_candidates :: "indexes \<Rightarrow> string \<Rightarrow> (string \<times> string \<times> pyval) list \<Rightarrow> string set option res" where
  "eq_candidates ix coll [] = Inr None"
| "eq_candidates ix coll ((f, op, v) # ws) =
     (if op = ''='' \<and> has_eq ix coll f then bindE (eq_lookup ix coll f v) (\<lambda>s. Inr (Some s))
      else eq_candidates ix coll ws)"

definition candidates :: "plan \<Rightarrow> engine \<Rightarrow> string set res" where
  "candidates p e =
     (let ix = m_ix (e_mat e); coll = q_from p;
          c1 = (case search_text p of None \<Rightarrow> None | Some t \<Rightarrow> search_keys ix coll t)
      in bindE (if c1 = None \<and> q_as_of p = None then eq_candidates ix coll (q_where p) else Inr c1) (\<lambda>c2.
           case c2 of
             Some s \<Rightarrow> Inr s
           | None \<Rightarrow> bindE (mv_keys (store_of e) (coll @ '':'') (q_as_of p)) (\<lambda>ks. Inr (set ks))))"

section \<open>Load and filter\<close>

definition where_ok :: "(string \<times> string \<times> pyval) list \<Rightarrow> doc \<Rightarrow> bool" where
  "where_ok ws d \<longleftrightarrow> list_all (\<lambda>(f, op, v). nql_cmp (doc_get d f) op v) ws"

fun str_join :: "string \<Rightarrow> string list \<Rightarrow> string" where
  "str_join sep [] = []"
| "str_join sep [s] = s"
| "str_join sep (s # t # ss) = s @ sep @ str_join sep (t # ss)"

definition blob_ok :: "ext \<Rightarrow> plan \<Rightarrow> engine \<Rightarrow> doc \<Rightarrow> bool" where
  \<comment> \<open>the text search of a collection without a search index\<close>
  "blob_ok X p e d =
     (case search_text p of
        None \<Rightarrow> True
      | Some t \<Rightarrow>
          search_fields (m_ix (e_mat e)) (q_from p) \<noteq> [] \<or>
          list_all (\<lambda>t. str_find t (str_lower (str_join '' '' (map (\<lambda>(k, v). py_str X v) d))))
            (tokenize t))"

fun load_rows :: "ext \<Rightarrow> plan \<Rightarrow> engine \<Rightarrow> string list \<Rightarrow> row list res" where
  "load_rows X p e [] = Inr []"
| "load_rows X p e (k # ks) =
     bindE (mv_get (store_of e) k (q_as_of p)) (\<lambda>x.
     bindE (load_rows X p e ks) (\<lambda>rs.
       Inr (case x of
              None \<Rightarrow> rs
            | Some d \<Rightarrow> if where_ok (q_where p) d \<and> blob_ok X p e d then (k, d) # rs else rs)))"

section \<open>ORDER BY\<close>

text \<open>
  A stable sort whose comparison may raise.  \<open>list.sort\<close> compares every two neighbours of
  its result, and comparability of values is transitive along such a chain, so it raises
  exactly when two keys are not comparable; insertion does the same.
\<close>

fun insort_by :: "('a \<Rightarrow> 'a \<Rightarrow> bool option) \<Rightarrow> 'a \<Rightarrow> 'a list \<Rightarrow> 'a list res" where
  "insort_by lt x [] = Inr [x]"
| "insort_by lt x (y # ys) =
     (case lt y x of
        None \<Rightarrow> Inl TypeErr
      | Some True \<Rightarrow> bindE (insort_by lt x ys) (\<lambda>r. Inr (y # r))
      | Some False \<Rightarrow> Inr (x # y # ys))"

fun sort_by :: "('a \<Rightarrow> 'a \<Rightarrow> bool option) \<Rightarrow> 'a list \<Rightarrow> 'a list res" where
  "sort_by lt [] = Inr []"
| "sort_by lt (x # xs) = bindE (sort_by lt xs) (insort_by lt x)"

definition sort_dir :: "bool \<Rightarrow> ('a \<Rightarrow> 'a \<Rightarrow> bool option) \<Rightarrow> 'a list \<Rightarrow> 'a list res" where
  \<comment> \<open>\<open>reverse=True\<close> sorts the reversed list and reverses the result\<close>
  "sort_dir rv lt xs =
     (if rv then bindE (sort_by lt (rev xs)) (\<lambda>r. Inr (rev r)) else sort_by lt xs)"

definition key_lt :: "pyval \<Rightarrow> pyval \<Rightarrow> bool option" where
  \<comment> \<open>\<open><\<close> of the pairs \<open>(v is None, v)\<close>\<close>
  "key_lt a b =
     (if a = PNone \<or> b = PNone then Some (a \<noteq> PNone \<and> b = PNone)
      else if py_eq a b then Some False
      else py_lt a b)"

definition order_rows :: "ext \<Rightarrow> plan \<Rightarrow> row list \<Rightarrow> row list res" where
  \<comment> \<open>after a \<open>TypeError\<close> the rows are sorted by the text of the field; rows of equal text
    are left in the order they were loaded in\<close>
  "order_rows X p rows =
     (case q_order p of
        None \<Rightarrow> Inr rows
      | Some (f, dir) \<Rightarrow>
          (case sort_dir (dir = ''DESC'') (\<lambda>a b. key_lt (doc_get (snd a) f) (doc_get (snd b) f)) rows of
             Inr r \<Rightarrow> Inr r
           | Inl _ \<Rightarrow>
               sort_dir (dir = ''DESC'')
                 (\<lambda>a b. Some (py_str X (doc_get (snd a) f) < py_str X (doc_get (snd b) f))) rows))"

section \<open>TRAVERSE\<close>

fun trav_nbs :: "plan \<Rightarrow> engine \<Rightarrow> string list \<Rightarrow> string list \<Rightarrow> (row list \<times> string list) res" where
  "trav_nbs p e [] seen = Inr ([], seen)"
| "trav_nbs p e (nb # nbs) seen =
     (if nb \<in> set seen then trav_nbs p e nbs seen
      else
        bindE (mv_get (store_of e) nb (q_as_of p)) (\<lambda>x.
        bindE (trav_nbs p e nbs (nb # seen)) (\<lambda>(rs, seen').
          Inr (case x of None \<Rightarrow> rs | Some d \<Rightarrow> (nb, d) # rs, seen'))))"

fun trav_rows :: "plan \<Rightarrow> engine \<Rightarrow> string \<Rightarrow> string list \<Rightarrow> string list \<Rightarrow> row list res" where
  "trav_rows p e r [] seen = Inr []"
| "trav_rows p e r (k # ks) seen =
     bindE (trav_nbs p e (eng_neighbors k r (q_as_of p) e) seen) (\<lambda>(rs, seen').
     bindE (trav_rows p e r ks seen') (\<lambda>rest. Inr (rs @ rest)))"

definition traverse_rows :: "plan \<Rightarrow> engine \<Rightarrow> row list \<Rightarrow> row list res" where
  "traverse_rows p e rows =
     (case q_traverse p of
        None \<Rightarrow> Inr rows
      | Some r \<Rightarrow> if r = [] then Inr rows else trav_rows p e r (map fst rows) [])"

section \<open>TRACE\<close>

definition op_key :: "oprec \<Rightarrow> string res" where
  \<comment> \<open>\<open>op.payload.get("key", "")\<close>\<close>
  "op_key r = as_str (dget (o_payload r) ''key'' (PStr []))"

definition iter_causes :: "doc \<Rightarrow> pyval list res" where
  \<comment> \<open>\<open>doc.get("_caused_by") or []\<close> as an iterable\<close>
  "iter_causes d =
     (let v = doc_get d ''_caused_by'' in
      if \<not> py_truth v then Inr []
      else case v of
             PList xs \<Rightarrow> Inr xs
           | PStr s \<Rightarrow> Inr (map (\<lambda>c. PStr [c]) s)
           | PDict kvs \<Rightarrow> Inr (map (\<lambda>(k, _). PStr k) kvs)
           | _ \<Rightarrow> Inl TypeErr)"

definition cause_index :: "pyval \<Rightarrow> int \<Rightarrow> int option res" where
  \<comment> \<open>the index used when \<open>v < n\<close>\<close>
  "cause_index v n =
     (case py_lt v (PInt n) of
        None \<Rightarrow> Inl TypeErr
      | Some False \<Rightarrow> Inr None
      | Some True \<Rightarrow>
          (case v of
             PInt i \<Rightarrow> Inr (Some i)
           | PBool b \<Rightarrow> Inr (Some (if b then 1 else 0))
           | _ \<Rightarrow> Inl TypeErr))"

definition cause_row :: "oplog \<Rightarrow> doc mvcc \<Rightarrow> pyval \<Rightarrow> row option res" where
  \<comment> \<open>the document version a cause names, if it names one\<close>
  "cause_row l st v =
     bindE (cause_index v (int (length (l_ops l)))) (\<lambda>i. case i of
       None \<Rightarrow> Inr None
     | Some i \<Rightarrow>
         bindE (py_index (l_ops l) i) (\<lambda>r.
           if o_op r = ''put'' then
             bindE (op_key r) (\<lambda>k. bindE (mv_get st k (Some i)) (\<lambda>x. Inr (map_option (Pair k) x)))
           else Inr None))"

fun trace_causes :: "oplog \<Rightarrow> doc mvcc \<Rightarrow> pyval list \<Rightarrow> hkey set \<Rightarrow> (row list \<times> hkey set) res" where
  "trace_causes l st [] vis = Inr ([], vis)"
| "trace_causes l st (v # vs) vis =
     bindE (hash_key v) (\<lambda>h.
       if h \<in> vis then trace_causes l st vs vis
       else
         bindE (cause_row l st v) (\<lambda>x.
         bindE (trace_causes l st vs (insert h vis)) (\<lambda>(rs, vis').
           Inr (case x of None \<Rightarrow> rs | Some r \<Rightarrow> r # rs, vis'))))"

text \<open>
  The hash keys that can still yield a row: the integers that index the log.  A row is found
  only by visiting one of them, so the walk ends.
\<close>

definition cause_keys :: "oplog \<Rightarrow> hkey set" where
  "cause_keys l = (\<lambda>i. HNum (of_int i)) ` {- int (length (l_ops l)) ..< int (length (l_ops l))}"

lemma finite_cause_keys [simp]: "finite (cause_keys l)"
  by (simp add: cause_keys_def)

lemma cause_row_key:
  assumes "cause_row l st v = Inr (Some r)" "hash_key v = Inr h"
  shows "h \<in> cause_keys l"
proof -
  from assms(1) obtain i where i: "cause_index v (int (length (l_ops l))) = Inr (Some i)"
    and p: "\<exists>r. py_index (l_ops l) i = Inr r"
    by (auto simp: cause_row_def bindE_eq_Inr split: option.splits)
  from i assms(2) have "h = HNum (of_int i)"
    by (cases v) (auto simp: cause_index_def split: option.splits bool.splits if_splits)
  moreover from p have "i \<in> {- int (length (l_ops l)) ..< int (length (l_ops l))}"
    by (auto simp: py_index_def Let_def split: if_splits)
  ultimately show ?thesis by (simp add: cause_keys_def)
qed

lemma trace_causes_grows:
  "trace_causes l st vs vis = Inr (rs, vis') \<Longrightarrow>
   vis \<subseteq> vis' \<and> (rs \<noteq> [] \<longrightarrow> (\<exists>h. h \<in> cause_keys l \<and> h \<in> vis' \<and> h \<notin> vis))"
proof (induction vs arbitrary: vis rs vis')
  case (Cons v vs)
  from Cons.prems obtain h where h: "hash_key v = Inr h" by (auto simp: bindE_eq_Inr)
  show ?case
  proof (cases "h \<in> vis")
    case True
    with Cons h show ?thesis by simp
  next
    case False
    with Cons.prems h obtain x rs1 where x: "cause_row l st v = Inr x"
      and t: "trace_causes l st vs (insert h vis) = Inr (rs1, vis')"
      and rs: "rs = (case x of None \<Rightarrow> rs1 | Some r \<Rightarrow> r # rs1)"
      by (auto simp: bindE_eq_Inr)
    note ih = Cons.IH[OF t]
    show ?thesis
    proof (cases x)
      case None
      with ih rs show ?thesis by auto
    next
      case (Some r)
      with x cause_row_key[OF _ h] have "h \<in> cause_keys l" by simp
      with ih False show ?thesis by blast
    qed
  qed
qed simp

text \<open>The frontier is a stack: \<open>pop\<close> takes what was appended last.\<close>

function trace_back :: "oplog \<Rightarrow> doc mvcc \<Rightarrow> doc list \<Rightarrow> hkey set \<Rightarrow> row list res" where
  "trace_back l st [] vis = Inr []"
| "trace_back l st (d # fr) vis =
     bindE (iter_causes d) (\<lambda>cs.
     bindE (trace_causes l st cs vis) (\<lambda>(rs, vis').
     bindE (trace_back l st (rev (map snd rs) @ fr) vis') (\<lambda>rest. Inr (rs @ rest))))"
  by pat_completeness auto
termination
proof (relation "measures [\<lambda>(l, st, fr, vis). card (cause_keys l - vis), \<lambda>(l, st, fr, vis). length fr]")
  fix l st d fr vis cs y rs vis'
  assume t: "trace_causes l st cs vis = Inr y" "(rs, vis') = y"
  note g = trace_causes_grows[OF t(1)[folded t(2)]]
  show "((l, st, rev (map snd rs) @ fr, vis'), (l, st, d # fr, vis))
    \<in> measures [\<lambda>(l, st, fr, vis). card (cause_keys l - vis), \<lambda>(l, st, fr, vis). length fr]"
  proof (cases "rs = []")
    case True
    moreover have "card (cause_keys l - vis') \<le> card (cause_keys l - vis)"
      by (rule card_mono) (use g in auto)
    ultimately show ?thesis by auto
  next
    case False
    with g have "cause_keys l - vis' \<subset> cause_keys l - vis" by blast
    then have "card (cause_keys l - vis') < card (cause_keys l - vis)"
      by (intro psubset_card_mono) simp_all
    then show ?thesis by simp
  qed
qed simp

fun last_put :: "oprec list \<Rightarrow> string \<Rightarrow> int option" where
  \<comment> \<open>the first hit of \<open>reversed(ops)\<close>, the operations given newest first\<close>
  "last_put [] key = None"
| "last_put (r # rs) key =
     (if o_op r = ''put'' \<and> doc_get (o_payload r) ''key'' = PStr key then Some (o_seq r)
      else last_put rs key)"

definition trace_queue :: "ext \<Rightarrow> plan \<Rightarrow> oplog \<Rightarrow> doc list \<Rightarrow> int list" where
  "trace_queue X p l ds =
     List.map_filter (\<lambda>d.
       (let i = doc_get d ''_id'' in
        if i = PNone then None
        else last_put (rev (l_ops l)) (q_from p @ '':'' @ py_str X i))) ds"

definition dep_row :: "oplog \<Rightarrow> doc mvcc \<Rightarrow> int option \<Rightarrow> int \<Rightarrow> row option res" where
  "dep_row l st as_of q =
     (if q < int (length (l_ops l)) then
        bindE (py_index (l_ops l) q) (\<lambda>r.
          if o_op r = ''put'' then
            bindE (op_key r) (\<lambda>k. bindE (mv_get st k as_of) (\<lambda>x. Inr (map_option (Pair k) x)))
          else Inr None)
      else Inr None)"

fun trace_deps :: "oplog \<Rightarrow> doc mvcc \<Rightarrow> int option \<Rightarrow> int list \<Rightarrow> int set \<Rightarrow>
    ((int \<times> row) list \<times> int set) res" where
  "trace_deps l st as_of [] vis = Inr ([], vis)"
| "trace_deps l st as_of (q # qs) vis =
     (if q \<in> vis then trace_deps l st as_of qs vis
      else
        bindE (dep_row l st as_of q) (\<lambda>x.
        bindE (trace_deps l st as_of qs (insert q vis)) (\<lambda>(rs, vis').
          Inr (case x of None \<Rightarrow> rs | Some r \<Rightarrow> (q, r) # rs, vis'))))"

definition dep_keys :: "oplog \<Rightarrow> int set" where
  "dep_keys l = {- int (length (l_ops l)) ..< int (length (l_ops l))}"

lemma dep_row_key: "dep_row l st as_of q = Inr (Some r) \<Longrightarrow> q \<in> dep_keys l"
  by (auto simp: dep_row_def dep_keys_def bindE_eq_Inr py_index_def Let_def split: if_splits)

lemma trace_deps_grows:
  "trace_deps l st as_of qs vis = Inr (rs, vis') \<Longrightarrow>
   vis \<subseteq> vis' \<and> (rs \<noteq> [] \<longrightarrow> (\<exists>q. q \<in> dep_keys l \<and> q \<in> vis' \<and> q \<notin> vis))"
proof (induction qs arbitrary: vis rs vis')
  case (Cons q qs)
  show ?case
  proof (cases "q \<in> vis")
    case True
    with Cons show ?thesis by simp
  next
    case False
    with Cons.prems obtain x rs1 where x: "dep_row l st as_of q = Inr x"
      and t: "trace_deps l st as_of qs (insert q vis) = Inr (rs1, vis')"
      and rs: "rs = (case x of None \<Rightarrow> rs1 | Some r \<Rightarrow> (q, r) # rs1)"
      by (auto simp: bindE_eq_Inr)
    note ih = Cons.IH[OF t]
    show ?thesis
    proof (cases x)
      case None
      with ih rs show ?thesis by auto
    next
      case (Some r)
      with x dep_row_key have "q \<in> dep_keys l" by simp
      with ih False show ?thesis by blast
    qed
  qed
qed simp

function trace_fwd :: "oplog \<Rightarrow> doc mvcc \<Rightarrow> (int, int list) dict \<Rightarrow> int option \<Rightarrow> int list \<Rightarrow>
    int set \<Rightarrow> row list res" where
  "trace_fwd l st cm as_of [] vis = Inr []"
| "trace_fwd l st cm as_of (q # qu) vis =
     bindE (trace_deps l st as_of (dget cm q []) vis) (\<lambda>(rs, vis').
     bindE (trace_fwd l st cm as_of (qu @ map fst rs) vis') (\<lambda>rest. Inr (map snd rs @ rest)))"
  by pat_completeness auto
termination
proof (relation "measures [\<lambda>(l, st, cm, a, qu, vis). card (dep_keys l - vis),
    \<lambda>(l, st, cm, a, qu, vis). length qu]")
  fix l st as_of qu vis y rs vis' and cm :: "(int, int list) dict" and q :: int
  assume t: "trace_deps l st as_of (dget cm q []) vis = Inr y" "(rs, vis') = y"
  note g = trace_deps_grows[OF t(1)[folded t(2)]]
  show "((l, st, cm, as_of, qu @ map fst rs, vis'), (l, st, cm, as_of, q # qu, vis))
    \<in> measures [\<lambda>(l, st, cm, a, qu, vis). card (dep_keys l - vis),
        \<lambda>(l, st, cm, a, qu, vis). length qu]"
  proof (cases "rs = []")
    case True
    moreover have "card (dep_keys l - vis') \<le> card (dep_keys l - vis)"
      by (rule card_mono) (use g in \<open>auto simp: dep_keys_def\<close>)
    ultimately show ?thesis by auto
  next
    case False
    with g have "dep_keys l - vis' \<subset> dep_keys l - vis" by blast
    then have "card (dep_keys l - vis') < card (dep_keys l - vis)"
      by (intro psubset_card_mono) (simp_all add: dep_keys_def)
    then show ?thesis by simp
  qed
qed simp

definition trace_rows :: "ext \<Rightarrow> plan \<Rightarrow> engine \<Rightarrow> row list \<Rightarrow> row list res" where
  "trace_rows X p e rows =
     (case q_trace p of
        None \<Rightarrow> Inr rows
      | Some t \<Rightarrow>
          if t = [] then Inr rows
          else if \<not> q_reverse p then trace_back (e_log e) (store_of e) (rev (map snd rows)) {}
          else trace_fwd (e_log e) (store_of e) (m_causes (e_mat e)) (q_as_of p)
                 (trace_queue X p (e_log e) (map snd rows)) {})"

section \<open>LIMIT and VALID AS OF\<close>

definition py_take :: "int option \<Rightarrow> 'a list \<Rightarrow> 'a list" where
  \<comment> \<open>\<open>rows[:n]\<close>\<close>
  "py_take n xs =
     (case n of
        None \<Rightarrow> xs
      | Some i \<Rightarrow> take (nat (if i < 0 then int (length xs) + i else i)) xs)"

definition valid_rows :: "plan \<Rightarrow> row list \<Rightarrow> row list res" where
  "valid_rows p rows =
     (case q_valid p of
        None \<Rightarrow> Inr rows
      | Some date \<Rightarrow> if date = [] then Inr rows else filterE (\<lambda>(k, d). valid_at d date) rows)"

section \<open>GROUP BY\<close>

fun group_add :: "pyval \<Rightarrow> hkey \<Rightarrow> doc \<Rightarrow> (hkey \<times> pyval \<times> doc list) list \<Rightarrow> (hkey \<times> pyval \<times> doc list) list" where
  \<comment> \<open>\<open>groups.setdefault(gkey, []).append(d)\<close>: the first value of a key stays\<close>
  "group_add v h d [] = [(h, v, [d])]"
| "group_add v h d ((h', v', ds) # gs) =
     (if h = h' then (h', v', ds @ [d]) # gs else (h', v', ds) # group_add v h d gs)"

fun group_docs :: "string \<Rightarrow> doc list \<Rightarrow> (hkey \<times> pyval \<times> doc list) list \<Rightarrow>
    (hkey \<times> pyval \<times> doc list) list res" where
  "group_docs f [] gs = Inr gs"
| "group_docs f (d # ds) gs =
     bindE (hash_key (doc_get d f)) (\<lambda>h. group_docs f ds (group_add (doc_get d f) h d gs))"

fun py_add :: "pyval \<Rightarrow> pyval \<Rightarrow> pyval" where
  \<comment> \<open>\<open>+\<close> of two numbers\<close>
  "py_add (PFloat a) b = PFloat (fl (a + fl (case num_of b of None \<Rightarrow> 0 | Some q \<Rightarrow> q)))"
| "py_add a (PFloat b) = PFloat (fl (fl (case num_of a of None \<Rightarrow> 0 | Some q \<Rightarrow> q) + b))"
| "py_add a b = PInt (\<lfloor>(case num_of a of None \<Rightarrow> 0 | Some q \<Rightarrow> q) + (case num_of b of None \<Rightarrow> 0 | Some q \<Rightarrow> q)\<rfloor>)"

definition py_sum :: "pyval list \<Rightarrow> pyval" where
  \<comment> \<open>\<open>sum(nums)\<close>, from left to right; the compensated summation that newer interpreters use
    for floats is not modelled\<close>
  "py_sum = foldl py_add (PInt 0)"

definition py_div :: "pyval \<Rightarrow> nat \<Rightarrow> pyval" where
  \<comment> \<open>true division of a number by a positive length\<close>
  "py_div a n = PFloat (fl ((case num_of a of None \<Rightarrow> 0 | Some q \<Rightarrow> q) / of_nat n))"

definition num_lt :: "pyval \<Rightarrow> pyval \<Rightarrow> bool" where
  "num_lt a b \<longleftrightarrow> py_lt a b = Some True"

definition py_min :: "pyval list \<Rightarrow> pyval" where
  "py_min xs = (case xs of [] \<Rightarrow> PNone | y # ys \<Rightarrow> foldl (\<lambda>m x. if num_lt x m then x else m) y ys)"

definition py_max :: "pyval list \<Rightarrow> pyval" where
  "py_max xs = (case xs of [] \<Rightarrow> PNone | y # ys \<Rightarrow> foldl (\<lambda>m x. if num_lt m x then x else m) y ys)"

definition field_nums :: "string option \<Rightarrow> doc list \<Rightarrow> pyval list" where
  "field_nums af ds =
     (case af of
        None \<Rightarrow> []
      | Some f \<Rightarrow>
          List.map_filter (\<lambda>d. case map_of d f of
              Some v \<Rightarrow> if num_of v \<noteq> None then Some v else None
            | None \<Rightarrow> None) ds)"

definition agg_field :: "string \<Rightarrow> string option \<Rightarrow> string" where
  \<comment> \<open>\<open>f"sum_{af}"\<close>\<close>
  "agg_field fn af = fn @ ''_'' @ (case af of None \<Rightarrow> ''None'' | Some f \<Rightarrow> f)"

definition group_entry :: "plan \<Rightarrow> string \<Rightarrow> pyval \<times> doc list \<Rightarrow> doc" where
  "group_entry p gf g =
     (case g of (v, ds) \<Rightarrow>
        (let entry = dset ''count'' (PInt (int (length ds))) [(gf, v)] in
         case q_agg p of
           None \<Rightarrow> entry
         | Some (fn, af) \<Rightarrow>
             (let nums = field_nums af ds in
              if fn = ''sum'' then dset (agg_field fn af) (py_sum nums) entry
              else if fn = ''avg'' then
                dset (agg_field fn af)
                  (if nums = [] then PNone else py_div (py_sum nums) (length nums)) entry
              else if fn = ''min'' then dset (agg_field fn af) (py_min nums) entry
              else if fn = ''max'' then dset (agg_field fn af) (py_max nums) entry
              else entry)))"

definition group_rows :: "plan \<Rightarrow> doc list \<Rightarrow> doc list res" where
  "group_rows p ds =
     (case q_group p of
        None \<Rightarrow> Inr ds
      | Some gf \<Rightarrow>
          if gf = [] then Inr ds
          else bindE (group_docs gf ds []) (\<lambda>gs. Inr (map (\<lambda>(h, g). group_entry p gf g) gs)))"

section \<open>execute\<close>

definition result_rows :: "ext \<Rightarrow> plan \<Rightarrow> engine \<Rightarrow> row list res" where
  \<comment> \<open>load and filter, in the order the set of candidates is iterated\<close>
  "result_rows X p e = bindE (candidates p e) (\<lambda>c. load_rows X p e (x_iter X c))"

definition execute :: "ext \<Rightarrow> plan \<Rightarrow> engine \<Rightarrow> doc list res" where
  "execute X p e =
     bindE (result_rows X p e) (\<lambda>rows.
     bindE (order_rows X p rows) (\<lambda>rows.
     bindE (traverse_rows p e rows) (\<lambda>rows.
     bindE (trace_rows X p e rows) (\<lambda>rows.
     bindE (valid_rows p (py_take (q_limit p) rows)) (\<lambda>rows.
       group_rows p (map snd rows))))))"

definition eng_query :: "ext \<Rightarrow> string \<Rightarrow> engine \<Rightarrow> doc list res" where
  "eng_query X nql e = bindE (parse_nql nql) (\<lambda>p. execute X p e)"

end
