(* ===== verification/Doubles.thy ===== *)
theory Doubles
  imports PyVal
begin

text \<open>
  Rounding to doubles is idempotent: what the code computes as a float is a value that its
  decimal notation can carry.
\<close>

lemma pow2_pos [simp]: "0 < pow2 e"
  by (simp add: pow2_def)

lemma pow2_Suc: "pow2 (e + 1) = 2 * pow2 e"
proof (cases "0 \<le> e")
  case True
  then show ?thesis by (simp add: pow2_def nat_add_distrib)
next
  case False
  then have "nat (- e) = Suc (nat (- (e + 1)))" by linarith
  with False show ?thesis by (cases "e = -1") (auto simp: pow2_def)
qed

lemma pow2_add_nat: "pow2 (e + int n) = 2 ^ n * pow2 e"
proof (induction n)
  case (Suc n)
  have "e + int (Suc n) = (e + int n) + 1" by simp
  with Suc show ?case by (simp only: pow2_Suc) simp
qed simp

lemma pow2_mono: "a \<le> b \<Longrightarrow> pow2 a \<le> pow2 b"
proof -
  assume "a \<le> b"
  then have "pow2 b = 2 ^ nat (b - a) * pow2 a" using pow2_add_nat[of a "nat (b - a)"] by simp
  moreover have "1 * pow2 a \<le> 2 ^ nat (b - a) * pow2 a"
    by (rule mult_right_mono) (simp_all add: less_imp_le)
  ultimately show "pow2 a \<le> pow2 b" by simp
qed

lemma pow2_less: "pow2 a < pow2 b \<Longrightarrow> a < b"
  using pow2_mono[of b a] by (meson not_le)

lemma pow2_of_nat: "pow2 (int n) = 2 ^ n"
  by (simp add: pow2_def)

lemma bitlen_power:
  assumes "0 < n"
  shows "\<exists>a. bitlen n = int a + 1 \<and> 2 ^ a \<le> n \<and> n < 2 * 2 ^ a"
proof -
  have "0 < bitlen n" using assms bitlen_nonneg[of n] bitlen_eq_zero_iff[of n] by linarith
  then obtain a where a: "bitlen n = int a + 1" by (metis add.commute zero_less_imp_eq_int of_nat_Suc Suc_pred int_ops(4))
  then have "nat (bitlen n - 1) = a" "nat (bitlen n) = Suc a" by simp_all
  with bitlen_bounds[OF assms] a show ?thesis by auto
qed

lemma quotient_bounds:
  fixes n d :: int
  assumes "0 < n" "0 < d"
  shows "pow2 (bitlen n - bitlen d - 1) \<le> of_int n / of_int d"
    "of_int n / of_int d < pow2 (bitlen n - bitlen d + 1)"
proof -
  obtain a where a: "bitlen n = int a + 1" "2 ^ a \<le> n" "n < 2 * 2 ^ a"
    using that bitlen_power[OF assms(1)] by blast
  obtain b where b: "bitlen d = int b + 1" "2 ^ b \<le> d" "d < 2 * 2 ^ b"
    using that bitlen_power[OF assms(2)] by blast
  have "(of_int (2 ^ a) :: rat) \<le> of_int n" "(of_int n :: rat) < of_int (2 * 2 ^ a)"
    "(of_int (2 ^ b) :: rat) \<le> of_int d" "(of_int d :: rat) < of_int (2 * 2 ^ b)"
    using a b by (simp_all only: of_int_le_iff of_int_less_iff)
  then have r: "(2 ^ a :: rat) \<le> of_int n" "(of_int n :: rat) < 2 * 2 ^ a"
    "(2 ^ b :: rat) \<le> of_int d" "(of_int d :: rat) < 2 * 2 ^ b"
    by simp_all
  have p: "pow2 (int a - int b) * 2 ^ b = 2 ^ a"
    using pow2_add_nat[of "int a - int b" b] by (simp add: pow2_of_nat mult.commute)
  have "pow2 (int a - int b - 1) * 2 = pow2 (int a - int b)"
    using pow2_Suc[of "int a - int b - 1"] by simp
  then have "pow2 (int a - int b - 1) * of_int d \<le> pow2 (int a - int b) * 2 ^ b"
    using r(4) pow2_pos[of "int a - int b - 1"]
    by (metis less_imp_le mult.assoc mult_left_mono)
  also have "\<dots> \<le> of_int n" using p r(1) by simp
  finally show "pow2 (bitlen n - bitlen d - 1) \<le> of_int n / of_int d"
    using a(1) b(1) assms by (simp add: pos_le_divide_eq)
  have "of_int n < pow2 (int a - int b + 1) * 2 ^ b"
    using r(2) p by (simp add: pow2_Suc)
  also have "\<dots> \<le> pow2 (int a - int b + 1) * of_int d"
    using r(3) by (simp add: mult_left_mono less_imp_le)
  finally show "of_int n / of_int d < pow2 (bitlen n - bitlen d + 1)"
    using a(1) b(1) assms by (simp add: pos_divide_less_eq)
qed

lemma exponent_bounds:
  assumes "0 < q"
  shows "pow2 (exponent q) \<le> q" "q < pow2 (exponent q + 1)"
proof -
  obtain n d where nd: "quotient_of q = (n, d)" by (cases "quotient_of q")
  have d: "0 < d" using quotient_of_denom_pos[OF nd] .
  have q: "q = of_int n / of_int d" using quotient_of_div[OF nd] .
  have n: "0 < n" using assms q d by (simp add: zero_less_divide_iff)
  note b = quotient_bounds[OF n d, folded q]
  show "pow2 (exponent q) \<le> q" "q < pow2 (exponent q + 1)"
    using b by (auto simp: exponent_def nd Let_def)
qed

lemma exponent_unique:
  assumes "pow2 e \<le> q" "q < pow2 (e + 1)"
  shows "exponent q = e"
proof -
  have "0 < q" using assms(1) pow2_pos[of e] by linarith
  note b = exponent_bounds[OF this]
  have "e < exponent q + 1" by (rule pow2_less) (use b assms in linarith)
  moreover have "exponent q < e + 1" by (rule pow2_less) (use b assms in linarith)
  ultimately show ?thesis by linarith
qed

lemma round_half_even_int [simp]: "round_half_even (of_int k) = k"
  by (simp add: round_half_even_def)

lemma round_half_even_near: "\<lfloor>q\<rfloor> \<le> round_half_even q" "round_half_even q \<le> \<lfloor>q\<rfloor> + 1"
  by (auto simp: round_half_even_def Let_def)

lemma round_half_even_ge: "of_int k \<le> q \<Longrightarrow> k \<le> round_half_even q"
  using round_half_even_near(1)[of q] by (meson le_floor_iff order.trans)

lemma round_half_even_le: "q < of_int k \<Longrightarrow> round_half_even q \<le> k"
  using round_half_even_near(2)[of q] by (meson floor_less_iff order.trans zless_imp_add1_zle)

lemma fl_multiple:
  assumes "q = of_int k * pow2 (exponent \<bar>q\<bar> - 52)"
  shows "fl q = q"
proof (cases "q = 0")
  case False
  have "q / pow2 (exponent \<bar>q\<bar> - 52) = of_int k"
    using assms pow2_pos[of "exponent \<bar>q\<bar> - 52"] by (metis less_irrefl nonzero_mult_div_cancel_right)
  with False assms show ?thesis by (simp add: fl_def Let_def)
qed (simp add: fl_def)

lemma fl_idem: "fl (fl q) = fl q"
proof (cases "q = 0")
  case False
  define e where "e = exponent \<bar>q\<bar>"
  define p where "p = pow2 (e - 52)"
  define k where "k = round_half_even (q / p)"
  have p: "0 < p" by (simp add: p_def)
  have f: "fl q = of_int k * p" using False by (simp add: fl_def e_def p_def k_def Let_def)
  have q: "pow2 e \<le> \<bar>q\<bar>" "\<bar>q\<bar> < pow2 (e + 1)" using False exponent_bounds[of "\<bar>q\<bar>"] by (simp_all add: e_def)
  have pe: "pow2 e = 2 ^ 52 * p" "pow2 (e + 1) = 2 ^ 53 * p"
    using pow2_add_nat[of "e - 52" 52] pow2_add_nat[of "e - 52" 53]
    by (simp_all add: p_def add.commute)
  have b: "2 ^ 52 \<le> \<bar>q / p\<bar>" "\<bar>q / p\<bar> < 2 ^ 53"
    using q p by (simp_all add: pe abs_divide pos_le_divide_eq pos_divide_less_eq)
  have kb: "2 ^ 52 \<le> \<bar>k\<bar>" "\<bar>k\<bar> \<le> 2 ^ 53"
  proof -
    show "2 ^ 52 \<le> \<bar>k\<bar>"
    proof (cases "0 \<le> q / p")
      case True
      then have "2 ^ 52 \<le> k" unfolding k_def using b by (intro round_half_even_ge) simp
      then show ?thesis by simp
    next
      case neg: False
      then have "q / p \<le> of_int (- (2 ^ 52))" using b by simp
      then have "k \<le> - (2 ^ 52)"
        unfolding k_def by (cases "q / p = of_int (- (2 ^ 52))")
          (simp_all only: round_half_even_int order.refl, auto intro!: round_half_even_le)
      then show ?thesis by simp
    qed
    have "k \<le> 2 ^ 53" unfolding k_def using b by (intro round_half_even_le) auto
    moreover have "- (2 ^ 53) \<le> k" unfolding k_def using b by (intro round_half_even_ge) auto
    ultimately show "\<bar>k\<bar> \<le> 2 ^ 53" by simp
  qed
  have ab: "\<bar>fl q\<bar> = of_int \<bar>k\<bar> * p" using p by (simp add: f abs_mult)
  show ?thesis
  proof (cases "\<bar>k\<bar> = 2 ^ 53")
    case True
    have "pow2 (e + 1) \<le> \<bar>fl q\<bar>" "\<bar>fl q\<bar> < pow2 (e + 1 + 1)"
      unfolding ab True pow2_Suc[of "e + 1"] pe using p by simp_all
    then have x: "exponent \<bar>fl q\<bar> = e + 1" by (rule exponent_unique)
    have "pow2 (e + 1 - 52) = 2 * p" using pow2_Suc[of "e - 52"] by (simp add: p_def algebra_simps)
    moreover have "k = 2 ^ 53 \<or> k = - (2 ^ 53)" using True by auto
    ultimately have "fl q = of_int (if 0 < k then 2 ^ 52 else - (2 ^ 52)) * pow2 (exponent \<bar>fl q\<bar> - 52)"
      unfolding x by (auto simp: f)
    then show ?thesis by (rule fl_multiple)
  next
    case False
    with kb have "(2 ^ 52 :: int) \<le> \<bar>k\<bar>" "\<bar>k\<bar> < 2 ^ 53" by simp_all
    then have "(of_int (2 ^ 52) :: rat) \<le> of_int \<bar>k\<bar>" "(of_int \<bar>k\<bar> :: rat) < of_int (2 ^ 53)"
      by (simp_all only: of_int_le_iff of_int_less_iff)
    then have "(2 ^ 52 :: rat) \<le> of_int \<bar>k\<bar>" "(of_int \<bar>k\<bar> :: rat) < 2 ^ 53" by simp_all
    then have "pow2 e \<le> \<bar>fl q\<bar>" "\<bar>fl q\<bar> < pow2 (e + 1)"
      unfolding ab pe using p by (simp_all add: mult_le_cancel_right mult_less_cancel_right)
    then have x: "exponent \<bar>fl q\<bar> = e" by (rule exponent_unique)
    have "fl q = of_int k * pow2 (exponent \<bar>fl q\<bar> - 52)"
      unfolding x by (simp add: f p_def)
    then show ?thesis by (rule fl_multiple)
  qed
qed (simp add: fl_def)

end
