(* ===== verification/EngineInv.thy ===== *)
theory EngineInv
  imports Engine Doubles
begin

text \<open>
  The invariant of the engine and its preservation by every call that returns: the chain
  verifies, the materialized state is the fold of the log, the indexes are exact, every blob is
  filed under its hash, and the append-only file together with its buffer decodes to the log.
\<close>

section \<open>The invariant\<close>

definition env_ok :: "env \<Rightarrow> bool" where
  "env_ok V \<longleftrightarrow> (\<forall>i. length (v_rand V i) = NONCE_LEN) \<and> (\<forall>i. fl (v_ts V i) = v_ts V i)"

definition data_ok :: "oprec list \<Rightarrow> mat \<Rightarrow> bool" where
  "data_ok ops m \<longleftrightarrow>
     m_store m = fold mv_write (writes ops) mv_init \<and>
     m_rels m = fold rel_apply (rel_events ops) rels_init \<and>
     m_causes m = fold note_causes ops []"

definition disk_ok :: "ext \<Rightarrow> engine \<Rightarrow> bool" where
  "disk_ok X e \<longleftrightarrow>
     (e_open e \<longrightarrow>
        (\<exists>ls. d_aof (e_disk e) = Some ls \<and>
           map (\<lambda>l. aof_decode X l (e_dek e)) (ls @ e_buf e) = map (op_line X) (l_ops (e_log e))) \<and>
        (e_defer e \<or> e_buf e = []))"

definition engine_ok :: "ext \<Rightarrow> engine \<Rightarrow> bool" where
  "engine_ok X e \<longleftrightarrow>
     log_ok X (e_log e) \<and> nonces_ok (e_log e) \<and>
     (\<forall>r\<in>set (l_ops (e_log e)). op_ok r \<and> good_op r) \<and>
     mat_ok (eng_seq e) (e_mat e) \<and> data_ok (l_ops (e_log e)) (e_mat e) \<and>
     (\<forall>t b. map_of (e_blobs e) t = Some b \<longrightarrow> blobs_ok X b) \<and> disk_ok X e"

definition ext_ok :: "ext \<Rightarrow> bool" where
  "ext_ok X \<longleftrightarrow> frepr_ok X \<and> gcm_ok X"

lemma engine_ok_new: "engine_ok X (engine_new path dek d)"
proof -
  have "data_ok [] mat_init"
    by (simp add: data_ok_def mat_init_def writes_def rel_events_def map_filter_simps)
  then show ?thesis
    by (simp add: engine_ok_def engine_new_def log_ok_init nonces_ok_init eng_seq_def mat_ok_init
        disk_ok_def)
qed

section \<open>Payloads\<close>

lemma put_args_payload [simp]: "put_args (put_payload c i d) = Inr (doc_key c i, c, d)"
  by (simp add: put_args_def str_field_def put_payload_def need_def)

lemma delete_args_payload [simp]: "delete_args (delete_payload c i) = Inr (doc_key c i, c)"
  by (simp add: delete_args_def str_field_def delete_payload_def need_def)

lemma link_args_payload [simp]: "link_args (link_payload f r t) = Inr (f, r, t)"
  by (simp add: link_args_def str_field_def link_payload_def need_def)

lemma pv_ok_payloads [simp]:
  "pv_ok (PDict (put_payload c i d)) = pv_ok (PDict d)"
  "pv_ok (PDict (delete_payload c i))"
  "pv_ok (PDict (link_payload f r t))"
  "pv_ok (PDict (file_payload n ti v rt))"
  by (simp_all add: put_payload_def delete_payload_def link_payload_def file_payload_def)

lemma pv_ok_dset: "pv_ok (PDict d) \<Longrightarrow> pv_ok v \<Longrightarrow> pv_ok (PDict (dset k v d))"
proof -
  have "\<forall>p\<in>set d. pv_ok (snd p) \<Longrightarrow> pv_ok v \<Longrightarrow> \<forall>p\<in>set (dset k v d). pv_ok (snd p)"
    by (induction d) auto
  then show "pv_ok (PDict d) \<Longrightarrow> pv_ok v \<Longrightarrow> pv_ok (PDict (dset k v d))" by simp
qed

lemma pv_ok_setdefault: "pv_ok (PDict d) \<Longrightarrow> pv_ok v \<Longrightarrow> pv_ok (PDict (setdefault k v d))"
  by (auto simp: setdefault_def map_of_eq_None_iff split: option.splits)

lemma pv_ok_set_opt:
  "pv_ok (PDict d) \<Longrightarrow> (\<And>y. x = Some y \<Longrightarrow> pv_ok (f y)) \<Longrightarrow> pv_ok (PDict (set_opt k f x d))"
  unfolding set_opt_def by (cases x) (simp_all add: pv_ok_dset del: pv_ok.simps(3))

definition prov_ok :: "prov \<Rightarrow> bool" where
  "prov_ok pr \<longleftrightarrow> (\<forall>q. p_conf pr = Some q \<longrightarrow> fl q = q)"

lemma prov_ok_none [simp]: "prov_ok no_prov"
  by (simp add: prov_ok_def no_prov_def)

lemma pv_ok_put_doc:
  assumes "pv_ok (PDict d)" "prov_ok pr"
  shows "pv_ok (PDict (put_doc i d now ttl pr))"
proof -
  have "pv_ok (PDict (embed_ttl now ttl (setdefault ''_id'' (PStr i) d)))"
    using assms(1) pv_ok_setdefault[of d "PStr i"] pv_ok_dset fl_idem
    by (cases ttl) (simp_all add: embed_ttl_def del: pv_ok.simps(3))
  then show ?thesis
    unfolding put_doc_def using assms(2)
    by (intro pv_ok_set_opt) (simp_all add: prov_ok_def)
qed

section \<open>Appending and folding one operation\<close>

definition op_good :: "string \<Rightarrow> doc \<Rightarrow> bool" where
  \<comment> \<open>the payload is one the engine builds for the operation\<close>
  "op_good op p \<longleftrightarrow>
     pv_ok (PDict p) \<and>
     (op = ''put'' \<longrightarrow> (\<exists>c i d. put_args p = Inr (doc_key c i, c, d) \<and> good_coll c)) \<and>
     (op = ''delete'' \<longrightarrow> (\<exists>c i. delete_args p = Inr (doc_key c i, c) \<and> good_coll c)) \<and>
     (op = ''link'' \<or> op = ''unlink'' \<longrightarrow> (\<exists>a. link_args p = Inr a))"

lemma disk_ok_append:
  assumes X: "ext_ok X" and ok: "disk_ok X e" and n: "length rnd = NONCE_LEN"
    and l: "l_ops l = l_ops (e_log e) @ [r]"
    and e': "e' = (let e1 = e\<lparr> e_log := l \<rparr> in
           if e_open e1 then
             (let e2 = e1\<lparr> e_buf := e_buf e1 @ [aof_encode X rnd (op_line X r) (e_dek e1)] \<rparr>
              in if e_defer e2 then e2 else eng_flush e2)
           else e1)"
  shows "disk_ok X e'"
proof (cases "e_open e")
  case False
  with e' show ?thesis by (simp add: disk_ok_def)
next
  case True
  have "op_line X r \<noteq> []" "str_strip (op_line X r) = op_line X r"
    unfolding op_line_def by (simp, rule strip_dumps_dict)
  then have dec: "aof_decode X (aof_encode X rnd (op_line X r) (e_dek e)) (e_dek e) = op_line X r"
    using X n by (intro aof_decode_encode) (simp_all add: ext_ok_def)
  from ok True obtain ls where "d_aof (e_disk e) = Some ls"
    "map (\<lambda>l. aof_decode X l (e_dek e)) (ls @ e_buf e) = map (op_line X) (l_ops (e_log e))"
    by (auto simp: disk_ok_def)
  with True e' dec l show ?thesis
    by (auto simp: disk_ok_def eng_flush_def Let_def)
qed

lemma eng_append_ok:
  assumes X: "ext_ok X" and ok: "engine_ok X e" and n: "length rnd = NONCE_LEN" and ts: "fl ts = ts"
    and p: "op_good op payload" and pr: "prov_ok pr"
    and a: "eng_append X ts rnd client nonce op payload idm pr e = (Inr (r, created), e')"
  shows "log_ok X (e_log e')" "nonces_ok (e_log e')" "disk_ok X e'" "e_mat e' = e_mat e"
    "e_blobs e' = e_blobs e" "\<forall>r\<in>set (l_ops (e_log e')). op_ok r \<and> good_op r"
    "\<not> created \<Longrightarrow> e' = e"
    "created \<Longrightarrow> l_ops (e_log e') = l_ops (e_log e) @ [r] \<and> o_seq r = eng_seq e + 1 \<and>
       o_op r = op \<and> o_payload r = payload \<and> o_prov r = pr \<and> o_idem r = idm"
proof -
  from a obtain l where l: "log_append X client nonce op payload idm ts pr (e_log e) = Inr (r, created, l)"
    and e': "e' = (let e1 = e\<lparr> e_log := l \<rparr> in
           if created \<and> e_open e1 then
             (let e2 = e1\<lparr> e_buf := e_buf e1 @ [aof_encode X rnd (op_line X r) (e_dek e1)] \<rparr>
              in if e_defer e2 then e2 else eng_flush e2)
           else e1)"
    by (auto simp: eng_append_def Let_def split: sum.splits if_splits)
  have frame: "e_log e' = l" "e_mat e' = e_mat e" "e_blobs e' = e_blobs e"
    by (auto simp: e' Let_def eng_flush_def)
  note ok' = ok[unfolded engine_ok_def]
  show "log_ok X (e_log e')" "nonces_ok (e_log e')"
    using log_ok_append[OF _ l] nonces_ok_append[OF _ l] ok' by (simp_all add: frame)
  show "e_mat e' = e_mat e" "e_blobs e' = e_blobs e" by (fact frame)+
  have "disk_ok X e' \<and> (\<forall>r\<in>set (l_ops (e_log e')). op_ok r \<and> good_op r) \<and> (\<not> created \<longrightarrow> e' = e) \<and>
      (created \<longrightarrow> l_ops (e_log e') = l_ops (e_log e) @ [r] \<and> o_seq r = eng_seq e + 1 \<and>
         o_op r = op \<and> o_payload r = payload \<and> o_prov r = pr \<and> o_idem r = idm)"
    using l
  proof (cases rule: append_cases)
    case dup
    then have "e' = e" by (simp add: e')
    with dup ok' show ?thesis by simp
  next
    case new
    have "disk_ok X e'"
      by (rule disk_ok_append[OF X _ n new(4)]) (use ok' new(1) e' in simp_all)
    moreover have "op_ok r \<and> good_op r"
      using new p pr ts by (auto simp: op_ok_def good_op_def op_good_def prov_ok_def)
    ultimately show ?thesis
      using new ok' by (simp add: frame eng_seq_def)
  qed
  then show "disk_ok X e'" "\<forall>r\<in>set (l_ops (e_log e')). op_ok r \<and> good_op r"
    "\<not> created \<Longrightarrow> e' = e"
    "created \<Longrightarrow> l_ops (e_log e') = l_ops (e_log e) @ [r] \<and> o_seq r = eng_seq e + 1 \<and>
       o_op r = op \<and> o_payload r = payload \<and> o_prov r = pr \<and> o_idem r = idm" by simp_all
qed

lemma data_ok_snoc:
  assumes d: "data_ok ops m" and a: "apply_op True r m = (None, m')"
  shows "data_ok (ops @ [r]) m'"
proof -
  have w: "writes (ops @ [r]) = writes ops @ (case store_event r of None \<Rightarrow> [] | Some w \<Rightarrow> [w])"
    "rel_events (ops @ [r]) = rel_events ops @ (case rel_event_of r of None \<Rightarrow> [] | Some w \<Rightarrow> [w])"
    by (auto simp: writes_def rel_events_def map_filter_def split: option.split)
  show ?thesis
    using d apply_op_writes[OF a] by (auto simp: data_ok_def w split: option.splits)
qed

lemma fold_after_append:
  assumes ok: "engine_ok X e" and l: "log_ok X (e_log e')" "nonces_ok (e_log e')" "disk_ok X e'"
      "e_mat e' = e_mat e" "e_blobs e' = e_blobs e"
      "\<forall>r\<in>set (l_ops (e_log e')). op_ok r \<and> good_op r"
    and r: "l_ops (e_log e') = l_ops (e_log e) @ [r]" "o_seq r = eng_seq e + 1"
    and f: "eng_fold True r e' = (Inr (), e'')"
  shows "engine_ok X e''"
proof -
  from f obtain m where m: "apply_op True r (e_mat e) = (None, m)" and e'': "e'' = e'\<lparr> e_mat := m \<rparr>"
    by (auto simp: eng_fold_def l(4) split: prod.splits option.splits)
  note ok' = ok[unfolded engine_ok_def]
  have "mat_ok (o_seq r) m"
    by (rule apply_op_ok[OF _ _ _ m, of "eng_seq e"]) (use ok' l(6) r in auto)
  moreover have "eng_seq e'' = o_seq r" using r by (simp add: eng_seq_def e'')
  moreover have "data_ok (l_ops (e_log e'')) m"
    using data_ok_snoc[OF _ m] ok' r by (simp add: e'')
  moreover have "disk_ok X e''" using l(3) by (simp add: disk_ok_def e'')
  ultimately show ?thesis using l ok' by (simp add: engine_ok_def e'')
qed

lemma commit_ok:
  assumes X: "ext_ok X" and ok: "engine_ok X e" and n: "length rnd = NONCE_LEN" and ts: "fl ts = ts"
    and p: "op_good op payload" and pr: "prov_ok pr"
    and c: "commit X ts rnd client nonce op payload idm pr e = (Inr (), e')"
  shows "engine_ok X e'"
proof -
  from c obtain r created e1 where
    a: "eng_append X ts rnd client nonce op payload idm pr e = (Inr (r, created), e1)"
    and f: "(if created then eng_fold True r e1 else (Inr (), e1)) = (Inr (), e')"
    by (auto simp: commit_def bindC_Inr)
  note i = eng_append_ok[OF X ok n ts p pr a]
  show ?thesis
  proof (cases created)
    case True
    with f i show ?thesis by (intro fold_after_append[OF ok i(1-6), of r]) simp_all
  next
    case False
    with f i ok show ?thesis by simp
  qed
qed

lemma pick_nonce_frame:
  assumes "pick_nonce client nonce e = (n, e1)"
  shows "engine_ok X e1 = engine_ok X e" "e_log e1 = e_log e" "e_mat e1 = e_mat e"
    "e_blobs e1 = e_blobs e" "e_disk e1 = e_disk e" "e_buf e1 = e_buf e" "e_path e1 = e_path e"
  using assms
  by (auto simp: pick_nonce_def next_nonce_def Let_def engine_ok_def disk_ok_def eng_seq_def
      split: option.splits)

section \<open>Every call keeps the invariant\<close>

lemma put_ok:
  assumes X: "ext_ok X" and V: "env_ok V" and ok: "engine_ok X e" and c: "good_coll coll"
    and d: "pv_ok (PDict d)" and pr: "prov_ok pr"
    and p: "eng_put X V coll i d client nonce idm ttl pr e = (Inr r, e')"
  shows "engine_ok X e'"
proof -
  obtain n e1 where n: "pick_nonce client nonce e = (n, e1)" by (cases "pick_nonce client nonce e")
  let ?d = "put_doc i d (v_now V) ttl pr"
  from p n have "commit X (v_ts V 0) (v_rand V 0) client n ''put'' (put_payload coll i ?d) idm pr e1
      = (Inr (), e')"
    by (auto simp: eng_put_def bindC_Inr)
  then show ?thesis
    by (rule commit_ok[OF X _ _ _ _ pr, rotated -1])
      (use V ok c d pr pick_nonce_frame(1)[OF n] pv_ok_put_doc[OF d pr] in
        \<open>auto simp: env_ok_def op_good_def simp del: pv_ok.simps\<close>)
qed

lemma delete_ok:
  assumes X: "ext_ok X" and V: "env_ok V" and ok: "engine_ok X e" and c: "good_coll coll"
    and p: "eng_delete X V coll i client nonce idm e = (Inr (), e')"
  shows "engine_ok X e'"
proof -
  obtain n e1 where n: "pick_nonce client nonce e = (n, e1)" by (cases "pick_nonce client nonce e")
  from p n have "commit X (v_ts V 0) (v_rand V 0) client n ''delete'' (delete_payload coll i) idm no_prov e1
      = (Inr (), e')"
    by (simp add: eng_delete_def)
  then show ?thesis
    by (rule commit_ok[OF X, rotated -1])
      (use V ok c pick_nonce_frame(1)[OF n] in
        \<open>auto simp: env_ok_def op_good_def simp del: pv_ok.simps\<close>)
qed

lemma link_ok:
  assumes X: "ext_ok X" and V: "env_ok V" and ok: "engine_ok X e"
    and p: "eng_link X V f r t client nonce e = (Inr (), e')"
  shows "engine_ok X e'"
proof -
  obtain n e1 where n: "pick_nonce client nonce e = (n, e1)" by (cases "pick_nonce client nonce e")
  from p n have "commit X (v_ts V 0) (v_rand V 0) client n ''link'' (link_payload f r t) None no_prov e1
      = (Inr (), e')"
    by (simp add: eng_link_def)
  then show ?thesis
    by (rule commit_ok[OF X, rotated -1])
      (use V ok pick_nonce_frame(1)[OF n] in
        \<open>auto simp: env_ok_def op_good_def simp del: pv_ok.simps\<close>)
qed

lemma unlink_ok:
  assumes X: "ext_ok X" and V: "env_ok V" and ok: "engine_ok X e"
    and p: "eng_unlink X V f r t client nonce e = (Inr (), e')"
  shows "engine_ok X e'"
proof -
  obtain n e1 where n: "pick_nonce client nonce e = (n, e1)" by (cases "pick_nonce client nonce e")
  from p n have "commit X (v_ts V 0) (v_rand V 0) client n ''unlink'' (link_payload f r t) None no_prov e1
      = (Inr (), e')"
    by (simp add: eng_unlink_def)
  then show ?thesis
    by (rule commit_ok[OF X, rotated -1])
      (use V ok pick_nonce_frame(1)[OF n] in
        \<open>auto simp: env_ok_def op_good_def simp del: pv_ok.simps\<close>)
qed

text \<open>The lazy delete is a commit: its operation carries no causes.\<close>

lemma eng_append_new:
  assumes "eng_append X ts rnd client nonce op payload None pr e = (Inr (r, created), e')"
  shows "created" "py_index (l_ops (e_log e')) (-1) = Inr r" "o_prov r = pr"
proof -
  from assms obtain l where l: "log_append X client nonce op payload None ts pr (e_log e) = Inr (r, created, l)"
    and e': "e_log e' = l"
    by (auto simp: eng_append_def Let_def eng_flush_def split: sum.splits if_splits)
  from l show "created" "py_index (l_ops (e_log e')) (-1) = Inr r" "o_prov r = pr"
    by (cases rule: append_cases, simp_all add: e' py_index_last)+
qed

lemma apply_op_no_causes: "causes_of r = [] \<Longrightarrow> apply_op False r m = apply_op True r m"
  by (simp add: apply_op_def note_causes_def andthen_def split: prod.split option.split)

lemma ttl_delete_commit:
  "ttl_delete X ts rnd c i e =
   (case next_nonce ''__ttl__'' e of (n, e1) \<Rightarrow>
      commit X ts rnd ''__ttl__'' n ''delete'' (delete_payload c i) None no_prov e1)"
proof -
  obtain n e1 where n: "next_nonce ''__ttl__'' e = (n, e1)" by (cases "next_nonce ''__ttl__'' e")
  show ?thesis
  proof (cases "eng_append X ts rnd ''__ttl__'' n ''delete'' (delete_payload c i) None no_prov e1")
    case (Pair a e2)
    show ?thesis
    proof (cases a)
      case (Inl x)
      with Pair n show ?thesis by (simp add: ttl_delete_def commit_def)
    next
      case (Inr p)
      obtain r created where p: "p = (r, created)" by (cases p)
      note f = eng_append_new[OF Pair[unfolded Inr p]]
      have "eng_fold False r e2 = eng_fold True r e2"
        using f(3) by (simp add: eng_fold_def apply_op_no_causes causes_of_def no_prov_def)
      with Pair n f Inr p show ?thesis by (simp add: ttl_delete_def commit_def)
    qed
  qed
qed

lemma ttl_delete_ok:
  assumes X: "ext_ok X" and ok: "engine_ok X e" and rnd: "length rnd = NONCE_LEN" and ts: "fl ts = ts"
    and c: "good_coll coll" and p: "ttl_delete X ts rnd coll i e = (Inr (), e')"
  shows "engine_ok X e'"
proof -
  obtain n e1 where n: "pick_nonce ''__ttl__'' None e = (n, e1)" by (cases "pick_nonce ''__ttl__'' None e")
  from p n have "commit X ts rnd ''__ttl__'' n ''delete'' (delete_payload coll i) None no_prov e1 = (Inr (), e')"
    by (simp add: ttl_delete_commit pick_nonce_def)
  then show ?thesis
    by (rule commit_ok[OF X, rotated -1])
      (use ok c rnd ts pick_nonce_frame(1)[OF n] in \<open>auto simp: op_good_def simp del: pv_ok.simps\<close>)
qed

lemma get_ok:
  assumes X: "ext_ok X" and V: "env_ok V" and ok: "engine_ok X e" and c: "good_coll coll"
    and g: "eng_get X V coll i as_of e = (Inr r, e')"
  shows "engine_ok X e'"
proof -
  have "e' = e \<or> ttl_delete X (v_ts V 0) (v_rand V 0) coll i e = (Inr (), e')"
    using g by (auto simp: eng_get_def check_ttl_def Let_def bindC_Inr
        split: sum.splits option.splits if_splits bool.splits)
  then show ?thesis
    using ok ttl_delete_ok[OF X ok _ _ c, of "v_rand V 0" "v_ts V 0" i e'] V
    by (auto simp: env_ok_def)
qed

text \<open>In an engine of the invariant a stored document is representable and its key is
  \<open>coll:id\<close>.\<close>

lemma history_writes:
  "(q, x) \<in> set (history (fold mv_write ws s) k) \<Longrightarrow>
   (q, x) \<in> set (history s k) \<or> (\<exists>w\<in>set ws. (x = None \<and> w = WDel k q) \<or> (\<exists>v. x = Some v \<and> w = WPut k v q))"
proof (induction ws arbitrary: s)
  case (Cons w ws)
  then have "(q, x) \<in> set (history (mv_write w s) k) \<or>
      (\<exists>w\<in>set ws. (x = None \<and> w = WDel k q) \<or> (\<exists>v. x = Some v \<and> w = WPut k v q))" by simp
  then show ?case by (cases w) (auto split: if_splits)
qed simp

lemma need_ok: "pv_ok (PDict p) \<Longrightarrow> need p k = Inr v \<Longrightarrow> pv_ok v"
  by (auto simp: need_def split: option.splits dest!: map_of_SomeD)

lemma put_args_ok: "pv_ok (PDict p) \<Longrightarrow> put_args p = Inr (k, c, d) \<Longrightarrow> pv_ok (PDict d)"
proof -
  assume p: "pv_ok (PDict p)" and a: "put_args p = Inr (k, c, d)"
  from a have "need p ''doc'' = Inr (PDict d)"
    by (auto simp: put_args_def bindE_eq_Inr elim!: as_dict.elims)
  then show "pv_ok (PDict d)" by (rule need_ok[OF p])
qed

lemma stored_doc:
  assumes ok: "engine_ok X e" and h: "(q, x) \<in> set (history (store_of e) k)"
  shows "(\<exists>c i. good_coll c \<and> k = doc_key c i) \<and> (\<forall>d. x = Some d \<longrightarrow> pv_ok (PDict d))"
proof -
  note ok' = ok[unfolded engine_ok_def data_ok_def]
  have "store_of e = fold mv_write (writes (l_ops (e_log e))) mv_init"
    using ok' by (simp add: store_of_def)
  with h obtain w where w: "w \<in> set (writes (l_ops (e_log e)))"
    "(x = None \<and> w = WDel k q) \<or> (\<exists>v. x = Some v \<and> w = WPut k v q)"
    using history_writes[of q x "writes (l_ops (e_log e))" mv_init k] by auto
  obtain r where r: "r \<in> set (l_ops (e_log e))" "store_event r = Some w"
    using set_writes[OF w(1)] by blast
  have g: "op_ok r" "good_op r" using ok' r(1) by auto
  show ?thesis
  proof (cases "o_op r = ''put''")
    case True
    with g(2) obtain c i d where p: "put_args (o_payload r) = Inr (doc_key c i, c, d)" "good_coll c"
      by (auto simp: good_op_def)
    have "pv_ok (PDict (stamp (o_seq r) d))"
      unfolding stamp_def
      by (rule pv_ok_dset[OF put_args_ok[OF _ p(1)]]) (use g(1) in \<open>simp_all add: op_ok_def\<close>)
    with True r p w(2) show ?thesis by (auto simp: store_event_def simp del: pv_ok.simps)
  next
    case False
    with r have "o_op r = ''delete''" by (auto simp: store_event_def split: if_splits)
    with g(2) obtain c i where p: "delete_args (o_payload r) = Inr (doc_key c i, c)" "good_coll c"
      by (auto simp: good_op_def)
    with \<open>o_op r = ''delete''\<close> r w(2) have "k = doc_key c i \<and> x = None"
      by (auto simp: store_event_def)
    with p show ?thesis by blast
  qed
qed

lemma visible_in: "visible h = Some d \<Longrightarrow> \<exists>q. (q, Some d) \<in> set h"
  by (cases h rule: rev_cases) (auto simp: visible_def split: if_splits)

lemma head_doc:
  assumes "engine_ok X e" "mv_get (store_of e) k None = Inr (Some d)"
  shows "\<exists>c i. good_coll c \<and> k = doc_key c i" "pv_ok (PDict d)"
proof -
  from assms(2) obtain q where "(q, Some d) \<in> set (history (store_of e) k)"
    using visible_in[of "history (store_of e) k" d] by auto
  from stored_doc[OF assms(1) this]
  show "\<exists>c i. good_coll c \<and> k = doc_key c i" "pv_ok (PDict d)" by blast+
qed

lemma expire_ok:
  assumes X: "ext_ok X" and V: "env_ok V" and ok: "engine_ok X e" and c: "good_coll coll"
    and g: "eng_expire X V coll i ttl e = (Inr r, e')"
  shows "engine_ok X e'"
proof (cases "mv_get (store_of e) (doc_key coll i) None")
  case (Inl x)
  with g show ?thesis by (simp add: eng_expire_def)
next
  case (Inr d)
  show ?thesis
  proof (cases d)
    case None
    with Inr g ok show ?thesis by (simp add: eng_expire_def)
  next
    case (Some dc)
    with Inr g obtain r' where
      "eng_put X V coll i dc ''local'' None None (Some ttl) no_prov e = (Inr r', e')"
      by (auto simp: eng_expire_def bindC_Inr)
    with put_ok[OF X V ok c _ prov_ok_none this] head_doc(2)[OF ok] Inr Some show ?thesis by blast
  qed
qed

lemma split_doc_key: "good_coll c \<Longrightarrow> split_key (doc_key c i) = Inr (c, i)"
proof -
  assume "good_coll c"
  then have "dropWhile (\<lambda>x. x \<noteq> CHR '':'') (c @ CHR '':'' # i) = CHR '':'' # i"
    "takeWhile (\<lambda>x. x \<noteq> CHR '':'') (c @ CHR '':'' # i) = c"
    unfolding good_coll_def by (induction c) auto
  then show ?thesis by (simp add: split_key_def doc_key_def)
qed

lemma sweep_keys_ok:
  assumes X: "ext_ok X" and V: "env_ok V"
  shows "engine_ok X e \<Longrightarrow> sweep_keys X V ks n e = (Inr r, e') \<Longrightarrow> engine_ok X e'"
proof (induction ks arbitrary: n e)
  case (Cons k ks)
  let ?b = "bindE (mv_get (store_of e) k None) (expired (v_now V))"
  show ?case
  proof (cases ?b)
    case (Inl x)
    with Cons.prems(2) show ?thesis by simp
  next
    case (Inr b)
    show ?thesis
    proof (cases b)
      case False
      with Inr Cons.prems have "sweep_keys X V ks n e = (Inr r, e')" by simp
      with Cons.IH Cons.prems(1) show ?thesis by blast
    next
      case True
      with Inr obtain d where "mv_get (store_of e) k None = Inr (Some d)"
        by (auto simp: bindE_eq_Inr expired_def split: option.splits)
      then obtain c i where c: "good_coll c" "k = doc_key c i"
        using head_doc(1)[OF Cons.prems(1)] by blast
      from Inr True Cons.prems(2) obtain e1 where
        t: "ttl_delete X (v_ts V n) (v_rand V n) c i e = (Inr (), e1)"
        and s: "sweep_keys X V ks (Suc n) e1 = (Inr r, e')"
        by (auto simp: c(2) split_doc_key[OF c(1)] bindC_Inr)
      have "engine_ok X e1"
        by (rule ttl_delete_ok[OF X Cons.prems(1) _ _ c(1) t]) (use V in \<open>simp_all add: env_ok_def\<close>)
      with Cons.IH s show ?thesis by blast
    qed
  qed
qed simp

lemma persist_meta_ok: "engine_ok X (persist_meta C e) = engine_ok X e"
  by (auto simp: persist_meta_def engine_ok_def disk_ok_def eng_seq_def)

lemma sweep_ok:
  assumes X: "ext_ok X" and V: "env_ok V" and ok: "engine_ok X e"
    and s: "eng_sweep X V e = (Inr n, e')"
  shows "engine_ok X e'"
proof -
  from s obtain ks e1 where k: "sweep_keys X V ks 0 e = (Inr n, e1)"
    and e': "e' = (if 0 < n then persist_meta X e1 else e1)"
    by (auto simp: eng_sweep_def bindC_Inr split: sum.splits)
  show ?thesis
    using sweep_keys_ok[OF X V ok k] by (simp add: e' persist_meta_ok)
qed

lemma log_append_only:
  assumes p: "put_file X name data bs = Inr (v, bs')" and ok: "engine_ok X e"
    and b: "map_of (e_blobs e) tier = Some bs"
  shows "engine_ok X (e\<lparr> e_blobs := dset tier bs' (e_blobs e) \<rparr>)"
proof -
  have "blobs_ok X bs'" using put_file_ok[OF _ p] ok b by (auto simp: engine_ok_def)
  with ok show ?thesis by (auto simp: engine_ok_def disk_ok_def eng_seq_def)
qed

lemma put_file_call_ok:
  assumes X: "ext_ok X" and V: "env_ok V" and ok: "engine_ok X e"
    and p: "eng_put_file X V name data tier client nonce idm e = (Inr v, e')"
  shows "engine_ok X e'"
proof -
  from p obtain bs bs' rt n e2 r created where
    b: "map_of (e_blobs e) tier = Some bs" "put_file X name data bs = Inr (v, bs')"
    and n: "pick_nonce client nonce (e\<lparr> e_blobs := dset tier bs' (e_blobs e) \<rparr>) = (n, e2)"
    and a: "eng_append X (v_ts V 0) (v_rand V 0) client n ''put_file'' (file_payload name tier v rt)
      idm no_prov e2 = (Inr (r, created), e')"
    by (auto simp: eng_put_file_def Let_def bindC_Inr split: option.splits sum.splits prod.splits)
  have ok2: "engine_ok X e2" using log_append_only[OF b(2) ok b(1)] pick_nonce_frame(1)[OF n] by simp
  have V': "length (v_rand V 0) = NONCE_LEN" "fl (v_ts V 0) = v_ts V 0" using V by (simp_all add: env_ok_def)
  have g: "op_good ''put_file'' (file_payload name tier v rt)" by (simp add: op_good_def del: pv_ok.simps)
  note i = eng_append_ok[OF X ok2 V' g prov_ok_none a]
  show ?thesis
  proof (cases created)
    case False
    with i ok2 show ?thesis by simp
  next
    case True
    note r = i(8)[OF True]
    have "eng_fold True r e' = (Inr (), e')"
      using r by (simp add: eng_fold_def apply_op_def apply_effect_def note_causes_def causes_of_def no_prov_def)
    from fold_after_append[OF ok2 i(1-6) _ _ this] r show ?thesis by simp
  qed
qed

section \<open>Creating an index\<close>

text \<open>
  While the index on \<open>coll.field\<close> is filled, its view is the part of the collection that the
  loop has passed.
\<close>

definition filling :: "string \<Rightarrow> string set \<Rightarrow> view \<Rightarrow> string \<Rightarrow> view" where
  "filling new done' v fld = (if fld = new then v |` done' else v)"

lemma ensure_lookup:
  assumes "ix_ensure c f k ix = (x, ix')"
  shows "map_of (ix_eq ix') fld = Some vm \<Longrightarrow>
      map_of (ix_eq ix) fld = Some vm \<or> (fld = ix_key c f \<and> vm = [] \<and> map_of (ix_eq ix) fld = None)"
    "map_of (ix_inv ix') fld = Some im \<Longrightarrow>
      map_of (ix_inv ix) fld = Some im \<or> (fld = ix_key c f \<and> im = [] \<and> map_of (ix_inv ix) fld = None)"
  using assms by (auto simp: ix_ensure_def Let_def split: if_splits)

lemma ensure_own: "ix_own ix \<Longrightarrow> ix_ensure c f k ix = (x, ix') \<Longrightarrow> ix_own ix'"
proof -
  assume own: "ix_own ix" and e: "ix_ensure c f k ix = (x, ix')"
  {
    fix c0 f0 vm h k0
    assume "good_coll c0" "map_of (ix_eq ix') (ix_key c0 f0) = Some vm" "k0 \<in> dget vm h {}"
    with ensure_lookup(1)[OF e] have "map_of (ix_eq ix) (ix_key c0 f0) = Some vm" by fastforce
    with own \<open>good_coll c0\<close> \<open>k0 \<in> dget vm h {}\<close> have "starts_with (c0 @ '':'') k0"
      unfolding ix_own_def by blast
  }
  moreover {
    fix c0 f0 im t k0
    assume "good_coll c0" "map_of (ix_inv ix') (ix_key c0 f0) = Some im" "k0 \<in> dget im t {}"
    with ensure_lookup(2)[OF e] have "map_of (ix_inv ix) (ix_key c0 f0) = Some im" by fastforce
    with own \<open>good_coll c0\<close> \<open>k0 \<in> dget im t {}\<close> have "starts_with (c0 @ '':'') k0"
      unfolding ix_own_def by blast
  }
  ultimately show "ix_own ix'" unfolding ix_own_def by blast
qed

lemma ensure_finite: "ix_finite ix \<Longrightarrow> ix_ensure c f k ix = (x, ix') \<Longrightarrow> ix_finite ix'"
  by (auto simp: ix_finite_def ix_ensure_def Let_def setdefault_def sets_finite_def
      split: if_splits option.splits)

text \<open>An index that exists already keeps its view; a new one starts with the empty view.\<close>

definition fresh :: "string \<Rightarrow> indexes \<Rightarrow> bool" where
  "fresh fld ix \<longleftrightarrow> map_of (ix_eq ix) fld = None"

definition fresh_inv :: "string \<Rightarrow> indexes \<Rightarrow> bool" where
  "fresh_inv fld ix \<longleftrightarrow> map_of (ix_inv ix) fld = None"

lemma ensure_eq_exact:
  assumes ex: "eq_exact ix (\<lambda>_. v)" and e: "ix_ensure c f k ix = (x, ix')"
  shows "eq_exact ix' (if fresh (ix_key c f) ix then filling (ix_key c f) {} v else (\<lambda>_. v))"
  unfolding eq_exact_def
proof (intro allI impI)
  fix c0 f0 vm i h
  assume g: "good_coll c0" and m: "map_of (ix_eq ix') (ix_key c0 f0) = Some vm"
  have old: "(doc_key c0 i \<in> dget vm h {} \<longleftrightarrow> (\<exists>d. v (doc_key c0 i) = Some d \<and> has_hash d f0 h)) \<and>
      (\<forall>d. v (doc_key c0 i) = Some d \<longrightarrow> keyable d f0)"
    if "map_of (ix_eq ix) (ix_key c0 f0) = Some vm"
    using ex g that unfolding eq_exact_def by blast
  show "(doc_key c0 i \<in> dget vm h {} \<longleftrightarrow> (\<exists>d. (if fresh (ix_key c f) ix then filling (ix_key c f) {} v
      else (\<lambda>_. v)) (ix_key c0 f0) (doc_key c0 i) = Some d \<and> has_hash d f0 h)) \<and>
      (\<forall>d. (if fresh (ix_key c f) ix then filling (ix_key c f) {} v
      else (\<lambda>_. v)) (ix_key c0 f0) (doc_key c0 i) = Some d \<longrightarrow> keyable d f0)"
    using ensure_lookup(1)[OF e m] old
    by (cases "ix_key c0 f0 = ix_key c f") (auto simp: filling_def fresh_def restrict_map_def)
qed

lemma ensure_inv_exact:
  assumes ex: "inv_exact ix (\<lambda>_. v)" and e: "ix_ensure c f k ix = (x, ix')"
  shows "inv_exact ix' (if fresh_inv (ix_key c f) ix then filling (ix_key c f) {} v else (\<lambda>_. v))"
  unfolding inv_exact_def
proof (intro allI impI)
  fix c0 f0 im i t
  assume g: "good_coll c0" and m: "map_of (ix_inv ix') (ix_key c0 f0) = Some im"
  have old: "doc_key c0 i \<in> dget im t {} \<longleftrightarrow> (\<exists>d. v (doc_key c0 i) = Some d \<and> has_token d f0 t)"
    if "map_of (ix_inv ix) (ix_key c0 f0) = Some im"
    using ex g that unfolding inv_exact_def by blast
  show "doc_key c0 i \<in> dget im t {} \<longleftrightarrow> (\<exists>d. (if fresh_inv (ix_key c f) ix then filling (ix_key c f) {} v
      else (\<lambda>_. v)) (ix_key c0 f0) (doc_key c0 i) = Some d \<and> has_token d f0 t)"
    using ensure_lookup(2)[OF e m] old
    by (cases "ix_key c0 f0 = ix_key c f") (auto simp: filling_def fresh_inv_def restrict_map_def)
qed

text \<open>The loop: adding a stored document again changes no view, or extends the part passed.\<close>

definition views :: "bool \<Rightarrow> string \<Rightarrow> string set \<Rightarrow> view \<Rightarrow> string \<Rightarrow> view" where
  "views new fld done' v = (if new then filling fld done' v else (\<lambda>_. v))"

lemma views_step:
  "v k = Some d \<Longrightarrow> (\<lambda>fld. (views n new D v fld)(k := Some d)) = views n new (insert k D) v"
  by (auto simp: views_def filling_def restrict_map_def fun_eq_iff)

lemma views_in: "v k = Some d \<Longrightarrow> views n new D v fld k \<in> {None, Some d}"
  by (auto simp: views_def filling_def restrict_map_def)

lemma backfill_exact:
  assumes c: "good_coll c"
  shows "backfill c ks m = (None, m') \<Longrightarrow> \<forall>k\<in>set ks. starts_with (c @ '':'') k \<Longrightarrow>
    eq_exact (m_ix m) (views n new D (head_view m)) \<Longrightarrow>
    inv_exact (m_ix m) (views n' new D (head_view m)) \<Longrightarrow> ix_own (m_ix m) \<Longrightarrow> ix_finite (m_ix m) \<Longrightarrow>
    m_store m' = m_store m \<and> m_rels m' = m_rels m \<and> m_causes m' = m_causes m \<and>
    eq_exact (m_ix m') (views n new (D \<union> set ks) (head_view m)) \<and>
    inv_exact (m_ix m') (views n' new (D \<union> set ks) (head_view m)) \<and> ix_own (m_ix m') \<and>
    ix_finite (m_ix m')"
proof (induction ks arbitrary: m D)
  case (Cons k ks)
  obtain i where k: "k = doc_key c i" using Cons.prems(2) starts_doc_key by auto
  show ?case
  proof (cases "head_view m k")
    case None
    have same: "views n new (insert k D) (head_view m) = views n new D (head_view m)" for n
      using None by (auto simp: views_def filling_def restrict_map_def fun_eq_iff)
    have b: "backfill c ks m = (None, m')" using None Cons.prems(1) by (simp add: head_view_def)
    have "D \<union> set (k # ks) = insert k D \<union> set ks" by simp
    with Cons.IH[OF b, of "insert k D"] Cons.prems(2-) show ?thesis by (simp only: same list.set ball_simps) simp
  next
    case (Some d)
    with Cons.prems(1) obtain m1 where a: "on_ix (ix_add c k d) m = (None, m1)"
      and b: "backfill c ks m1 = (None, m')"
      by (auto simp: head_view_def andthen_eq_None)
    have f: "m_store m1 = m_store m" "m_rels m1 = m_rels m" "m_causes m1 = m_causes m"
      using on_ix_frame[OF a] by simp_all
    have v: "head_view m1 = head_view m" by (auto simp: head_view_def f)
    from a have ad: "ix_add c (doc_key c i) d (m_ix m) = (None, m_ix m1)"
      by (auto simp: on_ix_def k split: prod.splits)
    note vw = views_step[where v = "head_view m" and k = k and d = d, OF Some]
      views_in[where v = "head_view m" and k = k and d = d, OF Some]
    have "eq_exact (m_ix m1) (views n new (insert k D) (head_view m1))"
      using eq_exact_add[OF Cons.prems(3) c _ ad] vw by (simp add: k v)
    moreover have "inv_exact (m_ix m1) (views n' new (insert k D) (head_view m1))"
      using inv_exact_add[OF Cons.prems(4) c _ ad] vw by (simp add: k v)
    moreover have "ix_own (m_ix m1)" "ix_finite (m_ix m1)"
      using ix_own_add[OF Cons.prems(5) c ad] ix_finite_add[OF Cons.prems(6) ad] by simp_all
    ultimately show ?thesis
      using Cons.IH[OF b, of "insert k D"] Cons.prems(2) by (simp add: f v)
  qed
qed simp

lemma filled_views:
  assumes "D = {k. starts_with (c @ '':'') k \<and> v k \<noteq> None}" "good_coll c"
  shows "eq_exact ix (views n (ix_key c f) D v) \<Longrightarrow> eq_exact ix (\<lambda>_. v)"
    "inv_exact ix (views n (ix_key c f) D v) \<Longrightarrow> inv_exact ix (\<lambda>_. v)"
proof -
  have "views n (ix_key c f) D v (ix_key c0 f0) (doc_key c0 i) = v (doc_key c0 i)"
    if "good_coll c0" for c0 f0 i
  proof (cases "ix_key c0 f0 = ix_key c f")
    case True
    then have "c0 = c" using that assms(2) by (metis after_dot_ix_key append_sep_inj good_coll_def ix_key_def append_Cons append_Nil)
    then show ?thesis by (auto simp: views_def filling_def restrict_map_def assms(1))
  qed (simp add: views_def filling_def)
  then show "eq_exact ix (views n (ix_key c f) D v) \<Longrightarrow> eq_exact ix (\<lambda>_. v)"
    "inv_exact ix (views n (ix_key c f) D v) \<Longrightarrow> inv_exact ix (\<lambda>_. v)"
    by (simp_all add: eq_exact_def inv_exact_def)
qed

lemma index_mat_ok:
  assumes c: "good_coll c" and ok: "mat_ok q m" and a: "index_mat c f kd m = (None, m')"
  shows "mat_ok q m'" "m_store m' = m_store m" "m_rels m' = m_rels m" "m_causes m' = m_causes m"
proof -
  note ok' = ok[unfolded mat_ok_def]
  from a obtain m1 where e: "on_ix (ix_ensure c f kd) m = (None, m1)"
    and a': "(case mv_keys (m_store m1) (c @ '':'') None of
        Inl x \<Rightarrow> (Some x, m1) | Inr ks \<Rightarrow> backfill c ks m1) = (None, m')"
    by (auto simp: index_mat_def andthen_eq_None)
  from a' obtain ks where k: "mv_keys (m_store m1) (c @ '':'') None = Inr ks"
    and b: "backfill c ks m1 = (None, m')"
    by (cases "mv_keys (m_store m1) (c @ '':'') None") auto
  have fr: "m_store m1 = m_store m" "m_rels m1 = m_rels m" "m_causes m1 = m_causes m"
    using on_ix_frame[OF e] by simp_all
  have v: "head_view m1 = head_view m" by (auto simp: head_view_def fr)
  from e have en: "ix_ensure c f kd (m_ix m) = (None, m_ix m1)" by (auto simp: on_ix_def split: prod.splits)
  let ?n = "fresh (ix_key c f) (m_ix m)" and ?n' = "fresh_inv (ix_key c f) (m_ix m)"
  have "eq_exact (m_ix m1) (views ?n (ix_key c f) {} (head_view m1))"
    "inv_exact (m_ix m1) (views ?n' (ix_key c f) {} (head_view m1))"
    using ensure_eq_exact[OF _ en] ensure_inv_exact[OF _ en] ok' by (simp_all add: views_def v)
  moreover have "ix_own (m_ix m1)" "ix_finite (m_ix m1)"
    using ensure_own[OF _ en] ensure_finite[OF _ en] ok' by simp_all
  moreover have ks: "set ks = {k. starts_with (c @ '':'') k \<and> head_view m k \<noteq> None}"
    using k ok' set_live_keys[of "m_store m" "c @ '':''" None]
    by (simp add: mv_keys_live fr head_view_def)
  ultimately have r: "m_store m' = m_store m1 \<and> m_rels m' = m_rels m1 \<and> m_causes m' = m_causes m1 \<and>
      eq_exact (m_ix m') (views ?n (ix_key c f) ({} \<union> set ks) (head_view m1)) \<and>
      inv_exact (m_ix m') (views ?n' (ix_key c f) ({} \<union> set ks) (head_view m1)) \<and> ix_own (m_ix m') \<and>
      ix_finite (m_ix m')"
    by (intro backfill_exact[OF c b]) auto
  then show "m_store m' = m_store m" "m_rels m' = m_rels m" "m_causes m' = m_causes m"
    using fr by simp_all
  then have "head_view m' = head_view m" by (auto simp: head_view_def)
  moreover have "eq_exact (m_ix m') (\<lambda>_. head_view m)" "inv_exact (m_ix m') (\<lambda>_. head_view m)"
    using r by (auto simp: v intro!: filled_views(1)[OF ks c, of _ "?n" f] filled_views(2)[OF ks c, of _ "?n'" f])
  ultimately show "mat_ok q m'" using ok' r fr by (simp add: mat_ok_def)
qed

lemma create_index_ok:
  assumes ok: "engine_ok X e" and c: "good_coll c"
    and a: "eng_create_index X c f kd e = (Inr (), e')"
  shows "engine_ok X e'"
proof -
  from a obtain m where m: "index_mat c f kd (e_mat e) = (None, m)"
    and e': "e' = persist_meta X (e\<lparr> e_mat := m \<rparr>)"
    by (auto simp: eng_create_index_def on_mat_def bindC_Inr split: prod.splits option.splits)
  have "mat_ok (eng_seq e) (e_mat e)" using ok by (simp add: engine_ok_def)
  from index_mat_ok[OF c this m] ok have "engine_ok X (e\<lparr> e_mat := m \<rparr>)"
    by (simp add: engine_ok_def data_ok_def disk_ok_def eng_seq_def)
  then show ?thesis by (simp add: e' persist_meta_ok)
qed

end
