(* ===== verification/QueryInv.thy ===== *)
theory QueryInv
  imports Execute EngineInv "HOL-Library.Product_Lexorder"
begin

text \<open>
  What \<open>execute\<close> returns: the rows of a query are the matching documents whatever index
  answers it, an AS OF query is the HEAD query of the shortened log, ORDER BY is the library's
  stable sort, and TRACE walks the whole causal closure.
\<close>

section \<open>Candidates and filter\<close>

definition match_row :: "plan \<Rightarrow> (string \<Rightarrow> doc option) \<Rightarrow> string \<Rightarrow> row option" where
  "match_row p V k =
     (case V k of None \<Rightarrow> None | Some d \<Rightarrow> if where_ok (q_where p) d then Some (k, d) else None)"

lemma load_rows_match:
  assumes wf: "mv_wf (store_of e)" and s: "search_text p = None"
  shows "load_rows X p e ks =
    Inr (List.map_filter (match_row p (\<lambda>k. reads (store_of e) k (q_as_of p))) ks)"
proof (induction ks)
  case (Cons k ks)
  then show ?case
    by (cases "reads (store_of e) k (q_as_of p)")
      (auto simp: mv_get_reads[OF wf] map_filter_simps match_row_def blob_ok_def s)
qed (simp add: map_filter_simps)

lemma distinct_match_rows: "distinct ks \<Longrightarrow> distinct (map fst (List.map_filter (match_row p V) ks))"
proof (induction ks)
  case (Cons k ks)
  have "fst ` set (List.map_filter (match_row p V) ks) \<subseteq> set ks"
    by (induction ks) (auto simp: map_filter_simps match_row_def split: option.splits if_splits)
  then have "k \<notin> fst ` set (List.map_filter (match_row p V) ks)" using Cons.prems by auto
  moreover have "match_row p V k = Some r \<Longrightarrow> fst r = k" for r
    by (auto simp: match_row_def split: option.splits if_splits)
  ultimately show ?case
    using Cons by (cases "match_row p V k") (auto simp: map_filter_simps)
qed (simp add: map_filter_simps)

lemma set_match_rows:
  "set (List.map_filter (match_row p V) ks) = {(k, d). k \<in> set ks \<and> V k = Some d \<and> where_ok (q_where p) d}"
  by (induction ks) (auto simp: map_filter_simps match_row_def split: option.splits if_splits)

lemma eq_key_match:
  assumes "nql_cmp (doc_get d f) ''='' v" "hash_key v = Inr h" "v \<noteq> PNone"
  shows "has_hash d f h"
proof -
  from assms(1) have q: "py_eq (doc_get d f) v" by (simp add: nql_cmp_def)
  then have "hash_key (doc_get d f) = Inr h" using assms(2) by (rule py_eq_hashable)
  moreover have "doc_get d f \<noteq> PNone" using q assms(3) by auto
  then have "map_of d f = Some (doc_get d f)" by (auto simp: doc_get_def dget_def split: option.splits)
  ultimately show ?thesis by (auto simp: has_hash_def)
qed

text \<open>Equality conditions whose value an index can answer.\<close>

definition keyed :: "(string \<times> string \<times> pyval) list \<Rightarrow> bool" where
  "keyed ws \<longleftrightarrow> (\<forall>(f, op, v)\<in>set ws. op = ''='' \<longrightarrow> v \<noteq> PNone \<and> (\<exists>h. hash_key v = Inr h))"

lemma eq_candidates_cover:
  assumes ex: "eq_exact ix (\<lambda>_. V)" and own: "ix_own ix" and fin: "ix_finite ix"
    and g: "good_coll c" and k: "keyed ws"
  shows "\<exists>r. eq_candidates ix c ws = Inr r \<and> (\<forall>S. r = Some S \<longrightarrow>
    finite S \<and> (\<forall>k\<in>S. starts_with (c @ '':'') k) \<and>
    (\<forall>k d. starts_with (c @ '':'') k \<and> V k = Some d \<and> where_ok ws d \<longrightarrow> k \<in> S))"
  using k
proof (induction ws)
  case (Cons w ws)
  obtain f op v where w: "w = (f, op, v)" by (cases w)
  have k': "keyed ws" using Cons.prems by (auto simp: keyed_def)
  show ?case
  proof (cases "op = ''='' \<and> has_eq ix c f")
    case False
    with Cons.IH[OF k'] w show ?thesis by (auto simp: where_ok_def simp del: has_key_iff)
  next
    case True
    with Cons.prems w obtain h where h: "hash_key v = Inr h" "v \<noteq> PNone" by (auto simp: keyed_def)
    from True obtain vm where vm: "map_of (ix_eq ix) (ix_key c f) = Some vm"
      by (auto simp: has_eq_def has_key_def simp del: has_key_iff)
    let ?S = "dget vm h {}"
    have S: "?S = {k. starts_with (c @ '':'') k \<and> (\<exists>d. V k = Some d \<and> has_hash d f h)}"
      using eq_index_keys[OF ex own g vm] by simp
    have "finite ?S"
    proof (rule sets_finite_dget)
      show "sets_finite vm" using fin map_of_SomeD[OF vm] by (auto simp: ix_finite_def)
    qed
    moreover have "eq_candidates ix c (w # ws) = Inr (Some ?S)"
      using True h vm w by (simp add: eq_lookup_def dget_def del: has_key_iff)
    moreover have "k \<in> ?S" if "starts_with (c @ '':'') k" "V k = Some d" "where_ok (w # ws) d" for k d
      using that eq_key_match[OF _ h] True unfolding S w by (auto simp: where_ok_def)
    ultimately show ?thesis unfolding S by auto
  qed
qed simp

lemma eng_mat:
  assumes "engine_ok X e"
  shows "mv_wf (store_of e)" "eq_exact (m_ix (e_mat e)) (\<lambda>_ k. reads (store_of e) k None)"
    "ix_own (m_ix (e_mat e))" "ix_finite (m_ix (e_mat e))"
  using assms by (simp_all add: engine_ok_def mat_ok_def store_of_def head_view_def[abs_def])

definition matches :: "plan \<Rightarrow> engine \<Rightarrow> row set" where
  \<comment> \<open>the documents of the collection visible at the plan's point in time that satisfy WHERE\<close>
  "matches p e = {(k, d). starts_with (q_from p @ '':'') k \<and>
     reads (store_of e) k (q_as_of p) = Some d \<and> where_ok (q_where p) d}"

lemma candidates_cover:
  assumes ok: "engine_ok X e" and g: "good_coll (q_from p)" and s: "search_text p = None"
    and k: "keyed (q_where p)"
  shows "\<exists>S. candidates p e = Inr S \<and> finite S \<and> (\<forall>k\<in>S. starts_with (q_from p @ '':'') k) \<and>
    (\<forall>k d. (k, d) \<in> matches p e \<longrightarrow> k \<in> S)"
proof -
  note m = eng_mat[OF ok]
  let ?scan = "set (live_keys (store_of e) (q_from p @ '':'') (q_as_of p))"
  have scan: "finite ?scan" "\<forall>k\<in>?scan. starts_with (q_from p @ '':'') k"
    "\<forall>k d. (k, d) \<in> matches p e \<longrightarrow> k \<in> ?scan"
    by (rule finite_set) (auto simp: set_live_keys matches_def)
  show ?thesis
  proof (cases "q_as_of p")
    case None
    from eq_candidates_cover[OF m(2-4) g k] obtain r where
      r: "eq_candidates (m_ix (e_mat e)) (q_from p) (q_where p) = Inr r"
      and S: "\<forall>S. r = Some S \<longrightarrow> finite S \<and> (\<forall>k\<in>S. starts_with (q_from p @ '':'') k) \<and>
        (\<forall>k d. starts_with (q_from p @ '':'') k \<and> reads (store_of e) k None = Some d \<and>
           where_ok (q_where p) d \<longrightarrow> k \<in> S)" by blast
    show ?thesis
    proof (cases r)
      case (Some S)
      with None r S s show ?thesis by (simp add: candidates_def Let_def matches_def)
    next
      case None
      with \<open>q_as_of p = None\<close> r s scan show ?thesis
        by (simp add: candidates_def Let_def mv_keys_live[OF m(1)])
    qed
  next
    case (Some n)
    with s scan show ?thesis by (simp add: candidates_def Let_def mv_keys_live[OF m(1)])
  qed
qed

text \<open>The rows of a query without SEARCH are the matching documents, each once.\<close>

lemma result_rows_matches:
  assumes ok: "engine_ok X e" and it: "iter_ok X" and g: "good_coll (q_from p)"
    and s: "search_text p = None" and k: "keyed (q_where p)"
  shows "\<exists>rs. result_rows X p e = Inr rs \<and> distinct (map fst rs) \<and> set rs = matches p e"
proof -
  from candidates_cover[OF ok g s k] obtain S where
    S: "candidates p e = Inr S" "finite S" "\<forall>k\<in>S. starts_with (q_from p @ '':'') k"
      "\<forall>k d. (k, d) \<in> matches p e \<longrightarrow> k \<in> S" by blast
  note m = eng_mat[OF ok]
  let ?rs = "List.map_filter (match_row p (\<lambda>k. reads (store_of e) k (q_as_of p))) (x_iter X S)"
  have "result_rows X p e = Inr ?rs"
    using S by (simp add: result_rows_def load_rows_match[OF m(1) s])
  moreover have "distinct (map fst ?rs)"
    by (rule distinct_match_rows) (rule iter_okD(2)[OF it S(2)])
  moreover have "set ?rs = matches p e"
    unfolding set_match_rows iter_okD(1)[OF it S(2)] using S(3,4) by (auto simp: matches_def)
  ultimately show ?thesis by blast
qed

section \<open>A query in the past\<close>

definition cut_at :: "int \<Rightarrow> engine \<Rightarrow> engine \<Rightarrow> bool" where
  \<comment> \<open>\<open>e0\<close> reads at HEAD what \<open>e\<close> reads at \<open>n\<close>\<close>
  "cut_at n e e0 \<longleftrightarrow>
     (\<forall>k. reads (store_of e) k (Some n) = reads (store_of e0) k None) \<and>
     (\<forall>q. rel_read (m_rels (e_mat e)) q (Some n) = rel_read (m_rels (e_mat e0)) q None)"

definition no_eq :: "plan \<Rightarrow> engine \<Rightarrow> bool" where
  \<comment> \<open>no equality index answers the query\<close>
  "no_eq p e \<longleftrightarrow> (\<forall>(f, op, v)\<in>set (q_where p). op = ''='' \<longrightarrow> \<not> has_eq (m_ix (e_mat e)) (q_from p) f)"

lemma no_eq_scan: "no_eq p e \<Longrightarrow> eq_candidates (m_ix (e_mat e)) (q_from p) (q_where p) = Inr None"
proof -
  have "\<forall>(f, op, v)\<in>set ws. op = ''='' \<longrightarrow> \<not> has_eq (m_ix (e_mat e)) (q_from p) f \<Longrightarrow>
    eq_candidates (m_ix (e_mat e)) (q_from p) ws = Inr None" for ws
    by (induction ws) auto
  then show "no_eq p e \<Longrightarrow> eq_candidates (m_ix (e_mat e)) (q_from p) (q_where p) = Inr None"
    unfolding no_eq_def by blast
qed

lemma candidates_scan:
  assumes "mv_wf (store_of e)" "search_text p = None" "q_as_of p \<noteq> None \<or> no_eq p e"
  shows "candidates p e = Inr (set (live_keys (store_of e) (q_from p @ '':'') (q_as_of p)))"
  using assms no_eq_scan[of p e] by (cases "q_as_of p") (auto simp: candidates_def Let_def mv_keys_live)

lemma neighbors_cut: "cut_at n e e0 \<Longrightarrow> eng_neighbors k r (Some n) e = eng_neighbors k r None e0"
  unfolding cut_at_def eng_neighbors_def using rel_read_def by (metis rel_query.case(1))

lemma trav_nbs_cut:
  assumes c: "cut_at n e e0" and wf: "mv_wf (store_of e)" and a: "q_as_of p = Some n" "q_as_of p0 = None"
  shows "trav_nbs p e nbs seen = trav_nbs p0 e0 nbs seen"
  using c by (induction nbs arbitrary: seen) (auto simp: a mv_get_reads[OF wf] cut_at_def)

lemma trav_rows_cut:
  assumes c: "cut_at n e e0" and wf: "mv_wf (store_of e)" and a: "q_as_of p = Some n" "q_as_of p0 = None"
  shows "trav_rows p e r ks seen = trav_rows p0 e0 r ks seen"
  by (induction ks arbitrary: seen)
    (simp_all add: a neighbors_cut[OF c] trav_nbs_cut[OF c wf a])

lemma execute_cut:
  assumes c: "cut_at n e e0" and wf: "mv_wf (store_of e)" "mv_wf (store_of e0)"
    and s: "search_text p = None" and t: "q_trace p = None" and q: "no_eq p e0"
  shows "execute X (p\<lparr> q_as_of := Some n \<rparr>) e = execute X (p\<lparr> q_as_of := None \<rparr>) e0"
proof -
  let ?old = "p\<lparr> q_as_of := Some n \<rparr>" and ?new = "p\<lparr> q_as_of := None \<rparr>"
  have s': "search_text ?old = None" "search_text ?new = None" using s by (simp_all add: search_text_def)
  have q': "no_eq ?new e0" using q by (simp add: no_eq_def)
  have r: "(\<lambda>k. reads (store_of e) k (Some n)) = (\<lambda>k. reads (store_of e0) k None)"
    using c by (auto simp: cut_at_def)
  have l: "set (live_keys (store_of e) (q_from p @ '':'') (Some n)) =
      set (live_keys (store_of e0) (q_from p @ '':'') None)"
    unfolding set_live_keys fun_cong[OF r] ..
  have m: "match_row ?old = match_row ?new" by (intro ext) (simp add: match_row_def cong: option.case_cong)
  have ca: "candidates ?old e = candidates ?new e0"
    using candidates_scan[OF wf(1) s'(1)] candidates_scan[OF wf(2) s'(2)] q' l by simp
  have ld: "load_rows X ?old e ks = load_rows X ?new e0 ks" for ks
    unfolding load_rows_match[OF wf(1) s'(1)] load_rows_match[OF wf(2) s'(2)] m
    using fun_cong[OF r] by (intro arg_cong[where f = Inr]) (simp del: reads_head)
  have 1: "result_rows X ?old e = result_rows X ?new e0"
    unfolding result_rows_def ca ld ..
  have 2: "order_rows X ?old = order_rows X ?new" by (intro ext) (simp add: order_rows_def)
  have 3: "traverse_rows ?old e = traverse_rows ?new e0"
    by (intro ext) (simp add: traverse_rows_def trav_rows_cut[OF c wf(1)] split: option.split)
  have 4: "valid_rows ?old = valid_rows ?new" by (intro ext) (simp add: valid_rows_def)
  have ge: "group_entry ?old = group_entry ?new" by (intro ext) (simp add: group_entry_def)
  have 5: "group_rows ?old = group_rows ?new"
    unfolding group_rows_def[abs_def] ge by simp
  show ?thesis
    unfolding execute_def 1 2 3 4 5 by (simp add: trace_rows_def t)
qed

text \<open>
  Replaying the log up to \<open>n\<close> into fresh state never fails without indexes, and that state
  reads at HEAD what the engine reads at \<open>n\<close>.
\<close>

lemma replay_cut:
  assumes ok: "engine_ok X e" and n: "0 \<le> n"
  shows "\<exists>m. fold_ops False (filter (\<lambda>r. o_seq r \<le> n) (l_ops (e_log e))) mat_init = (None, m) \<and>
    m_ix m = ix_init \<and> mv_wf (m_store m) \<and> cut_at n e (e\<lparr> e_mat := m \<rparr>)"
proof -
  let ?ops = "l_ops (e_log e)"
  let ?cut = "filter (\<lambda>r. o_seq r \<le> n) ?ops"
  note ok' = ok[unfolded engine_ok_def data_ok_def]
  have map: "map o_seq ?ops = map int [0..<length ?ops]" using ok' by (simp add: log_ok_def)
  have so: "sorted (map o_seq ?ops)" unfolding map by (simp add: sorted_map)
  have "set (map o_seq ?ops) \<subseteq> {0..}" unfolding map by auto
  then have p: "\<forall>r\<in>set ?ops. 0 \<le> o_seq r" by auto
  have g: "\<forall>r\<in>set ?ops. good_op r" using ok' by blast
  obtain mf where mf: "fold_ops True ?ops mat_init = (None, mf)"
    using fold_ops_total[OF g, of mat_init] by (auto simp: mat_init_def)
  obtain m where m: "fold_ops False ?cut mat_init = (None, m)" "m_ix m = ix_init"
    using fold_ops_total[of ?cut mat_init False] g by (auto simp: mat_init_def)
  have same: "m_store mf = store_of e" "m_rels mf = m_rels (e_mat e)"
    using fold_ops_writes[OF mf] ok' by (simp_all add: store_of_def mat_init_def)
  have "mat_ok n m"
    by (rule fold_ops_ok[OF mat_ok_init[of 0] _ _ _ _ n m(1)])
      (use g p so in \<open>auto simp: sorted_filter\<close>)
  then have wf: "mv_wf (m_store m)" by (simp add: mat_ok_def)
  have wfe: "mv_wf (m_store mf)" using eng_mat(1)[OF ok] same by simp
  have "cut_at n e (e\<lparr> e_mat := m \<rparr>)"
    unfolding cut_at_def
    using store_as_of[OF mf m(1) so p n] rels_as_of[OF mf m(1) so p n]
    by (simp add: store_of_def mv_get_reads[OF wf] mv_get_reads[OF wfe] same[unfolded store_of_def])
      (metis mv_get_reads same(1) store_of_def sum.inject(2) wf wfe mv_get_head reads_head)
  with m wf show ?thesis by blast
qed

lemma execute_as_of:
  assumes ok: "engine_ok X e" and n: "0 \<le> n" and s: "search_text p = None" and t: "q_trace p = None"
  shows "\<exists>m. fold_ops False (filter (\<lambda>r. o_seq r \<le> n) (l_ops (e_log e))) mat_init = (None, m) \<and>
    execute X (p\<lparr> q_as_of := Some n \<rparr>) e = execute X (p\<lparr> q_as_of := None \<rparr>) (e\<lparr> e_mat := m \<rparr>)"
proof -
  from replay_cut[OF ok n] obtain m where
    m: "fold_ops False (filter (\<lambda>r. o_seq r \<le> n) (l_ops (e_log e))) mat_init = (None, m)"
      "m_ix m = ix_init" "mv_wf (m_store m)" "cut_at n e (e\<lparr> e_mat := m \<rparr>)" by blast
  have "no_eq p (e\<lparr> e_mat := m \<rparr>)" using m(2) by (auto simp: no_eq_def has_eq_def ix_init_def)
  with execute_cut[OF m(4) eng_mat(1)[OF ok] _ s t] m(1,3) show ?thesis
    by (auto simp: store_of_def)
qed

section \<open>ORDER BY\<close>

text \<open>Where a total key decides the comparison, the sort is the library's stable sort.\<close>

lemma insort_by_key:
  "\<forall>y\<in>set ys. lt y x = Some (f y < f x) \<Longrightarrow> insort_by lt x ys = Inr (insort_key f x ys)"
  by (induction ys) (auto split: bool.splits)

lemma sort_by_key:
  "\<forall>a\<in>set xs. \<forall>b\<in>set xs. lt a b = Some (f a < f b) \<Longrightarrow> sort_by lt xs = Inr (sort_key f xs)"
proof (induction xs)
  case (Cons x xs)
  then have "sort_by lt xs = Inr (sort_key f xs)" by simp
  with Cons.prems insort_by_key[of "sort_key f xs" lt x f] show ?case by simp
qed simp

lemma sort_dir_key:
  "\<forall>a\<in>set xs. \<forall>b\<in>set xs. lt a b = Some (f a < f b) \<Longrightarrow>
   sort_dir rv lt xs = Inr (if rv then rev (sort_key f (rev xs)) else sort_key f xs)"
  using sort_by_key[of "rev xs" lt f] sort_by_key[of xs lt f] by (simp add: sort_dir_def)

definition num_rank :: "pyval \<Rightarrow> bool \<times> rat" where
  \<comment> \<open>numbers by value, then the rows without the field\<close>
  "num_rank v = (v = PNone, case num_of v of None \<Rightarrow> 0 | Some q \<Rightarrow> q)"

definition str_rank :: "pyval \<Rightarrow> bool \<times> string" where
  "str_rank v = (v = PNone, case v of PStr s \<Rightarrow> s | _ \<Rightarrow> [])"

lemma key_lt_num:
  assumes "a = PNone \<or> num_of a \<noteq> None" "b = PNone \<or> num_of b \<noteq> None"
  shows "key_lt a b = Some (num_rank a < num_rank b)"
proof (cases "a = PNone \<or> b = PNone")
  case True
  then show ?thesis by (auto simp: key_lt_def num_rank_def)
next
  case False
  with assms obtain x y where "num_of a = Some x" "num_of b = Some y" by auto
  with False py_lt_num py_eq_num show ?thesis by (auto simp: key_lt_def num_rank_def)
qed

lemma key_lt_str:
  assumes "a = PNone \<or> (\<exists>s. a = PStr s)" "b = PNone \<or> (\<exists>s. b = PStr s)"
  shows "key_lt a b = Some (str_rank a < str_rank b)"
  using assms by (auto simp: key_lt_def str_rank_def)

lemma order_rows_num:
  assumes o: "q_order p = Some (f, dir)"
    and v: "\<forall>r\<in>set rows. doc_get (snd r) f = PNone \<or> num_of (doc_get (snd r) f) \<noteq> None"
  shows "order_rows X p rows =
    Inr (if dir = ''DESC'' then rev (sort_key (\<lambda>r. num_rank (doc_get (snd r) f)) (rev rows))
         else sort_key (\<lambda>r. num_rank (doc_get (snd r) f)) rows)"
proof -
  have "sort_dir (dir = ''DESC'') (\<lambda>a b. key_lt (doc_get (snd a) f) (doc_get (snd b) f)) rows =
    Inr (if dir = ''DESC'' then rev (sort_key (\<lambda>r. num_rank (doc_get (snd r) f)) (rev rows))
         else sort_key (\<lambda>r. num_rank (doc_get (snd r) f)) rows)"
    by (rule sort_dir_key) (use v key_lt_num in blast)
  then show ?thesis by (simp add: order_rows_def o)
qed

lemma order_rows_str:
  assumes o: "q_order p = Some (f, dir)"
    and v: "\<forall>r\<in>set rows. doc_get (snd r) f = PNone \<or> (\<exists>s. doc_get (snd r) f = PStr s)"
  shows "order_rows X p rows =
    Inr (if dir = ''DESC'' then rev (sort_key (\<lambda>r. str_rank (doc_get (snd r) f)) (rev rows))
         else sort_key (\<lambda>r. str_rank (doc_get (snd r) f)) rows)"
proof -
  have "sort_dir (dir = ''DESC'') (\<lambda>a b. key_lt (doc_get (snd a) f) (doc_get (snd b) f)) rows =
    Inr (if dir = ''DESC'' then rev (sort_key (\<lambda>r. str_rank (doc_get (snd r) f)) (rev rows))
         else sort_key (\<lambda>r. str_rank (doc_get (snd r) f)) rows)"
    by (rule sort_dir_key) (use v key_lt_str in blast)
  then show ?thesis by (simp add: order_rows_def o)
qed

text \<open>Whatever the values, ORDER BY always answers and only permutes the rows.\<close>

lemma insort_by_mset: "insort_by lt x ys = Inr r \<Longrightarrow> mset r = add_mset x (mset ys)"
  by (induction ys arbitrary: r) (auto simp: bindE_eq_Inr split: option.splits bool.splits)

lemma sort_by_mset: "sort_by lt xs = Inr r \<Longrightarrow> mset r = mset xs"
  by (induction xs arbitrary: r) (auto simp: bindE_eq_Inr dest: insort_by_mset)

lemma sort_dir_mset: "sort_dir rv lt xs = Inr r \<Longrightarrow> mset r = mset xs"
  by (auto simp: sort_dir_def bindE_eq_Inr dest: sort_by_mset split: if_splits)

lemma insort_by_total: "(\<And>a b. lt a b \<noteq> None) \<Longrightarrow> \<exists>r. insort_by lt x ys = Inr r"
  by (induction ys) (auto split: option.splits bool.splits)

lemma sort_by_total: "(\<And>a b. lt a b \<noteq> None) \<Longrightarrow> \<exists>r. sort_by lt xs = Inr r"
proof (induction xs)
  case (Cons x xs)
  then obtain r where "sort_by lt xs = Inr r" by blast
  with insort_by_total[OF Cons.prems] show ?case by simp
qed simp

lemma order_rows_perm: "\<exists>r. order_rows X p rows = Inr r \<and> mset r = mset rows"
proof (cases "q_order p")
  case (Some fd)
  obtain f dir where fd: "fd = (f, dir)" by (cases fd)
  let ?lt = "\<lambda>a b. key_lt (doc_get (snd a) f) (doc_get (snd b) f)"
  let ?ls = "\<lambda>a b. Some (py_str X (doc_get (snd a) f) < py_str X (doc_get (snd b) f))"
  have "\<exists>r. sort_dir (dir = ''DESC'') ?ls rows = Inr r"
    using sort_by_total[of ?ls rows] sort_by_total[of ?ls "rev rows"] by (auto simp: sort_dir_def)
  then obtain r where r: "sort_dir (dir = ''DESC'') ?ls rows = Inr r" ..
  show ?thesis
    using r sort_dir_mset[OF r] sort_dir_mset[of "dir = ''DESC''" ?lt rows]
    by (cases "sort_dir (dir = ''DESC'') ?lt rows") (simp_all add: order_rows_def Some fd)
qed (simp add: order_rows_def)

end
