(* ===== verification/Runs.thy ===== *)
theory Runs
  imports QueryInv
begin

text \<open>
  Histories of calls: the step relation of the API, the invariant and the immutability of the
  past on every reachable engine, the effect of a write on reads, nonces drawn by the engine,
  and determinism of the rebuild.
\<close>

section \<open>Flush and close\<close>

lemma flush_ok: "engine_ok X e \<Longrightarrow> engine_ok X (eng_flush e)"
  by (auto simp: eng_flush_def engine_ok_def disk_ok_def eng_seq_def split: option.splits)

lemma close_ok: "engine_ok X e \<Longrightarrow> engine_ok X (eng_close e)"
  using flush_ok[of X e] by (auto simp: eng_close_def engine_ok_def disk_ok_def eng_seq_def)

section \<open>Steps and runs\<close>

text \<open>
  One step is one successful call by a client that keeps to the documented types: collection
  names without dots and colons, documents JSON can represent, confidences that are doubles.
\<close>

inductive api_step :: "ext \<Rightarrow> engine \<Rightarrow> engine \<Rightarrow> bool" for X where
  put: "env_ok V \<Longrightarrow> good_coll coll \<Longrightarrow> pv_ok (PDict d) \<Longrightarrow> prov_ok pr \<Longrightarrow>
    eng_put X V coll i d client nonce idm ttl pr e = (Inr r, e') \<Longrightarrow> api_step X e e'"
| delete: "env_ok V \<Longrightarrow> good_coll coll \<Longrightarrow>
    eng_delete X V coll i client nonce idm e = (Inr (), e') \<Longrightarrow> api_step X e e'"
| link: "env_ok V \<Longrightarrow> eng_link X V f l t client nonce e = (Inr (), e') \<Longrightarrow> api_step X e e'"
| unlink: "env_ok V \<Longrightarrow> eng_unlink X V f l t client nonce e = (Inr (), e') \<Longrightarrow> api_step X e e'"
| get: "env_ok V \<Longrightarrow> good_coll coll \<Longrightarrow> eng_get X V coll i as_of e = (Inr x, e') \<Longrightarrow> api_step X e e'"
| expire: "env_ok V \<Longrightarrow> good_coll coll \<Longrightarrow> eng_expire X V coll i secs e = (Inr b, e') \<Longrightarrow> api_step X e e'"
| sweep: "env_ok V \<Longrightarrow> eng_sweep X V e = (Inr n, e') \<Longrightarrow> api_step X e e'"
| put_file: "env_ok V \<Longrightarrow> eng_put_file X V name data tier client nonce idm e = (Inr v, e') \<Longrightarrow>
    api_step X e e'"
| create_index: "good_coll coll \<Longrightarrow> eng_create_index X coll field kind e = (Inr (), e') \<Longrightarrow> api_step X e e'"
| flush: "api_step X e (eng_flush e)"
| close: "api_step X e (eng_close e)"

abbreviation api_run :: "ext \<Rightarrow> engine \<Rightarrow> engine \<Rightarrow> bool" where
  "api_run X \<equiv> (api_step X)\<^sup>*\<^sup>*"

lemma step_ok:
  assumes X: "ext_ok X"
  shows "api_step X e e' \<Longrightarrow> engine_ok X e \<Longrightarrow> engine_ok X e'"
proof (induction rule: api_step.induct)
  case (create_index coll field kind e e')
  then show ?case using create_index_ok[OF _ create_index(1,2)] by blast
qed (use X put_ok delete_ok link_ok unlink_ok get_ok expire_ok sweep_ok put_file_call_ok flush_ok close_ok
    in \<open>metis+\<close>)

lemma run_ok:
  assumes X: "ext_ok X"
  shows "api_run X e e' \<Longrightarrow> engine_ok X e \<Longrightarrow> engine_ok X e'"
  by (induction rule: rtranclp_induct) (auto intro: step_ok[OF X])

section \<open>The log only grows\<close>

definition grows :: "engine \<Rightarrow> engine \<Rightarrow> bool" where
  "grows e e' \<longleftrightarrow> (\<exists>rs. l_ops (e_log e') = l_ops (e_log e) @ rs)"

lemma grows_refl [simp]: "grows e e" by (simp add: grows_def)

lemma grows_trans: "grows a b \<Longrightarrow> grows b c \<Longrightarrow> grows a c"
  by (auto simp: grows_def)

lemma grows_same [simp]: "e_log e' = e_log e \<Longrightarrow> grows e e'"
  by (simp add: grows_def)

lemma flush_log [simp]: "e_log (eng_flush e) = e_log e" "e_mat (eng_flush e) = e_mat e"
  "e_nonce (eng_flush e) = e_nonce e" "e_blobs (eng_flush e) = e_blobs e"
  by (simp_all add: eng_flush_def)

lemma close_log [simp]: "e_log (eng_close e) = e_log e"
  by (simp add: eng_close_def)

lemma append_log:
  assumes "eng_append X ts rnd client nonce op payload idm pr e = (Inr (r, created), e')"
  shows "log_append X client nonce op payload idm ts pr (e_log e) = Inr (r, created, e_log e')"
    "e_mat e' = e_mat e" "e_nonce e' = e_nonce e"
  using assms by (auto simp: eng_append_def Let_def split: sum.splits if_splits)

lemma append_grows:
  assumes "eng_append X ts rnd client nonce op payload idm pr e = (Inr (r, created), e')"
  shows "grows e e'"
  using append_log(1)[OF assms]
  by (auto simp: log_append_def Let_def grows_def bindE_eq_Inr split: option.splits if_splits
      dest!: sym[of _ "e_log e'"])

lemma fold_frame: "eng_fold c r e = (x, e') \<Longrightarrow> e_log e' = e_log e \<and> e_nonce e' = e_nonce e"
  by (auto simp: eng_fold_def split: prod.splits)

lemma commit_grows:
  assumes "commit X ts rnd client nonce op payload idm pr e = (Inr (), e')"
  shows "grows e e'"
proof -
  from assms obtain r created e1 where
    a: "eng_append X ts rnd client nonce op payload idm pr e = (Inr (r, created), e1)"
    and f: "(if created then eng_fold True r e1 else (Inr (), e1)) = (Inr (), e')"
    by (auto simp: commit_def bindC_Inr)
  from f have "e_log e' = e_log e1" by (cases created) (auto dest: fold_frame)
  with append_grows[OF a] show ?thesis by (simp add: grows_def)
qed

lemma nonce_grows: "pick_nonce client nonce e = (n, e1) \<Longrightarrow> grows e1 e' = grows e e'"
  using pick_nonce_frame(2)[of client nonce e n e1] by (simp add: grows_def)

lemma put_grows: "eng_put X V coll i d client nonce idm ttl pr e = (Inr r, e') \<Longrightarrow> grows e e'"
  by (auto simp: eng_put_def Let_def bindC_Inr split: prod.splits dest!: commit_grows)
    (auto dest: nonce_grows)

lemma delete_grows: "eng_delete X V coll i client nonce idm e = (Inr (), e') \<Longrightarrow> grows e e'"
  by (auto simp: eng_delete_def split: prod.splits dest!: commit_grows) (auto dest: nonce_grows)

lemma link_grows: "eng_link X V f l t client nonce e = (Inr (), e') \<Longrightarrow> grows e e'"
  by (auto simp: eng_link_def split: prod.splits dest!: commit_grows) (auto dest: nonce_grows)

lemma unlink_grows: "eng_unlink X V f l t client nonce e = (Inr (), e') \<Longrightarrow> grows e e'"
  by (auto simp: eng_unlink_def split: prod.splits dest!: commit_grows) (auto dest: nonce_grows)

lemma ttl_grows:
  assumes "ttl_delete X ts rnd coll i e = (Inr (), e')" shows "grows e e'"
proof -
  obtain n e1 where n: "pick_nonce ''__ttl__'' None e = (n, e1)" by (cases "pick_nonce ''__ttl__'' None e")
  from assms n have "commit X ts rnd ''__ttl__'' n ''delete'' (delete_payload coll i) None no_prov e1 = (Inr (), e')"
    by (simp add: ttl_delete_commit pick_nonce_def)
  from commit_grows[OF this] nonce_grows[OF n] show ?thesis by simp
qed

lemma get_grows: "eng_get X V coll i as_of e = (Inr x, e') \<Longrightarrow> grows e e'"
  by (auto simp: eng_get_def check_ttl_def Let_def bindC_Inr dest!: ttl_grows
      split: sum.splits option.splits if_splits bool.splits)

lemma expire_grows: "eng_expire X V coll i secs e = (Inr b, e') \<Longrightarrow> grows e e'"
  by (auto simp: eng_expire_def bindC_Inr dest!: put_grows split: sum.splits option.splits)

lemma sweep_keys_grows: "sweep_keys X V ks n e = (Inr m, e') \<Longrightarrow> grows e e'"
proof (induction ks arbitrary: n e)
  case (Cons k ks)
  then show ?case
    by (auto simp: bindC_Inr dest!: ttl_grows split: sum.splits bool.splits prod.splits)
      (meson Cons.IH grows_trans)
qed simp

lemma persist_log [simp]: "e_log (persist_meta X e) = e_log e" "e_mat (persist_meta X e) = e_mat e"
  "e_nonce (persist_meta X e) = e_nonce e"
  by (simp_all add: persist_meta_def)

lemma sweep_grows:
  assumes "eng_sweep X V e = (Inr n, e')" shows "grows e e'"
proof -
  from assms obtain ks e1 where k: "sweep_keys X V ks 0 e = (Inr n, e1)"
    and e': "e' = (if 0 < n then persist_meta X e1 else e1)"
    by (auto simp: eng_sweep_def bindC_Inr split: sum.splits)
  from sweep_keys_grows[OF k] show ?thesis by (simp add: grows_def e')
qed

lemma put_file_grows:
  assumes "eng_put_file X V name data tier client nonce idm e = (Inr v, e')" shows "grows e e'"
proof -
  from assms obtain bs' rt n e2 r c where
    n: "pick_nonce client nonce (e\<lparr> e_blobs := dset tier bs' (e_blobs e) \<rparr>) = (n, e2)"
    and a: "eng_append X (v_ts V 0) (v_rand V 0) client n ''put_file'' (file_payload name tier v rt)
      idm no_prov e2 = (Inr (r, c), e')"
    by (auto simp: eng_put_file_def Let_def bindC_Inr split: option.splits sum.splits prod.splits)
  from append_grows[OF a] pick_nonce_frame(2)[OF n] show ?thesis by (simp add: grows_def)
qed

lemma create_index_log:
  "eng_create_index X coll field kind e = (Inr (), e') \<Longrightarrow> e_log e' = e_log e"
  by (auto simp: eng_create_index_def bindC_Inr on_mat_def split: prod.splits)

lemma step_grows: "api_step X e e' \<Longrightarrow> grows e e'"
  by (induction rule: api_step.induct)
    (auto dest: put_grows delete_grows link_grows unlink_grows get_grows expire_grows sweep_grows
      put_file_grows create_index_log)

lemma run_grows: "api_run X e e' \<Longrightarrow> grows e e'"
  by (induction rule: rtranclp_induct) (auto dest: step_grows intro: grows_trans)

section \<open>The past does not change\<close>

lemma seq_nth:
  assumes "engine_ok X e"
  shows "map o_seq (l_ops (e_log e)) = map int [0..<length (l_ops (e_log e))]"
  using assms by (simp add: engine_ok_def log_ok_def)

lemma cut_grown:
  assumes ok: "engine_ok X e'" and g: "l_ops (e_log e') = l_ops (e_log e) @ rs"
    and n: "n < int (length (l_ops (e_log e)))"
  shows "filter (\<lambda>r. o_seq r \<le> n) (l_ops (e_log e')) = filter (\<lambda>r. o_seq r \<le> n) (l_ops (e_log e))"
proof -
  have "n < o_seq r" if "r \<in> set rs" for r
  proof -
    from that obtain i where i: "i < length rs" "r = rs ! i" by (auto simp: in_set_conv_nth)
    let ?j = "length (l_ops (e_log e)) + i"
    have "map o_seq (l_ops (e_log e')) ! ?j = int ?j"
      unfolding seq_nth[OF ok] using i by (simp add: g)
    then have "o_seq r = int ?j" using i by (simp add: g nth_append)
    with n show ?thesis by simp
  qed
  then have "filter (\<lambda>r. o_seq r \<le> n) rs = []" by (fastforce simp: filter_empty_conv)
  then show ?thesis by (simp add: g)
qed

lemma past_immutable:
  assumes ok: "engine_ok X e" "engine_ok X e'" and g: "grows e e'"
    and n: "0 \<le> n" "n < int (length (l_ops (e_log e)))"
  shows "reads (store_of e') k (Some n) = reads (store_of e) k (Some n)"
    "rel_read (m_rels (e_mat e')) q (Some n) = rel_read (m_rels (e_mat e)) q (Some n)"
proof -
  from g obtain rs where rs: "l_ops (e_log e') = l_ops (e_log e) @ rs" by (auto simp: grows_def)
  note c = cut_grown[OF ok(2) rs n(2)]
  from replay_cut[OF ok(1) n(1)] replay_cut[OF ok(2) n(1)] obtain m where
    "cut_at n e (e\<lparr> e_mat := m \<rparr>)" "cut_at n e' (e'\<lparr> e_mat := m \<rparr>)"
    unfolding c by auto
  then show "reads (store_of e') k (Some n) = reads (store_of e) k (Some n)"
    "rel_read (m_rels (e_mat e')) q (Some n) = rel_read (m_rels (e_mat e)) q (Some n)"
    by (simp_all add: cut_at_def store_of_def)
qed

section \<open>What a write makes readable\<close>

definition logged :: "engine \<Rightarrow> engine \<Rightarrow> string \<Rightarrow> doc \<Rightarrow> prov \<Rightarrow> bool" where
  \<comment> \<open>one operation was appended and folded\<close>
  "logged e e' op payload pr \<longleftrightarrow>
     (\<exists>r. l_ops (e_log e') = l_ops (e_log e) @ [r] \<and> o_seq r = eng_seq e + 1 \<and> o_op r = op \<and>
        o_payload r = payload \<and> o_prov r = pr \<and> apply_op True r (e_mat e) = (None, e_mat e'))"

lemma log_append_new:
  assumes "log_append X client nonce op payload idm ts pr l = Inr (r, True, l')"
  shows "l_ops l' = l_ops l @ [r]" "o_seq r = int (length (l_ops l))" "o_op r = op"
    "o_payload r = payload" "o_prov r = pr"
  using assms by (auto simp: log_append_def Let_def bindE_eq_Inr split: option.splits if_splits)

lemma commit_logged:
  assumes c: "commit X ts rnd client nonce op payload None pr e = (Inr (), e')"
  shows "logged e e' op payload pr"
proof -
  from c obtain r created e1 where
    a: "eng_append X ts rnd client nonce op payload None pr e = (Inr (r, created), e1)"
    and f: "(if created then eng_fold True r e1 else (Inr (), e1)) = (Inr (), e')"
    by (auto simp: commit_def bindC_Inr)
  have cr: "created = True" using eng_append_new(1)[OF a] by simp
  note l = append_log[OF a[unfolded cr]]
  from f cr l(2) have m: "apply_op True r (e_mat e) = (None, e_mat e')" "e_log e' = e_log e1"
    by (auto simp: eng_fold_def split: prod.splits option.splits)
  show ?thesis
    unfolding logged_def
    by (rule exI[of _ r]) (use log_append_new[OF l(1)] m in \<open>simp add: eng_seq_def\<close>)
qed

lemma logged_store:
  assumes "logged e e' op payload pr"
  shows "\<exists>r. o_seq r = eng_seq e + 1 \<and> o_op r = op \<and> o_payload r = payload \<and>
    store_of e' = (case store_event r of None \<Rightarrow> store_of e | Some w \<Rightarrow> mv_write w (store_of e)) \<and>
    m_rels (e_mat e') = (case rel_event_of r of None \<Rightarrow> m_rels (e_mat e) | Some x \<Rightarrow> rel_apply x (m_rels (e_mat e)))"
proof -
  from assms obtain r where r: "o_seq r = eng_seq e + 1" "o_op r = op" "o_payload r = payload"
    and a: "apply_op True r (e_mat e) = (None, e_mat e')" by (auto simp: logged_def)
  show ?thesis by (rule exI[of _ r]) (use r apply_op_writes[OF a] in
      \<open>simp add: store_of_def cong: option.case_cong\<close>)
qed

lemma map_of_set_opt: "f \<noteq> k \<Longrightarrow> map_of (set_opt k g x d) f = map_of d f"
  by (simp add: set_opt_def map_of_dset split: option.split)

lemma map_of_stored:
  assumes "\<not> starts_with ''_'' f"
  shows "map_of (stamp q (put_doc i d now ttl pr)) f = map_of d f"
proof -
  have n: "f \<noteq> CHR ''_'' # k" for k using assms by (auto simp: starts_with_def)
  then have "map_of (embed_ttl now ttl d) f = map_of d f" for d
    by (simp add: embed_ttl_def map_of_dset split: option.split)
  then show ?thesis
    unfolding stamp_def put_doc_def by (simp add: n map_of_set_opt map_of_dset map_of_setdefault)
qed

lemma stamp_seq: "doc_get (stamp q d) ''_seq'' = PInt q"
  by (simp add: stamp_def doc_get_dset)

lemma put_effect:
  assumes p: "eng_put X V coll i d client nonce None ttl pr e = (Inr r, e')"
  shows "r = Some (stamp (eng_seq e + 1) (put_doc i d (v_now V) ttl pr))"
    "reads (store_of e') k None =
      (if k = doc_key coll i then r else reads (store_of e) k None)"
proof -
  obtain n e1 where n: "pick_nonce client nonce e = (n, e1)" by (cases "pick_nonce client nonce e")
  let ?d = "put_doc i d (v_now V) ttl pr"
  from p n have c: "commit X (v_ts V 0) (v_rand V 0) client n ''put'' (put_payload coll i ?d) None pr e1 = (Inr (), e')"
    and g: "mv_get (store_of e') (doc_key coll i) None = Inr r"
    by (auto simp: eng_put_def Let_def bindC_Inr)
  have f: "eng_seq e1 = eng_seq e" "store_of e1 = store_of e"
    using pick_nonce_frame[OF n] by (simp_all add: eng_seq_def store_of_def)
  from logged_store[OF commit_logged[OF c]] have
    s: "store_of e' = mv_put (doc_key coll i) (stamp (eng_seq e + 1) ?d) (eng_seq e + 1) (store_of e)"
    by (auto simp: store_event_def f)
  then show "r = Some (stamp (eng_seq e + 1) ?d)" using g by simp
  then show "reads (store_of e') k None = (if k = doc_key coll i then r else reads (store_of e) k None)"
    by (simp add: s)
qed

lemma delete_effect:
  assumes p: "eng_delete X V coll i client nonce None e = (Inr (), e')"
  shows "reads (store_of e') k None = (if k = doc_key coll i then None else reads (store_of e) k None)"
proof -
  obtain n e1 where n: "pick_nonce client nonce e = (n, e1)" by (cases "pick_nonce client nonce e")
  from p n have c: "commit X (v_ts V 0) (v_rand V 0) client n ''delete'' (delete_payload coll i) None no_prov e1 = (Inr (), e')"
    by (auto simp: eng_delete_def)
  have f: "eng_seq e1 = eng_seq e" "store_of e1 = store_of e"
    using pick_nonce_frame[OF n] by (simp_all add: eng_seq_def store_of_def)
  from logged_store[OF commit_logged[OF c]] have
    s: "store_of e' = mv_delete (doc_key coll i) (eng_seq e + 1) (store_of e)"
    by (auto simp: store_event_def f)
  then show ?thesis by simp
qed

section \<open>Nonces drawn by the engine\<close>

definition nonce_sync :: "engine \<Rightarrow> bool" where
  "nonce_sync e \<longleftrightarrow> (\<forall>c. dget (l_last (e_log e)) c 0 \<le> dget (e_nonce e) c 0)"

lemma nonce_sync_new: "nonce_sync (engine_new path dek d)"
  by (simp add: nonce_sync_def engine_new_def log_init_def)

lemma pick_auto:
  "pick_nonce client None e = (n, e1) \<Longrightarrow>
   n = dget (e_nonce e) client 0 + 1 \<and> e1 = e\<lparr> e_nonce := dset client n (e_nonce e) \<rparr>"
  by (auto simp: pick_nonce_def next_nonce_def Let_def)

lemma append_last:
  assumes "eng_append X ts rnd client nonce op payload idm pr e = (Inr (r, c), e')"
  shows "l_last (e_log e') = l_last (e_log e) \<or> l_last (e_log e') = dset client nonce (l_last (e_log e))"
  using append_log(1)[OF assms]
  by (auto simp: log_append_def Let_def bindE_eq_Inr split: option.splits if_splits
      dest!: sym[of _ "e_log e'"])

text \<open>A call that lets the engine draw the nonce keeps the two counters in step \<dots>\<close>

lemma commit_sync:
  assumes y: "nonce_sync e" and n: "pick_nonce client None e = (n, e1)"
    and c: "commit X ts rnd client n op payload idm pr e1 = (Inr (), e')"
  shows "nonce_sync e'"
proof -
  from pick_auto[OF n] have n': "n = dget (e_nonce e) client 0 + 1"
    and e1: "e1 = e\<lparr> e_nonce := dset client n (e_nonce e) \<rparr>" by auto
  from c obtain r created e2 where
    a: "eng_append X ts rnd client n op payload idm pr e1 = (Inr (r, created), e2)"
    and f: "(if created then eng_fold True r e2 else (Inr (), e2)) = (Inr (), e')"
    by (auto simp: commit_def bindC_Inr)
  have f': "e_log e' = e_log e2" "e_nonce e' = e_nonce e2"
    using f by (cases created; auto dest: fold_frame)+
  show ?thesis
    using y append_last[OF a] append_log(3)[OF a] n' unfolding nonce_sync_def f' e1
    by (auto simp: order.trans[OF _ zless_imp_add1_zle] intro: order.trans[of _ "dget (e_nonce e) client 0"])
qed

text \<open>\<dots> and such a put is never rejected as a replay: its operation reaches the log.\<close>

lemma auto_put_logged:
  assumes "nonce_sync e"
  shows "\<exists>r. l_ops (e_log (snd (eng_put X V coll i d client None None ttl pr e))) = l_ops (e_log e) @ [r] \<and>
    o_op r = ''put'' \<and> o_client r = client"
proof -
  obtain n e1 where n: "pick_nonce client None e = (n, e1)" by (cases "pick_nonce client None e")
  from pick_auto[OF n] have n': "n = dget (e_nonce e) client 0 + 1"
    and e1: "e1 = e\<lparr> e_nonce := dset client n (e_nonce e) \<rparr>" by auto
  let ?pl = "put_payload coll i (put_doc i d (v_now V) ttl pr)"
  have lt: "\<not> n \<le> dget (l_last (e_log e1)) client 0"
    using assms[unfolded nonce_sync_def, rule_format, of client] n' by (simp add: e1)
  then obtain r l where l: "log_append X client n ''put'' ?pl None (v_ts V 0) pr (e_log e1) = Inr (r, True, l)"
    "l_ops l = l_ops (e_log e1) @ [r]" "o_op r = ''put''" "o_client r = client"
    by (auto simp: log_append_def Let_def)
  then obtain e2 where a: "eng_append X (v_ts V 0) (v_rand V 0) client n ''put'' ?pl None pr e1 = (Inr (r, True), e2)"
    "e_log e2 = l"
    using that by (cases "e_open e1"; cases "e_defer e1") (simp_all add: eng_append_def Let_def)
  obtain x e3 where f: "eng_fold True r e2 = (x, e3)" by (cases "eng_fold True r e2")
  have "e_log (snd (eng_put X V coll i d client None None ttl pr e)) = l"
    using fold_frame[OF f] a f n by (cases x) (simp_all add: eng_put_def commit_def Let_def)
  with l show ?thesis by (simp add: e1)
qed

text \<open>An explicit nonce does not advance the engine's counter: the next drawn one is stale.\<close>

lemma explicit_nonce_blocks:
  assumes p: "eng_put X V coll i d client (Some m) None ttl pr e = (Inr r, e')"
    and m: "dget (e_nonce e) client 0 < m"
  shows "fst (eng_put X V' coll' i' d' client None None ttl' pr' e') = Inl ReplayErr"
proof -
  let ?pl = "put_payload coll i (put_doc i d (v_now V) ttl pr)"
  from p obtain r0 created e2 where
    a: "eng_append X (v_ts V 0) (v_rand V 0) client m ''put'' ?pl None pr e = (Inr (r0, created), e2)"
    and f: "(if created then eng_fold True r0 e2 else (Inr (), e2)) = (Inr (), e')"
    by (auto simp: eng_put_def commit_def bindC_Inr pick_nonce_def Let_def)
  have f': "e_log e' = e_log e2" "e_nonce e' = e_nonce e2"
    using f by (cases created; auto dest: fold_frame)+
  have "dget (l_last (e_log e2)) client 0 = m"
    using append_log(1)[OF a]
    by (auto simp: log_append_def Let_def split: if_splits dest!: sym[of _ "e_log e2"])
  moreover have "e_nonce e2 = e_nonce e" by (rule append_log(3)[OF a])
  ultimately show ?thesis
    using m f' by (simp add: eng_put_def Let_def pick_nonce_def next_nonce_def commit_def eng_append_def
        log_append_def)
qed

section \<open>Determinism\<close>

lemma py_eq_list_refl: "(\<And>x. x \<in> set xs \<Longrightarrow> py_eq x x) \<Longrightarrow> py_eq_list xs xs"
  by (induction xs) auto

lemma py_eq_dict_sub:
  "(\<And>k v. (k, v) \<in> set d \<Longrightarrow> map_of e k = Some v \<and> py_eq v v) \<Longrightarrow> py_eq_dict d e"
  by (induction d) fastforce+

lemma py_eq_refl: "pv_ok v \<Longrightarrow> py_eq v v"
proof (induction v)
  case (PList xs)
  then show ?case by (simp add: py_eq_list_refl)
next
  case (PDict d)
  then have "map_of d k = Some v \<and> py_eq v v" if "(k, v) \<in> set d" for k v
    using that by (force simp: snds.simps)
  then have "py_eq_dict d d" by (rule py_eq_dict_sub)
  then show ?case by simp
qed simp_all

lemma same_dict_refl:
  assumes "distinct (map fst a)" "\<And>k d. (k, Some d) \<in> set a \<Longrightarrow> pv_ok (PDict d)"
  shows "same_dict a a"
  unfolding same_dict_def list_all_iff
proof (intro conjI ballI refl)
  fix x assume x: "x \<in> set a"
  obtain k v where kv: "x = (k, v)" by (cases x)
  have m: "map_of a k = Some v" using x assms(1) kv by simp
  show "case x of (k, v) \<Rightarrow> (case (v, map_of a k) of
         (Some d, Some (Some d')) \<Rightarrow> py_eq (PDict d) (PDict d')
       | (None, Some None) \<Rightarrow> True | _ \<Rightarrow> False)"
  proof (cases v)
    case (Some d)
    have "py_eq (PDict d) (PDict d)" by (rule py_eq_refl, rule assms(2)[of k]) (use x kv Some in simp)
    with m kv Some show ?thesis by simp
  qed (use m kv in simp)
qed

text \<open>
  Rebuilding from the log, when it succeeds, reproduces the live store, and
  \<open>verify_determinism\<close> says so.
\<close>

lemma rebuild_same:
  assumes ok: "engine_ok X e" and r: "rebuild e = (None, m)"
  shows "m_store m = store_of e" "m_rels m = m_rels (e_mat e)"
proof -
  from r obtain m0 where m0: "on_ix (ensure_all (ix_config (m_ix (e_mat e)))) mat_init = (None, m0)"
    and f: "fold_ops False (l_ops (e_log e)) m0 = (None, m)"
    by (auto simp: rebuild_def andthen_eq_None)
  from m0 have "m_store m0 = mv_init" "m_rels m0 = rels_init"
    by (auto simp: on_ix_def mat_init_def split: prod.splits)
  with fold_ops_writes[OF f] ok show "m_store m = store_of e" "m_rels m = m_rels (e_mat e)"
    by (simp_all add: engine_ok_def data_ok_def store_of_def)
qed

lemma determinism:
  assumes ok: "engine_ok X e" and r: "fst (rebuild e) = None"
  shows "verify_determinism e = Inr True"
proof -
  obtain m where m: "rebuild e = (None, m)" using r by (cases "rebuild e") auto
  note wf = eng_mat(1)[OF ok]
  let ?s = "map (\<lambda>k. (k, reads (store_of e) k None)) (live_keys (store_of e) [] None)"
  have "same_dict ?s ?s"
  proof (rule same_dict_refl)
    show "distinct (map fst ?s)" by (simp add: distinct_live_keys[OF wf] comp_def)
    show "pv_ok (PDict d)" if "(k, Some d) \<in> set ?s" for k d
    proof (rule head_doc(2)[OF ok])
      show "mv_get (store_of e) k None = Inr (Some d)" using that by auto
    qed
  qed
  then show ?thesis
    by (simp add: verify_determinism_def m rebuild_same(1)[OF ok m] mv_snapshot_reads[OF wf])
qed

lemma rebuild_no_index:
  assumes ok: "engine_ok X e" and c: "ix_config (m_ix (e_mat e)) = []"
  shows "fst (rebuild e) = None"
proof -
  have "\<forall>r\<in>set (l_ops (e_log e)). good_op r" using ok by (simp add: engine_ok_def)
  from fold_ops_total[OF this, of mat_init False] show ?thesis
    by (auto simp: rebuild_def c on_ix_def mat_init_def)
qed

end
