(* ===== verification/Snapshot.thy ===== *)
theory Snapshot
  imports Engine Doubles
begin

text \<open>
  \<open>nedb.snapshot\<close>: a checkpoint appends an operation that anchors it in the chain and writes
  \<open>snapshot.json\<close>: the newest version of each key, the edges, the index configuration, the
  nonce and idempotency tables and the blobs.  Loading restores that state.
\<close>

section \<open>Writing\<close>

definition py_trunc :: "rat \<Rightarrow> int" where
  \<comment> \<open>\<open>int(x)\<close>\<close>
  "py_trunc q = (if q < 0 then \<lceil>q\<rceil> else \<lfloor>q\<rfloor>)"

definition snap_version :: "(int \<times> doc option) list \<Rightarrow> pyval res" where
  "snap_version versions =
     bindE (py_index versions (-1)) (\<lambda>(last_seq, last_val).
       Inr (PDict [(''v'', case last_val of None \<Rightarrow> PNone | Some d \<Rightarrow> PDict d),
                   (''seq'', PInt last_seq), (''deleted'', PBool (last_val = None))]))"

definition snap_store :: "doc mvcc \<Rightarrow> doc res" where
  "snap_store s =
     mapE (\<lambda>(k, versions). bindE (snap_version versions) (\<lambda>v. Inr (k, v))) (mv_v s)"

definition opt_int :: "int option \<Rightarrow> pyval" where
  "opt_int x = (case x of None \<Rightarrow> PNone | Some i \<Rightarrow> PInt i)"

definition snap_edge :: "edge \<Rightarrow> pyval" where
  "snap_edge e = (case e of (to, added, removed) \<Rightarrow>
     PDict [(''to'', PStr to), (''added'', PInt added), (''removed'', opt_int removed)])"

definition snap_rels :: "rels \<Rightarrow> doc" where
  "snap_rels r =
     foldl (\<lambda>d ((frm, rel), edges). dset (frm @ ''|'' @ rel) (PList (map snap_edge edges)) d) [] (r_adj r)"

definition snap_files :: "(string, filerec) dict \<Rightarrow> pyval" where
  "snap_files fs =
     PDict (map (\<lambda>(n, f). (n, PDict
       [(''versions'', PList (map (\<lambda>r. PList (map PStr r)) (f_versions f))),
        (''roots'', PList (map PStr (f_roots f)))])) fs)"

text \<open>Every chunk and the file as a whole draw a nonce of their own when there is a data key.\<close>

fun snap_chunks :: "ext \<Rightarrow> (nat \<Rightarrow> string) \<Rightarrow> string option \<Rightarrow> nat \<Rightarrow> (string, string) dict \<Rightarrow> doc \<times> nat" where
  "snap_chunks X rnd dek i [] = ([], i)"
| "snap_chunks X rnd dek i ((h, data) # cs) =
     (case snap_chunks X rnd dek (Suc i) cs of
        (d, j) \<Rightarrow> ((h, PStr (b64_encode (chunk_encode X (rnd i) data dek))) # d, j))"

fun snap_blobs :: "ext \<Rightarrow> (nat \<Rightarrow> string) \<Rightarrow> string option \<Rightarrow> nat \<Rightarrow> (string, blobs) dict \<Rightarrow> doc \<times> nat" where
  "snap_blobs X rnd dek i [] = ([], i)"
| "snap_blobs X rnd dek i ((tier, b) # bs) =
     (case snap_chunks X rnd dek i (b_chunks b) of
        (cd, j) \<Rightarrow> (case snap_blobs X rnd dek j bs of
           (d, k) \<Rightarrow> ((tier, PDict [(''chunks'', PDict cd), (''files'', snap_files (b_files b)),
              (''logical_bytes'', PInt (int (b_logical b))),
              (''dedup_hits'', PInt (int (b_dedup b)))]) # d, k)))"

definition snap_doc :: "int \<Rightarrow> string \<Rightarrow> engine \<Rightarrow> doc \<Rightarrow> doc \<Rightarrow> pyval" where
  "snap_doc sq head e store_data blobs_data =
     PDict
      [(''version'', PInt 1), (''seq'', PInt sq), (''head'', PStr head),
       (''checkpoint_seq'', PInt sq), (''store'', PDict store_data),
       (''relations'', PDict (snap_rels (m_rels (e_mat e)))),
       (''index_config'', PList (map (\<lambda>(c, f, k). PList [PStr c, PStr f, PStr k])
          (ix_config (m_ix (e_mat e))))),
       (''nonces'', PDict (map (\<lambda>(c, n). (c, PInt n)) (l_last (e_log e)))),
       (''idem'', PDict (map (\<lambda>(k, n). (k, PInt n)) (l_idem (e_log e)))),
       (''blobs'', PDict blobs_data)]"

definition snapshot_encode :: "ext \<Rightarrow> string \<Rightarrow> string \<Rightarrow> string option \<Rightarrow> string" where
  "snapshot_encode X nonce content dek =
     (case dek of
        None \<Rightarrow> content
      | Some k \<Rightarrow> utf8_encode (dumps X '','' '':'' (envelope (encrypt_bytes X nonce content k AAD_DATA))))"

definition save_snapshot :: "ext \<Rightarrow> env \<Rightarrow> engine \<Rightarrow> string call" where
  "save_snapshot X V e =
     (if \<not> e_path e then (Inl ValueErr, e)
      else
        bindC (eng_append X (v_ts V 0) (v_rand V 0) ''__snapshot__'' (py_trunc (fl (v_now V * 1000)))
                 ''checkpoint'' [(''note'', PStr ''snapshot captured'')] None no_prov e)
          (\<lambda>(r, _) e.
            (let head = l_head (e_log e) in
             case snap_store (store_of e) of
               Inl x \<Rightarrow> (Inl x, e)
             | Inr sd \<Rightarrow>
                 (case snap_blobs X (\<lambda>i. v_rand V (Suc i)) (e_dek e) 0 (e_blobs e) of
                    (bd, n) \<Rightarrow>
                      (let raw = utf8_encode (dumps X '','' '':'' (snap_doc (o_seq r) head e sd bd));
                           enc = snapshot_encode X (v_rand V (Suc n)) raw (e_dek e)
                       in (Inr head,
                           eng_flush (e\<lparr> e_disk := (e_disk e)\<lparr> d_snap := Some enc \<rparr> \<rparr>)))))))"

section \<open>Reading\<close>

definition snapshot_decode :: "ext \<Rightarrow> string \<Rightarrow> string option \<Rightarrow> string" where
  "snapshot_decode X raw dek =
     (case dek of
        None \<Rightarrow> raw
      | Some k \<Rightarrow>
          (case bindE (utf8_decode raw) (\<lambda>s. bindE (loads s) (\<lambda>v.
               case v of
                 PDict d \<Rightarrow>
                   if py_eq (doc_get d ''enc'') (PInt 1) then
                     (case map_of d ''ct'' of
                        Some (PStr c) \<Rightarrow>
                          bindE (b64_decode c) (\<lambda>ct. bindE (decrypt_bytes X ct k AAD_DATA) (\<lambda>p. Inr (Some p)))
                      | Some _ \<Rightarrow> Inl TypeErr
                      | None \<Rightarrow> Inl KeyError)
                   else Inr None
               | _ \<Rightarrow> Inr None)) of
             Inr (Some p) \<Rightarrow> p
           | _ \<Rightarrow> raw))"

definition act_res :: "'s act \<Rightarrow> 's res" where
  "act_res a = (case a of (Some x, _) \<Rightarrow> Inl x | (None, s) \<Rightarrow> Inr s)"

fun foldE :: "('a \<Rightarrow> 's \<Rightarrow> 's res) \<Rightarrow> 'a list \<Rightarrow> 's \<Rightarrow> 's res" where
  "foldE f [] s = Inr s"
| "foldE f (x # xs) s = bindE (f x s) (foldE f xs)"

fun as_list :: "pyval \<Rightarrow> pyval list res" where
  "as_list (PList xs) = Inr xs"
| "as_list _ = Inl Untyped"

fun index_triple :: "pyval \<Rightarrow> (string \<times> string \<times> string) res" where
  "index_triple (PList [PStr c, PStr f, PStr k]) = Inr (c, f, k)"
| "index_triple _ = Inl Untyped"

definition get_or :: "doc \<Rightarrow> string \<Rightarrow> pyval \<Rightarrow> pyval" where
  \<comment> \<open>\<open>d.get(k, default)\<close>\<close>
  "get_or d k v = dget d k v"

text \<open>The part of a key before its first \<open>:\<close>, the whole key when it has none.\<close>

definition coll_of_key :: "string \<Rightarrow> string" where
  "coll_of_key k = takeWhile (\<lambda>c. c \<noteq> CHR '':'') k"

definition load_entry :: "string \<times> pyval \<Rightarrow> mat \<Rightarrow> mat res" where
  "load_entry kv m =
     (case kv of (key, ev) \<Rightarrow>
        bindE (as_dict ev) (\<lambda>entry.
        bindE (if py_truth (doc_get entry ''deleted'') then Inr PNone else need entry ''v'') (\<lambda>val.
        bindE (bindE (need entry ''seq'') as_int) (\<lambda>sseq.
          if val = PNone then
            Inr (m\<lparr> m_store := \<lparr> mv_v = dset key [(sseq, None)] (mv_v (m_store m)),
                                  mv_seqs = dset key [sseq] (mv_seqs (m_store m)) \<rparr> \<rparr>)
          else
            bindE (as_dict val) (\<lambda>d.
              act_res (on_ix (ix_add (coll_of_key key) key d)
                (m\<lparr> m_store := \<lparr> mv_v = dset key [(sseq, Some d)] (mv_v (m_store m)),
                                 mv_seqs = dset key [sseq] (mv_seqs (m_store m)) \<rparr> \<rparr>)))))))"

definition load_edge :: "string \<Rightarrow> string \<Rightarrow> pyval \<Rightarrow> rels \<Rightarrow> rels res" where
  "load_edge frm rel ev r =
     bindE (as_dict ev) (\<lambda>e.
     bindE (bindE (need e ''to'') as_str) (\<lambda>to.
     bindE (bindE (need e ''added'') as_int) (\<lambda>added.
     bindE (optional as_int e ''removed'') (\<lambda>removed.
       Inr (r\<lparr> r_adj := dappend (frm, rel) (to, added, removed) (r_adj r),
               r_radj := dappend (to, rel) (frm, added, removed) (r_radj r) \<rparr>)))))"

definition load_relation :: "string \<times> pyval \<Rightarrow> mat \<Rightarrow> mat res" where
  \<comment> \<open>\<open>key_str.split("|", 1)\<close>\<close>
  "load_relation kv m =
     (case kv of (key, ev) \<Rightarrow>
        (case dropWhile (\<lambda>c. c \<noteq> CHR ''|'') key of
           [] \<Rightarrow> Inl ValueErr
         | _ # rel \<Rightarrow>
             bindE (as_list ev) (\<lambda>edges.
             bindE (foldE (load_edge (takeWhile (\<lambda>c. c \<noteq> CHR ''|'') key) rel) edges (m_rels m)) (\<lambda>r.
               Inr (m\<lparr> m_rels := r \<rparr>)))))"

definition load_file :: "string \<times> pyval \<Rightarrow> (string \<times> filerec) res" where
  "load_file nf =
     (case nf of (n, v) \<Rightarrow>
        bindE (as_dict v) (\<lambda>d.
        bindE (bindE (bindE (need d ''versions'') as_list)
                 (mapE (\<lambda>r. bindE (as_list r) (mapE as_str)))) (\<lambda>vs.
        bindE (bindE (bindE (need d ''roots'') as_list) (mapE as_str)) (\<lambda>rs.
          Inr (n, \<lparr> f_versions = vs, f_roots = rs \<rparr>)))))"

definition load_blob :: "ext \<Rightarrow> string option \<Rightarrow> string \<times> pyval \<Rightarrow> (string, blobs) dict \<Rightarrow>
    (string, blobs) dict res" where
  "load_blob X dek tv bs =
     (case tv of (tier, v) \<Rightarrow>
        bindE (as_dict v) (\<lambda>d.
        bindE (as_dict (get_or d ''chunks'' (PDict []))) (\<lambda>cd.
        bindE (mapE (\<lambda>(h, enc). bindE (as_str enc) (\<lambda>s. bindE (b64_decode s) (\<lambda>b.
                 bindE (chunk_decode X b dek) (\<lambda>c. Inr (h, c))))) cd) (\<lambda>chunks.
        bindE (bindE (as_dict (get_or d ''files'' (PDict []))) (mapE load_file)) (\<lambda>files.
        bindE (as_int (get_or d ''logical_bytes'' (PInt 0))) (\<lambda>lb.
        bindE (as_int (get_or d ''dedup_hits'' (PInt 0))) (\<lambda>dh.
          (let b = dget bs tier (blob_init tier) in
           Inr (dset tier (b\<lparr> b_chunks := chunks, b_files := files, b_logical := nat lb,
                              b_dedup := nat dh \<rparr>) bs)))))))))"

definition int_table :: "pyval \<Rightarrow> (string, int) dict res" where
  "int_table v = bindE (as_dict v) (mapE (\<lambda>(k, n). bindE (as_int n) (\<lambda>i. Inr (k, i))))"

definition update_all :: "('k, 'v) dict \<Rightarrow> ('k, 'v) dict \<Rightarrow> ('k, 'v) dict" where
  \<comment> \<open>\<open>d.update(new)\<close>\<close>
  "update_all new d = foldl (\<lambda>d (k, v). dset k v d) d new"

text \<open>\<open>None\<close> stands for \<open>-1\<close>: no snapshot that can be used.\<close>

definition restore :: "ext \<Rightarrow> doc \<Rightarrow> engine \<Rightarrow> (int option \<times> engine) res" where
  "restore X snap e =
     bindE (bindE (as_list (get_or snap ''index_config'' (PList []))) (mapE index_triple)) (\<lambda>cfg.
     bindE (act_res (on_ix (ensure_all cfg) (e_mat e))) (\<lambda>m1.
     bindE (bindE (as_dict (get_or snap ''store'' (PDict []))) (\<lambda>d. foldE load_entry d m1)) (\<lambda>m2.
     bindE (bindE (as_dict (get_or snap ''relations'' (PDict []))) (\<lambda>d. foldE load_relation d m2)) (\<lambda>m3.
     bindE (int_table (get_or snap ''nonces'' (PDict []))) (\<lambda>nonces.
     bindE (int_table (get_or snap ''idem'' (PDict []))) (\<lambda>idem.
     bindE (bindE (as_dict (get_or snap ''blobs'' (PDict [])))
              (\<lambda>d. foldE (load_blob X (e_dek e)) d (e_blobs e))) (\<lambda>bs.
     bindE (bindE (need snap ''checkpoint_seq'') as_int) (\<lambda>cs.
       (let last = update_all nonces (l_last (e_log e)) in
        Inr (Some cs,
          e\<lparr> e_mat := m3, e_blobs := bs, e_nonce := last,
             e_log := (e_log e)\<lparr> l_last := last, l_idem := update_all idem (l_idem (e_log e)) \<rparr> \<rparr>))))))))))"

definition load_snapshot :: "ext \<Rightarrow> engine \<Rightarrow> (int option \<times> engine) res" where
  "load_snapshot X e =
     (case d_snap (e_disk e) of
        None \<Rightarrow> Inr (None, e)
      | Some raw \<Rightarrow>
          bindE (bindE (bindE (utf8_decode (snapshot_decode X raw (e_dek e))) loads) as_dict) (\<lambda>snap.
            if \<not> py_eq (get_or snap ''version'' (PInt 0)) (PInt 1) then Inr (None, e)
            else restore X snap e))"

end
