(* ===== verification/Reload.thy ===== *)
theory Reload
  imports Snapshot
begin

text \<open>
  Opening a durable database: \<open>_load\<close>, the repair of a damaged file, the encryption of a plain
  one, and the healing of a broken chain.  What these steps write to disk stays written when a
  later step raises, so they return the engine in every case.
\<close>

section \<open>The append-only file\<close>

text \<open>
  Reading lines: with a snapshot an exception ends the load; without one the reading stops at
  the first line that fails, and says so.
\<close>

fun read_strict :: "ext \<Rightarrow> string option \<Rightarrow> string list \<Rightarrow> oprec list res" where
  "read_strict X dek [] = Inr []"
| "read_strict X dek (raw # ls) =
     (let line = aof_decode X raw dek in
      if line = [] then read_strict X dek ls
      else bindE (parse_line line) (\<lambda>r. bindE (read_strict X dek ls) (\<lambda>rs. Inr (r # rs))))"

fun read_ops :: "ext \<Rightarrow> string option \<Rightarrow> string list \<Rightarrow> (oprec list \<times> bool) res" where
  "read_ops X dek [] = Inr ([], False)"
| "read_ops X dek (raw # ls) =
     (let line = aof_decode X raw dek in
      if line = [] then read_ops X dek ls
      else (case parse_line line of
              Inl Untyped \<Rightarrow> Inl Untyped
            | Inl _ \<Rightarrow> Inr ([], True)
            | Inr r \<Rightarrow> bindE (read_ops X dek ls) (\<lambda>(rs, bad). Inr (r # rs, bad))))"

definition aof_lines :: "disk \<Rightarrow> string list" where
  "aof_lines d = (case d_aof d of None \<Rightarrow> [] | Some ls \<Rightarrow> ls)"

fun encode_ops :: "ext \<Rightarrow> (nat \<Rightarrow> string) \<Rightarrow> nat \<Rightarrow> string option \<Rightarrow> string list \<Rightarrow> string list" where
  "encode_ops X rnd i dek [] = []"
| "encode_ops X rnd i dek (s # ss) = aof_encode X (rnd i) s dek # encode_ops X rnd (Suc i) dek ss"

definition rewrite_aof :: "ext \<Rightarrow> (nat \<Rightarrow> string) \<Rightarrow> oprec list \<Rightarrow> engine \<Rightarrow> engine" where
  "rewrite_aof X rnd ops e =
     e\<lparr> e_disk := (e_disk e)\<lparr> d_aof := Some (encode_ops X rnd 0 (e_dek e) (map (op_line X) ops)) \<rparr> \<rparr>"

definition fold_into :: "oprec list \<Rightarrow> engine \<Rightarrow> unit call" where
  "fold_into ops = on_mat (fold_ops True ops)"

definition ensure_config :: "engine \<Rightarrow> unit call" where
  "ensure_config e =
     (case d_meta (e_disk e) of
        None \<Rightarrow> (Inr (), e)
      | Some txt \<Rightarrow>
          (case bindE (bindE (loads txt) as_dict) (\<lambda>d.
                 bindE (as_list (get_or d ''indexes'' (PList []))) (mapE index_triple)) of
             Inl x \<Rightarrow> (Inl x, e)
           | Inr cfg \<Rightarrow> on_mat (on_ix (ensure_all cfg)) e))"

definition load_full :: "ext \<Rightarrow> env \<Rightarrow> engine \<Rightarrow> unit call" where
  "load_full X V e =
     bindC (ensure_config e) (\<lambda>_ e1.
       case read_ops X (e_dek e1) (aof_lines (e_disk e1)) of
         Inl x \<Rightarrow> (Inl x, e1)
       | Inr (ops, bad) \<Rightarrow>
           (let e2 = (if bad then rewrite_aof X (v_rand V) ops e1 else e1);
                e3 = e2\<lparr> e_log := log_load ops \<rparr>
            in bindC (fold_into ops e3) (\<lambda>_ e4. (Inr (), e4\<lparr> e_nonce := l_last (e_log e4) \<rparr>))))"

definition load_delta :: "ext \<Rightarrow> int \<Rightarrow> engine \<Rightarrow> unit call" where
  "load_delta X snap_seq e =
     (case read_strict X (e_dek e) (aof_lines (e_disk e)) of
        Inl x \<Rightarrow> (Inl x, e)
      | Inr ops \<Rightarrow>
          bindC (fold_into (filter (\<lambda>r. o_seq r > snap_seq) ops) (e\<lparr> e_log := log_load ops \<rparr>))
            (\<lambda>_ e1. (Inr (), e1\<lparr> e_nonce := l_last (e_log e1) \<rparr>)))"

definition eng_load :: "ext \<Rightarrow> env \<Rightarrow> engine \<Rightarrow> unit call" where
  "eng_load X V e =
     (case load_snapshot X e of
        Inl x \<Rightarrow> (Inl x, e)
      | Inr (so, e1) \<Rightarrow>
          (case so of
             Some snap_seq \<Rightarrow> if 0 \<le> snap_seq then load_delta X snap_seq e1 else load_full X V e1
           | None \<Rightarrow> load_full X V e1))"

section \<open>Encrypting a plain file\<close>

text \<open>The first line that is not blank decides: \<open>True\<close> when it parses and is no envelope.\<close>

fun first_plain :: "string list \<Rightarrow> bool" where
  "first_plain [] = False"
| "first_plain (raw # ls) =
     (let s = str_strip raw in
      if s = [] then first_plain ls
      else (case loads s of
              Inl _ \<Rightarrow> False
            | Inr (PDict d) \<Rightarrow> \<not> py_eq (doc_get d ''enc'') (PInt 1)
            | Inr _ \<Rightarrow> True))"

definition backfill_encrypt :: "ext \<Rightarrow> env \<Rightarrow> engine \<Rightarrow> engine" where
  "backfill_encrypt X V e =
     (if first_plain (aof_lines (e_disk e)) then
        (let decoded = filter (\<lambda>s. s \<noteq> []) (map (\<lambda>l. aof_decode X l (e_dek e)) (aof_lines (e_disk e)))
         in e\<lparr> e_disk := (e_disk e)\<lparr> d_aof := Some (encode_ops X (v_rand V) 0 (e_dek e) decoded),
                                     d_snap := None \<rparr> \<rparr>)
      else e)"

section \<open>Healing the chain\<close>

definition internally_valid :: "ext \<Rightarrow> oprec list \<Rightarrow> bool" where
  "internally_valid X ops \<longleftrightarrow> list_all (\<lambda>r. o_hash r = blake X (o_prev r @ canon X (op_body r))) ops"

text \<open>The healed operation is built without the provenance fields.\<close>

fun heal_ops :: "ext \<Rightarrow> string \<Rightarrow> oprec list \<Rightarrow> oprec list" where
  "heal_ops X prev [] = []"
| "heal_ops X prev (r # rs) =
     (let h = blake X (prev @ canon X (op_body r))
      in r\<lparr> o_prev := prev, o_hash := h, o_prov := no_prov \<rparr> # heal_ops X h rs)"

definition self_heal :: "ext \<Rightarrow> env \<Rightarrow> engine \<Rightarrow> engine" where
  "self_heal X V e =
     (if log_verify X (e_log e) then e
      else if \<not> internally_valid X (l_ops (e_log e)) then e
      else
        (let healed = heal_ops X GENESIS (l_ops (e_log e));
             e1 = e\<lparr> e_log := (e_log e)\<lparr> l_ops := healed, l_head := chain_end GENESIS healed \<rparr> \<rparr>
         in if e_path e1 \<and> d_aof (e_disk e1) \<noteq> None then
              (let e2 = rewrite_aof X (v_rand V) healed e1
               in e2\<lparr> e_disk := (e_disk e2)\<lparr> d_snap := None \<rparr> \<rparr>)
            else e1))"

section \<open>Opening\<close>

definition open_files :: "ext \<Rightarrow> env \<Rightarrow> engine \<Rightarrow> unit call" where
  \<comment> \<open>\<open>_open\<close>\<close>
  "open_files X V e =
     bindC
       (if d_aof (e_disk e) \<noteq> None \<or> d_meta (e_disk e) \<noteq> None then
          bindC (eng_load X V e) (\<lambda>_ e1.
            (Inr (), self_heal X V
               (if e_dek e1 \<noteq> None \<and> d_aof (e_disk e1) \<noteq> None then backfill_encrypt X V e1 else e1)))
        else (Inr (), e))
       (\<lambda>_ e2. (Inr (), e2\<lparr> e_open := True,
          e_disk := (e_disk e2)\<lparr> d_aof := Some (aof_lines (e_disk e2)) \<rparr> \<rparr>))"

text \<open>
  \<open>NEDB(path, tmk)\<close> on a disk: the key given, the two environment variables, and the
  \<open>os.urandom\<close> results for a fresh data key and its wrapping.
\<close>

definition open_db :: "ext \<Rightarrow> env \<Rightarrow> string option \<Rightarrow> string option \<Rightarrow> string option \<Rightarrow> string \<Rightarrow> string \<Rightarrow>
    disk \<Rightarrow> unit call" where
  "open_db X V tmk env_hex env_file fresh_key nonce d =
     (case resolve_tmk X tmk env_hex env_file of
        Inl x \<Rightarrow> (Inl x, engine_new True None d)
      | Inr None \<Rightarrow> open_files X V (engine_new True None d)
      | Inr (Some k) \<Rightarrow>
          (case load_or_create_dek X fresh_key nonce (d_key d) k of
             Inl x \<Rightarrow> (Inl x, engine_new True None d)
           | Inr (dek, key_file) \<Rightarrow>
               open_files X V (engine_new True (Some dek) (d\<lparr> d_key := Some key_file \<rparr>))))"

definition rewrap_key :: "ext \<Rightarrow> string \<Rightarrow> string \<Rightarrow> string \<Rightarrow> string \<Rightarrow> string \<Rightarrow> engine \<Rightarrow> unit call" where
  \<comment> \<open>the keys given explicitly\<close>
  "rewrap_key X fresh_key n1 n2 old_tmk new_tmk e =
     (if \<not> e_path e then (Inl ValueErr, e)
      else (case rewrap_dek X fresh_key n1 n2 (d_key (e_disk e)) (derive_key X old_tmk) (derive_key X new_tmk) of
          Inl x \<Rightarrow> (Inl x, e)
        | Inr file \<Rightarrow>
            (let e1 = e\<lparr> e_disk := (e_disk e)\<lparr> d_key := Some file \<rparr> \<rparr> in
             case load_or_create_dek X fresh_key n1 (Some file) (derive_key X new_tmk) of
               Inl x \<Rightarrow> (Inl x, e1)
             | Inr (dek, _) \<Rightarrow> (Inr (), e1\<lparr> e_dek := Some dek \<rparr>))))"

end
