(* ===== verification/ReloadInv.thy ===== *)
theory ReloadInv
  imports Reload EngineInv
begin

text \<open>
  What reopening a database restores, what it loses, and what healing repairs.
\<close>

section \<open>Reading the file back\<close>

lemma op_line_strip: "str_strip (op_line X r) = op_line X r" "op_line X r \<noteq> []"
  unfolding op_line_def by (rule strip_dumps_dict, simp)

lemma read_ops_lines:
  assumes X: "frepr_ok X"
  shows "map (\<lambda>l. aof_decode X l dek) ls = map (op_line X) ops \<Longrightarrow> \<forall>r\<in>set ops. op_ok r \<Longrightarrow>
    read_ops X dek ls = Inr (ops, False)"
proof (induction ls arbitrary: ops)
  case (Cons l ls)
  then obtain r rs where ops: "ops = r # rs" "aof_decode X l dek = op_line X r"
    "map (\<lambda>l. aof_decode X l dek) ls = map (op_line X) rs"
    by (cases ops) auto
  moreover have "parse_line (op_line X r) = Inr r"
    using Cons.prems ops X parse_op_line by auto
  ultimately show ?case
    using Cons.IH[OF ops(3)] Cons.prems by (simp add: op_line_strip)
qed simp

lemma encode_ops_decode:
  assumes X: "ext_ok X" and rnd: "\<And>i. length (rnd i) = NONCE_LEN"
  shows "\<forall>s\<in>set ss. str_strip s = s \<and> s \<noteq> [] \<Longrightarrow>
    map (\<lambda>l. aof_decode X l dek) (encode_ops X rnd i dek ss) = ss"
  by (induction ss arbitrary: i) (use X rnd aof_decode_encode in \<open>auto simp: ext_ok_def\<close>)

section \<open>Index configuration\<close>

lemma ensure_all_ok:
  "eq_exact ix (\<lambda>_ _. None) \<Longrightarrow> inv_exact ix (\<lambda>_ _. None) \<Longrightarrow> ix_own ix \<Longrightarrow> ix_finite ix \<Longrightarrow>
   ensure_all cfg ix = (x, ix') \<Longrightarrow>
   eq_exact ix' (\<lambda>_ _. None) \<and> inv_exact ix' (\<lambda>_ _. None) \<and> ix_own ix' \<and> ix_finite ix'"
proof (induction cfg ix arbitrary: ix' rule: ensure_all.induct)
  case (2 c f k cfg ix)
  obtain y ix1 where e: "ix_ensure c f k ix = (y, ix1)" by (cases "ix_ensure c f k ix")
  have none: "filling fld D (\<lambda>_. None) = (\<lambda>_ _. None)" for fld D
    by (auto simp: filling_def fun_eq_iff restrict_map_def)
  have i1: "eq_exact ix1 (\<lambda>_ _. None)" "inv_exact ix1 (\<lambda>_ _. None)" "ix_own ix1" "ix_finite ix1"
    using ensure_eq_exact[OF 2(2) e] ensure_inv_exact[OF 2(3) e] ensure_own[OF 2(4) e]
      ensure_finite[OF 2(5) e] by (simp_all add: none split: if_splits)
  show ?case
  proof (cases y)
    case None
    with 2(1)[OF i1] 2(6) e show ?thesis by simp
  next
    case (Some z)
    with i1 2(6) e show ?thesis by simp
  qed
qed simp

lemma ensure_mat_ok:
  assumes "on_ix (ensure_all cfg) mat_init = (x, m)"
  shows "mat_ok q m" "m_store m = mv_init" "m_rels m = rels_init" "m_causes m = []"
proof -
  from assms have e: "ensure_all cfg ix_init = (x, m_ix m)"
    and f: "m_store m = mv_init" "m_rels m = rels_init" "m_causes m = []"
    by (auto simp: on_ix_def mat_init_def split: prod.splits)
  have "head_view m = (\<lambda>_. None)" by (auto simp: head_view_def f)
  with ensure_all_ok[OF _ _ _ _ e] f show "mat_ok q m" by (simp add: mat_ok_def)
  show "m_store m = mv_init" "m_rels m = rels_init" "m_causes m = []" by (fact f)+
qed

lemma engine_new_frame [simp]:
  "e_disk (engine_new p dek d) = d" "e_dek (engine_new p dek d) = dek" "e_mat (engine_new p dek d) = mat_init"
  "e_path (engine_new p dek d) = p" "e_buf (engine_new p dek d) = []" "e_defer (engine_new p dek d) = False"
  "e_open (engine_new p dek d) = False"
  "e_blobs (engine_new p dek d) = [(''warm'', blob_init ''warm''), (''cold'', blob_init ''cold'')]"
  by (simp_all add: engine_new_def)

lemma ensure_config_new:
  assumes "ensure_config (engine_new p dek d) = (Inr (), e)"
  shows "\<exists>m. e = (engine_new p dek d)\<lparr> e_mat := m \<rparr> \<and> (\<forall>q. mat_ok q m) \<and> m_store m = mv_init \<and>
    m_rels m = rels_init \<and> m_causes m = []"
proof (cases "d_meta d")
  case None
  with assms have "e = engine_new p dek d"
    by (simp add: ensure_config_def)
  moreover have "(engine_new p dek d)\<lparr> e_mat := mat_init \<rparr> = engine_new p dek d"
    by (simp add: engine_new_def)
  ultimately have "e = (engine_new p dek d)\<lparr> e_mat := mat_init \<rparr>" by simp
  then show ?thesis using mat_ok_init by (auto simp: mat_init_def)
next
  case (Some t)
  with assms obtain cfg where
    "on_mat (on_ix (ensure_all cfg)) (engine_new p dek d) = (Inr (), e)"
    by (auto simp: ensure_config_def engine_new_def split: sum.splits)
  then obtain m where m: "on_ix (ensure_all cfg) mat_init = (None, m)"
    "e = (engine_new p dek d)\<lparr> e_mat := m \<rparr>"
    by (auto simp: on_mat_def engine_new_def split: prod.splits option.splits)
  from ensure_mat_ok[OF m(1)] m(2) show ?thesis by blast
qed

section \<open>Reopening\<close>

lemma data_fold:
  assumes "fold_ops True ops m = (None, m')" "m_store m = mv_init" "m_rels m = rels_init" "m_causes m = []"
  shows "data_ok ops m'"
  using fold_ops_writes[OF assms(1)] assms(2-) by (simp add: data_ok_def)

lemma log_seqs:
  assumes "log_ok X l"
  shows "sorted (map o_seq (l_ops l))" "\<forall>r\<in>set (l_ops l). 0 \<le> o_seq r \<and> o_seq r < int (length (l_ops l))"
proof -
  have m: "map o_seq (l_ops l) = map int [0..<length (l_ops l)]" using assms by (simp add: log_ok_def)
  show "sorted (map o_seq (l_ops l))" unfolding m by (simp add: sorted_map)
  have "set (map o_seq (l_ops l)) = int ` {0..<length (l_ops l)}" unfolding m by simp
  then show "\<forall>r\<in>set (l_ops l). 0 \<le> o_seq r \<and> o_seq r < int (length (l_ops l))" by force
qed

text \<open>The file as an engine of the invariant leaves it when nothing is pending.\<close>

definition disk_holds :: "ext \<Rightarrow> string option \<Rightarrow> disk \<Rightarrow> oplog \<Rightarrow> bool" where
  "disk_holds X dek d l \<longleftrightarrow>
     (\<exists>ls. d_aof d = Some ls \<and> map (\<lambda>x. aof_decode X x dek) ls = map (op_line X) (l_ops l))"

lemma disk_ok_holds:
  "engine_ok X e \<Longrightarrow> e_open e \<Longrightarrow> e_buf e = [] \<Longrightarrow> disk_holds X (e_dek e) (e_disk e) (e_log e)"
  by (auto simp: engine_ok_def disk_ok_def disk_holds_def)

definition log_good :: "ext \<Rightarrow> oplog \<Rightarrow> bool" where
  "log_good X l \<longleftrightarrow> log_ok X l \<and> nonces_ok l \<and> (\<forall>r\<in>set (l_ops l). op_ok r \<and> good_op r)"

lemma engine_log_good: "engine_ok X e \<Longrightarrow> log_good X (e_log e)"
  by (simp add: engine_ok_def log_good_def)

lemma load_full_cases:
  assumes X: "ext_ok X" and l: "log_good X l" and d: "disk_holds X dek d l"
    and c: "ensure_config (engine_new True dek d) = (Inr (), e1)"
  shows "load_full X V (engine_new True dek d) =
    bindC (fold_into (l_ops l) (e1\<lparr> e_log := l \<rparr>)) (\<lambda>_ e. (Inr (), e\<lparr> e_nonce := l_last (e_log e) \<rparr>))"
proof -
  obtain m where e1: "e1 = (engine_new True dek d)\<lparr> e_mat := m \<rparr>" using ensure_config_new[OF c] by blast
  from d obtain ls where ls: "d_aof d = Some ls"
    "map (\<lambda>x. aof_decode X x dek) ls = map (op_line X) (l_ops l)"
    by (auto simp: disk_holds_def)
  have "read_ops X dek ls = Inr (l_ops l, False)"
    by (rule read_ops_lines[OF _ ls(2)]) (use X l in \<open>simp_all add: ext_ok_def log_good_def\<close>)
  moreover have "log_load (l_ops l) = l" using l by (simp add: log_good_def log_ok_def)
  ultimately show ?thesis
    by (simp add: load_full_def c e1 aof_lines_def ls(1) Let_def)
qed

lemma load_full_ok:
  assumes X: "ext_ok X" and l: "log_good X l" and d: "disk_holds X dek d l"
    and r: "load_full X V (engine_new True dek d) = (Inr (), e)"
  shows "e_log e = l" "mat_ok (eng_seq e) (e_mat e)" "data_ok (l_ops l) (e_mat e)" "e_disk e = d"
    "e_dek e = dek" "e_buf e = []" "e_defer e = False" "e_nonce e = l_last l"
    "e_blobs e = [(''warm'', blob_init ''warm''), (''cold'', blob_init ''cold'')]" "e_path e"
proof -
  from r obtain e1 where c: "ensure_config (engine_new True dek d) = (Inr (), e1)"
    by (auto simp: load_full_def bindC_Inr)
  obtain m where m: "e1 = (engine_new True dek d)\<lparr> e_mat := m \<rparr>" "\<And>q. mat_ok q m"
    "m_store m = mv_init" "m_rels m = rels_init" "m_causes m = []"
    using ensure_config_new[OF c] by blast
  from r[unfolded load_full_cases[OF X l d c]] obtain m' where
    f: "fold_ops True (l_ops l) m = (None, m')"
    and e: "e = e1\<lparr> e_log := l, e_mat := m', e_nonce := l_last l \<rparr>"
    by (auto simp: bindC_Inr fold_into_def on_mat_def m(1) split: prod.splits option.splits)
  show "e_log e = l" "e_disk e = d" "e_dek e = dek" "e_buf e = []" "e_defer e = False" "e_nonce e = l_last l"
    "e_blobs e = [(''warm'', blob_init ''warm''), (''cold'', blob_init ''cold'')]" "e_path e"
    by (simp_all add: e m(1))
  show "data_ok (l_ops l) (e_mat e)" using data_fold[OF f m(3-5)] by (simp add: e)
  have "mat_ok (int (length (l_ops l)) - 1) m'"
    by (rule fold_ops_ok[OF m(2)[of "-1"] _ _ _ _ _ f]) (use l log_seqs[of X l] in \<open>auto simp: log_good_def\<close>)
  then show "mat_ok (eng_seq e) (e_mat e)" by (simp add: e eng_seq_def)
qed

text \<open>Without an index configuration the fold cannot fail, so the load returns.\<close>

lemma load_full_returns:
  assumes X: "ext_ok X" and l: "log_good X l" and d: "disk_holds X dek d l" and m: "d_meta d = None"
  shows "\<exists>e. load_full X V (engine_new True dek d) = (Inr (), e)"
proof -
  have c: "ensure_config (engine_new True dek d) = (Inr (), engine_new True dek d)"
    by (simp add: ensure_config_def m)
  obtain m' where "fold_ops True (l_ops l) mat_init = (None, m')"
    using fold_ops_total[of "l_ops l" mat_init True] l by (auto simp: log_good_def mat_init_def)
  then show ?thesis
    by (simp add: load_full_cases[OF X l d c] fold_into_def on_mat_def)
qed

lemma backfill_frame [simp]:
  "e_log (backfill_encrypt X V e) = e_log e" "e_mat (backfill_encrypt X V e) = e_mat e"
  "e_dek (backfill_encrypt X V e) = e_dek e" "e_buf (backfill_encrypt X V e) = e_buf e"
  "e_defer (backfill_encrypt X V e) = e_defer e" "e_nonce (backfill_encrypt X V e) = e_nonce e"
  "e_blobs (backfill_encrypt X V e) = e_blobs e"
  by (simp_all add: backfill_encrypt_def Let_def)

lemma backfill_holds:
  assumes X: "ext_ok X" and V: "env_ok V" and h: "disk_holds X (e_dek e) (e_disk e) l"
  shows "disk_holds X (e_dek e) (e_disk (backfill_encrypt X V e)) l"
proof (cases "first_plain (aof_lines (e_disk e))")
  case True
  from h obtain ls where ls: "d_aof (e_disk e) = Some ls"
    "map (\<lambda>x. aof_decode X x (e_dek e)) ls = map (op_line X) (l_ops l)"
    by (auto simp: disk_holds_def)
  have "filter (\<lambda>s. s \<noteq> []) (map (op_line X) (l_ops l)) = map (op_line X) (l_ops l)"
    by (auto simp: filter_id_conv op_line_strip)
  moreover have "map (\<lambda>x. aof_decode X x (e_dek e))
      (encode_ops X (v_rand V) 0 (e_dek e) (map (op_line X) (l_ops l))) = map (op_line X) (l_ops l)"
    by (rule encode_ops_decode[OF X]) (use V in \<open>auto simp: env_ok_def op_line_strip\<close>)
  ultimately show ?thesis
    using True ls by (simp add: backfill_encrypt_def Let_def disk_holds_def aof_lines_def)
qed (use h in \<open>simp add: backfill_encrypt_def\<close>)

lemma self_heal_ok: "log_verify X (e_log e) \<Longrightarrow> self_heal X V e = e"
  by (simp add: self_heal_def)

lemma open_files_ok:
  assumes X: "ext_ok X" and V: "env_ok V" and l: "log_good X l" and d: "disk_holds X dek d l"
    and s: "d_snap d = None" and o: "open_files X V (engine_new True dek d) = (Inr (), e)"
  shows "engine_ok X e" "e_log e = l" "e_open e" "e_nonce e = l_last l"
    "e_blobs e = [(''warm'', blob_init ''warm''), (''cold'', blob_init ''cold'')]" "e_dek e = dek" "e_buf e = []"
proof -
  from d have a: "d_aof d \<noteq> None" by (auto simp: disk_holds_def)
  have ls: "load_snapshot X (engine_new True dek d) = Inr (None, engine_new True dek d)"
    by (simp add: load_snapshot_def s)
  from o a obtain e1 where e1: "load_full X V (engine_new True dek d) = (Inr (), e1)"
    and e: "e = (let e2 = self_heal X V
               (if e_dek e1 \<noteq> None \<and> d_aof (e_disk e1) \<noteq> None then backfill_encrypt X V e1 else e1)
             in e2\<lparr> e_open := True, e_disk := (e_disk e2)\<lparr> d_aof := Some (aof_lines (e_disk e2)) \<rparr> \<rparr>)"
    by (auto simp: open_files_def eng_load_def ls bindC_Inr Let_def)
  note f = load_full_ok[OF X l d e1]
  let ?e2 = "if e_dek e1 \<noteq> None \<and> d_aof (e_disk e1) \<noteq> None then backfill_encrypt X V e1 else e1"
  have fr: "e_log ?e2 = l" "e_mat ?e2 = e_mat e1" "e_dek ?e2 = dek" "e_buf ?e2 = []" "e_nonce ?e2 = l_last l"
    "e_blobs ?e2 = [(''warm'', blob_init ''warm''), (''cold'', blob_init ''cold'')]"
    using f by simp_all
  have v: "log_verify X (e_log ?e2)"
    unfolding fr(1) using l by (simp add: log_good_def log_ok_def)
  have h: "disk_holds X dek (e_disk ?e2) l"
    using backfill_holds[OF X V, of e1 l] f d by simp
  have e': "e = ?e2\<lparr> e_open := True, e_disk := (e_disk ?e2)\<lparr> d_aof := Some (aof_lines (e_disk ?e2)) \<rparr> \<rparr>"
    unfolding e Let_def self_heal_ok[OF v] ..
  have "disk_ok X e"
    using h fr by (auto simp: disk_ok_def e' disk_holds_def aof_lines_def)
  moreover have "eng_seq e = eng_seq e1" by (simp add: eng_seq_def e' fr f)
  moreover have be: "e_blobs e = [(''warm'', blob_init ''warm''), (''cold'', blob_init ''cold'')]"
    unfolding e' using fr(6) by simp
  have "blobs_ok X b" if "map_of (e_blobs e) t = Some b" for t b
    using that unfolding be by (auto split: if_splits)
  ultimately show "engine_ok X e"
    using l f fr by (simp add: engine_ok_def e' log_good_def)
  show "e_log e = l" "e_open e" "e_nonce e = l_last l"
    "e_blobs e = [(''warm'', blob_init ''warm''), (''cold'', blob_init ''cold'')]" "e_dek e = dek" "e_buf e = []"
    using fr be unfolding e' by (simp_all split del: if_split)
qed

lemma open_files_returns:
  assumes X: "ext_ok X" and l: "log_good X l" and d: "disk_holds X dek d l"
    and s: "d_snap d = None" "d_meta d = None"
  shows "\<exists>e. open_files X V (engine_new True dek d) = (Inr (), e)"
proof -
  from d have a: "d_aof d \<noteq> None" by (auto simp: disk_holds_def)
  have ls: "load_snapshot X (engine_new True dek d) = Inr (None, engine_new True dek d)"
    by (simp add: load_snapshot_def s)
  obtain e where "load_full X V (engine_new True dek d) = (Inr (), e)"
    using load_full_returns[OF X l d s(2)] by blast
  with a show ?thesis by (simp add: open_files_def eng_load_def ls)
qed

section \<open>Opening without the key\<close>

lemma envelope_line:
  assumes X: "frepr_ok X"
  shows "aof_decode X (aof_encode X n s (Some k)) None = aof_encode X n s (Some k)"
    "parse_line (aof_encode X n s (Some k)) = Inl KeyError" "aof_encode X n s (Some k) \<noteq> []"
proof -
  let ?e = "envelope (encrypt_bytes X n (utf8_encode s) k AAD_DATA)"
  have st: "str_strip (aof_encode X n s (Some k)) = aof_encode X n s (Some k)"
    unfolding aof_encode_def envelope_def by (simp only: option.case strip_dumps_dict)
  show ne: "aof_encode X n s (Some k) \<noteq> []" by (simp add: aof_encode_def envelope_def)
  show "aof_decode X (aof_encode X n s (Some k)) None = aof_encode X n s (Some k)"
    using st ne by (simp add: aof_decode_def)
  have "loads (dumps X '','' '':'' ?e) = Inr ?e"
    by (rule loads_dumps) (simp_all add: X seps_def envelope_def)
  then have "loads (aof_encode X n s (Some k)) = Inr ?e" by (simp add: aof_encode_def)
  then show "parse_line (aof_encode X n s (Some k)) = Inl KeyError"
    by (simp add: parse_line_def envelope_def from_dict_def need_def)
qed

lemma open_without_key:
  assumes X: "frepr_ok X"
    and d: "d_aof d = Some (aof_encode X n s (Some k) # ls)" "d_snap d = None" "d_meta d = None"
  shows "\<exists>e. open_files X V (engine_new True None d) = (Inr (), e) \<and> l_ops (e_log e) = [] \<and>
    d_aof (e_disk e) = Some []"
proof -
  have ls: "load_snapshot X (engine_new True None d) = Inr (None, engine_new True None d)"
    by (simp add: load_snapshot_def d)
  have r: "read_ops X None (aof_encode X n s (Some k) # ls) = Inr ([], True)"
    using envelope_line[OF X, of n s k] by simp
  have "load_full X V (engine_new True None d) =
      (Inr (), (engine_new True None d)\<lparr> e_disk := d\<lparr> d_aof := Some [] \<rparr>, e_log := log_load [], e_nonce := [] \<rparr>)"
    by (simp add: load_full_def ensure_config_def d aof_lines_def r Let_def rewrite_aof_def fold_into_def
        on_mat_def log_init_load engine_new_def del: read_ops.simps)
  then show ?thesis
    by (simp add: open_files_def eng_load_def ls d self_heal_def log_verify_def aof_lines_def)
qed

section \<open>Healing\<close>

lemma heal_verifies:
  "\<forall>r\<in>set rs. o_prov r = no_prov \<Longrightarrow> verify_from X prev (heal_ops X prev rs)"
proof (induction rs arbitrary: prev)
  case (Cons r rs)
  let ?h = "blake X (prev @ canon X (op_body r))"
  have "op_body (r\<lparr> o_prev := prev, o_hash := ?h, o_prov := no_prov \<rparr>) = op_body r"
    using Cons.prems by (simp add: op_body_def)
  with Cons show ?case by (simp add: Let_def)
qed simp

lemma heal_content:
  "map (\<lambda>r. (o_seq r, o_client r, o_nonce r, o_op r, o_payload r, o_ts r, o_idem r)) (heal_ops X prev rs) =
   map (\<lambda>r. (o_seq r, o_client r, o_nonce r, o_op r, o_payload r, o_ts r, o_idem r)) rs"
  by (induction rs arbitrary: prev) (simp_all add: Let_def)

lemma heal_with_provenance:
  assumes X: "frepr_ok X" and ok: "\<forall>r\<in>set rs. op_ok r" and v: "verify_from X prev (heal_ops X prev rs)"
  shows "collision X \<or> (\<forall>r\<in>set rs. o_prov r = no_prov)"
  using ok v
proof (induction rs arbitrary: prev)
  case (Cons r rs)
  let ?h = "blake X (prev @ canon X (op_body r))"
  let ?r = "r\<lparr> o_prev := prev, o_hash := ?h, o_prov := no_prov \<rparr>"
  from Cons.prems(2) have h: "?h = blake X (prev @ canon X (op_body ?r))"
    and t: "verify_from X ?h (heal_ops X ?h rs)"
    by (auto simp: Let_def split: if_splits)
  from h blake_collision have c: "collision X \<or> canon X (op_body r) = canon X (op_body ?r)" by fastforce
  have ok2: "op_ok r" "op_ok ?r" using Cons.prems(1) by (simp_all add: op_ok_def no_prov_def)
  {
    assume "canon X (op_body r) = canon X (op_body ?r)"
    from this have "sort_keys (op_body r) = sort_keys (op_body ?r)"
      using canon_inj[OF X] pv_ok_op_body[OF ok2(1)] pv_ok_op_body[OF ok2(2)] by blast
    moreover have "op_body (?r\<lparr> o_prev := o_prev r, o_hash := o_hash r \<rparr>) = op_body ?r"
      by (simp add: op_body_def)
    ultimately have "sort_keys (op_body r) = sort_keys (op_body (?r\<lparr> o_prev := o_prev r, o_hash := o_hash r \<rparr>))"
      by simp
    moreover have "op_ok (?r\<lparr> o_prev := o_prev r, o_hash := o_hash r \<rparr>)"
      using ok2(2) by (simp add: op_ok_def)
    ultimately have "same_op r (?r\<lparr> o_prev := o_prev r, o_hash := o_hash r \<rparr>)"
      by (intro same_op_body[OF _ ok2(1)]) simp_all
    then have "o_prov (r\<lparr> o_payload := [] \<rparr>) = o_prov (?r\<lparr> o_prev := o_prev r, o_hash := o_hash r, o_payload := [] \<rparr>)"
      unfolding same_op_def by simp
    then have "o_prov r = no_prov" by simp
  }
  with c Cons.IH[OF _ t] Cons.prems(1) show ?case by auto
qed simp

text \<open>An operation whose content was changed is not healed.\<close>

lemma heal_refuses: "\<not> internally_valid X (l_ops (e_log e)) \<Longrightarrow> self_heal X V e = e"
  by (simp add: self_heal_def)

end
