(* ===== verification/Lifecycle.thy ===== *)
theory Lifecycle
  imports Runs ReloadInv
begin

text \<open>
  The life of a durable database without checkpoints: create, call, crash, reopen.  A crash
  keeps the lines already flushed, possibly some of the buffered ones, and may leave an
  unreadable tail; reopening then restores the log of the readable lines.
\<close>

section \<open>Prefixes of a log\<close>

lemma log_ok_load:
  assumes "verify_from X GENESIS ops" "map o_seq ops = map int [0..<length ops]"
  shows "log_ok X (log_load ops)"
proof -
  have "map o_seq ops = map int [0..<length ops] \<Longrightarrow>
    \<forall>k i. map_of (l_idem (log_load ops)) k = Some i \<longrightarrow>
        0 \<le> i \<and> i < int (length ops) \<and> o_idem (ops ! nat i) = Some k"
  proof (induction ops rule: rev_induct)
    case Nil
    then show ?case by (simp add: log_init_load)
  next
    case (snoc r rs)
    from snoc.prems have m: "map o_seq rs = map int [0..<length rs]" "o_seq r = int (length rs)" by simp_all
    note ih = snoc.IH[OF m(1), rule_format]
    show ?case
    proof (intro allI impI)
      fix k i assume a: "map_of (l_idem (log_load (rs @ [r]))) k = Some i"
      then consider "map_of (l_idem (log_load rs)) k = Some i" | "o_idem r = Some k" "i = int (length rs)"
        by (cases "o_idem r"; cases "the (o_idem r) = k"; cases "has_key (the (o_idem r)) (l_idem (log_load rs))")
          (simp_all add: log_load_snoc load_step_def m(2) del: has_key_iff)
      then show "0 \<le> i \<and> i < int (length (rs @ [r])) \<and> o_idem ((rs @ [r]) ! nat i) = Some k"
      proof cases
        case 1
        from ih[OF 1] have "nat i < length rs" by auto
        with ih[OF 1] show ?thesis by (auto simp: nth_append)
      qed (simp add: nth_append)
    qed
  qed
  with assms show ?thesis by (simp add: log_ok_def log_verify_def)
qed

lemma load_last:
  "r \<in> set ops \<Longrightarrow> o_nonce r \<le> dget (l_last (log_load ops)) (o_client r) 0"
proof (induction ops rule: rev_induct)
  case (snoc x xs)
  then show ?case by (cases "r \<in> set xs") (fastforce simp: log_load_snoc load_step_def)+
qed simp

lemma verify_take: "verify_from X prev ops \<Longrightarrow> verify_from X prev (take n ops)"
proof (induction ops arbitrary: prev n)
  case (Cons r rs)
  then show ?case by (cases n) (auto split: if_splits)
qed simp

lemma log_good_take:
  assumes "log_good X l"
  shows "log_good X (log_load (take n (l_ops l)))"
proof -
  note g = assms[unfolded log_good_def]
  let ?ops = "l_ops l"
  have "map o_seq ?ops = map int [0..<length ?ops]" using g by (simp add: log_ok_def)
  then have "take n (map o_seq ?ops) = take n (map int [0..<length ?ops])" by (rule arg_cong)
  then have "map o_seq (take n ?ops) = map int (take n [0..<length ?ops])" by (simp only: take_map)
  also have "take n [0..<length ?ops] = [0..<length (take n ?ops)]"
    by (cases "n \<le> length ?ops") (simp_all add: take_upt)
  finally have "map o_seq (take n (l_ops l)) = map int [0..<length (take n (l_ops l))]" .
  moreover have "verify_from X GENESIS (take n (l_ops l))"
    using g by (simp add: log_ok_def log_verify_def verify_take)
  ultimately have "log_ok X (log_load (take n (l_ops l)))" by (intro log_ok_load)
  moreover have "nonces_ok (log_load (take n (l_ops l)))"
    unfolding nonces_ok_def
  proof (intro conjI ballI allI impI)
    fix i j assume ij: "i < j" "j < length (l_ops (log_load (take n ?ops)))"
      "o_client (l_ops (log_load (take n ?ops)) ! i) = o_client (l_ops (log_load (take n ?ops)) ! j)"
    have "\<forall>i j. i < j \<longrightarrow> j < length ?ops \<longrightarrow> o_client (?ops ! i) = o_client (?ops ! j) \<longrightarrow>
        o_nonce (?ops ! i) < o_nonce (?ops ! j)" using g by (simp add: nonces_ok_def)
    with ij show "o_nonce (l_ops (log_load (take n ?ops)) ! i) < o_nonce (l_ops (log_load (take n ?ops)) ! j)"
      by simp
  qed (simp add: load_last)
  moreover have "\<forall>r\<in>set (take n ?ops). op_ok r \<and> good_op r"
    using g by (meson in_set_takeD)
  ultimately show ?thesis by (simp add: log_good_def)
qed

section \<open>An unreadable tail\<close>

definition unreadable :: "ext \<Rightarrow> string option \<Rightarrow> string \<Rightarrow> bool" where
  \<comment> \<open>a line that is not blank and is no operation\<close>
  "unreadable X dek x \<longleftrightarrow>
     aof_decode X x dek \<noteq> [] \<and> (\<exists>ex. parse_line (aof_decode X x dek) = Inl ex \<and> ex \<noteq> Untyped)"

lemma read_ops_torn:
  assumes X: "frepr_ok X" and bad: "unreadable X dek x"
  shows "map (\<lambda>l. aof_decode X l dek) ls = map (op_line X) ops \<Longrightarrow> \<forall>r\<in>set ops. op_ok r \<Longrightarrow>
    read_ops X dek (ls @ x # tail) = Inr (ops, True)"
proof (induction ls arbitrary: ops)
  case Nil
  then show ?case using bad by (auto simp: unreadable_def Let_def split: exn.splits)
next
  case (Cons l ls)
  then obtain r rs where ops: "ops = r # rs" "aof_decode X l dek = op_line X r"
    "map (\<lambda>l. aof_decode X l dek) ls = map (op_line X) rs"
    by (cases ops) auto
  moreover have "parse_line (op_line X r) = Inr r"
    using Cons.prems ops X parse_op_line by auto
  ultimately show ?case
    using Cons.IH[OF ops(3)] Cons.prems by (simp add: op_line_strip)
qed

text \<open>
  Opening a file with an unreadable tail is opening the file cut before it, which the engine has
  rewritten; everything after the first unreadable line is gone.
\<close>

lemma ensure_config_disk:
  "ensure_config (e\<lparr> e_disk := d \<rparr>) = (case ensure_config (e\<lparr> e_disk := d' \<rparr>) of (r, e') \<Rightarrow> (r, e'\<lparr> e_disk := d \<rparr>))"
  if "d_meta d = d_meta d'"
  using that
  by (auto simp: ensure_config_def on_mat_def split: option.splits sum.splits prod.splits)

lemma torn_load:
  assumes X: "ext_ok X" and V: "env_ok V" and l: "log_good X l"
    and d: "d_aof d = Some (ls @ x # tail)" "map (\<lambda>y. aof_decode X y dek) ls = map (op_line X) (l_ops l)"
    and bad: "unreadable X dek x"
  shows "\<exists>ls'. disk_holds X dek (d\<lparr> d_aof := Some ls' \<rparr>) l \<and>
    (load_full X V (engine_new True dek d) = load_full X V (engine_new True dek (d\<lparr> d_aof := Some ls' \<rparr>)) \<or>
     (\<exists>ex e. load_full X V (engine_new True dek d) = (Inl ex, e)))"
proof -
  let ?ls = "encode_ops X (v_rand V) 0 dek (map (op_line X) (l_ops l))"
  let ?d = "d\<lparr> d_aof := Some ?ls \<rparr>"
  have h: "disk_holds X dek ?d l"
    unfolding disk_holds_def
  proof (rule exI[of _ ?ls], intro conjI)
    show "map (\<lambda>x. aof_decode X x dek) ?ls = map (op_line X) (l_ops l)"
      by (rule encode_ops_decode[OF X]) (use V op_line_strip in \<open>auto simp: env_ok_def\<close>)
  qed simp
  have r: "read_ops X dek (ls @ x # tail) = Inr (l_ops l, True)"
    by (rule read_ops_torn[OF _ bad d(2)]) (use X l in \<open>simp_all add: ext_ok_def log_good_def\<close>)
  from h have r': "read_ops X dek ?ls = Inr (l_ops l, False)"
    by (intro read_ops_lines) (use X l in \<open>auto simp: ext_ok_def log_good_def disk_holds_def\<close>)
  show ?thesis
  proof (cases "ensure_config (engine_new True dek ?d)")
    case (Pair a e1)
    have q: "(engine_new True dek ?d)\<lparr> e_disk := d \<rparr> = engine_new True dek d"
      "(engine_new True dek ?d)\<lparr> e_disk := ?d \<rparr> = engine_new True dek ?d"
      by (simp_all add: engine_new_def)
    have c: "ensure_config (engine_new True dek d) = (a, e1\<lparr> e_disk := d \<rparr>)"
      using ensure_config_disk[of d ?d "engine_new True dek ?d", unfolded q Pair] by simp
    show ?thesis
    proof (cases a)
      case (Inl ex)
      with c h show ?thesis by (auto simp: load_full_def)
    next
      case (Inr u)
      from ensure_config_new[of True dek ?d e1] Pair Inr obtain m where
        e1: "e1 = (engine_new True dek ?d)\<lparr> e_mat := m \<rparr>" by auto
      have "load_full X V (engine_new True dek d) = load_full X V (engine_new True dek ?d)"
        unfolding load_full_def using Inr c Pair d(1) r r'
        by (simp add: e1 aof_lines_def Let_def rewrite_aof_def) (simp add: engine_new_def)
      with h show ?thesis by blast
    qed
  qed
qed

lemma torn_open:
  assumes X: "ext_ok X" and V: "env_ok V" and l: "log_good X l"
    and d: "d_aof d = Some (ls @ x # tail)" "map (\<lambda>y. aof_decode X y dek) ls = map (op_line X) (l_ops l)"
      "d_snap d = None"
    and bad: "unreadable X dek x" and o: "open_files X V (engine_new True dek d) = (Inr (), e)"
  shows "engine_ok X e \<and> e_log e = l \<and> e_open e \<and> e_dek e = dek \<and> e_buf e = []"
proof -
  from torn_load[OF X V l d(1,2) bad] obtain ls' where h: "disk_holds X dek (d\<lparr> d_aof := Some ls' \<rparr>) l"
    and f: "load_full X V (engine_new True dek d) = load_full X V (engine_new True dek (d\<lparr> d_aof := Some ls' \<rparr>)) \<or>
     (\<exists>ex e. load_full X V (engine_new True dek d) = (Inl ex, e))" by blast
  have s: "load_snapshot X (engine_new True dek d') = Inr (None, engine_new True dek d')"
    if "d_snap d' = None" for d' by (simp add: load_snapshot_def that)
  from f o have "open_files X V (engine_new True dek (d\<lparr> d_aof := Some ls' \<rparr>)) = (Inr (), e)"
    by (auto simp: open_files_def eng_load_def s d)
  from open_files_ok[OF X V l h _ this] d(3) show ?thesis by simp
qed

lemma torn_open_returns:
  assumes X: "ext_ok X" and l: "log_good X l"
    and d: "d_aof d = Some (ls @ x # tail)" "map (\<lambda>y. aof_decode X y dek) ls = map (op_line X) (l_ops l)"
      "d_snap d = None" "d_meta d = None"
    and bad: "unreadable X dek x"
  shows "\<exists>e. open_files X V (engine_new True dek d) = (Inr (), e)"
proof -
  have r: "read_ops X dek (ls @ x # tail) = Inr (l_ops l, True)"
    by (rule read_ops_torn[OF _ bad d(2)]) (use X l in \<open>simp_all add: ext_ok_def log_good_def\<close>)
  obtain m' where m: "fold_ops True (l_ops l) mat_init = (None, m')"
    using fold_ops_total[of "l_ops l" mat_init True] l by (auto simp: log_good_def mat_init_def)
  have "\<exists>e. load_full X V (engine_new True dek d) = (Inr (), e)"
    by (simp add: load_full_def ensure_config_def d(1,4) aof_lines_def r Let_def fold_into_def on_mat_def
        rewrite_aof_def m)
  then show ?thesis
    by (auto simp: open_files_def eng_load_def load_snapshot_def d(1,3))
qed

section \<open>Crash and reopen\<close>

text \<open>
  The disk a crash leaves: the flushed lines, \<open>k\<close> of the buffered ones, and a tail that is
  empty or starts with an unreadable line.
\<close>

definition crash_disk :: "ext \<Rightarrow> engine \<Rightarrow> nat \<Rightarrow> string list \<Rightarrow> disk \<Rightarrow> bool" where
  "crash_disk X e k tail d \<longleftrightarrow>
     (tail = [] \<or> unreadable X (e_dek e) (hd tail)) \<and>
     d = (e_disk e)\<lparr> d_aof := Some (aof_lines (e_disk e) @ take k (e_buf e) @ tail) \<rparr>"

lemma crash_restores:
  assumes X: "ext_ok X" and V: "env_ok V" and ok: "engine_ok X e" and op: "e_open e"
    and s: "d_snap (e_disk e) = None" and c: "crash_disk X e k tail d"
    and o: "open_files X V (engine_new True (e_dek e) d) = (Inr (), e')"
  shows "engine_ok X e' \<and> e_open e' \<and>
    e_log e' = log_load (take (length (aof_lines (e_disk e)) + k) (l_ops (e_log e)))"
proof -
  let ?ops = "l_ops (e_log e)" and ?ls = "aof_lines (e_disk e)"
  let ?n = "length ?ls + k"
  let ?kept = "?ls @ take k (e_buf e)"
  let ?l = "log_load (take ?n ?ops)"
  from ok op have m: "map (\<lambda>l. aof_decode X l (e_dek e)) (?ls @ e_buf e) = map (op_line X) ?ops"
    by (auto simp: engine_ok_def disk_ok_def aof_lines_def)
  have k: "?kept = take ?n (?ls @ e_buf e)" by simp
  have kept: "map (\<lambda>y. aof_decode X y (e_dek e)) ?kept = map (op_line X) (l_ops ?l)"
    unfolding k log_load_frame(1) take_map[symmetric] m ..
  have g: "log_good X ?l" by (rule log_good_take[OF engine_log_good[OF ok]])
  have d: "d_aof d = Some (?kept @ tail)" "d_snap d = None" and t: "tail = [] \<or> unreadable X (e_dek e) (hd tail)"
    using c s by (simp_all add: crash_disk_def)
  show ?thesis
  proof (cases tail)
    case Nil
    with d kept have "disk_holds X (e_dek e) d ?l" by (auto simp: disk_holds_def)
    from open_files_ok[OF X V g this d(2) o] show ?thesis by simp
  next
    case (Cons x tl)
    with t have bad: "unreadable X (e_dek e) x" by simp
    from torn_open[OF X V g _ kept d(2) bad o] d(1) Cons show ?thesis by simp
  qed
qed

lemma reopen_restores:
  assumes X: "ext_ok X" and V: "env_ok V" and ok: "engine_ok X e" and op: "e_open e" and b: "e_buf e = []"
    and s: "d_snap (e_disk e) = None"
    and o: "open_files X V (engine_new True (e_dek e) (e_disk e)) = (Inr (), e')"
  shows "engine_ok X e'" "e_log e' = e_log e" "store_of e' = store_of e"
    "m_rels (e_mat e') = m_rels (e_mat e)" "m_causes (e_mat e') = m_causes (e_mat e)"
proof -
  note r = open_files_ok[OF X V engine_log_good[OF ok] disk_ok_holds[OF ok op b] s o]
  show "engine_ok X e'" "e_log e' = e_log e" by (rule r)+
  with ok show "store_of e' = store_of e" "m_rels (e_mat e') = m_rels (e_mat e)"
    "m_causes (e_mat e') = m_causes (e_mat e)"
    by (simp_all add: engine_ok_def data_ok_def store_of_def)
qed

text \<open>The engines a client can hold.\<close>

inductive lifecycle :: "ext \<Rightarrow> engine \<Rightarrow> bool" for X where
  memory: "lifecycle X (engine_new False None empty_disk)"
| create: "env_ok V \<Longrightarrow> d_aof d = None \<Longrightarrow> d_meta d = None \<Longrightarrow>
    open_files X V (engine_new True dek d) = (Inr (), e) \<Longrightarrow> lifecycle X e"
| call: "lifecycle X e \<Longrightarrow> api_step X e e' \<Longrightarrow> lifecycle X e'"
| crash: "lifecycle X e \<Longrightarrow> e_open e \<Longrightarrow> d_snap (e_disk e) = None \<Longrightarrow> crash_disk X e k tail d \<Longrightarrow>
    env_ok V \<Longrightarrow> open_files X V (engine_new True (e_dek e) d) = (Inr (), e') \<Longrightarrow> lifecycle X e'"

lemma open_fresh_ok:
  assumes "d_aof d = None" "d_meta d = None" "open_files X V (engine_new True dek d) = (Inr (), e)"
  shows "engine_ok X e"
proof -
  have e: "e = (engine_new True dek d)\<lparr> e_open := True, e_disk := d\<lparr> d_aof := Some [] \<rparr> \<rparr>"
    using assms by (simp add: open_files_def aof_lines_def)
  have "engine_ok X (engine_new True dek d)" by (rule engine_ok_new)
  then show ?thesis
    by (auto simp: e engine_ok_def disk_ok_def eng_seq_def) (simp_all add: engine_new_def)
qed

lemma lifecycle_ok:
  assumes X: "ext_ok X"
  shows "lifecycle X e \<Longrightarrow> engine_ok X e"
proof (induction rule: lifecycle.induct)
  case (crash e k tail d V e')
  from crash_restores[OF X crash(5) crash.IH crash(2,3,4,6)] show ?case by simp
qed (use engine_ok_new open_fresh_ok step_ok[OF X] in blast)+

end
