(* ===== verification/TraceInv.thy ===== *)
theory TraceInv
  imports Execute EngineInv
begin

text \<open>
  TRACE: the backward walk returns exactly the versions reachable through \<open>_caused_by\<close>, the
  forward walk exactly the dependents reachable through the cause map, and the cause map of an
  engine is the provenance its log records.
\<close>

section \<open>Backward\<close>

definition cause_edge :: "oplog \<Rightarrow> doc mvcc \<Rightarrow> doc \<Rightarrow> row \<Rightarrow> bool" where
  "cause_edge l st d r \<longleftrightarrow>
     (\<exists>cs v. iter_causes d = Inr cs \<and> v \<in> set cs \<and> cause_row l st v = Inr (Some r))"

inductive causal :: "oplog \<Rightarrow> doc mvcc \<Rightarrow> doc \<Rightarrow> row \<Rightarrow> bool" for l st where
  cause: "cause_edge l st d r \<Longrightarrow> causal l st d r"
| deeper: "causal l st d r \<Longrightarrow> cause_edge l st (snd r) r' \<Longrightarrow> causal l st d r'"

lemma causal_trans: "causal l st (snd r) r' \<Longrightarrow> causal l st d r \<Longrightarrow> causal l st d r'"
  by (induction "snd r" r' rule: causal.induct) (auto intro: causal.deeper)

text \<open>The row a hash key stands for, where a value of that key does not raise.\<close>

definition key_row :: "oplog \<Rightarrow> doc mvcc \<Rightarrow> hkey \<Rightarrow> row \<Rightarrow> bool" where
  "key_row l st h r \<longleftrightarrow> (\<exists>v. hash_key v = Inr h \<and> cause_row l st v = Inr (Some r))"

lemma cause_row_unique:
  assumes "hash_key v = Inr h" "cause_row l st v = Inr x" "key_row l st h r"
  shows "x = Some r"
proof -
  from assms(3) obtain w where w: "hash_key w = Inr h" "cause_row l st w = Inr (Some r)"
    by (auto simp: key_row_def)
  have i: "cause_index u n = Inr (Some j) \<Longrightarrow> hash_key u = Inr h \<Longrightarrow> h = HNum (of_int j) \<and> j < n" for u n j
    by (cases u) (auto simp: cause_index_def split: option.splits bool.splits if_splits)
  let ?n = "int (length (l_ops l))"
  from w(2) obtain j where j: "cause_index w ?n = Inr (Some j)"
    by (auto simp: cause_row_def bindE_eq_Inr split: option.splits)
  with i w(1) have h: "h = HNum (of_int j)" "j < ?n" by blast+
  have "cause_index v ?n = Inr (Some j)"
    using assms(1,2) h
    by (cases v) (auto simp: cause_index_def cause_row_def bindE_eq_Inr split: if_splits)
  with j w(2) assms(2) show ?thesis by (simp add: cause_row_def)
qed

lemma trace_causes_spec:
  "trace_causes l st vs vis = Inr (rs, vis') \<Longrightarrow>
   vis \<subseteq> vis' \<and> (\<forall>v\<in>set vs. \<forall>h. hash_key v = Inr h \<longrightarrow> h \<in> vis') \<and>
   (\<forall>r\<in>set rs. \<exists>v\<in>set vs. cause_row l st v = Inr (Some r)) \<and>
   (\<forall>h\<in>vis' - vis. \<forall>r. key_row l st h r \<longrightarrow> r \<in> set rs)"
proof (induction vs arbitrary: vis rs vis')
  case (Cons v vs)
  from Cons.prems obtain h where h: "hash_key v = Inr h" by (auto simp: bindE_eq_Inr)
  show ?case
  proof (cases "h \<in> vis")
    case True
    with Cons.prems h have "trace_causes l st vs vis = Inr (rs, vis')" by simp
    from Cons.IH[OF this] True h show ?thesis by auto
  next
    case False
    with Cons.prems h obtain x rs1 where x: "cause_row l st v = Inr x"
      and t: "trace_causes l st vs (insert h vis) = Inr (rs1, vis')"
      and rs: "rs = (case x of None \<Rightarrow> rs1 | Some r \<Rightarrow> r # rs1)"
      by (auto simp: bindE_eq_Inr)
    note ih = Cons.IH[OF t]
    have new: "r \<in> set rs" if "key_row l st h r" for r
      using cause_row_unique[OF h x that] rs by simp
    have sub: "set rs1 \<subseteq> set rs" by (auto simp: rs split: option.splits)
    have "\<exists>u\<in>set (v # vs). cause_row l st u = Inr (Some r)" if "r \<in> set rs" for r
    proof (cases "x = Some r")
      case True
      with x show ?thesis by auto
    next
      case False
      with that have "r \<in> set rs1" by (auto simp: rs split: option.splits)
      with ih show ?thesis by auto
    qed
    moreover have "r \<in> set rs" if k: "k \<in> vis' - vis" "key_row l st k r" for k r
    proof (cases "k = h")
      case True
      with new k show ?thesis by simp
    next
      case False
      with ih k sub show ?thesis by blast
    qed
    ultimately show ?thesis using ih h by auto
  qed
qed simp

lemma trace_causes_edge:
  "iter_causes d = Inr cs \<Longrightarrow> trace_causes l st cs vis = Inr (rs, vis') \<Longrightarrow> r \<in> set rs \<Longrightarrow>
   cause_edge l st d r"
  using trace_causes_spec[of l st cs vis rs vis'] by (fastforce simp: cause_edge_def)

lemma trace_back_sound:
  "trace_back l st fr vis = Inr rs \<Longrightarrow> r \<in> set rs \<Longrightarrow> \<exists>d\<in>set fr. causal l st d r"
proof (induction l st fr vis arbitrary: rs r rule: trace_back.induct)
  case (2 l st d fr vis)
  from "2.prems"(1) obtain cs rs1 vis' rest where cs: "iter_causes d = Inr cs"
    and t: "trace_causes l st cs vis = Inr (rs1, vis')"
    and b: "trace_back l st (rev (map snd rs1) @ fr) vis' = Inr rest" and rs: "rs = rs1 @ rest"
    by (auto simp: bindE_eq_Inr)
  note e = trace_causes_edge[OF cs t]
  from "2.prems"(2) rs consider "r \<in> set rs1" | "r \<in> set rest" by auto
  then show ?case
  proof cases
    case 1
    with e causal.cause show ?thesis by (metis list.set_intros(1))
  next
    case 2
    from "2.IH"[OF cs t refl b 2] obtain d' where
      d': "d' \<in> set (rev (map snd rs1) @ fr)" "causal l st d' r" by blast
    then show ?thesis
    proof (cases "d' \<in> set fr")
      case False
      with d' obtain r1 where r1: "r1 \<in> set rs1" "d' = snd r1" by auto
      with causal_trans[of l st r1 r d] e[of r1] d' causal.cause show ?thesis by auto
    qed auto
  qed
qed simp

text \<open>Every value met is visited, and every key visited has yielded its row.\<close>

lemma trace_back_closed:
  "trace_back l st fr vis = Inr rs \<Longrightarrow>
   \<exists>W. vis \<subseteq> W \<and>
     (\<forall>d \<in> set fr \<union> snd ` set rs. \<exists>cs. iter_causes d = Inr cs \<and>
        (\<forall>v\<in>set cs. \<forall>h. hash_key v = Inr h \<longrightarrow> h \<in> W)) \<and>
     (\<forall>h\<in>W - vis. \<forall>r. key_row l st h r \<longrightarrow> r \<in> set rs)"
proof (induction l st fr vis arbitrary: rs rule: trace_back.induct)
  case (2 l st d fr vis)
  from "2.prems"(1) obtain cs rs1 vis' rest where cs: "iter_causes d = Inr cs"
    and t: "trace_causes l st cs vis = Inr (rs1, vis')"
    and b: "trace_back l st (rev (map snd rs1) @ fr) vis' = Inr rest" and rs: "rs = rs1 @ rest"
    by (auto simp: bindE_eq_Inr)
  from "2.IH"[OF cs t refl b] obtain W where W: "vis' \<subseteq> W"
    "\<forall>d \<in> set (rev (map snd rs1) @ fr) \<union> snd ` set rest. \<exists>cs. iter_causes d = Inr cs \<and>
        (\<forall>v\<in>set cs. \<forall>h. hash_key v = Inr h \<longrightarrow> h \<in> W)"
    "\<forall>h\<in>W - vis'. \<forall>r. key_row l st h r \<longrightarrow> r \<in> set rest" by blast
  note s = trace_causes_spec[OF t]
  have "vis \<subseteq> W" using s W(1) by blast
  moreover have "\<forall>d' \<in> set (d # fr) \<union> snd ` set rs. \<exists>cs. iter_causes d' = Inr cs \<and>
        (\<forall>v\<in>set cs. \<forall>h. hash_key v = Inr h \<longrightarrow> h \<in> W)"
  proof
    fix d' assume "d' \<in> set (d # fr) \<union> snd ` set rs"
    then consider "d' = d" | "d' \<in> set (rev (map snd rs1) @ fr) \<union> snd ` set rest" by (auto simp: rs)
    then show "\<exists>cs. iter_causes d' = Inr cs \<and> (\<forall>v\<in>set cs. \<forall>h. hash_key v = Inr h \<longrightarrow> h \<in> W)"
    proof cases
      case 1
      with cs s W(1) show ?thesis by blast
    next
      case 2
      with W(2) show ?thesis by blast
    qed
  qed
  moreover have "\<forall>h\<in>W - vis. \<forall>r. key_row l st h r \<longrightarrow> r \<in> set rs"
  proof (intro ballI allI impI)
    fix h r assume h: "h \<in> W - vis" "key_row l st h r"
    show "r \<in> set rs"
    proof (cases "h \<in> vis'")
      case True
      with s h have "r \<in> set rs1" by blast
      then show ?thesis by (simp add: rs)
    next
      case False
      with W(3) h have "r \<in> set rest" by blast
      then show ?thesis by (simp add: rs)
    qed
  qed
  ultimately show ?case by blast
qed auto

lemma cause_row_hashable: "cause_row l st v = Inr (Some r) \<Longrightarrow> \<exists>h. hash_key v = Inr h"
  by (cases v) (auto simp: cause_row_def cause_index_def bindE_eq_Inr)

lemma trace_back_complete:
  assumes t: "trace_back l st fr {} = Inr rs"
  shows "causal l st d r \<Longrightarrow> d \<in> set fr \<Longrightarrow> r \<in> set rs"
proof -
  from trace_back_closed[OF t] obtain W where W:
    "\<forall>d \<in> set fr \<union> snd ` set rs. \<exists>cs. iter_causes d = Inr cs \<and>
        (\<forall>v\<in>set cs. \<forall>h. hash_key v = Inr h \<longrightarrow> h \<in> W)"
    "\<forall>h\<in>W. \<forall>r. key_row l st h r \<longrightarrow> r \<in> set rs" by auto
  have edge: "r \<in> set rs" if d: "d \<in> set fr \<union> snd ` set rs" and e: "cause_edge l st d r" for d r
  proof -
    from e obtain cs v where v: "iter_causes d = Inr cs" "v \<in> set cs" "cause_row l st v = Inr (Some r)"
      by (auto simp: cause_edge_def)
    from cause_row_hashable[OF v(3)] obtain h where h: "hash_key v = Inr h" ..
    from W(1) d obtain cs' where "iter_causes d = Inr cs'"
      "\<forall>v\<in>set cs'. \<forall>h. hash_key v = Inr h \<longrightarrow> h \<in> W" by blast
    with v(1,2) h have "h \<in> W" by simp
    moreover have "key_row l st h r" using h v(3) by (auto simp: key_row_def)
    ultimately show ?thesis using W(2) by blast
  qed
  show "causal l st d r \<Longrightarrow> d \<in> set fr \<Longrightarrow> r \<in> set rs"
    by (induction d r rule: causal.induct) (auto intro: edge)
qed

lemma trace_back_exact:
  assumes "trace_back l st fr {} = Inr rs"
  shows "set rs = {r. \<exists>d\<in>set fr. causal l st d r}"
  using trace_back_sound[OF assms] trace_back_complete[OF assms] by blast

section \<open>Forward\<close>

definition dep_edge :: "oplog \<Rightarrow> doc mvcc \<Rightarrow> (int, int list) dict \<Rightarrow> int option \<Rightarrow> int \<Rightarrow> int \<Rightarrow> bool" where
  "dep_edge l st cm as_of q q' \<longleftrightarrow> q' \<in> set (dget cm q []) \<and> (\<exists>r. dep_row l st as_of q' = Inr (Some r))"

inductive effect_of :: "oplog \<Rightarrow> doc mvcc \<Rightarrow> (int, int list) dict \<Rightarrow> int option \<Rightarrow> int \<Rightarrow> int \<Rightarrow> bool"
  for l st cm as_of where
  direct: "dep_edge l st cm as_of q q' \<Longrightarrow> effect_of l st cm as_of q q'"
| further: "effect_of l st cm as_of q q' \<Longrightarrow> dep_edge l st cm as_of q' q'' \<Longrightarrow> effect_of l st cm as_of q q''"

lemma effect_trans:
  "effect_of l st cm as_of q' q'' \<Longrightarrow> effect_of l st cm as_of q q' \<Longrightarrow> effect_of l st cm as_of q q''"
  by (induction q' q'' rule: effect_of.induct) (auto intro: effect_of.further)

lemma trace_deps_spec:
  "trace_deps l st as_of qs vis = Inr (rs, vis') \<Longrightarrow>
   vis' = vis \<union> set qs \<and>
   set rs = {(q, r). q \<in> set qs - vis \<and> dep_row l st as_of q = Inr (Some r)}"
proof (induction qs arbitrary: vis rs vis')
  case (Cons q qs)
  show ?case
  proof (cases "q \<in> vis")
    case True
    with Cons.prems have "trace_deps l st as_of qs vis = Inr (rs, vis')" by simp
    from Cons.IH[OF this] True show ?thesis by auto
  next
    case False
    with Cons.prems obtain x rs1 where x: "dep_row l st as_of q = Inr x"
      and t: "trace_deps l st as_of qs (insert q vis) = Inr (rs1, vis')"
      and rs: "rs = (case x of None \<Rightarrow> rs1 | Some r \<Rightarrow> (q, r) # rs1)"
      by (auto simp: bindE_eq_Inr)
    from Cons.IH[OF t] x rs False show ?thesis by (auto split: option.splits)
  qed
qed simp

lemma trace_fwd_spec:
  "trace_fwd l st cm as_of qu vis = Inr rs \<Longrightarrow>
   \<exists>qs W. set rs = {r. \<exists>q\<in>qs. dep_row l st as_of q = Inr (Some r)} \<and>
     vis \<subseteq> W \<and>
     (\<forall>q'\<in>qs. \<exists>q\<in>set qu. effect_of l st cm as_of q q') \<and>
     (\<forall>q \<in> set qu \<union> qs. set (dget cm q []) \<subseteq> W) \<and>
     (\<forall>q\<in>W - vis. (\<exists>r. dep_row l st as_of q = Inr (Some r)) \<longrightarrow> q \<in> qs)"
proof (induction l st cm as_of qu vis arbitrary: rs rule: trace_fwd.induct)
  case (1 l st cm as_of vis)
  then show ?case by (intro exI[of _ "{}"] exI[of _ vis]) simp
next
  case (2 l st cm as_of q qu vis)
  from "2.prems" obtain rs1 vis' rest where
    t: "trace_deps l st as_of (dget cm q []) vis = Inr (rs1, vis')"
    and b: "trace_fwd l st cm as_of (qu @ map fst rs1) vis' = Inr rest" and rs: "rs = map snd rs1 @ rest"
    by (auto simp: bindE_eq_Inr)
  note s = trace_deps_spec[OF t]
  from "2.IH"[OF t refl b] obtain qs W where W:
    "set rest = {r. \<exists>q\<in>qs. dep_row l st as_of q = Inr (Some r)}" "vis' \<subseteq> W"
    "\<forall>q'\<in>qs. \<exists>q\<in>set (qu @ map fst rs1). effect_of l st cm as_of q q'"
    "\<forall>q \<in> set (qu @ map fst rs1) \<union> qs. set (dget cm q []) \<subseteq> W"
    "\<forall>q\<in>W - vis'. (\<exists>r. dep_row l st as_of q = Inr (Some r)) \<longrightarrow> q \<in> qs" by blast
  let ?new = "fst ` set rs1"
  have new: "effect_of l st cm as_of q q'" if "q' \<in> ?new" for q'
    using that s by (auto intro!: effect_of.direct simp: dep_edge_def)
  have "set rs = {r. \<exists>q\<in>?new \<union> qs. dep_row l st as_of q = Inr (Some r)}"
    using s W(1) by (auto simp: rs image_iff)
  moreover have "vis \<subseteq> W" using s W(2) by blast
  moreover have "\<forall>q'\<in>?new \<union> qs. \<exists>q0\<in>set (q # qu). effect_of l st cm as_of q0 q'"
  proof
    fix q' assume "q' \<in> ?new \<union> qs"
    then show "\<exists>q0\<in>set (q # qu). effect_of l st cm as_of q0 q'"
    proof
      assume "q' \<in> qs"
      with W(3) obtain q1 where q1: "q1 \<in> set (qu @ map fst rs1)" "effect_of l st cm as_of q1 q'" by blast
      then show ?thesis
      proof (cases "q1 \<in> set qu")
        case False
        with q1 have "q1 \<in> ?new" by auto
        from effect_trans[OF q1(2) new[OF this]] show ?thesis by auto
      qed auto
    qed (use new in auto)
  qed
  moreover have "\<forall>q0 \<in> set (q # qu) \<union> (?new \<union> qs). set (dget cm q0 []) \<subseteq> W"
  proof
    fix q0 assume "q0 \<in> set (q # qu) \<union> (?new \<union> qs)"
    then consider "q0 = q" | "q0 \<in> set (qu @ map fst rs1) \<union> qs" by auto
    then show "set (dget cm q0 []) \<subseteq> W"
    proof cases
      case 1
      with s W(2) show ?thesis by blast
    next
      case 2
      with W(4) show ?thesis by blast
    qed
  qed
  moreover have "\<forall>q\<in>W - vis. (\<exists>r. dep_row l st as_of q = Inr (Some r)) \<longrightarrow> q \<in> ?new \<union> qs"
  proof (intro ballI impI)
    fix q0 assume a: "q0 \<in> W - vis" "\<exists>r. dep_row l st as_of q0 = Inr (Some r)"
    show "q0 \<in> ?new \<union> qs"
    proof (cases "q0 \<in> vis'")
      case True
      with a s show ?thesis by (auto simp: image_iff)
    next
      case False
      with a W(5) show ?thesis by blast
    qed
  qed
  ultimately show ?case by (intro exI[of _ "?new \<union> qs"] exI[of _ W]) simp
qed

lemma trace_fwd_exact:
  assumes "trace_fwd l st cm as_of qu {} = Inr rs"
  shows "set rs = {r. \<exists>q\<in>set qu. \<exists>q'. effect_of l st cm as_of q q' \<and> dep_row l st as_of q' = Inr (Some r)}"
proof -
  from trace_fwd_spec[OF assms] obtain qs W where W:
    "set rs = {r. \<exists>q\<in>qs. dep_row l st as_of q = Inr (Some r)}"
    "\<forall>q'\<in>qs. \<exists>q\<in>set qu. effect_of l st cm as_of q q'"
    "\<forall>q \<in> set qu \<union> qs. set (dget cm q []) \<subseteq> W"
    "\<forall>q\<in>W. (\<exists>r. dep_row l st as_of q = Inr (Some r)) \<longrightarrow> q \<in> qs" by auto
  have edge: "q' \<in> qs" if "q \<in> set qu \<union> qs" "dep_edge l st cm as_of q q'" for q q'
    using that W(3,4) unfolding dep_edge_def by blast
  have "effect_of l st cm as_of q q' \<Longrightarrow> q \<in> set qu \<Longrightarrow> q' \<in> qs" for q q'
    by (induction q q' rule: effect_of.induct) (auto intro: edge)
  with W(1,2) show ?thesis by blast
qed

section \<open>The cause map\<close>

lemma set_note: "q' \<in> set (dget (fold (\<lambda>c. dappend c s) cs cm) q []) \<longleftrightarrow>
  q' \<in> set (dget cm q []) \<or> (q' = s \<and> q \<in> set cs)"
  by (induction cs arbitrary: cm) auto

lemma set_causes: "q' \<in> set (dget (fold note_causes ops cm) q []) \<longleftrightarrow>
  q' \<in> set (dget cm q []) \<or> (\<exists>r\<in>set ops. o_seq r = q' \<and> q \<in> set (causes_of r))"
  by (induction ops arbitrary: cm) (auto simp: note_causes_def set_note)

lemma causes_recorded:
  assumes "engine_ok X e"
  shows "q' \<in> set (dget (m_causes (e_mat e)) q []) \<longleftrightarrow>
    (\<exists>r\<in>set (l_ops (e_log e)). o_seq r = q' \<and> q \<in> set (causes_of r))"
  using assms by (simp add: engine_ok_def data_ok_def set_causes)

end
