(* ===== verification/Samples.thy ===== *)
theory Samples
  imports Lifecycle TraceInv
begin

text \<open>
  Concrete engines on which the properties are instantiated: a fresh durable database with the
  external functions \<open>ext0\<close>, and the same database after one put.
\<close>

definition V0 :: env where
  "V0 = \<lparr> v_now = 0, v_ts = (\<lambda>_. 0), v_rand = (\<lambda>_. replicate 12 (CHR 0x00)) \<rparr>"

lemma V0_ok: "env_ok V0"
  by (simp add: V0_def env_ok_def NONCE_LEN_def fl_def)

lemma ext0_env: "ext_ok ext0"
  using ext0_ok exact_repr_ok by (simp add: ext_ok_def)

definition e0 :: engine where
  "e0 = (engine_new True None empty_disk)\<lparr> e_open := True, e_disk := empty_disk\<lparr> d_aof := Some [] \<rparr> \<rparr>"

lemma e0_open: "open_files ext0 V0 (engine_new True None empty_disk) = (Inr (), e0)"
  by (simp add: open_files_def e0_def empty_disk_def aof_lines_def engine_new_def)

lemma e0_life: "lifecycle ext0 e0"
  by (rule lifecycle.create[OF V0_ok _ _ e0_open]) (simp_all add: empty_disk_def)

lemma e0_ok: "engine_ok ext0 e0"
  by (rule lifecycle_ok[OF ext0_env e0_life])

definition put0 :: "doc option call" where
  "put0 = eng_put ext0 V0 ''c'' ''k'' [(''a'', PInt 1)] ''u'' None None None no_prov e0"

definition e1 :: engine where "e1 = snd put0"

definition doc1 :: doc where
  "doc1 = [(''a'', PInt 1), (''_id'', PStr ''k''), (''_seq'', PInt 0)]"

lemma put0_run: "put0 = (Inr (Some doc1), e1)" "e_open e1" "e_buf e1 = []" "d_snap (e_disk e1) = None"
  "d_meta (e_disk e1) = None" "e_dek e1 = None" "length (l_ops (e_log e1)) = 1"
  "aof_lines (e_disk e1) = [op_line ext0 (hd (l_ops (e_log e1)))]" "e_nonce e1 = [(''u'', 1)]"
  "ix_config (m_ix (e_mat e1)) = []"
  by (simp_all add: put0_def e1_def e0_def engine_new_def empty_disk_def eng_put_def put_doc_def
      embed_ttl_def set_opt_def setdefault_def no_prov_def Let_def pick_nonce_def next_nonce_def commit_def
      eng_append_def log_append_def log_init_def eng_flush_def eng_fold_def apply_op_def
      apply_effect_def drop_old_def mat_init_def mv_init_def history_def on_ix_def ix_add_def ix_init_def
      note_causes_def causes_of_def store_of_def mv_put_def stamp_def doc1_def aof_lines_def aof_encode_def
      dappend_def dget_def visible_def)

lemma delete1_run: "\<exists>e2. eng_delete ext0 V0 ''c'' ''k'' ''u'' None None e1 = (Inr (), e2)"
proof -
  have "m_ix (e_mat e1) = ix_init" "l_last (e_log e1) = [(''u'', 1)]"
    by (simp_all add: put0_def e1_def e0_def engine_new_def empty_disk_def eng_put_def put_doc_def
      embed_ttl_def set_opt_def setdefault_def no_prov_def Let_def pick_nonce_def next_nonce_def commit_def
      eng_append_def log_append_def log_init_def eng_flush_def eng_fold_def apply_op_def
      apply_effect_def drop_old_def mat_init_def mv_init_def history_def on_ix_def ix_add_def ix_init_def
      note_causes_def causes_of_def store_of_def mv_put_def stamp_def)
  then obtain r created e2 where
    a: "eng_append ext0 (v_ts V0 0) (v_rand V0 0) ''u'' 2 ''delete'' (delete_payload ''c'' ''k'') None no_prov
      (e1\<lparr> e_nonce := [(''u'', 2)] \<rparr>) = (Inr (r, created), e2)"
    by (cases "e_defer e1") (auto simp: eng_append_def log_append_def put0_run Let_def dget_def)
  have r: "o_op r = ''delete''" "o_payload r = delete_payload ''c'' ''k''" "o_prov r = no_prov"
      "e_mat e2 = e_mat e1" "created"
    using append_log[OF a] eng_append_new[OF a] by (auto simp: log_append_def Let_def split: if_splits)
  then have "\<exists>m. apply_op True r (e_mat e2) = (None, m)"
    using drop_old_no_index[of "e_mat e1"] \<open>m_ix (e_mat e1) = ix_init\<close>
    by (simp add: apply_op_def apply_effect_def Let_def)
  then show ?thesis
    using a r by (auto simp: eng_delete_def pick_nonce_def next_nonce_def put0_run dget_def commit_def
        eng_fold_def Let_def)
qed

lemma hd_e1: "hd (l_ops (e_log e1)) \<in> set (l_ops (e_log e1))" "op_ok (hd (l_ops (e_log e1)))"
proof -
  have "l_ops (e_log e1) \<noteq> []" using put0_run(7) by auto
  then show h: "hd (l_ops (e_log e1)) \<in> set (l_ops (e_log e1))" by (rule hd_in_set)
  have "engine_ok ext0 e1"
    by (rule put_ok[OF ext0_env V0_ok e0_ok _ _ _ put0_run(1)[unfolded put0_def]])
      (simp_all add: good_coll_def prov_ok_def no_prov_def)
  with h show "op_ok (hd (l_ops (e_log e1)))" by (simp add: engine_ok_def)
qed

text \<open>A broken chain whose operations match their own hashes.\<close>

definition r_broken :: oprec where
  "r_broken = (hd (l_ops (e_log e1)))\<lparr> o_prev := ''x'',
     o_hash := blake ext0 (''x'' @ canon ext0 (op_body (hd (l_ops (e_log e1))))) \<rparr>"

definition e_broken :: engine where
  "e_broken = (engine_new False None empty_disk)\<lparr> e_log := log_load [r_broken] \<rparr>"

lemma e_broken_facts: "\<forall>r\<in>set (l_ops (e_log e_broken)). op_ok r" "\<not> log_verify ext0 (e_log e_broken)"
  "internally_valid ext0 (l_ops (e_log e_broken))" "\<forall>r\<in>set (l_ops (e_log e_broken)). o_prov r = no_prov"
proof -
  have "op_body r_broken = op_body (hd (l_ops (e_log e1)))" by (simp add: r_broken_def op_body_def)
  then show "internally_valid ext0 (l_ops (e_log e_broken))"
    by (simp add: e_broken_def internally_valid_def) (simp add: r_broken_def)
  show "\<forall>r\<in>set (l_ops (e_log e_broken)). op_ok r"
    using hd_e1(2) by (simp add: e_broken_def r_broken_def op_ok_def)
  have "o_prov (hd (l_ops (e_log e1))) = no_prov"
    by (simp add: put0_def e1_def e0_def engine_new_def empty_disk_def eng_put_def put_doc_def
      embed_ttl_def set_opt_def setdefault_def no_prov_def Let_def pick_nonce_def next_nonce_def commit_def
      eng_append_def log_append_def log_init_def eng_flush_def eng_fold_def apply_op_def
      apply_effect_def drop_old_def mat_init_def mv_init_def history_def on_ix_def ix_add_def ix_init_def
      note_causes_def causes_of_def store_of_def mv_put_def stamp_def)
  then show "\<forall>r\<in>set (l_ops (e_log e_broken)). o_prov r = no_prov"
    by (simp add: e_broken_def r_broken_def)
  have "GENESIS \<noteq> ''x''" by code_simp
  then show "\<not> log_verify ext0 (e_log e_broken)"
    by (simp add: e_broken_def r_broken_def log_verify_def)
qed

lemma unreadable_x: "unreadable ext0 None ''x''"
proof -
  have "aof_decode ext0 ''x'' None = ''x''" "parse_line ''x'' = Inl DecodeErr" by code_simp+
  then show ?thesis by (simp add: unreadable_def)
qed

end
