(* ===== verification/NqlText.thy ===== *)
theory NqlText
  imports Nql
begin

text \<open>
  The grammar of NQL as a printer of plans, and the round trips that make the parser complete
  for it: the tokens of a plan parse to the plan, the text of a plan lexes to its tokens, and
  every plan that parsing returns is one the printer covers.
\<close>

section \<open>Plans that have a text\<close>

definition lexeme :: "string \<Rightarrow> bool" where
  "lexeme w \<longleftrightarrow> w \<noteq> [] \<and> word_start (hd w) \<and> list_all word_char w"

definition name_ok :: "string \<Rightarrow> bool" where
  "name_ok n \<longleftrightarrow> n \<in> set KEYWORDS \<or> (lexeme n \<and> str_lower n \<notin> set KEYWORDS)"

definition quotable :: "string \<Rightarrow> bool" where
  "quotable s \<longleftrightarrow> CHR 0x22 \<notin> set s \<or> CHR 0x27 \<notin> set s"

fun value_ok :: "pyval \<Rightarrow> bool" where
  "value_ok (PStr s) = quotable s"
| "value_ok (PList _) = False"
| "value_ok (PDict _) = False"
| "value_ok _ = True"

definition OPS :: "string list" where
  "OPS = [''<='', ''>='', ''!='', ''='', ''<'', ''>'']"

definition cond_ok :: "string \<times> string \<times> pyval \<Rightarrow> bool" where
  "cond_ok c = (case c of (f, op, v) \<Rightarrow> name_ok f \<and> op \<in> set OPS \<and> value_ok v)"

definition opt_ok :: "('a \<Rightarrow> bool) \<Rightarrow> 'a option \<Rightarrow> bool" where
  "opt_ok P x = (case x of None \<Rightarrow> True | Some y \<Rightarrow> P y)"

lemma opt_ok_simps [simp]: "opt_ok P None" "opt_ok P (Some y) = P y"
  by (simp_all add: opt_ok_def)

definition agg_ok :: "string \<times> string option \<Rightarrow> bool" where
  "agg_ok a = (case a of
     (fn, None) \<Rightarrow> fn = ''count''
   | (fn, Some f) \<Rightarrow> fn \<in> set AGGS \<and> fn \<noteq> ''count'' \<and> name_ok f)"

definition order_ok :: "string \<times> string \<Rightarrow> bool" where
  "order_ok fd = (name_ok (fst fd) \<and> snd fd \<in> {''ASC'', ''DESC''})"

definition plan_ok :: "plan \<Rightarrow> bool" where
  "plan_ok p \<longleftrightarrow>
     name_ok (q_from p) \<and> list_all cond_ok (q_where p) \<and> opt_ok quotable (q_search p) \<and>
     opt_ok quotable (q_valid p) \<and> opt_ok order_ok (q_order p) \<and>
     opt_ok name_ok (q_traverse p) \<and> opt_ok name_ok (q_trace p) \<and>
     (q_reverse p \<longrightarrow> q_trace p \<noteq> None) \<and> opt_ok name_ok (q_group p) \<and>
     opt_ok agg_ok (q_agg p) \<and> (q_agg p \<noteq> None \<longrightarrow> q_group p \<noteq> None)"

section \<open>Tokens of a plan\<close>

definition opt_toks :: "('a \<Rightarrow> tok list) \<Rightarrow> 'a option \<Rightarrow> tok list" where
  "opt_toks f x = (case x of None \<Rightarrow> [] | Some y \<Rightarrow> f y)"

lemma opt_toks_simps [simp]: "opt_toks f None = []" "opt_toks f (Some y) = f y"
  by (simp_all add: opt_toks_def)

definition name_to_tok :: "string \<Rightarrow> tok" where
  "name_to_tok n = (if n \<in> set KEYWORDS then TKw n else TWord n)"

fun value_to_tok :: "pyval \<Rightarrow> tok" where
  "value_to_tok (PStr s) = TStr s"
| "value_to_tok (PBool b) = TKw (if b then ''true'' else ''false'')"
| "value_to_tok PNone = TKw ''null''"
| "value_to_tok v = TNum v"

fun cond_toks :: "string \<times> string \<times> pyval \<Rightarrow> tok list" where
  "cond_toks (f, op, v) = [name_to_tok f, TOp op, value_to_tok v]"

fun and_toks :: "(string \<times> string \<times> pyval) list \<Rightarrow> tok list" where
  "and_toks [] = []"
| "and_toks [c] = cond_toks c"
| "and_toks (c # d # cs) = cond_toks c @ [TKw ''and''] @ and_toks (d # cs)"

definition where_toks :: "(string \<times> string \<times> pyval) list \<Rightarrow> tok list" where
  "where_toks cs = (if cs = [] then [] else TKw ''where'' # and_toks cs)"

definition order_toks :: "string \<times> string \<Rightarrow> tok list" where
  "order_toks fd =
     [TKw ''order'', TKw ''by'', name_to_tok (fst fd),
      TKw (if snd fd = ''DESC'' then ''desc'' else ''asc'')]"

fun agg_toks :: "string \<times> string option \<Rightarrow> tok list" where
  "agg_toks (fn, f) = TKw fn # opt_toks (\<lambda>f. [name_to_tok f]) f"

definition plan_toks :: "plan \<Rightarrow> tok list" where
  "plan_toks p =
     [TKw ''from'', name_to_tok (q_from p)] @
     opt_toks (\<lambda>n. [TKw ''as'', TKw ''of'', TNum (PInt n)]) (q_as_of p) @
     opt_toks (\<lambda>d. [TKw ''valid'', TKw ''as'', TKw ''of'', TStr d]) (q_valid p) @
     where_toks (q_where p) @
     opt_toks (\<lambda>s. [TKw ''search'', TStr s]) (q_search p) @
     opt_toks order_toks (q_order p) @
     opt_toks (\<lambda>r. [TKw ''traverse'', name_to_tok r]) (q_traverse p) @
     opt_toks (\<lambda>f. TKw ''trace'' # name_to_tok f # (if q_reverse p then [TKw ''reverse''] else []))
       (q_trace p) @
     opt_toks (\<lambda>n. [TKw ''limit'', TNum (PInt n)]) (q_limit p) @
     opt_toks (\<lambda>f. TKw ''group'' # TKw ''by'' # name_to_tok f # opt_toks agg_toks (q_agg p)) (q_group p)"

section \<open>Parsing the tokens of a plan\<close>

lemma at_kw_Cons [simp]: "at_kw k (t # ts) \<longleftrightarrow> t = TKw k"
  by (simp add: at_kw_def)

lemma at_kw_Nil [simp]: "\<not> at_kw k []"
  by (simp add: at_kw_def)

lemma at_kw_opt:
  "(\<And>y. \<not> at_kw k (f y @ ts)) \<Longrightarrow> \<not> at_kw k ts \<Longrightarrow> \<not> at_kw k (opt_toks f x @ ts)"
  by (cases x) simp_all

lemma tok_name_name [simp]: "tok_name (name_to_tok n) = Some n"
  by (simp add: name_to_tok_def)

lemma name_tok_name [simp]: "name_tok (name_to_tok n # ts) = Inr (n, ts)"
  by (simp add: name_tok_def)

lemma value_of_value [simp]: "value_ok v \<Longrightarrow> value_of (value_to_tok v) = Some v"
  by (cases v) auto

lemma where_loop_toks:
  "cs \<noteq> [] \<Longrightarrow> list_all cond_ok cs \<Longrightarrow> \<not> at_kw ''and'' ts \<Longrightarrow> where_loop (and_toks cs @ ts) = Inr (cs, ts)"
proof (induction cs rule: and_toks.induct)
  case (2 c)
  obtain f op v where "c = (f, op, v)" by (cases c)
  with 2 show ?case by (simp add: where_loop.simps[of "_ # _"] cond_ok_def)
next
  case (3 c d cs)
  obtain f op v where "c = (f, op, v)" by (cases c)
  then have e: "and_toks (c # d # cs) @ ts =
      name_to_tok f # TOp op # value_to_tok v # TKw ''and'' # and_toks (d # cs) @ ts" by simp
  have "name_ok f" "value_ok v" using 3 \<open>c = _\<close> by (simp_all add: cond_ok_def)
  moreover have "where_loop (and_toks (d # cs) @ ts) = Inr (d # cs, ts)"
    using 3 by (simp del: and_toks.simps)
  ultimately show ?case
    unfolding e by (subst where_loop.simps) (simp del: and_toks.simps add: \<open>c = _\<close>)
qed simp

text \<open>Each clause reads its own tokens and stops.\<close>

lemma cl_as_of_toks:
  "q_as_of p = None \<Longrightarrow> \<not> at_kw ''as'' ts \<Longrightarrow>
   cl_as_of p (opt_toks (\<lambda>n. [TKw ''as'', TKw ''of'', TNum (PInt n)]) x @ ts) =
   Inr (p\<lparr> q_as_of := x \<rparr>, ts)"
  by (cases x; cases p) (simp_all add: cl_as_of_def clause_def expect_kw_def py_int_def)

lemma cl_valid_toks:
  "q_valid p = None \<Longrightarrow> \<not> at_kw ''valid'' ts \<Longrightarrow>
   cl_valid p (opt_toks (\<lambda>d. [TKw ''valid'', TKw ''as'', TKw ''of'', TStr d]) x @ ts) =
   Inr (p\<lparr> q_valid := x \<rparr>, ts)"
  by (cases x; cases p) (simp_all add: cl_valid_def clause_def)

lemma cl_where_toks:
  assumes "q_where p = []" "\<not> at_kw ''where'' ts" "\<not> at_kw ''and'' ts" "list_all cond_ok cs"
  shows "cl_where p (where_toks cs @ ts) = Inr (p\<lparr> q_where := cs \<rparr>, ts)"
  using assms where_loop_toks[of cs ts]
  by (cases "cs = []"; cases p) (simp_all add: cl_where_def clause_def where_toks_def)

lemma cl_valid2_skip: "\<not> at_kw ''valid'' ts \<Longrightarrow> cl_valid2 p ts = Inr (p, ts)"
  by (simp add: cl_valid2_def)

lemma cl_search_toks:
  "q_search p = None \<Longrightarrow> \<not> at_kw ''search'' ts \<Longrightarrow>
   cl_search p (opt_toks (\<lambda>s. [TKw ''search'', TStr s]) x @ ts) = Inr (p\<lparr> q_search := x \<rparr>, ts)"
  by (cases x; cases p) (simp_all add: cl_search_def clause_def)

lemma cl_order_toks:
  "q_order p = None \<Longrightarrow> \<not> at_kw ''order'' ts \<Longrightarrow> opt_ok order_ok x \<Longrightarrow>
   cl_order p (opt_toks order_toks x @ ts) = Inr (p\<lparr> q_order := x \<rparr>, ts)"
  by (cases x; cases p)
    (auto simp: cl_order_def clause_def expect_kw_def order_toks_def order_ok_def)

lemma cl_traverse_toks:
  "q_traverse p = None \<Longrightarrow> \<not> at_kw ''traverse'' ts \<Longrightarrow>
   cl_traverse p (opt_toks (\<lambda>r. [TKw ''traverse'', name_to_tok r]) x @ ts) =
   Inr (p\<lparr> q_traverse := x \<rparr>, ts)"
  by (cases x; cases p) (simp_all add: cl_traverse_def clause_def)

lemma cl_trace_toks:
  "q_trace p = None \<Longrightarrow> \<not> q_reverse p \<Longrightarrow> \<not> at_kw ''trace'' ts \<Longrightarrow> \<not> at_kw ''reverse'' ts \<Longrightarrow>
   (r \<longrightarrow> x \<noteq> None) \<Longrightarrow>
   cl_trace p (opt_toks (\<lambda>f. TKw ''trace'' # name_to_tok f # (if r then [TKw ''reverse''] else [])) x @ ts) =
   Inr (p\<lparr> q_trace := x, q_reverse := r \<rparr>, ts)"
  by (cases x; cases p) (simp_all add: cl_trace_def clause_def)

lemma cl_limit_toks:
  "q_limit p = None \<Longrightarrow> \<not> at_kw ''limit'' ts \<Longrightarrow>
   cl_limit p (opt_toks (\<lambda>n. [TKw ''limit'', TNum (PInt n)]) x @ ts) = Inr (p\<lparr> q_limit := x \<rparr>, ts)"
  by (cases x; cases p) (simp_all add: cl_limit_def clause_def py_int_def)

lemma cl_group_toks:
  "q_group p = None \<Longrightarrow> q_agg p = None \<Longrightarrow> (a \<noteq> None \<longrightarrow> x \<noteq> None) \<Longrightarrow> opt_ok agg_ok a \<Longrightarrow>
   cl_group p (opt_toks (\<lambda>f. TKw ''group'' # TKw ''by'' # name_to_tok f # opt_toks agg_toks a) x) =
   Inr (p\<lparr> q_group := x, q_agg := a \<rparr>, [])"
  by (cases x; cases p; cases a)
    (auto simp: cl_group_def clause_def expect_kw_def agg_ok_def AGGS_def Let_def split: option.splits)

lemma where_toks_kw: "k \<noteq> ''where'' \<Longrightarrow> \<not> at_kw k ts \<Longrightarrow> \<not> at_kw k (where_toks cs @ ts)"
  by (simp add: where_toks_def)

lemma order_toks_kw: "k \<noteq> ''order'' \<Longrightarrow> \<not> at_kw k (order_toks y @ ts)"
  by (simp add: order_toks_def)

lemma parse_plan_toks:
  assumes "plan_ok p"
  shows "parse_toks (plan_toks p) = Inr p"
proof -
  note kw = at_kw_opt where_toks_kw order_toks_kw
  have g: "\<not> at_kw k (opt_toks (\<lambda>f. TKw ''group'' # TKw ''by'' # name_to_tok f # g f) x)"
    if "k \<noteq> ''group''" for k g x
    using that by (cases x) simp_all
  show ?thesis
    using assms unfolding plan_ok_def parse_toks_def plan_toks_def
    by (simp add: kw g cl_as_of_toks cl_valid_toks cl_where_toks cl_valid2_skip cl_search_toks
        cl_order_toks cl_traverse_toks cl_trace_toks cl_limit_toks cl_group_toks
        empty_plan_def expect_kw_def split del: if_split)
qed

section \<open>Every parsed plan has a text\<close>

fun tok_ok :: "tok \<Rightarrow> bool" where
  "tok_ok (TStr s) = quotable s"
| "tok_ok (TNum v) = (case v of PInt _ \<Rightarrow> True | PFloat _ \<Rightarrow> True | _ \<Rightarrow> False)"
| "tok_ok (TOp s) = (s \<in> set OPS)"
| "tok_ok (TKw k) = (k \<in> set KEYWORDS)"
| "tok_ok (TWord w) = (lexeme w \<and> str_lower w \<notin> set KEYWORDS)"

lemma lex_unsigned_num: "lex_unsigned s = Some (v, r) \<Longrightarrow> tok_ok (TNum v) \<and> tok_ok (TNum (negate v))"
  by (auto simp: lex_unsigned_def split: option.splits)

lemma lex_number_num: "lex_number s = Some (v, r) \<Longrightarrow> tok_ok (TNum v)"
  unfolding lex_number_def
  by (auto dest: lex_unsigned_num split: list.splits if_splits)

lemma lex_quoted_chars: "lex_quoted q s = Some (x, r) \<Longrightarrow> q \<notin> set x"
  by (auto simp: lex_quoted_def dest: set_takeWhileD split: list.splits if_splits)

lemma lex_op_in: "lex_op s = Some (x, r) \<Longrightarrow> x \<in> set OPS"
  by (auto simp: lex_op_def OPS_def split: if_splits)

lemma word_tok_ok:
  assumes "s \<noteq> []" "word_start (hd s)"
  shows "tok_ok (word_tok (takeWhile word_char s))"
proof -
  have "word_char (hd s)" using assms by (simp add: word_char_def)
  with assms have "lexeme (takeWhile word_char s)"
    by (cases s) (auto simp: lexeme_def list_all_iff dest: set_takeWhileD)
  then show ?thesis by (simp add: word_tok_def Let_def)
qed

lemma next_token_ok: "next_token s = Some (Some t, r) \<Longrightarrow> tok_ok t"
  by (auto simp: next_token_def quotable_def word_tok_ok split: if_splits option.splits
      dest: lex_quoted_chars lex_number_num lex_op_in simp del: tok_ok.simps(2))

lemma nql_lex_ok: "nql_lex s = Inr ts \<Longrightarrow> list_all tok_ok ts"
proof (induction s arbitrary: ts rule: nql_lex.induct)
  case (1 s)
  show ?case
  proof (cases "s = []")
    case True
    with "1.prems" show ?thesis by (simp add: nql_lex.simps)
  next
    case False
    with "1.prems" obtain t r ts' where t: "next_token s = Some (t, r)" "nql_lex r = Inr ts'"
      "ts = (case t of None \<Rightarrow> ts' | Some t \<Rightarrow> t # ts')"
      by (subst (asm) nql_lex.simps) (auto simp: bindE_eq_Inr split: option.splits)
    from "1.IH"[OF False t(1)] t have "list_all tok_ok ts'" by simp
    with t(1,3) next_token_ok show ?thesis by (cases t) auto
  qed
qed

definition keeps :: "(plan \<Rightarrow> tok list \<Rightarrow> plan parse) \<Rightarrow> bool" where
  "keeps f \<longleftrightarrow> (\<forall>p ts p' ts'. f p ts = Inr (p', ts') \<longrightarrow> plan_ok p \<longrightarrow> list_all tok_ok ts \<longrightarrow>
     plan_ok p' \<and> list_all tok_ok ts')"

lemma keepsI:
  assumes "\<And>p ts p' ts'. f p ts = Inr (p', ts') \<Longrightarrow> plan_ok p \<Longrightarrow> list_all tok_ok ts \<Longrightarrow>
    plan_ok p' \<and> list_all tok_ok ts'"
  shows "keeps f"
  using assms by (simp add: keeps_def)

lemma keepsD:
  "keeps f \<Longrightarrow> f p ts = Inr (p', ts') \<Longrightarrow> plan_ok p \<Longrightarrow> list_all tok_ok ts \<Longrightarrow>
   plan_ok p' \<and> list_all tok_ok ts'"
  unfolding keeps_def by blast

lemma clause_keeps:
  assumes "\<And>p ts p' ts'. body p ts = Inr (p', ts') \<Longrightarrow> plan_ok p \<Longrightarrow> list_all tok_ok ts \<Longrightarrow>
    plan_ok p' \<and> list_all tok_ok ts'"
  shows "keeps (\<lambda>p. clause k (body p) p)"
proof (rule keepsI)
  fix p ts p' ts'
  assume c: "clause k (body p) p ts = Inr (p', ts')" "plan_ok p" "list_all tok_ok ts"
  have "list_all tok_ok (tl ts)" using c(3) by (cases ts) auto
  with c assms[of p "tl ts" p' ts'] show "plan_ok p' \<and> list_all tok_ok ts'"
    by (auto simp: clause_def split: if_splits)
qed

lemma tok_name_ok: "tok_ok t \<Longrightarrow> tok_name t = Some n \<Longrightarrow> name_ok n"
  by (cases t) (auto simp: name_ok_def)

lemma name_tok_ok: "name_tok ts = Inr (n, r) \<Longrightarrow> list_all tok_ok ts \<Longrightarrow> name_ok n \<and> list_all tok_ok r"
  by (auto simp: name_tok_def dest: tok_name_ok split: list.splits option.splits)

lemma num_tok_ok: "num_tok ts = Inr (n, r) \<Longrightarrow> list_all tok_ok ts \<Longrightarrow> list_all tok_ok r"
  by (induction ts rule: num_tok.induct) auto

lemma str_tok_ok: "str_tok ts = Inr (s, r) \<Longrightarrow> list_all tok_ok ts \<Longrightarrow> quotable s \<and> list_all tok_ok r"
  by (induction ts rule: str_tok.induct) auto

lemma expect_kw_ok: "expect_kw k ts = Inr r \<Longrightarrow> list_all tok_ok ts \<Longrightarrow> list_all tok_ok r"
  by (cases ts) (auto simp: expect_kw_def split: if_splits)

lemma list_all_tl: "list_all P xs \<Longrightarrow> list_all P (tl xs)"
  by (cases xs) auto

lemma skip_text_ok: "list_all tok_ok ts \<Longrightarrow> list_all tok_ok (skip_text k ts)"
  by (cases ts) (auto simp: skip_text_def)

lemma value_of_ok: "tok_ok t \<Longrightarrow> value_of t = Some v \<Longrightarrow> value_ok v"
proof (cases t)
  case (TWord w)
  assume "tok_ok t" "value_of t = Some v"
  moreover have "\<not> word_char (CHR 0x22)" by code_simp
  ultimately show ?thesis using TWord by (auto simp: quotable_def lexeme_def list_all_iff)
qed (auto split: if_splits pyval.splits)

lemma where_loop_ok:
  "where_loop ts = Inr (ws, r) \<Longrightarrow> list_all tok_ok ts \<Longrightarrow> list_all cond_ok ws \<and> list_all tok_ok r"
proof (induction ts arbitrary: ws r rule: where_loop.induct)
  case (1 ts)
  from "1.prems"(1) obtain f op t ts3 field v where
    ts: "ts = f # TOp op # t # ts3" "tok_name f = Some field" "value_of t = Some v"
    by (subst (asm) where_loop.simps) (auto split: list.splits option.splits tok.splits)
  with "1.prems"(2) have c: "cond_ok (field, op, v)" "list_all tok_ok ts3"
    by (auto simp: cond_ok_def dest: tok_name_ok value_of_ok)
  show ?case
  proof (cases "at_kw ''and'' ts3")
    case True
    with "1.prems"(1) ts obtain ws' where "where_loop (tl ts3) = Inr (ws', r)" "ws = (field, op, v) # ws'"
      by (subst (asm) where_loop.simps) (auto simp: bindE_eq_Inr)
    with "1.IH" ts True c list_all_tl show ?thesis by fastforce
  next
    case False
    with "1.prems"(1) ts c show ?thesis by (subst (asm) where_loop.simps) auto
  qed
qed

lemma cl_as_of_keeps: "keeps cl_as_of"
  unfolding cl_as_of_def
  by (rule clause_keeps) (auto simp: bindE_eq_Inr plan_ok_def dest: expect_kw_ok num_tok_ok)

lemma cl_valid_keeps: "keeps cl_valid"
  unfolding cl_valid_def
  by (rule clause_keeps)
    (auto simp: bindE_eq_Inr plan_ok_def Let_def list_all_tl dest!: str_tok_ok split: if_splits)

lemma cl_valid2_keeps: "keeps cl_valid2"
  by (rule keepsI)
    (auto simp: cl_valid2_def bindE_eq_Inr plan_ok_def list_all_tl skip_text_ok
      dest!: str_tok_ok split: if_splits)

lemma cl_where_keeps: "keeps cl_where"
  unfolding cl_where_def
  by (rule clause_keeps) (auto simp: bindE_eq_Inr plan_ok_def dest: where_loop_ok)

lemma cl_search_keeps: "keeps cl_search"
  unfolding cl_search_def
  by (rule clause_keeps) (auto simp: bindE_eq_Inr plan_ok_def dest: str_tok_ok)

lemma cl_order_keeps: "keeps cl_order"
  unfolding cl_order_def
proof (rule clause_keeps)
  fix p ts p' ts'
  assume a: "bindE (expect_kw ''by'' ts) (\<lambda>ts. bindE (name_tok ts) (\<lambda>(f, ts).
       if at_kw ''asc'' ts then Inr (p\<lparr> q_order := Some (f, ''ASC'') \<rparr>, tl ts)
       else if at_kw ''desc'' ts then Inr (p\<lparr> q_order := Some (f, ''DESC'') \<rparr>, tl ts)
       else Inr (p\<lparr> q_order := Some (f, ''ASC'') \<rparr>, ts))) = Inr (p', ts')"
    and p: "plan_ok p" and ok: "list_all tok_ok ts"
  from a obtain r f r' where r: "expect_kw ''by'' ts = Inr r" "name_tok r = Inr (f, r')"
    by (auto simp: bindE_eq_Inr)
  note f = name_tok_ok[OF r(2) expect_kw_ok[OF r(1) ok]]
  have "(\<exists>d\<in>{''ASC'', ''DESC''}. p' = p\<lparr> q_order := Some (f, d) \<rparr>) \<and> ts' \<in> {r', tl r'}"
    using a r by (auto split: if_splits)
  then show "plan_ok p' \<and> list_all tok_ok ts'"
    using f p list_all_tl[of tok_ok r'] by (auto simp: plan_ok_def order_ok_def)
qed

lemma cl_traverse_keeps: "keeps cl_traverse"
  unfolding cl_traverse_def
  by (rule clause_keeps) (auto simp: bindE_eq_Inr plan_ok_def dest: name_tok_ok)

lemma cl_trace_keeps: "keeps cl_trace"
  unfolding cl_trace_def
proof (rule clause_keeps)
  fix p ts p' ts'
  assume a: "bindE (name_tok ts) (\<lambda>(f, ts).
       if at_kw ''reverse'' ts then Inr (p\<lparr> q_trace := Some f, q_reverse := True \<rparr>, tl ts)
       else Inr (p\<lparr> q_trace := Some f \<rparr>, ts)) = Inr (p', ts')"
    and p: "plan_ok p" and ok: "list_all tok_ok ts"
  from a obtain f r where r: "name_tok ts = Inr (f, r)" by (auto simp: bindE_eq_Inr)
  note f = name_tok_ok[OF r ok]
  show "plan_ok p' \<and> list_all tok_ok ts'"
    using a r f p list_all_tl[of tok_ok r] by (auto simp: plan_ok_def split: if_splits)
qed

lemma cl_limit_keeps: "keeps cl_limit"
  unfolding cl_limit_def
  by (rule clause_keeps) (auto simp: bindE_eq_Inr plan_ok_def dest: num_tok_ok)

lemma cl_group_keeps: "keeps cl_group"
  unfolding cl_group_def
proof (rule clause_keeps)
  fix p ts p' ts'
  assume a: "bindE (expect_kw ''by'' ts) (\<lambda>ts. bindE (name_tok ts) (\<lambda>(f, ts).
       (let p = p\<lparr> q_group := Some f \<rparr> in
        case ts of
          TKw agg # r \<Rightarrow>
            if agg \<notin> set AGGS then Inr (p, ts)
            else if agg = ''count'' then Inr (p\<lparr> q_agg := Some (''count'', None) \<rparr>, r)
            else bindE (name_tok r) (\<lambda>(af, r). Inr (p\<lparr> q_agg := Some (agg, Some af) \<rparr>, r))
        | _ \<Rightarrow> Inr (p, ts)))) = Inr (p', ts')"
    and p: "plan_ok p" and ok: "list_all tok_ok ts"
  from a obtain r f r' where r: "expect_kw ''by'' ts = Inr r" "name_tok r = Inr (f, r')"
    by (auto simp: bindE_eq_Inr)
  note f = name_tok_ok[OF r(2) expect_kw_ok[OF r(1) ok]]
  have pf: "plan_ok (p\<lparr> q_group := Some f \<rparr>)" using p f by (auto simp: plan_ok_def)
  show "plan_ok p' \<and> list_all tok_ok ts'"
  proof (cases "\<exists>agg r2. r' = TKw agg # r2 \<and> agg \<in> set AGGS")
    case False
    with a r have "p' = p\<lparr> q_group := Some f \<rparr>" "ts' = r'"
      by (auto simp: Let_def split: list.splits tok.splits)
    with pf f show ?thesis by simp
  next
    case True
    then obtain agg r2 where g: "r' = TKw agg # r2" "agg \<in> set AGGS" by blast
    show ?thesis
    proof (cases "agg = ''count''")
      case True
      with a r g f p show ?thesis by (auto simp: Let_def plan_ok_def agg_ok_def)
    next
      case False
      with a r g obtain af r3 where n: "name_tok r2 = Inr (af, r3)" "ts' = r3"
        "p' = p\<lparr> q_group := Some f, q_agg := Some (agg, Some af) \<rparr>"
        by (auto simp: Let_def bindE_eq_Inr)
      moreover have "name_ok af \<and> list_all tok_ok r3" using name_tok_ok[OF n(1)] f g by simp
      ultimately show ?thesis using False f g p by (auto simp: plan_ok_def agg_ok_def)
    qed
  qed
qed

lemma empty_plan_ok: "name_ok n \<Longrightarrow> plan_ok (empty_plan n)"
  by (simp add: plan_ok_def empty_plan_def)

lemma parse_toks_ok:
  assumes "parse_toks ts = Inr p" "list_all tok_ok ts"
  shows "plan_ok p"
  using assms unfolding parse_toks_def
  by (auto simp: bindE_eq_Inr split: if_splits dest!: expect_kw_ok name_tok_ok empty_plan_ok
      keepsD[OF cl_as_of_keeps] keepsD[OF cl_valid_keeps] keepsD[OF cl_where_keeps]
      keepsD[OF cl_valid2_keeps] keepsD[OF cl_search_keeps] keepsD[OF cl_order_keeps]
      keepsD[OF cl_traverse_keeps] keepsD[OF cl_trace_keeps] keepsD[OF cl_limit_keeps]
      keepsD[OF cl_group_keeps])

lemma parse_nql_ok: "parse_nql s = Inr p \<Longrightarrow> plan_ok p"
  by (auto simp: parse_nql_def bindE_eq_Inr dest: nql_lex_ok parse_toks_ok)

section \<open>The text of a plan\<close>

fun tok_text :: "tok \<Rightarrow> string" where
  "tok_text (TStr s) = (if CHR 0x22 \<notin> set s then CHR 0x22 # s @ [CHR 0x22] else CHR 0x27 # s @ [CHR 0x27])"
| "tok_text (TNum v) = (case v of PInt i \<Rightarrow> show_int i | _ \<Rightarrow> [])"
| "tok_text (TOp s) = s"
| "tok_text (TKw k) = k"
| "tok_text (TWord w) = w"

definition toks_text :: "tok list \<Rightarrow> string" where
  "toks_text ts = concat (map (\<lambda>t. tok_text t @ '' '') ts)"

definition no_float :: "tok \<Rightarrow> bool" where
  "no_float t \<longleftrightarrow> (\<forall>q. t \<noteq> TNum (PFloat q))"

lemma word_start_not:
  assumes "word_start c"
  shows "\<not> is_space c" "\<not> is_digit c" "c \<notin> set ''-<>=!''" "c \<noteq> CHR 0x22" "c \<noteq> CHR 0x27"
proof -
  have n: "of_char c = (95 :: nat) \<or> (65 \<le> (of_char c :: nat) \<and> (of_char c :: nat) \<le> 90) \<or>
      (97 \<le> (of_char c :: nat) \<and> (of_char c :: nat) \<le> 122)"
    using assms by (auto simp: word_start_def is_lower_def is_upper_def less_eq_char_def)
  then show "\<not> is_space c" "\<not> is_digit c" by (auto simp: is_space_def is_digit_iff Let_def)
  from n show "c \<notin> set ''-<>=!''" "c \<noteq> CHR 0x22" "c \<noteq> CHR 0x27" by auto
qed

lemma takeWhile_stop: "list_all P xs \<Longrightarrow> \<not> P y \<Longrightarrow> takeWhile P (xs @ y # zs) = xs \<and> dropWhile P (xs @ y # zs) = y # zs"
  by (induction xs) auto

lemma next_token_word:
  assumes "lexeme w"
  shows "next_token (w @ CHR '' '' # s) = Some (Some (word_tok w), CHR '' '' # s)"
proof -
  obtain c w' where w: "w = c # w'" "word_start c" using assms by (cases w) (auto simp: lexeme_def)
  note c = word_start_not[OF w(2)]
  have "\<not> word_char (CHR '' '')" by code_simp
  with assms have "takeWhile word_char (w @ CHR '' '' # s) = w"
    "dropWhile word_char (w @ CHR '' '' # s) = CHR '' '' # s"
    using takeWhile_stop[of word_char w "CHR '' ''" s] by (auto simp: lexeme_def)
  moreover have "lex_unsigned (c # t) = None" for t
    using c(2) by (simp add: lex_unsigned_def lex_digits_def)
  then have "lex_number (w @ CHR '' '' # s) = None"
    using w c(3) by (simp add: lex_number_def)
  moreover have "lex_op (w @ CHR '' '' # s) = None"
    using w c(3) by (simp add: lex_op_def starts_with_def)
  ultimately show ?thesis
    using w c by (simp add: next_token_def lex_quoted_def)
qed

lemma lex_unsigned_nat: "lex_unsigned (show_nat n @ CHR '' '' # s) = Some (PInt (int n), CHR '' '' # s)"
proof -
  have "\<not> is_digit (CHR '' '')" by code_simp
  then show ?thesis
    using takeWhile_stop[OF show_nat_digits[of n], of "CHR '' ''" s]
    by (simp add: lex_unsigned_def lex_digits_def)
qed

lemma next_token_num:
  "next_token (show_int i @ CHR '' '' # s) = Some (Some (TNum (PInt i)), CHR '' '' # s)"
proof -
  obtain c t where c: "show_int i = c # t" by (cases "show_int i") (auto simp: show_int_def split: if_splits)
  have h: "c = CHR ''-'' \<or> is_digit c"
    using c show_nat_digits[of "nat i"] by (auto simp: show_int_def split: if_splits)
  then have "\<not> is_space c" "c \<noteq> CHR 0x22" "c \<noteq> CHR 0x27"
    using show_int_no_space[of i] c by (auto simp: is_digit_iff)
  moreover have "lex_number (show_int i @ CHR '' '' # s) = Some (PInt i, CHR '' '' # s)"
  proof (cases "i < 0")
    case True
    then show ?thesis by (simp add: show_int_def lex_number_def lex_unsigned_nat)
  next
    case False
    with c have "is_digit c" using show_nat_digits[of "nat i"] by (simp add: show_int_def)
    then have "c \<noteq> CHR ''-''" by (auto simp: is_digit_iff)
    then have "lex_number (show_int i @ CHR '' '' # s) = lex_unsigned (show_int i @ CHR '' '' # s)"
      using c by (simp add: lex_number_def)
    with False show ?thesis by (simp add: show_int_def lex_unsigned_nat)
  qed
  ultimately show ?thesis using c by (simp add: next_token_def lex_quoted_def)
qed

lemma next_token_op:
  assumes "x \<in> set OPS"
  shows "next_token (x @ CHR '' '' # s) = Some (Some (TOp x), CHR '' '' # s)"
proof -
  have u: "lex_unsigned (c # t) = None" if "\<not> is_digit c" for c t
    using that by (simp add: lex_unsigned_def lex_digits_def)
  have d: "\<not> is_digit (CHR ''<'')" "\<not> is_digit (CHR ''>'')" "\<not> is_digit (CHR ''='')" "\<not> is_digit (CHR ''!'')"
    "\<not> is_space (CHR ''<'')" "\<not> is_space (CHR ''>'')" "\<not> is_space (CHR ''='')" "\<not> is_space (CHR ''!'')"
    by code_simp+
  show ?thesis
    using assms d
    by (auto simp: OPS_def next_token_def lex_quoted_def lex_number_def u lex_op_def starts_with_def)
qed

lemma lex_quoted_text: "q \<notin> set x \<Longrightarrow> lex_quoted q (q # x @ q # s) = Some (x, s)"
proof -
  assume "q \<notin> set x"
  then have "list_all (\<lambda>d. d \<noteq> q) x" by (auto simp: list_all_iff)
  then have "takeWhile (\<lambda>d. d \<noteq> q) (x @ q # s) = x" "dropWhile (\<lambda>d. d \<noteq> q) (x @ q # s) = q # s"
    using takeWhile_stop[of "\<lambda>d. d \<noteq> q" x q s] by blast+
  then show "lex_quoted q (q # x @ q # s) = Some (x, s)" by (simp add: lex_quoted_def)
qed

lemma keyword_lexeme: "k \<in> set KEYWORDS \<Longrightarrow> lexeme k \<and> word_tok k = TKw k"
proof -
  have "list_all (\<lambda>k. lexeme k \<and> str_lower k = k) KEYWORDS" by code_simp
  then show "k \<in> set KEYWORDS \<Longrightarrow> lexeme k \<and> word_tok k = TKw k"
    by (auto simp: list_all_iff word_tok_def)
qed

lemma next_token_text:
  assumes "tok_ok t" "no_float t"
  shows "next_token (tok_text t @ CHR '' '' # s) = Some (Some t, CHR '' '' # s)"
proof (cases t)
  case (TStr x)
  have q: "\<not> is_space (CHR 0x22)" "\<not> is_space (CHR 0x27)" by code_simp+
  have "lex_quoted (CHR 0x22) (CHR 0x27 # r) = None" for r by (simp add: lex_quoted_def)
  with TStr assms q lex_quoted_text show ?thesis
    by (auto simp: next_token_def quotable_def)
next
  case (TNum v)
  with assms obtain i where "v = PInt i" by (cases v) (auto simp: no_float_def)
  with TNum show ?thesis by (simp add: next_token_num)
next
  case (TWord w)
  with assms show ?thesis by (simp add: next_token_word word_tok_def Let_def)
qed (use assms in \<open>auto simp: next_token_op next_token_word keyword_lexeme\<close>)

text \<open>A text of lexemes, each followed by a space; the rest has tokens of its own.\<close>

definition lexes :: "string \<times> tok \<Rightarrow> bool" where
  "lexes wt \<longleftrightarrow> fst wt \<noteq> [] \<and> \<not> is_space (hd (fst wt)) \<and>
     (\<forall>s. next_token (fst wt @ CHR '' '' # s) = Some (Some (snd wt), CHR '' '' # s))"

lemma lex_pairs:
  assumes r: "nql_lex r = Inr us" "r = [] \<or> \<not> is_space (hd r)"
  shows "list_all lexes wts \<Longrightarrow>
    nql_lex (concat (map (\<lambda>wt. fst wt @ '' '') wts) @ r) = Inr (map snd wts @ us)"
proof (induction wts)
  case (Cons wt wts)
  let ?rest = "concat (map (\<lambda>wt. fst wt @ '' '') wts) @ r"
  have "is_space (CHR '' '')" by code_simp
  then have sp: "next_token (CHR '' '' # s) = Some (None, dropWhile is_space s)" for s
    by (simp add: next_token_def)
  have ns: "dropWhile is_space ?rest = ?rest"
    using Cons.prems r(2) by (cases wts; cases r) (auto simp: lexes_def dropWhile_append neq_Nil_conv)
  have t: "next_token (fst wt @ CHR '' '' # ?rest) = Some (Some (snd wt), CHR '' '' # ?rest)"
    using Cons.prems by (simp add: lexes_def)
  have ih: "nql_lex ?rest = Inr (map snd wts @ us)" using Cons by simp
  then have "nql_lex (CHR '' '' # ?rest) = Inr (map snd wts @ us)"
    by (subst nql_lex.simps) (simp only: sp ns option.case prod.case, simp)
  with t show ?case by (subst nql_lex.simps) simp
qed (simp add: r)

lemma lexes_text: "tok_ok t \<Longrightarrow> no_float t \<Longrightarrow> lexes (tok_text t, t)"
proof -
  assume t: "tok_ok t" "no_float t"
  have n: "next_token (tok_text t @ CHR '' '' # s) = Some (Some t, CHR '' '' # s)" for s
    using t by (rule next_token_text)
  have h: "\<not> is_space (hd x)" if "next_token x = Some (Some t, r)" "x \<noteq> []" for x r
    using that by (auto simp: next_token_def)
  have "is_space (CHR '' '')" by code_simp
  with h[OF n[of "[]"]] have "tok_text t \<noteq> [] \<and> \<not> is_space (hd (tok_text t))"
    by (cases "tok_text t") auto
  with n show ?thesis by (simp add: lexes_def)
qed

lemma lexeme_lexes: "lexeme w \<Longrightarrow> lexes (w, word_tok w)"
proof -
  assume w: "lexeme w"
  then have "w \<noteq> []" "\<not> is_space (hd w)" using word_start_not(1) by (auto simp: lexeme_def)
  with next_token_word[OF w] show ?thesis by (simp add: lexes_def)
qed

lemma lex_text:
  assumes "list_all tok_ok ts" "list_all no_float ts"
  shows "nql_lex (toks_text ts) = Inr ts"
proof -
  have "list_all lexes (map (\<lambda>t. (tok_text t, t)) ts)"
    using assms lexes_text by (auto simp: list_all_iff)
  from lex_pairs[OF _ _ this, of "[]" "[]"] show ?thesis
    by (simp add: toks_text_def comp_def nql_lex.simps[of "[]"])
qed

definition float_free :: "plan \<Rightarrow> bool" where
  "float_free p \<longleftrightarrow> (\<forall>f op q. (f, op, PFloat q) \<notin> set (q_where p))"

definition nql_text :: "plan \<Rightarrow> string" where
  "nql_text p = toks_text (plan_toks p)"

lemma name_to_tok_ok: "name_ok n \<Longrightarrow> tok_ok (name_to_tok n) \<and> no_float (name_to_tok n)"
  by (auto simp: name_to_tok_def name_ok_def no_float_def)

lemma and_toks_set:
  "set (and_toks cs) \<subseteq> insert (TKw ''and'') (\<Union>c\<in>set cs. set (cond_toks c))"
  by (induction cs rule: and_toks.induct) auto

lemma cond_toks_ok:
  assumes "cond_ok c" "\<forall>f op q. c \<noteq> (f, op, PFloat q)" "t \<in> set (cond_toks c)"
  shows "tok_ok t \<and> no_float t"
proof -
  obtain f op v where c: "c = (f, op, v)" by (cases c)
  have "tok_ok (value_to_tok v) \<and> no_float (value_to_tok v)"
    using assms c by (cases v) (auto simp: cond_ok_def no_float_def KEYWORDS_def)
  with assms c name_to_tok_ok[of f] show ?thesis by (auto simp: cond_ok_def no_float_def)
qed

lemma opt_toks_all: "(\<And>y. x = Some y \<Longrightarrow> list_all P (f y)) \<Longrightarrow> list_all P (opt_toks f x)"
  by (cases x) simp_all

lemma plan_toks_ok:
  assumes "plan_ok p" "float_free p"
  shows "\<forall>t\<in>set (plan_toks p). tok_ok t \<and> no_float t"
proof -
  have w: "tok_ok t \<and> no_float t" if "t \<in> set (where_toks (q_where p))" for t
  proof -
    from that consider "t = TKw ''where''" | "t = TKw ''and''"
      | c where "c \<in> set (q_where p)" "t \<in> set (cond_toks c)"
      using and_toks_set[of "q_where p"] by (auto simp: where_toks_def split: if_splits)
    then show ?thesis
    proof cases
      case 3
      then show ?thesis
        using assms cond_toks_ok[of c t] by (auto simp: plan_ok_def list_all_iff float_free_def)
    qed (simp_all add: KEYWORDS_def no_float_def)
  qed
  let ?P = "\<lambda>t. tok_ok t \<and> no_float t"
  have k: "?P (TKw k) \<longleftrightarrow> k \<in> set KEYWORDS" "?P (TStr s) \<longleftrightarrow> quotable s" "?P (TNum (PInt i))" for k s i
    by (simp_all add: no_float_def)
  have kw: "list_all (\<lambda>k. k \<in> set KEYWORDS) ([''from'', ''as'', ''of'', ''valid'', ''search'', ''order'',
      ''by'', ''asc'', ''desc'', ''traverse'', ''trace'', ''reverse'', ''limit'', ''group''] @ AGGS)"
    by code_simp
  have n: "?P (name_to_tok x)" if "name_ok x" for x using name_to_tok_ok that by blast
  have a: "list_all ?P (agg_toks x)" if "agg_ok x" for x
    using that n kw by (cases x; cases "snd x") (auto simp: agg_ok_def list_all_iff k AGGS_def simp del: tok_ok.simps)
  have o: "list_all ?P (order_toks x)" if "order_ok x" for x
    using that n kw by (simp add: order_toks_def order_ok_def k del: tok_ok.simps)
  have g: "list_all ?P (opt_toks agg_toks (q_agg p))"
    using assms(1) a by (intro opt_toks_all) (simp add: plan_ok_def)
  have "list_all ?P (plan_toks p)"
    unfolding plan_toks_def list_all_append
    using assms(1) kw unfolding plan_ok_def
    by (intro conjI opt_toks_all) (auto simp: k n o w g list_all_iff[of _ "where_toks _"] opt_toks_all simp del: tok_ok.simps)
  then show ?thesis by (simp add: list_all_iff)
qed

lemma parse_nql_text:
  assumes "plan_ok p" "float_free p"
  shows "parse_nql (nql_text p) = Inr p"
proof -
  have "nql_lex (nql_text p) = Inr (plan_toks p)"
    using plan_toks_ok[OF assms] unfolding nql_text_def by (intro lex_text) (auto simp: list_all_iff)
  with parse_plan_toks[OF assms(1)] show ?thesis by (simp add: parse_nql_def)
qed

end
