(* ===== verification/Inclusion.thy ===== *)
theory Inclusion
  imports OpLog
begin

text \<open>
  \<open>nedb.proof\<close>: the derived chain over operation hashes, inclusion proofs and their
  offline verification; and the part of \<open>nedb.server\<close> that issues a proof.
\<close>

section \<open>Definitions\<close>

definition proof_step :: "ext \<Rightarrow> string \<Rightarrow> string \<Rightarrow> string res" where
  \<comment> \<open>\<open>_chain_step\<close>\<close>
  "proof_step X head_hex op_hash_hex =
     bindE (fromhex head_hex) (\<lambda>a. bindE (fromhex op_hash_hex) (\<lambda>b. Inr (blake X (a @ b))))"

fun fold_head :: "ext \<Rightarrow> string list \<Rightarrow> string \<Rightarrow> string res" where
  "fold_head X [] head = Inr head"
| "fold_head X (h # hs) head = bindE (proof_step X head h) (fold_head X hs)"

definition is_hex32 :: "pyval \<Rightarrow> bool" where
  "is_hex32 v =
     (case v of
        PStr s \<Rightarrow> length s = 64 \<and> (case fromhex s of Inl _ \<Rightarrow> False | Inr _ \<Rightarrow> True)
      | _ \<Rightarrow> False)"

definition seq_shape :: "pyval \<Rightarrow> bool" where
  \<comment> \<open>\<open>isinstance(v, int) and not v < 0\<close>; a bool is an int\<close>
  "seq_shape v = (case v of PInt i \<Rightarrow> 0 \<le> i | PBool _ \<Rightarrow> True | _ \<Rightarrow> False)"

fun text_of :: "pyval \<Rightarrow> string" where
  "text_of (PStr s) = s"
| "text_of _ = []"

definition verify_proof :: "ext \<Rightarrow> pyval \<Rightarrow> bool res" where
  "verify_proof X prf =
     (case prf of
        PDict d \<Rightarrow>
          if \<not> list_all (\<lambda>k. has_key k d) [''hash'', ''seq'', ''prev_head'', ''subsequent'', ''head'']
          then Inr False
          else if \<not> seq_shape (doc_get d ''seq'') then Inr False
          else (case doc_get d ''subsequent'' of
             PList subs \<Rightarrow>
               if \<not> is_hex32 (doc_get d ''hash'') then Inr False
               else if \<not> is_hex32 (doc_get d ''prev_head'') then Inr False
               else if \<not> is_hex32 (doc_get d ''head'') then Inr False
               else if \<not> list_all is_hex32 subs then Inr False
               else
                 bindE (proof_step X (text_of (doc_get d ''prev_head'')) (text_of (doc_get d ''hash'')))
                   (\<lambda>h. bindE (fold_head X (map text_of subs) h)
                   (\<lambda>h'. Inr (h' = text_of (doc_get d ''head''))))
           | _ \<Rightarrow> Inr False)
      | _ \<Rightarrow> Inr False)"

text \<open>The proof document, and how the server builds it for the operation of a given hash.\<close>

definition proof_doc :: "string \<Rightarrow> int \<Rightarrow> string \<Rightarrow> string list \<Rightarrow> string \<Rightarrow> pyval" where
  "proof_doc h sq prev subs head =
     PDict [(''hash'', PStr h), (''seq'', PInt sq), (''prev_head'', PStr prev),
            (''subsequent'', PList (map PStr subs)), (''head'', PStr head)]"

definition issue_proof :: "ext \<Rightarrow> oplog \<Rightarrow> string \<Rightarrow> pyval option res" where
  \<comment> \<open>\<open>None\<close> is the 404 answer; sequence numbers are not negative\<close>
  "issue_proof X l want =
     (case find (\<lambda>r. o_hash r = want) (l_ops l) of
        None \<Rightarrow> Inr None
      | Some target \<Rightarrow>
          (let op_hashes = map o_hash (l_ops l); n = nat (o_seq target) in
           bindE (fold_head X (take n op_hashes) GENESIS) (\<lambda>prev.
           bindE (fold_head X op_hashes GENESIS) (\<lambda>head.
             Inr (Some (proof_doc (o_hash target) (o_seq target) prev (drop (Suc n) op_hashes) head))))))"

section \<open>The chain on bytes\<close>

definition byte_link :: "ext \<Rightarrow> string \<Rightarrow> string \<Rightarrow> string" where
  "byte_link X h e = x_blake X (h @ e)"

interpretation pc: hash_chain "byte_link X" "\<lambda>h. digest_ok X \<longrightarrow> length h = 32"
  "\<lambda>e. length e = 32" "collision X \<or> \<not> digest_ok X" for X
proof unfold_locales
  fix h g a b
  assume "digest_ok X \<longrightarrow> length h = 32" "digest_ok X \<longrightarrow> length g = 32"
    "byte_link X h a = byte_link X g b"
  then show "(collision X \<or> \<not> digest_ok X) \<or> h = g \<and> a = b"
    by (cases "h @ a = g @ b") (auto simp: byte_link_def collision_def)
qed (simp add: byte_link_def digest_ok_def)

lemma fold_head_bytes:
  "mapE fromhex hs = Inr bs \<Longrightarrow> fold_head X hs (hexlify a) = Inr (hexlify (foldl (byte_link X) a bs))"
  by (induction hs arbitrary: a bs)
    (auto simp: bindE_eq_Inr proof_step_def blake_def byte_link_def)

lemma fold_head_append:
  "fold_head X (xs @ ys) h = bindE (fold_head X xs h) (fold_head X ys)"
proof (induction xs arbitrary: h)
  case (Cons x xs)
  then show ?case by (cases "proof_step X h x") auto
qed simp

lemma hexlify_zeros: "hexlify (replicate n (CHR 0x00)) = replicate (2 * n) (CHR ''0'')"
proof -
  have "hex2 0 = replicate 2 (CHR ''0'')" by code_simp
  then show ?thesis by (induction n) (simp_all add: hexlify_def numeral_2_eq_2)
qed

lemma GENESIS_hex: "GENESIS = hexlify (replicate 32 (CHR 0x00))"
  by (simp add: GENESIS_def hexlify_zeros)

lemma fromhex_blake [simp]: "fromhex (blake X b) = Inr (x_blake X b)"
  by (simp add: blake_def)

section \<open>Verification is total\<close>

lemma is_hex32_D:
  assumes "is_hex32 v"
  obtains s b where "v = PStr s" "length s = 64" "fromhex s = Inr b" "text_of v = s"
  using assms by (cases v; cases "fromhex (text_of v)") (auto simp: is_hex32_def)

lemma hex32_all: "list_all is_hex32 vs \<Longrightarrow> \<exists>bs. mapE fromhex (map text_of vs) = Inr bs"
  by (induction vs) (auto elim!: is_hex32_D)

lemma verify_proof_total: "\<exists>b. verify_proof X p = Inr b"
proof (cases p)
  case (PDict d)
  show ?thesis
  proof (cases "doc_get d ''subsequent''")
    case (PList subs)
    let ?shapes = "list_all is_hex32 subs \<and> is_hex32 (doc_get d ''hash'') \<and>
      is_hex32 (doc_get d ''prev_head'')"
    have "\<exists>h. bindE (proof_step X (text_of (doc_get d ''prev_head'')) (text_of (doc_get d ''hash'')))
        (fold_head X (map text_of subs)) = Inr h" if ?shapes
    proof -
      from that hex32_all obtain bs where "mapE fromhex (map text_of subs) = Inr bs" by blast
      with that show ?thesis
        by (auto elim!: is_hex32_D simp: proof_step_def blake_def fold_head_bytes)
    qed
    with PDict PList show ?thesis
      by (auto simp: verify_proof_def bindE_eq_Inr)
  qed (auto simp: PDict verify_proof_def)
qed (auto simp: verify_proof_def)

section \<open>Genuine proofs\<close>

lemma is_hex32_blake: "digest_ok X \<Longrightarrow> is_hex32 (PStr (blake X b))"
  by (simp add: is_hex32_def)

lemma is_hex32_GENESIS: "is_hex32 (PStr GENESIS)"
  unfolding is_hex32_def by (simp add: GENESIS_hex)

lemma verify_hashes:
  "verify_from X prev ops \<Longrightarrow> \<forall>r\<in>set ops. \<exists>b. o_hash r = blake X b"
  by (induction X prev ops rule: verify_from.induct) (auto split: if_splits)

lemma fold_head_hex:
  "digest_ok X \<Longrightarrow> is_hex32 (PStr h) \<Longrightarrow> \<forall>x\<in>set hs. \<exists>b. x = blake X b \<Longrightarrow>
   \<exists>h'. fold_head X hs h = Inr h' \<and> is_hex32 (PStr h')"
proof (induction hs arbitrary: h)
  case (Cons x hs)
  then obtain b where b: "fromhex x = Inr b" by auto
  from Cons.prems(2) obtain a where "fromhex h = Inr a" by (elim is_hex32_D) simp
  with b have "proof_step X h x = Inr (blake X (a @ b))" by (simp add: proof_step_def)
  with Cons.IH[of "blake X (a @ b)"] Cons.prems is_hex32_blake show ?case by auto
qed simp

lemma verify_proof_doc:
  assumes "is_hex32 (PStr h)" "is_hex32 (PStr prev)" "is_hex32 (PStr head)" "0 \<le> sq"
    and "list_all (\<lambda>s. is_hex32 (PStr s)) subs"
  shows "verify_proof X (proof_doc h sq prev subs head) = bindE (fold_head X (h # subs) prev) (\<lambda>h'. Inr (h' = head))"
proof -
  have "text_of \<circ> PStr = id" by auto
  with assms show ?thesis
    by (cases "proof_step X prev h")
      (simp_all add: verify_proof_def proof_doc_def doc_get_def dget_def seq_shape_def list_all_iff)
qed

lemma find_nth:
  assumes "map o_seq ops = map int [0..<length ops]" "find (\<lambda>r. o_hash r = w) ops = Some t"
  shows "nat (o_seq t) < length ops" "ops ! nat (o_seq t) = t" "o_hash t = w" "0 \<le> o_seq t"
proof -
  from assms(2) obtain i where i: "i < length ops" "ops ! i = t" "o_hash t = w"
    by (auto simp: find_Some_iff)
  have "o_seq (ops ! i) = int i"
    using arg_cong[OF assms(1), of "\<lambda>xs. xs ! i"] i(1) by simp
  with i show "nat (o_seq t) < length ops" "ops ! nat (o_seq t) = t" "o_hash t = w" "0 \<le> o_seq t"
    by auto
qed

lemma issued_verifies:
  assumes X: "digest_ok X" and l: "log_ok X l" and r: "r \<in> set (l_ops l)"
  shows "\<exists>p. issue_proof X l (o_hash r) = Inr (Some p) \<and> verify_proof X p = Inr True"
proof -
  let ?hs = "map o_hash (l_ops l)"
  from l have seqs: "map o_seq (l_ops l) = map int [0..<length (l_ops l)]"
    and v: "verify_from X GENESIS (l_ops l)" by (simp_all add: log_ok_def log_verify_def)
  have hex: "\<forall>x\<in>set ?hs. \<exists>b. x = blake X b" using verify_hashes[OF v] by auto
  obtain t where t: "find (\<lambda>x. o_hash x = o_hash r) (l_ops l) = Some t"
    using r by (cases "find (\<lambda>x. o_hash x = o_hash r) (l_ops l)") (auto simp: find_None_iff)
  note ft = find_nth[OF seqs t]
  let ?n = "nat (o_seq t)"
  have split: "?hs = take ?n ?hs @ o_hash t # drop (Suc ?n) ?hs"
    using ft(1,2) by (metis id_take_nth_drop length_map nth_map)
  have "\<forall>x\<in>set (take ?n ?hs). \<exists>b. x = blake X b" using hex by (blast dest: in_set_takeD)
  then obtain prev where prev: "fold_head X (take ?n ?hs) GENESIS = Inr prev" "is_hex32 (PStr prev)"
    using fold_head_hex[OF X is_hex32_GENESIS] by blast
  obtain head where head: "fold_head X ?hs GENESIS = Inr head" "is_hex32 (PStr head)"
    using fold_head_hex[OF X is_hex32_GENESIS hex] by blast
  have fwd: "fold_head X (o_hash t # drop (Suc ?n) ?hs) prev = Inr head"
    using head(1) prev(1) by (subst (asm) split) (simp add: fold_head_append)
  have "is_hex32 (PStr (o_hash t))" using hex ft X is_hex32_blake by (metis r image_eqI list.set_map)
  moreover have "list_all (\<lambda>s. is_hex32 (PStr s)) (drop (Suc ?n) ?hs)"
    using hex X is_hex32_blake by (auto simp: list_all_iff dest!: in_set_dropD) metis
  ultimately show ?thesis
    using prev head fwd ft(4) t
    by (simp add: issue_proof_def Let_def verify_proof_doc del: fold_head.simps)
qed

section \<open>What an accepted proof commits to\<close>

lemma accepted_proof:
  assumes "verify_proof X (proof_doc h sq prev subs head) = Inr True"
  shows "fold_head X (h # subs) prev = Inr head" "is_hex32 (PStr h)" "is_hex32 (PStr prev)"
    "list_all (\<lambda>s. is_hex32 (PStr s)) subs"
proof -
  have "text_of \<circ> PStr = id" by auto
  then show "fold_head X (h # subs) prev = Inr head" "is_hex32 (PStr h)" "is_hex32 (PStr prev)"
    "list_all (\<lambda>s. is_hex32 (PStr s)) subs"
    using assms
    by (auto simp: verify_proof_def proof_doc_def doc_get_def dget_def list_all_iff bindE_eq_Inr
        split: if_splits)
qed

text \<open>
  Two proofs of the same length accepted for one head, whose fields decode to 32 bytes each,
  agree byte for byte.
\<close>

lemma accepted_binding:
  assumes X: "digest_ok X"
    and p: "verify_proof X (proof_doc (hexlify h) sq (hexlify prev) (map hexlify subs) head) = Inr True"
    and q: "verify_proof X (proof_doc (hexlify h') sq' (hexlify prev') (map hexlify subs') head) = Inr True"
    and len: "length subs = length subs'"
  shows "collision X \<or> (h = h' \<and> prev = prev' \<and> subs = subs')"
proof -
  have ge: "length b = 32" if "is_hex32 (PStr (hexlify b))" for b
    using that by (simp add: is_hex32_def)
  note a = accepted_proof[OF p] accepted_proof[OF q]
  have m: "mapE fromhex (hexlify x # map hexlify xs) = Inr (x # xs)" for x xs
    by simp
  have "hexlify (foldl (byte_link X) prev (h # subs)) = hexlify (foldl (byte_link X) prev' (h' # subs'))"
    using a(1) a(5) unfolding fold_head_bytes[OF m] by simp
  then have "foldl (byte_link X) prev (h # subs) = foldl (byte_link X) prev' (h' # subs')"
    by (simp only: hexlify_inj)
  then have "(collision X \<or> \<not> digest_ok X) \<or> prev = prev' \<and> h # subs = h' # subs'"
    by (rule pc.fold_binding_length[rotated -1]) (use a ge len in \<open>auto simp: list_all_iff\<close>)
  with X show ?thesis by auto
qed

text \<open>The sequence number of a proof takes no part in its verification.\<close>

lemma verify_ignores_seq:
  assumes "0 \<le> sq" "0 \<le> sq'"
  shows "verify_proof X (proof_doc h sq prev subs head) = verify_proof X (proof_doc h sq' prev subs head)"
  using assms by (simp add: verify_proof_def proof_doc_def doc_get_def dget_def seq_shape_def)

end
