(* ===== verification/Sequencer.thy ===== *)
theory Sequencer
  imports Lifecycle Snapshot
begin

text \<open>
  \<open>nedb.concurrent\<close>: the single-writer front end.  Writers put an intent on a queue and wait;
  one committer thread takes a batch, applies it to the engine in order, flushes once, publishes
  the new committed sequence number and wakes the writers.  Readers do not wait: they read at the
  committed sequence number.

  The committer is a function from a state to its next state, one atomic action of the thread at
  a time (one queue operation, one engine call, one publication), so that submissions, reads and
  \<open>close\<close> interleave with it freely.  A future is the number of its ticket.
\<close>

section \<open>Intents\<close>

datatype intent =
    IPut env string string doc string "int option" "string option" "rat option" prov
  | IDelete env string string string "int option" "string option"
  | ILink env string string string string "int option"
  | IUnlink env string string string string "int option"
  | ICreateIndex string string string
  | IPutFile env string string string string "int option" "string option"
  | ICheckpoint env
  | IOther string

datatype reply = RDoc "doc option" | RDone | RVersion nat | RHead string

definition mapC :: "('a \<Rightarrow> 'b) \<Rightarrow> 'a call \<Rightarrow> 'b call" where
  "mapC f c = (map_sum id f (fst c), snd c)"

fun apply_one :: "ext \<Rightarrow> intent \<Rightarrow> engine \<Rightarrow> reply call" where
  "apply_one X (IPut V coll i d client nonce idm ttl pr) e =
     mapC RDoc (eng_put X V coll i d client nonce idm ttl pr e)"
| "apply_one X (IDelete V coll i client nonce idm) e =
     mapC (\<lambda>_. RDone) (eng_delete X V coll i client nonce idm e)"
| "apply_one X (ILink V f r t client nonce) e = mapC (\<lambda>_. RDone) (eng_link X V f r t client nonce e)"
| "apply_one X (IUnlink V f r t client nonce) e = mapC (\<lambda>_. RDone) (eng_unlink X V f r t client nonce e)"
| "apply_one X (ICreateIndex coll field kind) e = mapC (\<lambda>_. RDone) (eng_create_index X coll field kind e)"
| "apply_one X (IPutFile V name data tier client nonce idm) e =
     mapC RVersion (eng_put_file X V name data tier client nonce idm e)"
| "apply_one X (ICheckpoint V) e = mapC RHead (save_snapshot X V e)"
| "apply_one X (IOther k) e = (Inl ValueErr, e)"

section \<open>State\<close>

datatype qitem = Stop | Intent nat intent

text \<open>
  Where the committer is: before its first action; waiting for the first item of a batch; filling
  the batch; applying it (the batch, the results so far, what is left); returned.
\<close>

datatype pc =
    Starting
  | Waiting
  | Collecting "qitem list"
  | Applying "qitem list" "(nat \<times> reply res) list" "qitem list"
  | Stopped

text \<open>\<open>s_checked\<close> are the writers that have passed the test of \<open>_closed\<close> but not yet enqueued.\<close>

record seqr =
  s_db :: engine
  s_max :: nat
  s_q :: "qitem list"
  s_committed :: int
  s_closed :: bool
  s_pc :: pc
  s_done :: "(nat \<times> reply res) list"
  s_checked :: "(nat \<times> intent) list"

definition seq_new :: "nat \<Rightarrow> engine \<Rightarrow> seqr" where
  "seq_new mx db =
     \<lparr> s_db = db, s_max = mx, s_q = [], s_committed = eng_seq db, s_closed = False, s_pc = Starting,
       s_done = [], s_checked = [] \<rparr>"

section \<open>The committer\<close>

definition fill_batch :: "qitem list \<Rightarrow> seqr \<Rightarrow> seqr" where
  "fill_batch b s =
     (if length b < s_max s then
        (case s_q s of
           [] \<Rightarrow> s\<lparr> s_pc := Applying b [] b \<rparr>
         | x # q \<Rightarrow> s\<lparr> s_q := q, s_pc := Collecting (b @ [x]) \<rparr>)
      else s\<lparr> s_pc := Applying b [] b \<rparr>)"

definition publish :: "qitem list \<Rightarrow> (nat \<times> reply res) list \<Rightarrow> seqr \<Rightarrow> seqr" where
  "publish b rs s =
     (let db = eng_flush (s_db s) in
      s\<lparr> s_db := db, s_committed := eng_seq db, s_done := s_done s @ rs,
         s_pc := (if Stop \<in> set b then Stopped else Waiting) \<rparr>)"

definition apply_next :: "ext \<Rightarrow> qitem list \<Rightarrow> (nat \<times> reply res) list \<Rightarrow> qitem list \<Rightarrow> seqr \<Rightarrow> seqr" where
  "apply_next X b rs todo s =
     (case todo of
        [] \<Rightarrow> publish b rs s
      | Stop # xs \<Rightarrow> s\<lparr> s_pc := Applying b rs xs \<rparr>
      | Intent t i # xs \<Rightarrow>
          (case apply_one X i (s_db s) of
             (r, db) \<Rightarrow> s\<lparr> s_db := db, s_pc := Applying b (rs @ [(t, r)]) xs \<rparr>))"

text \<open>\<open>None\<close>: the thread is blocked on an empty queue, or has returned.\<close>

definition committer :: "ext \<Rightarrow> seqr \<Rightarrow> seqr option" where
  "committer X s =
     (case s_pc s of
        Starting \<Rightarrow> Some (s\<lparr> s_db := (s_db s)\<lparr> e_defer := True \<rparr>, s_pc := Waiting \<rparr>)
      | Waiting \<Rightarrow>
          (case s_q s of
             [] \<Rightarrow> None
           | x # q \<Rightarrow> Some (s\<lparr> s_q := q, s_pc := (if x = Stop then Stopped else Collecting [x]) \<rparr>))
      | Collecting b \<Rightarrow> Some (fill_batch b s)
      | Applying b rs todo \<Rightarrow> Some (apply_next X b rs todo s)
      | Stopped \<Rightarrow> None)"

fun run_committer :: "ext \<Rightarrow> nat \<Rightarrow> seqr \<Rightarrow> seqr" where
  "run_committer X 0 s = s"
| "run_committer X (Suc n) s = (case committer X s of None \<Rightarrow> s | Some s' \<Rightarrow> run_committer X n s')"

section \<open>Writers and readers\<close>

definition submit_check :: "nat \<Rightarrow> intent \<Rightarrow> seqr \<Rightarrow> seqr res" where
  "submit_check t i s =
     (if s_closed s then Inl RuntimeErr else Inr (s\<lparr> s_checked := s_checked s @ [(t, i)] \<rparr>))"

definition submit_put :: "nat \<times> intent \<Rightarrow> seqr \<Rightarrow> seqr" where
  "submit_put ti s =
     s\<lparr> s_checked := remove1 ti (s_checked s), s_q := s_q s @ [case ti of (t, i) \<Rightarrow> Intent t i] \<rparr>"

definition submitted :: "nat \<Rightarrow> seqr \<Rightarrow> reply res option" where
  \<comment> \<open>what the waiting call returns or raises, once its event is set\<close>
  "submitted t s = map_of (s_done s) t"

definition pin :: "int option \<Rightarrow> seqr \<Rightarrow> int option" where
  "pin as_of s = Some (case as_of of None \<Rightarrow> s_committed s | Some n \<Rightarrow> n)"

definition seq_get :: "ext \<Rightarrow> env \<Rightarrow> string \<Rightarrow> string \<Rightarrow> int option \<Rightarrow> seqr \<Rightarrow> doc option res" where
  "seq_get X V coll i as_of s = fst (eng_get X V coll i (pin as_of s) (s_db s))"

definition seq_neighbors :: "string \<Rightarrow> string \<Rightarrow> int option \<Rightarrow> seqr \<Rightarrow> string list" where
  "seq_neighbors f r as_of s = eng_neighbors f r (pin as_of s) (s_db s)"

definition seq_inbound :: "string \<Rightarrow> string \<Rightarrow> int option \<Rightarrow> seqr \<Rightarrow> string list" where
  "seq_inbound t r as_of s = eng_inbound t r (pin as_of s) (s_db s)"

definition seq_query :: "ext \<Rightarrow> string \<Rightarrow> seqr \<Rightarrow> doc list res" where
  "seq_query X nql s =
     bindE (parse_nql nql) (\<lambda>p. execute X (p\<lparr> q_as_of := pin (q_as_of p) s \<rparr>) (s_db s))"

definition close_begin :: "seqr \<Rightarrow> seqr" where
  "close_begin s = (if s_closed s then s else s\<lparr> s_closed := True, s_q := s_q s @ [Stop] \<rparr>)"

definition close_end :: "seqr \<Rightarrow> seqr" where
  \<comment> \<open>\<open>db.close()\<close>, after the thread has returned or five seconds have passed\<close>
  "close_end s = s\<lparr> s_db := eng_close (s_db s) \<rparr>"

fun intent_env :: "intent \<Rightarrow> env option" where
  "intent_env (IPut V _ _ _ _ _ _ _ _) = Some V"
| "intent_env (IDelete V _ _ _ _ _) = Some V"
| "intent_env (ILink V _ _ _ _ _) = Some V"
| "intent_env (IUnlink V _ _ _ _ _) = Some V"
| "intent_env (IPutFile V _ _ _ _ _ _) = Some V"
| "intent_env (ICheckpoint V) = Some V"
| "intent_env _ = None"

definition intent_ok :: "intent \<Rightarrow> bool" where
  \<comment> \<open>the nonces drawn for encryption have their length\<close>
  "intent_ok i \<longleftrightarrow> (\<forall>V. intent_env i = Some V \<longrightarrow> env_ok V)"

text \<open>The interleavings of the committer, the writers and \<open>close\<close>.\<close>

inductive seq_step :: "ext \<Rightarrow> seqr \<Rightarrow> seqr \<Rightarrow> bool" for X where
  thread: "committer X s = Some s' \<Longrightarrow> seq_step X s s'"
| check: "intent_ok i \<Longrightarrow> submit_check t i s = Inr s' \<Longrightarrow> seq_step X s s'"
| enqueue: "ti \<in> set (s_checked s) \<Longrightarrow> seq_step X s (submit_put ti s)"
| close: "seq_step X s (close_begin s)"
| joined: "s_closed s \<Longrightarrow> seq_step X s (close_end s)"

abbreviation seq_run :: "ext \<Rightarrow> seqr \<Rightarrow> seqr \<Rightarrow> bool" where
  "seq_run X \<equiv> (seq_step X)\<^sup>*\<^sup>*"

section \<open>What every call keeps, also one that raises\<close>

text \<open>
  \<open>hist_ok\<close>: the log is well formed and no version or edge is later than its last operation.
  \<open>keeps e e'\<close>: the log of \<open>e'\<close> extends that of \<open>e\<close>, and nothing read at a sequence number
  that \<open>e\<close> had reached has changed.
\<close>

definition hist_ok :: "ext \<Rightarrow> engine \<Rightarrow> bool" where
  "hist_ok X e \<longleftrightarrow> log_ok X (e_log e) \<and> mv_wf (store_of e) \<and> mv_upto (store_of e) (eng_seq e)"

definition keeps :: "ext \<Rightarrow> engine \<Rightarrow> engine \<Rightarrow> bool" where
  "keeps X e e' \<longleftrightarrow>
     (hist_ok X e \<longrightarrow> hist_ok X e' \<and> grows e e' \<and>
        (\<forall>n k. n \<le> eng_seq e \<longrightarrow> mv_get (store_of e') k (Some n) = mv_get (store_of e) k (Some n)) \<and>
        (\<forall>n q. n \<le> eng_seq e \<longrightarrow> rel_read (m_rels (e_mat e')) q (Some n) = rel_read (m_rels (e_mat e)) q (Some n)))"

lemma grows_seq: "grows e e' \<Longrightarrow> eng_seq e \<le> eng_seq e'"
  by (auto simp: grows_def eng_seq_def)

lemma keeps_refl: "keeps X e e"
  by (simp add: keeps_def)

lemma keeps_trans:
  assumes "keeps X a b" "keeps X b c"
  shows "keeps X a c"
  unfolding keeps_def
proof (rule impI)
  assume a: "hist_ok X a"
  note 1 = assms(1)[unfolded keeps_def, rule_format, OF a]
  then have b: "hist_ok X b" "grows a b" by simp_all
  note 2 = assms(2)[unfolded keeps_def, rule_format, OF b(1)]
  have s: "n \<le> eng_seq a \<Longrightarrow> n \<le> eng_seq b" for n using grows_seq[OF b(2)] by simp
  show "hist_ok X c \<and> grows a c \<and>
      (\<forall>n k. n \<le> eng_seq a \<longrightarrow> mv_get (store_of c) k (Some n) = mv_get (store_of a) k (Some n)) \<and>
      (\<forall>n q. n \<le> eng_seq a \<longrightarrow> rel_read (m_rels (e_mat c)) q (Some n) = rel_read (m_rels (e_mat a)) q (Some n))"
    using 1 2 s by (auto intro: grows_trans[OF b(2)])
qed

lemma keeps_frame:
  assumes "e_log e' = e_log e" "m_store (e_mat e') = m_store (e_mat e)" "m_rels (e_mat e') = m_rels (e_mat e)"
  shows "keeps X e e'"
  using assms by (simp add: keeps_def hist_ok_def store_of_def eng_seq_def)

lemma keeps_bind:
  assumes "keeps X e (snd c)" "\<And>a e1. c = (Inr a, e1) \<Longrightarrow> keeps X e1 (snd (f a e1))"
  shows "keeps X e (snd (bindC c f))"
proof (cases c)
  case (Pair r e1)
  then show ?thesis
    using assms keeps_trans[of X e e1 "snd (bindC c f)"] by (cases r) auto
qed

text \<open>Applying an operation, even when it raises half-way, writes at its sequence number or nothing.\<close>

definition late_write :: "int \<Rightarrow> mat \<Rightarrow> mat \<Rightarrow> bool" where
  "late_write q m m' \<longleftrightarrow>
     (m_store m' = m_store m \<or> (\<exists>w. write_seq w = q \<and> m_store m' = mv_write w (m_store m))) \<and>
     (m_rels m' = m_rels m \<or> (\<exists>w. rel_seq w = q \<and> m_rels m' = rel_apply w (m_rels m)))"

lemma late_write_simps [simp]:
  "late_write q m m"
  "late_write q m (m\<lparr> m_rels := rel_link f l t q (m_rels m) \<rparr>)"
  "late_write q m (m\<lparr> m_rels := rel_unlink f l t q (m_rels m) \<rparr>)"
  "late_write q m (m'\<lparr> m_causes := c \<rparr>) = late_write q m m'"
proof -
  show "late_write q m m" "late_write q m (m'\<lparr> m_causes := c \<rparr>) = late_write q m m'"
    by (simp_all add: late_write_def)
  show "late_write q m (m\<lparr> m_rels := rel_link f l t q (m_rels m) \<rparr>)"
    by (simp add: late_write_def) (intro disjI2 exI[of _ "ELink f l t q"], simp)
  show "late_write q m (m\<lparr> m_rels := rel_unlink f l t q (m_rels m) \<rparr>)"
    by (simp add: late_write_def) (intro disjI2 exI[of _ "EUnlink f l t q"], simp)
qed

lemma late_write_frame:
  "m_store m' = m_store m \<Longrightarrow> m_rels m' = m_rels m \<Longrightarrow> late_write q m m'"
  by (simp add: late_write_def)

lemma apply_put_late:
  "late_write q m (snd (andthen (drop_old c k m) (\<lambda>m. on_ix f (m\<lparr> m_store := mv_put k d q (m_store m) \<rparr>))))"
proof -
  obtain z m2 where z: "drop_old c k m = (z, m2)" by (cases "drop_old c k m")
  obtain y m3 where y: "on_ix f (m2\<lparr> m_store := mv_put k d q (m_store m2) \<rparr>) = (y, m3)"
    by (cases "on_ix f (m2\<lparr> m_store := mv_put k d q (m_store m2) \<rparr>)")
  show ?thesis
    using z y drop_old_frame[OF z] on_ix_frame[OF y]
    by (cases z) (auto simp: late_write_def intro!: exI[of _ "WPut k d q"])
qed

lemma apply_delete_late:
  "late_write q m (snd (andthen (drop_old c k m) (\<lambda>m. (None, m\<lparr> m_store := mv_delete k q (m_store m) \<rparr>))))"
proof -
  obtain z m2 where z: "drop_old c k m = (z, m2)" by (cases "drop_old c k m")
  show ?thesis
    using z drop_old_frame[OF z] by (cases z) (auto simp: late_write_def intro!: exI[of _ "WDel k q"])
qed

lemma apply_op_late: "late_write (o_seq r) m (snd (apply_op c r m))"
proof -
  have "late_write (o_seq r) m (snd (apply_effect r m))"
  proof -
    consider "o_op r = ''put''" | "o_op r = ''delete''" | "o_op r \<noteq> ''put''" "o_op r \<noteq> ''delete''" by blast
    then show ?thesis
    proof cases
      case 1
      then show ?thesis
        by (cases "put_args (o_payload r)") (auto simp: apply_effect_def Let_def apply_put_late split: prod.split)
    next
      case 2
      then show ?thesis
        by (cases "delete_args (o_payload r)")
          (auto simp: apply_effect_def Let_def apply_delete_late split: prod.split)
    next
      case 3
      then show ?thesis
        by (cases "link_args (o_payload r)") (auto simp: apply_effect_def Let_def split: prod.split)
    qed
  qed
  then show ?thesis
    by (cases "apply_effect r m"; cases "fst (apply_effect r m)") (auto simp: apply_op_def)
qed

lemma late_write_reads:
  assumes w: "late_write q m m'" and wf: "mv_wf (m_store m)" "mv_upto (m_store m) p" and q: "p < q"
  shows "mv_wf (m_store m')" "mv_upto (m_store m') q"
    "n < q \<Longrightarrow> mv_get (m_store m') k (Some n) = mv_get (m_store m) k (Some n)"
    "n < q \<Longrightarrow> rel_read (m_rels m') x (Some n) = rel_read (m_rels m) x (Some n)"
proof -
  from q have pq: "p \<le> q" by simp
  have a: "mv_wf (mv_write w (m_store m)) \<and> mv_upto (mv_write w (m_store m)) q" if "write_seq w = q" for w
    using mv.inv_step[OF wf] mv.upto_step[OF wf] pq that by blast
  show "mv_wf (m_store m')" "mv_upto (m_store m') q"
    using w a wf mv_upto_mono[OF wf(2) pq] by (auto simp: late_write_def)
  have b: "mv_get (mv_write w (m_store m)) k (Some n) = mv_get (m_store m) k (Some n)" if "write_seq w = q" "n < q" for w
    using mv.past_stable[OF wf, of w n k] that pq by (simp add: mv_read_at_def)
  show "n < q \<Longrightarrow> mv_get (m_store m') k (Some n) = mv_get (m_store m) k (Some n)"
    using w b by (auto simp: late_write_def)
  have c: "rel_read (rel_apply w (m_rels m)) x (Some n) = rel_read (m_rels m) x (Some n)" if "rel_seq w = q" "n < q" for w
    using rel_past_stable[of n w "m_rels m" x] that by (simp add: rel_read_at_def)
  show "n < q \<Longrightarrow> rel_read (m_rels m') x (Some n) = rel_read (m_rels m) x (Some n)"
    using w c by (auto simp: late_write_def)
qed

lemma append_keeps: "keeps X e (snd (eng_append X ts rnd client nonce op payload idm pr e))"
proof (cases "eng_append X ts rnd client nonce op payload idm pr e")
  case (Pair a e1)
  show ?thesis
  proof (cases a)
    case (Inl x)
    then show ?thesis using Pair by (auto simp: eng_append_def keeps_refl Let_def split: sum.splits if_splits)
  next
    case (Inr rc)
    obtain r created where rc: "rc = (r, created)" by (cases rc)
    note p = Pair[unfolded Inr rc]
    note l = append_log[OF p] append_grows[OF p]
    have "hist_ok X e \<Longrightarrow> hist_ok X e1"
      using log_ok_append[OF _ l(1)] l(2) mv_upto_mono[OF _ grows_seq[OF l(4)], of "m_store (e_mat e)"]
      by (simp add: hist_ok_def store_of_def)
    with l Pair show ?thesis by (simp add: keeps_def store_of_def)
  qed
qed

lemma fold_new_keeps:
  assumes p: "eng_append X ts rnd client nonce op payload idm pr e = (Inr (r, True), e1)"
  shows "keeps X e (snd (eng_fold c r e1))"
proof -
  have k: "keeps X e e1" using append_keeps[of X e ts rnd client nonce op payload idm pr] p by simp
  note l = append_log[OF p]
  note n = log_append_new[OF l(1)]
  obtain x m where m: "apply_op c r (e_mat e1) = (x, m)" by (cases "apply_op c r (e_mat e1)")
  have s: "snd (eng_fold c r e1) = e1\<lparr> e_mat := m \<rparr>" using m by (simp add: eng_fold_def)
  have w: "late_write (o_seq r) (e_mat e) m"
    using apply_op_late[of r "e_mat e1" c] m l(2) by simp
  have q: "eng_seq e < o_seq r" "eng_seq e1 = o_seq r" using n by (simp_all add: eng_seq_def)
  show ?thesis
    unfolding s keeps_def
  proof (intro impI)
    assume h: "hist_ok X e"
    then have wf: "mv_wf (m_store (e_mat e))" "mv_upto (m_store (e_mat e)) (eng_seq e)"
      by (simp_all add: hist_ok_def store_of_def)
    note r = late_write_reads[OF w wf q(1)]
    have "log_ok X (e_log e1)" "grows e e1" using k h by (auto simp: keeps_def hist_ok_def)
    then show "hist_ok X (e1\<lparr> e_mat := m \<rparr>) \<and> grows e (e1\<lparr> e_mat := m \<rparr>) \<and>
      (\<forall>n k. n \<le> eng_seq e \<longrightarrow> mv_get (store_of (e1\<lparr> e_mat := m \<rparr>)) k (Some n) = mv_get (store_of e) k (Some n)) \<and>
      (\<forall>n q. n \<le> eng_seq e \<longrightarrow> rel_read (m_rels (e_mat (e1\<lparr> e_mat := m \<rparr>))) q (Some n) = rel_read (m_rels (e_mat e)) q (Some n))"
      using r q by (simp add: hist_ok_def store_of_def eng_seq_def grows_def)
  qed
qed

lemma commit_keeps: "keeps X e (snd (commit X ts rnd client nonce op payload idm pr e))"
proof (cases "eng_append X ts rnd client nonce op payload idm pr e")
  case (Pair a e1)
  show ?thesis
  proof (cases "\<exists>r. a = Inr (r, True)")
    case False
    then have "snd (commit X ts rnd client nonce op payload idm pr e) = e1"
      using Pair by (cases a) (auto simp: commit_def)
    then show ?thesis using append_keeps[of X e ts rnd client nonce op payload idm pr] Pair by simp
  next
    case True
    then obtain r where "a = Inr (r, True)" by blast
    with Pair fold_new_keeps[of X ts rnd client nonce op payload idm pr e r e1 True]
    show ?thesis by (simp add: commit_def)
  qed
qed

lemma nonce_keeps: "pick_nonce client nonce e = (n, e1) \<Longrightarrow> keeps X e1 e' = keeps X e e'"
  using pick_nonce_frame(2,3)[of client nonce e n e1]
  by (simp add: keeps_def hist_ok_def store_of_def eng_seq_def grows_def)

lemma mapC_snd [simp]: "snd (mapC f c) = snd c"
  by (simp add: mapC_def)

lemma on_ix_snd_frame:
  "m_store (snd (on_ix f m)) = m_store m" "m_rels (snd (on_ix f m)) = m_rels m"
  using on_ix_frame[of f m "fst (on_ix f m)" "snd (on_ix f m)"] by simp_all

lemma andthen_store:
  assumes "m_store (snd c) = m_store m \<and> m_rels (snd c) = m_rels m"
    "\<And>m1. m_store m1 = m_store m \<Longrightarrow> m_rels m1 = m_rels m \<Longrightarrow> m_store (snd (f m1)) = m_store m \<and> m_rels (snd (f m1)) = m_rels m"
  shows "m_store (snd (andthen c f)) = m_store m \<and> m_rels (snd (andthen c f)) = m_rels m"
  using assms by (cases c; cases "fst c") auto

lemma backfill_store: "m_store (snd (backfill coll ks m)) = m_store m \<and> m_rels (snd (backfill coll ks m)) = m_rels m"
proof (induction ks arbitrary: m)
  case (Cons k ks)
  show ?case
    unfolding backfill.simps
    by (rule andthen_store) (auto simp: on_ix_snd_frame Cons split: sum.split option.split)
qed simp

lemma index_mat_store: "m_store (snd (index_mat c f k m)) = m_store m \<and> m_rels (snd (index_mat c f k m)) = m_rels m"
  unfolding index_mat_def
  by (rule andthen_store) (auto simp: on_ix_snd_frame backfill_store split: sum.split)

lemma create_index_keeps: "keeps X e (snd (eng_create_index X c f k e))"
proof -
  have "keeps X e (snd (on_mat (index_mat c f k) e))"
    by (rule keeps_frame) (use index_mat_store[of c f k "e_mat e"] in \<open>auto simp: on_mat_def split: prod.splits\<close>)
  then show ?thesis
    unfolding eng_create_index_def by (rule keeps_bind) (auto intro: keeps_frame)
qed

lemma put_file_keeps: "keeps X e (snd (eng_put_file X V name data tier client nonce idm e))"
proof -
  have b: "keeps X e (e\<lparr> e_blobs := bs \<rparr>)" for bs by (rule keeps_frame) simp_all
  have a: "keeps X e (snd (bindC (eng_append X ts rnd cl n op pl idm pr e2) f))"
    if "pick_nonce client nonce (e\<lparr> e_blobs := bs \<rparr>) = (n, e2)" "\<And>a e1. keeps X e1 (snd (f a e1))" for bs n e2 ts rnd cl op pl pr and f :: "_ \<Rightarrow> _ \<Rightarrow> nat call"
  proof -
    have "keeps X e2 (snd (bindC (eng_append X ts rnd cl n op pl idm pr e2) f))"
      by (rule keeps_bind[OF append_keeps that(2)])
    with nonce_keeps[OF that(1)] b show ?thesis by (blast intro: keeps_trans)
  qed
  show ?thesis
    by (auto simp: eng_put_file_def Let_def keeps_refl b intro!: a split: option.split sum.split prod.split)
qed

lemma flush_keeps: "keeps X e (eng_flush e)" and close_keeps: "keeps X e (eng_close e)"
  by (auto simp: eng_close_def intro!: keeps_frame)

lemma checkpoint_keeps: "keeps X e (snd (save_snapshot X V e))"
proof (cases "e_path e")
  case True
  have "keeps X e1 (eng_flush (e1\<lparr> e_disk := d \<rparr>))" for e1 d
    by (rule keeps_frame) simp_all
  then show ?thesis
    unfolding save_snapshot_def using True
    by (auto simp: Let_def keeps_refl intro!: keeps_bind append_keeps split: sum.split prod.split)
qed (simp add: save_snapshot_def keeps_refl)

lemma apply_one_keeps: "keeps X e (snd (apply_one X i e))"
proof (cases i)
  case (IPut V coll k d client nonce idm ttl pr)
  obtain n e1 where n: "pick_nonce client nonce e = (n, e1)" by (cases "pick_nonce client nonce e")
  show ?thesis
    unfolding IPut apply_one.simps eng_put_def Let_def n mapC_snd prod.case nonce_keeps[OF n, symmetric]
    by (intro keeps_bind commit_keeps) (simp add: keeps_refl)
next
  case (IDelete V coll k client nonce idm)
  obtain n e1 where n: "pick_nonce client nonce e = (n, e1)" by (cases "pick_nonce client nonce e")
  show ?thesis
    unfolding IDelete apply_one.simps eng_delete_def n mapC_snd prod.case nonce_keeps[OF n, symmetric]
    by (rule commit_keeps)
next
  case (ILink V f r t client nonce)
  obtain n e1 where n: "pick_nonce client nonce e = (n, e1)" by (cases "pick_nonce client nonce e")
  show ?thesis
    unfolding ILink apply_one.simps eng_link_def n mapC_snd prod.case nonce_keeps[OF n, symmetric]
    by (rule commit_keeps)
next
  case (IUnlink V f r t client nonce)
  obtain n e1 where n: "pick_nonce client nonce e = (n, e1)" by (cases "pick_nonce client nonce e")
  show ?thesis
    unfolding IUnlink apply_one.simps eng_unlink_def n mapC_snd prod.case nonce_keeps[OF n, symmetric]
    by (rule commit_keeps)
qed (simp_all add: create_index_keeps put_file_keeps checkpoint_keeps keeps_refl)

section \<open>The committed snapshot\<close>

definition committing :: "seqr \<Rightarrow> bool" where
  "committing s \<longleftrightarrow> (case s_pc s of Applying _ _ _ \<Rightarrow> True | _ \<Rightarrow> False)"

definition seq_inv :: "ext \<Rightarrow> seqr \<Rightarrow> bool" where
  "seq_inv X s \<longleftrightarrow>
     hist_ok X (s_db s) \<and> s_committed s \<le> eng_seq (s_db s) \<and>
     (\<not> committing s \<longrightarrow> s_committed s = eng_seq (s_db s))"

lemma submit_check_frame:
  assumes "submit_check t i s = Inr s'"
  shows "s_db s' = s_db s" "s_committed s' = s_committed s" "s_pc s' = s_pc s" "s_done s' = s_done s" "s_q s' = s_q s"
  using assms by (auto simp: submit_check_def split: if_splits)

lemma submit_put_frame [simp]:
  "s_db (submit_put ti s) = s_db s" "s_committed (submit_put ti s) = s_committed s"
  "s_pc (submit_put ti s) = s_pc s" "s_done (submit_put ti s) = s_done s"
  by (simp_all add: submit_put_def)

lemma close_frame [simp]:
  "s_db (close_begin s) = s_db s" "s_committed (close_begin s) = s_committed s"
  "s_pc (close_begin s) = s_pc s" "s_done (close_begin s) = s_done s"
  "s_committed (close_end s) = s_committed s" "s_pc (close_end s) = s_pc s"
  "s_done (close_end s) = s_done s" "s_q (close_end s) = s_q s"
  by (simp_all add: close_begin_def close_end_def)

lemma flush_seq [simp]: "eng_seq (eng_flush e) = eng_seq e"
  by (simp add: eng_seq_def)

lemma committer_keeps:
  assumes "committer X s = Some s'"
  shows "keeps X (s_db s) (s_db s')"
  using assms
proof (cases "s_pc s")
  case (Applying b rs todo)
  then have s': "s' = apply_next X b rs todo s" using assms by (simp add: committer_def)
  show ?thesis
  proof (cases todo)
    case Nil
    then show ?thesis by (simp add: s' apply_next_def publish_def Let_def flush_keeps)
  next
    case (Cons x xs)
    show ?thesis
    proof (cases x)
      case Stop
      with Cons show ?thesis by (simp add: s' apply_next_def keeps_refl)
    next
      case (Intent t i)
      with Cons apply_one_keeps[of X "s_db s" i] show ?thesis
        by (cases "apply_one X i (s_db s)") (simp add: s' apply_next_def)
    qed
  qed
qed (auto simp: committer_def fill_batch_def keeps_refl intro: keeps_frame split: list.splits if_splits)

lemma step_keeps: "seq_step X s s' \<Longrightarrow> keeps X (s_db s) (s_db s')"
  by (induction rule: seq_step.induct)
    (auto simp: committer_keeps submit_check_frame keeps_refl close_end_def close_keeps)

lemma seq_run_keeps: "seq_run X s s' \<Longrightarrow> keeps X (s_db s) (s_db s')"
  by (induction rule: rtranclp_induct) (auto intro: keeps_refl keeps_trans step_keeps)

lemma committer_inv:
  assumes c: "committer X s = Some s'" and i: "seq_inv X s"
  shows "seq_inv X s'"
proof -
  note k = committer_keeps[OF c]
  have h: "hist_ok X (s_db s')" and g: "eng_seq (s_db s) \<le> eng_seq (s_db s')"
    using k i grows_seq by (auto simp: keeps_def seq_inv_def)
  show ?thesis
  proof (cases "s_pc s")
    case (Applying b rs todo)
    then have s': "s' = apply_next X b rs todo s" using c by (simp add: committer_def)
    then consider "s' = publish b rs s" | "committing s'" "s_committed s' = s_committed s"
      by (cases todo; cases "hd todo") (auto simp: apply_next_def committing_def split: prod.splits)
    then show ?thesis
    proof cases
      case 1
      then show ?thesis using h by (simp add: seq_inv_def publish_def Let_def)
    next
      case 2
      then show ?thesis using h g i by (simp add: seq_inv_def)
    qed
  next
    case Starting
    with c i h show ?thesis by (auto simp: committer_def seq_inv_def committing_def eng_seq_def)
  qed (use c i in \<open>auto simp: committer_def seq_inv_def committing_def fill_batch_def split: list.splits if_splits\<close>)
qed

lemma seq_inv_cong:
  "seq_inv X s \<Longrightarrow> s_db s' = s_db s \<Longrightarrow> s_committed s' = s_committed s \<Longrightarrow> s_pc s' = s_pc s \<Longrightarrow> seq_inv X s'"
  by (simp add: seq_inv_def committing_def)

lemma step_inv: "seq_step X s s' \<Longrightarrow> seq_inv X s \<Longrightarrow> seq_inv X s'"
proof (induction rule: seq_step.induct)
  case (joined s)
  have "eng_seq (eng_close (s_db s)) = eng_seq (s_db s)" by (simp add: eng_seq_def)
  with joined close_keeps[of X "s_db s"] show ?case
    by (simp add: seq_inv_def keeps_def committing_def) (simp add: close_end_def)
next
  case (check t i s s')
  with submit_check_frame[OF check(2)] show ?case by (auto intro: seq_inv_cong)
qed (auto intro: committer_inv seq_inv_cong)

lemma seq_run_inv: "seq_run X s s' \<Longrightarrow> seq_inv X s \<Longrightarrow> seq_inv X s'"
  by (induction rule: rtranclp_induct) (auto intro: step_inv)

lemma seq_inv_new: "hist_ok X db \<Longrightarrow> seq_inv X (seq_new mx db)"
  by (simp add: seq_inv_def seq_new_def)

lemma engine_hist_ok: "engine_ok X e \<Longrightarrow> hist_ok X e"
  by (simp add: engine_ok_def hist_ok_def mat_ok_def store_of_def)

lemma eng_get_as_of:
  "eng_get X V coll i (Some n) e = (mv_get (store_of e) (doc_key coll i) (Some n), e)"
  by (auto simp: eng_get_def split: sum.split)

text \<open>A reader pinned to the committed number sees the same whatever is done meanwhile \<dots>\<close>

lemma isolation:
  assumes i: "seq_inv X s" and r: "seq_run X s s'"
  shows "seq_get X V coll k (Some (s_committed s)) s' = seq_get X V' coll k None s"
    "seq_neighbors f l (Some (s_committed s)) s' = seq_neighbors f l None s"
    "seq_inbound t l (Some (s_committed s)) s' = seq_inbound t l None s"
proof -
  have k: "keeps X (s_db s) (s_db s')" by (rule seq_run_keeps[OF r])
  have n: "s_committed s \<le> eng_seq (s_db s)" "hist_ok X (s_db s)" using i by (simp_all add: seq_inv_def)
  have g: "mv_get (store_of (s_db s')) k (Some (s_committed s)) = mv_get (store_of (s_db s)) k (Some (s_committed s))" for k
    using k n by (simp add: keeps_def)
  then show "seq_get X V coll k (Some (s_committed s)) s' = seq_get X V' coll k None s"
    by (simp add: seq_get_def pin_def eng_get_as_of)
  have r: "rel_read (m_rels (e_mat (s_db s'))) q (Some (s_committed s)) =
      rel_read (m_rels (e_mat (s_db s))) q (Some (s_committed s))" for q
    using k n by (simp add: keeps_def)
  from r[of "Out f l"] show "seq_neighbors f l (Some (s_committed s)) s' = seq_neighbors f l None s"
    by (simp add: seq_neighbors_def eng_neighbors_def pin_def rel_read_def)
  from r[of "In t l"] show "seq_inbound t l (Some (s_committed s)) s' = seq_inbound t l None s"
    by (simp add: seq_inbound_def eng_inbound_def pin_def rel_read_def)
qed

text \<open>\<dots> and between batches the committed number is HEAD: a returned write is visible.\<close>

lemma committed_is_head:
  assumes "seq_inv X s" "\<not> committing s"
  shows "seq_get X V coll k None s = mv_get (store_of (s_db s)) (doc_key coll k) None"
proof -
  have "s_committed s = eng_seq (s_db s)" "mv_wf (store_of (s_db s))" "mv_upto (store_of (s_db s)) (eng_seq (s_db s))"
    using assms by (simp_all add: seq_inv_def hist_ok_def)
  with mv.head_now[of "store_of (s_db s)" "eng_seq (s_db s)" "doc_key coll k"] show ?thesis
    by (simp add: seq_get_def pin_def eng_get_as_of mv_read_at_def mv_read_head_def)
qed

section \<open>Group commit is one flush per operation, batched\<close>

definition undefer :: "engine \<Rightarrow> engine" where
  \<comment> \<open>the engine that flushes after every operation, in the same state\<close>
  "undefer e = (eng_flush e)\<lparr> e_defer := False \<rparr>"

lemma undefer_fields [simp]:
  "e_log (undefer e) = e_log e" "e_mat (undefer e) = e_mat e" "e_blobs (undefer e) = e_blobs e"
  "e_nonce (undefer e) = e_nonce e" "e_path (undefer e) = e_path e" "e_open (undefer e) = e_open e"
  "e_dek (undefer e) = e_dek e" "e_defer (undefer e) = False" "store_of (undefer e) = store_of e"
  by (simp_all add: undefer_def eng_flush_def store_of_def)

lemma undefer_update:
  "(undefer e)\<lparr> e_mat := m \<rparr> = undefer (e\<lparr> e_mat := m \<rparr>)"
  "(undefer e)\<lparr> e_nonce := n \<rparr> = undefer (e\<lparr> e_nonce := n \<rparr>)"
  "(undefer e)\<lparr> e_blobs := b \<rparr> = undefer (e\<lparr> e_blobs := b \<rparr>)"
  "(undefer e)\<lparr> e_log := l \<rparr> = undefer (e\<lparr> e_log := l \<rparr>)"
  "(undefer e)\<lparr> e_disk := (e_disk (undefer e))\<lparr> d_meta := x \<rparr> \<rparr> = undefer (e\<lparr> e_disk := (e_disk e)\<lparr> d_meta := x \<rparr> \<rparr>)"
  "(undefer e)\<lparr> e_disk := (e_disk (undefer e))\<lparr> d_snap := y \<rparr> \<rparr> = undefer (e\<lparr> e_disk := (e_disk e)\<lparr> d_snap := y \<rparr> \<rparr>)"
  by (simp_all add: undefer_def eng_flush_def)

lemma undefer_flush [simp]: "undefer (eng_flush e) = undefer e" "eng_flush (undefer e) = undefer e"
  by (simp_all add: undefer_def eng_flush_def)

definition batched :: "(engine \<Rightarrow> 'a call) \<Rightarrow> bool" where
  \<comment> \<open>the call does the same to an engine that defers its flushes\<close>
  "batched c \<longleftrightarrow>
     (\<forall>e. e_defer e \<longrightarrow> e_defer (snd (c e)) \<and> c (undefer e) = (fst (c e), undefer (snd (c e))))"

lemma batchedD:
  assumes "batched c" "e_defer e"
  shows "e_defer (snd (c e))" "c (undefer e) = (fst (c e), undefer (snd (c e)))"
  using assms by (simp_all add: batched_def)

lemma batched_pure: "(\<And>e. c e = (r e, e) \<and> r (undefer e) = r e) \<Longrightarrow> batched c"
  by (simp add: batched_def)

lemma batched_bind:
  assumes "batched c" "\<And>a. batched (f a)"
  shows "batched (\<lambda>e. bindC (c e) f)"
  unfolding batched_def
proof (intro allI impI)
  fix e :: engine assume e: "e_defer e"
  note c = batchedD[OF assms(1) e]
  show "e_defer (snd (bindC (c e) f)) \<and> bindC (c (undefer e)) f = (fst (bindC (c e) f), undefer (snd (bindC (c e) f)))"
  proof (cases "fst (c e)")
    case (Inl x)
    then show ?thesis using c by (cases "c e") simp
  next
    case (Inr a)
    then have p: "c e = (Inr a, snd (c e))" by (cases "c e") simp
    have "bindC (c e) f = f a (snd (c e))" by (subst p) simp
    moreover have "bindC (c (undefer e)) f = f a (undefer (snd (c e)))" using c(2) Inr by simp
    ultimately show ?thesis using batchedD[OF assms(2) c(1), of a] by simp
  qed
qed

lemma batched_append: "batched (eng_append X ts rnd client nonce op payload idm pr)"
  unfolding batched_def
proof (intro allI impI)
  fix e :: engine assume e: "e_defer e"
  show "e_defer (snd (eng_append X ts rnd client nonce op payload idm pr e)) \<and>
    eng_append X ts rnd client nonce op payload idm pr (undefer e) =
      (fst (eng_append X ts rnd client nonce op payload idm pr e),
       undefer (snd (eng_append X ts rnd client nonce op payload idm pr e)))"
  proof (cases "log_append X client nonce op payload idm ts pr (e_log e)")
    case (Inl x)
    then show ?thesis using e by (simp add: eng_append_def)
  next
    case (Inr rcl)
    obtain r created l where "rcl = (r, created, l)" by (cases rcl)
    then show ?thesis using e Inr
      by (simp add: eng_append_def Let_def undefer_def eng_flush_def split: option.split)
  qed
qed

lemma batched_nonce:
  assumes "\<And>n. batched (f n)"
  shows "batched (\<lambda>e. case pick_nonce client nonce e of (n, e1) \<Rightarrow> f n e1)"
  unfolding batched_def
proof (intro allI impI)
  fix e :: engine assume e: "e_defer e"
  obtain n e1 where n: "pick_nonce client nonce e = (n, e1)" by (cases "pick_nonce client nonce e")
  have "e_defer e1" "pick_nonce client nonce (undefer e) = (n, undefer e1)"
    using n e by (auto simp: pick_nonce_def next_nonce_def Let_def undefer_update split: option.splits)
  then show "e_defer (snd (case pick_nonce client nonce e of (n, e1) \<Rightarrow> f n e1)) \<and>
      (case pick_nonce client nonce (undefer e) of (n, e1) \<Rightarrow> f n e1) =
      (fst (case pick_nonce client nonce e of (n, e1) \<Rightarrow> f n e1), undefer (snd (case pick_nonce client nonce e of (n, e1) \<Rightarrow> f n e1)))"
    using batchedD[OF assms] n by simp
qed

lemma batched_fold: "batched (eng_fold c r)"
  by (auto simp: batched_def eng_fold_def undefer_update split: prod.split)

lemma batched_commit: "batched (commit X ts rnd client nonce op payload idm pr)"
proof -
  have "batched (\<lambda>e. if created then eng_fold True r e else (Inr (), e))" for r created
    by (cases created) (simp_all add: batched_fold batched_pure)
  then show ?thesis
    unfolding commit_def by (intro batched_bind batched_append) (simp add: case_prod_beta')
qed

lemma batched_mapC:
  assumes "batched c" shows "batched (\<lambda>e. mapC f (c e))"
  using batchedD[OF assms] by (simp add: batched_def mapC_def)

lemma defer_flush [simp]: "e_defer (eng_flush e) = e_defer e"
  by (simp add: eng_flush_def)

lemma batched_put_file: "batched (eng_put_file X V name data tier client nonce idm)"
  unfolding batched_def
proof (intro allI impI)
  fix e :: engine assume e: "e_defer e"
  let ?c = "eng_put_file X V name data tier client nonce idm"
  show "e_defer (snd (?c e)) \<and> ?c (undefer e) = (fst (?c e), undefer (snd (?c e)))"
  proof (cases "map_of (e_blobs e) tier")
    case None
    then show ?thesis using e by (simp add: eng_put_file_def)
  next
    case (Some bs)
    show ?thesis
    proof (cases "put_file X name data bs")
      case (Inl x)
      then show ?thesis using e Some by (simp add: eng_put_file_def)
    next
      case (Inr vb)
      obtain v bs' where vb: "vb = (v, bs')" by (cases vb)
      let ?e1 = "e\<lparr> e_blobs := dset tier bs' (e_blobs e) \<rparr>"
      have e1: "e_defer ?e1" using e by simp
      show ?thesis
      proof (cases "file_root bs' name (int v)")
        case (Inl x)
        then show ?thesis using e Some Inr vb by (simp add: eng_put_file_def undefer_update)
      next
        case (Inr rt)
        let ?t = "\<lambda>e1. case pick_nonce client nonce e1 of (n, e2) \<Rightarrow>
          bindC (eng_append X (v_ts V 0) (v_rand V 0) client n ''put_file'' (file_payload name tier v rt) idm no_prov e2)
            (\<lambda>_ e3. (Inr v, e3))"
        have "batched ?t"
          by (intro batched_nonce batched_bind batched_append batched_pure) simp
        moreover have "?c e = ?t ?e1" "?c (undefer e) = ?t (undefer ?e1)"
          using Some Inr vb \<open>put_file X name data bs = Inr vb\<close>
          by (simp_all add: eng_put_file_def undefer_update)
        ultimately show ?thesis using batchedD[OF _ e1, of ?t] by simp
      qed
    qed
  qed
qed

lemma batched_checkpoint: "batched (save_snapshot X V)"
proof -
  define W where "W r e = (case snap_store (store_of e) of
      Inl x \<Rightarrow> (Inl x, e)
    | Inr sd \<Rightarrow>
        (case snap_blobs X (\<lambda>i. v_rand V (Suc i)) (e_dek e) 0 (e_blobs e) of
           (bd, n) \<Rightarrow>
             (Inr (l_head (e_log e)), eng_flush (e\<lparr> e_disk := (e_disk e)\<lparr> d_snap :=
                Some (snapshot_encode X (v_rand V (Suc n))
                  (utf8_encode (dumps X '','' '':'' (snap_doc (o_seq r) (l_head (e_log e)) e sd bd)))
                  (e_dek e)) \<rparr> \<rparr>))))" for r :: oprec and e
  have sd: "snap_doc q h (undefer e) a b = snap_doc q h e a b" for q h e a b
    by (simp add: snap_doc_def)
  have "batched (W r)" for r
    by (auto simp: batched_def W_def sd undefer_update split: sum.split prod.split)
  then have b: "batched (\<lambda>e. bindC (eng_append X (v_ts V 0) (v_rand V 0) ''__snapshot__''
      (py_trunc (fl (v_now V * 1000))) ''checkpoint'' [(''note'', PStr ''snapshot captured'')] None no_prov e)
      (\<lambda>(r, _). W r))"
    by (intro batched_bind batched_append) (simp split: prod.split)
  have "save_snapshot X V = (\<lambda>e. if \<not> e_path e then (Inl ValueErr, e)
      else bindC (eng_append X (v_ts V 0) (v_rand V 0) ''__snapshot__''
      (py_trunc (fl (v_now V * 1000))) ''checkpoint'' [(''note'', PStr ''snapshot captured'')] None no_prov e)
      (\<lambda>(r, _). W r))"
    unfolding save_snapshot_def W_def Let_def by (rule refl)
  with b show ?thesis by (simp add: batched_def)
qed

lemma batched_one: "batched (apply_one X i)"
proof (cases i)
  case (IPut V coll k d client nonce idm ttl pr)
  have "batched (\<lambda>e2. (mv_get (store_of e2) (doc_key coll k) None, e2))"
    by (simp add: batched_def)
  then show ?thesis
    unfolding IPut apply_one.simps eng_put_def Let_def
    by (intro batched_mapC batched_nonce batched_bind batched_commit) simp
next
  case (ICreateIndex coll f k)
  have "batched (on_mat (index_mat coll f k))"
    by (auto simp: batched_def on_mat_def undefer_update split: prod.split)
  moreover have "batched (\<lambda>e. (Inr (), persist_meta X e))"
    by (auto simp: batched_def persist_meta_def undefer_update)
  ultimately show ?thesis
    unfolding ICreateIndex apply_one.simps eng_create_index_def by (intro batched_mapC batched_bind) simp
next
  case (IOther k)
  then show ?thesis by (simp add: batched_def)
next
  case (IDelete V coll k client nonce idm)
  show ?thesis
    unfolding IDelete apply_one.simps eng_delete_def by (intro batched_mapC batched_nonce batched_commit)
next
  case (ILink V f r t client nonce)
  show ?thesis
    unfolding ILink apply_one.simps eng_link_def by (intro batched_mapC batched_nonce batched_commit)
next
  case (IUnlink V f r t client nonce)
  show ?thesis
    unfolding IUnlink apply_one.simps eng_unlink_def by (intro batched_mapC batched_nonce batched_commit)
next
  case (IPutFile V name data tier client nonce idm)
  show ?thesis unfolding IPutFile apply_one.simps by (intro batched_mapC batched_put_file)
next
  case (ICheckpoint V)
  show ?thesis unfolding ICheckpoint apply_one.simps by (intro batched_mapC batched_checkpoint)
qed

text \<open>The reference: the intents applied one after the other, as they come.\<close>

fun direct :: "ext \<Rightarrow> (nat \<times> intent) list \<Rightarrow> engine \<Rightarrow> (nat \<times> reply res) list \<times> engine" where
  "direct X [] e = ([], e)"
| "direct X ((t, i) # ts) e =
     (case apply_one X i e of (r, e1) \<Rightarrow>
        (case direct X ts e1 of (rs, e2) \<Rightarrow> ((t, r) # rs, e2)))"

lemma direct_batched:
  "e_defer e \<Longrightarrow> e_defer (snd (direct X ts e)) \<and> direct X ts (undefer e) = (fst (direct X ts e), undefer (snd (direct X ts e)))"
proof (induction ts arbitrary: e)
  case (Cons ti ts)
  obtain t i where ti: "ti = (t, i)" by (cases ti)
  obtain r e1 where r: "apply_one X i e = (r, e1)" by (cases "apply_one X i e")
  from batchedD[OF batched_one Cons.prems, of X i] r
  have "e_defer e1" "apply_one X i (undefer e) = (r, undefer e1)" by simp_all
  with Cons.IH[of e1] show ?case
    by (cases "direct X ts e1") (simp add: ti r)
qed simp

lemma direct_append:
  "direct X (as @ bs) e =
     (fst (direct X as e) @ fst (direct X bs (snd (direct X as e))), snd (direct X bs (snd (direct X as e))))"
  by (induction as arbitrary: e) (auto split: prod.splits)

section \<open>The committer drains its queue\<close>

definition intents :: "qitem list \<Rightarrow> (nat \<times> intent) list" where
  "intents b = List.map_filter (\<lambda>x. case x of Stop \<Rightarrow> None | Intent t i \<Rightarrow> Some (t, i)) b"

lemma intents_simps [simp]:
  "intents [] = []" "intents (Stop # b) = intents b" "intents (Intent t i # b) = (t, i) # intents b"
  by (simp_all add: intents_def map_filter_simps)

lemma intents_append [simp]: "intents (a @ b) = intents a @ intents b"
  by (induction a rule: list.induct) (simp_all add: intents_def map_filter_def)

lemma run_add: "run_committer X (m + n) s = run_committer X n (run_committer X m s)"
proof (induction m arbitrary: s)
  case (Suc m)
  show ?case
  proof (cases "committer X s")
    case None
    then have "run_committer X n s = s" for n by (cases n) simp_all
    with None show ?thesis by simp
  qed (simp add: Suc)
qed simp

lemma publish_pc: "publish b rs (s\<lparr> s_pc := p \<rparr>) = publish b rs s"
  by (simp add: publish_def Let_def)

lemma publish_pc_db: "publish b rs (s\<lparr> s_pc := p, s_db := d \<rparr>) = publish b rs (s\<lparr> s_db := d \<rparr>)"
  by (simp add: publish_def Let_def)

lemma publish_pc_q:
  "publish b rs (s\<lparr> s_q := q, s_pc := p, s_db := d \<rparr>) = publish b rs (s\<lparr> s_q := q, s_db := d \<rparr>)"
  by (simp add: publish_def Let_def)

lemma run_apply:
  assumes "s_pc s = Applying b rs todo"
  shows "run_committer X (Suc (length todo)) s =
    publish b (rs @ fst (direct X (intents todo) (s_db s))) (s\<lparr> s_db := snd (direct X (intents todo) (s_db s)) \<rparr>)"
  using assms
proof (induction todo arbitrary: rs s)
  case Nil
  then show ?case by (simp add: committer_def apply_next_def)
next
  case (Cons x todo)
  show ?case
  proof (cases x)
    case Stop
    let ?s = "s\<lparr> s_pc := Applying b rs todo \<rparr>"
    have "committer X s = Some ?s" using Cons.prems Stop by (simp add: committer_def apply_next_def)
    then have "run_committer X (Suc (length (x # todo))) s = run_committer X (Suc (length todo)) ?s"
      by (simp only: run_committer.simps list.size option.case add_Suc_right add_0_right)
    also have "\<dots> = publish b (rs @ fst (direct X (intents todo) (s_db s)))
        (?s\<lparr> s_db := snd (direct X (intents todo) (s_db s)) \<rparr>)"
      using Cons.IH[of ?s rs] by (simp del: run_committer.simps)
    finally show ?thesis unfolding publish_pc_db by (simp only: Stop intents_simps)
  next
    case (Intent t i)
    obtain r db where r: "apply_one X i (s_db s) = (r, db)" by (cases "apply_one X i (s_db s)")
    let ?s = "s\<lparr> s_db := db, s_pc := Applying b (rs @ [(t, r)]) todo \<rparr>"
    have "committer X s = Some ?s" using Cons.prems Intent r by (simp add: committer_def apply_next_def)
    then have "run_committer X (Suc (length (x # todo))) s = run_committer X (Suc (length todo)) ?s"
      by (simp only: run_committer.simps list.size option.case add_Suc_right add_0_right)
    also have "\<dots> = publish b ((rs @ [(t, r)]) @ fst (direct X (intents todo) db))
        (?s\<lparr> s_db := snd (direct X (intents todo) db) \<rparr>)"
      using Cons.IH[of ?s "rs @ [(t, r)]"] by (simp del: run_committer.simps)
    finally show ?thesis unfolding publish_pc_db by (simp add: Intent r publish_def Let_def split: prod.split)
  qed
qed

lemma run_collect:
  assumes "s_pc s = Collecting b" "k = min (s_max s - length b) (length (s_q s))"
  shows "run_committer X (Suc k) s =
    s\<lparr> s_q := drop k (s_q s), s_pc := Applying (b @ take k (s_q s)) [] (b @ take k (s_q s)) \<rparr>"
  using assms
proof (induction k arbitrary: b s)
  case 0
  then have "s_max s \<le> length b \<or> s_q s = []" by (auto simp: min_def split: if_splits)
  with 0 show ?case by (auto simp: committer_def fill_batch_def)
next
  case (Suc k)
  then obtain x q where q: "s_q s = x # q" and l: "length b < s_max s" by (cases "s_q s") auto
  let ?s = "s\<lparr> s_q := q, s_pc := Collecting (b @ [x]) \<rparr>"
  have "committer X s = Some ?s" using Suc.prems q l by (simp add: committer_def fill_batch_def)
  moreover have "k = min (s_max ?s - length (b @ [x])) (length (s_q ?s))" using Suc.prems(2) q by simp
  ultimately show ?case using Suc.IH[of ?s "b @ [x]"] q by simp
qed

text \<open>One whole batch: everything from the first item to the publication.\<close>

lemma run_batch:
  assumes "s_pc s = Waiting" "s_q s = x # q" "x \<noteq> Stop"
  shows "\<exists>n k. run_committer X n s =
    publish (x # take k q) (fst (direct X (intents (x # take k q)) (s_db s)))
      (s\<lparr> s_q := drop k q, s_db := snd (direct X (intents (x # take k q)) (s_db s)) \<rparr>)"
proof -
  let ?s1 = "s\<lparr> s_q := q, s_pc := Collecting [x] \<rparr>"
  let ?k = "min (s_max s - 1) (length q)"
  let ?b = "x # take ?k q"
  let ?s2 = "s\<lparr> s_q := drop ?k q, s_pc := Applying ?b [] ?b \<rparr>"
  have "run_committer X 1 s = ?s1" using assms by (simp add: committer_def)
  moreover have "run_committer X (Suc ?k) ?s1 = ?s2" using run_collect[of ?s1 "[x]" ?k] by simp
  moreover have "run_committer X (Suc (length ?b)) ?s2 =
      publish ?b (fst (direct X (intents ?b) (s_db s)))
        (s\<lparr> s_q := drop ?k q, s_db := snd (direct X (intents ?b) (s_db s)) \<rparr>)"
    using run_apply[of ?s2 ?b "[]" ?b X] by (simp del: run_committer.simps add: publish_pc_q)
  ultimately have "run_committer X (1 + Suc ?k + Suc (length ?b)) s =
      publish ?b (fst (direct X (intents ?b) (s_db s)))
        (s\<lparr> s_q := drop ?k q, s_db := snd (direct X (intents ?b) (s_db s)) \<rparr>)"
    unfolding run_add by (simp only:)
  then show ?thesis by blast
qed

lemma intents_map [simp]: "intents (map (\<lambda>(t, i). Intent t i) ts) = ts"
  by (induction ts) auto

lemma intents_take: "intents (take k (map (\<lambda>(t, i). Intent t i) ts)) = take k ts"
  by (simp only: take_map intents_map)

lemma stop_in_map [simp]: "Stop \<notin> set (map (\<lambda>(t, i). Intent t i) ts)"
  by auto

lemma publish_fields [simp]:
  "s_db (publish b rs s) = eng_flush (s_db s)" "s_q (publish b rs s) = s_q s"
  "s_max (publish b rs s) = s_max s" "s_committed (publish b rs s) = eng_seq (s_db s)"
  "s_done (publish b rs s) = s_done s @ rs" "s_closed (publish b rs s) = s_closed s"
  "s_checked (publish b rs s) = s_checked s"
  "s_pc (publish b rs s) = (if Stop \<in> set b then Stopped else Waiting)"
  by (simp_all add: publish_def Let_def)

text \<open>
  Whatever the batches, the committer gives every queued intent the result it has when the
  intents are applied one by one, each with its own flush, and leaves the same engine; if the
  queue ends with the stop marker it then returns.
\<close>

lemma drain:
  assumes "s_pc s = Waiting" "e_defer (s_db s)" "stop = [] \<or> stop = [Stop]"
    "s_q s = map (\<lambda>(t, i). Intent t i) ts @ stop" "ts \<noteq> []"
  shows "\<exists>n. (let s' = run_committer X n s in
     s_pc s' = (if stop = [] then Waiting else Stopped) \<and> s_q s' = [] \<and>
     s_done s' = s_done s @ fst (direct X ts (undefer (s_db s))) \<and>
     undefer (s_db s') = snd (direct X ts (undefer (s_db s))) \<and>
     s_committed s' = eng_seq (s_db s'))"
  using assms
proof (induction "length ts" arbitrary: ts s rule: less_induct)
  case less
  let ?mk = "\<lambda>(t, i). Intent t i"
  obtain t i ts' where ts: "ts = (t, i) # ts'" using less.prems(5) by (cases ts) auto
  let ?q = "map ?mk ts' @ stop"
  have "s_q s = Intent t i # ?q" using less.prems(4) ts by simp
  from run_batch[OF less.prems(1) this qitem.distinct(2)] obtain n k where
    run: "run_committer X n s =
      publish (Intent t i # take k ?q) (fst (direct X (intents (Intent t i # take k ?q)) (s_db s)))
        (s\<lparr> s_q := drop k ?q, s_db := snd (direct X (intents (Intent t i # take k ?q)) (s_db s)) \<rparr>)"
    by blast
  let ?b = "Intent t i # take k ?q"
  let ?as = "take (Suc k) ts" and ?bs = "drop (Suc k) ts"
  let ?s1 = "run_committer X n s"
  have b: "intents ?b = ?as"
    using less.prems(3) by (cases "k - length ts'") (auto simp: ts intents_take)
  note d = direct_batched[OF less.prems(2), of X ?as]
  have res: "fst (direct X ts (undefer (s_db s))) =
      fst (direct X ?as (s_db s)) @ fst (direct X ?bs (undefer (snd (direct X ?as (s_db s)))))"
    and db: "snd (direct X ts (undefer (s_db s))) = snd (direct X ?bs (undefer (snd (direct X ?as (s_db s)))))"
    using direct_append[of X ?as ?bs "undefer (s_db s)"] d by (simp_all add: prod_eq_iff)
  show ?case
  proof (cases "?bs = []")
    case False
    then have k: "k < length ts'" by (simp add: ts)
    then have "?s1 = publish ?b (fst (direct X ?as (s_db s)))
        (s\<lparr> s_q := map ?mk ?bs @ stop, s_db := snd (direct X ?as (s_db s)) \<rparr>)"
      using run b by (simp add: ts drop_map)
    moreover have "Stop \<notin> set ?b" using k by (auto dest: in_set_takeD)
    ultimately have s1: "s_pc ?s1 = Waiting" "e_defer (s_db ?s1)" "s_q ?s1 = map ?mk ?bs @ stop"
      "s_done ?s1 = s_done s @ fst (direct X ?as (s_db s))"
      "undefer (s_db ?s1) = undefer (snd (direct X ?as (s_db s)))"
      using d by simp_all
    have "length ?bs < length ts" using ts by simp
    from less.hyps[OF this s1(1,2) less.prems(3) s1(3) False] obtain m where
      "let s' = run_committer X m ?s1 in
         s_pc s' = (if stop = [] then Waiting else Stopped) \<and> s_q s' = [] \<and>
         s_done s' = s_done ?s1 @ fst (direct X ?bs (undefer (s_db ?s1))) \<and>
         undefer (s_db s') = snd (direct X ?bs (undefer (s_db ?s1))) \<and>
         s_committed s' = eng_seq (s_db s')" by blast
    then show ?thesis
      using s1 res db by (intro exI[of _ "n + m"]) (simp add: Let_def run_add)
  next
    case True
    then have k: "length ts' \<le> k" by (simp add: ts)
    then have as: "?as = ts" by (simp add: ts)
    have s1: "?s1 = publish ?b (fst (direct X ts (s_db s)))
        (s\<lparr> s_q := drop (k - length ts') stop, s_db := snd (direct X ts (s_db s)) \<rparr>)"
      using run[unfolded b as] k by simp
    note d' = d[unfolded as]
    show ?thesis
    proof (cases "stop = [] \<or> length ts' < k")
      case True
      then have "drop (k - length ts') stop = []" "Stop \<in> set ?b \<longleftrightarrow> stop \<noteq> []"
        using less.prems(3) k by auto
      then show ?thesis
        using s1 d' by (intro exI[of _ n]) (simp add: Let_def)
    next
      case False
      then have kl: "k = length ts'" "stop = [Stop]" using k less.prems(3) by auto
      then have "s_pc ?s1 = Waiting" "s_q ?s1 = [Stop]" using s1 by auto
      then have "run_committer X (n + 1) s = ?s1\<lparr> s_q := [], s_pc := Stopped \<rparr>"
        unfolding run_add by (simp add: committer_def)
      then show ?thesis
        using s1 d' kl by (intro exI[of _ "n + 1"]) (simp add: Let_def)
    qed
  qed
qed

section \<open>What is committed is on disk\<close>

text \<open>\<open>dk e e'\<close>: the file still decodes to the log, and no line has left it.\<close>

definition dk :: "ext \<Rightarrow> engine \<Rightarrow> engine \<Rightarrow> bool" where
  "dk X e e' \<longleftrightarrow>
     e_open e' = e_open e \<and> e_defer e' = e_defer e \<and>
     length (aof_lines (e_disk e)) \<le> length (aof_lines (e_disk e')) \<and> (disk_ok X e \<longrightarrow> disk_ok X e')"

lemma dk_refl: "dk X e e"
  by (simp add: dk_def)

lemma dk_trans: "dk X a b \<Longrightarrow> dk X b c \<Longrightarrow> dk X a c"
  by (auto simp: dk_def)

lemma dk_frame:
  assumes "e_log e' = e_log e" "e_open e' = e_open e" "e_defer e' = e_defer e" "e_dek e' = e_dek e"
    "e_buf e' = e_buf e" "d_aof (e_disk e') = d_aof (e_disk e)"
  shows "dk X e e'"
  using assms by (simp add: dk_def disk_ok_def aof_lines_def)

lemma dk_bind:
  assumes "dk X e (snd c)" "\<And>a e1. c = (Inr a, e1) \<Longrightarrow> dk X e1 (snd (f a e1))"
  shows "dk X e (snd (bindC c f))"
proof (cases c)
  case (Pair r e1)
  then show ?thesis
    using assms dk_trans[of X e e1 "snd (bindC c f)"] by (cases r) auto
qed

lemma flush_dk: "dk X e (eng_flush e)"
  by (auto simp: dk_def disk_ok_def eng_flush_def aof_lines_def split: option.split)

lemma append_dk:
  assumes X: "ext_ok X" and n: "length rnd = NONCE_LEN"
  shows "dk X e (snd (eng_append X ts rnd client nonce op payload idm pr e))"
proof (cases "log_append X client nonce op payload idm ts pr (e_log e)")
  case (Inl x)
  then show ?thesis by (simp add: eng_append_def dk_refl)
next
  case (Inr rcl)
  obtain r created l where rcl: "rcl = (r, created, l)" by (cases rcl)
  show ?thesis
  proof (cases created)
    case False
    with Inr rcl have "l = e_log e" by (auto elim: append_cases)
    then show ?thesis using Inr rcl False by (simp add: eng_append_def dk_refl)
  next
    case True
    have l: "l_ops l = l_ops (e_log e) @ [r]"
      by (rule log_append_new(1)) (use Inr rcl True in simp)
    let ?e' = "let e1 = e\<lparr> e_log := l \<rparr> in
           if e_open e1 then
             (let e2 = e1\<lparr> e_buf := e_buf e1 @ [aof_encode X rnd (op_line X r) (e_dek e1)] \<rparr>
              in if e_defer e2 then e2 else eng_flush e2)
           else e1"
    have s: "snd (eng_append X ts rnd client nonce op payload idm pr e) = ?e'"
      using Inr rcl True by (simp add: eng_append_def Let_def)
    have "disk_ok X e \<Longrightarrow> disk_ok X ?e'" by (rule disk_ok_append[OF X _ n l refl])
    moreover have "e_open ?e' = e_open e" "e_defer ?e' = e_defer e"
      "length (aof_lines (e_disk e)) \<le> length (aof_lines (e_disk ?e'))"
      by (auto simp: Let_def eng_flush_def aof_lines_def split: option.split)
    ultimately show ?thesis unfolding s dk_def by blast
  qed
qed

lemma fold_dk: "dk X e (snd (eng_fold c r e))"
  by (rule dk_frame) (auto simp: eng_fold_def split: prod.split)

lemma commit_dk:
  assumes "ext_ok X" "length rnd = NONCE_LEN"
  shows "dk X e (snd (commit X ts rnd client nonce op payload idm pr e))"
  unfolding commit_def
  by (rule dk_bind[OF append_dk[OF assms]]) (auto simp: fold_dk dk_refl split: prod.split)

lemma nonce_dk: "pick_nonce client nonce e = (n, e1) \<Longrightarrow> dk X e e1"
  by (rule dk_frame) (auto simp: pick_nonce_def next_nonce_def Let_def split: option.splits)

lemma picked_dk:
  "(\<And>n e1. dk X e1 (snd (f n e1))) \<Longrightarrow> dk X e (snd (case pick_nonce client nonce e of (n, e1) \<Rightarrow> f n e1))"
  using dk_trans nonce_dk by (cases "pick_nonce client nonce e") (fastforce)

lemma put_file_dk:
  assumes "ext_ok X" "env_ok V"
  shows "dk X e (snd (eng_put_file X V name data tier client nonce idm e))"
proof -
  have r: "length (v_rand V 0) = NONCE_LEN" using assms(2) by (simp add: env_ok_def)
  have b: "dk X e (e\<lparr> e_blobs := bs \<rparr>)" for bs by (rule dk_frame) simp_all
  have a: "dk X e (snd (case pick_nonce client nonce (e\<lparr> e_blobs := bs \<rparr>) of (n, e1) \<Rightarrow>
      bindC (eng_append X (v_ts V 0) (v_rand V 0) client n op pl idm pr e1) (\<lambda>_ e. (Inr v, e))))"
    for bs op pl pr and v :: nat
    by (rule dk_trans[OF b picked_dk], rule dk_bind[OF append_dk[OF assms(1) r]]) (simp add: dk_refl)
  show ?thesis
    by (auto simp: eng_put_file_def Let_def dk_refl b intro!: a split: option.split sum.split)
qed

lemma checkpoint_dk:
  assumes "ext_ok X" "env_ok V"
  shows "dk X e (snd (save_snapshot X V e))"
proof (cases "e_path e")
  case True
  have r: "length (v_rand V 0) = NONCE_LEN" using assms(2) by (simp add: env_ok_def)
  have "dk X e1 (eng_flush (e1\<lparr> e_disk := (e_disk e1)\<lparr> d_snap := y \<rparr> \<rparr>))" for e1 y
    by (rule dk_trans[OF dk_frame flush_dk]) simp_all
  then show ?thesis
    unfolding save_snapshot_def using True
    by (auto simp: Let_def dk_refl intro!: dk_bind append_dk[OF assms(1) r] split: sum.split prod.split)
qed (simp add: save_snapshot_def dk_refl)

lemma apply_one_dk:
  assumes X: "ext_ok X" and i: "intent_ok i"
  shows "dk X e (snd (apply_one X i e))"
proof (cases i)
  case (ICreateIndex coll f k)
  have p: "dk X e1 (persist_meta X e1)" for e1
    by (rule dk_frame) (simp_all add: persist_meta_def)
  have m: "dk X e (snd (on_mat h e))" for h
    by (rule dk_frame) (auto simp: on_mat_def split: prod.split)
  show ?thesis
    unfolding ICreateIndex apply_one.simps mapC_snd eng_create_index_def by (rule dk_bind[OF m]) (simp add: p)
qed (use i X in \<open>auto simp: intent_ok_def eng_put_def eng_delete_def eng_link_def eng_unlink_def Let_def
    put_file_dk checkpoint_dk dk_refl env_ok_def intro!: picked_dk dk_bind commit_dk\<close>)

definition durable :: "ext \<Rightarrow> seqr \<Rightarrow> bool" where
  "durable X s \<longleftrightarrow>
     (e_open (s_db s) \<longrightarrow>
        disk_ok X (s_db s) \<and> s_committed s + 1 \<le> int (length (aof_lines (e_disk (s_db s)))))"

text \<open>Every intent submitted draws nonces of the right length.\<close>

fun item_ok :: "qitem \<Rightarrow> bool" where
  "item_ok Stop = True"
| "item_ok (Intent t i) = intent_ok i"

definition all_ok :: "seqr \<Rightarrow> bool" where
  "all_ok s \<longleftrightarrow>
     list_all item_ok (s_q s) \<and> list_all (\<lambda>ti. intent_ok (snd ti)) (s_checked s) \<and>
     (case s_pc s of
        Collecting b \<Rightarrow> list_all item_ok b
      | Applying b rs todo \<Rightarrow> list_all item_ok todo
      | _ \<Rightarrow> True)"

lemma list_all_remove1: "list_all P xs \<Longrightarrow> list_all P (remove1 x xs)"
  by (auto simp: list_all_iff dest: set_remove1_subset[THEN subsetD])

lemma step_all_ok: "seq_step X s s' \<Longrightarrow> all_ok s \<Longrightarrow> all_ok s'"
proof (induction rule: seq_step.induct)
  case (thread s s')
  show ?case
  proof (cases "s_pc s")
    case (Applying b rs todo)
    with thread show ?thesis
      by (cases todo; cases "hd todo")
        (auto simp: committer_def apply_next_def all_ok_def publish_def Let_def split: prod.splits)
  qed (use thread in \<open>auto simp: committer_def fill_batch_def all_ok_def split: list.splits if_splits\<close>)
next
  case (enqueue ti s)
  obtain t i where ti: "ti = (t, i)" by (cases ti)
  with enqueue have "intent_ok i" by (auto simp: all_ok_def list_all_iff)
  with enqueue ti show ?case by (simp add: all_ok_def submit_put_def list_all_remove1)
qed (auto simp: all_ok_def submit_check_def close_begin_def close_end_def split: if_splits)

lemma step_durable:
  assumes X: "ext_ok X"
  shows "seq_step X s s' \<Longrightarrow> all_ok s \<Longrightarrow> durable X s \<Longrightarrow> durable X s'"
proof (induction rule: seq_step.induct)
  case (thread s s')
  have same: "durable X s'" if "s_committed s' = s_committed s" "dk X (s_db s) (s_db s')"
    using that thread.prems by (auto simp: durable_def dk_def)
  show ?case
  proof (cases "s_pc s")
    case (Applying b rs todo)
    show ?thesis
    proof (cases todo)
      case Nil
      with thread Applying have s': "s' = publish b rs s" by (simp add: committer_def apply_next_def)
      have "length (aof_lines (e_disk (eng_flush (s_db s)))) = length (l_ops (e_log (s_db s)))"
        if "disk_ok X (s_db s)" "e_open (s_db s)"
      proof -
        from that obtain ls where "d_aof (e_disk (s_db s)) = Some ls"
          "map (\<lambda>l. aof_decode X l (e_dek (s_db s))) (ls @ e_buf (s_db s)) = map (op_line X) (l_ops (e_log (s_db s)))"
          by (auto simp: disk_ok_def)
        with that(2) map_eq_imp_length_eq[OF this(2)] show ?thesis by (simp add: eng_flush_def aof_lines_def)
      qed
      moreover have "e_open (eng_flush (s_db s)) = e_open (s_db s)" by (simp add: eng_flush_def)
      ultimately show ?thesis
        using thread.prems flush_dk[of X "s_db s"] by (simp add: s' durable_def dk_def eng_seq_def)
    next
      case (Cons x xs)
      have "s_committed s' = s_committed s \<and> dk X (s_db s) (s_db s')"
      proof (cases x)
        case Stop
        with thread Applying Cons show ?thesis by (auto simp: committer_def apply_next_def dk_refl)
      next
        case (Intent t i)
        with thread.prems Applying Cons have "intent_ok i" by (simp add: all_ok_def)
        from apply_one_dk[OF X this, of "s_db s"] thread.hyps Applying Cons Intent show ?thesis
          by (cases "apply_one X i (s_db s)") (auto simp: committer_def apply_next_def)
      qed
      then show ?thesis using same by blast
    qed
  next
    case Starting
    then have "s' = s\<lparr> s_db := (s_db s)\<lparr> e_defer := True \<rparr>, s_pc := Waiting \<rparr>"
      using thread by (simp add: committer_def)
    then show ?thesis using thread.prems by (simp add: durable_def disk_ok_def)
  qed (use thread in \<open>auto simp: committer_def fill_batch_def durable_def split: list.splits if_splits\<close>)
next
  case (check i t s s')
  then show ?case using submit_check_frame[OF check(2)] by (simp add: durable_def)
next
  case (joined s)
  then show ?case by (simp add: durable_def close_end_def eng_close_def)
qed (simp_all add: durable_def)

lemma run_durable:
  assumes X: "ext_ok X" and r: "seq_run X s s'" and s: "all_ok s" "durable X s"
  shows "durable X s'"
proof -
  have "all_ok s' \<and> durable X s'"
    using r s by (induction rule: rtranclp_induct) (auto intro: step_all_ok step_durable[OF X])
  then show ?thesis ..
qed

lemma durable_new:
  assumes "engine_ok X db" "e_buf db = []"
  shows "all_ok (seq_new mx db)" "durable X (seq_new mx db)"
  using assms
  by (auto simp: all_ok_def durable_def seq_new_def engine_ok_def disk_ok_def aof_lines_def eng_seq_def
      dest!: map_eq_imp_length_eq)

text \<open>What the file of a running sequencer holds.\<close>

lemma durable_lines:
  assumes "durable X s" "e_open (s_db s)"
  obtains ls where "d_aof (e_disk (s_db s)) = Some ls" "s_committed s < int (length ls)"
    "map (\<lambda>l. aof_decode X l (e_dek (s_db s))) ls = map (op_line X) (take (length ls) (l_ops (e_log (s_db s))))"
proof -
  from assms obtain ls where ls: "d_aof (e_disk (s_db s)) = Some ls"
    "map (\<lambda>l. aof_decode X l (e_dek (s_db s))) (ls @ e_buf (s_db s)) = map (op_line X) (l_ops (e_log (s_db s)))"
    "s_committed s < int (length ls)"
    by (auto simp: durable_def disk_ok_def aof_lines_def)
  from arg_cong[OF ls(2), of "take (length ls)"]
  have "map (\<lambda>l. aof_decode X l (e_dek (s_db s))) ls = map (op_line X) (take (length ls) (l_ops (e_log (s_db s))))"
    by (simp add: take_map)
  with ls(1,3) show ?thesis by (rule that)
qed

section \<open>A writer that loses the race with close\<close>

lemma stopped_step: "seq_step X s s' \<Longrightarrow> s_pc s = Stopped \<Longrightarrow> s_pc s' = Stopped \<and> s_done s' = s_done s"
  by (induction rule: seq_step.induct) (auto simp: committer_def submit_check_frame)

lemma stopped_run: "seq_run X s s' \<Longrightarrow> s_pc s = Stopped \<Longrightarrow> s_pc s' = Stopped \<and> s_done s' = s_done s"
  by (induction rule: rtranclp_induct) (auto dest: stopped_step)

text \<open>
  A writer passes the test of \<open>_closed\<close>; \<open>close\<close> sets it and enqueues the stop marker; the
  committer takes the marker and returns; the writer enqueues its intent and waits: nobody will
  ever set its event.
\<close>

definition lost_submit :: "nat \<Rightarrow> nat \<Rightarrow> intent \<Rightarrow> engine \<Rightarrow> seqr" where
  "lost_submit mx t i db =
     (seq_new mx db)\<lparr> s_db := db\<lparr> e_defer := True \<rparr>, s_q := [Intent t i], s_closed := True, s_pc := Stopped \<rparr>"

lemma lost_submit_reached:
  assumes "intent_ok i"
  shows "seq_run X (seq_new mx db) (lost_submit mx t i db)"
proof -
  let ?s0 = "seq_new mx db"
  let ?s1 = "?s0\<lparr> s_checked := [(t, i)] \<rparr>"
  let ?s2 = "?s1\<lparr> s_closed := True, s_q := [Stop] \<rparr>"
  let ?s3 = "?s2\<lparr> s_db := db\<lparr> e_defer := True \<rparr>, s_pc := Waiting \<rparr>"
  let ?s4 = "?s3\<lparr> s_q := [], s_pc := Stopped \<rparr>"
  have "submit_check t i ?s0 = Inr ?s1" by (simp add: submit_check_def seq_new_def)
  then have 1: "seq_step X ?s0 ?s1" by (rule seq_step.check[OF assms])
  have "close_begin ?s1 = ?s2" by (simp add: close_begin_def seq_new_def)
  then have 2: "seq_step X ?s1 ?s2" by (metis seq_step.close)
  have "committer X ?s2 = Some ?s3" by (simp add: committer_def seq_new_def)
  then have 3: "seq_step X ?s2 ?s3" by (rule seq_step.thread)
  have "committer X ?s3 = Some ?s4" by (simp add: committer_def)
  then have 4: "seq_step X ?s3 ?s4" by (rule seq_step.thread)
  have "submit_put (t, i) ?s4 = lost_submit mx t i db"
    by (simp add: submit_put_def lost_submit_def seq_new_def)
  moreover have "(t, i) \<in> set (s_checked ?s4)" by simp
  ultimately have 5: "seq_step X ?s4 (lost_submit mx t i db)" by (metis seq_step.enqueue)
  show ?thesis using 1 2 3 4 5 by (meson converse_rtranclp_into_rtranclp rtranclp.rtrancl_refl)
qed

lemma lost_submit_waits:
  "seq_run X (lost_submit mx t i db) s' \<Longrightarrow> submitted t s' = None"
  using stopped_run[of X "lost_submit mx t i db" s'] by (simp add: lost_submit_def seq_new_def submitted_def)

end
