(* ===== verification/Isolation.thy ===== *)
theory Isolation
  imports Sequencer
begin

text \<open>
  Queries through the sequencer: what a query pinned at a sequence number answers depends on the
  past up to that number only, so the commits that go on beside it do not show.
\<close>

definition same_past :: "int \<Rightarrow> engine \<Rightarrow> engine \<Rightarrow> bool" where
  "same_past n e e' \<longleftrightarrow>
     (\<forall>k. reads (store_of e') k (Some n) = reads (store_of e) k (Some n)) \<and>
     (\<forall>q. rel_read (m_rels (e_mat e')) q (Some n) = rel_read (m_rels (e_mat e)) q (Some n))"

lemma past_neighbors: "same_past n e e' \<Longrightarrow> eng_neighbors k r (Some n) e' = eng_neighbors k r (Some n) e"
  unfolding same_past_def eng_neighbors_def using rel_read_def by (metis rel_query.case(1))

lemma past_trav_nbs:
  assumes c: "same_past n e e'" and wf: "mv_wf (store_of e)" "mv_wf (store_of e')" and a: "q_as_of p = Some n"
  shows "trav_nbs p e' nbs seen = trav_nbs p e nbs seen"
  using c by (induction nbs arbitrary: seen) (auto simp: a mv_get_reads[OF wf(1)] mv_get_reads[OF wf(2)] same_past_def)

lemma past_trav_rows:
  assumes c: "same_past n e e'" and wf: "mv_wf (store_of e)" "mv_wf (store_of e')" and a: "q_as_of p = Some n"
  shows "trav_rows p e' r ks seen = trav_rows p e r ks seen"
  by (induction ks arbitrary: seen) (simp_all add: a past_neighbors[OF c] past_trav_nbs[OF c wf a])

lemma execute_past:
  assumes c: "same_past n e e'" and wf: "mv_wf (store_of e)" "mv_wf (store_of e')" and a: "q_as_of p = Some n"
    and s: "search_text p = None" and t: "q_trace p = None"
  shows "execute X p e' = execute X p e"
proof -
  have r: "(\<lambda>k. reads (store_of e') k (Some n)) = (\<lambda>k. reads (store_of e) k (Some n))"
    using c by (auto simp: same_past_def)
  have l: "set (live_keys (store_of e') (q_from p @ '':'') (Some n)) =
      set (live_keys (store_of e) (q_from p @ '':'') (Some n))"
    unfolding set_live_keys fun_cong[OF r] ..
  have ca: "candidates p e' = candidates p e"
    using candidates_scan[OF wf(1) s] candidates_scan[OF wf(2) s] l a by simp
  have ld: "load_rows X p e' ks = load_rows X p e ks" for ks
    unfolding load_rows_match[OF wf(1) s] load_rows_match[OF wf(2) s] a r ..
  have 1: "result_rows X p e' = result_rows X p e" unfolding result_rows_def ca ld ..
  have 3: "traverse_rows p e' = traverse_rows p e"
    by (intro ext) (simp add: traverse_rows_def past_trav_rows[OF c wf a] split: option.split)
  show ?thesis unfolding execute_def 1 3 by (simp add: trace_rows_def t)
qed

lemma query_isolation:
  assumes i: "seq_inv X s" and r: "seq_run X s s'" and p: "parse_nql nql = Inr p" "q_as_of p = None"
    and t: "search_text p = None" "q_trace p = None"
  shows "execute X (p\<lparr> q_as_of := Some (s_committed s) \<rparr>) (s_db s') = seq_query X nql s"
proof -
  have k: "keeps X (s_db s) (s_db s')" by (rule seq_run_keeps[OF r])
  have n: "s_committed s \<le> eng_seq (s_db s)" "hist_ok X (s_db s)" using i by (simp_all add: seq_inv_def)
  then have wf: "mv_wf (store_of (s_db s))" "mv_wf (store_of (s_db s'))"
    using k by (simp_all add: keeps_def hist_ok_def)
  have c: "same_past (s_committed s) (s_db s) (s_db s')"
    using k n by (simp add: same_past_def keeps_def mv_get_reads[OF wf(1)] mv_get_reads[OF wf(2)])
  have "execute X (p\<lparr> q_as_of := Some (s_committed s) \<rparr>) (s_db s') =
      execute X (p\<lparr> q_as_of := Some (s_committed s) \<rparr>) (s_db s)"
    by (rule execute_past[OF c wf]) (use t in \<open>simp_all add: search_text_def\<close>)
  then show ?thesis by (simp add: seq_query_def p pin_def)
qed

end
