(* ===== verification/Client.thy ===== *)
theory Client
  imports Runs
begin

text \<open>
  What the compatibility adapters share.  An adapter is a client of the engine: each of its
  methods is a sequence of engine calls.  A step of such a sequence runs in the state of the
  engine together with the number of calls made so far, which selects the surroundings
  (\<open>env\<close>) the next call sees; it returns a result or the exception raised, and the
  state either way.
\<close>

type_synonym ('w, 'a) prog = "'w \<Rightarrow> 'a res \<times> 'w"
type_synonym world = "nat \<times> engine"
type_synonym 'a step = "(world, 'a) prog"

definition retM :: "'a \<Rightarrow> ('w, 'a) prog" where
  "retM x w = (Inr x, w)"

definition raiseM :: "exn \<Rightarrow> ('w, 'a) prog" where
  "raiseM x w = (Inl x, w)"

definition bindM :: "('w, 'a) prog \<Rightarrow> ('a \<Rightarrow> ('w, 'b) prog) \<Rightarrow> ('w, 'b) prog" where
  "bindM m f w = (case m w of (Inl x, w') \<Rightarrow> (Inl x, w') | (Inr a, w') \<Rightarrow> f a w')"

definition liftM :: "'a res \<Rightarrow> ('w, 'a) prog" where
  "liftM r w = (r, w)"

definition readM :: "(engine \<Rightarrow> 'a res) \<Rightarrow> 'a step" where
  \<comment> \<open>a read that leaves the engine alone\<close>
  "readM f w = (f (snd w), w)"

definition callM :: "(nat \<Rightarrow> env) \<Rightarrow> (env \<Rightarrow> engine \<Rightarrow> 'a call) \<Rightarrow> 'a step" where
  "callM W f w = (case w of (n, e) \<Rightarrow> (case f (W n) e of (r, e') \<Rightarrow> (r, (Suc n, e'))))"

definition updM :: "(engine \<Rightarrow> 'a call) \<Rightarrow> 'a step" where
  \<comment> \<open>a call that reads nothing from its surroundings\<close>
  "updM f w = (case f (snd w) of (r, e') \<Rightarrow> (r, (fst w, e')))"

definition thenM :: "('w, 'a) prog \<Rightarrow> ('w, 'b) prog \<Rightarrow> ('w, 'b) prog" where
  "thenM m k = bindM m (\<lambda>_. k)"

fun mapM :: "('a \<Rightarrow> ('w, 'b) prog) \<Rightarrow> 'a list \<Rightarrow> ('w, 'b list) prog" where
  "mapM f [] = retM []"
| "mapM f (x # xs) = bindM (f x) (\<lambda>y. bindM (mapM f xs) (\<lambda>ys. retM (y # ys)))"

fun foldM :: "('a \<Rightarrow> 's \<Rightarrow> ('w, 's) prog) \<Rightarrow> 'a list \<Rightarrow> 's \<Rightarrow> ('w, 's) prog" where
  "foldM f [] s = retM s"
| "foldM f (x # xs) s = bindM (f x s) (foldM f xs)"

lemma bindM_simps [simp]:
  "bindM (retM x) f = f x" "bindM (raiseM e) f = raiseM e"
  by (simp_all add: fun_eq_iff bindM_def retM_def raiseM_def)

lemma stepM_Inr [simp]:
  "retM x w = (Inr y, w') \<longleftrightarrow> y = x \<and> w' = w"
  "raiseM ex w = (Inr y, w') \<longleftrightarrow> False"
  "liftM r w = (Inr y, w') \<longleftrightarrow> r = Inr y \<and> w' = w"
  by (auto simp: retM_def raiseM_def liftM_def)

lemma readM_Inr [simp]: "readM g w = (Inr y, w') \<longleftrightarrow> g (snd w) = Inr y \<and> w' = w"
  by (auto simp: readM_def)

lemma bindM_Inr:
  "bindM m f w = (Inr y, w') \<longleftrightarrow> (\<exists>x w1. m w = (Inr x, w1) \<and> f x w1 = (Inr y, w'))"
  by (cases "m w"; cases "fst (m w)") (auto simp: bindM_def)

lemma thenM_Inr:
  "thenM m k w = (Inr y, w') \<longleftrightarrow> (\<exists>x w1. m w = (Inr x, w1) \<and> k w1 = (Inr y, w'))"
  by (simp add: thenM_def bindM_Inr)

lemma callM_Inr:
  "callM W f w = (Inr y, w') \<longleftrightarrow>
     (\<exists>e'. f (W (fst w)) (snd w) = (Inr y, e') \<and> w' = (Suc (fst w), e'))"
  by (cases w; cases "f (W (fst w)) (snd w)") (auto simp: callM_def)

lemma updM_Inr: "updM f w = (Inr y, w') \<longleftrightarrow> (\<exists>e'. f (snd w) = (Inr y, e') \<and> w' = (fst w, e'))"
  by (cases "f (snd w)") (auto simp: updM_def)

section \<open>The calls adapters make\<close>

definition m_put :: "ext \<Rightarrow> (nat \<Rightarrow> env) \<Rightarrow> string \<Rightarrow> string \<Rightarrow> string \<Rightarrow> doc \<Rightarrow> doc option step" where
  \<comment> \<open>\<open>db.put(coll, id, doc, client=client)\<close>\<close>
  "m_put X W client coll i d = callM W (\<lambda>V. eng_put X V coll i d client None None None no_prov)"

definition m_get :: "ext \<Rightarrow> (nat \<Rightarrow> env) \<Rightarrow> string \<Rightarrow> string \<Rightarrow> doc option step" where
  \<comment> \<open>\<open>db.get(coll, id)\<close>\<close>
  "m_get X W coll i = callM W (\<lambda>V. eng_get X V coll i None)"

definition m_delete :: "ext \<Rightarrow> (nat \<Rightarrow> env) \<Rightarrow> string \<Rightarrow> string \<Rightarrow> string \<Rightarrow> unit step" where
  "m_delete X W client coll i = callM W (\<lambda>V. eng_delete X V coll i client None None)"

definition m_link :: "ext \<Rightarrow> (nat \<Rightarrow> env) \<Rightarrow> string \<Rightarrow> string \<Rightarrow> string \<Rightarrow> string \<Rightarrow> unit step" where
  "m_link X W client f r t = callM W (\<lambda>V. eng_link X V f r t client None)"

definition m_unlink :: "ext \<Rightarrow> (nat \<Rightarrow> env) \<Rightarrow> string \<Rightarrow> string \<Rightarrow> string \<Rightarrow> string \<Rightarrow> unit step" where
  "m_unlink X W client f r t = callM W (\<lambda>V. eng_unlink X V f r t client None)"

definition m_index :: "ext \<Rightarrow> string \<Rightarrow> string \<Rightarrow> string \<Rightarrow> unit step" where
  "m_index X coll f k = updM (eng_create_index X coll f k)"

definition m_query :: "ext \<Rightarrow> string \<Rightarrow> doc list step" where
  "m_query X nql = readM (eng_query X nql)"

definition m_execute :: "ext \<Rightarrow> plan \<Rightarrow> doc list step" where
  "m_execute X p = readM (execute X p)"

definition m_neighbors :: "string \<Rightarrow> string \<Rightarrow> string list step" where
  "m_neighbors f r = readM (\<lambda>e. Inr (eng_neighbors f r None e))"

text \<open>
  A database as an adapter sees it, whatever object stands behind the calls: the engine, or the
  sequencer of a served database.
\<close>

record 'w database =
  db_put :: "string \<Rightarrow> string \<Rightarrow> string \<Rightarrow> doc \<Rightarrow> ('w, doc option) prog" \<comment> \<open>client, collection, id\<close>
  db_get :: "string \<Rightarrow> string \<Rightarrow> ('w, doc option) prog"
  db_delete :: "string \<Rightarrow> string \<Rightarrow> string \<Rightarrow> ('w, unit) prog"
  db_link :: "string \<Rightarrow> string \<Rightarrow> string \<Rightarrow> string \<Rightarrow> ('w, unit) prog"
  db_unlink :: "string \<Rightarrow> string \<Rightarrow> string \<Rightarrow> string \<Rightarrow> ('w, unit) prog"
  db_neighbors :: "string \<Rightarrow> string \<Rightarrow> ('w, string list) prog"
  db_query :: "string \<Rightarrow> ('w, doc list) prog"

definition engine_db :: "ext \<Rightarrow> (nat \<Rightarrow> env) \<Rightarrow> world database" where
  "engine_db X W = \<lparr> db_put = m_put X W, db_get = m_get X W, db_delete = m_delete X W, db_link = m_link X W,
     db_unlink = m_unlink X W, db_neighbors = m_neighbors, db_query = m_query X \<rparr>"

lemma engine_db_simps [simp]:
  "db_put (engine_db X W) = m_put X W" "db_get (engine_db X W) = m_get X W"
  "db_delete (engine_db X W) = m_delete X W" "db_link (engine_db X W) = m_link X W"
  "db_unlink (engine_db X W) = m_unlink X W" "db_neighbors (engine_db X W) = m_neighbors"
  "db_query (engine_db X W) = m_query X"
  by (simp_all add: engine_db_def)

section \<open>Adapters only make engine calls\<close>

text \<open>
  \<open>yields X m P\<close>: from a sound engine, whenever the step returns, its result satisfies \<open>P\<close> and
  the engine has been changed by a sequence of successful calls; so all that holds of every run
  (the invariant, the immutable past) holds of it.
\<close>

definition yields :: "ext \<Rightarrow> 'a step \<Rightarrow> ('a \<Rightarrow> bool) \<Rightarrow> bool" where
  "yields X m P \<longleftrightarrow> (\<forall>w y w'. ext_ok X \<longrightarrow> engine_ok X (snd w) \<longrightarrow> m w = (Inr y, w') \<longrightarrow>
     P y \<and> api_run X (snd w) (snd w'))"

abbreviation runs :: "ext \<Rightarrow> 'a step \<Rightarrow> bool" where
  "runs X m \<equiv> yields X m (\<lambda>_. True)"

named_theorems runs_intros \<open>steps that are runs of the engine\<close>

lemma yieldsI:
  "(\<And>w y w'. ext_ok X \<Longrightarrow> engine_ok X (snd w) \<Longrightarrow> m w = (Inr y, w') \<Longrightarrow>
     P y \<and> api_run X (snd w) (snd w')) \<Longrightarrow> yields X m P"
  by (auto simp: yields_def)

lemmas runsI = yieldsI[where P = "\<lambda>_. True", simplified]

lemma yields_weaken: "yields X m P \<Longrightarrow> (\<And>y. P y \<Longrightarrow> Q y) \<Longrightarrow> yields X m Q"
  by (auto simp: yields_def)

lemma runs_base [runs_intros]:
  "runs X (retM x)" "runs X (raiseM ex)" "runs X (liftM r)" "runs X (readM g)"
  by (auto simp: yields_def)

lemma yields_ret: "P x \<Longrightarrow> yields X (retM x) P"
  by (auto simp: yields_def)

lemma yields_raise: "yields X (raiseM ex) P"
  by (auto simp: yields_def)

lemma yields_lift: "(\<And>y. r = Inr y \<Longrightarrow> P y) \<Longrightarrow> yields X (liftM r) P"
  by (auto simp: yields_def)

lemma yields_bind:
  assumes "yields X m P" "\<And>a. P a \<Longrightarrow> yields X (f a) Q"
  shows "yields X (bindM m f) Q"
proof (rule yieldsI)
  fix w y w' assume h: "ext_ok X" "engine_ok X (snd w)" and b: "bindM m f w = (Inr y, w')"
  from b obtain x w1 where m: "m w = (Inr x, w1)" "f x w1 = (Inr y, w')" by (auto simp: bindM_Inr)
  from assms(1) h m(1) have 1: "P x" "api_run X (snd w) (snd w1)" unfolding yields_def by blast+
  have "engine_ok X (snd w1)" by (rule run_ok[OF h(1) 1(2) h(2)])
  with assms(2)[OF 1(1)] h(1) m(2) have 2: "Q y" "api_run X (snd w1) (snd w')"
    unfolding yields_def by blast+
  from 1(2) 2 show "Q y \<and> api_run X (snd w) (snd w')" by (auto intro: rtranclp_trans)
qed

lemma runs_bind [runs_intros]: "runs X m \<Longrightarrow> (\<And>a. runs X (f a)) \<Longrightarrow> runs X (bindM m f)"
  by (rule yields_bind)

lemma runs_then [runs_intros]: "runs X m \<Longrightarrow> runs X k \<Longrightarrow> runs X (thenM m k)"
  unfolding thenM_def by (rule runs_bind)

lemma runs_call:
  assumes "\<And>n e y e'. f (W n) e = (Inr y, e') \<Longrightarrow> api_step X e e'"
  shows "runs X (callM W f)"
  by (rule runsI) (auto simp: callM_Inr intro!: r_into_rtranclp dest!: assms)

lemma runs_mapM [runs_intros]: "(\<And>x. x \<in> set xs \<Longrightarrow> runs X (f x)) \<Longrightarrow> runs X (mapM f xs)"
  by (induction xs) (auto intro!: runs_intros)

lemma runs_foldM [runs_intros]:
  "(\<And>x s. x \<in> set xs \<Longrightarrow> runs X (f x s)) \<Longrightarrow> runs X (foldM f xs s)"
  by (induction xs arbitrary: s) (auto intro!: runs_intros)

lemma runs_reads [runs_intros]:
  "runs X (m_query X nql)" "runs X (m_execute X p)" "runs X (m_neighbors f r)"
  by (simp_all add: m_query_def m_execute_def m_neighbors_def runs_intros)

lemma runs_put [runs_intros]:
  assumes "\<And>n. env_ok (W n)" "good_coll coll" "pv_ok (PDict d)"
  shows "runs X (m_put X W client coll i d)"
  unfolding m_put_def by (rule runs_call, rule api_step.put[OF assms(1-3) prov_ok_none])

lemma runs_get [runs_intros]:
  assumes "\<And>n. env_ok (W n)" "good_coll coll"
  shows "runs X (m_get X W coll i)"
  unfolding m_get_def by (rule runs_call, rule api_step.get[OF assms])

lemma runs_delete [runs_intros]:
  assumes "\<And>n. env_ok (W n)" "good_coll coll"
  shows "runs X (m_delete X W client coll i)"
  unfolding m_delete_def by (rule runs_call) (rule api_step.delete[OF assms], simp)

lemma runs_link [runs_intros]:
  assumes "\<And>n. env_ok (W n)"
  shows "runs X (m_link X W client f r t)"
  unfolding m_link_def by (rule runs_call) (rule api_step.link[OF assms], simp)

lemma runs_unlink [runs_intros]:
  assumes "\<And>n. env_ok (W n)"
  shows "runs X (m_unlink X W client f r t)"
  unfolding m_unlink_def by (rule runs_call) (rule api_step.unlink[OF assms], simp)

lemma runs_index [runs_intros]: "good_coll coll \<Longrightarrow> runs X (m_index X coll f k)"
  unfolding m_index_def
  by (rule runsI) (auto simp: updM_Inr intro!: r_into_rtranclp intro: api_step.create_index)

lemma runs_ok:
  assumes "yields X m P" "ext_ok X" "m w = (Inr y, w')" "engine_ok X (snd w)"
  shows "engine_ok X (snd w')" "grows (snd w) (snd w')" "P y"
proof -
  have r: "P y \<and> api_run X (snd w) (snd w')" using assms unfolding yields_def by blast
  show "engine_ok X (snd w')" by (rule run_ok[OF assms(2) conjunct2[OF r] assms(4)])
  show "grows (snd w) (snd w')" by (rule run_grows[OF conjunct2[OF r]])
  show "P y" using r ..
qed

end
