(* ===== verification/Collections.thy ===== *)
theory Collections
  imports Client NqlText
begin

text \<open>
  A collection as a table of documents by id, the interface the compatibility adapters rely on:
  \<open>get\<close> returns the document at an id, \<open>put\<close> stores one there with the fields the engine adds,
  \<open>del\<close> removes it, and nothing else of the database changes.  \<open>cells\<close> extends it to the
  tables whose documents hold one text in the field \<open>_v\<close>, as Redis strings and hashes do.
  Both are interpreted on the engine.
\<close>

section \<open>Documents as stored\<close>

definition lasting :: "doc \<Rightarrow> bool" where
  \<comment> \<open>a document that never expires\<close>
  "lasting d \<longleftrightarrow> doc_get d ''_expires_at'' = PNone"

definition stored_as :: "string \<Rightarrow> doc \<Rightarrow> doc \<Rightarrow> bool" where
  "stored_as i d d' \<longleftrightarrow> (\<exists>q now. d' = stamp q (put_doc i d now None no_prov))"

lemma stored_fields:
  assumes "stored_as i d d'"
  shows "f \<noteq> ''_seq'' \<Longrightarrow> f \<noteq> ''_id'' \<Longrightarrow> map_of d' f = map_of d f"
    "map_of d' ''_id'' = Some (dget d ''_id'' (PStr i))"
    "\<exists>q. map_of d' ''_seq'' = Some (PInt q)"
  using assms
  by (auto simp: stored_as_def stamp_def put_doc_def no_prov_def set_opt_def embed_ttl_def
      setdefault_def dget_def map_add_def split: option.splits)

lemma stored_get: "stored_as i d d' \<Longrightarrow> f \<noteq> ''_seq'' \<Longrightarrow> f \<noteq> ''_id'' \<Longrightarrow> doc_get d' f = doc_get d f"
  by (simp add: doc_get_def dget_def stored_fields)

lemma stored_lasting: "stored_as i d d' \<Longrightarrow> lasting d \<Longrightarrow> lasting d'"
  by (simp add: lasting_def stored_get)

section \<open>Tables of documents\<close>

locale doc_table =
  fixes view :: "engine \<Rightarrow> string \<Rightarrow> doc option"
    and rest :: "engine \<Rightarrow> 'r"
    and get :: "string \<Rightarrow> doc option step"
    and put :: "string \<Rightarrow> doc \<Rightarrow> doc option step"
    and del :: "string \<Rightarrow> unit step"
    and ready :: "engine \<Rightarrow> bool"
  assumes get_law: "get i w = (Inr r, w') \<Longrightarrow> (\<forall>j d. view (snd w) j = Some d \<longrightarrow> lasting d) \<Longrightarrow>
      r = view (snd w) i \<and> snd w' = snd w"
    and put_law: "put i d w = (Inr r, w') \<Longrightarrow>
      \<exists>d'. r = Some d' \<and> stored_as i d d' \<and> view (snd w') = (view (snd w))(i \<mapsto> d') \<and>
        rest (snd w') = rest (snd w)"
    and del_law: "del i w = (Inr u, w') \<Longrightarrow>
      view (snd w') = (view (snd w))(i := None) \<and> rest (snd w') = rest (snd w)"
    and get_live: "(\<forall>j d. view (snd w) j = Some d \<longrightarrow> lasting d) \<Longrightarrow> \<exists>r w'. get i w = (Inr r, w')"
    and put_live: "ready (snd w) \<Longrightarrow> \<exists>r w'. put i d w = (Inr r, w') \<and> ready (snd w')"
    and del_live: "ready (snd w) \<Longrightarrow> \<exists>w'. del i w = (Inr (), w') \<and> ready (snd w')"
begin

definition keeps :: "engine \<Rightarrow> bool" where
  \<comment> \<open>no document of the table expires\<close>
  "keeps e \<longleftrightarrow> (\<forall>i d. view e i = Some d \<longrightarrow> lasting d)"

lemma get_keeps:
  assumes "get i w = (Inr r, w')" "keeps (snd w)"
  shows "r = view (snd w) i" "snd w' = snd w"
  using get_law[OF assms(1)] assms(2) by (auto simp: keeps_def)

lemma put_keeps: "put i d w = (Inr r, w') \<Longrightarrow> keeps (snd w) \<Longrightarrow> lasting d \<Longrightarrow> keeps (snd w')"
  using stored_lasting by (fastforce simp: keeps_def dest!: put_law)

lemma del_keeps: "del i w = (Inr u, w') \<Longrightarrow> keeps (snd w) \<Longrightarrow> keeps (snd w')"
  by (drule del_law) (auto simp: keeps_def)

text \<open>Insert unless present, as \<open>insert_one\<close> and \<open>SETNX\<close> do, and look the document up.\<close>

lemma get_then_put:
  assumes "bindM (get i) (\<lambda>old. if old \<noteq> None then bad else bindM (put i d) (\<lambda>x. retM (f x))) w = (Inr r, w')"
    "bad = raiseM ex" "keeps (snd w)"
  shows "view (snd w) i = None \<and> (\<exists>d'. r = f (Some d') \<and> stored_as i d d' \<and>
    view (snd w') = (view (snd w))(i \<mapsto> d') \<and> rest (snd w') = rest (snd w))"
proof -
  from assms(1) obtain old w1 where g: "get i w = (Inr old, w1)"
    and k: "(if old \<noteq> None then bad else bindM (put i d) (\<lambda>x. retM (f x))) w1 = (Inr r, w')"
    by (auto simp: bindM_Inr)
  from get_keeps[OF g assms(3)] have o: "old = view (snd w) i" "snd w1 = snd w" .
  with k assms(2) have n: "view (snd w) i = None" by (auto split: if_splits)
  with k o obtain x where p: "put i d w1 = (Inr x, w')" "r = f x" by (auto simp: bindM_Inr)
  from put_law[OF p(1)] p(2) n o(2) show ?thesis by auto
qed

lemma get_then_put_present:
  assumes "get i w = (Inr old, w1)" "keeps (snd w)" "view (snd w) i \<noteq> None"
  shows "bindM (get i) (\<lambda>old. if old \<noteq> None then raiseM ex else k) w = (Inl ex, w1)" "snd w1 = snd w"
  using get_keeps[OF assms(1,2)] assms by (simp_all add: bindM_def raiseM_def)

text \<open>Deleting the documents of a list of ids.\<close>

lemma del_all:
  assumes "mapM del ks w = (Inr us, w')"
  shows "view (snd w') = (\<lambda>i. if i \<in> set ks then None else view (snd w) i)" "rest (snd w') = rest (snd w)"
proof -
  have "view (snd w') = (\<lambda>i. if i \<in> set ks then None else view (snd w) i) \<and> rest (snd w') = rest (snd w)"
    using assms
  proof (induction ks arbitrary: w us)
    case (Cons k ks)
    from Cons.prems obtain u w1 us' where "del k w = (Inr u, w1)" "mapM del ks w1 = (Inr us', w')"
      by (auto simp: bindM_Inr)
    with Cons.IH[of w1 us'] del_law[of k w u w1] show ?case by (auto simp: fun_eq_iff)
  qed simp
  then show "view (snd w') = (\<lambda>i. if i \<in> set ks then None else view (snd w) i)"
    "rest (snd w') = rest (snd w)" by simp_all
qed

end

section \<open>Tables of texts\<close>

definition cell_doc :: "string \<Rightarrow> doc" where
  \<comment> \<open>\<open>{"_v": value}\<close>\<close>
  "cell_doc s = [(''_v'', PStr s)]"

definition cell_of :: "doc \<Rightarrow> string option" where
  "cell_of d = (case map_of d ''_v'' of Some (PStr s) \<Rightarrow> Some s | _ \<Rightarrow> None)"

lemma cell_doc_lasting [simp]: "lasting (cell_doc s)"
  by (simp add: lasting_def cell_doc_def doc_get_def dget_def)

lemma cell_doc_stored: "stored_as i (cell_doc s) d \<Longrightarrow> cell_of d = Some s"
  by (simp add: cell_of_def stored_fields(1)) (simp add: cell_doc_def)

locale cells = doc_table
begin

text \<open>Every document is a lasting one with a text; the table then is a map to texts.\<close>

definition wf :: "engine \<Rightarrow> bool" where
  "wf e \<longleftrightarrow> keeps e \<and> (\<forall>i d. view e i = Some d \<longrightarrow> cell_of d \<noteq> None)"

definition texts :: "engine \<Rightarrow> string \<Rightarrow> string option" where
  "texts e i = (case view e i of None \<Rightarrow> None | Some d \<Rightarrow> cell_of d)"

lemma texts_None: "wf e \<Longrightarrow> view e i = None \<longleftrightarrow> texts e i = None"
  by (auto simp: wf_def texts_def split: option.splits)

lemma get_cell:
  assumes "get i w = (Inr r, w')" "wf (snd w)"
  shows "snd w' = snd w" "r = None \<longleftrightarrow> texts (snd w) i = None"
    "r = Some d \<Longrightarrow> \<exists>s. texts (snd w) i = Some s \<and> map_of d ''_v'' = Some (PStr s)"
proof -
  have k: "keeps (snd w)" using assms(2) by (simp add: wf_def)
  show "snd w' = snd w" by (rule get_keeps(2)[OF assms(1) k])
  show "r = None \<longleftrightarrow> texts (snd w) i = None"
    using get_keeps(1)[OF assms(1) k] texts_None[OF assms(2)] by simp
  show "r = Some d \<Longrightarrow> \<exists>s. texts (snd w) i = Some s \<and> map_of d ''_v'' = Some (PStr s)"
  proof -
    assume d: "r = Some d"
    then have v: "view (snd w) i = Some d" using get_keeps(1)[OF assms(1) k] by simp
    with assms(2) obtain s where "cell_of d = Some s" by (auto simp: wf_def)
    with v show "\<exists>s. texts (snd w) i = Some s \<and> map_of d ''_v'' = Some (PStr s)"
      by (auto simp: texts_def cell_of_def split: option.splits pyval.splits)
  qed
qed

lemma put_cell:
  assumes "put i (cell_doc s) w = (Inr r, w')" "wf (snd w)"
  shows "wf (snd w')" "texts (snd w') = (texts (snd w))(i \<mapsto> s)" "rest (snd w') = rest (snd w)"
proof -
  from put_law[OF assms(1)] obtain d' where d: "stored_as i (cell_doc s) d'"
    "view (snd w') = (view (snd w))(i \<mapsto> d')" and "rest (snd w') = rest (snd w)" by blast
  then show "rest (snd w') = rest (snd w)" by simp
  show "wf (snd w')"
    using put_keeps[OF assms(1)] assms(2) cell_doc_stored[OF d(1)] by (auto simp: wf_def d(2))
  show "texts (snd w') = (texts (snd w))(i \<mapsto> s)"
    using cell_doc_stored[OF d(1)] by (auto simp: texts_def d(2))
qed

lemma del_cell:
  assumes "del i w = (Inr u, w')" "wf (snd w)"
  shows "wf (snd w')" "texts (snd w') = (texts (snd w))(i := None)" "rest (snd w') = rest (snd w)"
  using del_law[OF assms(1)] del_keeps[OF assms(1)] assms(2)
  by (auto simp: wf_def texts_def fun_eq_iff)

text \<open>
  \<open>maps w w' m\<close>: from \<open>w\<close> the database has come to \<open>w'\<close>, where the table is the map \<open>m\<close>, is ready for
  more, and nothing outside it has changed.
\<close>

definition maps :: "world \<Rightarrow> world \<Rightarrow> (string \<Rightarrow> string option) \<Rightarrow> bool" where
  "maps w w' m \<longleftrightarrow> wf (snd w') \<and> ready (snd w') \<and> texts (snd w') = m \<and> rest (snd w') = rest (snd w)"

lemma maps_refl: "wf (snd w) \<Longrightarrow> ready (snd w) \<Longrightarrow> maps w w (texts (snd w))"
  by (simp add: maps_def)

lemma get_at:
  assumes "maps w0 w m"
  shows "\<exists>r w'. get i w = (Inr r, w') \<and> maps w0 w' m \<and> (r = None \<longleftrightarrow> m i = None) \<and>
    (\<forall>d. r = Some d \<longrightarrow> (\<exists>s. m i = Some s \<and> map_of d ''_v'' = Some (PStr s)))"
proof -
  note a = assms[unfolded maps_def]
  then have "keeps (snd w)" by (simp add: wf_def)
  then obtain r w' where g: "get i w = (Inr r, w')" using get_live[of w i] by (auto simp: keeps_def)
  have wf: "wf (snd w)" using a by simp
  show ?thesis
    by (rule exI[of _ r], rule exI[of _ w']) (use g a get_cell[OF g wf] in \<open>auto simp: maps_def\<close>)
qed

lemma put_at:
  assumes "maps w0 w m"
  shows "\<exists>r w'. put i (cell_doc s) w = (Inr r, w') \<and> maps w0 w' (m(i \<mapsto> s))"
proof -
  from put_live[of w i "cell_doc s"] assms obtain r w' where
    p: "put i (cell_doc s) w = (Inr r, w')" "ready (snd w')" by (auto simp: maps_def)
  have "wf (snd w)" using assms by (simp add: maps_def)
  from put_cell[OF p(1) this] p assms show ?thesis by (auto simp: maps_def)
qed

lemma del_at:
  assumes "maps w0 w m"
  shows "\<exists>w'. del i w = (Inr (), w') \<and> maps w0 w' (m(i := None))"
proof -
  from del_live[of w i] assms obtain w' where
    p: "del i w = (Inr (), w')" "ready (snd w')" by (auto simp: maps_def)
  have "wf (snd w)" using assms by (simp add: maps_def)
  from del_cell[OF p(1) this] p assms show ?thesis by (auto simp: maps_def)
qed

end

section \<open>The engine provides them\<close>

definition live_doc :: "string \<Rightarrow> engine \<Rightarrow> string \<Rightarrow> doc option" where
  "live_doc c e i = reads (store_of e) (doc_key c i) None"

type_synonym others = "(string \<Rightarrow> doc option) \<times> rels"

definition outside :: "string \<Rightarrow> engine \<Rightarrow> others" where
  \<comment> \<open>the documents of all other collections, and the relations\<close>
  "outside c e =
     (\<lambda>k. if starts_with (c @ '':'') k then None else reads (store_of e) k None, m_rels (e_mat e))"

lemma outside_doc_key [simp]: "starts_with (c @ '':'') (doc_key c i)"
  unfolding starts_doc_key by blast

lemma put_rels:
  assumes p: "eng_put X V coll i d client nonce None ttl pr e = (Inr r, e')"
  shows "m_rels (e_mat e') = m_rels (e_mat e)"
proof -
  obtain n e1 where n: "pick_nonce client nonce e = (n, e1)" by (cases "pick_nonce client nonce e")
  let ?d = "put_doc i d (v_now V) ttl pr"
  from p n have "commit X (v_ts V 0) (v_rand V 0) client n ''put'' (put_payload coll i ?d) None pr e1 = (Inr (), e')"
    by (auto simp: eng_put_def Let_def bindC_Inr)
  from logged_store[OF commit_logged[OF this]] pick_nonce_frame(3)[OF n] show ?thesis
    by (auto simp: rel_event_of_def)
qed

lemma delete_rels:
  assumes p: "eng_delete X V coll i client nonce None e = (Inr (), e')"
  shows "m_rels (e_mat e') = m_rels (e_mat e)"
proof -
  obtain n e1 where n: "pick_nonce client nonce e = (n, e1)" by (cases "pick_nonce client nonce e")
  from p n have "commit X (v_ts V 0) (v_rand V 0) client n ''delete'' (delete_payload coll i) None no_prov e1 = (Inr (), e')"
    by (auto simp: eng_delete_def)
  from logged_store[OF commit_logged[OF this]] pick_nonce_frame(3)[OF n] show ?thesis
    by (auto simp: rel_event_of_def)
qed

lemma get_lasting:
  assumes "eng_get X V coll i None e = (Inr r, e')" "\<And>d. live_doc coll e i = Some d \<Longrightarrow> lasting d"
  shows "r = live_doc coll e i" "e' = e"
  using assms
  by (auto simp: eng_get_def check_ttl_def live_doc_def lasting_def Let_def split: option.splits sum.splits if_splits)

text \<open>A call that draws its nonce succeeds on a database without indexes.\<close>

definition steady :: "engine \<Rightarrow> bool" where
  "steady e \<longleftrightarrow> nonce_sync e \<and> m_ix (e_mat e) = ix_init"

lemma steady_new: "steady (engine_new path dek d)"
  by (simp add: steady_def nonce_sync_new) (simp add: engine_new_def mat_init_def)

lemma commit_live:
  assumes y: "steady e" and n: "pick_nonce client None e = (n, e1)"
    and g: "\<And>r. o_op r = op \<Longrightarrow> o_payload r = pl \<Longrightarrow> good_op r"
  shows "\<exists>e'. commit X ts rnd client n op pl None pr e1 = (Inr (), e') \<and> steady e'"
proof -
  from pick_auto[OF n] have n': "n = dget (e_nonce e) client 0 + 1"
    and e1: "e1 = e\<lparr> e_nonce := dset client n (e_nonce e) \<rparr>" by auto
  have "\<not> n \<le> dget (l_last (e_log e1)) client 0"
    using y[unfolded steady_def nonce_sync_def, THEN conjunct1, rule_format, of client] n' by (simp add: e1)
  then obtain r l where l: "log_append X client n op pl None ts pr (e_log e1) = Inr (r, True, l)"
    "o_op r = op" "o_payload r = pl"
    by (auto simp: log_append_def Let_def)
  then obtain e2 where a: "eng_append X ts rnd client n op pl None pr e1 = (Inr (r, True), e2)"
    using that by (cases "e_open e1"; cases "e_defer e1") (simp_all add: eng_append_def Let_def)
  have "m_ix (e_mat e2) = ix_init"
    using append_log(2)[OF a] y by (simp add: e1 steady_def)
  from apply_op_total[OF g[OF l(2,3)] this] obtain m where
    m: "apply_op True r (e_mat e2) = (None, m)" "m_ix m = ix_init" by blast
  have c: "commit X ts rnd client n op pl None pr e1 = (Inr (), e2\<lparr> e_mat := m \<rparr>)"
    using a m(1) by (simp add: commit_def eng_fold_def)
  have "nonce_sync (e2\<lparr> e_mat := m \<rparr>)"
    using commit_sync[OF _ n c] y by (simp add: steady_def)
  with c m(2) show ?thesis by (simp add: steady_def)
qed

lemma put_steady:
  assumes y: "steady e" and c: "good_coll coll"
  shows "\<exists>r e'. eng_put X V coll i d client None None ttl pr e = (Inr r, e') \<and> steady e'"
proof -
  obtain n e1 where n: "pick_nonce client None e = (n, e1)" by (cases "pick_nonce client None e")
  have g: "good_op r" if "o_op r = ''put''" "o_payload r = put_payload coll i d'" for r d'
    unfolding good_op_def that using c by auto
  from commit_live[OF y n g[where d' = "put_doc i d (v_now V) ttl pr"], where X = X and ts = "v_ts V 0"
      and rnd = "v_rand V 0" and pr = pr] obtain e2 where
    "commit X (v_ts V 0) (v_rand V 0) client n ''put'' (put_payload coll i (put_doc i d (v_now V) ttl pr)) None pr e1
      = (Inr (), e2)" "steady e2" by auto
  with n show ?thesis by (simp add: eng_put_def Let_def)
qed

lemma delete_steady:
  assumes y: "steady e" and c: "good_coll coll"
  shows "\<exists>e'. eng_delete X V coll i client None None e = (Inr (), e') \<and> steady e'"
proof -
  obtain n e1 where n: "pick_nonce client None e = (n, e1)" by (cases "pick_nonce client None e")
  have g: "good_op r" if "o_op r = ''delete''" "o_payload r = delete_payload coll i" for r
    unfolding good_op_def that using c by auto
  from commit_live[OF y n g, where X = X and ts = "v_ts V 0" and rnd = "v_rand V 0" and pr = no_prov] n show ?thesis
    by (simp add: eng_delete_def)
qed

lemma get_live_doc:
  assumes "\<And>d. live_doc coll e i = Some d \<Longrightarrow> lasting d"
  shows "eng_get X V coll i None e = (Inr (live_doc coll e i), e)"
  using assms
  by (cases "visible (history (store_of e) (doc_key coll i))")
    (auto simp: eng_get_def check_ttl_def live_doc_def lasting_def Let_def)

definition ready_for :: "string \<Rightarrow> engine \<Rightarrow> bool" where
  "ready_for c e \<longleftrightarrow> steady e \<and> good_coll c"

interpretation tab: doc_table "live_doc c" "outside c" "m_get X W c" "m_put X W client c" "m_delete X W client c"
  "ready_for c"
proof (unfold_locales, goal_cases)
  case (1 i w r w')
  then obtain e' where g: "eng_get X (W (fst w)) c i None (snd w) = (Inr r, e')"
    and w': "w' = (Suc (fst w), e')" by (auto simp: m_get_def callM_Inr)
  from get_lasting[OF g] 1(2) w' show ?case by auto
next
  case (2 i d w r w')
  then obtain e' where p: "eng_put X (W (fst w)) c i d client None None None no_prov (snd w) = (Inr r, e')"
    and w': "w' = (Suc (fst w), e')" by (auto simp: m_put_def callM_Inr)
  note e = put_effect[OF p]
  have "stored_as i d (stamp (eng_seq (snd w) + 1) (put_doc i d (v_now (W (fst w))) None no_prov))"
    unfolding stored_as_def by blast
  then show ?case
    using put_rels[OF p] by (auto simp: e(1) w' live_doc_def outside_def fun_eq_iff e(2) simp del: reads_head)
next
  case (3 i w u w')
  then obtain e' where p: "eng_delete X (W (fst w)) c i client None None (snd w) = (Inr (), e')"
    and w': "w' = (Suc (fst w), e')" by (auto simp: m_delete_def callM_Inr)
  from delete_rels[OF p] show ?case
    by (auto simp: w' live_doc_def outside_def fun_eq_iff delete_effect[OF p] simp del: reads_head)
next
  case (4 w i)
  have "eng_get X (W (fst w)) c i None (snd w) = (Inr (live_doc c (snd w) i), snd w)"
    by (rule get_live_doc) (use 4 in blast)
  then show ?case by (simp add: m_get_def callM_Inr)
next
  case (5 w i d)
  then show ?case
    using put_steady[of "snd w" c X "W (fst w)" i d client None no_prov]
    by (auto simp: m_put_def callM_Inr ready_for_def)
next
  case (6 w i)
  then show ?case
    using delete_steady[of "snd w" c X "W (fst w)" i client]
    by (auto simp: m_delete_def callM_Inr ready_for_def)
qed

interpretation cell: cells "live_doc c" "outside c" "m_get X W c" "m_put X W client c" "m_delete X W client c"
  "ready_for c"
  by unfold_locales

text \<open>The table of texts of a collection, written out.\<close>

definition cell_texts :: "string \<Rightarrow> engine \<Rightarrow> string \<Rightarrow> string option" where
  "cell_texts c e i = (case live_doc c e i of None \<Rightarrow> None | Some d \<Rightarrow> cell_of d)"

definition cell_wf :: "string \<Rightarrow> engine \<Rightarrow> bool" where
  "cell_wf c e \<longleftrightarrow> (\<forall>i d. live_doc c e i = Some d \<longrightarrow> lasting d \<and> cell_of d \<noteq> None)"

definition holds :: "string \<Rightarrow> world \<Rightarrow> world \<Rightarrow> (string \<Rightarrow> string option) \<Rightarrow> bool" where
  \<comment> \<open>from \<open>w\<close> the database has come to \<open>w'\<close>, where the collection is the map \<open>m\<close>, and nothing
    outside it has changed\<close>
  "holds c w w' m \<longleftrightarrow> cell_wf c (snd w') \<and> steady (snd w') \<and> good_coll c \<and>
     cell_texts c (snd w') = m \<and> outside c (snd w') = outside c (snd w)"

lemma holds_maps: "holds c = cells.maps (live_doc c) (outside c) (ready_for c)"
  by (intro ext) (auto simp: holds_def cell.maps_def cell.wf_def tab.keeps_def cell.texts_def ready_for_def
      cell_wf_def cell_texts_def fun_eq_iff)

lemma holds_get:
  "holds c w0 w m \<Longrightarrow> \<exists>r w'. m_get X W c i w = (Inr r, w') \<and> holds c w0 w' m \<and> (r = None \<longleftrightarrow> m i = None) \<and>
    (\<forall>d. r = Some d \<longrightarrow> (\<exists>s. m i = Some s \<and> map_of d ''_v'' = Some (PStr s)))"
  unfolding holds_maps by (rule cell.get_at)

lemma holds_put:
  "holds c w0 w m \<Longrightarrow> \<exists>r w'. m_put X W client c i (cell_doc s) w = (Inr r, w') \<and> holds c w0 w' (m(i \<mapsto> s))"
  unfolding holds_maps by (rule cell.put_at)

lemma holds_del:
  "holds c w0 w m \<Longrightarrow> \<exists>w'. m_delete X W client c i w = (Inr (), w') \<and> holds c w0 w' (m(i := None))"
  unfolding holds_maps by (rule cell.del_at)

section \<open>Reading a whole collection\<close>

lemma next_token_word_end:
  assumes "lexeme w"
  shows "next_token w = Some (Some (word_tok w), [])"
proof -
  obtain c w' where w: "w = c # w'" "word_start c" using assms by (cases w) (auto simp: lexeme_def)
  note c = word_start_not[OF w(2)]
  have "lex_unsigned (c # t) = None" for t
    using c(2) by (simp add: lex_unsigned_def lex_digits_def)
  then have "lex_number w = None" using c by (simp add: w lex_number_def)
  moreover have "lex_op w = None"
    using c(3) by (auto simp: lex_op_def starts_with_def w)
  moreover have "takeWhile word_char w = w" "dropWhile word_char w = []"
    using assms by (simp_all add: lexeme_def list_all_iff)
  ultimately show ?thesis
    using c w by (simp add: next_token_def lex_quoted_def)
qed

lemma name_word_tok: "name_ok n \<Longrightarrow> lexeme n \<and> word_tok n = name_to_tok n"
  using keyword_lexeme by (auto simp: name_ok_def name_to_tok_def word_tok_def Let_def)

lemma parse_from:
  assumes "name_ok c"
  shows "parse_nql (''FROM '' @ c) = Inr (empty_plan c)"
proof -
  have f: "lexeme ''FROM''" "word_tok ''FROM'' = TKw ''from''" "is_space (CHR '' '')" by code_simp+
  note c = name_word_tok[OF assms]
  have "c \<noteq> []" "\<not> is_space (hd c)"
    using c word_start_not(1) by (cases c; simp add: lexeme_def)+
  then have "next_token (CHR '' '' # c) = Some (None, c)"
    using f(3) by (cases c) (simp_all add: next_token_def)
  moreover have "next_token (''FROM '' @ c) = Some (Some (TKw ''from''), CHR '' '' # c)"
    using next_token_word[OF f(1), of c] f(2) by simp
  moreover have "nql_lex c = Inr [name_to_tok c]"
    using next_token_word_end[of c] c \<open>c \<noteq> []\<close> by (subst nql_lex.simps) (simp add: nql_lex.simps[of "[]"])
  ultimately have "nql_lex (''FROM '' @ c) = Inr [TKw ''from'', name_to_tok c]"
    by (subst nql_lex.simps, simp, subst nql_lex.simps) simp
  moreover have "plan_toks (empty_plan c) = [TKw ''from'', name_to_tok c]"
    by (simp add: plan_toks_def empty_plan_def where_toks_def)
  moreover have "plan_ok (empty_plan c)" using assms by (simp add: plan_ok_def empty_plan_def)
  ultimately show ?thesis using parse_plan_toks[of "empty_plan c"] by (simp add: parse_nql_def)
qed

definition plain_plan :: "string \<Rightarrow> (string \<times> string \<times> pyval) list \<Rightarrow> plan" where
  "plain_plan c ws = (empty_plan c)\<lparr> q_where := ws \<rparr>"

lemma execute_plain: "execute X (plain_plan c ws) e = bindE (result_rows X (plain_plan c ws) e) (\<lambda>rs. Inr (map snd rs))"
  by (cases "result_rows X (plain_plan c ws) e")
    (simp_all add: execute_def plain_plan_def empty_plan_def order_rows_def traverse_rows_def trace_rows_def
      valid_rows_def group_rows_def py_take_def)

text \<open>The rows are the documents of the collection that satisfy the conditions, each once.\<close>

lemma execute_rows:
  assumes "engine_ok X e" "iter_ok X" "good_coll c" "keyed ws"
  shows "\<exists>rs. execute X (plain_plan c ws) e = Inr (map snd rs) \<and> distinct (map fst rs) \<and>
    set rs = {(k, d). starts_with (c @ '':'') k \<and> reads (store_of e) k None = Some d \<and> where_ok ws d}"
proof -
  have p: "q_from (plain_plan c ws) = c" "search_text (plain_plan c ws) = None"
    "q_where (plain_plan c ws) = ws" "q_as_of (plain_plan c ws) = None"
    by (simp_all add: plain_plan_def empty_plan_def search_text_def)
  from result_rows_matches[OF assms(1,2), of "plain_plan c ws"] assms(3,4) show ?thesis
    by (auto simp: p execute_plain matches_def)
qed

lemma execute_good:
  assumes "engine_ok X e" "execute X (plain_plan c ws) e = Inr ds"
  shows "list_all (\<lambda>d. pv_ok (PDict d)) ds"
proof -
  let ?p = "plain_plan c ws"
  have s: "search_text ?p = None" "q_as_of ?p = None" by (simp_all add: plain_plan_def empty_plan_def search_text_def)
  from assms(2) obtain ks where "ds = map snd (List.map_filter (match_row ?p (\<lambda>k. reads (store_of e) k None)) ks)"
    by (auto simp: execute_plain bindE_eq_Inr result_rows_def load_rows_match[OF eng_mat(1)[OF assms(1)] s(1)] s(2)
        simp del: reads_head)
  then show ?thesis
    using head_doc(2)[OF assms(1)]
    by (auto simp: list_all_iff set_match_rows simp del: pv_ok.simps)
qed

lemma query_rows:
  assumes "engine_ok X e" "iter_ok X" "good_coll c" "name_ok c"
  shows "\<exists>rs. eng_query X (''FROM '' @ c) e = Inr (map snd rs) \<and> distinct (map fst rs) \<and>
    set rs = {(k, d). starts_with (c @ '':'') k \<and> reads (store_of e) k None = Some d}"
proof -
  have "plain_plan c [] = empty_plan c" by (simp add: plain_plan_def empty_plan_def)
  with execute_rows[OF assms(1-3), of "[]"] show ?thesis
    by (simp add: eng_query_def parse_from[OF assms(4), simplified] keyed_def where_ok_def)
qed

lemma yields_query:
  assumes "iter_ok X" "good_coll c" "name_ok c"
  shows "yields X (m_query X (''FROM '' @ c)) (list_all (\<lambda>d. pv_ok (PDict d)))"
proof (rule yieldsI)
  fix w ds w'
  assume e: "engine_ok X (snd w)" and q: "m_query X (''FROM '' @ c) w = (Inr ds, w')"
  have m: "mv_wf (store_of (snd w))" by (rule eng_mat(1)[OF e])
  from query_rows[OF e assms] q obtain rs where
    "ds = map snd rs" "set rs = {(k, d). starts_with (c @ '':'') k \<and> reads (store_of (snd w)) k None = Some d}"
    and w: "w' = w" by (auto simp: m_query_def)
  then have "list_all (\<lambda>d. pv_ok (PDict d)) ds"
    using head_doc(2)[OF e] by (auto simp: list_all_iff mv_get_reads[OF m] simp del: pv_ok.simps)
  with w show "list_all (\<lambda>d. pv_ok (PDict d)) ds \<and> api_run X (snd w) (snd w')" by simp
qed

end
