(* ===== verification/MongoQuery.thy ===== *)
theory MongoQuery
  imports Execute
begin

text \<open>
  The pure half of \<open>nedb.mongo\<close>: dotted paths, equality and comparison, the total order used
  for sorting, filter documents, projections and aggregation pipelines.  An absent field
  (\<open>_MISSING\<close>) is \<open>None\<close> of an option.

  Matching a regular expression is a parameter \<open>R\<close> (pattern, text and the three flags; \<open>None\<close>
  is \<open>re.error\<close>).  Filters and pipelines are JSON values; a value no JSON text has (a dict key
  that is not a string) is outside the model (\<open>Untyped\<close>).
\<close>

section \<open>Paths\<close>

definition split_on :: "char \<Rightarrow> string \<Rightarrow> string list" where
  \<comment> \<open>\<open>s.split(c)\<close>\<close>
  "split_on c s =
     foldr (\<lambda>x acc. if x = c then [] # acc else (x # hd acc) # tl acc) s [[]]"

fun get_parts :: "string list \<Rightarrow> pyval \<Rightarrow> pyval option" where
  "get_parts [] v = Some v"
| "get_parts (p # ps) v =
     (case v of
        PDict d \<Rightarrow> (case map_of d p of Some w \<Rightarrow> get_parts ps w | None \<Rightarrow> None)
      | _ \<Rightarrow> None)"

definition get_path :: "pyval \<Rightarrow> string \<Rightarrow> pyval option" where
  "get_path v path = get_parts (split_on CHR ''.'' path) v"

section \<open>Comparison\<close>

fun is_list :: "pyval \<Rightarrow> bool" where
  "is_list (PList xs) = True"
| "is_list _ = False"

fun eq_val :: "pyval option \<Rightarrow> pyval \<Rightarrow> bool" where
  "eq_val None operand = (operand = PNone)"
| "eq_val (Some v) operand =
     (case v of
        PList xs \<Rightarrow>
          if is_list operand then py_eq v operand
          else list_ex (\<lambda>x. py_eq x operand) xs \<or> py_eq v operand
      | _ \<Rightarrow> py_eq v operand)"

text \<open>The comparison passed in is \<open>None\<close> where Python raises \<open>TypeError\<close>.\<close>

fun cmp_elem :: "(pyval \<Rightarrow> bool option) \<Rightarrow> pyval \<Rightarrow> bool" where
  "cmp_elem f PNone = False"
| "cmp_elem f (PList xs) = list_ex (cmp_elem f) xs"
| "cmp_elem f v = (f v = Some True)"

definition cmp_val :: "(pyval \<Rightarrow> bool option) \<Rightarrow> pyval option \<Rightarrow> bool" where
  "cmp_val f actual = (case actual of None \<Rightarrow> False | Some v \<Rightarrow> cmp_elem f v)"

section \<open>The order of values of mixed types\<close>

text \<open>\<open>_sort_key\<close>: the pairs \<open>(0, 0)\<close>, \<open>(1, b)\<close>, \<open>(2, n)\<close>, \<open>(3, s)\<close> and \<open>(4, str(v))\<close>.\<close>

datatype skey = SNull | SBool bool | SNum rat | SText string | SOther string

fun sort_key_of :: "ext \<Rightarrow> pyval option \<Rightarrow> skey" where
  "sort_key_of X None = SNull"
| "sort_key_of X (Some v) =
     (case v of
        PNone \<Rightarrow> SNull
      | PBool b \<Rightarrow> SBool b
      | PInt i \<Rightarrow> SNum (of_int i)
      | PFloat q \<Rightarrow> SNum q
      | PStr s \<Rightarrow> SText s
      | _ \<Rightarrow> SOther (py_str X v))"

fun skey_rank :: "skey \<Rightarrow> nat" where
  "skey_rank SNull = 0"
| "skey_rank (SBool b) = 1"
| "skey_rank (SNum q) = 2"
| "skey_rank (SText s) = 3"
| "skey_rank (SOther s) = 4"

instantiation skey :: linorder
begin

fun less_eq_skey :: "skey \<Rightarrow> skey \<Rightarrow> bool" where
  "less_eq_skey (SBool a) (SBool b) = (a \<le> b)"
| "less_eq_skey (SNum a) (SNum b) = (a \<le> b)"
| "less_eq_skey (SText a) (SText b) = (a \<le> b)"
| "less_eq_skey (SOther a) (SOther b) = (a \<le> b)"
| "less_eq_skey a b = (skey_rank a \<le> skey_rank b)"

definition less_skey :: "skey \<Rightarrow> skey \<Rightarrow> bool" where
  "less_skey a b \<longleftrightarrow> a \<le> b \<and> \<not> b \<le> a"

instance
proof
  fix x y z :: skey
  show "(x < y) = (x \<le> y \<and> \<not> y \<le> x)" by (rule less_skey_def)
  show "x \<le> x" by (cases x) simp_all
  show "x \<le> y \<Longrightarrow> y \<le> z \<Longrightarrow> x \<le> z" by (cases x; cases y; cases z) auto
  show "x \<le> y \<Longrightarrow> y \<le> x \<Longrightarrow> x = y" by (cases x; cases y) auto
  show "x \<le> y \<or> y \<le> x" by (cases x; cases y) auto
qed

end

definition sort_docs :: "ext \<Rightarrow> string \<Rightarrow> bool \<Rightarrow> doc list \<Rightarrow> doc list" where
  \<comment> \<open>\<open>docs.sort(key=..., reverse=rv)\<close>: stable, also when reversed\<close>
  "sort_docs X field rv ds =
     (let k = (\<lambda>d. sort_key_of X (get_path (PDict d) field))
      in if rv then rev (sort_key k (rev ds)) else sort_key k ds)"

section \<open>Filters\<close>

text \<open>\<open>all\<close> and \<open>any\<close> stop at the first element that decides.\<close>

fun allE :: "('a \<Rightarrow> bool res) \<Rightarrow> 'a list \<Rightarrow> bool res" where
  "allE f [] = Inr True"
| "allE f (x # xs) = bindE (f x) (\<lambda>b. if b then allE f xs else Inr False)"

definition notE' :: "bool res \<Rightarrow> bool res" where
  "notE' r = bindE r (\<lambda>b. Inr (\<not> b))"

definition anyE :: "('a \<Rightarrow> bool res) \<Rightarrow> 'a list \<Rightarrow> bool res" where
  "anyE f xs = notE' (allE (\<lambda>x. notE' (f x)) xs)"

lemma allE_cong [fundef_cong]:
  "xs = ys \<Longrightarrow> (\<And>x. x \<in> set ys \<Longrightarrow> f x = g x) \<Longrightarrow> allE f xs = allE g ys"
  by (induction ys arbitrary: xs) (auto intro!: arg_cong2[where f = bindE] simp: fun_eq_iff)

lemma anyE_cong [fundef_cong]:
  "xs = ys \<Longrightarrow> (\<And>x. x \<in> set ys \<Longrightarrow> f x = g x) \<Longrightarrow> anyE f xs = anyE g ys"
  unfolding anyE_def by (simp cong: allE_cong)

definition is_op_doc :: "pyval \<Rightarrow> bool" where
  "is_op_doc cond =
     (case cond of PDict d \<Rightarrow> d \<noteq> [] \<and> list_all (\<lambda>kv. starts_with ''$'' (fst kv)) d | _ \<Rightarrow> False)"

text \<open>The elements a \<open>for\<close> loop or \<open>any\<close> sees: list elements, dict keys, characters.\<close>

definition py_iter :: "pyval \<Rightarrow> pyval list res" where
  "py_iter v =
     (case v of
        PList xs \<Rightarrow> Inr xs
      | PDict d \<Rightarrow> Inr (map (\<lambda>kv. PStr (fst kv)) d)
      | PStr s \<Rightarrow> Inr (map (\<lambda>c. PStr [c]) s)
      | _ \<Rightarrow> Inl TypeErr)"

text \<open>\<open>x in v\<close>\<close>

definition py_in :: "pyval \<Rightarrow> pyval \<Rightarrow> bool res" where
  "py_in x v =
     (case v of
        PList ys \<Rightarrow> Inr (list_ex (\<lambda>y. py_eq x y) ys)
      | PStr t \<Rightarrow> (case x of PStr s \<Rightarrow> Inr (str_find s t) | _ \<Rightarrow> Inl TypeErr)
      | PDict d \<Rightarrow> bindE (hash_key x) (\<lambda>_. Inr (list_ex (\<lambda>kv. x = PStr (fst kv)) d))
      | _ \<Rightarrow> Inl TypeErr)"

definition op_in :: "pyval option \<Rightarrow> pyval \<Rightarrow> bool res" where
  "op_in actual operand =
     (case actual of
        None \<Rightarrow> bindE (py_iter operand) (\<lambda>vs. Inr (PNone \<in> set vs))
      | Some (PList xs) \<Rightarrow> anyE (\<lambda>a. py_in a operand) xs
      | Some v \<Rightarrow> py_in v operand)"

type_synonym regex = "string \<Rightarrow> string \<Rightarrow> bool \<Rightarrow> bool \<Rightarrow> bool \<Rightarrow> bool option"

definition op_regex :: "regex \<Rightarrow> pyval option \<Rightarrow> pyval \<Rightarrow> pyval \<Rightarrow> bool res" where
  "op_regex R actual operand options =
     (case actual of
        Some (PStr s) \<Rightarrow>
          bindE (py_in (PStr ''i'') options) (\<lambda>i.
          bindE (py_in (PStr ''m'') options) (\<lambda>m.
          bindE (py_in (PStr ''s'') options) (\<lambda>d.
            case operand of
              PStr p \<Rightarrow> (case R p s i m d of None \<Rightarrow> Inl MongoErr | Some b \<Rightarrow> Inr b)
            | _ \<Rightarrow> Inl TypeErr)))
      | _ \<Rightarrow> Inr False)"

text \<open>\<open>int(v)\<close>; \<open>None\<close> is an exception.\<close>

definition py_int :: "pyval \<Rightarrow> int option" where
  "py_int v =
     (case v of
        PBool b \<Rightarrow> Some (if b then 1 else 0)
      | PInt i \<Rightarrow> Some i
      | PFloat q \<Rightarrow> Some (if q < 0 then \<lceil>q\<rceil> else \<lfloor>q\<rfloor>)
      | PStr s \<Rightarrow> (case int_of_str s of Inl _ \<Rightarrow> None | Inr i \<Rightarrow> Some i)
      | _ \<Rightarrow> None)"

definition op_mod :: "pyval option \<Rightarrow> pyval \<Rightarrow> bool res" where
  "op_mod actual operand =
     (case actual of
        None \<Rightarrow> Inr False
      | Some v \<Rightarrow>
          if num_of v = None then Inr False
          else bindE (py_iter operand) (\<lambda>xs.
                 case xs of
                   [divisor, remainder] \<Rightarrow>
                     (case (py_int v, py_int divisor, py_int remainder) of
                        (Some a, Some d, Some r) \<Rightarrow> Inr (d \<noteq> 0 \<and> a mod d = r)
                      | _ \<Rightarrow> Inr False)
                 | _ \<Rightarrow> Inl ValueErr))"

definition op_all :: "pyval option \<Rightarrow> pyval \<Rightarrow> bool res" where
  "op_all actual operand =
     (case actual of
        Some (PList xs) \<Rightarrow> bindE (py_iter operand) (\<lambda>ys. Inr (list_all (\<lambda>y. list_ex (\<lambda>x. py_eq y x) xs) ys))
      | _ \<Rightarrow> Inr False)"

definition op_size :: "pyval option \<Rightarrow> pyval \<Rightarrow> bool" where
  "op_size actual operand =
     (case actual of Some (PList xs) \<Rightarrow> py_eq (PInt (int (length xs))) operand | _ \<Rightarrow> False)"

text \<open>
  A logical operator whose operand is not a list iterates keys or characters, none of which
  has \<open>.items()\<close>.
\<close>

definition bad_subs :: "pyval \<Rightarrow> bool \<Rightarrow> bool res" where
  "bad_subs cond dflt = bindE (py_iter cond) (\<lambda>xs. if xs = [] then Inr dflt else Inl AttrErr)"

text \<open>
  One entry of a filter document, and one operator, over the functions that match a sub-filter
  (\<open>md\<close>) and a sub-condition (\<open>mf\<close>).
\<close>

definition match_key :: "(pyval \<Rightarrow> bool res) \<Rightarrow> (pyval option \<Rightarrow> pyval \<Rightarrow> bool res) \<Rightarrow>
    pyval \<Rightarrow> string \<Rightarrow> pyval \<Rightarrow> bool res" where
  "match_key md mf d k cond =
     (if k = ''$and'' then (case cond of PList subs \<Rightarrow> allE md subs | _ \<Rightarrow> bad_subs cond True)
      else if k = ''$or'' then (case cond of PList subs \<Rightarrow> anyE md subs | _ \<Rightarrow> bad_subs cond False)
      else if k = ''$nor'' then
        (case cond of PList subs \<Rightarrow> notE' (anyE md subs) | _ \<Rightarrow> bad_subs cond True)
      else if k = ''$not'' then notE' (md cond)
      else if starts_with ''$'' k then Inl MongoUnsupported
      else mf (get_path d k) cond)"

definition match_op :: "(pyval \<Rightarrow> pyval \<Rightarrow> bool res) \<Rightarrow> (pyval option \<Rightarrow> pyval \<Rightarrow> bool res) \<Rightarrow> regex \<Rightarrow>
    pyval option \<Rightarrow> string \<Rightarrow> pyval \<Rightarrow> pyval \<Rightarrow> bool res" where
  "match_op md mf R a op operand opts =
     (if op = ''$eq'' then Inr (eq_val a operand)
      else if op = ''$ne'' then Inr (\<not> eq_val a operand)
      else if op = ''$gt'' then Inr (cmp_val (\<lambda>v. py_lt operand v) a)
      else if op = ''$gte'' then Inr (cmp_val (\<lambda>v. py_le operand v) a)
      else if op = ''$lt'' then Inr (cmp_val (\<lambda>v. py_lt v operand) a)
      else if op = ''$lte'' then Inr (cmp_val (\<lambda>v. py_le v operand) a)
      else if op = ''$in'' then op_in a operand
      else if op = ''$nin'' then notE' (op_in a operand)
      else if op = ''$exists'' then Inr ((a \<noteq> None) = py_truth operand)
      else if op = ''$regex'' then op_regex R a operand opts
      else if op = ''$not'' then notE' (mf a operand)
      else if op = ''$size'' then Inr (op_size a operand)
      else if op = ''$all'' then op_all a operand
      else if op = ''$mod'' then op_mod a operand
      else if op = ''$elemMatch'' then
        (case a of
           Some (PList xs) \<Rightarrow>
             (if is_op_doc operand then anyE (\<lambda>item. mf (Some item) operand) xs
              else anyE (\<lambda>item. md item operand) xs)
         | _ \<Rightarrow> Inr False)
      else Inl MongoUnsupported)"

text \<open>Which sub-filters these two look at, for the termination of the recursion.\<close>

lemma match_key_cong [fundef_cong]:
  assumes "d = d'" "k = k'" "cond = cond'"
    "\<And>c. (case cond' of PList subs \<Rightarrow> c \<in> set subs | _ \<Rightarrow> False) \<or> c = cond' \<Longrightarrow> md c = md' c"
    "\<And>a c. c = cond' \<Longrightarrow> mf a c = mf' a c"
  shows "match_key md mf d k cond = match_key md' mf' d' k' cond'"
proof -
  have "allE md subs = allE md' subs" "anyE md subs = anyE md' subs" if "cond' = PList subs" for subs
    using that assms(4) by (auto intro!: allE_cong anyE_cong)
  then show ?thesis
    using assms by (simp add: match_key_def split: pyval.split)
qed

lemma match_op_cong [fundef_cong]:
  assumes "R = R'" "a = a'" "op = op'" "operand = operand'" "opts = opts'"
    "\<And>d c. c = operand' \<Longrightarrow> md d c = md' d c" "\<And>a c. c = operand' \<Longrightarrow> mf a c = mf' a c"
  shows "match_op md mf R a op operand opts = match_op md' mf' R' a' op' operand' opts'"
proof -
  have "md d operand' = md' d operand'" "mf a operand' = mf' a operand'" for d a
    using assms(6,7) by simp_all
  with assms show ?thesis by (simp add: match_op_def split: option.split pyval.split)
qed

text \<open>The recursion ends: it goes down in the filter.\<close>

fun weight :: "pyval \<Rightarrow> nat" where
  "weight (PList xs) = Suc (sum_list (map weight xs))"
| "weight (PDict d) = Suc (sum_list (map (\<lambda>kv. Suc (weight (snd kv))) d))"
| "weight v = 1"

definition items_weight :: "(string \<times> pyval) list \<Rightarrow> nat" where
  "items_weight d = sum_list (map (\<lambda>kv. Suc (weight (snd kv))) d)"

lemma weight_elem: "x \<in> set xs \<Longrightarrow> weight x < weight (PList xs)"
  using member_le_sum_list[of "weight x" "map weight xs"] by auto

function match_doc :: "regex \<Rightarrow> pyval \<Rightarrow> pyval \<Rightarrow> bool res"
  and match_items :: "regex \<Rightarrow> pyval \<Rightarrow> (string \<times> pyval) list \<Rightarrow> bool res"
  and match_field :: "regex \<Rightarrow> pyval option \<Rightarrow> pyval \<Rightarrow> bool res"
  and match_ops :: "regex \<Rightarrow> pyval option \<Rightarrow> pyval \<Rightarrow> (string \<times> pyval) list \<Rightarrow> bool res" where
  "match_doc R d filt = (case filt of PDict items \<Rightarrow> match_items R d items | _ \<Rightarrow> Inl AttrErr)"
| "match_items R d [] = Inr True"
| "match_items R d ((k, cond) # items) =
     bindE (match_key (match_doc R d) (match_field R) d k cond)
       (\<lambda>b. if b then match_items R d items else Inr False)"
| "match_field R a cond =
     (if is_op_doc cond then
        (case cond of
           PDict items \<Rightarrow> match_ops R a (dget items ''$options'' (PStr [])) items
         | _ \<Rightarrow> Inr False)
      else Inr (eq_val a cond))"
| "match_ops R a opts [] = Inr True"
| "match_ops R a opts ((op, operand) # items) =
     (if op = ''$options'' then match_ops R a opts items
      else bindE (match_op (match_doc R) (match_field R) R a op operand opts)
             (\<lambda>b. if b then match_ops R a opts items else Inr False))"

  by pat_completeness auto
termination
proof (relation "measure (\<lambda>x. case x of
    Inl (Inl (R, d, f)) \<Rightarrow> weight f | Inl (Inr (R, d, items)) \<Rightarrow> items_weight items
  | Inr (Inl (R, a, c)) \<Rightarrow> weight c | Inr (Inr (R, a, opts, items)) \<Rightarrow> items_weight items)")
qed (auto simp: items_weight_def dest: weight_elem split: pyval.splits)

declare match_doc.simps [simp del] match_field.simps [simp del]

section \<open>Projections\<close>

definition dpop :: "string \<Rightarrow> doc \<Rightarrow> doc" where
  \<comment> \<open>\<open>d.pop(k, None)\<close>\<close>
  "dpop k d = filter (\<lambda>kv. fst kv \<noteq> k) d"

definition pop_false :: "doc \<Rightarrow> doc \<Rightarrow> doc" where
  \<comment> \<open>drop the fields a projection maps to a false value\<close>
  "pop_false spec d = foldl (\<lambda>d kv. if py_truth (snd kv) then d else dpop (fst kv) d) d spec"

definition project :: "doc \<Rightarrow> doc \<Rightarrow> doc res" where
  "project spec d =
     (if spec = [] then Inr d
      else
        (let include = filter (\<lambda>kv. fst kv \<noteq> ''_id'') spec;
             keep_id = py_truth (dget spec ''_id'' (PInt 1)) in
         if include = [] then Inr (pop_false spec d)
         else if list_all (\<lambda>kv. py_truth (snd kv)) include then
           (let out = List.map_filter (\<lambda>kv. map_option (Pair (fst kv)) (map_of d (fst kv))) include in
            Inr (if keep_id then (case map_of d ''_id'' of None \<Rightarrow> out | Some v \<Rightarrow> dset ''_id'' v out)
                 else out))
         else if list_all (\<lambda>kv. \<not> py_truth (snd kv)) include then
           (let out = pop_false include d in Inr (if keep_id then out else dpop ''_id'' out))
         else Inl MongoErr))"

section \<open>Aggregation\<close>

definition agg_val :: "doc \<Rightarrow> pyval \<Rightarrow> pyval" where
  "agg_val d expr =
     (case expr of
        PStr s \<Rightarrow>
          if starts_with ''$'' s then (case get_path (PDict d) (drop 1 s) of None \<Rightarrow> PNone | Some v \<Rightarrow> v)
          else expr
      | _ \<Rightarrow> expr)"

definition group_key :: "pyval \<Rightarrow> doc \<Rightarrow> pyval" where
  \<comment> \<open>\<open>key_of\<close>\<close>
  "group_key id_expr d =
     (case id_expr of
        PDict es \<Rightarrow> PDict (map (\<lambda>ke. (fst ke, agg_val d (snd ke))) es)
      | _ \<Rightarrow> agg_val d id_expr)"

text \<open>Groups in the order their first document comes; the text of the key identifies a group.\<close>

fun add_group :: "string \<Rightarrow> pyval \<Rightarrow> doc \<Rightarrow> (string \<times> pyval \<times> doc list) list \<Rightarrow>
    (string \<times> pyval \<times> doc list) list" where
  "add_group hk k d [] = [(hk, k, [d])]"
| "add_group hk k d ((hk', k', g) # gs) =
     (if hk = hk' then (hk', k', g @ [d]) # gs else (hk', k', g) # add_group hk k d gs)"

definition group_docs_by :: "ext \<Rightarrow> pyval \<Rightarrow> doc list \<Rightarrow> (string \<times> pyval \<times> doc list) list" where
  "group_docs_by X id_expr ds =
     foldl (\<lambda>gs d. let k = group_key id_expr d
        in add_group (dumps X '', '' '': '' (sort_keys k)) k d gs) [] ds"

fun uniq_vals :: "pyval list \<Rightarrow> pyval list \<Rightarrow> pyval list" where
  \<comment> \<open>\<open>if v not in uniq: uniq.append(v)\<close>\<close>
  "uniq_vals acc [] = acc"
| "uniq_vals acc (v # vs) = uniq_vals (if list_ex (py_eq v) acc then acc else acc @ [v]) vs"

definition accumulate :: "string \<Rightarrow> pyval \<Rightarrow> doc list \<Rightarrow> pyval res" where
  "accumulate afn aexpr g =
     (let vals = map (\<lambda>d. agg_val d aexpr) g;
          nums = filter (\<lambda>v. case v of PInt _ \<Rightarrow> True | PFloat _ \<Rightarrow> True | _ \<Rightarrow> False) vals in
      if afn = ''$sum'' then
        Inr (if py_eq aexpr (PInt 1) \<or> aexpr = PStr ''1'' then PInt (int (length g)) else py_sum nums)
      else if afn = ''$avg'' then Inr (if nums = [] then PNone else py_div (py_sum nums) (length nums))
      else if afn = ''$min'' then Inr (py_min nums)
      else if afn = ''$max'' then Inr (py_max nums)
      else if afn = ''$first'' then Inr (if vals = [] then PNone else hd vals)
      else if afn = ''$last'' then Inr (if vals = [] then PNone else last vals)
      else if afn = ''$push'' then Inr (PList vals)
      else if afn = ''$addToSet'' then Inr (PList (uniq_vals [] vals))
      else Inl MongoUnsupported)"

fun group_fields :: "(string \<times> pyval) list \<Rightarrow> doc list \<Rightarrow> doc \<Rightarrow> doc res" where
  "group_fields [] g entry = Inr entry"
| "group_fields ((field, acc) # spec) g entry =
     (if field = ''_id'' then group_fields spec g entry
      else
        (case acc of
           PDict [(afn, aexpr)] \<Rightarrow>
             bindE (accumulate afn aexpr g) (\<lambda>v. group_fields spec g (dset field v entry))
         | _ \<Rightarrow> Inl MongoErr))"

definition group_stage :: "ext \<Rightarrow> doc list \<Rightarrow> pyval \<Rightarrow> doc list res" where
  \<comment> \<open>\<open>_group\<close>\<close>
  "group_stage X ds spec =
     (case spec of
        PDict items \<Rightarrow>
          mapE (\<lambda>(hk, k, g). group_fields items g [(''_id'', k)])
            (group_docs_by X (doc_get items ''_id'') ds)
      | _ \<Rightarrow> Inl AttrErr)"

text \<open>A slice bound: an integer (\<open>True\<close> is 1), or \<open>None\<close> for no bound.\<close>

definition slice_bound :: "pyval \<Rightarrow> int option res" where
  "slice_bound v =
     (case v of
        PNone \<Rightarrow> Inr None
      | PInt i \<Rightarrow> Inr (Some i)
      | PBool b \<Rightarrow> Inr (Some (if b then 1 else 0))
      | _ \<Rightarrow> Inl TypeErr)"

definition py_drop :: "int option \<Rightarrow> 'a list \<Rightarrow> 'a list" where
  \<comment> \<open>\<open>xs[n:]\<close>\<close>
  "py_drop n xs =
     (case n of None \<Rightarrow> xs | Some i \<Rightarrow> drop (nat (if i < 0 then int (length xs) + i else i)) xs)"

definition negative :: "pyval \<Rightarrow> bool res" where
  \<comment> \<open>\<open>dirn < 0\<close>\<close>
  "negative v = (case py_lt v (PInt 0) of None \<Rightarrow> Inl TypeErr | Some b \<Rightarrow> Inr b)"

fun sort_all :: "ext \<Rightarrow> (string \<times> pyval) list \<Rightarrow> doc list \<Rightarrow> doc list res" where
  \<comment> \<open>the keys from the last to the first\<close>
  "sort_all X [] ds = Inr ds"
| "sort_all X ((field, dirn) # keys) ds =
     bindE (sort_all X keys ds) (\<lambda>ds. bindE (negative dirn) (\<lambda>rv. Inr (sort_docs X field rv ds)))"

definition count_key :: "pyval \<Rightarrow> string res" where
  "count_key spec =
     (case spec of PStr s \<Rightarrow> Inr s | PList _ \<Rightarrow> Inl TypeErr | PDict _ \<Rightarrow> Inl TypeErr | _ \<Rightarrow> Inl Untyped)"

definition project_stage :: "pyval \<Rightarrow> doc \<Rightarrow> doc res" where
  "project_stage spec d =
     (if \<not> py_truth spec then Inr d
      else (case spec of PDict p \<Rightarrow> project p d | _ \<Rightarrow> Inl AttrErr))"

definition agg_stage :: "ext \<Rightarrow> regex \<Rightarrow> string \<Rightarrow> pyval \<Rightarrow> doc list \<Rightarrow> doc list res" where
  "agg_stage X R op spec ds =
     (if op = ''$match'' then filterE (\<lambda>d. match_doc R (PDict d) spec) ds
      else if op = ''$sort'' then (case spec of PDict keys \<Rightarrow> sort_all X keys ds | _ \<Rightarrow> Inl AttrErr)
      else if op = ''$skip'' then bindE (slice_bound spec) (\<lambda>n. Inr (py_drop n ds))
      else if op = ''$limit'' then bindE (slice_bound spec) (\<lambda>n. Inr (py_take n ds))
      else if op = ''$count'' then bindE (count_key spec) (\<lambda>k. Inr [[(k, PInt (int (length ds)))]])
      else if op = ''$project'' then mapE (project_stage spec) ds
      else if op = ''$group'' then group_stage X ds spec
      else Inl MongoUnsupported)"

definition stage_parts :: "pyval \<Rightarrow> (string \<times> pyval) res" where
  \<comment> \<open>\<open>len(stage) != 1\<close> and \<open>(op, spec), = stage.items()\<close>\<close>
  "stage_parts stage =
     (case stage of
        PDict d \<Rightarrow> (case d of [kv] \<Rightarrow> Inr kv | _ \<Rightarrow> Inl MongoErr)
      | PList xs \<Rightarrow> Inl (if length xs = 1 then AttrErr else MongoErr)
      | PStr s \<Rightarrow> Inl (if length s = 1 then AttrErr else MongoErr)
      | _ \<Rightarrow> Inl TypeErr)"

fun run_pipeline :: "ext \<Rightarrow> regex \<Rightarrow> pyval list \<Rightarrow> doc list \<Rightarrow> doc list res" where
  "run_pipeline X R [] ds = Inr ds"
| "run_pipeline X R (stage # stages) ds =
     bindE (stage_parts stage) (\<lambda>(op, spec). bindE (agg_stage X R op spec ds) (run_pipeline X R stages))"

end
