(* ===== verification/Glob.thy ===== *)
theory Glob
  imports Prelude
begin

text \<open>
  Matching a name against a shell pattern, as the standard library does it: used for the keys of
  the Redis adapter and for the key patterns of the Redis wrapper.
\<close>

text \<open>\<open>fnmatch.fnmatch\<close> of the standard library: \<open>*\<close>, \<open>?\<close> and character classes.\<close>

fun class_end :: "nat \<Rightarrow> string \<Rightarrow> (string \<times> string) option" where
  \<comment> \<open>up to the first \<open>]\<close> at position \<open>n\<close> or later\<close>
  "class_end n [] = None"
| "class_end n (c # cs) =
     (if n = 0 \<and> c = CHR '']'' then Some ([], cs)
      else map_option (\<lambda>(body, r). (c # body, r)) (class_end (n - 1) cs))"

definition split_class :: "string \<Rightarrow> (string \<times> string) option" where
  \<comment> \<open>the class after \<open>[\<close>: a leading \<open>!\<close> and a \<open>]\<close> right behind belong to it\<close>
  "split_class cs =
     (let j = (if starts_with ''!'' cs then 1 else 0);
          k = (if starts_with '']'' (drop j cs) then j + 1 else j)
      in class_end k cs)"

fun in_class :: "string \<Rightarrow> char \<Rightarrow> bool" where
  "in_class (a # CHR ''-'' # b # cs) x =
     ((of_char a \<le> (of_char x :: nat) \<and> of_char x \<le> (of_char b :: nat)) \<or> in_class cs x)"
| "in_class (a # cs) x = (a = x \<or> in_class cs x)"
| "in_class [] x = False"

definition class_ok :: "string \<Rightarrow> char \<Rightarrow> bool" where
  "class_ok body x = (if starts_with ''!'' body then \<not> in_class (tl body) x else in_class body x)"

lemma class_end_shorter: "class_end n cs = Some (b, r) \<Longrightarrow> length r < length cs"
  by (induction n cs arbitrary: b r rule: class_end.induct) (auto split: if_splits)

lemma split_class_shorter: "split_class cs = Some (b, r) \<Longrightarrow> length r < length cs"
  by (auto simp: split_class_def Let_def dest: class_end_shorter)

function fnmatch :: "string \<Rightarrow> string \<Rightarrow> bool" where
  "fnmatch [] s = (s = [])"
| "fnmatch (p # ps) s =
     (if p = CHR ''*'' then fnmatch ps s \<or> (case s of [] \<Rightarrow> False | _ # s' \<Rightarrow> fnmatch (p # ps) s')
      else if p = CHR ''['' then
        (case split_class ps of
           None \<Rightarrow> (case s of [] \<Rightarrow> False | x # s' \<Rightarrow> x = p \<and> fnmatch ps s')
         | Some (body, r) \<Rightarrow> (case s of [] \<Rightarrow> False | x # s' \<Rightarrow> class_ok body x \<and> fnmatch r s'))
      else (case s of [] \<Rightarrow> False | x # s' \<Rightarrow> (p = CHR ''?'' \<or> x = p) \<and> fnmatch ps s'))"
  by pat_completeness auto
termination
  by (relation "measure (\<lambda>(p, s). length p + length s)") (auto dest: split_class_shorter)

end
