(* ===== verification/Redis.thy ===== *)
theory Redis
  imports Collections MongoQuery Glob
begin

text \<open>
  \<open>RedisCompat\<close> of \<open>nedb.redis_compat\<close>: the command dispatcher and the commands on
  strings, hashes, sets and lists, each a sequence of calls of the database it is given.  Arguments
  are texts, as they come off the wire.  What a list command draws from outside (the clock, twice,
  and a random name) is \<open>r_tick R w\<close> in the state \<open>w\<close>.
\<close>

datatype reply = RNil | RText string | RInt int | RList "reply list" | RSet "string set"
  | RDict "(string, string) dict"

type_synonym 'w clock = "'w \<Rightarrow> nat \<times> string \<times> nat"

record 'w redis =
  r_ext :: ext
  r_db :: "'w database"
  r_client :: string
  r_tick :: "'w clock"

definition opt_text :: "string option \<Rightarrow> reply" where
  "opt_text x = (case x of None \<Rightarrow> RNil | Some s \<Rightarrow> RText s)"

section \<open>Names\<close>

definition safe_char :: "char \<Rightarrow> bool" where
  "safe_char c \<longleftrightarrow> is_lower c \<or> is_upper c \<or> is_digit c \<or> c = CHR ''_''"

definition safe :: "string \<Rightarrow> string" where
  "safe name = concat (map (\<lambda>c. if safe_char c then [c] else ''__'' @ hex2 (of_char c) @ ''__'') name)"

definition KV_COLL :: string where "KV_COLL = ''_kv''"

definition UNSUPPORTED :: "string list" where
  "UNSUPPORTED =
     [''EXPIRE'', ''EXPIREAT'', ''EXPIRETIME'', ''PEXPIRE'', ''PEXPIREAT'', ''TTL'', ''PTTL'', ''PERSIST'',
      ''SUBSCRIBE'', ''UNSUBSCRIBE'', ''PSUBSCRIBE'', ''PUNSUBSCRIBE'', ''PUBLISH'', ''PUBSUB'',
      ''MULTI'', ''EXEC'', ''DISCARD'', ''WATCH'', ''UNWATCH'', ''WAIT'', ''OBJECT'', ''DEBUG'',
      ''MONITOR'', ''SLOWLOG'', ''CLUSTER'', ''REPLICAOF'', ''SLAVEOF'', ''BGSAVE'', ''BGREWRITEAOF'',
      ''LASTSAVE'', ''SAVE'', ''RESTORE'', ''DUMP'', ''MIGRATE'', ''MOVE'', ''SORT'', ''EVAL'',
      ''EVALSHA'', ''SCRIPT'', ''GEORADIUSBYMEMBER'', ''GEOADD'', ''GEODIST'', ''GEOPOS'', ''XADD'',
      ''XREAD'', ''XLEN'', ''XRANGE'', ''BF.ADD'', ''CF.ADD'']"

section \<open>Helpers\<close>

definition r_put :: "'w redis \<Rightarrow> string \<Rightarrow> string \<Rightarrow> doc \<Rightarrow> ('w, doc option) prog" where
  "r_put R coll i d = db_put (r_db R) (r_client R) coll i d"

definition r_get :: "'w redis \<Rightarrow> string \<Rightarrow> string \<Rightarrow> ('w, doc option) prog" where
  "r_get R coll i = db_get (r_db R) coll i"

definition r_del :: "'w redis \<Rightarrow> string \<Rightarrow> string \<Rightarrow> ('w, unit) prog" where
  "r_del R coll i = db_delete (r_db R) (r_client R) coll i"

definition r_from :: "'w redis \<Rightarrow> string \<Rightarrow> ('w, doc list) prog" where
  \<comment> \<open>\<open>db.query(f"FROM {coll}")\<close>\<close>
  "r_from R coll = db_query (r_db R) (''FROM '' @ coll)"

definition doc_text :: "ext \<Rightarrow> doc option \<Rightarrow> string option" where
  \<comment> \<open>\<open>str(doc["_v"]) if doc and "_v" in doc else None\<close>\<close>
  "doc_text X d =
     (case d of None \<Rightarrow> None | Some x \<Rightarrow> map_option (py_str X) (map_of x ''_v''))"

definition int_of_val :: "pyval \<Rightarrow> int res" where
  \<comment> \<open>\<open>int(v)\<close>\<close>
  "int_of_val v =
     (case v of
        PBool b \<Rightarrow> Inr (if b then 1 else 0)
      | PInt i \<Rightarrow> Inr i
      | PFloat q \<Rightarrow> Inr (if q < 0 then \<lceil>q\<rceil> else \<lfloor>q\<rfloor>)
      | PStr s \<Rightarrow> int_of_str s
      | _ \<Rightarrow> Inl TypeErr)"

definition doc_int :: "doc option \<Rightarrow> int res" where
  \<comment> \<open>\<open>int(doc["_v"]) if doc and "_v" in doc else 0\<close>\<close>
  "doc_int d =
     (case d of
        None \<Rightarrow> Inr 0
      | Some x \<Rightarrow> (case map_of x ''_v'' of None \<Rightarrow> Inr 0 | Some v \<Rightarrow> int_of_val v))"

definition countM :: "('a \<Rightarrow> ('w, bool) prog) \<Rightarrow> 'a list \<Rightarrow> ('w, int) prog" where
  \<comment> \<open>how many elements a loop counts\<close>
  "countM f xs = bindM (mapM f xs) (\<lambda>bs. retM (int (length (filter (\<lambda>b. b) bs))))"

definition pairs_of :: "string list \<Rightarrow> (string \<times> string) list res" where
  \<comment> \<open>alternating arguments; an odd number is an error\<close>
  "pairs_of xs =
     (if odd (length xs) then Inl RedisErr
      else Inr (map (\<lambda>i. (xs ! (2 * i), xs ! (2 * i + 1))) [0..<length xs div 2]))"

section \<open>Strings\<close>

definition kv_get :: "'w redis \<Rightarrow> string \<Rightarrow> ('w, string option) prog" where
  "kv_get R key = bindM (r_get R KV_COLL key) (\<lambda>d. retM (doc_text (r_ext R) d))"

definition kv_put :: "'w redis \<Rightarrow> string \<Rightarrow> string \<Rightarrow> ('w, unit) prog" where
  "kv_put R key v = bindM (r_put R KV_COLL key (cell_doc v)) (\<lambda>_. retM ())"

definition kv_has :: "'w redis \<Rightarrow> string \<Rightarrow> ('w, bool) prog" where
  "kv_has R key = bindM (r_get R KV_COLL key) (\<lambda>d. retM (d \<noteq> None))"

definition kv_setnx :: "'w redis \<Rightarrow> string \<Rightarrow> string \<Rightarrow> ('w, reply) prog" where
  "kv_setnx R key v =
     bindM (kv_has R key) (\<lambda>b.
       if b then retM (RInt 0) else bindM (kv_put R key v) (\<lambda>_. retM (RInt 1)))"

definition kv_set :: "'w redis \<Rightarrow> string \<Rightarrow> string \<Rightarrow> string list \<Rightarrow> ('w, reply) prog" where
  "kv_set R key v opts =
     (if ''NX'' \<in> set (map str_upper opts) then kv_setnx R key v
      else bindM (if ''XX'' \<in> set (map str_upper opts) then kv_has R key else retM True) (\<lambda>b.
        if b then bindM (kv_put R key v) (\<lambda>_. retM (RText ''OK'')) else retM RNil))"

definition kv_getdel :: "'w redis \<Rightarrow> string \<Rightarrow> ('w, reply) prog" where
  "kv_getdel R key =
     bindM (kv_get R key) (\<lambda>v.
       if v = None then retM RNil
       else bindM (r_del R KV_COLL key) (\<lambda>_. retM (opt_text v)))"

definition kv_mset :: "'w redis \<Rightarrow> string list \<Rightarrow> ('w, reply) prog" where
  "kv_mset R pairs =
     bindM (liftM (pairs_of pairs)) (\<lambda>kvs.
     bindM (mapM (\<lambda>(k, v). kv_set R k v []) kvs) (\<lambda>_. retM (RText ''OK'')))"

definition kv_mget :: "'w redis \<Rightarrow> string list \<Rightarrow> ('w, reply) prog" where
  "kv_mget R keys = bindM (mapM (kv_get R) keys) (\<lambda>vs. retM (RList (map opt_text vs)))"

definition kv_del1 :: "'w redis \<Rightarrow> string \<Rightarrow> ('w, bool) prog" where
  "kv_del1 R key =
     bindM (kv_has R key) (\<lambda>b. if b then bindM (r_del R KV_COLL key) (\<lambda>_. retM True) else retM False)"

definition kv_del :: "'w redis \<Rightarrow> string list \<Rightarrow> ('w, reply) prog" where
  "kv_del R keys = bindM (countM (kv_del1 R) keys) (\<lambda>n. retM (RInt n))"

definition kv_exists :: "'w redis \<Rightarrow> string list \<Rightarrow> ('w, reply) prog" where
  "kv_exists R keys = bindM (countM (kv_has R) keys) (\<lambda>n. retM (RInt n))"

definition kv_incrby :: "'w redis \<Rightarrow> string \<Rightarrow> int \<Rightarrow> ('w, reply) prog" where
  "kv_incrby R key delta =
     bindM (r_get R KV_COLL key) (\<lambda>d.
     bindM (liftM (doc_int d)) (\<lambda>cur.
     bindM (kv_put R key (show_int (cur + delta))) (\<lambda>_. retM (RInt (cur + delta)))))"

definition kv_append :: "'w redis \<Rightarrow> string \<Rightarrow> string \<Rightarrow> ('w, reply) prog" where
  "kv_append R key v =
     bindM (kv_get R key) (\<lambda>x.
       let s = (case x of None \<Rightarrow> [] | Some t \<Rightarrow> t) @ v in
       bindM (kv_put R key s) (\<lambda>_. retM (RInt (int (length s)))))"

definition kv_strlen :: "'w redis \<Rightarrow> string \<Rightarrow> ('w, reply) prog" where
  "kv_strlen R key =
     bindM (kv_get R key) (\<lambda>x. retM (RInt (case x of None \<Rightarrow> 0 | Some s \<Rightarrow> int (length s))))"

definition kv_rename :: "'w redis \<Rightarrow> string \<Rightarrow> string \<Rightarrow> ('w, reply) prog" where
  "kv_rename R src dst =
     bindM (kv_get R src) (\<lambda>x.
       case x of
         None \<Rightarrow> raiseM RedisErr
       | Some v \<Rightarrow>
           bindM (kv_set R dst v []) (\<lambda>_.
           bindM (r_del R KV_COLL src) (\<lambda>_. retM (RText ''OK''))))"

definition kv_keys :: "'w redis \<Rightarrow> string \<Rightarrow> ('w, string list) prog" where
  "kv_keys R pat =
     bindM (r_from R KV_COLL) (\<lambda>rows.
     bindM (liftM (mapE (\<lambda>r. as_str (dget r ''_id'' (PStr []))) rows)) (\<lambda>ks.
       retM (if pat = ''*'' then ks else filter (fnmatch pat) ks)))"

definition kv_flush :: "'w redis \<Rightarrow> ('w, reply) prog" where
  "kv_flush R =
     bindM (kv_keys R ''*'') (\<lambda>ks.
     bindM (mapM (r_del R KV_COLL) ks) (\<lambda>_. retM (RText ''OK'')))"

section \<open>Hashes: the collection is the name, the id is the field\<close>

definition h_get :: "'w redis \<Rightarrow> string \<Rightarrow> string \<Rightarrow> ('w, string option) prog" where
  "h_get R name f = bindM (r_get R (safe name) f) (\<lambda>d. retM (doc_text (r_ext R) d))"

definition h_has :: "'w redis \<Rightarrow> string \<Rightarrow> string \<Rightarrow> ('w, bool) prog" where
  "h_has R name f = bindM (r_get R (safe name) f) (\<lambda>d. retM (d \<noteq> None))"

definition h_put :: "'w redis \<Rightarrow> string \<Rightarrow> string \<Rightarrow> string \<Rightarrow> ('w, unit) prog" where
  "h_put R name f v = bindM (r_put R (safe name) f (cell_doc v)) (\<lambda>_. retM ())"

definition h_set1 :: "'w redis \<Rightarrow> string \<Rightarrow> string \<times> string \<Rightarrow> ('w, bool) prog" where
  \<comment> \<open>one pair: whether the field is new\<close>
  "h_set1 R name kv =
     bindM (h_has R name (fst kv)) (\<lambda>b. bindM (h_put R name (fst kv) (snd kv)) (\<lambda>_. retM (\<not> b)))"

definition h_set :: "'w redis \<Rightarrow> string \<Rightarrow> string list \<Rightarrow> ('w, reply) prog" where
  "h_set R name pairs =
     bindM (liftM (pairs_of pairs)) (\<lambda>kvs.
     bindM (countM (h_set1 R name) kvs) (\<lambda>n. retM (RInt n)))"

definition h_setnx :: "'w redis \<Rightarrow> string \<Rightarrow> string \<Rightarrow> string \<Rightarrow> ('w, reply) prog" where
  "h_setnx R name f v =
     bindM (h_has R name f) (\<lambda>b.
       if b then retM (RInt 0) else bindM (h_put R name f v) (\<lambda>_. retM (RInt 1)))"

definition h_mget :: "'w redis \<Rightarrow> string \<Rightarrow> string list \<Rightarrow> ('w, reply) prog" where
  "h_mget R name fs = bindM (mapM (h_get R name) fs) (\<lambda>vs. retM (RList (map opt_text vs)))"

definition row_id :: "doc \<Rightarrow> string res" where
  \<comment> \<open>\<open>r["_id"]\<close>\<close>
  "row_id r = (case map_of r ''_id'' of None \<Rightarrow> Inl KeyError | Some v \<Rightarrow> as_str v)"

definition cell_rows :: "doc list \<Rightarrow> doc list" where
  \<comment> \<open>\<open>for r in rows if "_v" in r\<close>\<close>
  "cell_rows rows = filter (has_key ''_v'') rows"

definition row_text :: "ext \<Rightarrow> doc \<Rightarrow> string" where
  \<comment> \<open>\<open>str(r["_v"])\<close>\<close>
  "row_text X r = py_str X (doc_get r ''_v'')"

definition h_getall :: "'w redis \<Rightarrow> string \<Rightarrow> ('w, reply) prog" where
  "h_getall R name =
     bindM (r_from R (safe name)) (\<lambda>rows.
     bindM (liftM (mapE row_id (cell_rows rows))) (\<lambda>ids.
       retM (RDict (fold (\<lambda>(k, r) m. dset k (row_text (r_ext R) r) m) (zip ids (cell_rows rows)) []))))"

definition h_del1 :: "'w redis \<Rightarrow> string \<Rightarrow> string \<Rightarrow> ('w, bool) prog" where
  "h_del1 R name f =
     bindM (h_has R name f) (\<lambda>b. if b then bindM (r_del R (safe name) f) (\<lambda>_. retM True) else retM False)"

definition h_del :: "'w redis \<Rightarrow> string \<Rightarrow> string list \<Rightarrow> ('w, reply) prog" where
  "h_del R name fs = bindM (countM (h_del1 R name) fs) (\<lambda>n. retM (RInt n))"

definition h_exists :: "'w redis \<Rightarrow> string \<Rightarrow> string \<Rightarrow> ('w, reply) prog" where
  "h_exists R name f = bindM (h_has R name f) (\<lambda>b. retM (RInt (if b then 1 else 0)))"

definition h_keys :: "'w redis \<Rightarrow> string \<Rightarrow> ('w, string list) prog" where
  "h_keys R name = bindM (r_from R (safe name)) (\<lambda>rows. liftM (mapE row_id (cell_rows rows)))"

definition h_vals :: "'w redis \<Rightarrow> string \<Rightarrow> ('w, string list) prog" where
  "h_vals R name =
     bindM (r_from R (safe name)) (\<lambda>rows. retM (map (row_text (r_ext R)) (cell_rows rows)))"

definition h_len :: "'w redis \<Rightarrow> string \<Rightarrow> ('w, int) prog" where
  "h_len R name = bindM (h_keys R name) (\<lambda>ks. retM (int (length ks)))"

definition h_incrby :: "'w redis \<Rightarrow> string \<Rightarrow> string \<Rightarrow> string \<Rightarrow> ('w, reply) prog" where
  "h_incrby R name f delta =
     bindM (r_get R (safe name) f) (\<lambda>d.
     bindM (liftM (doc_int d)) (\<lambda>cur.
     bindM (liftM (int_of_str delta)) (\<lambda>n.
     bindM (h_put R name f (show_int (cur + n))) (\<lambda>_. retM (RInt (cur + n))))))"

section \<open>Sets: relation edges\<close>

definition set_node :: "string \<Rightarrow> string" where
  "set_node key = ''_set_'' @ safe key"

definition member_prefix :: "string \<Rightarrow> string" where
  "member_prefix key = ''_smember_'' @ safe key @ ''__''"

definition set_member_node :: "string \<Rightarrow> string \<Rightarrow> string" where
  "set_member_node key m = member_prefix key @ safe m"

definition s_members :: "'w redis \<Rightarrow> string \<Rightarrow> ('w, string set) prog" where
  "s_members R key =
     bindM (db_neighbors (r_db R) (set_node key) ''member'') (\<lambda>nbs.
       retM ((\<lambda>nb. drop (length (member_prefix key)) nb) `
         {nb \<in> set nbs. starts_with (member_prefix key) nb}))"

definition s_add1 :: "'w redis \<Rightarrow> string \<Rightarrow> string \<Rightarrow> string set \<times> int \<Rightarrow> ('w, string set \<times> int) prog" where
  "s_add1 R key m s =
     (if m \<in> fst s then retM s
      else bindM (db_link (r_db R) (r_client R) (set_node key) ''member'' (set_member_node key m))
             (\<lambda>_. retM (insert m (fst s), snd s + 1)))"

definition s_add :: "'w redis \<Rightarrow> string \<Rightarrow> string list \<Rightarrow> ('w, reply) prog" where
  "s_add R key ms =
     bindM (s_members R key) (\<lambda>ex.
     bindM (foldM (s_add1 R key) ms (ex, 0)) (\<lambda>s. retM (RInt (snd s))))"

definition s_ismember :: "'w redis \<Rightarrow> string \<Rightarrow> string \<Rightarrow> ('w, reply) prog" where
  "s_ismember R key m = bindM (s_members R key) (\<lambda>S. retM (RInt (if m \<in> S then 1 else 0)))"

definition s_rem1 :: "'w redis \<Rightarrow> string \<Rightarrow> string set \<Rightarrow> string \<Rightarrow> ('w, bool) prog" where
  "s_rem1 R key ex m =
     (if m \<in> ex then
        bindM (db_unlink (r_db R) (r_client R) (set_node key) ''member'' (set_member_node key m))
          (\<lambda>_. retM True)
      else retM False)"

definition s_rem :: "'w redis \<Rightarrow> string \<Rightarrow> string list \<Rightarrow> ('w, reply) prog" where
  "s_rem R key ms =
     bindM (s_members R key) (\<lambda>ex.
     bindM (countM (s_rem1 R key ex) ms) (\<lambda>n. retM (RInt n)))"

definition s_card :: "'w redis \<Rightarrow> string \<Rightarrow> ('w, int) prog" where
  "s_card R key = bindM (s_members R key) (\<lambda>S. retM (int (card S)))"

section \<open>Lists: documents ordered by side and time\<close>

definition list_coll :: "string \<Rightarrow> string" where
  "list_coll key = ''_list_'' @ safe key"

definition pad20 :: "nat \<Rightarrow> string" where
  \<comment> \<open>\<open>f"{n:020d}"\<close>\<close>
  "pad20 n = replicate (20 - length (show_nat n)) CHR ''0'' @ show_nat n"

definition l_put :: "'w redis \<Rightarrow> string \<Rightarrow> string \<Rightarrow> string \<Rightarrow> ('w, unit) prog" where
  \<comment> \<open>one value; the id is drawn before the time stamp\<close>
  "l_put R key side v =
     (\<lambda>w. case r_tick R w of (t, u, t') \<Rightarrow>
        bindM (r_put R (list_coll key) (side @ ''-'' @ pad20 t @ ''-'' @ take 6 u)
          [(''_v'', PStr v), (''_side'', PStr side), (''_ts'', PInt (int t'))]) (\<lambda>_. retM ()) w)"

definition pair_lt :: "pyval \<times> pyval \<Rightarrow> pyval \<times> pyval \<Rightarrow> bool option" where
  \<comment> \<open>\<open><\<close> of pairs\<close>
  "pair_lt a b =
     (if py_eq (fst a) (fst b) then
        if py_eq (snd a) (snd b) then Some False else py_lt (snd a) (snd b)
      else py_lt (fst a) (fst b))"

definition side_key :: "doc \<Rightarrow> pyval \<times> pyval" where
  "side_key r = (dget r ''_side'' (PStr ''R''), dget r ''_ts'' (PInt 0))"

definition list_rows :: "'w redis \<Rightarrow> string \<Rightarrow> ('w, doc list) prog" where
  "list_rows R key =
     bindM (r_from R (list_coll key)) (\<lambda>rows.
       liftM (sort_by (\<lambda>a b. pair_lt (side_key a) (side_key b)) rows))"

definition py_slice :: "int \<Rightarrow> int \<Rightarrow> 'a list \<Rightarrow> 'a list" where
  \<comment> \<open>\<open>xs[a:b]\<close>\<close>
  "py_slice a b xs =
     (let n = int (length xs);
          clip = (\<lambda>i. nat (if i < 0 then max 0 (i + n) else min i n))
      in drop (clip a) (take (clip b) xs))"

definition l_len :: "'w redis \<Rightarrow> string \<Rightarrow> ('w, int) prog" where
  "l_len R key = bindM (list_rows R key) (\<lambda>rs. retM (int (length rs)))"

definition l_push :: "'w redis \<Rightarrow> string \<Rightarrow> string list \<Rightarrow> ('w, reply) prog" where
  \<comment> \<open>\<open>LPUSH\<close>: the arguments from the last to the first\<close>
  "l_push R key vs =
     bindM (mapM (l_put R key ''L'') (rev vs)) (\<lambda>_. bindM (l_len R key) (\<lambda>n. retM (RInt n)))"

definition r_push :: "'w redis \<Rightarrow> string \<Rightarrow> string list \<Rightarrow> ('w, reply) prog" where
  "r_push R key vs =
     bindM (mapM (l_put R key ''R'') vs) (\<lambda>_. bindM (l_len R key) (\<lambda>n. retM (RInt n)))"

definition list_texts :: "'w redis \<Rightarrow> string \<Rightarrow> ('w, string list) prog" where
  "list_texts R key =
     bindM (list_rows R key) (\<lambda>rs. retM (map (row_text (r_ext R)) (cell_rows rs)))"

definition slice_to :: "int \<Rightarrow> int \<Rightarrow> 'a list \<Rightarrow> 'a list" where
  \<comment> \<open>the last index is included; \<open>-1\<close> is the end\<close>
  "slice_to a b xs = (let b = (if b = -1 then int (length xs) - 1 else b) in py_slice a (b + 1) xs)"

definition l_range :: "'w redis \<Rightarrow> string \<Rightarrow> string \<Rightarrow> string \<Rightarrow> ('w, string list) prog" where
  "l_range R key a b =
     bindM (list_texts R key) (\<lambda>vs.
     bindM (liftM (int_of_str a)) (\<lambda>i.
     bindM (liftM (int_of_str b)) (\<lambda>j. retM (slice_to i j vs))))"

definition l_index :: "'w redis \<Rightarrow> string \<Rightarrow> string \<Rightarrow> ('w, reply) prog" where
  "l_index R key index =
     bindM (list_texts R key) (\<lambda>vs.
     let vs = slice_to 0 (-1) vs; n = int (length vs) in
     bindM (liftM (int_of_str index)) (\<lambda>i.
       retM (if 0 \<le> i \<and> i < n then RText (vs ! nat i)
             else if - n \<le> i \<and> i < 0 then RText (vs ! nat (n + i)) else RNil)))"

definition l_set :: "'w redis \<Rightarrow> string \<Rightarrow> string \<Rightarrow> string \<Rightarrow> ('w, reply) prog" where
  "l_set R key index v =
     bindM (list_rows R key) (\<lambda>rows.
     bindM (liftM (int_of_str index)) (\<lambda>i0.
       let i = (if i0 < 0 then int (length rows) + i0 else i0) in
       if i < 0 \<or> i \<ge> int (length rows) then raiseM RedisErr
       else
         (let row = rows ! nat i in
          bindM (liftM (row_id row)) (\<lambda>rid.
          bindM (r_put R (list_coll key) rid (dset ''_v'' (PStr v) row)) (\<lambda>_. retM (RText ''OK''))))))"

definition l_take :: "'w redis \<Rightarrow> string \<Rightarrow> (doc list \<Rightarrow> doc) \<Rightarrow> ('w, reply) prog" where
  \<comment> \<open>\<open>LPOP\<close> takes the first row, \<open>RPOP\<close> the last\<close>
  "l_take R key pick =
     bindM (list_rows R key) (\<lambda>rows.
       if rows = [] then retM RNil
       else
         (let r = pick rows in
          bindM (liftM (row_id r)) (\<lambda>rid.
          bindM (r_del R (list_coll key) rid) (\<lambda>_.
            retM (RText (py_str (r_ext R) (dget r ''_v'' (PStr []))))))))"

section \<open>The dispatcher\<close>

definition r_type :: "'w redis \<Rightarrow> string \<Rightarrow> ('w, reply) prog" where
  "r_type R key =
     bindM (kv_has R key) (\<lambda>b.
       if b then retM (RText ''string'')
       else bindM (h_len R key) (\<lambda>n.
         if n > 0 then retM (RText ''hash'')
         else bindM (s_card R key) (\<lambda>n.
           if n > 0 then retM (RText ''set'')
           else bindM (l_len R key) (\<lambda>n.
             retM (RText (if n > 0 then ''list'' else ''none''))))))"

fun set_fold :: "(string set \<Rightarrow> string set \<Rightarrow> string set) \<Rightarrow> string set list \<Rightarrow> string set" where
  "set_fold f [] = {}"
| "set_fold f (S # Ss) = foldl f S Ss"

definition texts_reply :: "string list \<Rightarrow> reply" where
  "texts_reply vs = RList (map RText vs)"

text \<open>
  A method called with the wrong number of arguments raises \<open>TypeError\<close>, \<open>args[0]\<close> of none
  \<open>IndexError\<close>.
\<close>

definition cmd0 :: "string list \<Rightarrow> (string \<Rightarrow> ('w, reply) prog) \<Rightarrow> ('w, reply) prog" where
  "cmd0 args f = (case args of [] \<Rightarrow> raiseM IndexError | a # _ \<Rightarrow> f a)"

definition cmd1 :: "string list \<Rightarrow> (string \<Rightarrow> ('w, reply) prog) \<Rightarrow> ('w, reply) prog" where
  "cmd1 args f = (case args of [a] \<Rightarrow> f a | _ \<Rightarrow> raiseM TypeErr)"

definition cmd2 :: "string list \<Rightarrow> (string \<Rightarrow> string \<Rightarrow> ('w, reply) prog) \<Rightarrow> ('w, reply) prog" where
  "cmd2 args f = (case args of [a, b] \<Rightarrow> f a b | _ \<Rightarrow> raiseM TypeErr)"

definition cmd3 :: "string list \<Rightarrow> (string \<Rightarrow> string \<Rightarrow> string \<Rightarrow> ('w, reply) prog) \<Rightarrow> ('w, reply) prog" where
  "cmd3 args f = (case args of [a, b, c] \<Rightarrow> f a b c | _ \<Rightarrow> raiseM TypeErr)"

definition cmdn :: "string list \<Rightarrow> (string \<Rightarrow> string list \<Rightarrow> ('w, reply) prog) \<Rightarrow> ('w, reply) prog" where
  "cmdn args f = (case args of a # r \<Rightarrow> f a r | [] \<Rightarrow> raiseM TypeErr)"

definition replyM :: "('a \<Rightarrow> reply) \<Rightarrow> ('w, 'a) prog \<Rightarrow> ('w, reply) prog" where
  "replyM f m = bindM m (\<lambda>x. retM (f x))"

definition string_cmd :: "'w redis \<Rightarrow> string \<Rightarrow> string list \<Rightarrow> ('w, reply) prog option" where
  "string_cmd R cmd args =
     map_of
       [(''PING'', retM (case args of [] \<Rightarrow> RText ''PONG'' | a # _ \<Rightarrow> RText a)),
        (''SET'', cmdn args (\<lambda>k r. cmdn r (kv_set R k))),
        (''GET'', cmd1 args (\<lambda>k. replyM opt_text (kv_get R k))),
        (''GETDEL'', cmd1 args (kv_getdel R)),
        (''SETNX'', cmd2 args (kv_setnx R)),
        (''MSET'', kv_mset R args),
        (''MGET'', kv_mget R args),
        (''DEL'', kv_del R args),
        (''UNLINK'', kv_del R args),
        (''EXISTS'', kv_exists R args),
        (''INCR'', cmd0 args (\<lambda>k. kv_incrby R k 1)),
        (''INCRBY'', cmd0 args (\<lambda>k. cmd0 (tl args) (\<lambda>n. bindM (liftM (int_of_str n)) (kv_incrby R k)))),
        (''DECR'', cmd0 args (\<lambda>k. kv_incrby R k (-1))),
        (''DECRBY'', cmd0 args (\<lambda>k. cmd0 (tl args) (\<lambda>n.
           bindM (liftM (int_of_str n)) (\<lambda>d. kv_incrby R k (- d))))),
        (''APPEND'', cmd2 args (kv_append R)),
        (''STRLEN'', cmd0 args (kv_strlen R)),
        (''TYPE'', cmd1 args (r_type R)),
        (''RENAME'', cmd2 args (kv_rename R)),
        (''KEYS'', replyM texts_reply (kv_keys R (case args of [] \<Rightarrow> ''*'' | p # _ \<Rightarrow> p))),
        (''DBSIZE'', replyM (\<lambda>ks. RInt (int (length ks))) (kv_keys R ''*'')),
        (''FLUSHDB'', kv_flush R)] cmd"

definition hash_cmd :: "'w redis \<Rightarrow> string \<Rightarrow> string list \<Rightarrow> ('w, reply) prog option" where
  "hash_cmd R cmd args =
     map_of
       [(''HSET'', cmdn args (h_set R)),
        (''HMSET'', cmdn args (\<lambda>n r. replyM (\<lambda>_. RText ''OK'') (h_set R n r))),
        (''HSETNX'', cmd3 args (h_setnx R)),
        (''HGET'', cmd2 args (\<lambda>n f. replyM opt_text (h_get R n f))),
        (''HMGET'', cmdn args (h_mget R)),
        (''HGETALL'', cmd1 args (h_getall R)),
        (''HDEL'', cmdn args (h_del R)),
        (''HEXISTS'', cmd2 args (h_exists R)),
        (''HKEYS'', cmd1 args (\<lambda>n. replyM texts_reply (h_keys R n))),
        (''HVALS'', cmd1 args (\<lambda>n. replyM texts_reply (h_vals R n))),
        (''HLEN'', cmd1 args (\<lambda>n. replyM RInt (h_len R n))),
        (''HINCRBY'', cmd3 args (h_incrby R))] cmd"

definition sets_cmd :: "'w redis \<Rightarrow> (string set list \<Rightarrow> string set) \<Rightarrow> string list \<Rightarrow> ('w, reply) prog" where
  "sets_cmd R f keys = replyM (\<lambda>Ss. RSet (f Ss)) (mapM (s_members R) keys)"

definition set_cmd :: "'w redis \<Rightarrow> string \<Rightarrow> string list \<Rightarrow> ('w, reply) prog option" where
  "set_cmd R cmd args =
     map_of
       [(''SADD'', cmdn args (s_add R)),
        (''SMEMBERS'', cmd1 args (\<lambda>k. replyM RSet (s_members R k))),
        (''SISMEMBER'', cmd2 args (s_ismember R)),
        (''SREM'', cmdn args (s_rem R)),
        (''SCARD'', cmd1 args (\<lambda>k. replyM RInt (s_card R k))),
        (''SUNION'', sets_cmd R (foldl (\<union>) {}) args),
        (''SINTER'', sets_cmd R (set_fold (\<inter>)) args),
        (''SDIFF'', sets_cmd R (set_fold (-)) args)] cmd"

definition list_cmd :: "'w redis \<Rightarrow> string \<Rightarrow> string list \<Rightarrow> ('w, reply) prog option" where
  "list_cmd R cmd args =
     map_of
       [(''LPUSH'', cmdn args (l_push R)),
        (''RPUSH'', cmdn args (r_push R)),
        (''LRANGE'', cmd3 args (\<lambda>k a b. replyM texts_reply (l_range R k a b))),
        (''LLEN'', cmd1 args (\<lambda>k. replyM RInt (l_len R k))),
        (''LINDEX'', cmd2 args (l_index R)),
        (''LSET'', cmd3 args (l_set R)),
        (''LPOP'', cmd1 args (\<lambda>k. l_take R k hd)),
        (''RPOP'', cmd1 args (\<lambda>k. l_take R k last))] cmd"

definition redis_exec :: "'w redis \<Rightarrow> string \<Rightarrow> string list \<Rightarrow> ('w, reply) prog" where
  "redis_exec R command args =
     (let cmd = str_upper command in
      if cmd \<in> set UNSUPPORTED then raiseM RedisUnsupported
      else case string_cmd R cmd args of
        Some m \<Rightarrow> m
      | None \<Rightarrow> (case hash_cmd R cmd args of
          Some m \<Rightarrow> m
        | None \<Rightarrow> (case set_cmd R cmd args of
            Some m \<Rightarrow> m
          | None \<Rightarrow> (case list_cmd R cmd args of
              Some m \<Rightarrow> m
            | None \<Rightarrow> raiseM RedisErr))))"

end
