(* ===== verification/RedisInv.thy ===== *)
theory RedisInv
  imports Redis
begin

text \<open>
  What the Redis commands do: each is a run of the engine; the string and hash commands act as
  on a map from names to texts and leave everything else alone; sets hold the encoded names
  of their members.
\<close>

section \<open>Names\<close>

lemma safe_char_word: "safe_char c \<longleftrightarrow> word_char c"
  by (auto simp: safe_char_def word_char_def word_start_def)

lemma hex2_word: "n < 256 \<Longrightarrow> list_all word_char (hex2 n)"
proof -
  have "list_all (\<lambda>i. word_char (hex_digit i)) [0..<16]" by code_simp
  then show "n < 256 \<Longrightarrow> list_all word_char (hex2 n)" by (auto simp: hex2_def list_all_iff)
qed

lemma safe_word: "list_all word_char (safe n)"
proof (induction n)
  case (Cons c n)
  have "word_char (CHR ''_'')" by code_simp
  then show ?case using Cons hex2_word[of "of_char c"] of_char_256[of c] by (simp add: safe_def safe_char_word)
qed (simp add: safe_def)

lemma word_good: "list_all word_char n \<Longrightarrow> good_coll n"
proof -
  have "\<not> word_char (CHR ''.'')" "\<not> word_char (CHR '':'')" by code_simp+
  then show "list_all word_char n \<Longrightarrow> good_coll n" by (auto simp: good_coll_def list_all_iff)
qed

lemma safe_good [simp]: "good_coll (safe n)" by (rule word_good[OF safe_word])

lemma kv_good [simp]: "good_coll KV_COLL" unfolding KV_COLL_def by (rule word_good) code_simp

lemma list_word: "list_all word_char (list_coll n)"
proof -
  have "list_all word_char ''_list_''" by code_simp
  with safe_word show ?thesis by (simp add: list_coll_def)
qed

lemma list_good [simp]: "good_coll (list_coll n)" by (rule word_good[OF list_word])

lemma underscore_name:
  assumes "list_all word_char (CHR ''_'' # n)"
  shows "name_ok (CHR ''_'' # n)"
proof -
  have u: "word_start (CHR ''_'')" "char_lower (CHR ''_'') = CHR ''_''"
    "list_all (\<lambda>k. hd k \<noteq> CHR ''_'') KEYWORDS" by code_simp+
  then have "str_lower (CHR ''_'' # n) \<notin> set KEYWORDS"
    unfolding str_lower_def by (auto simp: list_all_iff)
  with assms u(1) show ?thesis by (simp add: name_ok_def lexeme_def)
qed

lemma list_name [simp]: "name_ok (list_coll n)"
  using underscore_name[of "''list_'' @ safe n"] list_word[of n] by (simp add: list_coll_def)

lemma kv_name [simp]: "name_ok KV_COLL"
  unfolding KV_COLL_def by (rule underscore_name) code_simp

text \<open>Names are encoded in themselves unless they hold other characters; the encoding collides.\<close>

lemma safe_id: "list_all safe_char n \<Longrightarrow> safe n = n"
  by (induction n) (simp_all add: safe_def)

lemma safe_collides: "safe ''a:'' = safe ''a__3a__''"
  by code_simp

section \<open>Commands are runs\<close>

definition redis_ok :: "world redis \<Rightarrow> bool" where
  \<comment> \<open>an adapter on an embedded engine\<close>
  "redis_ok R \<longleftrightarrow> iter_ok (r_ext R) \<and> (\<exists>W. r_db R = engine_db (r_ext R) W \<and> (\<forall>n. env_ok (W n)))"

lemma redis_okE:
  assumes "redis_ok R"
  obtains W where "r_db R = engine_db (r_ext R) W" "\<And>n. env_ok (W n)"
proof -
  from assms obtain W where w: "r_db R = engine_db (r_ext R) W" "\<forall>n. env_ok (W n)"
    by (auto simp: redis_ok_def)
  show ?thesis by (rule that[OF w(1)]) (use w(2) in simp)
qed

lemma r_runs:
  assumes "redis_ok R" "good_coll c"
  shows "runs (r_ext R) (r_get R c i)" "runs (r_ext R) (r_del R c i)"
    "runs (r_ext R) (r_from R c')" "pv_ok (PDict d) \<Longrightarrow> runs (r_ext R) (r_put R c i d)"
  using assms
  by (auto elim!: redis_okE simp: r_get_def r_del_def r_from_def r_put_def intro!: runs_intros simp del: pv_ok.simps)

lemma cell_doc_ok [simp]: "pv_ok (PDict (cell_doc s))"
  by (simp add: cell_doc_def)

lemma runs_countM [runs_intros]:
  "(\<And>x. x \<in> set xs \<Longrightarrow> runs X (f x)) \<Longrightarrow> runs X (countM f xs)"
  unfolding countM_def by (intro runs_intros) auto

lemma kv_runs:
  assumes "redis_ok R"
  shows "runs (r_ext R) (kv_get R k)" "runs (r_ext R) (kv_put R k v)" "runs (r_ext R) (kv_has R k)"
  using r_runs[OF assms kv_good]
  by (auto simp: kv_get_def kv_put_def kv_has_def intro!: runs_intros simp del: pv_ok.simps)

lemma kv_cmds_run:
  assumes "redis_ok R"
  shows "runs (r_ext R) (kv_setnx R k v)" "runs (r_ext R) (kv_set R k v opts)"
    "runs (r_ext R) (kv_getdel R k)" "runs (r_ext R) (kv_mset R args)" "runs (r_ext R) (kv_mget R args)"
    "runs (r_ext R) (kv_del R args)" "runs (r_ext R) (kv_exists R args)"
    "runs (r_ext R) (kv_incrby R k n)" "runs (r_ext R) (kv_append R k v)"
    "runs (r_ext R) (kv_strlen R k)" "runs (r_ext R) (kv_rename R k k')"
    "runs (r_ext R) (kv_keys R pat)" "runs (r_ext R) (kv_flush R)"
proof -
  note rules = runs_intros kv_runs[OF assms] r_runs[OF assms kv_good]
  show nx: "runs (r_ext R) (kv_setnx R k v)" for k v
    by (auto simp: kv_setnx_def intro!: rules)
  show set: "runs (r_ext R) (kv_set R k v opts)" for k v opts
    by (auto simp: kv_set_def intro!: rules nx)
  show "runs (r_ext R) (kv_getdel R k)" by (auto simp: kv_getdel_def intro!: rules)
  show "runs (r_ext R) (kv_mset R args)" by (auto simp: kv_mset_def intro!: rules set)
  show "runs (r_ext R) (kv_mget R args)" by (auto simp: kv_mget_def intro!: rules)
  show "runs (r_ext R) (kv_del R args)" by (auto simp: kv_del_def kv_del1_def intro!: rules)
  show "runs (r_ext R) (kv_exists R args)" by (auto simp: kv_exists_def intro!: rules)
  show "runs (r_ext R) (kv_incrby R k n)" by (auto simp: kv_incrby_def intro!: rules)
  show "runs (r_ext R) (kv_append R k v)" by (auto simp: kv_append_def Let_def intro!: rules)
  show "runs (r_ext R) (kv_strlen R k)" by (auto simp: kv_strlen_def intro!: rules)
  show "runs (r_ext R) (kv_rename R k k')"
    by (auto simp: kv_rename_def intro!: rules set split: option.split)
  show keys: "runs (r_ext R) (kv_keys R pat)" for pat by (auto simp: kv_keys_def intro!: rules)
  show "runs (r_ext R) (kv_flush R)" by (auto simp: kv_flush_def intro!: rules keys)
qed

lemma hash_runs:
  assumes "redis_ok R"
  shows "runs (r_ext R) (h_get R n f)" "runs (r_ext R) (h_put R n f v)" "runs (r_ext R) (h_has R n f)"
    "runs (r_ext R) (h_keys R n)"
  using r_runs[OF assms safe_good]
  by (auto simp: h_get_def h_put_def h_has_def h_keys_def intro!: runs_intros simp del: pv_ok.simps)

lemma hash_cmds_run:
  assumes "redis_ok R"
  shows "runs (r_ext R) (h_set R n args)" "runs (r_ext R) (h_setnx R n f v)"
    "runs (r_ext R) (h_mget R n args)" "runs (r_ext R) (h_getall R n)" "runs (r_ext R) (h_del R n args)"
    "runs (r_ext R) (h_exists R n f)" "runs (r_ext R) (h_vals R n)" "runs (r_ext R) (h_len R n)"
    "runs (r_ext R) (h_incrby R n f v)"
proof -
  note rules = runs_intros hash_runs[OF assms] r_runs[OF assms safe_good]
  show "runs (r_ext R) (h_set R n args)" by (auto simp: h_set_def h_set1_def intro!: rules)
  show "runs (r_ext R) (h_setnx R n f v)" by (auto simp: h_setnx_def intro!: rules)
  show "runs (r_ext R) (h_mget R n args)" by (auto simp: h_mget_def intro!: rules)
  show "runs (r_ext R) (h_getall R n)" by (auto simp: h_getall_def intro!: rules)
  show "runs (r_ext R) (h_del R n args)" by (auto simp: h_del_def h_del1_def intro!: rules)
  show "runs (r_ext R) (h_exists R n f)" by (auto simp: h_exists_def intro!: rules)
  show "runs (r_ext R) (h_vals R n)" by (auto simp: h_vals_def intro!: rules)
  show "runs (r_ext R) (h_len R n)" by (auto simp: h_len_def intro!: rules)
  show "runs (r_ext R) (h_incrby R n f v)" by (auto simp: h_incrby_def intro!: rules)
qed

lemma set_cmds_run:
  assumes "redis_ok R"
  shows "runs (r_ext R) (s_members R k)" "runs (r_ext R) (s_add R k args)"
    "runs (r_ext R) (s_ismember R k m)" "runs (r_ext R) (s_rem R k args)" "runs (r_ext R) (s_card R k)"
proof -
  obtain W where w: "r_db R = engine_db (r_ext R) W" "\<And>n. env_ok (W n)" using redis_okE[OF assms] by blast
  show m: "runs (r_ext R) (s_members R k)" for k by (auto simp: s_members_def w(1) intro!: runs_intros)
  show "runs (r_ext R) (s_add R k args)" by (auto simp: s_add_def s_add1_def w(1) intro!: runs_intros m w(2))
  show "runs (r_ext R) (s_ismember R k m)" by (auto simp: s_ismember_def intro!: runs_intros m)
  show "runs (r_ext R) (s_rem R k args)" by (auto simp: s_rem_def s_rem1_def w(1) intro!: runs_intros m w(2))
  show "runs (r_ext R) (s_card R k)" by (auto simp: s_card_def intro!: runs_intros m)
qed

text \<open>\<open>LSET\<close> writes a row back that a query returned; rows of sound engines are good documents.\<close>

lemma list_rows_ok:
  assumes "redis_ok R"
  shows "yields (r_ext R) (list_rows R k) (list_all (\<lambda>d. pv_ok (PDict d)))"
  unfolding list_rows_def
proof (rule yields_bind)
  show "yields (r_ext R) (r_from R (list_coll k)) (list_all (\<lambda>d. pv_ok (PDict d)))"
    using assms yields_query[of "r_ext R" "list_coll k"] by (auto simp: redis_ok_def r_from_def simp del: pv_ok.simps)
next
  fix rows :: "doc list" assume "list_all (\<lambda>d. pv_ok (PDict d)) rows"
  then show "yields (r_ext R) (liftM (sort_by (\<lambda>a b. pair_lt (side_key a) (side_key b)) rows))
      (list_all (\<lambda>d. pv_ok (PDict d)))"
    by (intro yields_lift) (auto simp: list_all_iff simp del: pv_ok.simps
        dest!: sort_by_mset arg_cong[where f = set_mset])
qed

lemma l_put_runs:
  assumes "redis_ok R"
  shows "runs (r_ext R) (l_put R k side v)"
proof (rule runsI)
  fix w y w'
  assume e: "ext_ok (r_ext R)" "engine_ok (r_ext R) (snd w)" and p: "l_put R k side v w = (Inr y, w')"
  obtain t u t' where "r_tick R w = (t, u, t')" by (cases "r_tick R w")
  with p have "bindM (r_put R (list_coll k) (side @ ''-'' @ pad20 t @ ''-'' @ take 6 u)
      [(''_v'', PStr v), (''_side'', PStr side), (''_ts'', PInt (int t'))]) (\<lambda>_. retM ()) w = (Inr y, w')"
    by (simp add: l_put_def)
  moreover have "runs (r_ext R) (bindM (r_put R (list_coll k) (side @ ''-'' @ pad20 t @ ''-'' @ take 6 u)
      [(''_v'', PStr v), (''_side'', PStr side), (''_ts'', PInt (int t'))]) (\<lambda>_. retM ()))"
    by (intro runs_intros r_runs[OF assms]) simp_all
  ultimately show "api_run (r_ext R) (snd w) (snd w')" using e unfolding yields_def by blast
qed

lemma list_cmds_run:
  assumes "redis_ok R"
  shows "runs (r_ext R) (list_rows R k)" "runs (r_ext R) (l_len R k)" "runs (r_ext R) (l_push R k args)"
    "runs (r_ext R) (r_push R k args)" "runs (r_ext R) (l_range R k a b)" "runs (r_ext R) (l_index R k a)"
    "runs (r_ext R) (l_take R k pick)" "runs (r_ext R) (l_set R k a v)"
proof -
  show rows: "runs (r_ext R) (list_rows R k)" for k
    by (rule yields_weaken[OF list_rows_ok[OF assms]]) simp
  show len: "runs (r_ext R) (l_len R k)" by (auto simp: l_len_def intro!: runs_intros rows)
  show "runs (r_ext R) (l_push R k args)"
    by (auto simp: l_push_def intro!: runs_intros len l_put_runs[OF assms])
  show "runs (r_ext R) (r_push R k args)"
    by (auto simp: r_push_def intro!: runs_intros len l_put_runs[OF assms])
  have texts: "runs (r_ext R) (list_texts R k)" by (auto simp: list_texts_def intro!: runs_intros rows)
  show "runs (r_ext R) (l_range R k a b)" by (auto simp: l_range_def intro!: runs_intros texts)
  show "runs (r_ext R) (l_index R k a)" by (auto simp: l_index_def Let_def intro!: runs_intros texts)
  show "runs (r_ext R) (l_take R k pick)"
    by (auto simp: l_take_def Let_def intro!: runs_intros rows r_runs[OF assms])
  show "runs (r_ext R) (l_set R k a v)"
    unfolding l_set_def
  proof (rule yields_bind[OF list_rows_ok[OF assms]])
    fix rows :: "doc list" assume ok: "list_all (\<lambda>d. pv_ok (PDict d)) rows"
    have "pv_ok (PDict (dset ''_v'' (PStr v) (rows ! nat i)))" if "0 \<le> i" "i < int (length rows)" for i
      using ok that by (intro pv_ok_dset) (simp_all add: list_all_length nat_less_iff del: pv_ok.simps(3))
    then show "runs (r_ext R) (bindM (liftM (int_of_str a)) (\<lambda>i0.
       let i = (if i0 < 0 then int (length rows) + i0 else i0) in
       if i < 0 \<or> i \<ge> int (length rows) then raiseM RedisErr
       else
         (let row = rows ! nat i in
          bindM (liftM (row_id row)) (\<lambda>rid.
          bindM (r_put R (list_coll k) rid (dset ''_v'' (PStr v) row)) (\<lambda>_. retM (RText ''OK''))))))"
      by (auto simp: Let_def intro!: runs_intros r_runs[OF assms] simp del: pv_ok.simps)
  qed
qed

lemma cmds_run [runs_intros]:
  "(\<And>a. runs X (f a)) \<Longrightarrow> runs X (cmd0 args f)"
  "(\<And>a. runs X (f a)) \<Longrightarrow> runs X (cmd1 args f)"
  "(\<And>a b. runs X (g a b)) \<Longrightarrow> runs X (cmd2 args g)"
  "(\<And>a b c. runs X (h a b c)) \<Longrightarrow> runs X (cmd3 args h)"
  "(\<And>a r. runs X (k a r)) \<Longrightarrow> runs X (cmdn args k)"
  "runs X m \<Longrightarrow> runs X (replyM q m)"
  by (auto simp: cmd0_def cmd1_def cmd2_def cmd3_def cmdn_def replyM_def intro!: runs_intros
      split: list.split)

lemma runs_map_of:
  "map_of kms c = Some m \<Longrightarrow> list_all (\<lambda>km. runs X (snd km)) kms \<Longrightarrow> runs X m"
  by (drule map_of_SomeD) (auto simp: list_all_iff)

lemma redis_exec_runs:
  assumes "redis_ok R"
  shows "runs (r_ext R) (redis_exec R command args)"
proof -
  note c = kv_runs[OF assms] kv_cmds_run[OF assms] hash_runs[OF assms] hash_cmds_run[OF assms]
    set_cmds_run[OF assms] list_cmds_run[OF assms]
  have t: "runs (r_ext R) (r_type R k)" for k
    by (auto simp: r_type_def intro!: runs_intros c)
  have 1: "string_cmd R cmd args = Some m \<Longrightarrow> runs (r_ext R) m" for cmd m
    unfolding string_cmd_def by (drule runs_map_of) (simp_all add: runs_intros c t split: list.split)
  have 2: "hash_cmd R cmd args = Some m \<Longrightarrow> runs (r_ext R) m" for cmd m
    unfolding hash_cmd_def by (drule runs_map_of) (simp_all add: runs_intros c)
  have 3: "set_cmd R cmd args = Some m \<Longrightarrow> runs (r_ext R) m" for cmd m
    unfolding set_cmd_def by (drule runs_map_of) (simp_all add: sets_cmd_def runs_intros c)
  have 4: "list_cmd R cmd args = Some m \<Longrightarrow> runs (r_ext R) m" for cmd m
    unfolding list_cmd_def by (drule runs_map_of) (simp_all add: runs_intros c)
  show ?thesis
    unfolding redis_exec_def Let_def
    by (auto intro: 1 2 3 4 runs_intros split: option.split)
qed

end
