(* ===== verification/RedisKv.thy ===== *)
theory RedisKv
  imports RedisInv
begin

text \<open>
  The string commands as operations on a map from keys to texts: an abstract semantics of the
  commands and the proof that the adapter refines it, for every database object that keeps a
  collection as a table of texts (\<open>cell_store\<close>), the embedded engine first.
\<close>

section \<open>The abstract commands\<close>

datatype kvcmd = KSet string string | KGet string | KSetNx string string | KGetDel string
  | KMSet "(string \<times> string) list" | KMGet "string list" | KDel "string list"
  | KExists "string list" | KIncrBy string int | KAppend string string | KStrLen string
  | KRename string string

fun kv_wire :: "kvcmd \<Rightarrow> string \<times> string list" where
  "kv_wire (KSet k v) = (''SET'', [k, v])"
| "kv_wire (KGet k) = (''GET'', [k])"
| "kv_wire (KSetNx k v) = (''SETNX'', [k, v])"
| "kv_wire (KGetDel k) = (''GETDEL'', [k])"
| "kv_wire (KMSet kvs) = (''MSET'', concat (map (\<lambda>(k, v). [k, v]) kvs))"
| "kv_wire (KMGet ks) = (''MGET'', ks)"
| "kv_wire (KDel ks) = (''DEL'', ks)"
| "kv_wire (KExists ks) = (''EXISTS'', ks)"
| "kv_wire (KIncrBy k n) = (''INCRBY'', [k, show_int n])"
| "kv_wire (KAppend k v) = (''APPEND'', [k, v])"
| "kv_wire (KStrLen k) = (''STRLEN'', [k])"
| "kv_wire (KRename a b) = (''RENAME'', [a, b])"

text \<open>The reply and the new map; \<open>None\<close> is an error.\<close>

fun kv_sem :: "kvcmd \<Rightarrow> (string \<Rightarrow> string option) \<Rightarrow> (reply \<times> (string \<Rightarrow> string option)) option" where
  "kv_sem (KSet k v) m = Some (RText ''OK'', m(k \<mapsto> v))"
| "kv_sem (KGet k) m = Some (opt_text (m k), m)"
| "kv_sem (KSetNx k v) m = Some (if m k = None then (RInt 1, m(k \<mapsto> v)) else (RInt 0, m))"
| "kv_sem (KGetDel k) m = Some (opt_text (m k), m(k := None))"
| "kv_sem (KMSet kvs) m = Some (RText ''OK'', fold (\<lambda>(k, v) m. m(k \<mapsto> v)) kvs m)"
| "kv_sem (KMGet ks) m = Some (RList (map (\<lambda>k. opt_text (m k)) ks), m)"
| "kv_sem (KDel ks) m = Some (RInt (int (card (set ks \<inter> dom m))), m |` (- set ks))"
| "kv_sem (KExists ks) m = Some (RInt (int (length (filter (\<lambda>k. m k \<noteq> None) ks))), m)"
| "kv_sem (KIncrBy k n) m =
     (case (case m k of None \<Rightarrow> Inr 0 | Some s \<Rightarrow> int_of_str s) of
        Inl _ \<Rightarrow> None
      | Inr i \<Rightarrow> Some (RInt (i + n), m(k \<mapsto> show_int (i + n))))"
| "kv_sem (KAppend k v) m =
     (let s = (case m k of None \<Rightarrow> [] | Some t \<Rightarrow> t) @ v in Some (RInt (int (length s)), m(k \<mapsto> s)))"
| "kv_sem (KStrLen k) m = Some (RInt (case m k of None \<Rightarrow> 0 | Some s \<Rightarrow> int (length s)), m)"
| "kv_sem (KRename a b) m =
     (case m a of None \<Rightarrow> None | Some v \<Rightarrow> Some (RText ''OK'', m(b \<mapsto> v, a := None)))"

section \<open>Programs on a map\<close>

text \<open>
  \<open>h w m\<close>: in the state \<open>w\<close> the collection is the map \<open>m\<close>.  \<open>does h m p x m'\<close>: on the map \<open>m\<close> the
  program returns \<open>x\<close> and leaves \<open>m'\<close>; \<open>fails\<close>: it raises and leaves the map.
\<close>

type_synonym 'w holding = "'w \<Rightarrow> (string \<Rightarrow> string option) \<Rightarrow> bool"

definition does :: "'w holding \<Rightarrow> (string \<Rightarrow> string option) \<Rightarrow> ('w, 'a) prog \<Rightarrow> 'a \<Rightarrow>
    (string \<Rightarrow> string option) \<Rightarrow> bool" where
  "does h m p x m' \<longleftrightarrow> (\<forall>w. h w m \<longrightarrow> (\<exists>w'. p w = (Inr x, w') \<and> h w' m'))"

definition fails :: "'w holding \<Rightarrow> (string \<Rightarrow> string option) \<Rightarrow> ('w, 'a) prog \<Rightarrow> bool" where
  "fails h m p \<longleftrightarrow> (\<forall>w. h w m \<longrightarrow> (\<exists>x w'. p w = (Inl x, w') \<and> h w' m))"

lemma does_ret: "does h m (retM x) x m"
  by (simp add: does_def)

lemma does_lift: "r = Inr x \<Longrightarrow> does h m (liftM r) x m"
  by (simp add: does_def)

lemma does_bind:
  assumes "does h m p x m1" "does h m1 (f x) y m2"
  shows "does h m (bindM p f) y m2"
  unfolding does_def bindM_Inr using assms unfolding does_def by blast

lemma fails_bind: "does h m p x m \<Longrightarrow> fails h m (f x) \<Longrightarrow> fails h m (bindM p f)"
  unfolding does_def fails_def bindM_def by fastforce

lemma fails_raise: "fails h m (raiseM ex)"
  by (simp add: fails_def raiseM_def)

lemma fails_lift_bind: "r = Inl ex \<Longrightarrow> fails h m (bindM (liftM r) f)"
  by (simp add: fails_def bindM_def liftM_def)

lemma does_mapM:
  assumes "\<And>x. x \<in> set xs \<Longrightarrow> does h m (f x) (g x) m"
  shows "does h m (mapM f xs) (map g xs) m"
  using assms by (induction xs) (auto intro!: does_bind does_ret)

lemma does_mapM_fold:
  assumes "\<And>x m. does h m (f x) (g x m) (k x m)"
  shows "\<exists>ys. does h m (mapM f xs) ys (fold k xs m) \<and> length ys = length xs"
proof (induction xs arbitrary: m)
  case (Cons x xs)
  from Cons[of "k x m"] obtain ys where "does h (k x m) (mapM f xs) ys (fold k xs (k x m))"
    "length ys = length xs" by blast
  then have "does h m (mapM f (x # xs)) (g x m # ys) (fold k (x # xs) m)"
    using assms[of m x] by (auto intro!: does_bind does_ret)
  with \<open>length ys = length xs\<close> show ?case by (intro exI[of _ "g x m # ys"]) simp
qed (auto intro: does_ret)

text \<open>Loops over keys that count what they removed or added.\<close>

lemma does_count_del:
  assumes "\<And>i m. does h m (f i) (m i \<noteq> None) (m(i := None))"
  shows "\<exists>bs. does h m (mapM f ks) bs (m |` (- set ks)) \<and>
     length (filter (\<lambda>b. b) bs) = card (set ks \<inter> dom m)"
proof (induction ks arbitrary: m)
  case (Cons k ks)
  from Cons[of "m(k := None)"] obtain bs where
    b: "does h (m(k := None)) (mapM f ks) bs (m(k := None) |` (- set ks))"
      "length (filter (\<lambda>b. b) bs) = card (set ks \<inter> dom (m(k := None)))" by blast
  have e: "m(k := None) |` (- set ks) = m |` (- set (k # ks))" by (auto simp: restrict_map_def)
  have "does h m (mapM f (k # ks)) ((m k \<noteq> None) # bs) (m |` (- set (k # ks)))"
    using b(1) unfolding e by (auto intro!: does_bind[OF assms] does_bind does_ret)
  moreover have "set (k # ks) \<inter> dom m = (if m k = None then {} else {k}) \<union> (set ks \<inter> dom (m(k := None)))"
    by auto
  then have "card (set (k # ks) \<inter> dom m) =
      (if m k = None then 0 else 1) + card (set ks \<inter> dom (m(k := None)))"
    by (simp add: card_insert_if)
  ultimately show ?case using b(2) by (intro exI[of _ "(m k \<noteq> None) # bs"]) simp
next
  case (Nil m)
  have "m |` (- set []) = m" by (simp add: restrict_map_def)
  then show ?case by (intro exI[of _ "[]"]) (simp add: does_ret)
qed

lemma does_count_put:
  assumes "\<And>kv m. does h m (f kv) (m (fst kv) = None) (m(fst kv \<mapsto> snd kv))"
  shows "\<exists>bs. does h m (mapM f kvs) bs (fold (\<lambda>(k, v) m. m(k \<mapsto> v)) kvs m) \<and>
     length (filter (\<lambda>b. b) bs) = card (fst ` set kvs - dom m)"
proof (induction kvs arbitrary: m)
  case (Cons kv kvs)
  let ?m = "m(fst kv \<mapsto> snd kv)"
  from Cons[of ?m] obtain bs where
    b: "does h ?m (mapM f kvs) bs (fold (\<lambda>(k, v) m. m(k \<mapsto> v)) kvs ?m)"
      "length (filter (\<lambda>b. b) bs) = card (fst ` set kvs - dom ?m)" by blast
  have d: "does h m (mapM f (kv # kvs)) ((m (fst kv) = None) # bs) (fold (\<lambda>(k, v) m. m(k \<mapsto> v)) (kv # kvs) m)"
    using b(1) by (auto simp: case_prod_beta intro!: does_bind[OF assms] does_bind does_ret)
  have "fst ` set (kv # kvs) - dom m =
      (if m (fst kv) = None then {fst kv} else {}) \<union> (fst ` set kvs - dom ?m)" by auto
  then have c: "card (fst ` set (kv # kvs) - dom m) =
      (if m (fst kv) = None then 1 else 0) + card (fst ` set kvs - dom ?m)"
    by (simp add: card_insert_if)
  show ?case by (intro exI[of _ "(m (fst kv) = None) # bs"] conjI, rule d) (use b(2) c in simp)
qed (auto intro: does_ret)

lemma doc_text_cell: "map_of d ''_v'' = Some (PStr s) \<Longrightarrow> doc_text X (Some d) = Some s"
  by (simp add: doc_text_def)

lemma doc_int_cell: "map_of d ''_v'' = Some (PStr s) \<Longrightarrow> doc_int (Some d) = int_of_str s"
  by (simp add: doc_int_def int_of_val_def)

text \<open>What the commands on texts need of the database object: the table of one collection.\<close>

locale cell_store =
  fixes R :: "'w redis"
    and c :: string
    and h :: "'w holding"
  assumes get_at: "h w m \<Longrightarrow> \<exists>r w'. r_get R c i w = (Inr r, w') \<and> h w' m \<and> (r = None \<longleftrightarrow> m i = None) \<and>
      (\<forall>d. r = Some d \<longrightarrow> (\<exists>s. m i = Some s \<and> map_of d ''_v'' = Some (PStr s)))"
    and put_at: "h w m \<Longrightarrow> \<exists>r w'. r_put R c i (cell_doc s) w = (Inr r, w') \<and> h w' (m(i \<mapsto> s))"
    and del_at: "h w m \<Longrightarrow> \<exists>w'. r_del R c i w = (Inr (), w') \<and> h w' (m(i := None))"
begin

lemma does_doc:
  assumes "m i = None \<Longrightarrow> does h m (f None) y m'"
    "\<And>s d. m i = Some s \<Longrightarrow> map_of d ''_v'' = Some (PStr s) \<Longrightarrow> does h m (f (Some d)) y m'"
  shows "does h m (bindM (r_get R c i) f) y m'"
  unfolding does_def bindM_Inr
proof (intro allI impI)
  fix w assume "h w m"
  from get_at[OF this, of i] obtain r w1 where g: "r_get R c i w = (Inr r, w1)" "h w1 m" "r = None \<longleftrightarrow> m i = None"
    "\<forall>d. r = Some d \<longrightarrow> (\<exists>s. m i = Some s \<and> map_of d ''_v'' = Some (PStr s))"
    by (elim exE conjE)
  have "does h m (f r) y m'"
    using assms g(3,4) by (cases r) auto
  with g(1,2) show "\<exists>w'. (\<exists>x w1. r_get R c i w = (Inr x, w1) \<and> f x w1 = (Inr y, w')) \<and> h w' m'"
    unfolding does_def by blast
qed

lemma fails_doc:
  assumes "m i = None \<Longrightarrow> fails h m (f None)"
    "\<And>s d. m i = Some s \<Longrightarrow> map_of d ''_v'' = Some (PStr s) \<Longrightarrow> fails h m (f (Some d))"
  shows "fails h m (bindM (r_get R c i) f)"
  unfolding fails_def
proof (intro allI impI)
  fix w assume "h w m"
  from get_at[OF this, of i] obtain r w1 where g: "r_get R c i w = (Inr r, w1)" "h w1 m" "r = None \<longleftrightarrow> m i = None"
    "\<forall>d. r = Some d \<longrightarrow> (\<exists>s. m i = Some s \<and> map_of d ''_v'' = Some (PStr s))"
    by (elim exE conjE)
  have "fails h m (f r)"
    using assms g(3,4) by (cases r) auto
  with g(1,2) show "\<exists>x w'. bindM (r_get R c i) f w = (Inl x, w') \<and> h w' m"
    unfolding fails_def bindM_def by fastforce
qed

lemma does_put:
  assumes "\<And>x. does h (m(i \<mapsto> s)) (f x) y m'"
  shows "does h m (bindM (r_put R c i (cell_doc s)) f) y m'"
  unfolding does_def bindM_Inr
proof (intro allI impI)
  fix w assume "h w m"
  then obtain r w1 where p: "r_put R c i (cell_doc s) w = (Inr r, w1)" "h w1 (m(i \<mapsto> s))"
    using put_at[of w m i s] by blast
  with assms[of r] show "\<exists>w'. (\<exists>x w1. r_put R c i (cell_doc s) w = (Inr x, w1) \<and> f x w1 = (Inr y, w'))
      \<and> h w' m'"
    unfolding does_def by blast
qed

lemma does_del: "does h m (r_del R c i) () (m(i := None))"
  unfolding does_def using del_at by blast

lemma does_text: "does h m (bindM (r_get R c i) (\<lambda>d. retM (doc_text X' d))) (m i) m"
  by (rule does_doc) (simp_all add: doc_text_cell doc_text_def does_ret)

lemma does_has: "does h m (bindM (r_get R c i) (\<lambda>d. retM (d \<noteq> None))) (m i \<noteq> None) m"
  by (rule does_doc) (simp_all add: does_ret)

lemma does_store: "does h m (bindM (r_put R c i (cell_doc v)) (\<lambda>_. retM ())) () (m(i \<mapsto> v))"
  by (rule does_put) (rule does_ret)

lemma does_del1:
  "does h m (bindM (bindM (r_get R c i) (\<lambda>d. retM (d \<noteq> None)))
     (\<lambda>b. if b then bindM (r_del R c i) (\<lambda>_. retM True) else retM False)) (m i \<noteq> None) (m(i := None))"
proof (rule does_bind[OF does_has], cases "m i")
  case None
  then show "does h m (if m i \<noteq> None then bindM (r_del R c i) (\<lambda>_. retM True) else retM False)
      (m i \<noteq> None) (m(i := None))"
    by (simp add: fun_upd_idem does_ret)
next
  case (Some v)
  then show "does h m (if m i \<noteq> None then bindM (r_del R c i) (\<lambda>_. retM True) else retM False)
      (m i \<noteq> None) (m(i := None))"
    by (auto intro!: does_bind[OF does_del] does_ret)
qed

text \<open>A counter: the value read as a number and its sum stored, by \<open>INCRBY\<close> and \<open>HINCRBY\<close>.\<close>

lemma does_counter:
  assumes "(case m i of None \<Rightarrow> Inr 0 | Some s \<Rightarrow> int_of_str s) = Inr j"
    "does h m (f j) y m'"
  shows "does h m (bindM (r_get R c i) (\<lambda>d. bindM (liftM (doc_int d)) f)) y m'"
  by (rule does_doc)
    (use assms in \<open>auto intro!: does_bind[OF does_lift] simp: doc_int_cell, simp_all add: doc_int_def\<close>)

lemma fails_counter:
  assumes "(case m i of None \<Rightarrow> Inr 0 | Some s \<Rightarrow> int_of_str s) = Inl ex"
  shows "fails h m (bindM (r_get R c i) (\<lambda>d. bindM (liftM (doc_int d)) f))"
  by (rule fails_doc) (use assms in \<open>auto intro!: fails_lift_bind simp: doc_int_cell\<close>)

end

section \<open>The string commands\<close>

lemma pairs_of_concat: "pairs_of (concat (map (\<lambda>(k, v). [k, v]) kvs)) = Inr kvs"
proof -
  let ?xs = "concat (map (\<lambda>(k, v). [k, v]) kvs)"
  have l: "length ?xs = 2 * length kvs" by (induction kvs) auto
  have "?xs ! (2 * i) = fst (kvs ! i) \<and> ?xs ! (2 * i + 1) = snd (kvs ! i)" if "i < length kvs" for i
    using that
  proof (induction kvs arbitrary: i)
    case (Cons kv kvs)
    then show ?case by (cases i) (auto split: prod.split)
  qed simp
  then have "map (\<lambda>i. (?xs ! (2 * i), ?xs ! (2 * i + 1))) [0..<length kvs] = kvs"
    by (intro nth_equalityI) simp_all
  with l show ?thesis by (simp add: pairs_of_def)
qed

lemma redis_string: "map_of kms cmd = Some s \<Longrightarrow> string_cmd R cmd args = map_of kms cmd \<Longrightarrow>
    str_upper cmd = cmd \<Longrightarrow> cmd \<notin> set UNSUPPORTED \<Longrightarrow> redis_exec R cmd args = s"
  by (simp add: redis_exec_def)

lemma kv_exec:
  "redis_exec R ''SET'' [k, v] = kv_set R k v []"
  "redis_exec R ''GET'' [k] = replyM opt_text (kv_get R k)"
  "redis_exec R ''SETNX'' [k, v] = kv_setnx R k v"
  "redis_exec R ''GETDEL'' [k] = kv_getdel R k"
  "redis_exec R ''MSET'' ks = kv_mset R ks"
  "redis_exec R ''MGET'' ks = kv_mget R ks"
  "redis_exec R ''DEL'' ks = kv_del R ks"
  "redis_exec R ''EXISTS'' ks = kv_exists R ks"
  "redis_exec R ''INCRBY'' [k, i] = bindM (liftM (int_of_str i)) (kv_incrby R k)"
  "redis_exec R ''APPEND'' [k, v] = kv_append R k v"
  "redis_exec R ''STRLEN'' [k] = kv_strlen R k"
  "redis_exec R ''RENAME'' [k, v] = kv_rename R k v"
  by (simp_all add: redis_exec_def UNSUPPORTED_def string_cmd_def str_upper_def char_upper_def is_lower_def
      less_eq_char_def cmd0_def cmd1_def cmd2_def cmdn_def)

locale kv_store = cell_store R KV_COLL h for R :: "'w redis" and h :: "'w holding"
begin

abbreviation "kvdoes \<equiv> does h"

lemma kv_does:
  "kvdoes m (kv_get R k) (m k) m" "kvdoes m (kv_has R k) (m k \<noteq> None) m"
  "kvdoes m (kv_put R k v) () (m(k \<mapsto> v))" "kvdoes m (r_del R KV_COLL k) () (m(k := None))"
  unfolding kv_get_def kv_has_def kv_put_def
  by (rule does_text does_has does_store does_del)+

lemma kv_set_does: "kvdoes m (kv_set R k v []) (RText ''OK'') (m(k \<mapsto> v))"
  unfolding kv_set_def by (auto intro!: does_bind[OF kv_does(3)] does_ret)

lemma kv_mset_does:
  "kvdoes m (kv_mset R (concat (map (\<lambda>(k, v). [k, v]) kvs))) (RText ''OK'') (fold (\<lambda>(k, v) m. m(k \<mapsto> v)) kvs m)"
proof -
  have "kvdoes m ((\<lambda>(k, v). kv_set R k v []) x) (RText ''OK'') ((\<lambda>(k, v) m. m(k \<mapsto> v)) x m)" for x m
    by (auto split: prod.split intro: kv_set_does)
  from does_mapM_fold[where f = "\<lambda>(k, v). kv_set R k v []" and k = "\<lambda>(k, v) m. m(k \<mapsto> v)" and
      g = "\<lambda>_ _. RText ''OK''", OF this, of m kvs] show ?thesis
    unfolding kv_mset_def pairs_of_concat by (auto intro!: does_bind does_lift does_ret)
qed

lemma kv_del1_does: "kvdoes m (kv_del1 R k) (m k \<noteq> None) (m(k := None))"
  using does_del1 by (simp add: kv_del1_def kv_has_def)

lemma kv_incr_does:
  assumes "(case m k of None \<Rightarrow> Inr 0 | Some s \<Rightarrow> int_of_str s) = Inr i"
  shows "kvdoes m (kv_incrby R k n) (RInt (i + n)) (m(k \<mapsto> show_int (i + n)))"
  unfolding kv_incrby_def
  by (rule does_counter[where m = m and j = i, OF assms]) (intro does_bind[OF kv_does(3)] does_ret)

lemma kv_incr_fails:
  assumes "(case m k of None \<Rightarrow> Inr 0 | Some s \<Rightarrow> int_of_str s) = Inl ex"
  shows "fails h m (kv_incrby R k n)"
  unfolding kv_incrby_def by (rule fails_counter[where m = m, OF assms])

text \<open>Every command does what the semantics says.\<close>

lemma kv_sem_does:
  assumes "kv_sem c m = Some (r, m')"
  shows "kvdoes m (redis_exec R (fst (kv_wire c)) (snd (kv_wire c))) r m'"
proof (cases c)
  case (KSet k v)
  with assms show ?thesis using kv_set_does by (auto simp: kv_exec)
next
  case (KGet k)
  with assms show ?thesis by (auto simp: kv_exec replyM_def intro!: does_bind[OF kv_does(1)] does_ret)
next
  case (KSetNx k v)
  have "kvdoes m (kv_setnx R k v) r m'"
    unfolding kv_setnx_def
    by (rule does_bind[OF kv_does(2)])
      (use assms KSetNx in \<open>auto split: if_splits intro!: does_ret does_bind[OF kv_does(3)]\<close>)
  with KSetNx show ?thesis by (simp add: kv_exec)
next
  case (KGetDel k)
  have "kvdoes m (kv_getdel R k) r m'"
    unfolding kv_getdel_def
    by (rule does_bind[OF kv_does(1)])
      (use assms KGetDel in \<open>auto simp: opt_text_def fun_upd_idem intro!: does_ret does_bind[OF kv_does(4)]\<close>)
  with KGetDel show ?thesis by (simp add: kv_exec)
next
  case (KMSet kvs)
  with assms show ?thesis using kv_mset_does by (auto simp: kv_exec)
next
  case (KMGet ks)
  have "kvdoes m (kv_mget R ks) (RList (map opt_text (map m ks))) m"
    unfolding kv_mget_def by (rule does_bind[OF does_mapM[OF kv_does(1)] does_ret])
  with KMGet assms show ?thesis by (auto simp: kv_exec comp_def)
next
  case (KDel ks)
  obtain bs where "kvdoes m (mapM (kv_del1 R) ks) bs (m |` (- set ks))"
    "length (filter (\<lambda>b. b) bs) = card (set ks \<inter> dom m)" using does_count_del[of h "kv_del1 R", OF kv_del1_does] by blast
  with KDel assms show ?thesis
    by (auto simp: kv_exec kv_del_def countM_def intro!: does_bind does_ret)
next
  case (KExists ks)
  have "kvdoes m (mapM (kv_has R) ks) (map (\<lambda>k. m k \<noteq> None) ks) m"
    by (rule does_mapM[OF kv_does(2)])
  with KExists assms show ?thesis
    by (auto simp: kv_exec kv_exists_def countM_def filter_map comp_def intro!: does_bind does_ret)
next
  case (KIncrBy k n)
  with assms kv_incr_does[of m k] show ?thesis
    by (auto simp: kv_exec split: sum.splits intro!: does_bind[OF does_lift])
next
  case (KAppend k v)
  have "kvdoes m (kv_append R k v) r m'"
    unfolding kv_append_def
    by (rule does_bind[OF kv_does(1)])
      (use assms KAppend in \<open>auto simp: Let_def intro!: does_ret does_bind[OF kv_does(3)]\<close>)
  with KAppend show ?thesis by (simp add: kv_exec)
next
  case (KStrLen k)
  with assms show ?thesis
    by (auto simp: kv_exec kv_strlen_def intro!: does_bind[OF kv_does(1)] does_ret)
next
  case (KRename a b)
  have "kvdoes m (kv_rename R a b) r m'"
    unfolding kv_rename_def
    by (rule does_bind[OF kv_does(1)])
      (use assms KRename in \<open>auto split: option.splits intro!: does_ret does_bind[OF kv_set_does] does_bind[OF kv_does(4)]\<close>)
  with KRename show ?thesis by (simp add: kv_exec)
qed

lemma kv_sem_fails:
  assumes "kv_sem c m = None"
  shows "fails h m (redis_exec R (fst (kv_wire c)) (snd (kv_wire c)))"
proof (cases c)
  case (KIncrBy k n)
  with assms obtain ex where "(case m k of None \<Rightarrow> Inr 0 | Some s \<Rightarrow> int_of_str s) = Inl ex"
    by (auto split: sum.splits)
  from kv_incr_fails[where m = m and k = k, OF this] KIncrBy show ?thesis
    by (auto simp: kv_exec intro!: fails_bind[OF does_lift])
next
  case (KRename a b)
  with assms have "m a = None" by (auto split: option.splits)
  with KRename show ?thesis
    by (auto simp: kv_exec kv_rename_def fails_raise intro!: fails_bind[OF kv_does(1)])
qed (use assms in \<open>auto split: if_splits\<close>)

lemma kv_refines:
  assumes "h w m0"
  shows "case kv_sem c m0 of
      Some (r, m) \<Rightarrow> \<exists>w'. redis_exec R (fst (kv_wire c)) (snd (kv_wire c)) w = (Inr r, w') \<and> h w' m
    | None \<Rightarrow> \<exists>x w'. redis_exec R (fst (kv_wire c)) (snd (kv_wire c)) w = (Inl x, w') \<and> h w' m0"
proof (cases "kv_sem c m0")
  case None
  from kv_sem_fails[OF this] assms None show ?thesis unfolding fails_def by simp
next
  case (Some rm)
  then obtain r m where rm: "kv_sem c m0 = Some (r, m)" by (cases rm) auto
  from kv_sem_does[OF rm] assms rm show ?thesis unfolding does_def by simp
qed

end

section \<open>On an embedded engine\<close>

definition on_engine :: "ext \<Rightarrow> (nat \<Rightarrow> env) \<Rightarrow> string \<Rightarrow> world clock \<Rightarrow> world redis" where
  \<comment> \<open>\<open>RedisCompat(NEDB(...), client)\<close>\<close>
  "on_engine X W client tick = \<lparr> r_ext = X, r_db = engine_db X W, r_client = client, r_tick = tick \<rparr>"

interpretation ecell: cell_store "on_engine X W client tick" c "holds c w0"
  by unfold_locales
    (simp_all add: on_engine_def r_get_def r_put_def r_del_def holds_get holds_put holds_del del: split_paired_Ex)

interpretation ekv: kv_store "on_engine X W client tick" "holds KV_COLL w0"
  by unfold_locales

end
