(* ===== verification/RedisHash.thy ===== *)
theory RedisHash
  imports RedisKv
begin

text \<open>
  The hash commands on one hash as operations on a map from fields to texts, for every database
  object that keeps the collection of the hash as a table of texts.  \<open>HGETALL\<close>, \<open>HKEYS\<close>, \<open>HVALS\<close> and
  \<open>HLEN\<close> read the collection by a query and are not covered.
\<close>

datatype hcmd = HSet "(string \<times> string) list" | HGet string | HSetNx string string | HMGet "string list"
  | HDel "string list" | HExists string | HIncrBy string int

fun h_wire :: "hcmd \<Rightarrow> string \<times> string list" where
  "h_wire (HSet kvs) = (''HSET'', concat (map (\<lambda>(k, v). [k, v]) kvs))"
| "h_wire (HGet f) = (''HGET'', [f])"
| "h_wire (HSetNx f v) = (''HSETNX'', [f, v])"
| "h_wire (HMGet fs) = (''HMGET'', fs)"
| "h_wire (HDel fs) = (''HDEL'', fs)"
| "h_wire (HExists f) = (''HEXISTS'', [f])"
| "h_wire (HIncrBy f n) = (''HINCRBY'', [f, show_int n])"

fun h_sem :: "hcmd \<Rightarrow> (string \<Rightarrow> string option) \<Rightarrow> (reply \<times> (string \<Rightarrow> string option)) option" where
  "h_sem (HSet kvs) m = Some (RInt (int (card (fst ` set kvs - dom m))), fold (\<lambda>(k, v) m. m(k \<mapsto> v)) kvs m)"
| "h_sem (HGet f) m = Some (opt_text (m f), m)"
| "h_sem (HSetNx f v) m = Some (if m f = None then (RInt 1, m(f \<mapsto> v)) else (RInt 0, m))"
| "h_sem (HMGet fs) m = Some (RList (map (\<lambda>f. opt_text (m f)) fs), m)"
| "h_sem (HDel fs) m = Some (RInt (int (card (set fs \<inter> dom m))), m |` (- set fs))"
| "h_sem (HExists f) m = Some (RInt (if m f = None then 0 else 1), m)"
| "h_sem (HIncrBy f n) m =
     (case (case m f of None \<Rightarrow> Inr 0 | Some s \<Rightarrow> int_of_str s) of
        Inl _ \<Rightarrow> None
      | Inr i \<Rightarrow> Some (RInt (i + n), m(f \<mapsto> show_int (i + n))))"

definition hash_exec :: "'w redis \<Rightarrow> string \<Rightarrow> hcmd \<Rightarrow> ('w, reply) prog" where
  \<comment> \<open>the command as it comes off the wire\<close>
  "hash_exec R name c = redis_exec R (fst (h_wire c)) (name # snd (h_wire c))"

lemma h_exec:
  "redis_exec R ''HSET'' (n # kvs) = h_set R n kvs"
  "redis_exec R ''HGET'' [n, f] = replyM opt_text (h_get R n f)"
  "redis_exec R ''HSETNX'' [n, f, v] = h_setnx R n f v"
  "redis_exec R ''HMGET'' (n # fs) = h_mget R n fs"
  "redis_exec R ''HDEL'' (n # fs) = h_del R n fs"
  "redis_exec R ''HEXISTS'' [n, f] = h_exists R n f"
  "redis_exec R ''HINCRBY'' [n, f, v] = h_incrby R n f v"
  by (simp_all add: redis_exec_def UNSUPPORTED_def string_cmd_def hash_cmd_def str_upper_def char_upper_def
      is_lower_def less_eq_char_def cmd0_def cmd1_def cmd2_def cmd3_def cmdn_def)

locale hash_store = cell_store R "safe name" h for R :: "'w redis" and name :: string and h :: "'w holding"
begin

lemma h_does:
  "does h m (h_get R name f) (m f) m" "does h m (h_has R name f) (m f \<noteq> None) m"
  "does h m (h_put R name f v) () (m(f \<mapsto> v))"
  unfolding h_get_def h_has_def h_put_def by (rule does_text does_has does_store)+

lemma h_set1_does: "does h m (h_set1 R name kv) (m (fst kv) = None) (m(fst kv \<mapsto> snd kv))"
  unfolding h_set1_def
  by (rule does_bind[OF h_does(2)], rule does_bind[OF h_does(3)]) (use does_ret[of h] in auto)

lemma h_del1_does: "does h m (h_del1 R name f) (m f \<noteq> None) (m(f := None))"
  using does_del1 by (simp add: h_del1_def h_has_def)

lemma h_sem_does:
  assumes "h_sem c m = Some (r, m')"
  shows "does h m (hash_exec R name c) r m'"
proof (cases c)
  case (HSet kvs)
  obtain bs where "does h m (mapM (h_set1 R name) kvs) bs (fold (\<lambda>(k, v) m. m(k \<mapsto> v)) kvs m)"
    "length (filter (\<lambda>b. b) bs) = card (fst ` set kvs - dom m)"
    using does_count_put[of h "h_set1 R name", OF h_set1_does] by blast
  with HSet assms show ?thesis
    by (auto simp: hash_exec_def h_exec h_set_def countM_def pairs_of_concat intro!: does_bind does_lift[OF refl] does_ret)
next
  case (HGet f)
  with assms show ?thesis by (auto simp: hash_exec_def h_exec replyM_def intro!: does_bind[OF h_does(1)] does_ret)
next
  case (HSetNx f v)
  have "does h m (h_setnx R name f v) r m'"
    unfolding h_setnx_def
    by (rule does_bind[OF h_does(2)])
      (use assms HSetNx in \<open>auto split: if_splits intro!: does_ret does_bind[OF h_does(3)]\<close>)
  with HSetNx show ?thesis by (simp add: hash_exec_def h_exec)
next
  case (HMGet fs)
  have "does h m (h_mget R name fs) (RList (map opt_text (map m fs))) m"
    unfolding h_mget_def by (rule does_bind[OF does_mapM[OF h_does(1)] does_ret])
  with HMGet assms show ?thesis by (auto simp: hash_exec_def h_exec comp_def)
next
  case (HDel fs)
  obtain bs where "does h m (mapM (h_del1 R name) fs) bs (m |` (- set fs))"
    "length (filter (\<lambda>b. b) bs) = card (set fs \<inter> dom m)"
    using does_count_del[of h "h_del1 R name", OF h_del1_does] by blast
  with HDel assms show ?thesis
    by (auto simp: hash_exec_def h_exec h_del_def countM_def intro!: does_bind does_ret)
next
  case (HExists f)
  with assms show ?thesis
    by (auto simp: hash_exec_def h_exec h_exists_def intro!: does_bind[OF h_does(2)] does_ret split: if_splits)
next
  case (HIncrBy f n)
  with assms obtain i where i: "(case m f of None \<Rightarrow> Inr 0 | Some s \<Rightarrow> int_of_str s) = Inr i"
    and r: "r = RInt (i + n)" "m' = m(f \<mapsto> show_int (i + n))" by (auto split: sum.splits)
  have "does h m (h_incrby R name f (show_int n)) r m'"
    unfolding h_incrby_def r
    by (rule does_counter[where m = m and j = i, OF i])
      (auto intro!: does_bind[OF does_lift] does_bind[OF h_does(3)] does_ret)
  with HIncrBy show ?thesis by (simp add: hash_exec_def h_exec)
qed

lemma h_sem_fails:
  assumes "h_sem c m = None"
  shows "fails h m (hash_exec R name c)"
proof (cases c)
  case (HIncrBy f n)
  with assms obtain ex where i: "(case m f of None \<Rightarrow> Inr 0 | Some s \<Rightarrow> int_of_str s) = Inl ex"
    by (auto split: sum.splits)
  show ?thesis
    unfolding HIncrBy hash_exec_def h_wire.simps fst_conv snd_conv h_exec h_incrby_def
    by (rule fails_counter[where m = m, OF i])
qed (use assms in \<open>auto split: if_splits\<close>)

lemma h_refines:
  assumes "h w m0"
  shows "case h_sem c m0 of
      Some (r, m) \<Rightarrow> \<exists>w'. hash_exec R name c w = (Inr r, w') \<and> h w' m
    | None \<Rightarrow> \<exists>x w'. hash_exec R name c w = (Inl x, w') \<and> h w' m0"
  using assms h_sem_does[of c m0] h_sem_fails[of c m0] by (auto simp: does_def fails_def split: option.split prod.split)

end

interpretation ehash: hash_store "on_engine X W client tick" name "holds (safe name) w0"
  by unfold_locales

end
