(* ===== verification/RedisTypes.thy ===== *)
theory RedisTypes
  imports Redis
begin

text \<open>
  The type of the reply to each command of the Redis adapter, on any database object whatever it
  does: a command that returns is one of the commands listed, and its reply is of the listed type.
\<close>

datatype rtype = TInt | TCount | TText | TTexts | TOpts | TSet | TPairs | TOk | TSetReply | TWord

fun fits :: "rtype \<Rightarrow> reply \<Rightarrow> bool" where
  "fits TInt r = (\<exists>n. r = RInt n)"
| "fits TCount r = (\<exists>n \<ge> 0. r = RInt n)"
| "fits TText r = (r = RNil \<or> (\<exists>s. r = RText s))"
| "fits TTexts r = (\<exists>vs. r = RList (map RText vs))"
| "fits TOpts r = (\<exists>vs. r = RList vs \<and> (\<forall>v\<in>set vs. v = RNil \<or> (\<exists>s. v = RText s)))"
| "fits TSet r = (\<exists>S. r = RSet S)"
| "fits TPairs r = (\<exists>d. r = RDict d)"
| "fits TOk r = (r = RText ''OK'')"
| "fits TSetReply r = (r \<in> {RText ''OK'', RNil, RInt 0, RInt 1})"
| "fits TWord r = (r \<in> RText ` {''string'', ''hash'', ''set'', ''list'', ''none''})"

definition reply_types :: "(string \<times> rtype) list" where
  "reply_types =
     [(''PING'', TText), (''SET'', TSetReply), (''GET'', TText), (''GETDEL'', TText), (''SETNX'', TCount), (''MSET'', TOk),
      (''MGET'', TOpts), (''DEL'', TCount), (''UNLINK'', TCount), (''EXISTS'', TCount), (''INCR'', TInt), (''INCRBY'', TInt),
      (''DECR'', TInt), (''DECRBY'', TInt), (''APPEND'', TCount), (''STRLEN'', TCount), (''TYPE'', TWord), (''RENAME'', TOk),
      (''KEYS'', TTexts), (''DBSIZE'', TCount), (''FLUSHDB'', TOk),
      (''HSET'', TCount), (''HMSET'', TOk), (''HSETNX'', TCount), (''HGET'', TText), (''HMGET'', TOpts), (''HGETALL'', TPairs),
      (''HDEL'', TCount), (''HEXISTS'', TCount), (''HKEYS'', TTexts), (''HVALS'', TTexts), (''HLEN'', TCount), (''HINCRBY'', TInt),
      (''SADD'', TCount), (''SMEMBERS'', TSet), (''SISMEMBER'', TCount), (''SREM'', TCount), (''SCARD'', TCount),
      (''SUNION'', TSet), (''SINTER'', TSet), (''SDIFF'', TSet),
      (''LPUSH'', TCount), (''RPUSH'', TCount), (''LRANGE'', TTexts), (''LLEN'', TCount), (''LINDEX'', TText), (''LSET'', TOk),
      (''LPOP'', TText), (''RPOP'', TText)]"

section \<open>What a program returns\<close>

definition gives :: "('a \<Rightarrow> bool) \<Rightarrow> ('w, 'a) prog \<Rightarrow> bool" where
  "gives P m \<longleftrightarrow> (\<forall>w r w'. m w = (Inr r, w') \<longrightarrow> P r)"

named_theorems gives_intros \<open>what the programs return\<close>

lemma gives_any: "gives (\<lambda>_. True) m"
  by (simp add: gives_def)

lemma gives_bind:
  assumes "gives Q m" "\<And>x. Q x \<Longrightarrow> gives P (f x)"
  shows "gives P (bindM m f)"
  unfolding gives_def
proof (intro allI impI)
  fix w r w'
  assume "bindM m f w = (Inr r, w')"
  then obtain x w1 where x: "m w = (Inr x, w1)" "f x w1 = (Inr r, w')" by (auto simp: bindM_Inr)
  with assms(1) have "Q x" by (auto simp: gives_def)
  from assms(2)[OF this] x show "P r" by (auto simp: gives_def)
qed

lemma gives_then [gives_intros]: "(\<And>x. gives P (f x)) \<Longrightarrow> gives P (bindM m f)"
  by (rule gives_bind[OF gives_any])

lemma gives_basic [gives_intros]:
  "P x \<Longrightarrow> gives P (retM x)" "gives P (raiseM e)"
  by (simp_all add: gives_def retM_def raiseM_def)

lemma gives_args [gives_intros]:
  "(\<And>a. gives P (f0 a)) \<Longrightarrow> gives P (cmd0 args f0)" "(\<And>a. gives P (f1 a)) \<Longrightarrow> gives P (cmd1 args f1)"
  "(\<And>a b. gives P (f2 a b)) \<Longrightarrow> gives P (cmd2 args f2)" "(\<And>a b c. gives P (f3 a b c)) \<Longrightarrow> gives P (cmd3 args f3)"
  "(\<And>a r. gives P (fn a r)) \<Longrightarrow> gives P (cmdn args fn)" "(\<And>x. P (g x)) \<Longrightarrow> gives P (replyM g m)"
  by (auto simp: cmd0_def cmd1_def cmd2_def cmd3_def cmdn_def replyM_def intro!: gives_intros split: list.split)

lemma gives_reply: "gives (\<lambda>x. P (g x)) m \<Longrightarrow> gives P (replyM g m)"
  by (auto simp: replyM_def intro: gives_bind gives_intros)

lemma gives_count: "gives (\<lambda>n. 0 \<le> n) (countM f xs)" "gives (\<lambda>n. 0 \<le> n) (h_len R k)"
  "gives (\<lambda>n. 0 \<le> n) (s_card R k)" "gives (\<lambda>n. 0 \<le> n) (l_len R k)"
  by (auto simp: countM_def h_len_def s_card_def l_len_def intro!: gives_intros)

lemma gives_counted [gives_intros]:
  "gives (fits TCount) (bindM (countM f xs) (\<lambda>n. retM (RInt n)))"
  "gives (fits TCount) (replyM RInt (h_len R k))" "gives (fits TCount) (replyM RInt (s_card R k))"
  "gives (fits TCount) (replyM RInt (l_len R k))" "gives (fits TCount) (bindM (l_len R k) (\<lambda>n. retM (RInt n)))"
  unfolding replyM_def by (rule gives_bind, rule gives_count, rule gives_basic, simp)+

lemma gives_fold: "(\<And>x s. P s \<Longrightarrow> gives P (f x s)) \<Longrightarrow> P s \<Longrightarrow> gives P (foldM f xs s)"
proof (induction xs arbitrary: s)
  case (Cons x xs)
  then show ?case by (auto intro: gives_bind)
qed (simp add: gives_basic)

lemma gives_add [gives_intros]: "gives (fits TCount) (s_add R k ms)"
proof -
  have "gives (\<lambda>s. 0 \<le> snd s) (foldM (s_add1 R k) ms (ex, 0))" for ex
    by (rule gives_fold) (auto simp: s_add1_def intro!: gives_intros)
  then show ?thesis
    unfolding s_add_def by (intro gives_then gives_bind[where Q = "\<lambda>s. 0 \<le> snd s"] gives_basic) simp_all
qed

section \<open>Every command\<close>

named_theorems reply_defs \<open>the commands\<close>

lemmas [reply_defs] =
  kv_set_def kv_setnx_def kv_getdel_def kv_mset_def kv_mget_def kv_del_def kv_exists_def kv_incrby_def kv_append_def
  kv_strlen_def r_type_def kv_rename_def kv_flush_def h_set_def h_setnx_def h_mget_def h_getall_def h_del_def h_exists_def
  h_incrby_def s_ismember_def s_rem_def sets_cmd_def l_push_def r_push_def l_index_def l_set_def l_take_def Let_def
  opt_text_def texts_reply_def

lemma string_types: "string_cmd R cmd args = Some m \<Longrightarrow> \<exists>t. map_of reply_types cmd = Some t \<and> gives (fits t) m"
  unfolding string_cmd_def reply_types_def
  by (auto split: if_splits list.split option.split simp: reply_defs intro!: gives_intros)

lemma hash_types: "hash_cmd R cmd args = Some m \<Longrightarrow> \<exists>t. map_of reply_types cmd = Some t \<and> gives (fits t) m"
  unfolding hash_cmd_def reply_types_def
  by (auto split: if_splits list.split option.split simp: reply_defs intro!: gives_intros)

lemma set_types: "set_cmd R cmd args = Some m \<Longrightarrow> \<exists>t. map_of reply_types cmd = Some t \<and> gives (fits t) m"
  unfolding set_cmd_def reply_types_def
  by (auto split: if_splits list.split option.split simp: reply_defs intro!: gives_intros)

lemma list_types: "list_cmd R cmd args = Some m \<Longrightarrow> \<exists>t. map_of reply_types cmd = Some t \<and> gives (fits t) m"
  unfolding list_cmd_def reply_types_def
  by (auto split: if_splits list.split option.split simp: reply_defs intro!: gives_intros)

lemma reply_typed:
  assumes "redis_exec R command args w = (Inr r, w')"
  shows "\<exists>t. map_of reply_types (str_upper command) = Some t \<and> fits t r"
proof -
  have "\<exists>t. map_of reply_types (str_upper command) = Some t \<and> gives (fits t) (redis_exec R command args)"
    using assms string_types hash_types set_types list_types
    by (auto simp: redis_exec_def Let_def raiseM_def split: if_splits option.splits)
  with assms show ?thesis by (auto simp: gives_def)
qed

end
