(* ===== verification/MongoUpdate.thy ===== *)
theory MongoUpdate
  imports MongoQuery
begin

text \<open>
  The update operators of \<open>nedb.mongo\<close>.  \<open>_apply_update\<close> copies the top level of the document
  only, and \<open>_set_path\<close> and \<open>_unset_path\<close> write into the dicts they reach, so what an update
  does to the document it was given depends on which dicts are shared.  Here dicts live in a
  heap and are referred to by address; the other values, lists included, are never written to
  and are kept as values.

  \<open>apply_update\<close> loads the existing document and the update document into a heap, runs the
  operators, and reads back all three: the updated document, the document it was given, and
  the update.
\<close>

section \<open>The heap\<close>

datatype hval = HLeaf pyval | HRef nat

type_synonym cell = "(string, hval) dict"
type_synonym heap = "cell list"

fun load_val :: "pyval \<Rightarrow> heap \<Rightarrow> hval \<times> heap"
  and load_cell :: "(string \<times> pyval) list \<Rightarrow> heap \<Rightarrow> cell \<times> heap" where
  "load_val (PDict d) h =
     (case load_cell d h of (c, h1) \<Rightarrow> (HRef (length h1), h1 @ [c]))"
| "load_val v h = (HLeaf v, h)"
| "load_cell [] h = ([], h)"
| "load_cell ((k, v) # d) h =
     (case load_val v h of (x, h1) \<Rightarrow> (case load_cell d h1 of (c, h2) \<Rightarrow> ((k, x) # c, h2)))"

text \<open>Reading back follows references as deep as there are cells.\<close>

fun read_val :: "nat \<Rightarrow> heap \<Rightarrow> hval \<Rightarrow> pyval res" where
  "read_val n h (HLeaf v) = Inr v"
| "read_val 0 h (HRef a) = Inl Untyped"
| "read_val (Suc n) h (HRef a) =
     bindE (mapE (\<lambda>kx. bindE (read_val n h (snd kx)) (\<lambda>v. Inr (fst kx, v))) (h ! a)) (\<lambda>d. Inr (PDict d))"

definition value_of' :: "heap \<Rightarrow> hval \<Rightarrow> pyval res" where
  "value_of' h x = read_val (length h) h x"

definition doc_of :: "heap \<Rightarrow> hval \<Rightarrow> doc res" where
  "doc_of h x = bindE (value_of' h x) (\<lambda>v. case v of PDict d \<Rightarrow> Inr d | _ \<Rightarrow> Inl Untyped)"

section \<open>Paths\<close>

fun hget :: "heap \<Rightarrow> hval \<Rightarrow> string list \<Rightarrow> hval option" where
  "hget h x [] = Some x"
| "hget h x (p # ps) =
     (case x of
        HRef a \<Rightarrow> (case map_of (h ! a) p of Some y \<Rightarrow> hget h y ps | None \<Rightarrow> None)
      | HLeaf _ \<Rightarrow> None)"

fun hset :: "heap \<Rightarrow> nat \<Rightarrow> string list \<Rightarrow> hval \<Rightarrow> heap" where
  \<comment> \<open>\<open>_set_path\<close>\<close>
  "hset h a [] x = h"
| "hset h a [p] x = h[a := dset p x (h ! a)]"
| "hset h a (p # q # ps) x =
     (case map_of (h ! a) p of
        Some (HRef b) \<Rightarrow> hset h b (q # ps) x
      | _ \<Rightarrow> hset (h[a := dset p (HRef (length h)) (h ! a)] @ [[]]) (length h) (q # ps) x)"

definition cpop :: "string \<Rightarrow> cell \<Rightarrow> cell" where
  "cpop k c = filter (\<lambda>kx. fst kx \<noteq> k) c"

fun hunset :: "heap \<Rightarrow> nat \<Rightarrow> string list \<Rightarrow> heap" where
  \<comment> \<open>\<open>_unset_path\<close>\<close>
  "hunset h a [] = h"
| "hunset h a [p] = h[a := cpop p (h ! a)]"
| "hunset h a (p # q # ps) =
     (case map_of (h ! a) p of Some (HRef b) \<Rightarrow> hunset h b (q # ps) | _ \<Rightarrow> h)"

definition path_parts :: "string \<Rightarrow> string list" where
  "path_parts p = split_on CHR ''.'' p"

section \<open>Arithmetic\<close>

text \<open>The number an update starts from: booleans and everything else count as 0.\<close>

definition base_num :: "hval option \<Rightarrow> pyval" where
  "base_num x =
     (case x of
        Some (HLeaf (PInt i)) \<Rightarrow> PInt i | Some (HLeaf (PFloat q)) \<Rightarrow> PFloat q | _ \<Rightarrow> PInt 0)"

definition num_add :: "pyval \<Rightarrow> hval \<Rightarrow> pyval res" where
  \<comment> \<open>\<open>base + delta\<close>\<close>
  "num_add b x =
     (case x of HLeaf v \<Rightarrow> if num_of v = None then Inl TypeErr else Inr (py_add b v) | _ \<Rightarrow> Inl TypeErr)"

definition rat_of_num :: "pyval \<Rightarrow> rat" where
  "rat_of_num v = (case num_of v of None \<Rightarrow> 0 | Some q \<Rightarrow> q)"

fun num_mul :: "pyval \<Rightarrow> hval \<Rightarrow> pyval res" where
  \<comment> \<open>\<open>base * factor\<close>: an integer repeats a string or a list\<close>
  "num_mul b (HRef a) = Inl TypeErr"
| "num_mul (PFloat q) (HLeaf v) =
     (if num_of v = None then Inl TypeErr else Inr (PFloat (fl (q * fl (rat_of_num v)))))"
| "num_mul b (HLeaf v) =
     (case v of
        PFloat r \<Rightarrow> Inr (PFloat (fl (fl (rat_of_num b) * r)))
      | PStr s \<Rightarrow> Inr (PStr (concat (replicate (nat \<lfloor>rat_of_num b\<rfloor>) s)))
      | PList xs \<Rightarrow> Inr (PList (concat (replicate (nat \<lfloor>rat_of_num b\<rfloor>) xs)))
      | PInt i \<Rightarrow> Inr (PInt (\<lfloor>rat_of_num b\<rfloor> * i))
      | PBool c \<Rightarrow> Inr (PInt (\<lfloor>rat_of_num b\<rfloor> * (if c then 1 else 0)))
      | _ \<Rightarrow> Inl TypeErr)"

section \<open>The operators\<close>

text \<open>The list a path holds, copied; anything else counts as an empty list.\<close>

definition list_at :: "hval option \<Rightarrow> pyval list" where
  "list_at x = (case x of Some (HLeaf (PList xs)) \<Rightarrow> xs | _ \<Rightarrow> [])"

definition each_of :: "pyval \<Rightarrow> pyval option" where
  \<comment> \<open>\<open>value["$each"]\<close> of a dict that has it\<close>
  "each_of v = (case v of PDict d \<Rightarrow> map_of d ''$each'' | _ \<Rightarrow> None)"

fun keep_new :: "pyval list \<Rightarrow> pyval list \<Rightarrow> pyval list" where
  "keep_new arr [] = arr"
| "keep_new arr (x # xs) = keep_new (if list_ex (py_eq x) arr then arr else arr @ [x]) xs"

definition pull_from :: "regex \<Rightarrow> pyval \<Rightarrow> pyval list \<Rightarrow> pyval list res" where
  "pull_from R cond arr =
     (if is_op_doc cond then filterE (\<lambda>x. notE' (match_field R (Some x) cond)) arr
      else Inr (filter (\<lambda>x. \<not> py_eq x cond) arr))"

text \<open>
  The body of the loop over \<open>spec.items()\<close>, one definition per operator: \<open>a\<close> is the
  document, \<open>ps\<close> the path, \<open>x\<close> the value given for it, \<open>cur\<close> what the path holds now.
\<close>

definition upd_arith :: "(pyval \<Rightarrow> hval \<Rightarrow> pyval res) \<Rightarrow> nat \<Rightarrow> string list \<Rightarrow> hval \<Rightarrow> hval option \<Rightarrow> heap \<Rightarrow> heap res" where
  "upd_arith f a ps x cur h = bindE (f (base_num cur) x) (\<lambda>v. Inr (hset h a ps (HLeaf v)))"

definition upd_extreme :: "ext \<Rightarrow> bool \<Rightarrow> nat \<Rightarrow> string list \<Rightarrow> hval \<Rightarrow> hval option \<Rightarrow> heap \<Rightarrow> heap res" where
  \<comment> \<open>\<open>$min\<close>, \<open>$max\<close>\<close>
  "upd_extreme X minimum a ps x cur h =
     (case cur of
        None \<Rightarrow> Inr (hset h a ps x)
      | Some y \<Rightarrow>
          bindE (value_of' h x) (\<lambda>v. bindE (value_of' h y) (\<lambda>w.
            let kv = sort_key_of X (Some v); kw = sort_key_of X (Some w) in
            Inr (if (if minimum then kv < kw else kw < kv) then hset h a ps x else h))))"

definition upd_rename :: "nat \<Rightarrow> string list \<Rightarrow> hval \<Rightarrow> hval option \<Rightarrow> heap \<Rightarrow> heap res" where
  "upd_rename a ps x cur h =
     (case cur of
        None \<Rightarrow> Inr h
      | Some y \<Rightarrow>
          (case x of
             HLeaf (PStr nf) \<Rightarrow> Inr (hset (hunset h a ps) a (path_parts nf) y)
           | _ \<Rightarrow> Inl AttrErr))"

definition upd_push :: "nat \<Rightarrow> string list \<Rightarrow> hval \<Rightarrow> hval option \<Rightarrow> heap \<Rightarrow> heap res" where
  "upd_push a ps x cur h =
     bindE (value_of' h x) (\<lambda>v.
     bindE (case each_of v of Some es \<Rightarrow> py_iter es | None \<Rightarrow> Inr [v]) (\<lambda>ys.
       Inr (hset h a ps (HLeaf (PList (list_at cur @ ys))))))"

definition upd_add_to_set :: "nat \<Rightarrow> string list \<Rightarrow> hval \<Rightarrow> hval option \<Rightarrow> heap \<Rightarrow> heap res" where
  "upd_add_to_set a ps x cur h =
     bindE (value_of' h x) (\<lambda>v.
     bindE (case each_of v of Some es \<Rightarrow> py_iter es | None \<Rightarrow> Inr [v]) (\<lambda>ys.
       Inr (hset h a ps (HLeaf (PList (keep_new (list_at cur) ys))))))"

definition upd_pull :: "regex \<Rightarrow> nat \<Rightarrow> string list \<Rightarrow> hval \<Rightarrow> hval option \<Rightarrow> heap \<Rightarrow> heap res" where
  "upd_pull R a ps x cur h =
     (case cur of
        Some (HLeaf (PList xs)) \<Rightarrow>
          bindE (value_of' h x) (\<lambda>cond. bindE (pull_from R cond xs) (\<lambda>ys.
            Inr (hset h a ps (HLeaf (PList ys)))))
      | _ \<Rightarrow> Inr h)"

definition upd_pop :: "nat \<Rightarrow> string list \<Rightarrow> hval \<Rightarrow> hval option \<Rightarrow> heap \<Rightarrow> heap res" where
  "upd_pop a ps x cur h =
     (case list_at cur of
        [] \<Rightarrow> Inr h
      | y # ys \<Rightarrow>
          bindE (value_of' h x) (\<lambda>v. bindE (negative v) (\<lambda>first.
            Inr (hset h a ps (HLeaf (PList (if first then ys else butlast (y # ys))))))))"

definition update_field :: "ext \<Rightarrow> regex \<Rightarrow> string \<Rightarrow> nat \<Rightarrow> string \<times> hval \<Rightarrow> heap \<Rightarrow> heap res" where
  "update_field X R op a fx h =
     (case fx of (field, x) \<Rightarrow>
        (let ps = path_parts field; cur = hget h (HRef a) ps in
         if op = ''$set'' \<or> op = ''$setOnInsert'' then Inr (hset h a ps x)
         else if op = ''$inc'' then upd_arith num_add a ps x cur h
         else if op = ''$mul'' then upd_arith num_mul a ps x cur h
         else if op = ''$min'' then upd_extreme X True a ps x cur h
         else if op = ''$max'' then upd_extreme X False a ps x cur h
         else if op = ''$rename'' then upd_rename a ps x cur h
         else if op = ''$push'' then upd_push a ps x cur h
         else if op = ''$addToSet'' then upd_add_to_set a ps x cur h
         else if op = ''$pull'' then upd_pull R a ps x cur h
         else if op = ''$pop'' then upd_pop a ps x cur h
         else Inl MongoUnsupported))"

fun foldR :: "('a \<Rightarrow> 's \<Rightarrow> 's res) \<Rightarrow> 'a list \<Rightarrow> 's \<Rightarrow> 's res" where
  "foldR f [] s = Inr s"
| "foldR f (x # xs) s = bindE (f x s) (foldR f xs)"

definition unset_field :: "nat \<Rightarrow> pyval \<Rightarrow> heap \<Rightarrow> heap res" where
  "unset_field a v h = (case v of PStr f \<Rightarrow> Inr (hunset h a (path_parts f)) | _ \<Rightarrow> Inl AttrErr)"

definition UPDATE_OPS :: "string list" where
  "UPDATE_OPS =
     [''$set'', ''$setOnInsert'', ''$unset'', ''$inc'', ''$mul'', ''$min'', ''$max'', ''$rename'',
      ''$push'', ''$addToSet'', ''$pull'', ''$pop'']"

definition update_op :: "ext \<Rightarrow> regex \<Rightarrow> bool \<Rightarrow> nat \<Rightarrow> string \<times> hval \<Rightarrow> heap \<Rightarrow> heap res" where
  \<comment> \<open>one \<open>op, spec\<close> of the update document\<close>
  "update_op X R on_insert a os h =
     (case os of (op, spec) \<Rightarrow>
        if op \<notin> set UPDATE_OPS then Inl MongoUnsupported
        else if op = ''$unset'' then
          bindE (value_of' h spec) (\<lambda>v. bindE (py_iter v) (\<lambda>fs. foldR (unset_field a) fs h))
        else if op = ''$setOnInsert'' \<and> \<not> on_insert then Inr h
        else (case spec of
                HRef s \<Rightarrow> foldR (update_field X R op a) (h ! s) h
              | HLeaf _ \<Rightarrow> Inl AttrErr))"

definition has_ops :: "doc \<Rightarrow> bool" where
  "has_ops u = list_ex (\<lambda>kv. starts_with ''$'' (fst kv)) u"

text \<open>The result, what the existing document has become, and what the update document has become.\<close>

definition apply_update :: "ext \<Rightarrow> regex \<Rightarrow> doc \<Rightarrow> doc \<Rightarrow> bool \<Rightarrow> (doc \<times> doc \<times> doc) res" where
  "apply_update X R existing upd on_insert =
     (if \<not> has_ops upd then Inr (upd, existing, upd)
      else
        (case load_cell existing [] of (ce, h1) \<Rightarrow>
         (case load_cell upd (h1 @ [ce]) of (cu, h2) \<Rightarrow>
           (let e = length h1; h3 = h2 @ [cu]; u = length h2; h4 = h3 @ [h3 ! e]; a = length h3 in
            bindE (foldR (update_op X R on_insert a) cu h4) (\<lambda>h.
            bindE (doc_of h (HRef a)) (\<lambda>d.
            bindE (doc_of h (HRef e)) (\<lambda>d0.
            bindE (doc_of h (HRef u)) (\<lambda>u0. Inr (d, d0, u0)))))))))"

section \<open>Loading and reading back\<close>

text \<open>In a heap of loaded values references go to earlier cells.\<close>

fun refs_below :: "nat \<Rightarrow> hval \<Rightarrow> bool" where
  "refs_below n (HLeaf v) = True"
| "refs_below n (HRef a) = (a < n)"

definition down :: "heap \<Rightarrow> nat \<Rightarrow> bool" where
  \<comment> \<open>below address \<open>n\<close>\<close>
  "down h n \<longleftrightarrow> n \<le> length h \<and> (\<forall>b<n. \<forall>kx\<in>set (h ! b). refs_below b (snd kx))"

lemma refs_below_mono: "refs_below m x \<Longrightarrow> m \<le> n \<Longrightarrow> refs_below n x"
  by (cases x) auto

lemma read_mono: "read_val n h x = Inr v \<Longrightarrow> n \<le> m \<Longrightarrow> read_val m h x = Inr v"
proof (induction n h x arbitrary: v m rule: read_val.induct)
  case (3 n h a)
  obtain k where m: "m = Suc k" "n \<le> k" using "3.prems"(2) by (cases m) auto
  obtain ys where ys: "mapE (\<lambda>kx. bindE (read_val n h (snd kx)) (\<lambda>v. Inr (fst kx, v))) (h ! a) = Inr ys"
    and v: "v = PDict ys" using "3.prems"(1) by (auto simp: bindE_eq_Inr)
  have "mapE (\<lambda>kx. bindE (read_val k h (snd kx)) (\<lambda>v. Inr (fst kx, v))) (h ! a) = Inr ys"
    unfolding mapE_eq_Inr_nth
  proof (intro conjI allI impI)
    show l: "length (h ! a) = length ys" using ys by (simp add: mapE_eq_Inr_nth)
    fix i assume i: "i < length (h ! a)"
    with ys obtain w where "read_val n h (snd (h ! a ! i)) = Inr w" "ys ! i = (fst (h ! a ! i), w)"
      by (auto simp: mapE_eq_Inr_nth bindE_eq_Inr)
    with "3.IH"[of "h ! a ! i" w k] i m(2)
    show "bindE (read_val k h (snd (h ! a ! i))) (\<lambda>v. Inr (fst (h ! a ! i), v)) = Inr (ys ! i)" by simp
  qed
  then show ?case by (simp add: m v)
qed auto

text \<open>What a read sees is the part of the heap below it.\<close>

lemma down_refs: "down h k \<Longrightarrow> a < k \<Longrightarrow> kx \<in> set (h ! a) \<Longrightarrow> refs_below a (snd kx)"
  by (simp add: down_def)

lemma read_local:
  assumes d: "down h k" and t: "take k h = take k h'"
  shows "refs_below k x \<Longrightarrow> read_val n h x = read_val n h' x"
proof (induction n arbitrary: x)
  case 0
  then show ?case by (cases x) simp_all
next
  case (Suc n)
  show ?case
  proof (cases x)
    case (HRef a)
    with Suc.prems have a: "a < k" by simp
    have eq: "h ! a = h' ! a" using t a by (metis nth_take)
    have "mapE (\<lambda>kx. bindE (read_val n h (snd kx)) (\<lambda>v. Inr (fst kx, v))) (h ! a) =
        mapE (\<lambda>kx. bindE (read_val n h' (snd kx)) (\<lambda>v. Inr (fst kx, v))) (h' ! a)"
    proof (rule mapE_cong[OF eq])
      fix kx assume "kx \<in> set (h' ! a)"
      with down_refs[OF d a] a eq have "refs_below k (snd kx)"
        by (metis less_imp_le refs_below_mono)
      from Suc.IH[OF this]
      show "bindE (read_val n h (snd kx)) (\<lambda>v. Inr (fst kx, v)) = bindE (read_val n h' (snd kx)) (\<lambda>v. Inr (fst kx, v))"
        by simp
    qed
    with HRef show ?thesis by simp
  qed simp
qed

text \<open>Loading appends cells that hold the value; whatever is appended later, it reads back.\<close>

lemma down_snoc: "down h (length h) \<Longrightarrow> \<forall>kx\<in>set c. refs_below (length h) (snd kx) \<Longrightarrow> down (h @ [c]) (Suc (length h))"
  by (auto simp: down_def nth_append less_Suc_eq)

lemma load_reads:
  "load_val v h = (x, h1) \<Longrightarrow> down h (length h) \<Longrightarrow>
     (\<exists>t. h1 = h @ t) \<and> down h1 (length h1) \<and> refs_below (length h1) x \<and> read_val (length h1) h1 x = Inr v"
  "load_cell d h = (c, h1) \<Longrightarrow> down h (length h) \<Longrightarrow>
     (\<exists>t. h1 = h @ t) \<and> down h1 (length h1) \<and> (\<forall>kx\<in>set c. refs_below (length h1) (snd kx)) \<and>
     mapE (\<lambda>kx. bindE (read_val (length h1) h1 (snd kx)) (\<lambda>v. Inr (fst kx, v))) c = Inr d"
proof (induction v h and d h arbitrary: x h1 and c h1 rule: load_val_load_cell.induct)
  case (1 d h)
  obtain c h2 where c: "load_cell d h = (c, h2)" by (cases "load_cell d h")
  from "1.prems" c have x: "x = HRef (length h2)" "h1 = h2 @ [c]" by auto
  from "1.IH"[OF c "1.prems"(2)] have ih: "\<exists>t. h2 = h @ t" "down h2 (length h2)"
    "\<forall>kx\<in>set c. refs_below (length h2) (snd kx)"
    "mapE (\<lambda>kx. bindE (read_val (length h2) h2 (snd kx)) (\<lambda>v. Inr (fst kx, v))) c = Inr d" by auto
  have "mapE (\<lambda>kx. bindE (read_val (length h2) (h2 @ [c]) (snd kx)) (\<lambda>v. Inr (fst kx, v))) c =
      mapE (\<lambda>kx. bindE (read_val (length h2) h2 (snd kx)) (\<lambda>v. Inr (fst kx, v))) c"
    by (rule mapE_cong[OF refl]) (use ih read_local[OF ih(2), of "h2 @ [c]"] in simp)
  with ih x down_snoc[OF ih(2,3)] show ?case by auto
next
  case (3 h)
  then show ?case by auto
next
  case (4 k v d h)
  obtain y h2 where y: "load_val v h = (y, h2)" by (cases "load_val v h")
  obtain c' h3 where c: "load_cell d h2 = (c', h3)" by (cases "load_cell d h2")
  from "4.prems" y c have e: "c = (k, y) # c'" "h1 = h3" by auto
  from "4.IH"(1)[OF y "4.prems"(2)] have a: "\<exists>t. h2 = h @ t" "down h2 (length h2)"
    "refs_below (length h2) y" "read_val (length h2) h2 y = Inr v" by auto
  from "4.IH"(2)[OF y[symmetric] c a(2)] have b: "\<exists>t. h3 = h2 @ t" "down h3 (length h3)"
    "\<forall>kx\<in>set c'. refs_below (length h3) (snd kx)"
    "mapE (\<lambda>kx. bindE (read_val (length h3) h3 (snd kx)) (\<lambda>v. Inr (fst kx, v))) c' = Inr d" by auto
  from b(1) have l: "length h2 \<le> length h3" "take (length h2) h2 = take (length h2) h3" by auto
  have "read_val (length h2) h3 y = Inr v" using read_local[OF a(2) l(2) a(3)] a(4) by simp
  from read_mono[OF this l(1)] have "read_val (length h3) h3 y = Inr v" .
  moreover have "refs_below (length h3) y" by (rule refs_below_mono[OF a(3) l(1)])
  ultimately show ?case using a(1) b e by auto
qed auto

lemma split_on_none: "c \<notin> set s \<Longrightarrow> split_on c s = [s]"
  by (induction s) (auto simp: split_on_def)

lemma split_on_at: "c \<notin> set p \<Longrightarrow> split_on c (p @ c # q) = p # split_on c q"
  by (induction p) (auto simp: split_on_def)

text \<open>The heap in which the operators run: everything below \<open>a\<close> is loaded, \<open>a\<close> is the copy.\<close>

definition loaded :: "doc \<Rightarrow> doc \<Rightarrow> heap \<Rightarrow> nat \<Rightarrow> nat \<Rightarrow> cell \<Rightarrow> bool" where
  "loaded existing upd h e u cu \<longleftrightarrow>
     down h (length h) \<and> e < length h \<and> u < length h \<and> h ! u = cu \<and>
     read_val (length h) h (HRef e) = Inr (PDict existing) \<and>
     read_val (length h) h (HRef u) = Inr (PDict upd)"

lemma read_snoc:
  assumes "down h (length h)" "\<forall>kx\<in>set c. refs_below (length h) (snd kx)"
    "mapE (\<lambda>kx. bindE (read_val (length h) h (snd kx)) (\<lambda>v. Inr (fst kx, v))) c = Inr d"
  shows "read_val (Suc (length h)) (h @ [c]) (HRef (length h)) = Inr (PDict d)"
proof -
  have "mapE (\<lambda>kx. bindE (read_val (length h) (h @ [c]) (snd kx)) (\<lambda>v. Inr (fst kx, v))) c =
      mapE (\<lambda>kx. bindE (read_val (length h) h (snd kx)) (\<lambda>v. Inr (fst kx, v))) c"
    by (rule mapE_cong[OF refl]) (use assms(2) read_local[OF assms(1), of "h @ [c]"] in simp)
  with assms(3) show ?thesis by simp
qed

lemma apply_update_loaded:
  assumes "has_ops upd"
  obtains h e u cu where "loaded existing upd h e u cu"
    "apply_update X R existing upd on_insert =
       bindE (foldR (update_op X R on_insert (length h)) cu (h @ [h ! e])) (\<lambda>h'.
       bindE (doc_of h' (HRef (length h))) (\<lambda>d. bindE (doc_of h' (HRef e)) (\<lambda>d0.
       bindE (doc_of h' (HRef u)) (\<lambda>u0. Inr (d, d0, u0)))))"
proof -
  obtain ce h1 where 1: "load_cell existing [] = (ce, h1)" by (cases "load_cell existing []")
  obtain cu h2 where 2: "load_cell upd (h1 @ [ce]) = (cu, h2)" by (cases "load_cell upd (h1 @ [ce])")
  have n: "down [] 0" by (simp add: down_def)
  from load_reads(2)[OF 1] n have a: "down h1 (length h1)" "\<forall>kx\<in>set ce. refs_below (length h1) (snd kx)"
    "mapE (\<lambda>kx. bindE (read_val (length h1) h1 (snd kx)) (\<lambda>v. Inr (fst kx, v))) ce = Inr existing" by auto
  let ?h1 = "h1 @ [ce]"
  have d1: "down ?h1 (length ?h1)" using down_snoc[OF a(1,2)] by simp
  have e1: "read_val (length ?h1) ?h1 (HRef (length h1)) = Inr (PDict existing)" using read_snoc[OF a] by simp
  from load_reads(2)[OF 2 d1] have b: "\<exists>t. h2 = ?h1 @ t" "down h2 (length h2)"
    "\<forall>kx\<in>set cu. refs_below (length h2) (snd kx)"
    "mapE (\<lambda>kx. bindE (read_val (length h2) h2 (snd kx)) (\<lambda>v. Inr (fst kx, v))) cu = Inr upd" by auto
  let ?h = "h2 @ [cu]"
  have d2: "down ?h (length ?h)" using down_snoc[OF b(2,3)] by simp
  have t: "take (length ?h1) ?h1 = take (length ?h1) ?h" "length ?h1 \<le> length ?h" using b(1) by auto
  have "read_val (length ?h1) ?h (HRef (length h1)) = Inr (PDict existing)"
    using read_local[OF d1 t(1), of "HRef (length h1)" "length ?h1"] e1 by (simp del: read_val.simps)
  from read_mono[OF this t(2)] have "loaded existing upd ?h (length h1) (length h2) cu"
    using d2 t(2) read_snoc[OF b(2-4)] by (simp add: loaded_def)
  moreover have "apply_update X R existing upd on_insert =
       bindE (foldR (update_op X R on_insert (length ?h)) cu (?h @ [?h ! length h1])) (\<lambda>h'.
       bindE (doc_of h' (HRef (length ?h))) (\<lambda>d. bindE (doc_of h' (HRef (length h1))) (\<lambda>d0.
       bindE (doc_of h' (HRef (length h2))) (\<lambda>u0. Inr (d, d0, u0)))))"
    using assms by (simp add: apply_update_def 1 2 Let_def)
  ultimately show ?thesis by (rule that)
qed

section \<open>Updates of top-level fields leave the old document alone\<close>

definition flat_name :: "string \<Rightarrow> bool" where
  "flat_name f \<longleftrightarrow> CHR ''.'' \<notin> set f"

lemma flat_parts [simp]: "flat_name f \<Longrightarrow> path_parts f = [f]"
  by (simp add: flat_name_def path_parts_def split_on_none)

text \<open>No path of the update has a dot, also not where \<open>$rename\<close> moves a field to.\<close>

definition flat_entry :: "string \<Rightarrow> string \<times> pyval \<Rightarrow> bool" where
  "flat_entry op fv \<longleftrightarrow>
     flat_name (fst fv) \<and> (op = ''$rename'' \<longrightarrow> (\<forall>n. snd fv = PStr n \<longrightarrow> flat_name n))"

definition flat_update :: "doc \<Rightarrow> bool" where
  "flat_update upd \<longleftrightarrow>
     (\<forall>os\<in>set upd. \<exists>fs. snd os = PDict fs \<and> (\<forall>fv\<in>set fs. flat_entry (fst os) fv))"

definition only_at :: "nat \<Rightarrow> heap \<Rightarrow> heap \<Rightarrow> bool" where
  "only_at a h h' \<longleftrightarrow> length h' = length h \<and> take a h' = take a h"

lemma only_at_refl [simp]: "only_at a h h"
  by (simp add: only_at_def)

lemma only_at_trans: "only_at a h h' \<Longrightarrow> only_at a h' h'' \<Longrightarrow> only_at a h h''"
  by (simp add: only_at_def)

lemma only_at_set [simp]: "only_at a h (h[a := c])"
  by (simp add: only_at_def)

lemma only_at_unset_set [simp]: "only_at a h (hset (hunset h a [p]) a [q] x)"
  by (simp add: only_at_def)

lemma upd_only:
  "upd_arith f a [p] x cur h = Inr h' \<Longrightarrow> only_at a h h'"
  "upd_push a [p] x cur h = Inr h' \<Longrightarrow> only_at a h h'"
  "upd_add_to_set a [p] x cur h = Inr h' \<Longrightarrow> only_at a h h'"
  by (auto simp: upd_arith_def upd_push_def upd_add_to_set_def bindE_eq_Inr)

lemma upd_extreme_only: "upd_extreme X b a [p] x cur h = Inr h' \<Longrightarrow> only_at a h h'"
  by (cases cur) (auto simp: upd_extreme_def bindE_eq_Inr Let_def split: if_split_asm)

lemma upd_pull_only: "upd_pull R a [p] x cur h = Inr h' \<Longrightarrow> only_at a h h'"
  by (auto simp: upd_pull_def bindE_eq_Inr split: option.splits hval.splits pyval.splits)

lemma upd_pop_only: "upd_pop a [p] x cur h = Inr h' \<Longrightarrow> only_at a h h'"
  by (cases "list_at cur") (auto simp: upd_pop_def bindE_eq_Inr)

lemma upd_rename_only:
  "upd_rename a [p] x cur h = Inr h' \<Longrightarrow> (\<forall>n. x = HLeaf (PStr n) \<longrightarrow> flat_name n) \<Longrightarrow> only_at a h h'"
  by (auto simp: upd_rename_def split: option.splits hval.splits pyval.splits)

lemma update_field_only:
  assumes u: "update_field X R op a (f, x) h = Inr h'"
    and f: "flat_name f" "op = ''$rename'' \<Longrightarrow> (\<forall>n. x = HLeaf (PStr n) \<longrightarrow> flat_name n)"
  shows "only_at a h h'"
  using u unfolding update_field_def Let_def prod.case flat_parts[OF f(1)]
  by (auto split: if_split_asm dest: upd_only upd_extreme_only upd_pull_only upd_pop_only upd_rename_only[OF _ f(2)])

lemma fold_only:
  assumes "foldR f xs h = Inr h'" "only_at a h0 h"
    "\<And>x h h'. x \<in> set xs \<Longrightarrow> only_at a h0 h \<Longrightarrow> f x h = Inr h' \<Longrightarrow> only_at a h h'"
  shows "only_at a h0 h'"
  using assms
proof (induction xs arbitrary: h)
  case (Cons x xs)
  then obtain h1 where h1: "f x h = Inr h1" "foldR f xs h1 = Inr h'" by (auto simp: bindE_eq_Inr)
  from Cons.prems(2,3) h1(1) have "only_at a h0 h1" by (auto intro: only_at_trans)
  with Cons h1(2) show ?case by auto
qed simp

lemma mapE_read_mem:
  assumes "mapE (\<lambda>kx. bindE (g (snd kx)) (\<lambda>v. Inr (fst kx, v))) c = Inr d" "(k, x) \<in> set c"
  shows "\<exists>v. g x = Inr v \<and> (k, v) \<in> set d"
proof -
  from assms(2) obtain i where i: "i < length c" "c ! i = (k, x)" by (auto simp: in_set_conv_nth)
  with assms(1) have "bindE (g x) (\<lambda>v. Inr (k, v)) = Inr (d ! i)" "i < length d"
    by (auto simp: mapE_eq_Inr_nth)
  then show ?thesis by (auto simp: bindE_eq_Inr intro: nth_mem dest: sym)
qed

lemma read_kept:
  "down h0 a \<Longrightarrow> only_at a h0 h \<Longrightarrow> refs_below a x \<Longrightarrow> read_val n h x = read_val n h0 x"
  using read_local[of h0 a h x n] by (simp add: only_at_def)

lemma cell_kept: "only_at a h0 h \<Longrightarrow> b < a \<Longrightarrow> h ! b = h0 ! b"
  unfolding only_at_def by (metis nth_take)

lemma unset_field_only: "flat_name f \<Longrightarrow> unset_field a (PStr f) h = Inr h' \<Longrightarrow> only_at a h h'"
  by (auto simp: unset_field_def)

lemma update_op_only:
  assumes d: "down h0 a" and u: "update_op X R on_insert a (op, x) h = Inr h'" and h: "only_at a h0 h"
    and x: "refs_below a x" "read_val n h0 x = Inr (PDict fs)"
    and fl: "\<forall>fv\<in>set fs. flat_entry op fv"
  shows "only_at a h h'"
proof -
  note rk = read_kept[OF d h x(1)]
  consider (unset) v ys where "op = ''$unset''" "value_of' h x = Inr v" "py_iter v = Inr ys" "foldR (unset_field a) ys h = Inr h'"
    | (skip) "h' = h"
    | (fields) s where "x = HRef s" "foldR (update_field X R op a) (h ! s) h = Inr h'"
    using u by (auto simp: update_op_def bindE_eq_Inr split: if_split_asm hval.splits)
  then show ?thesis
  proof cases
    case (unset v ys)
    have v: "v = PDict fs"
      using unset(2) x(2) rk[of n] rk[of "length h"] read_mono[of n h x "PDict fs" "max n (length h)"]
        read_mono[of "length h" h x v "max n (length h)"] by (simp add: value_of'_def)
    have "only_at a h h'"
      by (rule fold_only[OF unset(4) only_at_refl])
        (use unset(3) v fl in \<open>force simp: py_iter_def flat_entry_def dest: unset_field_only\<close>)
    then show ?thesis .
  next
    case (fields s)
    then have s: "s < a" using x(1) by simp
    have c: "h ! s = h0 ! s" by (rule cell_kept[OF h s])
    obtain m where n: "n = Suc m" using x(2) fields(1) by (cases n) auto
    have rd: "mapE (\<lambda>kx. bindE (read_val m h0 (snd kx)) (\<lambda>v. Inr (fst kx, v))) (h0 ! s) = Inr fs"
      using x(2) by (auto simp: fields(1) n bindE_eq_Inr)
    show ?thesis
    proof (rule fold_only[OF fields(2) only_at_refl])
      fix fy k k' assume fy: "fy \<in> set (h ! s)" and uf: "update_field X R op a fy k = Inr k'"
      obtain f y where e: "fy = (f, y)" by (cases fy)
      from mapE_read_mem[OF rd, of f y] fy e c obtain v where "read_val m h0 y = Inr v" "(f, v) \<in> set fs" by auto
      with fl have fe: "flat_entry op (f, v)" by blast
      show "only_at a k k'"
        by (rule update_field_only[OF uf[unfolded e]])
          (use fe \<open>read_val m h0 y = Inr v\<close> in \<open>auto simp: flat_entry_def\<close>)
    qed
  qed simp
qed

text \<open>An update of top-level fields changes neither the document it is given nor itself.\<close>

lemma flat_update_frame:
  assumes fl: "flat_update upd" and u: "apply_update X R existing upd on_insert = Inr (d, d0, u0)"
  shows "d0 = existing \<and> u0 = upd"
proof (cases "has_ops upd")
  case False
  with u show ?thesis by (auto simp: apply_update_def)
next
  case True
  obtain h e up cu where ld: "loaded existing upd h e up cu"
    and ap: "apply_update X R existing upd on_insert =
       bindE (foldR (update_op X R on_insert (length h)) cu (h @ [h ! e])) (\<lambda>h'.
       bindE (doc_of h' (HRef (length h))) (\<lambda>d. bindE (doc_of h' (HRef e)) (\<lambda>d0.
       bindE (doc_of h' (HRef up)) (\<lambda>u0. Inr (d, d0, u0)))))"
    by (rule apply_update_loaded[OF True])
  let ?a = "length h" and ?h = "h @ [h ! e]"
  note l = ld[unfolded loaded_def]
  have dn: "down ?h ?a" using l by (auto simp: down_def nth_append)
  obtain h' where f: "foldR (update_op X R on_insert ?a) cu ?h = Inr h'"
    and r: "doc_of h' (HRef e) = Inr d0" "doc_of h' (HRef up) = Inr u0"
    using u unfolding ap by (auto simp: bindE_eq_Inr)
  obtain m where m: "?a = Suc m" using l by (cases ?a) auto
  have rd: "mapE (\<lambda>kx. bindE (read_val m h (snd kx)) (\<lambda>v. Inr (fst kx, v))) cu = Inr upd"
    using l by (auto simp: m bindE_eq_Inr)
  have hk: "read_val n ?h x = read_val n h x" if "refs_below ?a x" for n x
    using read_local[of h ?a ?h x n] l that by simp
  have "only_at ?a ?h h'"
  proof (rule fold_only[OF f only_at_refl])
    fix ox k k' assume ox: "ox \<in> set cu" and k: "only_at ?a ?h k" and uo: "update_op X R on_insert ?a ox k = Inr k'"
    obtain op x where e: "ox = (op, x)" by (cases ox)
    from mapE_read_mem[OF rd, of op x] ox e obtain v where v: "read_val m h x = Inr v" "(op, v) \<in> set upd" by auto
    from fl v(2) obtain fs where fs: "v = PDict fs" "\<forall>fv\<in>set fs. flat_entry op fv" by (auto simp: flat_update_def)
    have "refs_below up x" using l ox e down_refs[of h ?a up "(op, x)"] by simp
    then have rb: "refs_below ?a x" by (rule refs_below_mono) (use l in simp)
    show "only_at ?a k k'"
      by (rule update_op_only[OF dn uo[unfolded e] k rb _ fs(2), of m]) (use v fs hk[OF rb] in simp)
  qed
  then have lk: "length h' = Suc ?a" and rk: "read_val n h' (HRef b) = read_val n h (HRef b)" if "b < ?a" for n b
    using read_kept[OF dn, of h' "HRef b" n] hk[of "HRef b" n] that by (auto simp: only_at_def)
  have "read_val (length h') h' (HRef b) = Inr (PDict w)" if "b < ?a" "read_val ?a h (HRef b) = Inr (PDict w)" for b w
    using rk[OF that(1), of ?a] lk[OF that(1)] read_mono[of ?a h' "HRef b" "PDict w" "length h'"] that(2) by simp
  with l r show ?thesis by (auto simp: doc_of_def value_of'_def)
qed

section \<open>A dotted path writes into the document it was given\<close>

lemma mapE_read_dset:
  assumes "mapE (\<lambda>kx. bindE (g (snd kx)) (\<lambda>v. Inr (fst kx, v))) c = Inr d" "g x = Inr v"
  shows "mapE (\<lambda>kx. bindE (g (snd kx)) (\<lambda>v. Inr (fst kx, v))) (dset k x c) = Inr (dset k v d)"
  using assms
proof (induction c arbitrary: d)
  case (Cons kx c)
  then show ?case by (cases kx) (auto simp: bindE_eq_Inr)
qed simp

text \<open>
  \<open>{"$set": {"p.q": v}}\<close> on a document whose field \<open>p\<close> is a dict: the copy shares that
  dict, so the document that was passed in is changed in place, to exactly the result.
\<close>

lemma load_grows:
  "load_val v h = (x, h1) \<Longrightarrow> \<exists>t. h1 = h @ t"
  "load_cell d h = (c, h1) \<Longrightarrow> \<exists>t. h1 = h @ t"
proof (induction v h and d h arbitrary: x h1 and c h1 rule: load_val_load_cell.induct)
  case (1 d h)
  obtain c h2 where c: "load_cell d h = (c, h2)" by (cases "load_cell d h")
  from "1.IH"[OF c] "1.prems" c show ?case by auto
next
  case (4 k v d h)
  obtain y h2 where y: "load_val v h = (y, h2)" by (cases "load_val v h")
  obtain c' h3 where c: "load_cell d h2 = (c', h3)" by (cases "load_cell d h2")
  from "4.IH"(1)[OF y] "4.IH"(2)[OF y[symmetric] c] "4.prems" y c show ?case by auto
qed auto

text \<open>A loaded value lives in the cells appended while loading it.\<close>

definition agree :: "heap \<Rightarrow> heap \<Rightarrow> nat \<Rightarrow> nat \<Rightarrow> bool" where
  "agree h' h lo hi \<longleftrightarrow> (\<forall>i. lo \<le> i \<and> i < hi \<longrightarrow> h' ! i = h ! i)"

lemma agree_sub: "agree h' h lo hi \<Longrightarrow> lo \<le> lo' \<Longrightarrow> hi' \<le> hi \<Longrightarrow> agree h' h lo' hi'"
  by (simp add: agree_def)

lemma agree_prefix: "agree h' (h @ t) lo hi \<Longrightarrow> hi \<le> length h \<Longrightarrow> agree h' h lo hi"
  by (simp add: agree_def nth_append)

definition reads_cell :: "nat \<Rightarrow> heap \<Rightarrow> cell \<Rightarrow> doc \<Rightarrow> bool" where
  "reads_cell n h c d \<longleftrightarrow> mapE (\<lambda>kx. bindE (read_val n h (snd kx)) (\<lambda>v. Inr (fst kx, v))) c = Inr d"

lemma reads_cell_simps [simp]:
  "reads_cell n h [] d \<longleftrightarrow> d = []"
  "reads_cell n h ((k, x) # c) d \<longleftrightarrow>
     (\<exists>v d'. d = (k, v) # d' \<and> read_val n h x = Inr v \<and> reads_cell n h c d')"
  by (auto simp: reads_cell_def bindE_eq_Inr)

lemma read_ref: "read_val (Suc n) h (HRef a) = Inr v \<longleftrightarrow> (\<exists>d. v = PDict d \<and> reads_cell n h (h ! a) d)"
  by (auto simp: reads_cell_def bindE_eq_Inr)

lemma reads_cell_dset: "reads_cell n h c d \<Longrightarrow> read_val n h x = Inr v \<Longrightarrow> reads_cell n h (dset k x c) (dset k v d)"
  unfolding reads_cell_def by (rule mapE_read_dset)

lemma load_region:
  "load_val v h = (x, h1) \<Longrightarrow> agree h' h1 (length h) (length h1) \<Longrightarrow> length h1 \<le> n \<Longrightarrow> read_val n h' x = Inr v"
  "load_cell d h = (c, h1) \<Longrightarrow> agree h' h1 (length h) (length h1) \<Longrightarrow> length h1 \<le> n \<Longrightarrow> reads_cell n h' c d"
proof (induction v h and d h arbitrary: x h1 n and c h1 n rule: load_val_load_cell.induct)
  case (1 d h)
  obtain c h2 where c: "load_cell d h = (c, h2)" by (cases "load_cell d h")
  from "1.prems"(1) c have x: "x = HRef (length h2)" "h1 = h2 @ [c]" by auto
  obtain t where t: "h2 = h @ t" using load_grows(2)[OF c] by blast
  from "1.prems"(3) x obtain m where n: "n = Suc m" "length h2 \<le> m" by (cases n) auto
  have "agree h' h2 (length h) (length h2)"
    by (rule agree_prefix[of h' h2 "[c]"]) (use "1.prems"(2) x in \<open>auto intro: agree_sub\<close>)
  from "1.IH"[OF c this n(2)] have "reads_cell m h' c d" .
  moreover have "h' ! length h2 = c" using "1.prems"(2) x t by (simp add: agree_def)
  ultimately show ?case unfolding n(1) x(1) read_ref by simp
next
  case (4 k v d h)
  obtain y h2 where y: "load_val v h = (y, h2)" by (cases "load_val v h")
  obtain c' h3 where c: "load_cell d h2 = (c', h3)" by (cases "load_cell d h2")
  from "4.prems"(1) y c have e: "c = (k, y) # c'" "h1 = h3" by auto
  obtain t1 t2 where t: "h2 = h @ t1" "h3 = h2 @ t2" using load_grows(1)[OF y] load_grows(2)[OF c] by blast
  have "agree h' h2 (length h) (length h2)"
    by (rule agree_prefix[of h' h2 t2]) (use "4.prems"(2) e t in \<open>auto intro: agree_sub\<close>)
  then have "read_val n h' y = Inr v" by (rule "4.IH"(1)[OF y]) (use "4.prems"(3) e t in simp)
  moreover have "reads_cell n h' c' d"
    by (rule "4.IH"(2)[OF y[symmetric] c]) (use "4.prems"(2,3) e t in \<open>auto intro: agree_sub\<close>)
  ultimately show ?case using e by simp
qed auto

text \<open>Writing into the cell of one dict field changes that field of what is read, and no other.\<close>

lemma load_patch:
  "load_cell d h = (c, h1) \<Longrightarrow> map_of d p = Some (PDict sub) \<Longrightarrow>
   \<exists>b. map_of c p = Some (HRef b) \<and> length h \<le> b \<and> b < length h1 \<and>
     (\<forall>n h'. length h1 \<le> n \<longrightarrow> (\<forall>i. length h \<le> i \<and> i < length h1 \<and> i \<noteq> b \<longrightarrow> h' ! i = h1 ! i) \<longrightarrow>
        h' ! b = dset q (HLeaf w) (h1 ! b) \<longrightarrow> reads_cell n h' c (dset p (PDict (dset q w sub)) d))"
proof (induction d arbitrary: h c)
  case (Cons kv d)
  obtain k v where kv: "kv = (k, v)" by (cases kv)
  obtain y h2 where y: "load_val v h = (y, h2)" by (cases "load_val v h")
  obtain c' where cc: "load_cell d h2 = (c', h1)" "c = (k, y) # c'"
    using Cons.prems(1) kv y by (auto split: prod.splits)
  obtain t1 t2 where t: "h2 = h @ t1" "h1 = h2 @ t2"
    using load_grows(1)[OF y] load_grows(2)[OF cc(1)] by blast
  show ?case
  proof (cases "k = p")
    case True
    with Cons.prems(2) kv have v: "v = PDict sub" by simp
    obtain cs h0 where cs: "load_cell sub h = (cs, h0)" by (cases "load_cell sub h")
    with y v have y': "y = HRef (length h0)" "h2 = h0 @ [cs]" by auto
    obtain t0 where t0: "h0 = h @ t0" using load_grows(2)[OF cs] by blast
    have hl: "length h \<le> length h2" "length h0 < length h2" by (simp add: t(1), simp add: y'(2))
    have "reads_cell n h' c (dset p (PDict (dset q w sub)) (kv # d))"
      if n: "length h1 \<le> n" and o: "\<forall>i. length h \<le> i \<and> i < length h1 \<and> i \<noteq> length h0 \<longrightarrow> h' ! i = h1 ! i"
        and b: "h' ! length h0 = dset q (HLeaf w) (h1 ! length h0)" for n h'
    proof -
      have "length h2 = Suc (length h0)" "length h2 \<le> length h1" using t(2) y'(2) by simp_all
      with n obtain m where m: "n = Suc m" "length h0 \<le> m" by (cases n) auto
      have h1e: "h1 = h0 @ cs # t2" using t(2) y'(2) by simp
      have "agree h' h0 (length h) (length h0)"
        using o by (auto simp: agree_def h1e nth_append)
      from load_region(2)[OF cs this m(2)] have "reads_cell m h' (dset q (HLeaf w) cs) (dset q w sub)"
        by (intro reads_cell_dset) simp_all
      moreover have "h' ! length h0 = dset q (HLeaf w) cs" using b by (simp add: h1e)
      ultimately have 1: "read_val n h' y = Inr (PDict (dset q w sub))" unfolding m(1) y'(1) read_ref by simp
      have 2: "reads_cell n h' c' d"
        by (rule load_region(2)[OF cc(1) _ n]) (use o hl in \<open>auto simp: agree_def\<close>)
      show ?thesis using 1 2 True cc(2) kv by simp
    qed
    moreover have "length h2 \<le> length h1" using t(2) by simp
    then have "length h \<le> length h0" "length h0 < length h1" using hl(2) t0 by simp_all
    ultimately show ?thesis using True cc(2) y'(1) by (intro exI[of _ "length h0"]) simp
  next
    case False
    with Cons.prems(2) kv have "map_of d p = Some (PDict sub)" by simp
    from Cons.IH[OF cc(1) this] obtain b where b: "map_of c' p = Some (HRef b)" "length h2 \<le> b" "b < length h1"
      and r: "\<And>n h'. length h1 \<le> n \<Longrightarrow> (\<forall>i. length h2 \<le> i \<and> i < length h1 \<and> i \<noteq> b \<longrightarrow> h' ! i = h1 ! i) \<Longrightarrow>
        h' ! b = dset q (HLeaf w) (h1 ! b) \<Longrightarrow> reads_cell n h' c' (dset p (PDict (dset q w sub)) d)"
      by blast
    have "reads_cell n h' c (dset p (PDict (dset q w sub)) (kv # d))"
      if n: "length h1 \<le> n" and o: "\<forall>i. length h \<le> i \<and> i < length h1 \<and> i \<noteq> b \<longrightarrow> h' ! i = h1 ! i"
        and b': "h' ! b = dset q (HLeaf w) (h1 ! b)" for n h'
    proof -
      have "agree h' h2 (length h) (length h2)" using o t b by (auto simp: agree_def nth_append)
      from load_region(1)[OF y this, of n] n t have "read_val n h' y = Inr v" by simp
      moreover have "reads_cell n h' c' (dset p (PDict (dset q w sub)) d)"
        by (rule r[OF n _ b']) (use o t in auto)
      ultimately show ?thesis using False cc(2) kv by simp
    qed
    then show ?thesis using False cc(2) b t by (intro exI[of _ b]) simp
  qed
qed simp

lemma load_val_leaf: "(\<And>d. v \<noteq> PDict d) \<Longrightarrow> load_val v h = (HLeaf v, h)"
  by (cases v) auto

lemma doc_of_cell:
  assumes "length h = Suc n" "reads_cell n h (h ! x) d"
  shows "doc_of h (HRef x) = Inr d"
proof -
  have "read_val (Suc n) h (HRef x) = Inr (PDict d)" using assms(2) unfolding read_ref by blast
  with assms(1) show ?thesis by (simp add: doc_of_def value_of'_def del: read_val.simps)
qed

lemma nested_set_in_place:
  assumes d: "map_of d p = Some (PDict sub)" and f: "flat_name p" "flat_name q" and v: "\<And>e. v \<noteq> PDict e"
  shows "apply_update X R d [(''$set'', PDict [(p @ CHR ''.'' # q, v)])] on_insert =
    Inr (dset p (PDict (dset q v sub)) d, dset p (PDict (dset q v sub)) d,
      [(''$set'', PDict [(p @ CHR ''.'' # q, v)])])"
proof -
  obtain ce h1 where c: "load_cell d [] = (ce, h1)" by (cases "load_cell d []")
  from load_patch[OF c d, of q v] obtain b where b: "map_of ce p = Some (HRef b)" "b < length h1"
    and rd: "\<And>n h'. length h1 \<le> n \<Longrightarrow> (\<forall>i. i < length h1 \<and> i \<noteq> b \<longrightarrow> h' ! i = h1 ! i) \<Longrightarrow>
      h' ! b = dset q (HLeaf v) (h1 ! b) \<Longrightarrow> reads_cell n h' ce (dset p (PDict (dset q v sub)) d)"
    by auto
  let ?f = "p @ CHR ''.'' # q" and ?n = "length h1"
  let ?h = "h1 @ [ce, [(?f, HLeaf v)], [(''$set'', HRef (Suc ?n))], ce]"
  let ?h' = "?h[b := dset q (HLeaf v) (h1 ! b)]"
  have pp: "path_parts ?f = [p, q]"
    using f split_on_at[of "CHR ''.''" p q] by (simp add: path_parts_def flat_name_def split_on_none)
  have at: "?h ! Suc (Suc (Suc ?n)) = ce" "?h ! Suc ?n = [(?f, HLeaf v)]" "?h ! b = h1 ! b"
    using b(2) by (simp_all add: nth_append)
  have run: "foldR (update_op X R on_insert (Suc (Suc (Suc ?n)))) [(''$set'', HRef (Suc ?n))] ?h = Inr ?h'"
    by (simp add: update_op_def UPDATE_OPS_def at update_field_def Let_def pp b(1))
  have cells: "?h' ! ?n = ce" "?h' ! Suc (Suc (Suc ?n)) = ce" "?h' ! Suc ?n = [(?f, HLeaf v)]"
    "?h' ! Suc (Suc ?n) = [(''$set'', HRef (Suc ?n))]"
    using b(2) by (simp_all add: nth_append nth_list_update)
  have l: "length ?h' = Suc (Suc (Suc (Suc ?n)))" by simp
  have rc: "reads_cell (Suc (Suc (Suc ?n))) ?h' ce (dset p (PDict (dset q v sub)) d)"
    by (rule rd) (use b(2) in \<open>auto simp: nth_append nth_list_update\<close>)
  have a: "doc_of ?h' (HRef x) = Inr (dset p (PDict (dset q v sub)) d)" if "?h' ! x = ce" for x
    by (rule doc_of_cell[OF l]) (simp only: that rc)
  have u: "doc_of ?h' (HRef (Suc (Suc ?n))) = Inr [(''$set'', PDict [(?f, v)])]"
    unfolding doc_of_def value_of'_def l by (simp add: cells)
  show ?thesis
    unfolding apply_update_def
    using c run a[OF cells(1)] a[OF cells(2)] u
    by (simp add: has_ops_def starts_with_def load_val_leaf[OF v] Let_def at del: foldR.simps length_list_update)
qed

end
