(* ===== verification/Mongo.thy ===== *)
theory Mongo
  imports Client MongoUpdate
begin

text \<open>
  \<open>Cursor\<close>, \<open>Collection\<close> and \<open>MongoCompat\<close> of \<open>nedb.mongo\<close>: every method as a sequence of
  engine calls.  \<open>oid\<close> gives the text of the \<open>ObjectId\<close> a call draws; \<open>R\<close> is regular-expression
  matching.

  An update that writes into a dict its document shares with the store changes stored versions
  in place (see \<open>MongoUpdate\<close>); the engine of the model has values, so there the model stops
  with \<open>Untyped\<close>.
\<close>

section \<open>ObjectId\<close>

definition be_bytes :: "nat \<Rightarrow> nat \<Rightarrow> string" where
  \<comment> \<open>the low \<open>k\<close> bytes of \<open>n\<close>, most significant first\<close>
  "be_bytes k n = map (\<lambda>i. char_of ((n div 256 ^ (k - 1 - i)) mod 256)) [0..<k]"

definition object_id :: "nat \<Rightarrow> string \<Rightarrow> nat \<Rightarrow> string \<times> nat" where
  \<comment> \<open>from the second, the five machine bytes and the counter\<close>
  "object_id now machine counter =
     (let c = (counter + 1) mod 2 ^ 24
      in (hexlify (be_bytes 4 now @ machine @ be_bytes 3 c), c))"

section \<open>Collections\<close>

record mcoll =
  mc_coll :: string
  mc_client :: string

definition genM :: "(nat \<Rightarrow> string) \<Rightarrow> pyval step" where
  "genM oid w = (Inr (PStr (oid (fst w))), w)"

text \<open>\<open>_candidates\<close>: by id, by a list of ids, by equality-indexed fields, or all documents.\<close>

fun where_of :: "indexes \<Rightarrow> string \<Rightarrow> doc \<Rightarrow> (string \<times> string \<times> pyval) list \<Rightarrow> (string \<times> string \<times> pyval) list" where
  "where_of ix coll [] acc = acc"
| "where_of ix coll ((k, v) # filt) acc =
     (if starts_with ''$'' k \<or> CHR ''.'' \<in> set k then []
      else where_of ix coll filt
        (case v of
           PDict _ \<Rightarrow> acc
         | PList _ \<Rightarrow> acc
         | _ \<Rightarrow> if has_eq ix coll k then acc @ [(k, ''='', v)] else acc))"

definition in_list :: "pyval \<Rightarrow> pyval option" where
  \<comment> \<open>\<open>idq["$in"]\<close> of a dict with that only key\<close>
  "in_list idq = (case idq of PDict [(k, v)] \<Rightarrow> if k = ''$in'' then Some v else None | _ \<Rightarrow> None)"

definition opt_list :: "'a option \<Rightarrow> 'a list" where
  "opt_list x = (case x of None \<Rightarrow> [] | Some y \<Rightarrow> [y])"

definition mongo_scan :: "ext \<Rightarrow> mcoll \<Rightarrow> doc \<Rightarrow> doc list step" where
  "mongo_scan X c filt =
     readM (\<lambda>e.
       let w = where_of (m_ix (e_mat e)) (mc_coll c) filt [] in
       if w \<noteq> [] then execute X ((empty_plan (mc_coll c))\<lparr> q_where := w \<rparr>) e
       else eng_query X (''FROM '' @ mc_coll c) e)"

definition mongo_candidates :: "ext \<Rightarrow> (nat \<Rightarrow> env) \<Rightarrow> mcoll \<Rightarrow> doc \<Rightarrow> doc list step" where
  "mongo_candidates X W c filt =
     (let idq = doc_get filt ''_id'' in
      case idq of
        PStr s \<Rightarrow> bindM (m_get X W (mc_coll c) s) (\<lambda>d. retM (opt_list d))
      | PInt i \<Rightarrow> bindM (m_get X W (mc_coll c) (show_int i)) (\<lambda>d. retM (opt_list d))
      | _ \<Rightarrow>
          (case in_list idq of
             Some vs \<Rightarrow>
               bindM (liftM (py_iter vs)) (\<lambda>xs.
               bindM (mapM (\<lambda>v. m_get X W (mc_coll c) (py_str X v)) xs) (\<lambda>ds.
                 retM (concat (map opt_list ds))))
           | None \<Rightarrow> mongo_scan X c filt))"

definition find_docs :: "ext \<Rightarrow> regex \<Rightarrow> (nat \<Rightarrow> env) \<Rightarrow> mcoll \<Rightarrow> doc \<Rightarrow> doc list step" where
  "find_docs X R W c filt =
     bindM (mongo_candidates X W c filt) (\<lambda>ds.
       liftM (filterE (\<lambda>d. match_doc R (PDict d) (PDict filt)) ds))"

section \<open>Inserts\<close>

definition insert_one :: "ext \<Rightarrow> (nat \<Rightarrow> env) \<Rightarrow> (nat \<Rightarrow> string) \<Rightarrow> mcoll \<Rightarrow> doc \<Rightarrow> pyval step" where
  "insert_one X W oid c document =
     bindM (case doc_get document ''_id'' of
              PNone \<Rightarrow> bindM (genM oid) (\<lambda>i. retM (i, dset ''_id'' i document))
            | i \<Rightarrow> retM (i, document)) (\<lambda>(i, d).
     bindM (m_get X W (mc_coll c) (py_str X i)) (\<lambda>old.
       if old \<noteq> None then raiseM MongoErr
       else bindM (m_put X W (mc_client c) (mc_coll c) (py_str X i) d) (\<lambda>_. retM i)))"

definition insert_many :: "ext \<Rightarrow> (nat \<Rightarrow> env) \<Rightarrow> (nat \<Rightarrow> string) \<Rightarrow> mcoll \<Rightarrow> doc list \<Rightarrow> pyval list step" where
  "insert_many X W oid c = mapM (insert_one X W oid c)"

section \<open>Reads\<close>

record cursor =
  cu_filt :: doc
  cu_proj :: "doc option"
  cu_sort :: "(string \<times> int) list"
  cu_skip :: int
  cu_limit :: "int option"

definition find_cursor :: "doc \<Rightarrow> doc option \<Rightarrow> cursor" where
  "find_cursor filt proj =
     \<lparr> cu_filt = filt, cu_proj = proj, cu_sort = [], cu_skip = 0, cu_limit = None \<rparr>"

definition with_sort :: "(string \<times> int option) + (string \<times> int) list \<Rightarrow> cursor \<Rightarrow> cursor" where
  \<comment> \<open>\<open>sort\<close>: a key with an optional direction, or a list of both\<close>
  "with_sort k cu =
     cu\<lparr> cu_sort := (case k of
       Inl (f, d) \<Rightarrow> [(f, case d of None \<Rightarrow> 1 | Some d \<Rightarrow> d)] | Inr ks \<Rightarrow> ks) \<rparr>"

definition with_skip :: "int \<Rightarrow> cursor \<Rightarrow> cursor" where
  "with_skip n cu = cu\<lparr> cu_skip := n \<rparr>"

definition with_limit :: "int \<Rightarrow> cursor \<Rightarrow> cursor" where
  "with_limit n cu = cu\<lparr> cu_limit := Some n \<rparr>"

text \<open>The keys are applied from the last to the first; a stable sort keeps the earlier ones on top.\<close>

fun cursor_sort :: "ext \<Rightarrow> (string \<times> int) list \<Rightarrow> doc list \<Rightarrow> doc list" where
  "cursor_sort X [] ds = ds"
| "cursor_sort X ((f, dirn) # keys) ds = sort_docs X f (dirn < 0) (cursor_sort X keys ds)"

definition page :: "ext \<Rightarrow> cursor \<Rightarrow> doc list \<Rightarrow> doc list res" where
  \<comment> \<open>\<open>_materialize\<close> after the documents are found\<close>
  "page X cu ds =
     (let ds = cursor_sort X (cu_sort cu) ds;
          ds = (if cu_skip cu = 0 then ds else py_drop (Some (cu_skip cu)) ds);
          ds = py_take (cu_limit cu) ds in
      case cu_proj cu of None \<Rightarrow> Inr ds | Some p \<Rightarrow> mapE (project p) ds)"

definition materialize :: "ext \<Rightarrow> regex \<Rightarrow> (nat \<Rightarrow> env) \<Rightarrow> mcoll \<Rightarrow> cursor \<Rightarrow> doc list step" where
  "materialize X R W c cu = bindM (find_docs X R W c (cu_filt cu)) (\<lambda>ds. liftM (page X cu ds))"

definition to_list :: "ext \<Rightarrow> regex \<Rightarrow> (nat \<Rightarrow> env) \<Rightarrow> mcoll \<Rightarrow> cursor \<Rightarrow> int option \<Rightarrow> doc list step" where
  "to_list X R W c cu len = bindM (materialize X R W c cu) (\<lambda>ds. retM (py_take len ds))"

definition cursor_count :: "ext \<Rightarrow> regex \<Rightarrow> (nat \<Rightarrow> env) \<Rightarrow> mcoll \<Rightarrow> cursor \<Rightarrow> nat step" where
  "cursor_count X R W c cu = bindM (materialize X R W c cu) (\<lambda>ds. retM (length ds))"

definition find_one :: "ext \<Rightarrow> regex \<Rightarrow> (nat \<Rightarrow> env) \<Rightarrow> mcoll \<Rightarrow> doc \<Rightarrow> doc option \<Rightarrow> doc option step" where
  "find_one X R W c filt proj =
     bindM (to_list X R W c (with_limit 1 (find_cursor filt proj)) None)
       (\<lambda>ds. retM (case ds of [] \<Rightarrow> None | d # _ \<Rightarrow> Some d))"

definition count_documents :: "ext \<Rightarrow> regex \<Rightarrow> (nat \<Rightarrow> env) \<Rightarrow> mcoll \<Rightarrow> doc \<Rightarrow> nat step" where
  "count_documents X R W c filt = bindM (find_docs X R W c filt) (\<lambda>ds. retM (length ds))"

definition estimated_document_count :: "ext \<Rightarrow> mcoll \<Rightarrow> nat step" where
  "estimated_document_count X c =
     bindM (m_query X (''FROM '' @ mc_coll c)) (\<lambda>ds. retM (length ds))"

fun distinct_vals :: "string \<Rightarrow> doc list \<Rightarrow> pyval list \<Rightarrow> pyval list" where
  "distinct_vals key [] seen = seen"
| "distinct_vals key (d # ds) seen =
     distinct_vals key ds
       (case get_path (PDict d) key of
          None \<Rightarrow> seen
        | Some (PList xs) \<Rightarrow> uniq_vals seen xs
        | Some v \<Rightarrow> uniq_vals seen [v])"

definition distinct_of :: "ext \<Rightarrow> regex \<Rightarrow> (nat \<Rightarrow> env) \<Rightarrow> mcoll \<Rightarrow> string \<Rightarrow> doc \<Rightarrow> pyval list step" where
  "distinct_of X R W c key filt = bindM (find_docs X R W c filt) (\<lambda>ds. retM (distinct_vals key ds []))"

section \<open>Updates\<close>

record update_result =
  ur_matched :: nat
  ur_modified :: nat
  ur_upserted :: pyval

definition write_doc :: "ext \<Rightarrow> (nat \<Rightarrow> env) \<Rightarrow> mcoll \<Rightarrow> doc \<Rightarrow> pyval \<Rightarrow> unit step" where
  "write_doc X W c d i =
     bindM (m_put X W (mc_client c) (mc_coll c) (py_str X i) (dset ''_id'' i d)) (\<lambda>_. retM ())"

definition seed_of :: "doc \<Rightarrow> doc" where
  \<comment> \<open>the equality fields of the filter\<close>
  "seed_of filt =
     foldl (\<lambda>d kv. dset (fst kv) (snd kv) d) []
       (filter (\<lambda>kv. \<not> starts_with ''$'' (fst kv) \<and>
          (case snd kv of PDict _ \<Rightarrow> False | PList _ \<Rightarrow> False | _ \<Rightarrow> True)) filt)"

definition upsert_id :: "(nat \<Rightarrow> string) \<Rightarrow> doc \<Rightarrow> doc \<Rightarrow> pyval step" where
  \<comment> \<open>\<open>new.get("_id") or filter.get("_id") or ObjectId()\<close>\<close>
  "upsert_id oid new filt =
     (if py_truth (doc_get new ''_id'') then retM (doc_get new ''_id'')
      else if py_truth (doc_get filt ''_id'') then retM (doc_get filt ''_id'')
      else genM oid)"

definition insert_upsert :: "ext \<Rightarrow> (nat \<Rightarrow> env) \<Rightarrow> (nat \<Rightarrow> string) \<Rightarrow> mcoll \<Rightarrow> doc \<Rightarrow> doc \<Rightarrow> update_result step" where
  "insert_upsert X W oid c new filt =
     bindM (upsert_id oid new filt) (\<lambda>i.
     bindM (m_put X W (mc_client c) (mc_coll c) (py_str X i) (dset ''_id'' i new)) (\<lambda>_.
       retM \<lparr> ur_matched = 0, ur_modified = 0, ur_upserted = i \<rparr>))"

text \<open>One target of an update: 1 when it was written.\<close>

definition update_target :: "ext \<Rightarrow> regex \<Rightarrow> (nat \<Rightarrow> env) \<Rightarrow> mcoll \<Rightarrow> doc \<Rightarrow> doc \<Rightarrow> nat step" where
  "update_target X R W c upd d =
     bindM (liftM (apply_update X R d upd False)) (\<lambda>(d', d0, u0).
       if d0 \<noteq> d \<or> u0 \<noteq> upd then raiseM Untyped
       else
         (let i = doc_get d ''_id''; new = dset ''_id'' i d' in
          if py_eq (PDict new) (PDict d) then retM 0
          else bindM (write_doc X W c new i) (\<lambda>_. retM 1)))"

definition update_docs :: "ext \<Rightarrow> regex \<Rightarrow> (nat \<Rightarrow> env) \<Rightarrow> (nat \<Rightarrow> string) \<Rightarrow> mcoll \<Rightarrow> doc \<Rightarrow> doc \<Rightarrow> bool \<Rightarrow> bool \<Rightarrow>
    update_result step" where
  \<comment> \<open>\<open>_update\<close>\<close>
  "update_docs X R W oid c filt upd upsert many =
     bindM (find_docs X R W c filt) (\<lambda>matches.
       if matches = [] \<and> upsert then
         bindM (liftM (apply_update X R (seed_of filt) upd True)) (\<lambda>(new, _, _).
           insert_upsert X W oid c new filt)
       else
         (let targets = (if many then matches else take 1 matches) in
          bindM (mapM (update_target X R W c upd) targets) (\<lambda>ns.
            retM \<lparr> ur_matched = length targets, ur_modified = sum_list ns, ur_upserted = PNone \<rparr>)))"

definition replace_one :: "ext \<Rightarrow> regex \<Rightarrow> (nat \<Rightarrow> env) \<Rightarrow> (nat \<Rightarrow> string) \<Rightarrow> mcoll \<Rightarrow> doc \<Rightarrow> doc \<Rightarrow> bool \<Rightarrow>
    update_result step" where
  "replace_one X R W oid c filt replacement upsert =
     (if has_ops replacement then raiseM MongoErr
      else
        bindM (find_docs X R W c filt) (\<lambda>matches.
          case matches of
            [] \<Rightarrow>
              if upsert then insert_upsert X W oid c replacement filt
              else retM \<lparr> ur_matched = 0, ur_modified = 0, ur_upserted = PNone \<rparr>
          | target # _ \<Rightarrow>
              (let i = doc_get target ''_id''; d = dset ''_id'' i replacement in
               if py_eq (PDict d) (PDict target) then
                 retM \<lparr> ur_matched = 1, ur_modified = 0, ur_upserted = PNone \<rparr>
               else bindM (write_doc X W c d i) (\<lambda>_.
                 retM \<lparr> ur_matched = 1, ur_modified = 1, ur_upserted = PNone \<rparr>))))"

section \<open>Deletes, indexes, aggregation\<close>

definition delete_found :: "ext \<Rightarrow> (nat \<Rightarrow> env) \<Rightarrow> mcoll \<Rightarrow> doc \<Rightarrow> unit step" where
  \<comment> \<open>\<open>db.delete(coll, str(d["_id"]))\<close>\<close>
  "delete_found X W c d =
     (case map_of d ''_id'' of
        None \<Rightarrow> raiseM KeyError
      | Some i \<Rightarrow> m_delete X W (mc_client c) (mc_coll c) (py_str X i))"

definition update_one :: "ext \<Rightarrow> regex \<Rightarrow> (nat \<Rightarrow> env) \<Rightarrow> (nat \<Rightarrow> string) \<Rightarrow> mcoll \<Rightarrow> doc \<Rightarrow> doc \<Rightarrow> bool \<Rightarrow>
    update_result step" where
  "update_one X R W oid c filt upd upsert = update_docs X R W oid c filt upd upsert False"

definition update_many :: "ext \<Rightarrow> regex \<Rightarrow> (nat \<Rightarrow> env) \<Rightarrow> (nat \<Rightarrow> string) \<Rightarrow> mcoll \<Rightarrow> doc \<Rightarrow> doc \<Rightarrow> bool \<Rightarrow>
    update_result step" where
  "update_many X R W oid c filt upd upsert = update_docs X R W oid c filt upd upsert True"

definition delete_one :: "ext \<Rightarrow> regex \<Rightarrow> (nat \<Rightarrow> env) \<Rightarrow> mcoll \<Rightarrow> doc \<Rightarrow> nat step" where
  "delete_one X R W c filt =
     bindM (find_docs X R W c filt) (\<lambda>matches.
       case matches of [] \<Rightarrow> retM 0 | d # _ \<Rightarrow> bindM (delete_found X W c d) (\<lambda>_. retM 1))"

definition delete_many :: "ext \<Rightarrow> regex \<Rightarrow> (nat \<Rightarrow> env) \<Rightarrow> mcoll \<Rightarrow> doc \<Rightarrow> nat step" where
  "delete_many X R W c filt =
     bindM (find_docs X R W c filt) (\<lambda>matches.
       bindM (mapM (delete_found X W c) matches) (\<lambda>_. retM (length matches)))"

definition drop_coll :: "ext \<Rightarrow> (nat \<Rightarrow> env) \<Rightarrow> mcoll \<Rightarrow> unit step" where
  "drop_coll X W c =
     bindM (m_query X (''FROM '' @ mc_coll c)) (\<lambda>ds.
       bindM (mapM (delete_found X W c) ds) (\<lambda>_. retM ()))"

text \<open>A name, or a list of fields with a direction; \<open>"text"\<close> asks for a search index.\<close>

definition index_fields :: "string + (string \<times> pyval) list \<Rightarrow> string \<Rightarrow> (string \<times> string) list" where
  "index_fields keys kind =
     (case keys of
        Inl f \<Rightarrow> [(f, kind)]
      | Inr fs \<Rightarrow> map (\<lambda>(f, d). (f, if d = PStr ''text'' then ''search'' else kind)) fs)"

definition mongo_index :: "ext \<Rightarrow> mcoll \<Rightarrow> string + (string \<times> pyval) list \<Rightarrow> string \<Rightarrow> string step" where
  "mongo_index X c keys kind =
     (let fs = index_fields keys kind in
      bindM (mapM (\<lambda>(f, k). m_index X (mc_coll c) f k) fs) (\<lambda>_.
        retM (join ''_'' (map fst fs) @ ''_index'')))"

definition aggregate :: "ext \<Rightarrow> regex \<Rightarrow> mcoll \<Rightarrow> pyval list \<Rightarrow> doc list step" where
  "aggregate X R c pipeline =
     bindM (m_query X (''FROM '' @ mc_coll c)) (\<lambda>ds. liftM (run_pipeline X R pipeline ds))"

definition list_collection_names :: "engine \<Rightarrow> string list res" where
  "list_collection_names e =
     bindE (mv_keys (store_of e) [] None) (\<lambda>ks.
       Inr (sort (remdups (map (takeWhile (\<lambda>c. c \<noteq> CHR '':''))
         (filter (\<lambda>k. CHR '':'' \<in> set k) ks)))))"

end
