(* ===== verification/MongoInv.thy ===== *)
theory MongoInv
  imports Mongo Collections
begin

text \<open>
  What the Mongo collection returns and changes: \<open>find\<close> gives exactly the matching documents
  whatever indexes narrow the candidates, \<open>insert_one\<close> inserts or reports a duplicate, and every
  method is a run of the engine.
\<close>

section \<open>Candidates never lose a match\<close>

fun scalar :: "pyval \<Rightarrow> bool" where
  "scalar (PDict _) = False"
| "scalar (PList _) = False"
| "scalar _ = True"

lemma split_on_plain: "c \<notin> set s \<Longrightarrow> split_on c s = [s]"
proof -
  have "c \<notin> set s \<Longrightarrow> foldr (\<lambda>x acc. if x = c then [] # acc else (x # hd acc) # tl acc) s [[]] = [s]"
    by (induction s) auto
  then show "c \<notin> set s \<Longrightarrow> split_on c s = [s]" by (simp add: split_on_def)
qed

lemma get_path_plain: "CHR ''.'' \<notin> set k \<Longrightarrow> get_path (PDict d) k = map_of d k"
  by (simp add: get_path_def split_on_plain split: option.split)

lemma match_items_all:
  "match_items R d items = Inr True \<Longrightarrow> (k, cond) \<in> set items \<Longrightarrow>
   match_key (match_doc R d) (match_field R) d k cond = Inr True"
  by (induction items) (auto simp: bindE_eq_Inr split: if_splits)

lemma match_scalar:
  assumes "match_doc R (PDict d) (PDict filt) = Inr True" "(k, v) \<in> set filt" "scalar v"
    "\<not> starts_with ''$'' k" "CHR ''.'' \<notin> set k"
  shows "eq_val (map_of d k) v"
proof -
  have "match_items R (PDict d) filt = Inr True" using assms(1) by (simp add: match_doc.simps)
  from match_items_all[OF this assms(2)] assms(4) have "match_field R (get_path (PDict d) k) v = Inr True"
    by (auto simp: match_key_def starts_with_def split: if_splits)
  moreover have "\<not> is_op_doc v" using assms(3) by (cases v) (simp_all add: is_op_doc_def)
  ultimately show ?thesis by (simp add: match_field.simps get_path_plain[OF assms(5)])
qed

lemma where_of_scalars:
  "(k, op, v) \<in> set (where_of ix c filt acc) \<Longrightarrow>
   (k, op, v) \<in> set acc \<or> (op = ''='' \<and> (k, v) \<in> set filt \<and> scalar v \<and> has_eq ix c k \<and>
     \<not> starts_with ''$'' k \<and> CHR ''.'' \<notin> set k)"
  by (induction ix c filt acc rule: where_of.induct) (auto split: if_splits pyval.splits)

lemma scalar_hash: "scalar v \<Longrightarrow> \<exists>h. hash_key v = Inr h"
  by (cases v) auto

definition null_free :: "indexes \<Rightarrow> string \<Rightarrow> doc \<Rightarrow> bool" where
  \<comment> \<open>no equality-indexed field is asked to be null\<close>
  "null_free ix c filt \<longleftrightarrow> (\<forall>(k, v)\<in>set filt. v = PNone \<longrightarrow> \<not> has_eq ix c k)"

lemma where_keyed: "null_free ix c filt \<Longrightarrow> keyed (where_of ix c filt [])"
  unfolding keyed_def null_free_def using scalar_hash by (fastforce dest!: where_of_scalars)

lemma where_lossless:
  assumes ok: "engine_ok X e" and c: "good_coll c" and n: "null_free (m_ix (e_mat e)) c filt"
    and k: "starts_with (c @ '':'') key" "reads (store_of e) key None = Some d"
    and m: "match_doc R (PDict d) (PDict filt) = Inr True"
  shows "where_ok (where_of (m_ix (e_mat e)) c filt []) d"
proof -
  have "nql_cmp (doc_get d f) op v" if w: "(f, op, v) \<in> set (where_of (m_ix (e_mat e)) c filt [])" for f op v
  proof -
    from where_of_scalars[OF w] have f: "op = ''=''" "(f, v) \<in> set filt" "scalar v"
      "has_eq (m_ix (e_mat e)) c f" "\<not> starts_with ''$'' f" "CHR ''.'' \<notin> set f" by auto
    have e: "eq_val (map_of d f) v" by (rule match_scalar[OF m f(2,3,5,6)])
    have v: "v \<noteq> PNone" using n f(2,4) by (auto simp: null_free_def)
    from f(4) obtain vm where "map_of (ix_eq (m_ix (e_mat e))) (ix_key c f) = Some vm"
      by (auto simp: has_eq_def has_key_def simp del: has_key_iff)
    from eq_index_keyable[OF eng_mat(2)[OF ok] c this k] have "keyable d f" .
    with e v f(3) have "py_eq (doc_get d f) v"
      by (cases "map_of d f") (auto simp: keyable_def doc_get_def dget_def split: pyval.splits)
    then show ?thesis by (simp add: nql_cmp_def f(1))
  qed
  then show ?thesis by (auto simp: where_ok_def list_all_iff)
qed

section \<open>find\<close>

lemma scan_rows:
  assumes ok: "engine_ok X (snd w)" and it: "iter_ok X" and c: "good_coll (mc_coll c)" "name_ok (mc_coll c)"
    and n: "null_free (m_ix (e_mat (snd w))) (mc_coll c) filt"
  shows "\<exists>rs. mongo_scan X c filt w = (Inr (map snd rs), w) \<and> distinct (map fst rs) \<and>
    set rs \<subseteq> {(k, d). starts_with (mc_coll c @ '':'') k \<and> reads (store_of (snd w)) k None = Some d} \<and>
    (\<forall>k d R. starts_with (mc_coll c @ '':'') k \<longrightarrow> reads (store_of (snd w)) k None = Some d \<longrightarrow>
       match_doc R (PDict d) (PDict filt) = Inr True \<longrightarrow> (k, d) \<in> set rs)"
proof (cases "where_of (m_ix (e_mat (snd w))) (mc_coll c) filt [] = []")
  case True
  with query_rows[OF ok it c] show ?thesis
    by (auto simp: mongo_scan_def readM_def Let_def simp del: reads_head)
next
  case False
  let ?ws = "where_of (m_ix (e_mat (snd w))) (mc_coll c) filt []"
  from execute_rows[OF ok it c(1) where_keyed[OF n]] obtain rs where rs:
    "execute X (plain_plan (mc_coll c) ?ws) (snd w) = Inr (map snd rs)" "distinct (map fst rs)"
    "set rs = {(k, d). starts_with (mc_coll c @ '':'') k \<and> reads (store_of (snd w)) k None = Some d \<and>
       where_ok ?ws d}" by blast
  have "mongo_scan X c filt w = (Inr (map snd rs), w)"
    using False rs(1) by (simp add: mongo_scan_def readM_def Let_def plain_plan_def)
  with rs(2,3) where_lossless[OF ok c(1) n] show ?thesis
    by (intro exI[of _ rs]) (auto simp del: reads_head)
qed

lemma filterE_map:
  "(\<And>x. x \<in> set xs \<Longrightarrow> f x = Inr (P x)) \<Longrightarrow> filterE f xs = Inr (filter P xs)"
  by (rule filterE_total)

text \<open>
  A filter that names no \<open>_id\<close> and decides every document finds exactly the documents of the
  collection that match, each once, and changes nothing.
\<close>

lemma find_exact:
  assumes ok: "engine_ok X (snd w)" and it: "iter_ok X" and c: "good_coll (mc_coll c)" "name_ok (mc_coll c)"
    and n: "null_free (m_ix (e_mat (snd w))) (mc_coll c) filt" and i: "map_of filt ''_id'' = None"
    and P: "\<And>k d. starts_with (mc_coll c @ '':'') k \<Longrightarrow> reads (store_of (snd w)) k None = Some d \<Longrightarrow>
      match_doc R (PDict d) (PDict filt) = Inr (P d)"
  shows "\<exists>rs. find_docs X R W c filt w = (Inr (map snd rs), w) \<and> distinct (map fst rs) \<and>
    set rs = {(k, d). starts_with (mc_coll c @ '':'') k \<and> reads (store_of (snd w)) k None = Some d \<and> P d}"
proof -
  from scan_rows[OF ok it c n] obtain rs where rs: "mongo_scan X c filt w = (Inr (map snd rs), w)"
    "distinct (map fst rs)"
    "set rs \<subseteq> {(k, d). starts_with (mc_coll c @ '':'') k \<and> reads (store_of (snd w)) k None = Some d}"
    "\<forall>k d R. starts_with (mc_coll c @ '':'') k \<longrightarrow> reads (store_of (snd w)) k None = Some d \<longrightarrow>
       match_doc R (PDict d) (PDict filt) = Inr True \<longrightarrow> (k, d) \<in> set rs" by blast
  have id: "doc_get filt ''_id'' = PNone" by (simp add: doc_get_def dget_def i)
  have "mongo_candidates X W c filt w = (Inr (map snd rs), w)"
    using rs(1) by (simp add: mongo_candidates_def id in_list_def)
  moreover have "filterE (\<lambda>d. match_doc R (PDict d) (PDict filt)) (map snd rs) = Inr (filter P (map snd rs))"
    by (rule filterE_total) (use rs(3) P in auto)
  ultimately have "find_docs X R W c filt w = (Inr (map snd (filter (\<lambda>r. P (snd r)) rs)), w)"
    by (simp add: find_docs_def bindM_def liftM_def filter_map comp_def)
  moreover have "distinct (map fst (filter (\<lambda>r. P (snd r)) rs))"
    using rs(2) by (induction rs) auto
  moreover have "set (filter (\<lambda>r. P (snd r)) rs) =
      {(k, d). starts_with (mc_coll c @ '':'') k \<and> reads (store_of (snd w)) k None = Some d \<and> P d}"
    using rs(3,4) P by (fastforce simp del: reads_head)
  ultimately show ?thesis by blast
qed

section \<open>insert_one\<close>

lemma insert_effect:
  assumes r: "ready_for (mc_coll c) (snd w)"
    and l: "\<And>j d. live_doc (mc_coll c) (snd w) j = Some d \<Longrightarrow> lasting d"
    and i: "doc_get document ''_id'' = PStr s"
  shows "if live_doc (mc_coll c) (snd w) s = None then
      \<exists>d w'. insert_one X W oid c document w = (Inr (PStr s), w') \<and> stored_as s document d \<and>
        live_doc (mc_coll c) (snd w') = (live_doc (mc_coll c) (snd w))(s \<mapsto> d) \<and>
        outside (mc_coll c) (snd w') = outside (mc_coll c) (snd w) \<and> ready_for (mc_coll c) (snd w')
    else \<exists>w'. insert_one X W oid c document w = (Inl MongoErr, w') \<and> snd w' = snd w"
proof -
  have l': "\<forall>j d. live_doc (mc_coll c) (snd w) j = Some d \<longrightarrow> lasting d" using l by blast
  from tab.get_live[of "mc_coll c" w X W s] tab.get_law[of X W "mc_coll c" s w] l' obtain w1 where
    g: "m_get X W (mc_coll c) s w = (Inr (live_doc (mc_coll c) (snd w) s), w1)" "snd w1 = snd w" by blast
  show ?thesis
  proof (cases "live_doc (mc_coll c) (snd w) s")
    case None
    from tab.put_live[of "mc_coll c" w1 X W "mc_client c" s document] r g(2) obtain x w' where
      p: "m_put X W (mc_client c) (mc_coll c) s document w1 = (Inr x, w')" "ready_for (mc_coll c) (snd w')"
      by auto
    from tab.put_law[OF p(1)] p g None show ?thesis
      by (auto simp: insert_one_def i bindM_def retM_def)
  next
    case (Some d)
    with g show ?thesis by (simp add: insert_one_def i bindM_def retM_def raiseM_def)
  qed
qed

section \<open>Methods are runs\<close>

definition mongo_ok :: "ext \<Rightarrow> (nat \<Rightarrow> env) \<Rightarrow> mcoll \<Rightarrow> bool" where
  "mongo_ok X W c \<longleftrightarrow> iter_ok X \<and> (\<forall>n. env_ok (W n)) \<and> good_coll (mc_coll c) \<and> name_ok (mc_coll c)"

lemma mongo_calls [runs_intros]:
  assumes "mongo_ok X W c"
  shows "runs X (m_get X W (mc_coll c) i)" "runs X (m_delete X W (mc_client c) (mc_coll c) i)"
    "runs X (m_index X (mc_coll c) f k)"
    "pv_ok (PDict d) \<Longrightarrow> runs X (m_put X W (mc_client c) (mc_coll c) i d)"
  using assms by (auto simp: mongo_ok_def intro!: runs_intros simp del: pv_ok.simps)

lemma gen_yields: "yields X (genM oid) pv_ok"
  by (rule yieldsI) (auto simp: genM_def)

lemma insert_one_runs [runs_intros]:
  assumes "mongo_ok X W c" "pv_ok (PDict d)"
  shows "runs X (insert_one X W oid c d)"
  unfolding insert_one_def
proof (rule yields_bind[where P = "\<lambda>(i, d). pv_ok (PDict d)"])
  have "pv_ok (PDict (dset ''_id'' i d))" if "pv_ok i" for i
    by (rule pv_ok_dset[OF assms(2) that])
  with assms(2) show "yields X (case doc_get d ''_id'' of
      PNone \<Rightarrow> bindM (genM oid) (\<lambda>i. retM (i, dset ''_id'' i d)) | i \<Rightarrow> retM (i, d)) (\<lambda>(i, d). pv_ok (PDict d))"
    by (auto intro!: yields_ret yields_bind[OF gen_yields] simp del: pv_ok.simps split: pyval.split)
qed (auto intro!: runs_intros assms(1) simp del: pv_ok.simps)

lemma insert_many_runs:
  assumes "mongo_ok X W c" "\<And>d. d \<in> set ds \<Longrightarrow> pv_ok (PDict d)"
  shows "runs X (insert_many X W oid c ds)"
  unfolding insert_many_def by (intro runs_intros assms)

text \<open>The documents \<open>find\<close> returns are good documents.\<close>

definition good_docs :: "doc list \<Rightarrow> bool" where
  "good_docs = list_all (\<lambda>d. pv_ok (PDict d))"

lemma get_yields:
  assumes "mongo_ok X W c"
  shows "yields X (m_get X W (mc_coll c) i) (\<lambda>d. good_docs (opt_list d))"
proof (rule yieldsI)
  fix w d w' assume h: "ext_ok X" "engine_ok X (snd w)" and g: "m_get X W (mc_coll c) i w = (Inr d, w')"
  have "api_run X (snd w) (snd w')"
    using mongo_calls(1)[OF assms] h g unfolding yields_def by blast
  moreover have "d = None \<or> d = live_doc (mc_coll c) (snd w) i"
    using g by (auto simp: m_get_def callM_Inr eng_get_def check_ttl_def live_doc_def Let_def bindC_Inr
        split: option.splits sum.splits if_splits bool.splits)
  then have "good_docs (opt_list d)"
    using head_doc(2)[OF h(2)] mv_get_reads[OF eng_mat(1)[OF h(2)]]
    by (auto simp: good_docs_def opt_list_def live_doc_def simp del: pv_ok.simps split: option.split)
  ultimately show "good_docs (opt_list d) \<and> api_run X (snd w) (snd w')" by simp
qed

lemma mapM_yields:
  assumes "\<And>x. yields X (f x) P"
  shows "yields X (mapM f xs) (list_all P)"
  by (induction xs) (auto intro!: yields_ret yields_bind[OF assms] yields_bind)

lemma good_docs_concat: "list_all (\<lambda>d. good_docs (opt_list d)) ds \<Longrightarrow> good_docs (concat (map opt_list ds))"
  by (auto simp: good_docs_def list_all_iff)

lemma scan_yields:
  assumes "mongo_ok X W c"
  shows "yields X (mongo_scan X c filt) good_docs"
proof (rule yieldsI)
  fix w ds w' assume h: "ext_ok X" "engine_ok X (snd w)" and g: "mongo_scan X c filt w = (Inr ds, w')"
  let ?ws = "where_of (m_ix (e_mat (snd w))) (mc_coll c) filt []"
  have q: "yields X (m_query X (''FROM '' @ mc_coll c)) good_docs"
    unfolding good_docs_def by (rule yields_query) (use assms in \<open>auto simp: mongo_ok_def\<close>)
  show "good_docs ds \<and> api_run X (snd w) (snd w')"
  proof (cases "?ws = []")
    case True
    with g have "m_query X (''FROM '' @ mc_coll c) w = (Inr ds, w')"
      by (auto simp: mongo_scan_def m_query_def readM_def Let_def)
    with q h show ?thesis unfolding yields_def by blast
  next
    case False
    with g have e: "execute X (plain_plan (mc_coll c) ?ws) (snd w) = Inr ds" "w' = w"
      by (auto simp: mongo_scan_def readM_def Let_def plain_plan_def)
    have "good_docs ds" unfolding good_docs_def by (rule execute_good[OF h(2) e(1)])
    with e(2) show ?thesis by simp
  qed
qed

lemma candidates_yield:
  assumes "mongo_ok X W c"
  shows "yields X (mongo_candidates X W c filt) good_docs"
proof -
  have g: "yields X (bindM (m_get X W (mc_coll c) i) (\<lambda>d. retM (opt_list d))) good_docs" for i
    by (rule yields_bind[OF get_yields[OF assms]]) (rule yields_ret)
  have m: "yields X (bindM (mapM (\<lambda>v. m_get X W (mc_coll c) (py_str X v)) xs)
      (\<lambda>ds. retM (concat (map opt_list ds)))) good_docs" for xs
    by (rule yields_bind[OF mapM_yields[OF get_yields[OF assms]]]) (rule yields_ret, rule good_docs_concat)
  have i: "yields X (bindM (liftM (py_iter vs)) (\<lambda>xs. bindM (mapM (\<lambda>v. m_get X W (mc_coll c) (py_str X v)) xs)
      (\<lambda>ds. retM (concat (map opt_list ds))))) good_docs" for vs
    by (rule yields_bind[OF runs_base(3) m])
  show ?thesis
    unfolding mongo_candidates_def Let_def
    by (auto intro!: g i scan_yields[OF assms] split: pyval.split option.split)
qed

lemma filterE_set: "filterE f xs = Inr ys \<Longrightarrow> set ys \<subseteq> set xs"
  by (induction xs arbitrary: ys) (auto simp: bindE_eq_Inr split: if_splits)

lemma find_yields:
  assumes "mongo_ok X W c"
  shows "yields X (find_docs X R W c filt) good_docs"
  unfolding find_docs_def
proof (rule yields_bind[OF candidates_yield[OF assms]], rule yields_lift)
  fix ds ys assume "good_docs ds" "filterE (\<lambda>d. match_doc R (PDict d) (PDict filt)) ds = Inr ys"
  then show "good_docs ys"
    using filterE_set[of _ ds ys] by (auto simp: good_docs_def list_all_iff simp del: pv_ok.simps)
qed

lemmas find_runs [runs_intros] = yields_weaken[OF find_yields TrueI]

lemma delete_runs [runs_intros]:
  assumes "mongo_ok X W c"
  shows "runs X (delete_found X W c d)" "runs X (delete_one X R W c filt)"
    "runs X (delete_many X R W c filt)" "runs X (drop_coll X W c)"
proof -
  show f: "runs X (delete_found X W c d)" for d
    by (auto simp: delete_found_def intro!: runs_intros assms split: option.split)
  show "runs X (delete_one X R W c filt)"
    by (auto simp: delete_one_def intro!: runs_intros f assms split: list.split)
  show "runs X (delete_many X R W c filt)"
    by (auto simp: delete_many_def intro!: runs_intros f assms)
  show "runs X (drop_coll X W c)"
    by (auto simp: drop_coll_def intro!: runs_intros f assms)
qed

lemma index_runs:
  assumes "mongo_ok X W c"
  shows "runs X (mongo_index X c keys kind)"
  unfolding mongo_index_def Let_def by (auto intro!: runs_intros assms split: prod.split)

lemma pv_ok_doc_get: "pv_ok (PDict d) \<Longrightarrow> pv_ok (doc_get d f)"
  by (auto simp: doc_get_def dget_def split: option.split dest!: map_of_SomeD)

lemma write_runs:
  assumes "mongo_ok X W c" "pv_ok (PDict d)" "pv_ok i"
  shows "runs X (write_doc X W c d i)"
  unfolding write_doc_def by (intro runs_intros assms pv_ok_dset[OF assms(2,3)])

lemma upsert_runs:
  assumes "mongo_ok X W c" "pv_ok (PDict new)" "pv_ok (PDict filt)"
  shows "runs X (insert_upsert X W oid c new filt)"
  unfolding insert_upsert_def
proof (rule yields_bind[where P = pv_ok])
  show "yields X (upsert_id oid new filt) pv_ok"
    by (auto simp: upsert_id_def intro!: yields_ret gen_yields pv_ok_doc_get assms simp del: pv_ok.simps)
qed (intro runs_intros assms pv_ok_dset)

lemma replace_runs:
  assumes "mongo_ok X W c" "pv_ok (PDict rep)" "pv_ok (PDict filt)"
  shows "runs X (replace_one X R W oid c filt rep upsert)"
proof -
  have m: "runs X (case matches of
      [] \<Rightarrow> if upsert then insert_upsert X W oid c rep filt
            else retM \<lparr> ur_matched = 0, ur_modified = 0, ur_upserted = PNone \<rparr>
    | target # _ \<Rightarrow>
        (let i = doc_get target ''_id''; d = dset ''_id'' i rep in
         if py_eq (PDict d) (PDict target) then
           retM \<lparr> ur_matched = 1, ur_modified = 0, ur_upserted = PNone \<rparr>
         else bindM (write_doc X W c d i) (\<lambda>_.
           retM \<lparr> ur_matched = 1, ur_modified = 1, ur_upserted = PNone \<rparr>)))"
    if g: "good_docs matches" for matches
  proof (cases matches)
    case Nil
    then show ?thesis by (auto intro!: runs_intros upsert_runs assms)
  next
    case (Cons t ts)
    with g have "pv_ok (doc_get t ''_id'')" by (intro pv_ok_doc_get) (simp add: good_docs_def)
    then have "runs X (write_doc X W c (dset ''_id'' (doc_get t ''_id'') rep) (doc_get t ''_id''))"
      by (intro write_runs pv_ok_dset assms)
    then show ?thesis by (simp add: Cons Let_def) (intro conjI impI runs_intros)
  qed
  show ?thesis
    unfolding replace_one_def
    by (cases "has_ops rep", simp only: if_True runs_base, simp only: if_False,
        rule yields_bind[OF find_yields[OF assms(1)] m])
qed

text \<open>
  An update writes what \<open>apply_update\<close> computes; it is a run when that is a document JSON can
  represent.
\<close>

definition update_good :: "ext \<Rightarrow> regex \<Rightarrow> doc \<Rightarrow> bool" where
  "update_good X R upd \<longleftrightarrow> (\<forall>d b d' x y. pv_ok (PDict d) \<longrightarrow> apply_update X R d upd b = Inr (d', x, y) \<longrightarrow>
     pv_ok (PDict d'))"

lemma update_runs:
  assumes "mongo_ok X W c" "update_good X R upd" "pv_ok (PDict filt)"
  shows "runs X (update_docs X R W oid c filt upd upsert many)"
proof -
  have a: "yields X (liftM (apply_update X R d upd b)) (\<lambda>(d', _). pv_ok (PDict d'))" if "pv_ok (PDict d)" for d b
  proof (rule yields_lift)
    fix y assume y: "apply_update X R d upd b = Inr y"
    obtain d' p q where "y = (d', p, q)" by (cases y)
    with y assms(2) that show "case y of (d', _) \<Rightarrow> pv_ok (PDict d')"
      unfolding update_good_def by (simp del: pv_ok.simps) blast
  qed
  have t: "runs X (update_target X R W c upd d)" if "pv_ok (PDict d)" for d
    unfolding update_target_def
  proof (rule yields_bind[OF a[OF that]])
  qed (auto simp: Let_def intro!: runs_intros write_runs assms pv_ok_dset pv_ok_doc_get that simp del: pv_ok.simps)
  have seed: "pv_ok (PDict (seed_of filt))"
  proof -
    have "pv_ok (PDict (foldl (\<lambda>d kv. dset (fst kv) (snd kv) d) d kvs))"
      if "pv_ok (PDict d)" "\<forall>kv\<in>set kvs. pv_ok (snd kv)" for d kvs
      using that by (induction kvs arbitrary: d) (auto intro: pv_ok_dset simp del: pv_ok.simps)
    moreover have "\<forall>kv\<in>set filt. pv_ok (snd kv)" "pv_ok (PDict [])" using assms(3) by simp_all
    ultimately show ?thesis unfolding seed_of_def by (simp del: pv_ok.simps)
  qed
  have u: "runs X (bindM (liftM (apply_update X R (seed_of filt) upd True))
      (\<lambda>(new, _, _). insert_upsert X W oid c new filt))"
  proof (rule yields_bind[OF a[OF seed]])
  qed (auto intro!: upsert_runs assms simp del: pv_ok.simps)
  show ?thesis
    unfolding update_docs_def
  proof (rule yields_bind[OF find_yields[OF assms(1)]])
    fix matches assume g: "good_docs matches"
    then have "pv_ok (PDict d)" if "d \<in> set (if many then matches else take 1 matches)" for d
      using that set_take_subset[of 1 matches] by (auto simp: good_docs_def list_all_iff simp del: pv_ok.simps split: if_splits)
    then have "runs X (mapM (update_target X R W c upd) (if many then matches else take 1 matches))"
      by (intro runs_intros t)
    then show "runs X (if matches = [] \<and> upsert then
         bindM (liftM (apply_update X R (seed_of filt) upd True)) (\<lambda>(new, _, _).
           insert_upsert X W oid c new filt)
       else
         (let targets = (if many then matches else take 1 matches) in
          bindM (mapM (update_target X R W c upd) targets) (\<lambda>ns.
            retM \<lparr> ur_matched = length targets, ur_modified = sum_list ns, ur_upserted = PNone \<rparr>)))"
      using u by (cases "matches = [] \<and> upsert", simp only: if_True simp_thms, simp only: if_False Let_def)
        (rule runs_bind, assumption, rule runs_base)
  qed
qed

end
