(* ===== verification/Sql.thy ===== *)
theory Sql
  imports Collections MongoQuery
begin

text \<open>
  \<open>nedb.sql\<close>: the lexer, the recursive-descent parser, the translation of \<open>SELECT\<close> to NQL text
  and the execution of \<open>INSERT\<close>, \<open>UPDATE\<close> and \<open>DELETE\<close>.  The parser's position is the list of
  tokens that remain; \<open>eat\<close> past the end is \<open>IndexError\<close>.
\<close>

section \<open>Lexer\<close>

datatype kind = K_STRING | K_FLOAT | K_INT | K_STAR | K_OP | K_COMMA | K_LPAREN | K_RPAREN | K_SEMI
  | K_WORD | K_KW

type_synonym stok = "kind \<times> string"
type_synonym 'a sparse = "('a \<times> stok list) res"

definition SQL_KEYWORDS :: "string list" where
  "SQL_KEYWORDS =
     [''SELECT'', ''FROM'', ''WHERE'', ''AND'', ''OR'', ''ORDER'', ''BY'', ''ASC'', ''DESC'', ''LIMIT'',
      ''INSERT'', ''INTO'', ''VALUES'', ''UPDATE'', ''SET'', ''DELETE'', ''LIKE'', ''AS'', ''OF'',
      ''NULL'', ''TRUE'', ''FALSE'', ''NOT'', ''IN'', ''IS'']"

fun lex_body :: "char \<Rightarrow> string \<Rightarrow> (string \<times> string) option" where
  \<comment> \<open>\<open>(?:[^q\\]|\\.)*q\<close>: a backslash takes the next character, a newline excepted, along\<close>
  "lex_body q [] = None"
| "lex_body q (c # cs) =
     (if c = q then Some ([c], cs)
      else if c = CHR 0x5C then
        (case cs of
           [] \<Rightarrow> None
         | d # ds \<Rightarrow>
             if d = CHR 0x0A then None
             else map_option (\<lambda>(b, r). (c # d # b, r)) (lex_body q ds))
      else map_option (\<lambda>(b, r). (c # b, r)) (lex_body q cs))"

definition lex_string :: "string \<Rightarrow> (string \<times> string) option" where
  "lex_string s =
     (case s of
        c # cs \<Rightarrow>
          if c = CHR 0x27 \<or> c = CHR 0x22 then map_option (\<lambda>(b, r). (c # b, r)) (lex_body c cs) else None
      | [] \<Rightarrow> None)"

definition sql_number :: "string \<Rightarrow> (stok \<times> string) option" where
  \<comment> \<open>\<open>-?\d+\.\d+\<close> before \<open>-?\d+\<close>\<close>
  "sql_number s =
     (let (sign, t) = (if starts_with ''-'' s then (''-'', tl s) else ([], s));
          ds = takeWhile is_digit t; r = dropWhile is_digit t
      in if ds = [] then None
         else if starts_with ''.'' r \<and> takeWhile is_digit (tl r) \<noteq> [] then
           Some ((K_FLOAT, sign @ ds @ ''.'' @ takeWhile is_digit (tl r)), dropWhile is_digit (tl r))
         else Some ((K_INT, sign @ ds), r))"

definition sql_op :: "string \<Rightarrow> (string \<times> string) option" where
  "sql_op s =
     (if starts_with ''!='' s \<or> starts_with ''<>'' s \<or> starts_with ''<='' s \<or> starts_with ''>='' s
      then Some (take 2 s, drop 2 s)
      else if s \<noteq> [] \<and> hd s \<in> set ''=<>!'' then Some (take 1 s, tl s) else None)"

definition sql_word_char :: "char \<Rightarrow> bool" where
  "sql_word_char c \<longleftrightarrow> word_char c \<or> c \<in> set ''.@#''"

definition punct :: "char \<Rightarrow> kind option" where
  "punct c = map_of [(CHR '','', K_COMMA), (CHR ''('', K_LPAREN), (CHR '')'', K_RPAREN), (CHR '';'', K_SEMI)] c"

text \<open>One match of \<open>_TOK\<close>: the alternatives in their order.\<close>

definition sql_token :: "string \<Rightarrow> (stok \<times> string) option" where
  "sql_token s =
     (case lex_string s of Some (x, r) \<Rightarrow> Some ((K_STRING, x), r)
      | None \<Rightarrow> (case sql_number s of Some x \<Rightarrow> Some x
      | None \<Rightarrow>
          if starts_with ''*'' s then Some ((K_STAR, ''*''), tl s)
          else (case sql_op s of Some (x, r) \<Rightarrow> Some ((K_OP, x), r)
      | None \<Rightarrow> (case s of
           [] \<Rightarrow> None
         | c # cs \<Rightarrow>
             (case punct c of Some k \<Rightarrow> Some ((k, [c]), cs)
              | None \<Rightarrow>
                  if word_start c then
                    (let w = takeWhile sql_word_char s in
                     Some ((if str_upper w \<in> set SQL_KEYWORDS then K_KW else K_WORD, w),
                       dropWhile sql_word_char s))
                  else None)))))"

lemma lex_body_shorter: "lex_body q s = Some (b, r) \<Longrightarrow> length r < length s"
  by (induction q s arbitrary: b r rule: lex_body.induct) (fastforce split: if_splits list.splits)+

lemma sql_token_shorter: "sql_token s = Some (t, r) \<Longrightarrow> length r < length s"
proof -
  have 1: "lex_string s = Some (x, r) \<Longrightarrow> length r < length s" for x
    by (auto simp: lex_string_def dest: lex_body_shorter split: list.splits if_splits)
  have d': "length (dropWhile P u) < length u" if "takeWhile P u \<noteq> []" for P :: "char \<Rightarrow> bool" and u
    using that by (cases u) (auto simp: length_dropWhile_le le_imp_less_Suc split: if_splits)
  have t: "length t \<le> length s" if "(sg, t) = (if starts_with ''-'' s then (''-'', tl s) else ([], s))" for sg t
    using that by (cases s) (auto split: if_splits)
  have 2: "sql_number s = Some (x, r) \<Longrightarrow> length r < length s" for x
  proof -
    assume n: "sql_number s = Some (x, r)"
    obtain sg t where st: "(sg, t) = (if starts_with ''-'' s then (''-'', tl s) else ([], s))"
      by (cases "if starts_with ''-'' s then (''-'', tl s) else ([], s)") auto
    let ?u = "dropWhile is_digit t"
    from n st have ne: "takeWhile is_digit t \<noteq> []" and r: "r = ?u \<or> r = dropWhile is_digit (tl ?u)"
      by (auto simp: sql_number_def Let_def starts_with_def split: if_splits prod.splits)
    have "length ?u < length t" by (rule d'[OF ne])
    moreover have "length r \<le> length ?u"
      using r length_dropWhile_le[of is_digit "tl ?u"] by auto
    ultimately show ?thesis using t[OF st] by simp
  qed
  have 3: "sql_op s = Some (x, r) \<Longrightarrow> length r < length s" for x
    by (cases s) (auto simp: sql_op_def starts_with_def split: if_splits)
  have 4: "length (dropWhile sql_word_char s) < length s" if "s = c # cs" "word_start c" for c cs
    using that by (simp add: sql_word_char_def word_char_def length_dropWhile_le le_imp_less_Suc)
  assume "sql_token s = Some (t, r)"
  then show ?thesis
    using 1 2 3 4
    by (cases s) (auto simp: sql_token_def starts_with_def Let_def split: option.splits if_splits)
qed

function sql_toks :: "string \<Rightarrow> stok list res" where
  "sql_toks s =
     (if s = [] then Inr []
      else if hd s \<in> {CHR '' '', CHR 0x09, CHR 0x0A, CHR 0x0D} then sql_toks (tl s)
      else case sql_token s of
             None \<Rightarrow> Inl SqlErr
           | Some p \<Rightarrow> bindE (sql_toks (snd p)) (\<lambda>ts. Inr (fst p # ts)))"
  by pat_completeness auto
termination
  by (relation "measure length") (auto dest: sql_token_shorter)

declare sql_toks.simps [simp del]

definition sql_lex :: "string \<Rightarrow> stok list res" where
  \<comment> \<open>\<open>s = sql.strip().rstrip(";")\<close>\<close>
  "sql_lex sql = sql_toks (rev (dropWhile (\<lambda>c. c = CHR '';'') (rev (str_strip sql))))"

section \<open>Parser\<close>

definition sql_kw :: "string \<Rightarrow> stok list \<Rightarrow> bool" where
  "sql_kw word ts = (case ts of [] \<Rightarrow> False | (k, v) # _ \<Rightarrow> str_upper v = word \<and> k = K_KW)"

definition eat :: "kind option \<Rightarrow> string option \<Rightarrow> stok list \<Rightarrow> stok sparse" where
  "eat k v ts =
     (case ts of
        [] \<Rightarrow> Inl IndexError
      | t # ts' \<Rightarrow>
          if (case k of None \<Rightarrow> False | Some k \<Rightarrow> fst t \<noteq> k) then Inl SqlErr
          else if (case v of None \<Rightarrow> False | Some v \<Rightarrow> str_upper (snd t) \<noteq> str_upper v) then Inl SqlErr
          else Inr (t, ts'))"

definition eat_kw :: "string \<Rightarrow> stok list \<Rightarrow> stok list res" where
  "eat_kw word ts = bindE (eat (Some K_KW) (Some word) ts) (\<lambda>(t, ts). Inr ts)"

definition eat_kind :: "kind \<Rightarrow> stok list \<Rightarrow> string sparse" where
  "eat_kind k ts = bindE (eat (Some k) None ts) (\<lambda>(t, ts). Inr (snd t, ts))"

definition eat_ident :: "stok list \<Rightarrow> string sparse" where
  "eat_ident ts =
     (case ts of
        (k, v) # ts' \<Rightarrow> if k = K_WORD \<or> k = K_KW then Inr (v, ts') else Inl SqlErr
      | [] \<Rightarrow> Inl SqlErr)"

fun unescape_quote :: "char \<Rightarrow> string \<Rightarrow> string" where
  \<comment> \<open>\<open>.replace("\\q", "q")\<close>\<close>
  "unescape_quote q (c # d # s) =
     (if c = CHR 0x5C \<and> d = q then q # unescape_quote q s else c # unescape_quote q (d # s))"
| "unescape_quote q s = s"

definition string_inner :: "string \<Rightarrow> string" where
  "string_inner v = unescape_quote (CHR 0x22) (unescape_quote (CHR 0x27) (butlast (tl v)))"

definition float_of_text :: "string \<Rightarrow> pyval" where
  \<comment> \<open>\<open>float(v)\<close> of \<open>-?\d+\.\d+\<close>\<close>
  "float_of_text v =
     (let t = (if starts_with ''-'' v then tl v else v);
          q = fl (read_decimal (takeWhile is_digit t) (tl (dropWhile is_digit t)))
      in PFloat (if starts_with ''-'' v then - q else q))"

definition eat_value :: "stok list \<Rightarrow> pyval sparse" where
  "eat_value ts =
     (case ts of
        [] \<Rightarrow> Inl SqlErr
      | (k, v) # ts' \<Rightarrow>
          if k = K_STRING then Inr (PStr (string_inner v), ts')
          else if k = K_FLOAT then Inr (float_of_text v, ts')
          else if k = K_INT then bindE (int_of_str v) (\<lambda>i. Inr (PInt i, ts'))
          else if k = K_KW \<and> str_upper v = ''NULL'' then Inr (PNone, ts')
          else if k = K_KW \<and> str_upper v = ''TRUE'' then Inr (PBool True, ts')
          else if k = K_KW \<and> str_upper v = ''FALSE'' then Inr (PBool False, ts')
          else if k = K_WORD then Inr (PStr v, ts')
          else Inl SqlErr)"

text \<open>WHERE: one condition, then the loop over AND.\<close>

type_synonym scond = "string \<times> string \<times> pyval"

definition parse_cond :: "ext \<Rightarrow> stok list \<Rightarrow> scond sparse" where
  "parse_cond X ts =
     bindE (eat_ident ts) (\<lambda>(field, ts).
       if sql_kw ''LIKE'' ts then
         bindE (eat_value (tl ts)) (\<lambda>(p, ts). Inr ((field, ''LIKE'', PStr (py_str X p)), ts))
       else if sql_kw ''IS'' ts then
         (if sql_kw ''NOT'' (tl ts) then
            bindE (eat_kw ''NULL'' (tl (tl ts))) (\<lambda>ts. Inr ((field, ''!='', PNone), ts))
          else bindE (eat_kw ''NULL'' (tl ts)) (\<lambda>ts. Inr ((field, ''='', PNone), ts)))
       else if sql_kw ''NOT'' ts then
         (if sql_kw ''LIKE'' (tl ts) then bindE (eat_value (tl (tl ts))) (\<lambda>_. Inl SqlUnsupported)
          else Inl SqlUnsupported)
       else if sql_kw ''IN'' ts then Inl SqlUnsupported
       else
         bindE (eat_kind K_OP ts) (\<lambda>(op, ts).
         bindE (eat_value ts) (\<lambda>(v, ts).
           Inr ((field, if op = ''<>'' then ''!='' else op, v), ts))))"

text \<open>
  \<open>OR\<close> is refused before and after each condition; every turn of the loop eats a token.
\<close>

lemma eat_shorter: "eat k v ts = Inr (t, ts') \<Longrightarrow> length ts' < length ts"
  by (auto simp: eat_def split: list.splits option.splits if_splits)

lemma eat_kw_shorter: "eat_kw w ts = Inr ts' \<Longrightarrow> length ts' < length ts"
  by (auto simp: eat_kw_def bindE_eq_Inr dest: eat_shorter)

lemma eat_ident_shorter: "eat_ident ts = Inr (x, ts') \<Longrightarrow> length ts' < length ts"
  by (auto simp: eat_ident_def split: list.splits if_splits)

lemma eat_kind_shorter: "eat_kind k ts = Inr (x, ts') \<Longrightarrow> length ts' < length ts"
  by (auto simp: eat_kind_def bindE_eq_Inr dest: eat_shorter)

lemma eat_value_shorter: "eat_value ts = Inr (x, ts') \<Longrightarrow> length ts' < length ts"
  by (auto simp: eat_value_def bindE_eq_Inr split: list.splits if_splits)

lemma parse_cond_shorter: "parse_cond X ts = Inr (c, ts') \<Longrightarrow> length ts' < length ts"
  unfolding parse_cond_def bindE_eq_Inr
  by (auto simp: bindE_eq_Inr dest!: eat_ident_shorter eat_value_shorter eat_kw_shorter eat_kind_shorter
      split: if_splits)

function parse_where :: "ext \<Rightarrow> stok list \<Rightarrow> scond list sparse" where
  "parse_where X ts =
     (if sql_kw ''OR'' ts then Inl SqlUnsupported
      else
        (case parse_cond X ts of
           Inl e \<Rightarrow> Inl e
         | Inr (c, ts1) \<Rightarrow>
             if sql_kw ''OR'' ts1 then Inl SqlUnsupported
             else if sql_kw ''AND'' ts1 then
               bindE (parse_where X (tl ts1)) (\<lambda>(cs, ts2). Inr (c # cs, ts2))
             else Inr ([c], ts1)))"
  by pat_completeness auto
termination
  by (relation "measure (\<lambda>(X, ts). length ts)") (auto dest!: parse_cond_shorter)

declare parse_where.simps [simp del]

section \<open>SELECT\<close>

definition quote_nql :: "ext \<Rightarrow> pyval \<Rightarrow> string" where
  "quote_nql X v =
     (case v of
        PNone \<Rightarrow> ''null''
      | PBool b \<Rightarrow> if b then ''true'' else ''false''
      | PInt _ \<Rightarrow> py_str X v
      | PFloat _ \<Rightarrow> py_str X v
      | _ \<Rightarrow> CHR 0x22 # py_str X v @ [CHR 0x22])"

definition like_term :: "string \<Rightarrow> string" where
  \<comment> \<open>\<open>re.sub(r"^%|%$", "", s)\<close>; \<open>$\<close> also matches before a final newline\<close>
  "like_term s =
     (let s = (if starts_with ''%'' s then tl s else s); n = length s in
      if n > 0 \<and> last s = CHR ''%'' then butlast s
      else if n > 1 \<and> last s = CHR 0x0A \<and> s ! (n - 2) = CHR ''%'' then take (n - 2) s @ [CHR 0x0A]
      else s)"

fun conditions_to_nql :: "ext \<Rightarrow> scond list \<Rightarrow> string list \<times> string option" where
  \<comment> \<open>the parts to be joined by AND, and the last LIKE term\<close>
  "conditions_to_nql X [] = ([], None)"
| "conditions_to_nql X ((f, op, v) # cs) =
     (case conditions_to_nql X cs of (parts, search) \<Rightarrow>
        if op = ''LIKE'' then
          (parts, case search of None \<Rightarrow> Some (like_term (py_str X v)) | Some t \<Rightarrow> Some t)
        else ((f @ '' '' @ op @ '' '' @ quote_nql X v) # parts, search))"

function skip_columns :: "stok list \<Rightarrow> stok list res" where
  \<comment> \<open>the column list up to FROM\<close>
  "skip_columns ts =
     (if sql_kw ''FROM'' ts then Inr ts
      else case ts of
        (K_COMMA, _) # ts' \<Rightarrow> skip_columns ts'
      | _ \<Rightarrow> (case eat_ident ts of Inl e \<Rightarrow> Inl e | Inr (x, ts') \<Rightarrow> skip_columns ts'))"
  by pat_completeness auto
termination
  by (relation "measure length") (auto dest: eat_ident_shorter)

declare skip_columns.simps [simp del]

definition select_list :: "stok list \<Rightarrow> stok list res" where
  "select_list ts =
     (case ts of (K_STAR, _) # ts' \<Rightarrow> Inr ts' | _ \<Rightarrow> skip_columns ts)"

definition sel_as_of :: "stok list \<Rightarrow> string list sparse" where
  "sel_as_of ts =
     (if sql_kw ''AS'' ts \<and> (case tl ts of [] \<Rightarrow> False | t # _ \<Rightarrow> str_upper (snd t) = ''OF'') then
        bindE (eat_kw ''OF'' (tl ts)) (\<lambda>ts.
        bindE (eat_kind K_INT ts) (\<lambda>(n, ts). Inr ([''AS OF '' @ n], ts)))
      else Inr ([], ts))"

definition sel_where :: "ext \<Rightarrow> stok list \<Rightarrow> (string list \<times> string option) sparse" where
  "sel_where X ts =
     (if sql_kw ''WHERE'' ts then
        bindE (parse_where X (tl ts)) (\<lambda>(cs, ts).
          case conditions_to_nql X cs of (parts, search) \<Rightarrow>
            let frag = join '' AND '' parts in
            Inr ((if frag = [] then [] else [''WHERE '' @ frag], search), ts))
      else Inr (([], None), ts))"

definition sel_search :: "string option \<Rightarrow> string list" where
  "sel_search s =
     (case s of None \<Rightarrow> [] | Some t \<Rightarrow> if t = [] then [] else [''SEARCH '' @ CHR 0x22 # t @ [CHR 0x22]])"

definition sel_order :: "stok list \<Rightarrow> string list sparse" where
  "sel_order ts =
     (if sql_kw ''ORDER'' ts then
        bindE (eat_kw ''BY'' (tl ts)) (\<lambda>ts.
        bindE (eat_ident ts) (\<lambda>(col, ts).
          if sql_kw ''ASC'' ts then Inr ([''ORDER BY '' @ col @ '' ASC''], tl ts)
          else if sql_kw ''DESC'' ts then Inr ([''ORDER BY '' @ col @ '' DESC''], tl ts)
          else Inr ([''ORDER BY '' @ col @ '' ASC''], ts)))
      else Inr ([], ts))"

definition sel_limit :: "stok list \<Rightarrow> string list sparse" where
  "sel_limit ts =
     (if sql_kw ''LIMIT'' ts then
        bindE (eat_kind K_INT (tl ts)) (\<lambda>(n, ts). Inr ([''LIMIT '' @ n], ts))
      else Inr ([], ts))"

definition sql_to_nql :: "ext \<Rightarrow> string \<Rightarrow> string res" where
  \<comment> \<open>what follows the LIMIT clause is ignored\<close>
  "sql_to_nql X sql =
     bindE (sql_lex sql) (\<lambda>ts.
     bindE (eat_kw ''SELECT'' ts) (\<lambda>ts.
     bindE (select_list ts) (\<lambda>ts.
     bindE (eat_kw ''FROM'' ts) (\<lambda>ts.
     bindE (eat_ident ts) (\<lambda>(table, ts).
     bindE (sel_as_of ts) (\<lambda>(p1, ts).
     bindE (sel_where X ts) (\<lambda>((p2, search), ts).
     bindE (sel_order ts) (\<lambda>(p3, ts).
     bindE (sel_limit ts) (\<lambda>(p4, ts).
       Inr (join '' '' ((''FROM '' @ table) # p1 @ p2 @ sel_search search @ p3 @ p4)))))))))))"

section \<open>INSERT, UPDATE, DELETE\<close>

definition m_put_local :: "ext \<Rightarrow> (nat \<Rightarrow> env) \<Rightarrow> string \<Rightarrow> string \<Rightarrow> doc \<Rightarrow> doc option step" where
  \<comment> \<open>\<open>db.put(table, id, doc)\<close>: the default client\<close>
  "m_put_local X W = m_put X W ''local''"

function eat_list :: "(stok list \<Rightarrow> 'a sparse) \<Rightarrow> stok list \<Rightarrow> 'a list sparse" where
  \<comment> \<open>items separated by commas\<close>
  "eat_list item ts =
     (case item ts of
        Inl e \<Rightarrow> Inl e
      | Inr (x, ts1) \<Rightarrow>
          (case ts1 of
             (K_COMMA, _) # ts2 \<Rightarrow>
               if length ts2 < length ts then
                 bindE (eat_list item ts2) (\<lambda>(xs, ts3). Inr (x # xs, ts3))
               else Inl Untyped
           | _ \<Rightarrow> Inr ([x], ts1)))"
  by pat_completeness auto
termination
  by (relation "measure (\<lambda>(item, ts). length ts)") auto

declare eat_list.simps [simp del]

definition first_true :: "pyval list \<Rightarrow> pyval" where
  \<comment> \<open>\<open>a or b or c\<close>\<close>
  "first_true vs = (case filter py_truth (butlast vs) of v # _ \<Rightarrow> v | [] \<Rightarrow> last vs)"

definition parse_insert :: "stok list \<Rightarrow> (string \<times> (string \<times> pyval) list) res" where
  "parse_insert ts =
     bindE (eat_kw ''INSERT'' ts) (\<lambda>ts.
     bindE (eat_kw ''INTO'' ts) (\<lambda>ts.
     bindE (eat_ident ts) (\<lambda>(table, ts).
     bindE (eat_kind K_LPAREN ts) (\<lambda>(_, ts).
     bindE (eat_list eat_ident ts) (\<lambda>(cols, ts).
     bindE (eat_kind K_RPAREN ts) (\<lambda>(_, ts).
     bindE (eat_kw ''VALUES'' ts) (\<lambda>ts.
     bindE (eat_kind K_LPAREN ts) (\<lambda>(_, ts).
     bindE (eat_list eat_value ts) (\<lambda>(vals, ts).
     bindE (eat_kind K_RPAREN ts) (\<lambda>_.
       if length cols \<noteq> length vals then Inl SqlErr else Inr (table, zip cols vals)))))))))))"

definition dict_of :: "(string \<times> pyval) list \<Rightarrow> doc" where
  "dict_of kvs = fold (\<lambda>(k, v) d. dset k v d) kvs []"

definition exec_insert :: "ext \<Rightarrow> (nat \<Rightarrow> env) \<Rightarrow> stok list \<Rightarrow> doc option step" where
  "exec_insert X W ts =
     bindM (liftM (parse_insert ts)) (\<lambda>(table, kvs).
       let d = dict_of kvs; i = first_true [doc_get d ''id'', doc_get d ''_id'', doc_get d ''ID''] in
       if i = PNone then raiseM SqlErr else m_put_local X W table (py_str X i) d)"

definition id_cond :: "scond list \<Rightarrow> pyval option" where
  \<comment> \<open>the value of the first condition \<open>id = v\<close>\<close>
  "id_cond cs =
     (case filter (\<lambda>(f, op, v). str_lower f \<in> {''id'', ''_id''} \<and> op = ''='') cs of
        [] \<Rightarrow> None | (f, op, v) # _ \<Rightarrow> Some v)"

definition where_id :: "ext \<Rightarrow> stok list \<Rightarrow> string res" where
  \<comment> \<open>the row an UPDATE or DELETE targets\<close>
  "where_id X ts =
     (if sql_kw ''WHERE'' ts then
        bindE (parse_where X (tl ts)) (\<lambda>(cs, _).
          case id_cond cs of None \<Rightarrow> Inl SqlUnsupported | Some v \<Rightarrow> Inr (py_str X v))
      else Inl SqlErr)"

definition eat_assign :: "stok list \<Rightarrow> (string \<times> pyval) sparse" where
  "eat_assign ts =
     bindE (eat_ident ts) (\<lambda>(col, ts).
     bindE (eat (Some K_OP) (Some ''='') ts) (\<lambda>(_, ts).
     bindE (eat_value ts) (\<lambda>(v, ts). Inr ((col, v), ts))))"

definition parse_update :: "ext \<Rightarrow> stok list \<Rightarrow> (string \<times> (string \<times> pyval) list \<times> string) res" where
  "parse_update X ts =
     bindE (eat_kw ''UPDATE'' ts) (\<lambda>ts.
     bindE (eat_ident ts) (\<lambda>(table, ts).
     bindE (eat_kw ''SET'' ts) (\<lambda>ts.
     bindE (eat_list eat_assign ts) (\<lambda>(kvs, ts).
     bindE (where_id X ts) (\<lambda>i. Inr (table, kvs, i))))))"

definition exec_update :: "ext \<Rightarrow> (nat \<Rightarrow> env) \<Rightarrow> stok list \<Rightarrow> doc option step" where
  "exec_update X W ts =
     bindM (liftM (parse_update X ts)) (\<lambda>(table, kvs, i).
     bindM (m_get X W table i) (\<lambda>old.
       let d = (case old of None \<Rightarrow> [] | Some d \<Rightarrow> d) in
       m_put_local X W table i (dset ''_id'' (PStr i) (fold (\<lambda>(k, v) d. dset k v d) (dict_of kvs) d))))"

definition parse_delete :: "ext \<Rightarrow> stok list \<Rightarrow> (string \<times> string) res" where
  "parse_delete X ts =
     bindE (eat_kw ''DELETE'' ts) (\<lambda>ts.
     bindE (eat_kw ''FROM'' ts) (\<lambda>ts.
     bindE (eat_ident ts) (\<lambda>(table, ts).
     bindE (where_id X ts) (\<lambda>i. Inr (table, i)))))"

definition exec_delete :: "ext \<Rightarrow> (nat \<Rightarrow> env) \<Rightarrow> stok list \<Rightarrow> unit step" where
  "exec_delete X W ts =
     bindM (liftM (parse_delete X ts)) (\<lambda>(table, i). m_delete X W ''local'' table i)"

datatype sql_result = Rows "doc list" | Row "doc option" | Done

definition sql_exec :: "ext \<Rightarrow> (nat \<Rightarrow> env) \<Rightarrow> string \<Rightarrow> sql_result step" where
  "sql_exec X W sql =
     bindM (liftM (sql_lex sql)) (\<lambda>ts.
       case ts of
         [] \<Rightarrow> raiseM SqlErr
       | (_, v) # _ \<Rightarrow>
           (let kw = str_upper v in
            if kw = ''SELECT'' then
              bindM (liftM (sql_to_nql X sql)) (\<lambda>q. bindM (m_query X q) (\<lambda>ds. retM (Rows ds)))
            else if kw = ''INSERT'' then bindM (exec_insert X W ts) (\<lambda>d. retM (Row d))
            else if kw = ''UPDATE'' then bindM (exec_update X W ts) (\<lambda>d. retM (Row d))
            else if kw = ''DELETE'' then bindM (exec_delete X W ts) (\<lambda>_. retM Done)
            else raiseM SqlUnsupported))"

end
