(* ===== verification/SqlInv.thy ===== *)
theory SqlInv
  imports Sql
begin

text \<open>
  What the data-changing SQL statements do to the table they name, as one abstract statement per
  parsed text, and the effect of unescaped literals on the NQL that SELECT is translated to.
\<close>

section \<open>Statements\<close>

datatype statement = SInsert string string doc | SUpdate string string "(string \<times> pyval) list"
  | SDelete string string

definition parse_statement :: "ext \<Rightarrow> stok list \<Rightarrow> statement res" where
  "parse_statement X ts =
     (case ts of
        [] \<Rightarrow> Inl SqlErr
      | (_, v) # _ \<Rightarrow>
          if str_upper v = ''INSERT'' then
            bindE (parse_insert ts) (\<lambda>(t, kvs).
              let d = dict_of kvs; i = first_true [doc_get d ''id'', doc_get d ''_id'', doc_get d ''ID''] in
              if i = PNone then Inl SqlErr else Inr (SInsert t (py_str X i) d))
          else if str_upper v = ''UPDATE'' then
            bindE (parse_update X ts) (\<lambda>(t, kvs, i). Inr (SUpdate t i kvs))
          else if str_upper v = ''DELETE'' then
            bindE (parse_delete X ts) (\<lambda>(t, i). Inr (SDelete t i))
          else Inl SqlUnsupported)"

fun target :: "statement \<Rightarrow> string \<times> string" where
  "target (SInsert t i d) = (t, i)"
| "target (SUpdate t i kvs) = (t, i)"
| "target (SDelete t i) = (t, i)"

fun new_row :: "statement \<Rightarrow> doc option \<Rightarrow> doc option" where
  \<comment> \<open>the document to store in place of the old one\<close>
  "new_row (SInsert t i d) old = Some d"
| "new_row (SUpdate t i kvs) old =
     Some (dset ''_id'' (PStr i)
       (fold (\<lambda>(k, v) d. dset k v d) (dict_of kvs) (case old of None \<Rightarrow> [] | Some d \<Rightarrow> d)))"
| "new_row (SDelete t i) old = None"

definition row_stored :: "string \<Rightarrow> doc option \<Rightarrow> doc option \<Rightarrow> bool" where
  "row_stored i new d =
     (case new of None \<Rightarrow> d = None | Some n \<Rightarrow> (\<exists>d'. d = Some d' \<and> stored_as i n d'))"

lemma map_of_fold_dset: "map_of (fold (\<lambda>(k, v) d. dset k v d) kvs d) = map_of d ++ map_of (rev kvs)"
proof (induction kvs arbitrary: d)
  case (Cons kv kvs)
  then show ?case by (cases kv) (auto simp: fun_eq_iff map_add_def split: option.split)
qed simp

text \<open>The columns an UPDATE leaves: the assigned ones changed, the others as they were.\<close>

lemma updated_field:
  assumes "new_row (SUpdate t i kvs) old = Some n"
  shows "map_of n f = (if f = ''_id'' then Some (PStr i)
    else case map_of (rev kvs) f of Some v \<Rightarrow> Some v
    | None \<Rightarrow> (case old of None \<Rightarrow> None | Some d \<Rightarrow> map_of d f))"
proof -
  have d: "map_of (dict_of kvs) = map_of (rev kvs)"
    using map_of_fold_dset[of kvs "[]"] by (simp add: dict_of_def)
  have "distinct (map fst (fold (\<lambda>(k, v) d. dset k v d) xs d))" if "distinct (map fst d)" for xs and d :: doc
    using that by (induction xs arbitrary: d) auto
  then have "distinct (map fst (dict_of kvs))" by (simp add: dict_of_def)
  then have "map_of (rev (dict_of kvs)) = map_of (dict_of kvs)"
    by (intro map_of_eqI) (auto simp: map_of_eq_Some_iff rev_map[symmetric])
  with d assms show ?thesis
    by (auto simp: map_of_fold_dset map_add_def split: option.split)
qed

section \<open>Their effect\<close>

lemma liftM_bind [simp]: "bindM (liftM (Inr x)) f = f x" "bindM (liftM (Inl e)) f = raiseM e"
  by (simp_all add: fun_eq_iff bindM_def liftM_def raiseM_def)

text \<open>Executing a statement is one call of the engine on its target, after a read for UPDATE.\<close>

definition statement_step :: "ext \<Rightarrow> (nat \<Rightarrow> env) \<Rightarrow> statement \<Rightarrow> sql_result step" where
  "statement_step X W s =
     (case s of
        SInsert t i d \<Rightarrow> bindM (m_put X W ''local'' t i d) (\<lambda>r. retM (Row r))
      | SUpdate t i kvs \<Rightarrow>
          bindM (m_get X W t i) (\<lambda>old.
          bindM (m_put X W ''local'' t i (the (new_row s old))) (\<lambda>r. retM (Row r)))
      | SDelete t i \<Rightarrow> bindM (m_delete X W ''local'' t i) (\<lambda>_. retM Done))"

lemma bindM_assoc: "bindM (bindM m f) g = bindM m (\<lambda>x. bindM (f x) g)"
  by (rule ext) (auto simp: bindM_def split: sum.split prod.split)

lemma sql_exec_statement:
  assumes "sql_lex sql = Inr ts" "parse_statement X ts = Inr s"
  shows "sql_exec X W sql = statement_step X W s"
proof -
  from assms(2) obtain k v ts' where ts: "ts = (k, v) # ts'"
    by (auto simp: parse_statement_def split: list.splits)
  consider (ins) "str_upper v = ''INSERT''" | (upd) "str_upper v = ''UPDATE''" | (del) "str_upper v = ''DELETE''"
    using assms(2) by (auto simp: parse_statement_def ts split: if_splits)
  then show ?thesis
  proof cases
    case ins
    with assms(2) obtain t kvs where p: "parse_insert ts = Inr (t, kvs)"
      and i: "first_true [doc_get (dict_of kvs) ''id'', doc_get (dict_of kvs) ''_id'', doc_get (dict_of kvs) ''ID''] \<noteq> PNone"
      and s: "s = SInsert t (py_str X (first_true [doc_get (dict_of kvs) ''id'', doc_get (dict_of kvs) ''_id'',
        doc_get (dict_of kvs) ''ID''])) (dict_of kvs)"
      by (auto simp: parse_statement_def ts bindE_eq_Inr Let_def split: if_splits)
    show ?thesis
      using ins p i unfolding s by (simp add: sql_exec_def assms(1) ts exec_insert_def Let_def
          m_put_local_def statement_step_def)
  next
    case upd
    with assms(2) obtain t kvs i where p: "parse_update X ts = Inr (t, kvs, i)" and s: "s = SUpdate t i kvs"
      by (auto simp: parse_statement_def ts bindE_eq_Inr)
    show ?thesis
      using upd p unfolding s by (simp add: sql_exec_def assms(1) ts exec_update_def Let_def bindM_assoc
          m_put_local_def statement_step_def)
  next
    case del
    with assms(2) obtain t i where p: "parse_delete X ts = Inr (t, i)" and s: "s = SDelete t i"
      by (auto simp: parse_statement_def ts bindE_eq_Inr)
    show ?thesis
      using del p unfolding s by (simp add: sql_exec_def assms(1) ts exec_delete_def bindM_assoc
          statement_step_def)
  qed
qed

lemma statement_effect:
  assumes l: "\<And>j d. live_doc (fst (target s)) (snd w) j = Some d \<Longrightarrow> lasting d"
    and r: "ready_for (fst (target s)) (snd w)"
  shows "\<exists>res w' d. statement_step X W s w = (Inr res, w') \<and>
    res = (case s of SDelete _ _ \<Rightarrow> Done | _ \<Rightarrow> Row d) \<and>
    row_stored (snd (target s)) (new_row s (live_doc (fst (target s)) (snd w) (snd (target s)))) d \<and>
    live_doc (fst (target s)) (snd w') = (live_doc (fst (target s)) (snd w))(snd (target s) := d) \<and>
    outside (fst (target s)) (snd w') = outside (fst (target s)) (snd w) \<and> steady (snd w')"
proof (cases s)
  case (SInsert t i d)
  from tab.put_live[of t w X W "''local''" i d] r SInsert obtain x w' where
    p: "m_put X W ''local'' t i d w = (Inr x, w')" "ready_for t (snd w')" by auto
  from tab.put_law[OF p(1)] p SInsert show ?thesis
    by (auto simp: statement_step_def bindM_def retM_def row_stored_def ready_for_def)
next
  case (SUpdate t i kvs)
  let ?old = "live_doc t (snd w) i"
  have "\<forall>j d. live_doc t (snd w) j = Some d \<longrightarrow> lasting d" using l SUpdate by auto
  with tab.get_live[of t w X W i] tab.get_law[of X W t i w] obtain w1 where
    g: "m_get X W t i w = (Inr ?old, w1)" "snd w1 = snd w" by blast
  from tab.put_live[of t w1 X W "''local''" i "the (new_row s ?old)"] r SUpdate g(2) obtain x w' where
    p: "m_put X W ''local'' t i (the (new_row s ?old)) w1 = (Inr x, w')" "ready_for t (snd w')" by auto
  from tab.put_law[OF p(1)] p g SUpdate show ?thesis
    by (auto simp: statement_step_def bindM_def retM_def row_stored_def ready_for_def)
next
  case (SDelete t i)
  from tab.del_live[of t w X W "''local''" i] r SDelete obtain w' where
    p: "m_delete X W ''local'' t i w = (Inr (), w')" "ready_for t (snd w')" by auto
  from tab.del_law[OF p(1)] p SDelete show ?thesis
    by (auto simp: statement_step_def bindM_def retM_def row_stored_def ready_for_def)
qed

section \<open>Literals are not escaped\<close>

definition quoted :: "char \<Rightarrow> string \<Rightarrow> string" where
  "quoted q s = q # s @ [q]"

text \<open>One condition on a text that holds double quotes becomes two conditions.\<close>

lemma literal_escapes:
  "bindE (sql_to_nql X (''SELECT * FROM t WHERE a = '' @ quoted (CHR 0x27)
      (''x'' @ [CHR 0x22] @ '' AND b = '' @ [CHR 0x22] @ ''y''))) parse_nql =
   Inr (plain_plan ''t'' [(''a'', ''='', PStr ''x''), (''b'', ''='', PStr ''y'')])"
  by code_simp

end
