(* ===== verification/Manager.thy ===== *)
theory Manager
  imports Isolation MongoQuery
begin

text \<open>
  The \<open>Manager\<close> of \<open>nedb.server\<close>: the databases under a data root, each a directory, and the
  open ones, each behind a \<open>Sequencer\<close>.  One request runs at a time here: a call of a
  database is the enqueueing of an intent and the steps of its committer until the intent is
  answered.  What concurrent callers can observe is the subject of the theories \<open>Sequencer\<close>
  and \<open>Isolation\<close>.
\<close>

section \<open>Errors and state\<close>

text \<open>\<open>HttpError\<close> with its status, and every other exception.\<close>

datatype herr = Http int string | Raised exn

record config =
  c_ext :: ext
  c_env :: "nat \<Rightarrow> env"
  c_keys :: "nat \<Rightarrow> string \<times> string" \<comment> \<open>\<open>os.urandom\<close>: a fresh data key and the nonce that wraps it\<close>
  c_tmk :: "string option" \<comment> \<open>\<open>_tmk\<close>, resolved when the daemon started\<close>
  c_env_hex :: "string option"
  c_env_file :: "string option"
  c_token :: string \<comment> \<open>the bearer token; empty when none is configured\<close>
  c_version :: string
  c_message :: "exn \<Rightarrow> string" \<comment> \<open>\<open>str(e)\<close> of an exception\<close>
  c_regex :: regex
  c_oid :: "nat \<Rightarrow> string" \<comment> \<open>the identifiers \<open>ObjectId()\<close> draws\<close>

text \<open>The calls made so far, the directories, the databases in \<open>_open\<close>.\<close>

record server =
  sv_n :: nat
  sv_disk :: "(string, disk) dict"
  sv_open :: "(string, seqr) dict"

type_synonym 'a srv = "server \<Rightarrow> (herr + 'a) \<times> server"

definition retS :: "'a \<Rightarrow> 'a srv" where
  "retS x sv = (Inr x, sv)"

definition httpS :: "int \<Rightarrow> string \<Rightarrow> 'a srv" where
  \<comment> \<open>\<open>raise HttpError(status, message)\<close>\<close>
  "httpS status msg sv = (Inl (Http status msg), sv)"

definition bindS :: "'a srv \<Rightarrow> ('a \<Rightarrow> 'b srv) \<Rightarrow> 'b srv" where
  "bindS m f sv = (case m sv of (Inl x, sv') \<Rightarrow> (Inl x, sv') | (Inr a, sv') \<Rightarrow> f a sv')"

definition liftS :: "'a res \<Rightarrow> 'a srv" where
  "liftS r sv = (map_sum Raised id r, sv)"

definition getS :: "(server \<Rightarrow> 'a) \<Rightarrow> 'a srv" where
  "getS f sv = (Inr (f sv), sv)"

fun forS :: "('a \<Rightarrow> unit srv) \<Rightarrow> 'a list \<Rightarrow> unit srv" where
  "forS f [] = retS ()"
| "forS f (x # xs) = bindS (f x) (\<lambda>_. forS f xs)"

section \<open>Calls of a database\<close>

definition seq_call :: "ext \<Rightarrow> intent \<Rightarrow> seqr \<Rightarrow> reply res \<times> seqr" where
  \<comment> \<open>\<open>_submit\<close> with nobody else around: the committer starts, takes the intent, closes the batch,
    applies and publishes it\<close>
  "seq_call X i s =
     (let t = length (s_done s) in
      case submit_check t i s of
        Inl x \<Rightarrow> (Inl x, s)
      | Inr s1 \<Rightarrow>
          (let s2 = run_committer X 5 (submit_put (t, i) s1) in
           case submitted t s2 of Some r \<Rightarrow> (r, s2) | None \<Rightarrow> (Inl Untyped, s2)))"

definition seq_close :: "ext \<Rightarrow> seqr \<Rightarrow> seqr" where
  \<comment> \<open>\<open>Sequencer.close\<close>; the thread takes the stop marker and returns\<close>
  "seq_close X s = (if s_closed s then s else close_end (run_committer X 2 (close_begin s)))"

definition write_db :: "config \<Rightarrow> string \<Rightarrow> (env \<Rightarrow> intent) \<Rightarrow> reply srv" where
  "write_db C name f sv =
     (case map_of (sv_open sv) name of
        None \<Rightarrow> (Inl (Raised KeyError), sv)
      | Some s \<Rightarrow>
          (case seq_call (c_ext C) (f (c_env C (sv_n sv))) s of
             (r, s') \<Rightarrow> (map_sum Raised id r,
                         sv\<lparr> sv_n := Suc (sv_n sv), sv_open := dset name s' (sv_open sv) \<rparr>)))"

definition read_db :: "string \<Rightarrow> (seqr \<Rightarrow> 'a res) \<Rightarrow> 'a srv" where
  "read_db name f sv =
     (case map_of (sv_open sv) name of
        None \<Rightarrow> (Inl (Raised KeyError), sv)
      | Some s \<Rightarrow> (map_sum Raised id (f s), sv))"

section \<open>The manager\<close>

definition alnum :: "char \<Rightarrow> bool" where
  "alnum c \<longleftrightarrow> is_lower c \<or> is_upper c \<or> is_digit c"

definition name_valid :: "string \<Rightarrow> bool" where
  \<comment> \<open>\<open>NAME_RE.fullmatch\<close>: \<open>[A-Za-z0-9][A-Za-z0-9_-]{0,63}\<close>\<close>
  "name_valid name \<longleftrightarrow>
     (case name of
        [] \<Rightarrow> False
      | c # cs \<Rightarrow> alnum c \<and> length cs \<le> 63 \<and> list_all (\<lambda>c. alnum c \<or> c = CHR ''_'' \<or> c = CHR ''-'') cs)"

definition valid :: "string \<Rightarrow> unit srv" where
  \<comment> \<open>\<open>_valid\<close>\<close>
  "valid name =
     (if name_valid name then retS () else httpS 400 (''invalid database name: '' @ str_repr name))"

definition has_files :: "disk \<Rightarrow> bool" where
  \<comment> \<open>\<open>log.aof\<close> or \<open>meta.json\<close> exists\<close>
  "has_files d \<longleftrightarrow> d_aof d \<noteq> None \<or> d_meta d \<noteq> None"

definition db_exists :: "string \<Rightarrow> server \<Rightarrow> bool" where
  "db_exists name sv \<longleftrightarrow>
     has_key name (sv_open sv) \<or> (case map_of (sv_disk sv) name of None \<Rightarrow> False | Some d \<Rightarrow> has_files d)"

definition open_dir :: "config \<Rightarrow> string \<Rightarrow> unit srv" where
  \<comment> \<open>\<open>NEDB(path, tmk)\<close> wrapped in a \<open>Sequencer\<close>; the directory is made and what the constructor
    wrote stays, also when it raises\<close>
  "open_dir C name sv =
     (let n = sv_n sv; (fresh, nonce) = c_keys C n in
      case open_db (c_ext C) (c_env C n) (c_tmk C) (c_env_hex C) (c_env_file C) fresh nonce
             (dget (sv_disk sv) name empty_disk) of
        (r, e) \<Rightarrow>
          (let sv1 = sv\<lparr> sv_n := Suc n, sv_disk := dset name (e_disk e) (sv_disk sv) \<rparr> in
           case r of
             Inl x \<Rightarrow> (Inl (Raised x), sv1)
           | Inr _ \<Rightarrow> (Inr (), sv1\<lparr> sv_open := dset name (seq_new 512 e) (sv_open sv1) \<rparr>)))"

definition open_name :: "config \<Rightarrow> string \<Rightarrow> unit srv" where
  \<comment> \<open>\<open>open\<close>\<close>
  "open_name C name =
     bindS (valid name) (\<lambda>_.
     bindS (getS (\<lambda>sv. has_key name (sv_open sv))) (\<lambda>opn.
       if opn then retS () else open_dir C name))"

definition require :: "config \<Rightarrow> string \<Rightarrow> unit srv" where
  "require C name =
     bindS (valid name) (\<lambda>_.
     bindS (getS (db_exists name)) (\<lambda>ex.
       if ex then open_name C name else httpS 404 (''database not found: '' @ name)))"

definition count_key :: "string \<Rightarrow> (string, int) dict \<Rightarrow> (string, int) dict" where
  "count_key key counts =
     (let coll = takeWhile (\<lambda>c. c \<noteq> CHR '':'') key in dset coll (dget counts coll 0 + 1) counts)"

definition collection_counts :: "seqr \<Rightarrow> (string, int) dict res" where
  "collection_counts s =
     bindE (mv_keys (store_of (s_db s)) [] None) (\<lambda>ks. Inr (fold count_key ks []))"

definition counts_doc :: "(string, int) dict \<Rightarrow> pyval" where
  "counts_doc counts = PDict (map (\<lambda>(c, n). (c, PInt n)) counts)"

definition rows_of :: "(string, int) dict \<Rightarrow> pyval" where
  "rows_of counts = PInt (sum_list (map snd counts))"

definition seq_head :: "seqr \<Rightarrow> doc" where
  \<comment> \<open>the entries \<open>"seq"\<close> and \<open>"head"\<close> of a response\<close>
  "seq_head s = [(''seq'', PInt (eng_seq (s_db s))), (''head'', PStr (eng_head (s_db s)))]"

definition summary :: "config \<Rightarrow> string \<Rightarrow> doc srv" where
  "summary C name =
     bindS (require C name) (\<lambda>_.
       read_db name (\<lambda>s. bindE (collection_counts s) (\<lambda>counts.
         Inr ((''name'', PStr name) # seq_head s @
           [(''rows'', rows_of counts), (''collections'', counts_doc counts)]))))"

definition names :: "server \<Rightarrow> string list" where
  "names sv = sort (remdups (map fst (sv_open sv) @ map fst (filter (has_files \<circ> snd) (sv_disk sv))))"

text \<open>\<open>create\<close>: the parts of \<open>init\<close>, as the loops take them apart.\<close>

definition item_at :: "pyval \<Rightarrow> nat \<Rightarrow> pyval res" where
  \<comment> \<open>\<open>spec[i]\<close>\<close>
  "item_at v i =
     (case v of
        PList xs \<Rightarrow> if i < length xs then Inr (xs ! i) else Inl IndexError
      | PStr s \<Rightarrow> if i < length s then Inr (PStr [s ! i]) else Inl IndexError
      | PDict _ \<Rightarrow> Inl KeyError
      | _ \<Rightarrow> Inl TypeErr)"

definition py_len :: "pyval \<Rightarrow> nat res" where
  "py_len v =
     (case v of
        PList xs \<Rightarrow> Inr (length xs) | PStr s \<Rightarrow> Inr (length s) | PDict d \<Rightarrow> Inr (length d)
      | _ \<Rightarrow> Inl TypeErr)"

definition as_str :: "pyval \<Rightarrow> string res" where
  \<comment> \<open>an argument declared \<open>str\<close>\<close>
  "as_str v = (case v of PStr s \<Rightarrow> Inr s | _ \<Rightarrow> Inl Untyped)"

definition index_spec :: "pyval \<Rightarrow> (string \<times> string \<times> string) res" where
  "index_spec spec =
     bindE (item_at spec 0) (\<lambda>c.
     bindE (item_at spec 1) (\<lambda>f.
     bindE (py_len spec) (\<lambda>n.
     bindE (if 2 < n then item_at spec 2 else Inr (PStr ''eq'')) (\<lambda>k.
     bindE (as_str c) (\<lambda>c'. bindE (as_str f) (\<lambda>f'. bindE (as_str k) (\<lambda>k'. Inr (c', f', k'))))))))"

definition create_indexes :: "config \<Rightarrow> string \<Rightarrow> pyval list \<Rightarrow> unit srv" where
  "create_indexes C name specs =
     forS (\<lambda>spec. bindS (liftS (index_spec spec)) (\<lambda>(c, f, k).
       bindS (write_db C name (\<lambda>_. ICreateIndex c f k)) (\<lambda>_. retS ()))) specs"

definition seed_id :: "ext \<Rightarrow> string \<Rightarrow> nat \<Rightarrow> doc \<Rightarrow> string" where
  \<comment> \<open>\<open>str(doc.get("_id") or doc.get("id") or f"{coll}-{i + 1}")\<close>\<close>
  "seed_id X coll i d =
     (if py_truth (doc_get d ''_id'') then py_str X (doc_get d ''_id'')
      else if py_truth (doc_get d ''id'') then py_str X (doc_get d ''id'')
      else coll @ ''-'' @ show_nat (i + 1))"

definition as_doc :: "pyval \<Rightarrow> doc res" where
  \<comment> \<open>a value whose \<open>.get\<close> or \<open>.items\<close> is taken\<close>
  "as_doc v = (case v of PDict d \<Rightarrow> Inr d | _ \<Rightarrow> Inl AttrErr)"

definition put_plain :: "config \<Rightarrow> string \<Rightarrow> string \<Rightarrow> string \<Rightarrow> doc \<Rightarrow> reply srv" where
  \<comment> \<open>\<open>db.put(coll, id, doc)\<close>\<close>
  "put_plain C name coll i d =
     write_db C name (\<lambda>V. IPut V coll i d ''local'' None None None no_prov)"

definition link_plain :: "config \<Rightarrow> string \<Rightarrow> string \<Rightarrow> string \<Rightarrow> string \<Rightarrow> reply srv" where
  "link_plain C name f r t = write_db C name (\<lambda>V. ILink V f r t ''local'' None)"

definition delete_plain :: "config \<Rightarrow> string \<Rightarrow> string \<Rightarrow> string \<Rightarrow> reply srv" where
  "delete_plain C name coll i = write_db C name (\<lambda>V. IDelete V coll i ''local'' None None)"

definition seed_coll :: "config \<Rightarrow> string \<Rightarrow> string \<times> pyval \<Rightarrow> unit srv" where
  "seed_coll C name cd =
     bindS (liftS (bindE (py_len (snd cd)) (\<lambda>_. py_iter (snd cd)))) (\<lambda>docs.
       forS (\<lambda>(i, v).
         bindS (liftS (as_doc v)) (\<lambda>d.
         bindS (put_plain C name (fst cd) (seed_id (c_ext C) (fst cd) i d) d) (\<lambda>_. retS ())))
         (enumerate 0 docs))"

definition create_link :: "config \<Rightarrow> string \<Rightarrow> pyval \<Rightarrow> unit srv" where
  "create_link C name l =
     bindS (liftS (bindE (item_at l 0) (\<lambda>a. bindE (item_at l 1) (\<lambda>b. bindE (item_at l 2) (\<lambda>c.
       bindE (as_str a) (\<lambda>f. bindE (as_str b) (\<lambda>r. bindE (as_str c) (\<lambda>t. Inr (f, r, t)))))))))
       (\<lambda>(f, r, t). bindS (link_plain C name f r t) (\<lambda>_. retS ()))"

definition links_of :: "doc \<Rightarrow> pyval list res" where
  \<comment> \<open>\<open>init.get("links", [])\<close>; a truthy value is also measured\<close>
  "links_of ini =
     (let l = dget ini ''links'' (PList []) in
      bindE (if py_truth l then bindE (py_len l) (\<lambda>_. Inr ()) else Inr ()) (\<lambda>_. py_iter l))"

definition create :: "config \<Rightarrow> string \<Rightarrow> doc \<Rightarrow> doc srv" where
  \<comment> \<open>\<open>init\<close> is \<open>{}\<close> when it was falsy\<close>
  "create C name ini =
     bindS (valid name) (\<lambda>_.
     bindS (getS (db_exists name)) (\<lambda>ex.
       if ex then httpS 409 (''database already exists: '' @ name)
       else
         bindS (open_name C name) (\<lambda>_.
         bindS (liftS (py_iter (dget ini ''indexes'' (PList [])))) (\<lambda>specs.
         bindS (create_indexes C name specs) (\<lambda>_.
         bindS (liftS (let sd = doc_get ini ''seed'' in if py_truth sd then as_doc sd else Inr [])) (\<lambda>seeds.
         bindS (forS (seed_coll C name) seeds) (\<lambda>_.
         bindS (liftS (links_of ini)) (\<lambda>ls.
         bindS (forS (create_link C name) ls) (\<lambda>_.
           summary C name)))))))))"

definition drop_name :: "string \<Rightarrow> ('k \<Rightarrow> string) \<Rightarrow> 'k list \<Rightarrow> 'k list" where
  "drop_name name key kvs = filter (\<lambda>kv. key kv \<noteq> name) kvs"

definition drop_db :: "config \<Rightarrow> string \<Rightarrow> bool srv" where
  \<comment> \<open>\<open>drop\<close>; \<open>close\<close> writes to files that \<open>rmtree\<close> then removes\<close>
  "drop_db C name =
     bindS (valid name) (\<lambda>_ sv.
       if \<not> db_exists name sv then (Inr False, sv)
       else (Inr True, sv\<lparr> sv_open := drop_name name fst (sv_open sv), sv_disk := drop_name name fst (sv_disk sv) \<rparr>))"

section \<open>Shutdown\<close>

definition checkpoint_one :: "config \<Rightarrow> string \<Rightarrow> (string, string) dict srv" where
  \<comment> \<open>an exception is printed\<close>
  "checkpoint_one C name sv =
     (case write_db C name ICheckpoint sv of
        (Inr (RHead h), sv') \<Rightarrow> (Inr [(name, h)], sv')
      | (_, sv') \<Rightarrow> (Inr [], sv'))"

fun checkpoint_each :: "config \<Rightarrow> string list \<Rightarrow> (string, string) dict srv" where
  "checkpoint_each C [] = retS []"
| "checkpoint_each C (name # ns) =
     bindS (checkpoint_one C name) (\<lambda>h. bindS (checkpoint_each C ns) (\<lambda>hs. retS (h @ hs)))"

definition checkpoint_all :: "config \<Rightarrow> (string, string) dict srv" where
  "checkpoint_all C = bindS (getS (map fst \<circ> sv_open)) (checkpoint_each C)"

definition store_closed :: "config \<Rightarrow> string \<times> seqr \<Rightarrow> server \<Rightarrow> server" where
  "store_closed C ns sv =
     sv\<lparr> sv_disk := dset (fst ns) (e_disk (s_db (seq_close (c_ext C) (snd ns)))) (sv_disk sv) \<rparr>"

definition close_all :: "config \<Rightarrow> unit srv" where
  "close_all C =
     bindS (checkpoint_all C) (\<lambda>_ sv.
       (Inr (), (fold (store_closed C) (sv_open sv) sv)\<lparr> sv_open := [] \<rparr>))"

definition server_start :: "config \<Rightarrow> (string, disk) dict \<Rightarrow> server" where
  "server_start C dirs = \<lparr> sv_n = 0, sv_disk = dirs, sv_open = [] \<rparr>"

fun boot :: "config \<Rightarrow> string list \<Rightarrow> server \<Rightarrow> server" where
  \<comment> \<open>\<open>main\<close> opens every database it finds; a failure is printed\<close>
  "boot C [] sv = sv"
| "boot C (n # ns) sv = boot C ns (snd (open_name C n sv))"

end
