(* ===== verification/Server.thy ===== *)
theory Server
  imports Manager Mongo Inclusion
begin

text \<open>
  The request handler of \<open>nedb.server\<close>.  A request is its method, the path and query as the
  URL parser splits them, the \<open>Authorization\<close> header and the body; an answer is a status and a
  JSON object.  The answer to an exception that is not an \<open>HttpError\<close> (status 500, with the
  text and the traceback of the exception) is \<open>Failure\<close>.
\<close>

record request =
  rq_method :: string
  rq_path :: string
  rq_query :: "(string, string list) dict"
  rq_auth :: string
  rq_body :: string

datatype response = Answer int doc | Failure exn

definition parts_of :: "request \<Rightarrow> string list" where
  \<comment> \<open>\<open>[p for p in u.path.split("/") if p]\<close>\<close>
  "parts_of q = filter (\<lambda>p. p \<noteq> []) (split_on CHR ''/'' (rq_path q))"

definition body :: "request \<Rightarrow> pyval srv" where
  "body q =
     (if rq_body q = [] then retS (PDict [])
      else (case loads (rq_body q) of Inr v \<Rightarrow> retS v | Inl _ \<Rightarrow> httpS 400 ''invalid JSON body''))"

definition body_doc :: "request \<Rightarrow> doc srv" where
  \<comment> \<open>\<open>b = self._body()\<close> and the first \<open>b.get\<close>\<close>
  "body_doc q = bindS (body q) (\<lambda>v. liftS (as_doc v))"

definition auth :: "config \<Rightarrow> request \<Rightarrow> unit srv" where
  "auth C q =
     (if c_token C = [] \<or> rq_auth q = ''Bearer '' @ c_token C then retS ()
      else httpS 401 ''missing or invalid bearer token'')"

definition or_default :: "pyval \<Rightarrow> pyval \<Rightarrow> pyval" where
  \<comment> \<open>\<open>v or d\<close>\<close>
  "or_default v d = (if py_truth v then v else d)"

definition text_field :: "config \<Rightarrow> doc \<Rightarrow> string \<Rightarrow> string" where
  \<comment> \<open>\<open>str(b[k])\<close>\<close>
  "text_field C b k = py_str (c_ext C) (doc_get b k)"

definition answer :: "int \<Rightarrow> doc \<Rightarrow> response srv" where
  "answer status d = retS (Answer status d)"

definition head_of :: "string \<Rightarrow> doc srv" where
  \<comment> \<open>\<open>"seq": db.seq, "head": db.head\<close>\<close>
  "head_of name = read_db name (\<lambda>s. Inr (seq_head s))"

definition ok :: doc where
  "ok = [(''ok'', PBool True)]"

section \<open>Databases\<close>

definition health :: "config \<Rightarrow> response srv" where
  "health C = bindS (getS names) (\<lambda>ns. answer 200
     [(''ok'', PBool True), (''service'', PStr ''nedbd''), (''version'', PStr (c_version C)),
      (''databases'', PList (map PStr ns)), (''encrypted'', PBool (c_tmk C \<noteq> None))])"

fun summaries :: "config \<Rightarrow> string list \<Rightarrow> doc list srv" where
  "summaries C [] = retS []"
| "summaries C (n # ns) = bindS (summary C n) (\<lambda>d. bindS (summaries C ns) (\<lambda>ds. retS (d # ds)))"

definition list_route :: "config \<Rightarrow> response srv" where
  "list_route C = bindS (getS names) (\<lambda>ns. bindS (summaries C ns) (\<lambda>ds.
     answer 200 [(''databases'', PList (map PDict ds))]))"

definition init_sizes :: "doc \<Rightarrow> unit res" where
  \<comment> \<open>the three numbers computed for the log line\<close>
  "init_sizes ini =
     bindE (py_len (dget ini ''indexes'' (PList []))) (\<lambda>_.
     bindE (as_doc (or_default (doc_get ini ''seed'') (PDict []))) (\<lambda>sd.
     bindE (mapE (py_len \<circ> snd) sd) (\<lambda>_.
     bindE (py_len (dget ini ''links'' (PList []))) (\<lambda>_. Inr ()))))"

definition create_route :: "config \<Rightarrow> request \<Rightarrow> response srv" where
  "create_route C q =
     bindS (body_doc q) (\<lambda>b.
       let name = str_strip (py_str (c_ext C) (dget b ''name'' (PStr []))) in
       if name = [] then httpS 400 ''name is required''
       else
         bindS (liftS (as_doc (or_default (doc_get b ''init'') (PDict [])))) (\<lambda>ini.
         bindS (liftS (init_sizes ini)) (\<lambda>_.
         bindS (create C name ini) (\<lambda>d. answer 201 [(''database'', PDict d)]))))"

text \<open>\<open>_detail\<close>: the live edges, one entry for each kind.\<close>

definition coll_of :: "string \<Rightarrow> string" where
  "coll_of node = takeWhile (\<lambda>c. c \<noteq> CHR '':'') node"

fun note_edges :: "string \<Rightarrow> string \<Rightarrow> edge list \<Rightarrow> (string \<times> string \<times> string) list \<Rightarrow>
    (string \<times> string \<times> string) list" where
  "note_edges f r [] seen = seen"
| "note_edges f r ((t, a, rm) # es) seen =
     (let k = (coll_of f, r, coll_of t) in
      note_edges f r es (if rm = None \<and> k \<notin> set seen then seen @ [k] else seen))"

definition relation_kinds :: "rels \<Rightarrow> (string \<times> string \<times> string) list" where
  "relation_kinds g = fold (\<lambda>((f, r), es) seen. note_edges f r es seen) (r_adj g) []"

definition kind_doc :: "string \<times> string \<times> string \<Rightarrow> pyval" where
  "kind_doc = (\<lambda>(f, r, t). PDict [(''from'', PStr f), (''relation'', PStr r), (''to'', PStr t),
     (''cardinality'', PStr ''one_to_many'')])"

definition index_doc :: "string \<times> string \<times> string \<Rightarrow> pyval" where
  "index_doc = (\<lambda>(c, f, k). PList [PStr c, PStr f, PStr k])"

definition detail :: "config \<Rightarrow> string \<Rightarrow> response srv" where
  "detail C name =
     bindS (require C name) (\<lambda>_.
     bindS (read_db name (\<lambda>s. bindE (collection_counts s) (\<lambda>counts.
       Inr ((''name'', PStr name) # seq_head s @
         [(''rows'', rows_of counts), (''collections'', counts_doc counts),
          (''indexes'', PList (map index_doc (ix_config (m_ix (e_mat (s_db s)))))),
          (''relations'', PList (map kind_doc (relation_kinds (m_rels (e_mat (s_db s)))))),
          (''integrity'', PDict [(''ok'', PBool (eng_verify (c_ext C) (s_db s)))]),
          (''encrypted'', PBool (e_dek (s_db s) \<noteq> None)),
          (''has_snapshot'', PBool (d_snap (e_disk (s_db s)) \<noteq> None))])))) (answer 200))"

section \<open>The routes of one database\<close>

definition query_route :: "config \<Rightarrow> string \<Rightarrow> request \<Rightarrow> response srv" where
  "query_route C name q =
     bindS (body_doc q) (\<lambda>b.
       let nql = str_strip (py_str (c_ext C) (dget b ''nql'' (PStr []))) in
       if nql = [] then httpS 400 ''nql is required''
       else
         bindS (read_db name (\<lambda>s. Inr (seq_query (c_ext C) nql s))) (\<lambda>r.
           case r of
             Inl x \<Rightarrow> httpS 400 (''NQL error: '' @ c_message C x)
           | Inr rows \<Rightarrow>
               bindS (head_of name) (\<lambda>h. answer 200
                 ([(''rows'', PList (map PDict rows)), (''count'', PInt (int (length rows)))] @ h))))"

definition opt_field :: "doc \<Rightarrow> string \<Rightarrow> (pyval \<Rightarrow> 'a res) \<Rightarrow> 'a option res" where
  "opt_field b k f = (case doc_get b k of PNone \<Rightarrow> Inr None | v \<Rightarrow> bindE (f v) (\<lambda>x. Inr (Some x)))"

definition as_int :: "pyval \<Rightarrow> int res" where
  "as_int v = (case v of PInt i \<Rightarrow> Inr i | _ \<Rightarrow> Inl Untyped)"

definition as_float :: "pyval \<Rightarrow> rat res" where
  "as_float v = (case v of PFloat r \<Rightarrow> Inr r | _ \<Rightarrow> Inl Untyped)"

definition put_causes :: "doc \<Rightarrow> doc \<Rightarrow> int list option res" where
  \<comment> \<open>\<open>_cb = b.get("caused_by") or doc.get("caused_by")\<close>, as a list\<close>
  "put_causes b d =
     (case or_default (doc_get b ''caused_by'') (doc_get d ''caused_by'') of
        PNone \<Rightarrow> Inr None
      | v \<Rightarrow> bindE (py_iter v) (\<lambda>xs. bindE (mapE as_int xs) (\<lambda>is. Inr (Some is))))"

definition put_args_of :: "doc \<Rightarrow> doc \<Rightarrow> (string \<times> int option \<times> string option \<times> prov) res" where
  \<comment> \<open>the keyword arguments\<close>
  "put_args_of b d =
     bindE (opt_field b ''client'' as_str) (\<lambda>cl.
     bindE (opt_field b ''nonce'' as_int) (\<lambda>nonce.
     bindE (opt_field b ''idem'' as_str) (\<lambda>idm.
     bindE (opt_field b ''evidence'' as_str) (\<lambda>ev.
     bindE (opt_field b ''confidence'' as_float) (\<lambda>cf.
     bindE (opt_field b ''valid_from'' as_str) (\<lambda>vf.
     bindE (opt_field b ''valid_to'' as_str) (\<lambda>vt.
     bindE (put_causes b d) (\<lambda>cs.
       Inr (case cl of None \<Rightarrow> ''local'' | Some c \<Rightarrow> c, nonce, idm,
            \<lparr> p_caused = cs, p_evidence = ev, p_conf = cf, p_from = vf, p_to = vt \<rparr>)))))))))"

definition doc_value :: "doc option \<Rightarrow> pyval" where
  "doc_value x = (case x of None \<Rightarrow> PNone | Some d \<Rightarrow> PDict d)"

definition replay_409 :: "config \<Rightarrow> 'a srv \<Rightarrow> 'a srv" where
  \<comment> \<open>\<open>except ReplayError as e: raise HttpError(409, str(e))\<close>\<close>
  "replay_409 C m sv =
     (case m sv of
        (Inl (Raised ReplayErr), sv') \<Rightarrow> (Inl (Http 409 (c_message C ReplayErr)), sv')
      | r \<Rightarrow> r)"

definition put_route :: "config \<Rightarrow> string \<Rightarrow> request \<Rightarrow> response srv" where
  "put_route C name q =
     bindS (body_doc q) (\<lambda>b.
       case (py_truth (doc_get b ''coll''), doc_get b ''id'', doc_get b ''doc'') of
         (True, i, PDict d) \<Rightarrow>
           if i = PNone then httpS 400 ''coll, id, and doc are required''
           else
             bindS (liftS (put_args_of b d)) (\<lambda>(cl, nonce, idm, pr).
             bindS (replay_409 C (write_db C name (\<lambda>V.
               IPut V (text_field C b ''coll'') (py_str (c_ext C) i) d cl nonce idm None pr))) (\<lambda>r.
             bindS (head_of name) (\<lambda>h. answer 200
               (ok @ [(''doc'', case r of RDoc x \<Rightarrow> doc_value x | _ \<Rightarrow> PNone)] @ h))))
       | _ \<Rightarrow> httpS 400 ''coll, id, and doc are required'')"

definition index_route :: "config \<Rightarrow> string \<Rightarrow> request \<Rightarrow> response srv" where
  "index_route C name q =
     bindS (body_doc q) (\<lambda>b.
       if \<not> py_truth (doc_get b ''coll'') \<or> \<not> py_truth (doc_get b ''field'') then
         httpS 400 ''coll and field are required''
       else
         bindS (write_db C name (\<lambda>_. ICreateIndex (text_field C b ''coll'') (text_field C b ''field'')
           (py_str (c_ext C) (dget b ''kind'' (PStr ''eq''))))) (\<lambda>_. answer 200 ok))"

definition link_route :: "config \<Rightarrow> string \<Rightarrow> request \<Rightarrow> response srv" where
  "link_route C name q =
     bindS (body_doc q) (\<lambda>b.
       if py_truth (doc_get b ''frm'') \<and> py_truth (doc_get b ''rel'') \<and> py_truth (doc_get b ''to'') then
         bindS (link_plain C name (text_field C b ''frm'') (text_field C b ''rel'') (text_field C b ''to'')) (\<lambda>_.
         bindS (head_of name) (\<lambda>h. answer 200 (ok @ h)))
       else httpS 400 ''frm, rel, and to are required'')"

definition neighbors_route :: "config \<Rightarrow> string \<Rightarrow> request \<Rightarrow> response srv" where
  "neighbors_route C name q =
     bindS (body_doc q) (\<lambda>b.
       if \<not> py_truth (doc_get b ''node'') \<or> \<not> py_truth (doc_get b ''rel'') then
         httpS 400 ''node and rel are required''
       else
         bindS (read_db name (\<lambda>s. Inr (seq_neighbors (text_field C b ''node'') (text_field C b ''rel'') None s)))
           (\<lambda>ns. answer 200 [(''nodes'', PList (map PStr ns)), (''count'', PInt (int (length ns)))]))"

definition verify_route :: "config \<Rightarrow> string \<Rightarrow> response srv" where
  "verify_route C name =
     bindS (read_db name (\<lambda>s. Inr ((''ok'', PBool (eng_verify (c_ext C) (s_db s))) # seq_head s))) (answer 200)"

definition checkpoint_route :: "config \<Rightarrow> string \<Rightarrow> response srv" where
  "checkpoint_route C name =
     bindS (write_db C name ICheckpoint) (\<lambda>r.
     bindS (read_db name (\<lambda>s. Inr (eng_seq (s_db s)))) (\<lambda>n. answer 200
       (ok @ [(''head'', case r of RHead h \<Rightarrow> PStr h | _ \<Rightarrow> PNone), (''seq'', PInt n)])))"

definition last_ops :: "int \<Rightarrow> 'a list \<Rightarrow> 'a list" where
  \<comment> \<open>\<open>ops[-limit:]\<close>\<close>
  "last_ops limit xs = (if 0 < limit then drop (length xs - nat limit) xs else drop (nat (- limit)) xs)"

definition query_arg :: "request \<Rightarrow> string \<Rightarrow> string \<Rightarrow> string res" where
  \<comment> \<open>\<open>query.get(k, [d])[0]\<close>\<close>
  "query_arg q k d = (case dget (rq_query q) k [d] of [] \<Rightarrow> Inl IndexError | x # _ \<Rightarrow> Inr x)"

definition log_route :: "string \<Rightarrow> request \<Rightarrow> response srv" where
  "log_route name q =
     bindS (liftS (bindE (query_arg q ''limit'' ''50'') int_of_str)) (\<lambda>limit.
     bindS (read_db name (\<lambda>s. Inr
       ((''log'', PList (map (\<lambda>r. PDict (to_dict r)) (rev (last_ops limit (l_ops (e_log (s_db s))))))) # seq_head s)))
       (answer 200))"

definition proof_route :: "config \<Rightarrow> string \<Rightarrow> request \<Rightarrow> response srv" where
  \<comment> \<open>the text of the answer 404 ends in an ellipsis, which is no character of this model\<close>
  "proof_route C name q =
     bindS (body_doc q) (\<lambda>b.
       let want = str_lower (str_strip (py_str (c_ext C) (dget b ''hash'' (PStr [])))) in
       if want = [] \<or> length want \<noteq> 64 then httpS 400 ''hash (64-char hex) is required''
       else (case fromhex want of
         Inl _ \<Rightarrow> httpS 400 ''hash must be 64-char hexadecimal''
       | Inr _ \<Rightarrow>
           bindS (read_db name (\<lambda>s. issue_proof (c_ext C) (e_log (s_db s)) want)) (\<lambda>p.
             case p of
               None \<Rightarrow> httpS 404 (''no op with hash='' @ take 16 want)
             | Some prf \<Rightarrow>
                 bindS (liftS (verify_proof (c_ext C) prf)) (\<lambda>good.
                 bindS (liftS (as_doc prf)) (\<lambda>pd.
                 bindS (read_db name Inr) (\<lambda>s. answer 200
                   (pd @ [(''verified'', PBool good), (''engine_head'', PStr (eng_head (s_db s))),
                          (''engine_seq'', PInt (eng_seq (s_db s)))])))))))"

section \<open>The Mongo endpoint\<close>

text \<open>It works on the engine behind the sequencer, \<open>db.db\<close>.\<close>

definition raw_db :: "string \<Rightarrow> 'a step \<Rightarrow> 'a srv" where
  "raw_db name m sv =
     (case map_of (sv_open sv) name of
        None \<Rightarrow> (Inl (Raised KeyError), sv)
      | Some s \<Rightarrow>
          (case m (sv_n sv, s_db s) of
             (r, (n, e)) \<Rightarrow> (map_sum Raised id r,
                sv\<lparr> sv_n := n, sv_open := dset name (s\<lparr> s_db := e \<rparr>) (sv_open sv) \<rparr>)))"

definition typed_doc :: "pyval \<Rightarrow> doc res" where
  \<comment> \<open>an argument declared \<open>dict\<close>\<close>
  "typed_doc v = (case v of PDict d \<Rightarrow> Inr d | _ \<Rightarrow> Inl Untyped)"

definition sort_pair :: "pyval \<Rightarrow> (string \<times> int) res" where
  "sort_pair v = (case v of PList [PStr f, PInt d] \<Rightarrow> Inr (f, d) | _ \<Rightarrow> Inl Untyped)"

definition sort_spec :: "pyval \<Rightarrow> ((string \<times> int option) + (string \<times> int) list) res" where
  "sort_spec v =
     (case v of
        PDict d \<Rightarrow> bindE (mapE (\<lambda>(f, x). bindE (as_int x) (\<lambda>i. Inr (f, i))) d) (\<lambda>ks. Inr (Inr ks))
      | PStr f \<Rightarrow> Inr (Inl (f, None))
      | PList xs \<Rightarrow> bindE (mapE sort_pair xs) (\<lambda>ks. Inr (Inr ks))
      | _ \<Rightarrow> Inl Untyped)"

definition int_value :: "pyval \<Rightarrow> int res" where
  \<comment> \<open>\<open>int(v)\<close>\<close>
  "int_value v =
     (case v of
        PStr s \<Rightarrow> int_of_str s
      | _ \<Rightarrow> (case py_int v of Some i \<Rightarrow> Inr i | None \<Rightarrow> Inl TypeErr))"

definition when_true :: "pyval \<Rightarrow> (pyval \<Rightarrow> 'a res) \<Rightarrow> ('a \<Rightarrow> 'b \<Rightarrow> 'b) \<Rightarrow> 'b \<Rightarrow> 'b res" where
  \<comment> \<open>\<open>if v: cur = cur.f(g(v))\<close>\<close>
  "when_true v g f cu = (if py_truth v then bindE (g v) (\<lambda>x. Inr (f x cu)) else Inr cu)"

definition find_args :: "doc \<Rightarrow> cursor res" where
  "find_args b =
     bindE (typed_doc (or_default (doc_get b ''filter'') (PDict []))) (\<lambda>filt.
     bindE (when_true (doc_get b ''sort'') sort_spec with_sort (find_cursor filt None)) (\<lambda>cu.
     bindE (when_true (dget b ''skip'' (PInt 0)) int_value with_skip cu) (\<lambda>cu.
       when_true (doc_get b ''limit'') int_value with_limit cu)))"

definition arg_doc :: "doc \<Rightarrow> string \<Rightarrow> doc step" where
  \<comment> \<open>\<open>b.get(k) or {}\<close>\<close>
  "arg_doc b k = liftM (typed_doc (or_default (doc_get b k) (PDict [])))"

definition update_answer :: "update_result \<Rightarrow> doc" where
  "update_answer r =
     [(''matchedCount'', PInt (int (ur_matched r))), (''modifiedCount'', PInt (int (ur_modified r))),
      (''upsertedId'', ur_upserted r)]"

definition count_answer :: "string \<Rightarrow> nat \<Rightarrow> doc" where
  "count_answer k n = [(k, PInt (int n))]"

definition docs_value :: "doc list \<Rightarrow> pyval" where
  "docs_value ds = PList (map PDict ds)"

definition pipeline_of :: "doc \<Rightarrow> pyval list res" where
  "pipeline_of b = (case or_default (doc_get b ''pipeline'') (PList []) of PList xs \<Rightarrow> Inr xs | _ \<Rightarrow> Inl Untyped)"

definition mongo_update_op :: "config \<Rightarrow> mcoll \<Rightarrow> doc \<Rightarrow> string \<Rightarrow>
    (doc \<Rightarrow> doc \<Rightarrow> bool \<Rightarrow> update_result step) \<Rightarrow> doc step" where
  "mongo_update_op C c b k f =
     bindM (arg_doc b ''filter'') (\<lambda>filt. bindM (arg_doc b k) (\<lambda>u.
     bindM (f filt u (py_truth (doc_get b ''upsert''))) (\<lambda>r. retM (update_answer r))))"

definition mongo_op :: "config \<Rightarrow> mcoll \<Rightarrow> doc \<Rightarrow> string \<Rightarrow> doc step option" where
  "mongo_op C c b op =
     (let X = c_ext C; R = c_regex C; W = c_env C in
      if op = ''find'' then
        Some (bindM (liftM (find_args b)) (\<lambda>cu. bindM (to_list X R W c cu None) (\<lambda>ds.
          retM [(''rows'', docs_value ds), (''count'', PInt (int (length ds)))])))
      else if op = ''findOne'' then
        Some (bindM (arg_doc b ''filter'') (\<lambda>f. bindM (find_one X R W c f None) (\<lambda>d.
          retM [(''doc'', doc_value d)])))
      else if op = ''count'' then
        Some (bindM (arg_doc b ''filter'') (\<lambda>f. bindM (count_documents X R W c f) (\<lambda>n.
          retM (count_answer ''count'' n))))
      else if op = ''distinct'' then
        Some (bindM (arg_doc b ''filter'') (\<lambda>f.
          bindM (distinct_of X R W c (py_str X (dget b ''key'' (PStr ''_id''))) f) (\<lambda>vs.
          retM [(''values'', PList vs)])))
      else if op = ''aggregate'' then
        Some (bindM (liftM (pipeline_of b)) (\<lambda>p. bindM (aggregate X R c p) (\<lambda>ds.
          bindM (aggregate X R c p) (\<lambda>ds2.
          retM [(''rows'', docs_value ds), (''count'', PInt (int (length ds2)))]))))
      else if op = ''insertOne'' then
        Some (bindM (arg_doc b ''document'') (\<lambda>d. bindM (insert_one X W (c_oid C) c d) (\<lambda>i.
          retM [(''insertedId'', i), (''acknowledged'', PBool True)])))
      else if op = ''updateOne'' then
        Some (mongo_update_op C c b ''update'' (update_one X R W (c_oid C) c))
      else if op = ''updateMany'' then
        Some (mongo_update_op C c b ''update'' (update_many X R W (c_oid C) c))
      else if op = ''deleteOne'' then
        Some (bindM (arg_doc b ''filter'') (\<lambda>f. bindM (delete_one X R W c f) (\<lambda>n.
          retM (count_answer ''deletedCount'' n))))
      else if op = ''deleteMany'' then
        Some (bindM (arg_doc b ''filter'') (\<lambda>f. bindM (delete_many X R W c f) (\<lambda>n.
          retM (count_answer ''deletedCount'' n))))
      else if op = ''replaceOne'' then
        Some (mongo_update_op C c b ''replacement'' (replace_one X R W (c_oid C) c))
      else None)"

definition mongo_400 :: "config \<Rightarrow> 'a srv \<Rightarrow> 'a srv" where
  "mongo_400 C m sv =
     (case m sv of
        (Inl (Raised MongoErr), sv') \<Rightarrow> (Inl (Http 400 (c_message C MongoErr)), sv')
      | (Inl (Raised MongoUnsupported), sv') \<Rightarrow> (Inl (Http 400 (c_message C MongoUnsupported)), sv')
      | r \<Rightarrow> r)"

definition mongo_route :: "config \<Rightarrow> string \<Rightarrow> request \<Rightarrow> response srv" where
  "mongo_route C name q =
     bindS (body_doc q) (\<lambda>b.
       if \<not> py_truth (doc_get b ''collection'') \<or> \<not> py_truth (doc_get b ''op'') then
         httpS 400 ''collection and op are required''
       else
         (let c = \<lparr> mc_coll = text_field C b ''collection'', mc_client = ''mongo-compat'' \<rparr>;
              op = (case doc_get b ''op'' of PStr s \<Rightarrow> s | _ \<Rightarrow> []) in
          case mongo_op C c b op of
            None \<Rightarrow> httpS 400 (''unknown mongo op: '' @ py_repr (c_ext C) (doc_get b ''op''))
          | Some m \<Rightarrow>
              mongo_400 C
                (bindS (raw_db name m) (\<lambda>d.
                 bindS (read_db name (\<lambda>s. Inr (eng_seq (s_db s)))) (\<lambda>n.
                   answer 200 (dset ''seq'' (PInt n) d))))))"

section \<open>Files, rows, batches\<close>

definition files_post :: "config \<Rightarrow> string \<Rightarrow> request \<Rightarrow> response srv" where
  "files_post C name q =
     bindS (body_doc q) (\<lambda>b.
       if \<not> py_truth (doc_get b ''name'') \<or> \<not> py_truth (doc_get b ''data_b64'') then
         httpS 400 ''name and data_b64 are required''
       else
         bindS (liftS (bindE (as_str (doc_get b ''data_b64'')) b64_decode)) (\<lambda>data.
           let fname = text_field C b ''name''; tier = py_str (c_ext C) (dget b ''tier'' (PStr ''warm'')) in
           bindS (write_db C name (\<lambda>V. IPutFile V fname data tier ''local'' None None)) (\<lambda>r.
             let version = (case r of RVersion n \<Rightarrow> int n | _ \<Rightarrow> 0) in
             bindS (read_db name (\<lambda>s. eng_file_root fname version tier (s_db s))) (\<lambda>root. answer 201
               [(''name'', doc_get b ''name''), (''version'', PInt version), (''root'', PStr root),
                (''size'', PInt (int (length data))), (''tier'', PStr tier)]))))"

definition files_get :: "config \<Rightarrow> string list \<Rightarrow> request \<Rightarrow> response srv" where
  "files_get C ps q =
     (let name = ps ! 2; fname = ps ! 4 in
      bindS (require C name) (\<lambda>_.
      bindS (liftS (bindE (query_arg q ''version'' ''-1'') int_of_str)) (\<lambda>version.
      bindS (liftS (query_arg q ''tier'' ''warm'')) (\<lambda>tier.
        if length ps = 6 \<and> ps ! 5 = ''root'' then
          bindS (read_db name (\<lambda>s. eng_file_root fname version tier (s_db s))) (\<lambda>root. answer 200
            [(''name'', PStr fname), (''version'', PInt version), (''root'', PStr root), (''tier'', PStr tier)])
        else
          bindS (read_db name (\<lambda>s. eng_get_file (c_ext C) fname version tier (s_db s))) (\<lambda>data. answer 200
            [(''name'', PStr fname), (''version'', PInt version), (''data_b64'', PStr (b64_encode data)),
             (''size'', PInt (int (length data))), (''tier'', PStr tier)])))))"

definition rows_delete :: "config \<Rightarrow> string \<Rightarrow> string \<Rightarrow> string \<Rightarrow> response srv" where
  "rows_delete C name coll i =
     bindS (require C name) (\<lambda>_.
     bindS (delete_plain C name coll i) (\<lambda>_.
     bindS (head_of name) (\<lambda>h. answer 200 (ok @ h))))"

definition item :: "doc \<Rightarrow> string \<Rightarrow> pyval srv" where
  \<comment> \<open>\<open>op[k]\<close>\<close>
  "item d k = liftS (case map_of d k of None \<Rightarrow> Inl KeyError | Some v \<Rightarrow> Inr v)"

definition item_text :: "config \<Rightarrow> doc \<Rightarrow> string \<Rightarrow> string srv" where
  "item_text C d k = bindS (item d k) (\<lambda>v. retS (py_str (c_ext C) v))"

definition batch_done :: "string \<Rightarrow> string \<Rightarrow> doc \<Rightarrow> doc srv" where
  "batch_done name k extra =
     bindS (read_db name (\<lambda>s. Inr (eng_seq (s_db s)))) (\<lambda>n. retS ((''op'', PStr k) # extra @ [(''seq'', PInt n)]))"

definition batch_op :: "config \<Rightarrow> string \<Rightarrow> pyval \<Rightarrow> doc srv" where
  "batch_op C name v =
     bindS (liftS (as_doc v)) (\<lambda>op.
       let kind = str_lower (py_str (c_ext C) (dget op ''op'' (PStr ''put''))) in
       if kind = ''put'' then
         bindS (item_text C op ''coll'') (\<lambda>c. bindS (item_text C op ''id'') (\<lambda>i.
         bindS (liftS (typed_doc (or_default (doc_get op ''doc'') (PDict [])))) (\<lambda>d.
         bindS (put_plain C name c i d) (\<lambda>_. batch_done name ''put'' [(''id'', doc_get op ''id'')]))))
       else if kind = ''del'' then
         bindS (item_text C op ''coll'') (\<lambda>c. bindS (item_text C op ''id'') (\<lambda>i.
         bindS (delete_plain C name c i) (\<lambda>_. batch_done name ''del'' [(''id'', doc_get op ''id'')])))
       else if kind = ''link'' then
         bindS (item_text C op ''frm'') (\<lambda>f. bindS (item_text C op ''rel'') (\<lambda>r.
         bindS (item_text C op ''to'') (\<lambda>t.
         bindS (link_plain C name f r t) (\<lambda>_. batch_done name ''link'' []))))
       else retS [(''op'', PStr kind), (''error'', PStr ''unknown op'')])"

fun batch_ops :: "config \<Rightarrow> string \<Rightarrow> pyval list \<Rightarrow> doc list srv" where
  "batch_ops C name [] = retS []"
| "batch_ops C name (v # vs) =
     bindS (batch_op C name v) (\<lambda>d. bindS (batch_ops C name vs) (\<lambda>ds. retS (d # ds)))"

definition batch_route :: "config \<Rightarrow> string \<Rightarrow> request \<Rightarrow> response srv" where
  "batch_route C name q =
     bindS (require C name) (\<lambda>_.
     bindS (body_doc q) (\<lambda>b.
       case or_default (doc_get b ''ops'') (PList []) of
         PList (v # vs) \<Rightarrow>
           bindS (batch_ops C name (v # vs)) (\<lambda>rs.
           bindS (head_of name) (\<lambda>h. answer 200
             ([(''results'', PList (map PDict rs)), (''count'', PInt (int (length rs)))] @ h)))
       | _ \<Rightarrow> httpS 400 ''ops array is required''))"

section \<open>Dispatch\<close>

definition db_route :: "config \<Rightarrow> string \<Rightarrow> string \<Rightarrow> request \<Rightarrow> response srv" where
  \<comment> \<open>the routes of four parts; \<open>batch\<close> is reached by falling through the others\<close>
  "db_route C name action q =
     bindS (require C name) (\<lambda>_.
       let post = (rq_method q = ''POST''); get = (rq_method q = ''GET'') in
       if post \<and> action = ''query'' then query_route C name q
       else if post \<and> action = ''put'' then put_route C name q
       else if post \<and> action = ''index'' then index_route C name q
       else if post \<and> action = ''link'' then link_route C name q
       else if post \<and> action = ''neighbors'' then neighbors_route C name q
       else if get \<and> action = ''verify'' then verify_route C name
       else if post \<and> action = ''checkpoint'' then checkpoint_route C name
       else if get \<and> action = ''log'' then log_route name q
       else if post \<and> action = ''proof'' then proof_route C name q
       else if post \<and> action = ''mongo'' then mongo_route C name q
       else if post \<and> action = ''files'' then files_post C name q
       else if post \<and> action = ''batch'' then batch_route C name q
       else httpS 404 ''no such route'')"

definition dispatch :: "config \<Rightarrow> request \<Rightarrow> response srv" where
  "dispatch C q =
     (let ps = parts_of q; meth = rq_method q; under = (take 2 ps = [''v1'', ''databases'']) in
      if meth = ''GET'' \<and> (ps = [] \<or> ps = [''health'']) then health C
      else
        bindS (if take 1 ps = [''v1''] then auth C q else retS ()) (\<lambda>_.
          if ps = [''v1'', ''databases''] \<and> meth = ''GET'' then list_route C
          else if ps = [''v1'', ''databases''] \<and> meth = ''POST'' then create_route C q
          else if length ps = 3 \<and> under \<and> meth = ''GET'' then detail C (ps ! 2)
          else if length ps = 3 \<and> under \<and> meth = ''DELETE'' then
            bindS (drop_db C (ps ! 2)) (\<lambda>b. answer 200 [(''dropped'', PBool b)])
          else if length ps = 4 \<and> under then db_route C (ps ! 2) (ps ! 3) q
          else if meth = ''DELETE'' \<and> length ps = 6 \<and> under \<and> ps ! 3 = ''rows'' then
            rows_delete C (ps ! 2) (ps ! 4) (ps ! 5)
          else if meth = ''GET'' \<and> 5 \<le> length ps \<and> under \<and> ps ! 3 = ''files'' then files_get C ps q
          else httpS 404 ''no such route''))"

definition handle :: "config \<Rightarrow> request \<Rightarrow> server \<Rightarrow> response \<times> server" where
  "handle C q sv =
     (case dispatch C q sv of
        (Inr r, sv') \<Rightarrow> (r, sv')
      | (Inl (Http status msg), sv') \<Rightarrow> (Answer status [(''error'', PStr msg)], sv')
      | (Inl (Raised x), sv') \<Rightarrow> (Failure x, sv'))"

end
