(* ===== verification/ServerInv.thy ===== *)
theory ServerInv
  imports Server
begin

text \<open>
  What a request can do to the databases: the past of every database stays what it was unless the
  database is dropped, and no directory with an invalid name is touched.  Both are proved of each
  building block of the handler and carried through it.
\<close>

section \<open>Steps of the adapters that keep the past\<close>

text \<open>Also when they raise half-way.\<close>

definition stays :: "ext \<Rightarrow> 'a step \<Rightarrow> bool" where
  "stays X m \<longleftrightarrow> (\<forall>w. keeps X (snd w) (snd (snd (m w))))"

named_theorems stays_intros \<open>steps that keep the past\<close>

lemma stays_basic [stays_intros]:
  "stays X (retM x)" "stays X (raiseM ex)" "stays X (liftM r)" "stays X (readM f)"
  by (simp_all add: stays_def retM_def raiseM_def liftM_def readM_def keeps_refl)

lemma stays_bind [stays_intros]:
  assumes "stays X m" "\<And>a. stays X (f a)"
  shows "stays X (bindM m f)"
  unfolding stays_def
proof
  fix w
  obtain r w1 where m: "m w = (r, w1)" by (cases "m w")
  have 1: "keeps X (snd w) (snd w1)" using assms(1)[unfolded stays_def, rule_format, of w] m by simp
  show "keeps X (snd w) (snd (snd (bindM m f w)))"
  proof (cases r)
    case (Inr a)
    have "keeps X (snd w1) (snd (snd (f a w1)))" using assms(2)[of a, unfolded stays_def] by blast
    with 1 m Inr show ?thesis by (auto simp: bindM_def intro: keeps_trans)
  qed (use 1 m in \<open>simp add: bindM_def\<close>)
qed

lemma stays_map [stays_intros]: "(\<And>x. stays X (f x)) \<Longrightarrow> stays X (mapM f xs)"
  by (induction xs) (auto intro: stays_intros)

lemma stays_call: "(\<And>V e. keeps X e (snd (f V e))) \<Longrightarrow> stays X (callM W f)"
  by (auto simp: stays_def callM_def split: prod.splits) (metis snd_conv)

lemma ttl_delete_keeps: "keeps X e (snd (ttl_delete X ts rnd coll i e))"
proof -
  obtain n e1 where n: "next_nonce ''__ttl__'' e = (n, e1)" by (cases "next_nonce ''__ttl__'' e")
  then have p: "pick_nonce ''__ttl__'' None e = (n, e1)" by (simp add: pick_nonce_def)
  obtain a e2 where a: "eng_append X ts rnd ''__ttl__'' n ''delete'' (delete_payload coll i) None no_prov e1 = (a, e2)"
    by (cases "eng_append X ts rnd ''__ttl__'' n ''delete'' (delete_payload coll i) None no_prov e1")
  have k: "keeps X e1 e2"
    using append_keeps[of X e1 ts rnd "''__ttl__''" n "''delete''" "delete_payload coll i" None no_prov] a by simp
  have "keeps X e1 (snd (ttl_delete X ts rnd coll i e))"
  proof (cases a)
    case (Inl x)
    then show ?thesis using n a k by (simp add: ttl_delete_def)
  next
    case (Inr rc)
    then have "log_append X ''__ttl__'' n ''delete'' (delete_payload coll i) None ts no_prov (e_log e1) =
        Inr (fst rc, snd rc, e_log e2)"
      using append_log(1)[of X ts rnd "''__ttl__''" n "''delete''" "delete_payload coll i" None no_prov e1 "fst rc" "snd rc" e2] a
      by simp
    then have "snd rc \<and> l_ops (e_log e2) = l_ops (e_log e1) @ [fst rc]"
      by (auto simp: log_append_def Let_def eq_commute[of _ "e_log e2"] split: if_splits)
    then obtain r where r: "rc = (r, True)" "l_ops (e_log e2) = l_ops (e_log e1) @ [r]"
      by (cases rc) auto
    have "py_index (l_ops (e_log e2)) (-1) = Inr r" by (simp add: r(2) py_index_last)
    then show ?thesis
      using n a Inr r(1) fold_new_keeps[of X ts rnd "''__ttl__''" n "''delete''" "delete_payload coll i" None no_prov e1 r e2 False]
      by (simp add: ttl_delete_def)
  qed
  then show ?thesis using nonce_keeps[OF p] by simp
qed

lemma eng_get_keeps: "keeps X e (snd (eng_get X V coll i as_of e))"
proof -
  have "keeps X e (snd (check_ttl X V coll i d e))" for d
    by (auto simp: check_ttl_def Let_def keeps_refl intro!: keeps_bind ttl_delete_keeps split: option.split bool.split)
  then show ?thesis by (simp add: eng_get_def keeps_refl split: sum.split)
qed

lemma stays_client [stays_intros]:
  "stays X (m_put X W cl coll i d)" "stays X (m_get X W coll i)" "stays X (m_delete X W cl coll i)"
  "stays X (m_query X nql)"
proof -
  show "stays X (m_put X W cl coll i d)"
    unfolding m_put_def
    by (rule stays_call) (use apply_one_keeps[of X _ "IPut _ coll i d cl None None None no_prov"] in simp)
  show "stays X (m_get X W coll i)" unfolding m_get_def by (rule stays_call) (rule eng_get_keeps)
  show "stays X (m_delete X W cl coll i)"
    unfolding m_delete_def
    by (rule stays_call) (use apply_one_keeps[of X _ "IDelete _ coll i cl None None"] in simp)
  show "stays X (m_query X nql)" unfolding m_query_def by (rule stays_intros)
qed

lemma stays_gen [stays_intros]: "stays X (genM oid)"
  by (simp add: stays_def genM_def keeps_refl)

lemma stays_find [stays_intros]: "stays X (find_docs X R W c filt)"
  unfolding find_docs_def mongo_candidates_def mongo_scan_def
  by (auto intro!: stays_intros simp: Let_def split: pyval.split option.split)

lemma stays_mongo [stays_intros]:
  "stays X (to_list X R W c cu len)" "stays X (find_one X R W c filt proj)"
  "stays X (count_documents X R W c filt)" "stays X (distinct_of X R W c key filt)"
  "stays X (aggregate X R c p)" "stays X (insert_one X W oid c d)"
  "stays X (update_one X R W oid c filt upd ups)" "stays X (update_many X R W oid c filt upd ups)"
  "stays X (replace_one X R W oid c filt d ups)"
  "stays X (delete_one X R W c filt)" "stays X (delete_many X R W c filt)"
proof -
  show l: "stays X (to_list X R W c cu len)" for cu len
    unfolding to_list_def materialize_def by (intro stays_intros)
  then show "stays X (find_one X R W c filt proj)"
    unfolding find_one_def by (auto intro!: stays_intros)
  show "stays X (count_documents X R W c filt)" unfolding count_documents_def by (intro stays_intros)
  show "stays X (distinct_of X R W c key filt)" unfolding distinct_of_def by (intro stays_intros)
  show "stays X (aggregate X R c p)" unfolding aggregate_def by (intro stays_intros)
  show "stays X (insert_one X W oid c d)"
    unfolding insert_one_def by (auto intro!: stays_intros split: pyval.split)
  have w: "stays X (write_doc X W c d i)" for d i unfolding write_doc_def by (intro stays_intros)
  have u: "stays X (insert_upsert X W oid c n filt)" for n
    unfolding insert_upsert_def upsert_id_def by (auto intro!: stays_intros)
  have "stays X (update_target X R W c upd d)" for d
    unfolding update_target_def by (auto intro!: stays_intros w simp: Let_def)
  then show "stays X (update_one X R W oid c filt upd ups)" "stays X (update_many X R W oid c filt upd ups)"
    unfolding update_one_def update_many_def update_docs_def by (auto intro!: stays_intros u simp: Let_def)
  show "stays X (replace_one X R W oid c filt d ups)"
    unfolding replace_one_def by (auto intro!: stays_intros u w simp: Let_def split: list.split)
  have d: "stays X (delete_found X W c d)" for d
    unfolding delete_found_def by (auto intro!: stays_intros split: option.split)
  then show "stays X (delete_one X R W c filt)" "stays X (delete_many X R W c filt)"
    unfolding delete_one_def delete_many_def by (auto intro!: stays_intros split: list.split)
qed

lemma stays_mongo_op:
  assumes "mongo_op C c b op = Some m"
  shows "stays (c_ext C) m"
proof -
  have a: "stays (c_ext C) (arg_doc b k)" for k unfolding arg_doc_def by (intro stays_intros)
  have u: "stays (c_ext C) (mongo_update_op C c b k f)" if "\<And>x y z. stays (c_ext C) (f x y z)" for k f
    unfolding mongo_update_op_def by (intro stays_intros a that)
  show ?thesis
    using assms unfolding mongo_op_def Let_def
    by (auto split: if_splits intro!: stays_intros a u)
qed

section \<open>What a request changes\<close>

text \<open>
  \<open>follows X sv sv'\<close>: every database open in \<open>sv\<close> is open in \<open>sv'\<close>, and its past is unchanged;
  directories and databases with names the pattern rejects are those of \<open>sv\<close>.
\<close>

definition outside_root :: "server \<Rightarrow> server \<Rightarrow> bool" where
  "outside_root sv sv' \<longleftrightarrow>
     (\<forall>name. \<not> name_valid name \<longrightarrow> map_of (sv_disk sv') name = map_of (sv_disk sv) name \<and>
        has_key name (sv_open sv') = has_key name (sv_open sv))"

definition follows :: "ext \<Rightarrow> server \<Rightarrow> server \<Rightarrow> bool" where
  "follows X sv sv' \<longleftrightarrow> outside_root sv sv' \<and>
     (\<forall>name s. map_of (sv_open sv) name = Some s \<longrightarrow>
        (\<exists>s'. map_of (sv_open sv') name = Some s' \<and> keeps X (s_db s) (s_db s')))"

definition safeS :: "ext \<Rightarrow> 'a srv \<Rightarrow> bool" where
  "safeS X m \<longleftrightarrow> (\<forall>sv. follows X sv (snd (m sv)))"

named_theorems safe_intros \<open>server steps that keep the past of the databases\<close>

lemma follows_refl: "follows X sv sv"
  by (simp add: follows_def outside_root_def keeps_refl)

lemma follows_trans: "follows X a b \<Longrightarrow> follows X b c \<Longrightarrow> follows X a c"
  unfolding follows_def
proof (elim conjE, intro conjI allI impI)
  assume "outside_root a b" "outside_root b c"
  then show "outside_root a c" by (simp add: outside_root_def)
next
  fix name s
  assume 1: "\<forall>name s. map_of (sv_open a) name = Some s \<longrightarrow>
      (\<exists>s'. map_of (sv_open b) name = Some s' \<and> keeps X (s_db s) (s_db s'))"
    and 2: "\<forall>name s. map_of (sv_open b) name = Some s \<longrightarrow>
      (\<exists>s'. map_of (sv_open c) name = Some s' \<and> keeps X (s_db s) (s_db s'))"
    and 3: "map_of (sv_open a) name = Some s"
  from 1[rule_format, OF 3] obtain s1 where b: "map_of (sv_open b) name = Some s1" "keeps X (s_db s) (s_db s1)"
    by blast
  from 2[rule_format, OF b(1)] obtain s2 where "map_of (sv_open c) name = Some s2" "keeps X (s_db s1) (s_db s2)"
    by blast
  with b(2) show "\<exists>s'. map_of (sv_open c) name = Some s' \<and> keeps X (s_db s) (s_db s')"
    by (blast intro: keeps_trans)
qed

lemma safeS_basic [safe_intros]:
  "safeS X (retS x)" "safeS X (httpS st msg)" "safeS X (liftS r)" "safeS X (getS f)" "safeS X (read_db name g)"
  by (simp_all add: safeS_def retS_def httpS_def liftS_def getS_def read_db_def follows_refl split: option.split)

lemma safeS_bind [safe_intros]:
  assumes "safeS X m" "\<And>a. safeS X (f a)"
  shows "safeS X (bindS m f)"
  unfolding safeS_def
proof
  fix sv
  obtain r sv1 where m: "m sv = (r, sv1)" by (cases "m sv")
  have 1: "follows X sv sv1" using assms(1) m by (auto simp: safeS_def dest: spec[of _ sv])
  show "follows X sv (snd (bindS m f sv))"
  proof (cases r)
    case (Inr a)
    have "follows X sv1 (snd (f a sv1))" using assms(2)[of a] by (auto simp: safeS_def)
    with 1 m Inr show ?thesis by (auto simp: bindS_def intro: follows_trans)
  qed (use 1 m in \<open>simp add: bindS_def\<close>)
qed

lemma safeS_for [safe_intros]: "(\<And>x. safeS X (f x)) \<Longrightarrow> safeS X (forS f xs)"
  by (induction xs) (auto intro: safe_intros)

lemma run_committer_keeps: "keeps X (s_db s) (s_db (run_committer X n s))"
  by (induction n arbitrary: s)
    (auto simp: keeps_refl split: option.split intro: keeps_trans committer_keeps)

lemma seq_call_keeps: "keeps X (s_db s) (s_db (snd (seq_call X i s)))"
proof (cases "submit_check (length (s_done s)) i s")
  case (Inr s1)
  then have "s_db s1 = s_db s"
    by (auto simp: submit_check_def split: if_splits)
  then have d: "s_db (submit_put (length (s_done s), i) s1) = s_db s" by (simp add: submit_put_def)
  show ?thesis
    using Inr run_committer_keeps[of X "submit_put (length (s_done s), i) s1" 5, unfolded d]
    by (simp add: seq_call_def Let_def split: option.split)
qed (simp add: seq_call_def keeps_refl)

lemma follows_update:
  assumes "map_of (sv_open sv) name = Some s" "keeps X (s_db s) (s_db s')"
    "sv_open sv' = dset name s' (sv_open sv)" "sv_disk sv' = sv_disk sv"
  shows "follows X sv sv'"
  using assms map_of_SomeD[OF assms(1)]
  by (auto simp: follows_def outside_root_def map_of_dset has_key_iff keeps_refl intro: rev_image_eqI)

lemma safeS_write [safe_intros]: "safeS (c_ext C) (write_db C name f)"
  unfolding safeS_def
proof
  fix sv
  show "follows (c_ext C) sv (snd (write_db C name f sv))"
  proof (cases "map_of (sv_open sv) name")
    case (Some s)
    with follows_update[OF Some, of "c_ext C"] seq_call_keeps[of "c_ext C" s "f (c_env C (sv_n sv))"] show ?thesis
      by (simp add: write_db_def split: prod.split)
  qed (simp add: write_db_def follows_refl)
qed

lemma safeS_raw [safe_intros]:
  assumes "stays X m"
  shows "safeS X (raw_db name m)"
  unfolding safeS_def
proof
  fix sv
  show "follows X sv (snd (raw_db name m sv))"
  proof (cases "map_of (sv_open sv) name")
    case (Some s)
    have "keeps X (s_db s) (snd (snd (m (sv_n sv, s_db s))))"
      using assms by (auto simp: stays_def dest: spec[of _ "(sv_n sv, s_db s)"])
    then show ?thesis
      using follows_update[OF Some, of X "s\<lparr> s_db := snd (snd (m (sv_n sv, s_db s))) \<rparr>"] Some
      by (cases "m (sv_n sv, s_db s)") (simp add: raw_db_def split: prod.split)
  qed (simp add: raw_db_def follows_refl)
qed

text \<open>Opening adds a database under a valid name that was not open.\<close>

lemma open_name_follows: "follows X sv (snd (open_name C name sv))"
proof (cases "name_valid name \<and> \<not> has_key name (sv_open sv)")
  case True
  have "follows X sv (snd (open_dir C name sv))"
    using True unfolding open_dir_def
    by (auto simp: Let_def follows_def outside_root_def map_of_dset has_key_iff keeps_refl
        split: prod.split sum.split dest: map_of_SomeD intro: rev_image_eqI)
  with True show ?thesis by (simp add: open_name_def bindS_def valid_def retS_def getS_def)
qed (auto simp: open_name_def bindS_def valid_def retS_def httpS_def getS_def follows_refl)

lemma safeS_open [safe_intros]: "safeS X (open_name C name)"
  by (simp add: safeS_def open_name_follows)

lemma safeS_require [safe_intros]: "safeS X (require C name)"
  unfolding require_def valid_def by (auto intro!: safe_intros)

lemma safeS_parts [safe_intros]:
  "safeS X (body_doc q)" "safeS X (answer st d)" "safeS X (head_of name)"
  "safeS X (summary C name)" "safeS (c_ext C) (put_plain C name coll i d)"
  "safeS (c_ext C) (link_plain C name f r t)" "safeS (c_ext C) (delete_plain C name coll i)"
  "safeS X (item d k)" "safeS X (item_text C d k)" "safeS X (batch_done name k extra)"
  unfolding body_doc_def body_def answer_def head_of_def summary_def put_plain_def link_plain_def
    delete_plain_def item_def item_text_def batch_done_def
  by (auto intro!: safe_intros split: sum.split)

lemma catch_snd: "snd (replay_409 C m sv) = snd (m sv)" "snd (mongo_400 C m sv) = snd (m sv)"
  by (auto simp: replay_409_def mongo_400_def split: prod.split sum.split herr.split exn.split)

lemma safeS_catch [safe_intros]:
  "safeS X m \<Longrightarrow> safeS X (replay_409 C m)" "safeS X m \<Longrightarrow> safeS X (mongo_400 C m)"
  by (simp_all add: safeS_def catch_snd)

lemma safeS_create [safe_intros]: "safeS (c_ext C) (create C name ini)"
proof -
  have i: "safeS (c_ext C) (create_indexes C name specs)" for specs
    unfolding create_indexes_def by (auto intro!: safe_intros split: prod.split)
  have s: "safeS (c_ext C) (seed_coll C name cd)" for cd
    unfolding seed_coll_def by (auto intro!: safe_intros split: prod.split)
  have l: "safeS (c_ext C) (create_link C name v)" for v
    unfolding create_link_def by (auto intro!: safe_intros split: prod.split)
  show ?thesis unfolding create_def valid_def by (auto intro!: safe_intros i s l simp: Let_def)
qed

lemma safeS_summaries [safe_intros]: "safeS X (summaries C ns)"
  by (induction ns) (auto intro: safe_intros)

lemma safeS_routes [safe_intros]:
  "safeS X (health C)" "safeS X (list_route C)" "safeS (c_ext C) (create_route C q)" "safeS X (detail C name)"
  "safeS X (query_route C name q)" "safeS (c_ext C) (put_route C name q)" "safeS (c_ext C) (index_route C name q)"
  "safeS (c_ext C) (link_route C name q)" "safeS X (neighbors_route C name q)" "safeS X (verify_route C name)"
  "safeS (c_ext C) (checkpoint_route C name)" "safeS X (log_route name q)" "safeS X (proof_route C name q)"
  "safeS (c_ext C) (files_post C name q)" "safeS X (files_get C ps q)" "safeS (c_ext C) (rows_delete C name coll i)"
  unfolding health_def list_route_def create_route_def detail_def query_route_def put_route_def index_route_def
    link_route_def neighbors_route_def verify_route_def checkpoint_route_def log_route_def proof_route_def
    files_post_def files_get_def rows_delete_def
  by (auto intro!: safe_intros simp: Let_def split: sum.split prod.split option.split pyval.split bool.split)

lemma safeS_mongo [safe_intros]: "safeS (c_ext C) (mongo_route C name q)"
  unfolding mongo_route_def Let_def
  by (auto intro!: safe_intros stays_mongo_op split: option.split)

lemma safeS_batch [safe_intros]: "safeS (c_ext C) (batch_route C name q)"
proof -
  have o: "safeS (c_ext C) (batch_op C name v)" for v
    unfolding batch_op_def Let_def by (auto intro!: safe_intros)
  have "safeS (c_ext C) (batch_ops C name vs)" for vs
    by (induction vs) (auto intro!: safe_intros o)
  then show ?thesis
    unfolding batch_route_def
    by (auto intro!: safe_intros simp del: batch_ops.simps split: pyval.split list.split)
qed

lemma safeS_db_route [safe_intros]: "safeS (c_ext C) (db_route C name action q)"
  unfolding db_route_def Let_def by (auto intro!: safe_intros)

section \<open>The handler\<close>

definition drops :: "request \<Rightarrow> string \<Rightarrow> bool" where
  \<comment> \<open>a request to drop the database\<close>
  "drops q name \<longleftrightarrow> rq_method q = ''DELETE'' \<and> parts_of q = [''v1'', ''databases'', name]"

lemma parts_three: "length ps = 3 \<Longrightarrow> take 2 ps = [a, b] \<Longrightarrow> ps = [a, b, ps ! 2]"
  by (cases ps; cases "tl ps"; cases "tl (tl ps)") auto

lemma dispatch_follows:
  assumes "\<And>name. \<not> drops q name"
  shows "follows (c_ext C) sv (snd (dispatch C q sv))"
proof -
  have n: "\<not> (length (parts_of q) = 3 \<and> take 2 (parts_of q) = [''v1'', ''databases''] \<and> rq_method q = ''DELETE'')"
    using assms parts_three[of "parts_of q"] by (auto simp: drops_def)
  have "safeS (c_ext C) (dispatch C q)"
    unfolding dispatch_def Let_def auth_def using n
    by (auto intro!: safe_intros)
  then show ?thesis by (simp add: safeS_def)
qed

lemma drop_dispatch:
  assumes "drops q name"
  shows "dispatch C q sv = bindS (auth C q) (\<lambda>_. bindS (drop_db C name) (\<lambda>b. answer 200 [(''dropped'', PBool b)])) sv"
  using assms by (simp add: drops_def dispatch_def)

lemma has_key_map: "has_key k d \<longleftrightarrow> map_of d k \<noteq> None"
  by (simp add: has_key_iff map_of_eq_None_iff)

lemma map_of_drop_name: "map_of (drop_name n fst kvs) k = (if k = n then None else map_of kvs k)"
  by (induction kvs) (auto simp: drop_name_def)

lemma drop_db_frame:
  assumes "k \<noteq> name"
  shows "map_of (sv_open (snd (drop_db C name sv))) k = map_of (sv_open sv) k"
    "map_of (sv_disk (snd (drop_db C name sv))) k = map_of (sv_disk sv) k"
  using assms
  by (auto simp: drop_db_def bindS_def valid_def retS_def httpS_def map_of_drop_name)

lemma drop_db_keys:
  "k \<noteq> name \<Longrightarrow> has_key k (sv_open (snd (drop_db C name sv))) = has_key k (sv_open sv)"
  by (metis has_key_map drop_db_frame(1))

lemma drop_invalid: "\<not> name_valid name \<Longrightarrow> snd (drop_db C name sv) = sv"
  by (simp add: drop_db_def bindS_def valid_def httpS_def)

lemma auth_snd: "snd (auth C q sv) = sv"
  by (simp add: auth_def retS_def httpS_def)

lemma dispatch_drop_snd:
  assumes "drops q name"
  shows "snd (dispatch C q sv) = sv \<or> snd (dispatch C q sv) = snd (drop_db C name sv)"
  using auth_snd[of C q sv]
  by (auto simp: drop_dispatch[OF assms] bindS_def answer_def retS_def split: prod.split sum.split)

lemma handle_snd: "snd (handle C q sv) = snd (dispatch C q sv)"
  by (simp add: handle_def split: prod.split sum.split herr.split)

lemma handle_keeps:
  assumes "map_of (sv_open sv) name = Some s" "\<not> drops q name"
  shows "\<exists>s'. map_of (sv_open (snd (handle C q sv))) name = Some s' \<and> keeps (c_ext C) (s_db s) (s_db s')"
proof (cases "\<exists>n. drops q n")
  case False
  with dispatch_follows[of q C sv] assms(1) show ?thesis by (auto simp: handle_snd follows_def)
next
  case True
  then obtain n where n: "drops q n" by blast
  with assms(2) have "name \<noteq> n" by auto
  with dispatch_drop_snd[OF n, of C sv] drop_db_frame(1)[of name n C sv] assms(1) show ?thesis
    by (auto simp: handle_snd keeps_refl)
qed

lemma handle_outside: "outside_root sv (snd (handle C q sv))"
proof (cases "\<exists>n. drops q n")
  case False
  with dispatch_follows[of q C sv] show ?thesis by (auto simp: handle_snd follows_def)
next
  case True
  then obtain n where n: "drops q n" by blast
  show ?thesis
  proof (cases "name_valid n")
    case True
    then have "name \<noteq> n" if "\<not> name_valid name" for name using that by auto
    with dispatch_drop_snd[OF n, of C sv] drop_db_frame[of _ n C sv] drop_db_keys[of _ n C sv] show ?thesis
      by (auto simp: handle_snd outside_root_def simp del: has_key_iff)
  next
    case False
    with dispatch_drop_snd[OF n, of C sv] drop_invalid[of n C sv] show ?thesis
      by (simp add: handle_snd outside_root_def)
  qed
qed

lemma handle_unauthorized:
  assumes "c_token C \<noteq> []" "rq_auth q \<noteq> ''Bearer '' @ c_token C" "take 1 (parts_of q) = [''v1'']"
  shows "handle C q sv = (Answer 401 [(''error'', PStr ''missing or invalid bearer token'')], sv)"
proof -
  have "parts_of q \<noteq> []" "parts_of q \<noteq> [''health'']" using assms(3) by auto
  with assms show ?thesis by (simp add: handle_def dispatch_def Let_def bindS_def auth_def httpS_def)
qed

end
