(* ===== verification/Served.thy ===== *)
theory Served
  imports ServerInv
begin

text \<open>
  A database between requests: nothing is queued, and the committer waits.  A call then gives
  what the engine gives, followed by a flush.
\<close>

definition ready :: "seqr \<Rightarrow> bool" where
  "ready s \<longleftrightarrow> s_q s = [] \<and> \<not> s_closed s \<and> s_checked s = [] \<and> 0 < s_max s \<and>
     map fst (s_done s) = [0..<length (s_done s)] \<and>
     (s_pc s = Starting \<or> s_pc s = Waiting \<and> e_defer (s_db s))"

definition deferring :: "engine \<Rightarrow> engine" where
  "deferring e = e\<lparr> e_defer := True \<rparr>"

lemma deferring_fields [simp]:
  "e_log (deferring e) = e_log e" "e_mat (deferring e) = e_mat e" "store_of (deferring e) = store_of e"
  "e_blobs (deferring e) = e_blobs e" "e_disk (deferring e) = e_disk e" "e_buf (deferring e) = e_buf e"
  "e_open (deferring e) = e_open e" "e_dek (deferring e) = e_dek e" "e_defer (deferring e)"
  "eng_seq (deferring e) = eng_seq e" "e_path (deferring e) = e_path e"
  by (simp_all add: deferring_def store_of_def eng_seq_def)

lemma seq_new_ready: "0 < mx \<Longrightarrow> ready (seq_new mx db)"
  by (simp add: ready_def seq_new_def)

lemma map_of_fresh: "map fst xs = [0..<n] \<Longrightarrow> map_of (xs @ [(n, r)]) n = Some r"
proof -
  assume "map fst xs = [0..<n]"
  then have "n \<notin> fst ` set xs" by (metis list.set_map atLeastLessThan_iff less_irrefl set_upt)
  then show ?thesis by (simp add: map_add_def map_of_eq_None_iff[THEN iffD2])
qed

text \<open>The five actions of the committer that serve one intent.\<close>

lemma run_committer_call:
  assumes "ready s" "apply_one X i (deferring (s_db s)) = (r, e)"
  shows "run_committer X 5 (s\<lparr> s_q := [Intent t i] \<rparr>) =
    s\<lparr> s_db := eng_flush e, s_committed := eng_seq (eng_flush e), s_done := s_done s @ [(t, r)],
       s_pc := Waiting \<rparr>"
proof -
  have five: "run_committer X 5 s = run_committer X (Suc (Suc (Suc (Suc (Suc 0))))) s" for s
    by (simp add: eval_nat_numeral)
  consider "s_pc s = Starting" | "s_pc s = Waiting" "e_defer (s_db s)" using assms(1) by (auto simp: ready_def)
  then show ?thesis
  proof cases
    case 1
    then show ?thesis
      unfolding five using assms
      by (cases s) (simp add: ready_def committer_def fill_batch_def apply_next_def publish_def deferring_def)
  next
    case 2
    then have "deferring (s_db s) = s_db s" by (simp add: deferring_def)
    with 2 show ?thesis
      unfolding five using assms
      by (cases s) (simp add: ready_def committer_def fill_batch_def apply_next_def publish_def)
  qed
qed

lemma seq_call_ready:
  assumes s: "ready s" and a: "apply_one X i (deferring (s_db s)) = (r, e)"
  shows "\<exists>s'. seq_call X i s = (r, s') \<and> s_db s' = eng_flush e \<and> s_committed s' = eng_seq e \<and> ready s'"
proof -
  let ?t = "length (s_done s)"
  let ?s = "s\<lparr> s_db := eng_flush e, s_committed := eng_seq (eng_flush e), s_done := s_done s @ [(?t, r)],
       s_pc := Waiting \<rparr>"
  have c: "submit_check ?t i s = Inr (s\<lparr> s_checked := [(?t, i)] \<rparr>)"
    using s by (simp add: submit_check_def ready_def)
  have p: "submit_put (?t, i) (s\<lparr> s_checked := [(?t, i)] \<rparr>) = s\<lparr> s_q := [Intent ?t i] \<rparr>"
    using s by (cases s) (simp add: submit_put_def ready_def)
  have d: "submitted ?t ?s = Some r"
    using s map_of_fresh[of "s_done s" ?t r] by (simp add: submitted_def ready_def)
  have "e_defer e" using batchedD(1)[OF batched_one, of "deferring (s_db s)" X i] a by simp
  then have "ready ?s" using s by (simp add: ready_def)
  moreover have "seq_call X i s = (r, ?s)"
    unfolding seq_call_def Let_def c sum.case p run_committer_call[OF s a] d by simp
  moreover have "eng_seq (eng_flush e) = eng_seq e" by (simp add: eng_seq_def eng_flush_def)
  ultimately show ?thesis by (intro exI[of _ ?s]) simp
qed

text \<open>A sound engine stays sound when it starts to defer its flushes.\<close>

lemma engine_ok_deferring: "engine_ok X e \<Longrightarrow> engine_ok X (deferring e)"
  by (auto simp: engine_ok_def disk_ok_def)

lemma store_flush [simp]: "store_of (eng_flush e) = store_of e"
  by (simp add: store_of_def eng_flush_def)

end
