(* ===== verification/HttpClient.thy ===== *)
theory HttpClient
  imports Server
begin

text \<open>
  \<open>NedbClient\<close> of \<open>nedb_client.client\<close>: every method is one HTTP request or two, here to the
  handler of the theory \<open>Server\<close>.  The HTTP library is a parameter: how it writes a JSON body and
  how it encodes a URL path.
\<close>

datatype cerr = NedbError int string

record client =
  cl_conf :: config \<comment> \<open>of the server at the base URL\<close>
  cl_db :: string
  cl_token :: string
  cl_auto :: bool
  cl_json :: "doc \<Rightarrow> string" \<comment> \<open>the body the library sends for \<open>json=payload\<close>\<close>
  cl_quote :: "string \<Rightarrow> string" \<comment> \<open>the path the library sends for a path of the program\<close>

type_synonym 'a cli = "server \<Rightarrow> (cerr + 'a) \<times> server"

definition retH :: "'a \<Rightarrow> 'a cli" where
  "retH x sv = (Inr x, sv)"

definition bindH :: "'a cli \<Rightarrow> ('a \<Rightarrow> 'b cli) \<Rightarrow> 'b cli" where
  "bindH m f sv = (case m sv of (Inl x, sv') \<Rightarrow> (Inl x, sv') | (Inr a, sv') \<Rightarrow> f a sv')"

section \<open>Requests\<close>

definition send :: "client \<Rightarrow> string \<Rightarrow> string \<Rightarrow> (string, string list) dict \<Rightarrow> doc option \<Rightarrow> response cli" where
  "send K meth path qry payload sv =
     (case handle (cl_conf K)
        \<lparr> rq_method = meth, rq_path = cl_quote K path, rq_query = qry,
          rq_auth = (if cl_token K = [] then [] else ''Bearer '' @ cl_token K),
          rq_body = (case payload of None \<Rightarrow> [] | Some d \<Rightarrow> cl_json K d) \<rparr> sv of
        (r, sv') \<Rightarrow> (Inr r, sv'))"

definition status :: "response \<Rightarrow> int" where
  "status r = (case r of Answer n _ \<Rightarrow> n | Failure _ \<Rightarrow> 500)"

definition is_success :: "response \<Rightarrow> bool" where
  "is_success r \<longleftrightarrow> 200 \<le> status r \<and> status r < 300"

definition raise_for :: "client \<Rightarrow> response \<Rightarrow> 'a cli" where
  \<comment> \<open>\<open>_raise\<close>: \<open>body.get("error", resp.text)\<close>\<close>
  "raise_for K r sv =
     (Inl (case r of
        Answer n d \<Rightarrow>
          NedbError n (py_str (c_ext (cl_conf K)) (dget d ''error'' (PStr (cl_json K d))))
      | Failure x \<Rightarrow> NedbError 500 (c_message (cl_conf K) x)), sv)"

definition json :: "response \<Rightarrow> doc" where
  \<comment> \<open>\<open>resp.json()\<close> of a success\<close>
  "json r = (case r of Answer _ d \<Rightarrow> d | Failure _ \<Rightarrow> [])"

definition checked :: "client \<Rightarrow> response \<Rightarrow> doc cli" where
  \<comment> \<open>\<open>if not resp.is_success: await self._raise(resp)\<close>; \<open>resp.json()\<close>\<close>
  "checked K r = (if is_success r then retH (json r) else raise_for K r)"

definition db_path :: "client \<Rightarrow> string \<Rightarrow> string" where
  "db_path K suffix = ''/v1/databases/'' @ cl_db K @ suffix"

definition post_db :: "client \<Rightarrow> string \<Rightarrow> doc option \<Rightarrow> response cli" where
  "post_db K suffix payload = send K ''POST'' (db_path K suffix) [] payload"

definition get_db :: "client \<Rightarrow> string \<Rightarrow> response cli" where
  "get_db K suffix = send K ''GET'' (db_path K suffix) [] None"

definition create_request :: "client \<Rightarrow> response cli" where
  "create_request K = send K ''POST'' ''/v1/databases'' [] (Some [(''name'', PStr (cl_db K))])"

definition query_raw :: "client \<Rightarrow> string \<Rightarrow> doc cli" where
  "query_raw K nql =
     bindH (post_db K ''/query'' (Some [(''nql'', PStr nql)])) (\<lambda>r.
       if status r = 400 \<or> status r = 404 then
         retH [(''rows'', PList []), (''count'', PInt 0), (''seq'', PInt 0), (''head'', PStr [])]
       else checked K r)"

text \<open>A write; on 404 the database is created and the request repeated once.\<close>

definition post_create :: "client \<Rightarrow> string \<Rightarrow> doc \<Rightarrow> doc cli" where
  "post_create K suffix payload =
     bindH (post_db K suffix (Some payload)) (\<lambda>r.
       bindH (if status r = 404 \<and> cl_auto K then
                bindH (create_request K) (\<lambda>cr.
                  if \<not> is_success cr \<and> status cr \<noteq> 409 then raise_for K cr
                  else post_db K suffix (Some payload))
              else retH r) (checked K))"

definition put_raw :: "client \<Rightarrow> doc \<Rightarrow> doc cli" where
  "put_raw K payload = post_create K ''/put'' payload"

section \<open>Methods\<close>

definition given :: "string \<Rightarrow> ('a \<Rightarrow> pyval) \<Rightarrow> 'a option \<Rightarrow> doc" where
  \<comment> \<open>\<open>if v is not None: payload[k] = v\<close>\<close>
  "given k f x = (case x of None \<Rightarrow> [] | Some v \<Rightarrow> [(k, f v)])"

record put_options =
  po_caused :: "pyval list option"
  po_from :: "string option"
  po_to :: "string option"
  po_evidence :: "string option"
  po_conf :: "rat option"
  po_idem :: "string option"
  po_nonce :: "int option"
  po_client :: "string option"

definition no_options :: put_options where
  "no_options = \<lparr> po_caused = None, po_from = None, po_to = None, po_evidence = None, po_conf = None,
     po_idem = None, po_nonce = None, po_client = None \<rparr>"

definition client_payload :: "string \<Rightarrow> string \<Rightarrow> doc \<Rightarrow> put_options \<Rightarrow> doc" where
  "client_payload coll i d po =
     [(''coll'', PStr coll), (''id'', PStr i), (''doc'', PDict d)] @
     given ''caused_by'' PList (po_caused po) @ given ''valid_from'' PStr (po_from po) @
     given ''valid_to'' PStr (po_to po) @ given ''evidence'' PStr (po_evidence po) @
     given ''confidence'' PFloat (po_conf po) @ given ''idem'' PStr (po_idem po) @
     given ''nonce'' PInt (po_nonce po) @ given ''client'' PStr (po_client po)"

definition client_put :: "client \<Rightarrow> string \<Rightarrow> string \<Rightarrow> doc \<Rightarrow> put_options \<Rightarrow> doc cli" where
  "client_put K coll i d po = put_raw K (client_payload coll i d po)"

definition rows_in :: "doc \<Rightarrow> pyval list" where
  \<comment> \<open>\<open>result.get("rows", [])\<close>\<close>
  "rows_in d = (case dget d ''rows'' (PList []) of PList vs \<Rightarrow> vs | _ \<Rightarrow> [])"

definition get_text :: "string \<Rightarrow> string \<Rightarrow> string" where
  "get_text coll i = ''FROM '' @ coll @ '' WHERE _id = '' @ [CHR 0x22] @ i @ [CHR 0x22] @ '' LIMIT 1''"

definition client_get :: "client \<Rightarrow> string \<Rightarrow> string \<Rightarrow> pyval option cli" where
  "client_get K coll i =
     bindH (query_raw K (get_text coll i)) (\<lambda>d.
       retH (case rows_in d of [] \<Rightarrow> None | v # _ \<Rightarrow> Some v))"

definition truth_in :: "doc \<Rightarrow> string \<Rightarrow> bool" where
  \<comment> \<open>\<open>resp.json().get(k, False)\<close>\<close>
  "truth_in d k = py_truth (dget d k (PBool False))"

definition client_delete :: "client \<Rightarrow> string \<Rightarrow> string \<Rightarrow> bool cli" where
  "client_delete K coll i =
     bindH (send K ''DELETE'' (db_path K (''/rows/'' @ coll @ ''/'' @ i)) [] None) (\<lambda>r.
       if status r = 404 then retH False
       else bindH (checked K r) (\<lambda>d. retH (truth_in d ''ok'')))"

definition client_query :: "client \<Rightarrow> string \<Rightarrow> pyval list cli" where
  "client_query K nql = bindH (query_raw K nql) (\<lambda>d. retH (rows_in d))"

definition query_full :: "client \<Rightarrow> string \<Rightarrow> doc cli" where
  "query_full K nql = query_raw K nql"

definition client_batch :: "client \<Rightarrow> doc list \<Rightarrow> pyval list cli" where
  "client_batch K ops =
     bindH (post_create K ''/batch'' [(''ops'', PList (map PDict ops))]) (\<lambda>d.
       retH (case dget d ''results'' (PList []) of PList vs \<Rightarrow> vs | _ \<Rightarrow> []))"

definition client_create_index :: "client \<Rightarrow> string \<Rightarrow> string \<Rightarrow> string option \<Rightarrow> doc cli" where
  \<comment> \<open>\<open>kind: str = "sorted"\<close>\<close>
  "client_create_index K coll field kind =
     bindH (post_db K ''/index'' (Some [(''coll'', PStr coll), (''field'', PStr field),
       (''kind'', PStr (case kind of None \<Rightarrow> ''sorted'' | Some k \<Rightarrow> k))])) (checked K)"

definition client_verify :: "client \<Rightarrow> doc cli" where
  "client_verify K = bindH (get_db K ''/verify'') (checked K)"

definition client_head :: "client \<Rightarrow> pyval cli" where
  "client_head K = bindH (bindH (get_db K []) (checked K)) (\<lambda>d. retH (dget d ''head'' (PStr [])))"

definition client_seq :: "client \<Rightarrow> pyval cli" where
  "client_seq K = bindH (bindH (get_db K []) (checked K)) (\<lambda>d. retH (dget d ''seq'' (PInt 0)))"

definition client_checkpoint :: "client \<Rightarrow> doc cli" where
  "client_checkpoint K = bindH (post_db K ''/checkpoint'' None) (checked K)"

definition client_log :: "client \<Rightarrow> int \<Rightarrow> pyval cli" where
  "client_log K limit =
     bindH (bindH (send K ''GET'' (db_path K ''/log'') [(''limit'', [show_int limit])] None) (checked K))
       (\<lambda>d. retH (dget d ''log'' (PList [])))"

definition client_health :: "client \<Rightarrow> doc cli" where
  "client_health K = bindH (send K ''GET'' ''/health'' [] None) (checked K)"

definition client_ping :: "client \<Rightarrow> bool cli" where
  "client_ping K sv =
     (case client_health K sv of
        (Inl _, sv') \<Rightarrow> (Inr False, sv')
      | (Inr d, sv') \<Rightarrow> (Inr (truth_in d ''ok''), sv'))"

definition list_databases :: "client \<Rightarrow> pyval list cli" where
  "list_databases K =
     bindH (bindH (send K ''GET'' ''/v1/databases'' [] None) (checked K)) (\<lambda>d.
       retH (case dget d ''databases'' (PList []) of
         PList vs \<Rightarrow> map (\<lambda>v. case v of PDict e \<Rightarrow> doc_get e ''name'' | _ \<Rightarrow> PNone) vs | _ \<Rightarrow> []))"

definition create_database :: "client \<Rightarrow> doc cli" where
  "create_database K =
     bindH (create_request K) (\<lambda>r.
       if status r = 409 then retH [(''database'', PDict [(''name'', PStr (cl_db K))])] else checked K r)"

definition drop_database :: "client \<Rightarrow> bool cli" where
  "drop_database K =
     bindH (bindH (send K ''DELETE'' (db_path K []) [] None) (checked K)) (\<lambda>d. retH (truth_in d ''dropped''))"

end
