(* ===== verification/ClientInv.thy ===== *)
theory ClientInv
  imports Served HttpClient Collections
begin

text \<open>
  The client, the handler, the sequencer and the engine together: what \<open>NedbClient\<close> wrote, it
  reads.
\<close>

section \<open>The wire\<close>

text \<open>
  The HTTP library writes a JSON text that reads back as the payload, and leaves a path of
  unreserved characters as it is.
\<close>

definition url_char :: "char \<Rightarrow> bool" where
  "url_char c \<longleftrightarrow> alnum c \<or> c = CHR ''-'' \<or> c = CHR ''_'' \<or> c = CHR ''/''"

definition wire_ok :: "client \<Rightarrow> bool" where
  "wire_ok K \<longleftrightarrow>
     (\<forall>d. pv_ok (PDict d) \<longrightarrow> cl_json K d \<noteq> [] \<and> loads (cl_json K d) = Inr (PDict d)) \<and>
     (\<forall>p. list_all url_char p \<longrightarrow> cl_quote K p = p)"

definition token_ok :: "client \<Rightarrow> bool" where
  "token_ok K \<longleftrightarrow> c_token (cl_conf K) = [] \<or> cl_token K = c_token (cl_conf K)"

lemma wire_json: "wire_ok K \<Longrightarrow> pv_ok (PDict d) \<Longrightarrow> cl_json K d \<noteq> [] \<and> loads (cl_json K d) = Inr (PDict d)"
  by (auto simp: wire_ok_def simp del: pv_ok.simps)

lemma split_on_Cons: "split_on c (x # s) = (if x = c then [] # split_on c s else (x # hd (split_on c s)) # tl (split_on c s))"
  by (simp add: split_on_def)

lemma split_on_not_Nil: "split_on c s \<noteq> []"
  by (cases s) (simp_all add: split_on_def)

lemma split_on_part: "c \<notin> set xs \<Longrightarrow> split_on c (xs @ c # ys) = xs # split_on c ys"
  by (induction xs) (auto simp: split_on_Cons)

lemma split_on_last: "c \<notin> set xs \<Longrightarrow> split_on c xs = [xs]"
  by (induction xs) (auto simp: split_on_Cons split_on_def)

lemma name_valid_chars:
  assumes "name_valid n"
  shows "list_all url_char n" "CHR ''/'' \<notin> set n" "n \<noteq> []"
proof -
  from assms obtain c cs where n: "n = c # cs" "alnum c" "list_all (\<lambda>c. alnum c \<or> c = CHR ''_'' \<or> c = CHR ''-'') cs"
    by (cases n) (auto simp: name_valid_def)
  have s: "\<not> alnum (CHR ''/'')" by code_simp
  show "list_all url_char n" using n by (auto simp: url_char_def list_all_iff)
  show "CHR ''/'' \<notin> set n" using n s by (auto simp: list_all_iff)
  show "n \<noteq> []" using n by simp
qed

lemma db_path_parts:
  assumes "wire_ok K" "name_valid (cl_db K)" "list_all url_char a" "CHR ''/'' \<notin> set a" "a \<noteq> []"
  shows "filter (\<lambda>p. p \<noteq> []) (split_on CHR ''/'' (cl_quote K (db_path K (CHR ''/'' # a)))) =
    [''v1'', ''databases'', cl_db K, a]"
proof -
  note n = name_valid_chars[OF assms(2)]
  have "list_all url_char ''/v1/databases/''" by code_simp
  moreover have "url_char (CHR ''/'')" by code_simp
  ultimately have "cl_quote K (db_path K (CHR ''/'' # a)) = db_path K (CHR ''/'' # a)"
    using assms(1,3) n by (simp add: wire_ok_def db_path_def)
  moreover have "db_path K (CHR ''/'' # a) = CHR ''/'' # ''v1'' @ CHR ''/'' # ''databases'' @ CHR ''/'' # cl_db K @ CHR ''/'' # a"
    by (simp add: db_path_def)
  moreover have "split_on CHR ''/'' (CHR ''/'' # ''v1'' @ CHR ''/'' # ''databases'' @ CHR ''/'' # cl_db K @ CHR ''/'' # a) =
      [] # ''v1'' # ''databases'' # cl_db K # [a]"
    using split_on_part[OF n(2)] split_on_last[OF assms(4)] by (simp add: split_on_Cons)
  ultimately show ?thesis using n assms(5) by simp
qed

text \<open>A request of the client to one database reaches its route with the payload.\<close>

definition request_of :: "client \<Rightarrow> string \<Rightarrow> string \<Rightarrow> doc option \<Rightarrow> request" where
  "request_of K meth a payload =
     \<lparr> rq_method = meth, rq_path = cl_quote K (db_path K (CHR ''/'' # a)), rq_query = [],
       rq_auth = (if cl_token K = [] then [] else ''Bearer '' @ cl_token K),
       rq_body = (case payload of None \<Rightarrow> [] | Some d \<Rightarrow> cl_json K d) \<rparr>"

lemma route_reached:
  assumes "wire_ok K" "token_ok K" "name_valid (cl_db K)" "list_all url_char a" "CHR ''/'' \<notin> set a" "a \<noteq> []"
  shows "dispatch (cl_conf K) (request_of K meth a payload) sv =
    db_route (cl_conf K) (cl_db K) a (request_of K meth a payload) sv"
proof -
  have p: "parts_of (request_of K meth a payload) = [''v1'', ''databases'', cl_db K, a]"
    using db_path_parts[OF assms(1,3-6)] by (simp add: parts_of_def request_of_def)
  have "auth (cl_conf K) (request_of K meth a payload) = retS ()"
    using assms(2) by (auto simp: auth_def token_ok_def request_of_def)
  then show ?thesis by (simp add: dispatch_def p Let_def bindS_def retS_def)
qed

lemma require_open:
  assumes "name_valid n" "has_key n (sv_open sv)"
  shows "require C n sv = (Inr (), sv)"
  using assms by (simp add: require_def open_name_def valid_def bindS_def getS_def retS_def db_exists_def)

lemma body_sent:
  assumes "wire_ok K" "pv_ok (PDict d)"
  shows "body_doc (request_of K meth a (Some d)) = retS d"
  using wire_json[OF assms]
  by (simp add: fun_eq_iff body_doc_def body_def request_of_def bindS_def retS_def liftS_def as_doc_def)

section \<open>The text of \<open>get\<close>\<close>

definition get_plan :: "string \<Rightarrow> string \<Rightarrow> plan" where
  "get_plan coll i = (empty_plan coll)\<lparr> q_where := [(''_id'', ''='', PStr i)], q_limit := Some 1 \<rparr>"

lemma name_lexes: "name_ok c \<Longrightarrow> lexes (c, name_to_tok c)"
proof -
  assume c: "name_ok c"
  have l: "lexeme c" "word_tok c = name_to_tok c"
    using c keyword_lexeme[of c] by (auto simp: name_ok_def name_to_tok_def word_tok_def Let_def)
  from lexeme_lexes[OF l(1)] l(2) show ?thesis by simp
qed

lemma parse_get:
  assumes c: "name_ok coll" and i: "CHR 0x22 \<notin> set i"
  shows "parse_nql (get_text coll i) = Inr (get_plan coll i)"
proof -
  let ?wts = "[(''FROM'', TKw ''from''), (coll, name_to_tok coll), (''WHERE'', TKw ''where''), (''_id'', TWord ''_id''),
    (''='', TOp ''=''), (CHR 0x22 # i @ [CHR 0x22], TStr i), (''LIMIT'', TKw ''limit'')]"
  have w: "lexeme ''FROM'' \<and> lexeme ''WHERE'' \<and> lexeme ''LIMIT'' \<and> lexeme ''_id'' \<and>
      word_tok ''FROM'' = TKw ''from'' \<and> word_tok ''WHERE'' = TKw ''where'' \<and> word_tok ''LIMIT'' = TKw ''limit'' \<and>
      word_tok ''_id'' = TWord ''_id'' \<and> name_to_tok ''_id'' = TWord ''_id'' \<and> name_ok ''_id'' \<and>
      nql_lex ''1'' = Inr [TNum (PInt 1)] \<and> \<not> is_space (CHR ''1'') \<and> ''='' \<in> set OPS"
    by code_simp
  have "lexes (tok_text (TStr i), TStr i)" "lexes (tok_text (TOp ''=''), TOp ''='')"
    by (rule lexes_text; use i w in \<open>simp add: quotable_def no_float_def\<close>)+
  then have "list_all lexes ?wts"
    using w name_lexes[OF c] lexeme_lexes[of "''FROM''"] lexeme_lexes[of "''WHERE''"] lexeme_lexes[of "''LIMIT''"]
      lexeme_lexes[of "''_id''"] i by simp
  from lex_pairs[OF _ _ this, of "''1''" "[TNum (PInt 1)]"] w
  have "nql_lex (get_text coll i) = Inr (map snd ?wts @ [TNum (PInt 1)])"
    by (simp add: get_text_def)
  moreover have "plan_toks (get_plan coll i) = map snd ?wts @ [TNum (PInt 1)]"
    using w by (simp add: plan_toks_def get_plan_def empty_plan_def where_toks_def)
  moreover have "plan_ok (get_plan coll i)"
    using c i w by (simp add: plan_ok_def get_plan_def empty_plan_def cond_ok_def quotable_def)
  ultimately show ?thesis using parse_plan_toks[of "get_plan coll i"] by (simp add: parse_nql_def)
qed

lemma strip_get: "str_strip (get_text coll i) = get_text coll i"
proof -
  have "\<not> is_space (CHR ''F'')" "\<not> is_space (CHR ''1'')" by code_simp+
  then show ?thesis by (simp add: str_strip_def get_text_def)
qed

section \<open>What a query by id finds\<close>

definition own_ids :: "string \<Rightarrow> engine \<Rightarrow> bool" where
  \<comment> \<open>every document of the collection carries the id it is stored under\<close>
  "own_ids coll e \<longleftrightarrow>
     (\<forall>j d. mv_get (store_of e) (doc_key coll j) None = Inr (Some d) \<longrightarrow> doc_get d ''_id'' = PStr j)"

lemma get_plan_rows:
  assumes e: "engine_ok X e" "iter_ok X" and c: "good_coll coll" and o: "own_ids coll e"
    and d: "mv_get (store_of e) (doc_key coll i) None = Inr (Some d)"
  shows "execute X ((get_plan coll i)\<lparr> q_as_of := Some (eng_seq e) \<rparr>) e = Inr [d]"
proof -
  let ?p = "(get_plan coll i)\<lparr> q_as_of := Some (eng_seq e) \<rparr>"
  have p: "q_from ?p = coll" "search_text ?p = None" "q_where ?p = [(''_id'', ''='', PStr i)]" "q_as_of ?p = Some (eng_seq e)"
    by (simp_all add: get_plan_def empty_plan_def search_text_def)
  have k: "keyed (q_where ?p)" by (simp add: p keyed_def)
  note m = eng_mat[OF e(1)]
  have h: "reads (store_of e) k (Some (eng_seq e)) = reads (store_of e) k None" for k
    using mv.head_now[of "store_of e" "eng_seq e" k] engine_hist_ok[OF e(1)]
    by (simp add: hist_ok_def mv_read_at_def mv_read_head_def mv_get_reads)
  obtain rs where r: "result_rows X ?p e = Inr rs" "distinct (map fst rs)" "set rs = matches ?p e"
    using result_rows_matches[OF e, of ?p] c k p by auto
  have "matches ?p e = {(doc_key coll i, d)}"
  proof -
    have "k = doc_key coll i \<and> d' = d" if "starts_with (coll @ '':'') k" "mv_get (store_of e) k None = Inr (Some d')"
      "nql_cmp (doc_get d' ''_id'') ''='' (PStr i)" for k d'
    proof -
      from that(1) obtain j where k: "k = doc_key coll j" by (auto simp: starts_with_iff doc_key_def)
      with o that(2) have "doc_get d' ''_id'' = PStr j" by (simp add: own_ids_def)
      with that(3) k have "k = doc_key coll i" by (simp add: nql_cmp_def)
      with that(2) d show ?thesis by simp
    qed
    moreover have "starts_with (coll @ '':'') (doc_key coll i)" by (simp add: doc_key_def starts_with_def)
    moreover have "nql_cmp (doc_get d ''_id'') ''='' (PStr i)" using o d by (simp add: own_ids_def nql_cmp_def)
    ultimately show ?thesis
      using d by (auto simp: matches_def p h where_ok_def mv_get_reads[OF m(1)])
  qed
  with r have "rs = [(doc_key coll i, d)]"
    by (cases rs; cases "tl rs") auto
  with r(1) show ?thesis
    by (simp add: execute_def get_plan_def empty_plan_def order_rows_def traverse_rows_def trace_rows_def
        valid_rows_def group_rows_def py_take_def)
qed

section \<open>Put, then get\<close>

lemma client_paths:
  "list_all url_char ''put'' \<and> CHR ''/'' \<notin> set ''put'' \<and> list_all url_char ''query'' \<and> CHR ''/'' \<notin> set ''query'' \<and>
   list_all url_char ''index'' \<and> CHR ''/'' \<notin> set ''index'' \<and> list_all url_char ''files'' \<and> CHR ''/'' \<notin> set ''files''"
  by code_simp

lemma put_sent:
  assumes w: "wire_ok K" "token_ok K" "name_valid (cl_db K)"
    and s: "map_of (sv_open sv) (cl_db K) = Some s" "ready s"
    and d: "pv_ok (PDict d)" "doc_get d ''caused_by'' = PNone" "coll \<noteq> []"
    and a: "eng_put (c_ext (cl_conf K)) (c_env (cl_conf K) (sv_n sv)) coll i d ''local'' None None None no_prov
      (deferring (s_db s)) = (Inr x, e)"
  shows "\<exists>s'. handle (cl_conf K) (request_of K ''POST'' ''put'' (Some (client_payload coll i d no_options))) sv =
      (Answer 200 (ok @ [(''doc'', doc_value x)] @ seq_head s'),
       sv\<lparr> sv_n := Suc (sv_n sv), sv_open := dset (cl_db K) s' (sv_open sv) \<rparr>) \<and>
    s_db s' = eng_flush e \<and> s_committed s' = eng_seq e \<and> ready s'"
proof -
  let ?C = "cl_conf K" and ?b = "client_payload coll i d no_options"
  let ?i = "IPut (c_env ?C (sv_n sv)) coll i d ''local'' None None None no_prov"
  have b: "?b = [(''coll'', PStr coll), (''id'', PStr i), (''doc'', PDict d)]"
    by (simp add: client_payload_def no_options_def given_def)
  have "pv_ok (PDict ?b)" using d(1) by (simp add: b)
  then have q: "body_doc (request_of K ''POST'' ''put'' (Some ?b)) = retS ?b" by (rule body_sent[OF w(1)])
  obtain s' where s': "seq_call (c_ext ?C) ?i s = (Inr (RDoc x), s')" "s_db s' = eng_flush e"
    "s_committed s' = eng_seq e" "ready s'"
    using seq_call_ready[OF s(2), of "c_ext ?C" ?i "Inr (RDoc x)" e] a by (auto simp: mapC_def)
  have p: "put_args_of ?b d = Inr (''local'', None, None, no_prov)"
    using d(2) by (simp add: b put_args_of_def opt_field_def put_causes_def or_default_def doc_get_def dget_def no_prov_def)
  have "has_key (cl_db K) (sv_open sv)" using map_of_SomeD[OF s(1)] by (auto intro: rev_image_eqI)
  then have r: "require ?C (cl_db K) sv = (Inr (), sv)" by (rule require_open[OF w(3)])
  have "put_route ?C (cl_db K) (request_of K ''POST'' ''put'' (Some ?b)) sv =
      (Inr (Answer 200 (ok @ [(''doc'', doc_value x)] @ seq_head s')),
       sv\<lparr> sv_n := Suc (sv_n sv), sv_open := dset (cl_db K) s' (sv_open sv) \<rparr>)"
    unfolding put_route_def q using p s(1) s'(1) d(3)
    by (simp add: b bindS_def retS_def liftS_def replay_409_def write_db_def head_of_def read_db_def answer_def
        text_field_def doc_get_def dget_def map_of_dset)
  then have "dispatch ?C (request_of K ''POST'' ''put'' (Some ?b)) sv =
      (Inr (Answer 200 (ok @ [(''doc'', doc_value x)] @ seq_head s')),
       sv\<lparr> sv_n := Suc (sv_n sv), sv_open := dset (cl_db K) s' (sv_open sv) \<rparr>)"
    using route_reached[OF w, of "''put''" "''POST''" "Some ?b" sv] client_paths r
    by (simp add: db_route_def bindS_def request_of_def)
  with s' show ?thesis by (auto simp: handle_def)
qed

lemma query_sent:
  assumes w: "wire_ok K" "token_ok K" "name_valid (cl_db K)"
    and s: "map_of (sv_open sv) (cl_db K) = Some s"
    and q: "str_strip nql = nql" "nql \<noteq> []" "seq_query (c_ext (cl_conf K)) nql s = Inr rows"
  shows "handle (cl_conf K) (request_of K ''POST'' ''query'' (Some [(''nql'', PStr nql)])) sv =
    (Answer 200 ([(''rows'', PList (map PDict rows)), (''count'', PInt (int (length rows)))] @ seq_head s), sv)"
proof -
  let ?C = "cl_conf K" and ?b = "[(''nql'', PStr nql)]"
  have b: "body_doc (request_of K ''POST'' ''query'' (Some ?b)) = retS ?b" by (rule body_sent[OF w(1)]) simp
  have "has_key (cl_db K) (sv_open sv)" using map_of_SomeD[OF s] by (auto intro: rev_image_eqI)
  then have r: "require ?C (cl_db K) sv = (Inr (), sv)" by (rule require_open[OF w(3)])
  have "query_route ?C (cl_db K) (request_of K ''POST'' ''query'' (Some ?b)) sv =
    (Inr (Answer 200 ([(''rows'', PList (map PDict rows)), (''count'', PInt (int (length rows)))] @ seq_head s)), sv)"
    unfolding query_route_def b using s q
    by (simp add: bindS_def retS_def read_db_def head_of_def answer_def dget_def Let_def)
  then have "dispatch ?C (request_of K ''POST'' ''query'' (Some ?b)) sv =
    (Inr (Answer 200 ([(''rows'', PList (map PDict rows)), (''count'', PInt (int (length rows)))] @ seq_head s)), sv)"
    using route_reached[OF w, of "''query''" "''POST''" "Some ?b" sv] client_paths r
    by (simp add: db_route_def bindS_def request_of_def)
  then show ?thesis by (simp add: handle_def)
qed

lemma send_request:
  "send K meth (db_path K (CHR ''/'' # a)) [] payload sv =
     (Inr (fst (handle (cl_conf K) (request_of K meth a payload) sv)), snd (handle (cl_conf K) (request_of K meth a payload) sv))"
  by (simp add: send_def request_of_def split: prod.split)

lemma client_get_sent:
  assumes "wire_ok K" "token_ok K" "name_valid (cl_db K)" "map_of (sv_open sv) (cl_db K) = Some s"
    "seq_query (c_ext (cl_conf K)) (get_text coll i) s = Inr rows"
  shows "client_get K coll i sv = (Inr (case rows of [] \<Rightarrow> None | d # _ \<Rightarrow> Some (PDict d)), sv)"
proof -
  have n: "get_text coll i \<noteq> []" by (simp add: get_text_def)
  show ?thesis
    using query_sent[OF assms(1-4) strip_get n assms(5)]
    by (simp add: client_get_def query_raw_def post_db_def bindH_def retH_def send_request status_def checked_def
        is_success_def json_def rows_in_def dget_def split: list.split)
qed

lemma put_seq:
  assumes p: "eng_put X V coll i d client nonce None ttl pr e = (Inr r, e')"
  shows "eng_seq e' = eng_seq e + 1"
proof -
  obtain n e1 where n: "pick_nonce client nonce e = (n, e1)" by (cases "pick_nonce client nonce e")
  with p have "commit X (v_ts V 0) (v_rand V 0) client n ''put'' (put_payload coll i (put_doc i d (v_now V) ttl pr)) None pr e1 = (Inr (), e')"
    by (auto simp: eng_put_def Let_def bindC_Inr)
  from commit_logged[OF this] pick_nonce_frame[OF n] show ?thesis by (auto simp: logged_def eng_seq_def)
qed

lemma put_then_get:
  assumes X: "ext_ok (c_ext (cl_conf K))" "iter_ok (c_ext (cl_conf K))"
    and w: "wire_ok K" "token_ok K" "name_valid (cl_db K)"
    and s: "map_of (sv_open sv) (cl_db K) = Some s" "ready s" "engine_ok (c_ext (cl_conf K)) (s_db s)"
    and V: "env_ok (c_env (cl_conf K) (sv_n sv))"
    and c: "good_coll coll" "name_ok coll" "CHR 0x22 \<notin> set i" "own_ids coll (s_db s)"
    and d: "pv_ok (PDict d)" "doc_get d ''caused_by'' = PNone" "map_of d ''_id'' = None \<or> map_of d ''_id'' = Some (PStr i)"
    and a: "eng_put (c_ext (cl_conf K)) (c_env (cl_conf K) (sv_n sv)) coll i d ''local'' None None None no_prov
      (deferring (s_db s)) = (Inr x, e)"
  shows "\<exists>sv' n d'. client_put K coll i d no_options sv =
      (Inr (ok @ [(''doc'', PDict d'), (''seq'', PInt n), (''head'', PStr (eng_head e))]), sv') \<and>
    client_get K coll i sv' = (Inr (Some (PDict d')), sv') \<and>
    doc_get d' ''_seq'' = PInt n \<and> (\<forall>f. \<not> starts_with ''_'' f \<longrightarrow> map_of d' f = map_of d f)"
proof -
  let ?X = "c_ext (cl_conf K)"
  let ?d = "stamp (eng_seq (s_db s) + 1) (put_doc i d (v_now (c_env (cl_conf K) (sv_n sv))) None no_prov)"
  have n: "coll \<noteq> []" using name_word_tok[OF c(2)] by (auto simp: lexeme_def)
  obtain s' where h: "handle (cl_conf K) (request_of K ''POST'' ''put'' (Some (client_payload coll i d no_options))) sv =
      (Answer 200 (ok @ [(''doc'', doc_value x)] @ seq_head s'),
       sv\<lparr> sv_n := Suc (sv_n sv), sv_open := dset (cl_db K) s' (sv_open sv) \<rparr>)"
    and s': "s_db s' = eng_flush e" "s_committed s' = eng_seq e" "ready s'"
    using put_sent[OF w s(1,2) d(1,2) n a] by blast
  let ?sv = "sv\<lparr> sv_n := Suc (sv_n sv), sv_open := dset (cl_db K) s' (sv_open sv) \<rparr>"
  note pe = put_effect[OF a, simplified]
  have ok: "engine_ok ?X (eng_flush e)"
    using step_ok[OF X(1) api_step.put[OF V c(1) d(1) _ a] engine_ok_deferring[OF s(3)]]
      step_ok[OF X(1) api_step.flush] by (simp add: no_prov_def prov_ok_def)
  note m = eng_mat(1)[OF engine_ok_deferring[OF s(3)]] eng_mat(1)[OF ok]
  have st: "mv_get (store_of (eng_flush e)) k None = (if k = doc_key coll i then Inr x else mv_get (store_of (s_db s)) k None)" for k
    using pe(2)[of k] m by (simp add: mv_get_reads)
  have id: "doc_get ?d ''_id'' = PStr i"
    using d(3) by (auto simp: stamp_def put_doc_def set_opt_def embed_ttl_def no_prov_def doc_get_def dget_def
        map_of_dset map_of_setdefault)
  have own: "own_ids coll (eng_flush e)"
    using c(4) id pe(1) unfolding own_ids_def st by (auto simp: doc_key_def)
  have q: "eng_seq (eng_flush e) = eng_seq e" "eng_head (eng_flush e) = eng_head e"
    by (simp_all add: eng_seq_def eng_head_def eng_flush_def)
  have "seq_query ?X (get_text coll i) s' = Inr [?d]"
    using get_plan_rows[OF ok X(2) c(1) own, of i ?d] st[of "doc_key coll i"] pe(1)
    by (simp add: seq_query_def parse_get[OF c(2,3)] pin_def get_plan_def empty_plan_def s' q)
  then have g: "client_get K coll i ?sv = (Inr (Some (PDict ?d)), ?sv)"
    using client_get_sent[OF w, of ?sv s' coll i "[?d]"] by (simp add: map_of_dset)
  have sq: "eng_seq e = eng_seq (s_db s) + 1"
    using put_seq[OF a] by simp
  have "client_put K coll i d no_options sv =
      (Inr (ok @ [(''doc'', PDict ?d), (''seq'', PInt (eng_seq e)), (''head'', PStr (eng_head e))]), ?sv)"
    using h pe(1)
    by (simp add: client_put_def put_raw_def post_create_def post_db_def bindH_def retH_def send_request status_def
        checked_def is_success_def json_def doc_value_def seq_head_def s' q)
  with g sq show ?thesis
    by (intro exI[of _ ?sv] exI[of _ "eng_seq e"] exI[of _ ?d]) (auto simp: stamp_seq map_of_stored)
qed

end
