(* ===== verification/ServedRedis.thy ===== *)
theory ServedRedis
  imports Served RedisHash
begin

text \<open>
  The Redis adapter on a database of the server, which is a sequencer: writes go through the
  committer, reads are pinned to the committed number.  Between calls the sequencer keeps a
  collection of texts as the engine does, so the commands refine the same maps.
\<close>

type_synonym sworld = "nat \<times> seqr"

definition callQ :: "ext \<Rightarrow> (nat \<Rightarrow> env) \<Rightarrow> (env \<Rightarrow> intent) \<Rightarrow> (Sequencer.reply \<Rightarrow> 'a) \<Rightarrow> (sworld, 'a) prog" where
  "callQ X W f g w =
     (case w of (n, s) \<Rightarrow> (case seq_call X (f (W n)) s of (r, s') \<Rightarrow> (map_sum id g r, (Suc n, s'))))"

definition readQ :: "(nat \<Rightarrow> seqr \<Rightarrow> 'a res) \<Rightarrow> (sworld, 'a) prog" where
  "readQ f w = (f (fst w) (snd w), w)"

definition doc_reply :: "Sequencer.reply \<Rightarrow> doc option" where
  "doc_reply r = (case r of RDoc x \<Rightarrow> x | _ \<Rightarrow> None)"

definition served_db :: "ext \<Rightarrow> (nat \<Rightarrow> env) \<Rightarrow> sworld database" where
  "served_db X W = \<lparr>
     db_put = (\<lambda>client coll i d. callQ X W (\<lambda>V. IPut V coll i d client None None None no_prov) doc_reply),
     db_get = (\<lambda>coll i. readQ (\<lambda>n. seq_get X (W n) coll i None)),
     db_delete = (\<lambda>client coll i. callQ X W (\<lambda>V. IDelete V coll i client None None) (\<lambda>_. ())),
     db_link = (\<lambda>client f r t. callQ X W (\<lambda>V. ILink V f r t client None) (\<lambda>_. ())),
     db_unlink = (\<lambda>client f r t. callQ X W (\<lambda>V. IUnlink V f r t client None) (\<lambda>_. ())),
     db_neighbors = (\<lambda>f r. readQ (\<lambda>_ s. Inr (seq_neighbors f r None s))),
     db_query = (\<lambda>nql. readQ (\<lambda>_. seq_query X nql)) \<rparr>"

definition on_server :: "ext \<Rightarrow> (nat \<Rightarrow> env) \<Rightarrow> string \<Rightarrow> sworld clock \<Rightarrow> sworld redis" where
  "on_server X W client tick = \<lparr> r_ext = X, r_db = served_db X W, r_client = client, r_tick = tick \<rparr>"

section \<open>A collection of texts behind the sequencer\<close>

definition quiet :: "ext \<Rightarrow> seqr \<Rightarrow> bool" where
  \<comment> \<open>no call is under way, and the committed number is HEAD\<close>
  "quiet X s \<longleftrightarrow> ready s \<and> s_committed s = eng_seq (s_db s) \<and> hist_ok X (s_db s)"

definition served_holds :: "ext \<Rightarrow> string \<Rightarrow> sworld \<Rightarrow> sworld \<Rightarrow> (string \<Rightarrow> string option) \<Rightarrow> bool" where
  "served_holds X c w0 w m \<longleftrightarrow> quiet X (snd w) \<and>
     holds c (fst w0, s_db (snd w0)) (fst w, s_db (snd w)) m"

lemma holds_cong:
  assumes "store_of e' = store_of e" "m_rels (e_mat e') = m_rels (e_mat e)" "steady e \<Longrightarrow> steady e'"
  shows "holds c w0 (n, e) m \<Longrightarrow> holds c w0 (n', e') m"
proof -
  have "live_doc c e' = live_doc c e" "outside c e' = outside c e"
    using assms(1,2) by (simp_all add: live_doc_def outside_def fun_eq_iff)
  then show "holds c w0 (n, e) m \<Longrightarrow> holds c w0 (n', e') m"
    using assms(3) by (simp add: holds_def cell_wf_def cell_texts_def fun_eq_iff)
qed

lemma steady_frame [simp]: "steady (deferring e) = steady e" "steady (eng_flush e) = steady e"
  by (simp_all add: steady_def nonce_sync_def deferring_def eng_flush_def)

lemma mat_flush [simp]: "e_mat (eng_flush e) = e_mat e"
  by (simp add: eng_flush_def)

lemma quiet_get:
  assumes "quiet X s"
  shows "seq_get X V c i None s = Inr (live_doc c (s_db s) i)"
proof -
  have s: "s_committed s = eng_seq (s_db s)" "mv_wf (store_of (s_db s))" "mv_upto (store_of (s_db s)) (eng_seq (s_db s))"
    using assms by (simp_all add: quiet_def hist_ok_def)
  with mv.head_now[of "store_of (s_db s)" "eng_seq (s_db s)" "doc_key c i"] show ?thesis
    by (simp add: seq_get_def pin_def eng_get_as_of mv_read_at_def mv_read_head_def live_doc_def mv_get_reads)
qed

lemma call_quiet:
  assumes q: "quiet X s" and a: "apply_one X j (deferring (s_db s)) = (r, e)"
  shows "\<exists>s'. seq_call X j s = (r, s') \<and> s_db s' = eng_flush e \<and> quiet X s'"
proof -
  from q have "ready s" by (simp add: quiet_def)
  from seq_call_ready[OF this a] obtain s' where
    s': "seq_call X j s = (r, s')" "s_db s' = eng_flush e" "s_committed s' = eng_seq e" "ready s'" by blast
  have "hist_ok X (s_db s')"
    using seq_call_keeps[of X s j] q s'(1) by (simp add: Sequencer.keeps_def quiet_def)
  with s' show ?thesis by (intro exI[of _ s']) (simp add: quiet_def eng_seq_def eng_flush_def)
qed

lemma served_call:
  assumes h: "served_holds X c w0 w m"
    and a: "\<And>n e. holds c (fst w0, s_db (snd w0)) (n, e) m \<Longrightarrow>
      \<exists>r n' e'. apply_one X (f (W n)) e = (Inr r, e') \<and> holds c (fst w0, s_db (snd w0)) (n', e') m'"
  shows "\<exists>r w'. callQ X W f g w = (Inr (g r), w') \<and> served_holds X c w0 w' m'"
proof -
  obtain n s where w: "w = (n, s)" by (cases w)
  have q: "quiet X s" and hh: "holds c (fst w0, s_db (snd w0)) (n, s_db s) m"
    using h by (simp_all add: served_holds_def w)
  from holds_cong[OF _ _ _ hh, of "deferring (s_db s)" n] have
    "holds c (fst w0, s_db (snd w0)) (n, deferring (s_db s)) m" by simp
  from a[OF this] obtain r n' e' where
    e: "apply_one X (f (W n)) (deferring (s_db s)) = (Inr r, e')" "holds c (fst w0, s_db (snd w0)) (n', e') m'" by blast
  from call_quiet[OF q e(1)] obtain s' where
    s': "seq_call X (f (W n)) s = (Inr r, s')" "s_db s' = eng_flush e'" "quiet X s'" by blast
  from holds_cong[OF _ _ _ e(2), of "eng_flush e'" "Suc n"] have
    "holds c (fst w0, s_db (snd w0)) (Suc n, eng_flush e') m'" by simp
  with s' show ?thesis
    by (intro exI[of _ r] exI[of _ "(Suc n, s')"]) (simp add: callQ_def w served_holds_def)
qed

lemma served_put:
  assumes "served_holds X c w0 w m"
  shows "\<exists>r w'. callQ X W (\<lambda>V. IPut V c i (cell_doc v) client None None None no_prov) doc_reply w = (Inr r, w') \<and>
    served_holds X c w0 w' (m(i \<mapsto> v))"
proof -
  have "\<exists>r n' e'. apply_one X (IPut (W n) c i (cell_doc v) client None None None no_prov) e = (Inr r, e') \<and>
      holds c (fst w0, s_db (snd w0)) (n', e') (m(i \<mapsto> v))" if "holds c (fst w0, s_db (snd w0)) (n, e) m" for n e
    using holds_put[OF that, of X W client i v] by (auto simp: m_put_def callM_Inr mapC_def)
  from served_call[where f = "\<lambda>V. IPut V c i (cell_doc v) client None None None no_prov" and W = W, OF assms this, where g = doc_reply] show ?thesis by blast
qed

lemma served_delete:
  assumes "served_holds X c w0 w m"
  shows "\<exists>w'. callQ X W (\<lambda>V. IDelete V c i client None None) (\<lambda>_. ()) w = (Inr (), w') \<and>
    served_holds X c w0 w' (m(i := None))"
proof -
  have "\<exists>r n' e'. apply_one X (IDelete (W n) c i client None None) e = (Inr r, e') \<and>
      holds c (fst w0, s_db (snd w0)) (n', e') (m(i := None))" if "holds c (fst w0, s_db (snd w0)) (n, e) m" for n e
    using holds_del[OF that, of X W client i] by (auto simp: m_delete_def callM_Inr mapC_def)
  from served_call[where f = "\<lambda>V. IDelete V c i client None None" and W = W, OF assms this, where g = "\<lambda>_. ()"] show ?thesis by blast
qed

lemma served_get:
  assumes h: "served_holds X c w0 w m"
  shows "\<exists>r. readQ (\<lambda>n. seq_get X (W n) c i None) w = (Inr r, w) \<and> (r = None \<longleftrightarrow> m i = None) \<and>
    (\<forall>d. r = Some d \<longrightarrow> (\<exists>s. m i = Some s \<and> map_of d ''_v'' = Some (PStr s)))"
proof -
  have q: "quiet X (snd w)" and hh: "holds c (fst w0, s_db (snd w0)) (fst w, s_db (snd w)) m"
    using h by (simp_all add: served_holds_def)
  have m: "m i = (case live_doc c (s_db (snd w)) i of None \<Rightarrow> None | Some d \<Rightarrow> cell_of d)"
    using hh by (auto simp: holds_def cell_texts_def)
  show ?thesis
  proof (cases "live_doc c (s_db (snd w)) i")
    case (Some d)
    with hh obtain s where s: "cell_of d = Some s" by (auto simp: holds_def cell_wf_def)
    then have "map_of d ''_v'' = Some (PStr s)" by (auto simp: cell_of_def split: option.splits pyval.splits)
    with s Some m show ?thesis by (simp add: readQ_def quiet_get[OF q])
  qed (simp add: readQ_def quiet_get[OF q] m)
qed

lemma on_server_calls [simp]:
  "r_get (on_server X W client tick) c i = readQ (\<lambda>n. seq_get X (W n) c i None)"
  "r_put (on_server X W client tick) c i d = callQ X W (\<lambda>V. IPut V c i d client None None None no_prov) doc_reply"
  "r_del (on_server X W client tick) c i = callQ X W (\<lambda>V. IDelete V c i client None None) (\<lambda>_. ())"
  by (simp_all add: on_server_def served_db_def r_get_def r_put_def r_del_def)

interpretation scell: cell_store "on_server X W client tick" c "served_holds X c w0"
proof (unfold_locales, goal_cases)
  case (1 w m i)
  from served_get[OF this, of W i] obtain r where
    "readQ (\<lambda>n. seq_get X (W n) c i None) w = (Inr r, w)" "r = None \<longleftrightarrow> m i = None"
    "\<forall>d. r = Some d \<longrightarrow> (\<exists>s. m i = Some s \<and> map_of d ''_v'' = Some (PStr s))" by (elim exE conjE)
  with 1 show ?case unfolding on_server_calls by (intro exI[of _ r] exI[of _ w]) simp
next
  case (2 w m i s)
  from served_put[OF this] show ?case unfolding on_server_calls .
next
  case (3 w m i)
  from served_delete[OF this] show ?case unfolding on_server_calls .
qed

interpretation skv: kv_store "on_server X W client tick" "served_holds X KV_COLL w0"
  by unfold_locales

interpretation shash: hash_store "on_server X W client tick" name "served_holds X (safe name) w0"
  by unfold_locales

end
