(* ===== verification/Resp2.thy ===== *)
theory Resp2
  imports ServedRedis
begin

text \<open>
  The RESP2 server of \<open>nedb.resp2\<close>: the encoding of replies, the reader of commands from the
  bytes of a connection, the dispatch of one command, and the loop that serves a connection.
  The bytes a client sends are given as a whole, up to the end of its input; it reads every reply.
  Bytes are characters; a text is a list of characters below 256, encoded in UTF-8.
\<close>

record resp =
  rp_conf :: config
  rp_lossy :: "string \<Rightarrow> string" \<comment> \<open>\<open>decode(errors="replace")\<close> of bytes that are not such a text\<close>
  rp_tick :: "sworld clock"

section \<open>Replies\<close>

abbreviation "LF \<equiv> CHR 0x0A"
abbreviation "CR \<equiv> CHR 0x0D"

definition crlf :: string where
  "crlf = [CR, LF]"

definition bulk :: "string option \<Rightarrow> string" where
  "bulk x =
     (case x of
        None \<Rightarrow> ''$-1'' @ crlf
      | Some s \<Rightarrow> (let enc = utf8_encode s in ''$'' @ show_nat (length enc) @ crlf @ enc @ crlf))"

definition int_bytes :: "int \<Rightarrow> string" where
  "int_bytes n = '':'' @ show_int n @ crlf"

definition ok_bytes :: string where
  "ok_bytes = ''+OK'' @ crlf"

fun no_crlf :: "string \<Rightarrow> string" where
  \<comment> \<open>\<open>msg.replace("\r\n", " ")\<close>\<close>
  "no_crlf (c # d # s) = (if c = CR \<and> d = LF then CHR '' '' # no_crlf s else c # no_crlf (d # s))"
| "no_crlf s = s"

definition err_bytes :: "string \<Rightarrow> string" where
  "err_bytes msg = ''-ERR '' @ utf8_encode (no_crlf msg) @ crlf"

definition ttl_bytes :: "string \<Rightarrow> string" where
  \<comment> \<open>the reply to the commands of \<open>NO_TTL\<close>; the dash of its text is encoded in three bytes\<close>
  "ttl_bytes cmd = ''-ERR '' @ cmd @ '' is on the NEDB roadmap '' @ [CHR 0xE2, CHR 0x80, CHR 0x94] @
     '' use db.expire() via the Python API.'' @ crlf"

definition arr :: "string list \<Rightarrow> string" where
  \<comment> \<open>the items are encoded\<close>
  "arr items = ''*'' @ show_nat (length items) @ crlf @ concat items"

fun encode :: "Redis.reply \<Rightarrow> string" where
  "encode RNil = ''$-1'' @ crlf"
| "encode (RText s) = bulk (Some s)"
| "encode (RInt n) = int_bytes n"
| "encode (RSet S) = arr (map (\<lambda>x. bulk (Some x)) (sorted_list_of_set S))"
| "encode (RList vs) = arr (map encode vs)"
| "encode (RDict d) = arr (concat (map (\<lambda>(k, v). [bulk (Some k), bulk (Some v)]) d))"

section \<open>Commands\<close>

fun read_line :: "string \<Rightarrow> string \<times> string" where
  \<comment> \<open>\<open>readline\<close>: up to a line feed or the end\<close>
  "read_line [] = ([], [])"
| "read_line (c # s) = (if c = LF then ([c], s) else (case read_line s of (l, r) \<Rightarrow> (c # l, r)))"

definition rstrip_crlf :: "string \<Rightarrow> string" where
  "rstrip_crlf l = rev (dropWhile (\<lambda>c. c = CR \<or> c = LF) (rev l))"

definition read_bytes :: "int \<Rightarrow> string \<Rightarrow> (string \<times> string) res" where
  \<comment> \<open>\<open>read(n)\<close> of a buffered reader: all for -1\<close>
  "read_bytes n s =
     (if n < -1 then Inl ValueErr else if n = -1 then Inr (s, []) else Inr (take (nat n) s, drop (nat n) s))"

definition int_of_bytes :: "string \<Rightarrow> int res" where
  "int_of_bytes s =
     (case bytes_strip s of
        [] \<Rightarrow> Inl ValueErr
      | c # t \<Rightarrow>
          if c = CHR ''-'' then bindE (int_digits t) (\<lambda>n. Inr (- n))
          else if c = CHR ''+'' then int_digits t
          else int_digits (c # t))"

definition decode_text :: "resp \<Rightarrow> string \<Rightarrow> string" where
  "decode_text P b = (case utf8_decode b of Inr s \<Rightarrow> s | Inl _ \<Rightarrow> rp_lossy P b)"

fun read_args :: "resp \<Rightarrow> nat \<Rightarrow> string \<Rightarrow> (string list \<times> string) res" where
  "read_args P 0 s = Inr ([], s)"
| "read_args P (Suc n) s =
     (case read_line s of (l, s1) \<Rightarrow>
        let hdr = rstrip_crlf l in
        if \<not> starts_with ''$'' hdr then Inl ValueErr
        else
          bindE (int_of_bytes (tl hdr)) (\<lambda>len.
          bindE (read_bytes (len + 2) s1) (\<lambda>(data, s2).
          bindE (read_args P n s2) (\<lambda>(args, s3).
            Inr (decode_text P (take (length data - 2) data) # args, s3)))))"

definition words :: "string \<Rightarrow> string list" where
  \<comment> \<open>\<open>split()\<close>\<close>
  "words s = filter (\<lambda>w. w \<noteq> []) (split_on CHR '' '' (map (\<lambda>c. if is_space c then CHR '' '' else c) s))"

definition read_command :: "resp \<Rightarrow> string \<Rightarrow> (string list option \<times> string) res" where
  "read_command P s =
     (case read_line s of (l, s1) \<Rightarrow>
        let line = rstrip_crlf l in
        if line = [] then Inr (None, s1)
        else if starts_with ''*'' line then
          bindE (int_of_bytes (tl line)) (\<lambda>n.
          bindE (read_args P (nat n) s1) (\<lambda>(args, s2). Inr (Some args, s2)))
        else Inr (Some (words (decode_text P line)), s1))"

section \<open>A connection\<close>

text \<open>
  The database selected, and whether the adapter for it is made.  (The adapter keeps the database
  object it was made with; a database dropped over HTTP while a connection uses it is not modelled.)
\<close>

record conn =
  cn_db :: string
  cn_rc :: bool

definition conn_init :: conn where
  "conn_init = \<lparr> cn_db = ''db0'', cn_rc = False \<rparr>"

type_synonym 'a con = "conn \<Rightarrow> server \<Rightarrow> (herr + 'a) \<times> conn \<times> server"

definition in_db :: "string \<Rightarrow> (sworld, 'a) prog \<Rightarrow> 'a srv" where
  \<comment> \<open>a program of calls on an open database\<close>
  "in_db name m sv =
     (case map_of (sv_open sv) name of
        None \<Rightarrow> (Inl (Raised KeyError), sv)
      | Some s \<Rightarrow>
          (case m (sv_n sv, s) of
             (r, (n, s')) \<Rightarrow> (map_sum Raised id r, sv\<lparr> sv_n := n, sv_open := dset name s' (sv_open sv) \<rparr>)))"

definition liftN :: "'a srv \<Rightarrow> 'a con" where
  "liftN m c sv = (case m sv of (r, sv') \<Rightarrow> (r, c, sv'))"

definition bindN :: "'a con \<Rightarrow> ('a \<Rightarrow> 'b con) \<Rightarrow> 'b con" where
  "bindN m f c sv = (case m c sv of (Inl x, c', sv') \<Rightarrow> (Inl x, c', sv') | (Inr a, c', sv') \<Rightarrow> f a c' sv')"

definition retN :: "'a \<Rightarrow> 'a con" where
  "retN x c sv = (Inr x, c, sv)"

definition adapter :: "resp \<Rightarrow> sworld redis" where
  "adapter P = on_server (c_ext (rp_conf P)) (c_env (rp_conf P)) ''redis-compat'' (rp_tick P)"

definition get_rc :: "resp \<Rightarrow> unit con" where
  "get_rc P c sv =
     (if cn_rc c then (Inr (), c, sv)
      else (case open_name (rp_conf P) (cn_db c) sv of
              (Inl x, sv') \<Rightarrow> (Inl x, c, sv')
            | (Inr _, sv') \<Rightarrow> (Inr (), c\<lparr> cn_rc := True \<rparr>, sv')))"

definition rc_execute :: "resp \<Rightarrow> string \<Rightarrow> string list \<Rightarrow> Redis.reply con" where
  "rc_execute P cmd args =
     bindN (get_rc P) (\<lambda>_ c. liftN (in_db (cn_db c) (redis_exec (adapter P) cmd args)) c)"

definition STRINGS :: "string list" where
  "STRINGS =
     [''SET'', ''GET'', ''GETDEL'', ''SETNX'', ''MSET'', ''MGET'', ''DEL'', ''UNLINK'', ''EXISTS'', ''INCR'', ''INCRBY'',
      ''DECR'', ''DECRBY'', ''APPEND'', ''STRLEN'', ''TYPE'', ''RENAME'', ''KEYS'', ''FLUSHDB'']"

definition HASHES :: "string list" where
  "HASHES =
     [''HSET'', ''HMSET'', ''HSETNX'', ''HGET'', ''HMGET'', ''HGETALL'', ''HDEL'', ''HEXISTS'', ''HKEYS'', ''HVALS'',
      ''HLEN'', ''HINCRBY'']"

definition SETS :: "string list" where
  "SETS = [''SADD'', ''SMEMBERS'', ''SISMEMBER'', ''SREM'', ''SCARD'', ''SUNION'', ''SINTER'', ''SDIFF'']"

definition LISTS :: "string list" where
  "LISTS = [''LPUSH'', ''RPUSH'', ''LRANGE'', ''LLEN'', ''LINDEX'', ''LSET'', ''LPOP'', ''RPOP'']"

definition NO_TTL :: "string list" where
  "NO_TTL = [''EXPIRE'', ''EXPIREAT'', ''TTL'', ''PTTL'', ''PEXPIRE'', ''PERSIST'']"

definition NO_PUBSUB :: "string list" where
  "NO_PUBSUB = [''SUBSCRIBE'', ''PUBLISH'', ''UNSUBSCRIBE'', ''PSUBSCRIBE'']"

definition NO_TRANSACTIONS :: "string list" where
  "NO_TRANSACTIONS = [''MULTI'', ''EXEC'', ''DISCARD'', ''WATCH'']"

definition eval_rows :: "resp \<Rightarrow> string \<Rightarrow> string \<Rightarrow> string srv" where
  "eval_rows P name nql =
     bindS (open_name (rp_conf P) name) (\<lambda>_.
     bindS (read_db name (seq_query (c_ext (rp_conf P)) nql)) (\<lambda>rows.
       retS (arr (map (\<lambda>r. bulk (Some (dumps (c_ext (rp_conf P)) '','' '':'' (PDict r)))) rows))))"

definition resp_dispatch :: "resp \<Rightarrow> string \<Rightarrow> string list \<Rightarrow> string con" where
  "resp_dispatch P cmd args c =
     (if cmd = ''PING'' then retN (case args of [] \<Rightarrow> ''+PONG'' @ crlf | a # _ \<Rightarrow> bulk (Some a)) c
      else if cmd = ''QUIT'' \<or> cmd = ''COMMAND'' then retN ok_bytes c
      else if cmd = ''SELECT'' then
        (case args of
           [] \<Rightarrow> retN (err_bytes ''SELECT requires a database name'') c
         | a # _ \<Rightarrow> retN ok_bytes (c\<lparr> cn_db := a, cn_rc := False \<rparr>))
      else if cmd = ''EVAL'' then
        (case args of
           [] \<Rightarrow> retN (err_bytes ''EVAL requires a NQL string'') c
         | nql # _ \<Rightarrow> liftN (eval_rows P (cn_db c) nql) c)
      else if cmd = ''DBSIZE'' then
        bindN (rc_execute P ''DBSIZE'' []) (\<lambda>r. retN (case r of RInt n \<Rightarrow> int_bytes n | _ \<Rightarrow> [])) c
      else if cmd \<in> set (STRINGS @ HASHES @ SETS @ LISTS) then
        bindN (rc_execute P cmd args) (\<lambda>r. retN (encode r)) c
      else if cmd \<in> set NO_TTL then retN (ttl_bytes cmd) c
      else if cmd \<in> set NO_PUBSUB then retN (err_bytes (cmd @ '' (pub-sub) is on the NEDB roadmap.'')) c
      else if cmd \<in> set NO_TRANSACTIONS then
        retN (err_bytes (cmd @ '' (transactions) is on the NEDB roadmap.'')) c
      else retN (err_bytes (''unknown command '' @ [CHR 0x27] @ cmd @ [CHR 0x27])) c)"

definition error_text :: "resp \<Rightarrow> herr \<Rightarrow> string" where
  \<comment> \<open>\<open>str(e)\<close>\<close>
  "error_text P x = (case x of Http _ msg \<Rightarrow> msg | Raised ex \<Rightarrow> c_message (rp_conf P) ex)"

definition respond :: "resp \<Rightarrow> string list \<Rightarrow> conn \<Rightarrow> server \<Rightarrow> string \<times> conn \<times> server" where
  \<comment> \<open>one command, of at least one word\<close>
  "respond P args c sv =
     (case resp_dispatch P (str_upper (hd args)) (tl args) c sv of
        (Inr b, c', sv') \<Rightarrow> (b, c', sv')
      | (Inl x, c', sv') \<Rightarrow> (err_bytes (error_text P x), c', sv'))"

text \<open>The loop reads at least one byte each time around.\<close>

lemma read_line_append: "read_line s = (l, r) \<Longrightarrow> s = l @ r"
  by (induction s arbitrary: l r) (auto split: if_splits prod.splits)

lemma read_line_shorter: "read_line s = (l, r) \<Longrightarrow> l \<noteq> [] \<Longrightarrow> length r < length s"
  using read_line_append by fastforce

lemma read_bytes_shorter: "read_bytes n s = Inr (a, b) \<Longrightarrow> length b \<le> length s"
  by (auto simp: read_bytes_def split: if_splits)

lemma read_args_shorter: "read_args P n s = Inr (args, r) \<Longrightarrow> length r \<le> length s"
proof (induction n arbitrary: s args)
  case (Suc n)
  then obtain l s1 len data s2 args' where r: "read_line s = (l, s1)"
    "read_bytes (len + 2) s1 = Inr (data, s2)" "read_args P n s2 = Inr (args', r)"
    by (auto simp: Let_def bindE_eq_Inr split: prod.splits if_splits)
  have "length s1 \<le> length s" using read_line_append[OF r(1)] by simp
  with Suc.IH[OF r(3)] read_bytes_shorter[OF r(2)] show ?case by linarith
qed simp

lemma read_command_shorter:
  assumes "read_command P s = Inr (Some args, r)"
  shows "length r < length s"
proof -
  obtain l s1 where l: "read_line s = (l, s1)" by (cases "read_line s")
  with assms have ne: "l \<noteq> []" by (auto simp: read_command_def Let_def rstrip_crlf_def)
  from assms l have "r = s1 \<or> (\<exists>n. read_args P n s1 = Inr (args, r))"
    by (auto simp: read_command_def Let_def bindE_eq_Inr split: if_splits)
  with read_args_shorter read_line_shorter[OF l ne] show ?thesis by fastforce
qed

function serve :: "resp \<Rightarrow> string \<Rightarrow> conn \<Rightarrow> server \<Rightarrow> string list \<times> conn \<times> server" where
  \<comment> \<open>\<open>handle\<close>: the replies written, until the input ends or cannot be read\<close>
  "serve P input c sv =
     (case read_command P input of
        Inr (Some [], rest) \<Rightarrow> serve P rest c sv
      | Inr (Some (a # args), rest) \<Rightarrow>
          (case respond P (a # args) c sv of (b, c1, sv1) \<Rightarrow>
             (case serve P rest c1 sv1 of (bs, c2, sv2) \<Rightarrow> (b # bs, c2, sv2)))
      | _ \<Rightarrow> ([], c, sv))"
  by pat_completeness auto
termination
  by (relation "measure (\<lambda>(P, input, c, sv). length input)") (auto dest: read_command_shorter)

declare serve.simps [simp del]

end
