(* ===== verification/Resp2Inv.thy ===== *)
theory Resp2Inv
  imports Resp2
begin

text \<open>
  What the RESP2 server does with the bytes of a connection: it reads back the commands a client
  encodes, answers each with one reply in order, an error with one line, and the string commands
  sent over the wire act on the served database as on a map.
\<close>

section \<open>Reading what was encoded\<close>

lemma read_line_end: "LF \<notin> set l \<Longrightarrow> read_line (l @ LF # r) = (l @ [LF], r)"
  by (induction l) auto

lemma rstrip_line:
  assumes "list_all (\<lambda>c. c \<noteq> CR \<and> c \<noteq> LF) x"
  shows "rstrip_crlf (x @ [CR, LF]) = x"
proof -
  have "dropWhile (\<lambda>c. c = CR \<or> c = LF) (rev x) = rev x"
    using assms by (cases "rev x") (auto simp: list_all_iff dest: arg_cong[where f = set])
  then show ?thesis by (simp add: rstrip_crlf_def)
qed

lemma digit_plain: "is_digit c \<Longrightarrow> c \<noteq> CR \<and> c \<noteq> LF \<and> \<not> byte_space c \<and> c \<noteq> CHR ''-'' \<and> c \<noteq> CHR ''+''"
  by (auto simp: is_digit_iff byte_space_def)

lemma show_nat_plain: "list_all (\<lambda>c. c \<noteq> CR \<and> c \<noteq> LF) (show_nat n)"
  using show_nat_digits[of n] digit_plain by (auto simp: list_all_iff)

lemma int_of_bytes_show [simp]: "int_of_bytes (show_nat n) = Inr (int n)"
proof -
  have d: "list_all is_digit (show_nat n)" "show_nat n \<noteq> []" using show_nat_digits[of n] by auto
  then have "\<not> byte_space (hd (show_nat n))" "\<not> byte_space (last (show_nat n))"
    using digit_plain by (auto simp: list_all_iff)
  with d(2) have "dropWhile byte_space (show_nat n) = show_nat n"
    "dropWhile byte_space (rev (show_nat n)) = rev (show_nat n)"
    by (auto simp: dropWhile_eq_self_iff hd_rev)
  then have "bytes_strip (show_nat n) = show_nat n" by (simp add: bytes_strip_def)
  moreover obtain c t where "show_nat n = c # t" "is_digit c" using d by (cases "show_nat n") auto
  ultimately show ?thesis
    using int_digits_show_nat[of n] digit_plain[of c] by (simp add: int_of_bytes_def)
qed

lemma read_header:
  assumes "c \<noteq> CR" "c \<noteq> LF"
  shows "read_line (c # show_nat n @ crlf @ r) = (c # show_nat n @ crlf, r)"
    "rstrip_crlf (c # show_nat n @ crlf) = c # show_nat n"
proof -
  have "LF \<notin> set (c # show_nat n @ [CR])" using show_nat_plain[of n] assms by (auto simp: list_all_iff)
  from read_line_end[OF this, of r] show "read_line (c # show_nat n @ crlf @ r) = (c # show_nat n @ crlf, r)"
    by (simp add: crlf_def)
  have "list_all (\<lambda>c. c \<noteq> CR \<and> c \<noteq> LF) (c # show_nat n)" using show_nat_plain[of n] assms by simp
  from rstrip_line[OF this] show "rstrip_crlf (c # show_nat n @ crlf) = c # show_nat n" by (simp add: crlf_def)
qed

definition wire :: "string list \<Rightarrow> string" where
  \<comment> \<open>a command as a client sends it\<close>
  "wire args = arr (map (\<lambda>a. bulk (Some a)) args)"

lemma read_args_wire: "read_args P (length args) (concat (map (\<lambda>a. bulk (Some a)) args) @ rest) = Inr (args, rest)"
proof (induction args)
  case (Cons a args)
  let ?e = "utf8_encode a" and ?r = "concat (map (\<lambda>a. bulk (Some a)) args) @ rest"
  have b: "bulk (Some a) @ ?r = CHR ''$'' # show_nat (length ?e) @ crlf @ ?e @ crlf @ ?r"
    by (simp add: bulk_def Let_def)
  have h: "read_line (bulk (Some a) @ ?r) = (CHR ''$'' # show_nat (length ?e) @ crlf, ?e @ crlf @ ?r)"
    "rstrip_crlf (CHR ''$'' # show_nat (length ?e) @ crlf) = CHR ''$'' # show_nat (length ?e)"
    unfolding b by (rule read_header; simp)+
  have "nat (int (length ?e) + 2) = length (?e @ crlf)" by (simp add: crlf_def)
  then have "read_bytes (int (length ?e) + 2) (?e @ crlf @ ?r) = Inr (?e @ crlf, ?r)"
    by (simp add: read_bytes_def)
  moreover have "take (length (?e @ crlf) - 2) (?e @ crlf) = ?e" by (simp add: crlf_def)
  ultimately show ?case
    using Cons.IH h by (simp add: starts_with_def decode_text_def)
qed simp

lemma read_wire: "read_command P (wire args @ rest) = Inr (Some args, rest)"
proof -
  let ?r = "concat (map (\<lambda>a. bulk (Some a)) args) @ rest"
  have w: "wire args @ rest = CHR ''*'' # show_nat (length args) @ crlf @ ?r"
    by (simp add: wire_def arr_def)
  have h: "read_line (wire args @ rest) = (CHR ''*'' # show_nat (length args) @ crlf, ?r)"
    "rstrip_crlf (CHR ''*'' # show_nat (length args) @ crlf) = CHR ''*'' # show_nat (length args)"
    unfolding w by (rule read_header; simp)+
  show ?thesis
    unfolding read_command_def h(1) using h(2) read_args_wire[of P args rest] by (simp add: starts_with_def Let_def)
qed

section \<open>Errors are one line\<close>

lemma utf8_low:
  assumes "b \<in> set (utf8_char c)" "of_char b < (128 :: nat)"
  shows "utf8_char c = [c]" "b = c"
proof -
  let ?n = "of_char c :: nat"
  have "?n < 256" by (rule of_char_256)
  then have n: "?n div 64 < 4" by (intro less_mult_imp_div_less) simp
  have h: "of_char (char_of (192 + ?n div 64) :: char) = 192 + ?n div 64"
    "of_char (char_of (128 + ?n mod 64) :: char) = 128 + ?n mod 64"
    using n by (simp_all only: of_char_of) (auto intro!: mod_less)
  show "utf8_char c = [c]" using assms h by (auto simp: utf8_char_def Let_def split: if_splits)
  with assms(1) show "b = c" by simp
qed

lemma utf8_hd: "utf8_encode s = b # t \<Longrightarrow> of_char b < (128 :: nat) \<Longrightarrow> \<exists>s'. s = b # s'"
proof (cases s)
  case (Cons c s')
  assume "utf8_encode s = b # t" "of_char b < (128 :: nat)"
  moreover have "utf8_char c \<noteq> []" by (simp add: utf8_char_def Let_def)
  ultimately have "b \<in> set (utf8_char c)" "of_char b < (128 :: nat)"
    by (cases "utf8_char c"; auto simp: Cons utf8_encode_def)+
  from utf8_low(2)[OF this] Cons show ?thesis by simp
qed (simp add: utf8_encode_def)

text \<open>No line break: carriage return followed by line feed.\<close>

fun one_line :: "string \<Rightarrow> bool" where
  "one_line (c # d # s) = (\<not> (c = CR \<and> d = LF) \<and> one_line (d # s))"
| "one_line _ = True"

lemma one_line_Cons: "one_line (c # s) \<longleftrightarrow> \<not> (c = CR \<and> (\<exists>s'. s = LF # s')) \<and> one_line s"
  by (cases s) auto

lemma no_crlf_hd: "no_crlf s = LF # t \<Longrightarrow> \<exists>s'. s = LF # s'"
  by (cases s rule: no_crlf.cases) (auto split: if_splits)

lemma no_crlf_line: "one_line (no_crlf s)"
proof (induction s rule: no_crlf.induct)
  case (1 c d s)
  then show ?case using no_crlf_hd[of "d # s"] by (auto simp: one_line_Cons)
qed auto

lemma one_line_high: "c \<noteq> CR \<Longrightarrow> one_line (c # s) \<longleftrightarrow> one_line s"
  by (simp add: one_line_Cons)

lemma utf8_line: "one_line s \<Longrightarrow> one_line (utf8_encode s)"
proof (induction s)
  case (Cons c s)
  have e: "utf8_encode (c # s) = utf8_char c @ utf8_encode s" by (simp add: utf8_encode_def)
  have s: "one_line (utf8_encode s)" using Cons by (simp add: one_line_Cons)
  show ?case
  proof (cases "CR \<in> set (utf8_char c)")
    case True
    then have "utf8_char c = [CR]" "c = CR" using utf8_low[of CR c] by auto
    moreover have "\<not> (\<exists>t. utf8_encode s = LF # t)"
      using Cons.prems utf8_hd[of s LF] calculation(2) by (auto simp: one_line_Cons)
    ultimately show ?thesis unfolding e using s by (simp add: one_line_Cons)
  next
    case False
    then have "one_line (bs @ utf8_encode s)" if "set bs \<subseteq> set (utf8_char c)" for bs
      using that s by (induction bs) (simp, metis append_Cons insert_subset list.simps(15) one_line_high)
    then show ?thesis by (simp add: e)
  qed
qed (simp add: utf8_encode_def)

lemma err_line:
  assumes "err_bytes msg = a @ crlf @ b"
  shows "b = []"
proof -
  have app: "one_line x \<Longrightarrow> x @ [CR, LF] = a @ [CR, LF] @ b \<Longrightarrow> b = []" for x a
  proof (induction x arbitrary: a)
    case (Cons c x)
    then show ?case by (cases a) (auto simp: one_line_Cons Cons_eq_append_conv append_eq_Cons_conv)
  qed (auto simp: Cons_eq_append_conv)
  have "one_line (''-ERR '' @ utf8_encode (no_crlf msg))"
    using utf8_line[OF no_crlf_line] by (simp add: one_line_high)
  from app[OF this] assms show ?thesis by (simp add: err_bytes_def crlf_def)
qed

section \<open>A pipeline of commands\<close>

fun respond_all :: "resp \<Rightarrow> string list list \<Rightarrow> conn \<Rightarrow> server \<Rightarrow> string list \<times> conn \<times> server" where
  "respond_all P [] c sv = ([], c, sv)"
| "respond_all P (args # cmds) c sv =
     (case respond P args c sv of (b, c1, sv1) \<Rightarrow>
        (case respond_all P cmds c1 sv1 of (bs, c2, sv2) \<Rightarrow> (b # bs, c2, sv2)))"

lemma respond_all_length: "respond_all P cmds c sv = (bs, c', sv') \<Longrightarrow> length bs = length cmds"
  by (induction cmds arbitrary: c sv bs) (auto split: prod.splits)

lemma serve_wire:
  "args \<noteq> [] \<Longrightarrow> serve P (wire args @ rest) c sv =
     (case respond P args c sv of (b, c1, sv1) \<Rightarrow>
        (case serve P rest c1 sv1 of (bs, c2, sv2) \<Rightarrow> (b # bs, c2, sv2)))"
  by (subst serve.simps, cases args) (simp_all add: read_wire)

lemma serve_all:
  "list_all (\<lambda>args. args \<noteq> []) cmds \<Longrightarrow> serve P (concat (map wire cmds)) c sv = respond_all P cmds c sv"
proof (induction cmds arbitrary: c sv)
  case Nil
  have "read_command P [] = Inr (None, [])" by (simp add: read_command_def rstrip_crlf_def)
  then show ?case by (simp add: serve.simps[of P "[]"])
next
  case (Cons args cmds)
  then show ?case by (simp add: serve_wire)
qed

section \<open>String commands over the wire\<close>

definition kv_args :: "kvcmd \<Rightarrow> string list" where
  "kv_args k = fst (kv_wire k) # snd (kv_wire k)"

lemma kv_command: "str_upper (fst (kv_wire k)) = fst (kv_wire k)" "fst (kv_wire k) \<in> set STRINGS"
  by (cases k; simp add: str_upper_def char_upper_def is_lower_def less_eq_char_def STRINGS_def)+

lemma strings_dispatch:
  assumes "cmd \<in> set STRINGS"
  shows "resp_dispatch P cmd args c = bindN (rc_execute P cmd args) (\<lambda>r. retN (encode r)) c"
proof -
  have "cmd \<noteq> ''PING''" "cmd \<noteq> ''QUIT''" "cmd \<noteq> ''COMMAND''" "cmd \<noteq> ''SELECT''" "cmd \<noteq> ''EVAL''" "cmd \<noteq> ''DBSIZE''"
    using assms by (auto simp: STRINGS_def)
  with assms show ?thesis by (simp add: resp_dispatch_def)
qed

text \<open>The database a connection selected is open, and its string keys are the map \<open>m\<close>.\<close>

definition kv_served :: "resp \<Rightarrow> sworld \<Rightarrow> conn \<Rightarrow> server \<Rightarrow> (string \<Rightarrow> string option) \<Rightarrow> bool" where
  "kv_served P w0 c sv m \<longleftrightarrow> name_valid (cn_db c) \<and>
     (\<exists>s. map_of (sv_open sv) (cn_db c) = Some s \<and> served_holds (c_ext (rp_conf P)) KV_COLL w0 (sv_n sv, s) m)"

lemma rc_ready:
  assumes "kv_served P w0 c sv m"
  shows "get_rc P c sv = (Inr (), c\<lparr> cn_rc := True \<rparr>, sv)"
proof -
  have "has_key (cn_db c) (sv_open sv)" "name_valid (cn_db c)"
    using assms unfolding has_key_map kv_served_def by auto
  then show ?thesis by (simp add: get_rc_def open_name_def valid_def bindS_def retS_def getS_def)
qed

lemma in_db_run:
  assumes "map_of (sv_open sv) name = Some s" "m (sv_n sv, s) = (r, w')"
  shows "in_db name m sv =
    (map_sum Raised id r, sv\<lparr> sv_n := fst w', sv_open := dset name (snd w') (sv_open sv) \<rparr>)"
  using assms by (cases w') (simp add: in_db_def)

lemma kv_respond:
  assumes h: "kv_served P w0 c sv m"
  shows "\<exists>b sv' m'. respond P (kv_args k) c sv = (b, c\<lparr> cn_rc := True \<rparr>, sv') \<and>
    kv_served P w0 (c\<lparr> cn_rc := True \<rparr>) sv' m' \<and>
    (case kv_sem k m of Some (r, m1) \<Rightarrow> b = encode r \<and> m' = m1 | None \<Rightarrow> (\<exists>msg. b = err_bytes msg) \<and> m' = m)"
proof -
  let ?c = "c\<lparr> cn_rc := True \<rparr>" and ?a = "adapter P" and ?X = "c_ext (rp_conf P)"
  let ?m = "redis_exec ?a (fst (kv_wire k)) (snd (kv_wire k))"
  obtain s where s: "name_valid (cn_db c)" "map_of (sv_open sv) (cn_db c) = Some s"
    "served_holds ?X KV_COLL w0 (sv_n sv, s) m" using h by (auto simp: kv_served_def)
  obtain r w' where w: "?m (sv_n sv, s) = (r, w')" by (cases "?m (sv_n sv, s)")
  let ?sv = "sv\<lparr> sv_n := fst w', sv_open := dset (cn_db c) (snd w') (sv_open sv) \<rparr>"
  have x: "rc_execute P (fst (kv_wire k)) (snd (kv_wire k)) c sv = (map_sum Raised id r, ?c, ?sv)"
    by (simp add: rc_execute_def bindN_def rc_ready[OF h] liftN_def in_db_run[where m = ?m, OF s(2) w])
  have p: "respond P (kv_args k) c sv =
      (case r of Inr v \<Rightarrow> encode v | Inl ex \<Rightarrow> err_bytes (error_text P (Raised ex)), ?c, ?sv)"
    by (cases r) (simp_all add: respond_def kv_args_def kv_command strings_dispatch bindN_def x retN_def)
  have k: "kv_served P w0 ?c ?sv m'" if "served_holds ?X KV_COLL w0 w' m'" for m'
    using that s(1) by (simp add: kv_served_def map_of_dset)
  from skv.kv_refines[OF s(3), where c = k and W = "c_env (rp_conf P)" and client = "''redis-compat''" and tick = "rp_tick P"]
  show ?thesis
    using w p k unfolding adapter_def by (auto split: option.splits)
qed

fun kv_session :: "kvcmd list \<Rightarrow> (string \<Rightarrow> string option) \<Rightarrow>
    Redis.reply option list \<times> (string \<Rightarrow> string option)" where
  \<comment> \<open>the commands one after the other on the map; \<open>None\<close> is an error\<close>
  "kv_session [] m = ([], m)"
| "kv_session (k # ks) m =
     (case kv_sem k m of
        Some (r, m1) \<Rightarrow> (case kv_session ks m1 of (rs, m2) \<Rightarrow> (Some r # rs, m2))
      | None \<Rightarrow> (case kv_session ks m of (rs, m2) \<Rightarrow> (None # rs, m2)))"

definition reply_bytes :: "Redis.reply option \<Rightarrow> string \<Rightarrow> bool" where
  "reply_bytes r b = (case r of Some v \<Rightarrow> b = encode v | None \<Rightarrow> \<exists>msg. b = err_bytes msg)"

lemma kv_respond_all:
  assumes "kv_served P w0 c sv m"
  shows "\<exists>bs c' sv'. respond_all P (map kv_args ks) c sv = (bs, c', sv') \<and> cn_db c' = cn_db c \<and>
    list_all2 reply_bytes (fst (kv_session ks m)) bs \<and> kv_served P w0 c' sv' (snd (kv_session ks m))"
  using assms
proof (induction ks arbitrary: c sv m)
  case (Cons k ks)
  let ?c = "c\<lparr> cn_rc := True \<rparr>"
  from kv_respond[OF Cons.prems, of k] obtain b sv1 m1 where
    1: "respond P (kv_args k) c sv = (b, ?c, sv1)" "kv_served P w0 ?c sv1 m1"
    "case kv_sem k m of Some (r, m1') \<Rightarrow> b = encode r \<and> m1 = m1' | None \<Rightarrow> (\<exists>msg. b = err_bytes msg) \<and> m1 = m"
    by blast
  from Cons.IH[OF 1(2)] obtain bs c2 sv2 where
    2: "respond_all P (map kv_args ks) ?c sv1 = (bs, c2, sv2)" "cn_db c2 = cn_db ?c"
    "list_all2 reply_bytes (fst (kv_session ks m1)) bs" "kv_served P w0 c2 sv2 (snd (kv_session ks m1))" by blast
  obtain rs m2 where r: "kv_session ks m1 = (rs, m2)" by (cases "kv_session ks m1")
  have "\<exists>o1. kv_session (k # ks) m = (o1 # rs, m2) \<and> reply_bytes o1 b"
    using 1(3) r by (auto simp: reply_bytes_def split: option.splits)
  with 1(1) 2 r show ?case by auto
qed simp

lemma kv_serve:
  assumes "kv_served P w0 c sv m"
  shows "\<exists>bs c' sv'. serve P (concat (map (wire \<circ> kv_args) ks)) c sv = (bs, c', sv') \<and> cn_db c' = cn_db c \<and>
    list_all2 reply_bytes (fst (kv_session ks m)) bs \<and> kv_served P w0 c' sv' (snd (kv_session ks m))"
proof -
  have "list_all (\<lambda>args. args \<noteq> []) (map kv_args ks)" by (simp add: list_all_iff kv_args_def)
  from serve_all[OF this, of P c sv] kv_respond_all[OF assms, of ks] show ?thesis by simp
qed

end
