(* ===== verification/ServerSafe.thy ===== *)
theory ServerSafe
  imports ServerInv
begin

text \<open>
  What a sequence of requests can do to the server: the past of a database it does not drop stays,
  names outside the pattern are never opened or made, and requests without the token do nothing.
\<close>

definition requests :: "config \<Rightarrow> request list \<Rightarrow> server \<Rightarrow> server" where
  \<comment> \<open>the state after the requests, served one after the other\<close>
  "requests C qs sv = fold (\<lambda>q sv. snd (handle C q sv)) qs sv"

lemma requests_simps [simp]:
  "requests C [] sv = sv" "requests C (q # qs) sv = requests C qs (snd (handle C q sv))"
  by (simp_all add: requests_def)

lemma requests_keep:
  assumes "map_of (sv_open sv) name = Some s" "\<And>q. q \<in> set qs \<Longrightarrow> \<not> drops q name"
  shows "\<exists>s'. map_of (sv_open (requests C qs sv)) name = Some s' \<and> keeps (c_ext C) (s_db s) (s_db s')"
  using assms
proof (induction qs arbitrary: sv s)
  case (Cons q qs)
  have "\<not> drops q name" by (simp add: Cons.prems(2))
  from handle_keeps[OF Cons.prems(1) this, of C] obtain s1 where
    1: "map_of (sv_open (snd (handle C q sv))) name = Some s1" "keeps (c_ext C) (s_db s) (s_db s1)" by blast
  from Cons.IH[OF 1(1)] Cons.prems(2) obtain s2 where
    "map_of (sv_open (requests C qs (snd (handle C q sv)))) name = Some s2" "keeps (c_ext C) (s_db s1) (s_db s2)" by auto
  with keeps_trans[OF 1(2)] show ?case by auto
qed (auto simp: keeps_refl)

lemma outside_refl: "outside_root sv sv"
  by (simp add: outside_root_def)

lemma outside_trans: "outside_root a b \<Longrightarrow> outside_root b c \<Longrightarrow> outside_root a c"
  by (simp add: outside_root_def)

lemma requests_outside: "outside_root sv (requests C qs sv)"
proof (induction qs arbitrary: sv)
  case (Cons q qs)
  from outside_trans[OF handle_outside[of sv C q] Cons] show ?case by simp
qed (simp add: outside_refl)

lemma unauthorized_nothing:
  assumes "c_token C \<noteq> []" "rq_auth q \<noteq> ''Bearer '' @ c_token C"
  shows "snd (handle C q sv) = sv"
proof (cases "take 1 (parts_of q) = [''v1'']")
  case True
  from handle_unauthorized[OF assms True, of sv] show ?thesis by simp
next
  case False
  then have "take 2 (parts_of q) \<noteq> [''v1'', ''databases'']" "parts_of q \<noteq> [''v1'', ''databases'']"
    by (cases "parts_of q"; auto)+
  with False show ?thesis
    by (simp add: handle_snd dispatch_def Let_def health_def bindS_def retS_def getS_def answer_def httpS_def)
qed

lemma requests_unauthorized:
  assumes "c_token C \<noteq> []" "\<And>q. q \<in> set qs \<Longrightarrow> rq_auth q \<noteq> ''Bearer '' @ c_token C"
  shows "requests C qs sv = sv"
  using assms by (induction qs) (auto simp: unauthorized_nothing)

end
