(* ===== verification/SampleServer.thy ===== *)
theory SampleServer
  imports Samples ClientInv Resp2Inv ServerSafe
begin

text \<open>
  A concrete server with the database \<open>db0\<close> open and empty, a client of it and a RESP2 listener, on
  which the properties of the network interfaces are instantiated.
\<close>

definition conf0 :: config where
  "conf0 = \<lparr> c_ext = ext0, c_env = (\<lambda>_. V0), c_keys = (\<lambda>_. (replicate 32 CHR 0x00, replicate 12 CHR 0x00)),
     c_tmk = None, c_env_hex = None, c_env_file = None, c_token = ''t'', c_version = ''2'', c_message = (\<lambda>_. ''error''),
     c_regex = (\<lambda>_ _ _ _ _. None), c_oid = show_nat \<rparr>"

definition server0 :: server where
  "server0 = \<lparr> sv_n = 0, sv_disk = [(''db0'', empty_disk)], sv_open = [(''db0'', seq_new 512 e0)] \<rparr>"

definition client0 :: client where
  "client0 = \<lparr> cl_conf = conf0, cl_db = ''db0'', cl_token = ''t'', cl_auto = True,
     cl_json = (\<lambda>d. dumps ext0 '','' '':'' (PDict d)), cl_quote = (\<lambda>p. p) \<rparr>"

lemma e0_steady: "steady e0"
proof -
  have "e_log e0 = log_init" "e_nonce e0 = []" "e_mat e0 = mat_init" by (simp_all add: e0_def engine_new_def)
  with steady_new[of True None empty_disk] show ?thesis
    by (simp add: steady_def nonce_sync_def engine_new_def)
qed

lemma server0_facts: "map_of (sv_open server0) ''db0'' = Some (seq_new 512 e0)" "ready (seq_new 512 e0)"
  "s_db (seq_new 512 e0) = e0" "name_valid ''db0''"
proof -
  show "map_of (sv_open server0) ''db0'' = Some (seq_new 512 e0)" by (simp add: server0_def)
  show "ready (seq_new 512 e0)" by (simp add: seq_new_ready)
  show "s_db (seq_new 512 e0) = e0" by (simp add: seq_new_def)
  show "name_valid ''db0''" by code_simp
qed

lemma client0_wire: "wire_ok client0" "token_ok client0"
proof -
  have "dumps ext0 '','' '':'' (PDict d) \<noteq> [] \<and> loads (dumps ext0 '','' '':'' (PDict d)) = Inr (PDict d)"
    if "pv_ok (PDict d)" for d
    using loads_dumps[OF exact_repr_ok _ that, of "'',''" "'':''"] by (simp add: seps_def)
  then show "wire_ok client0" by (simp add: wire_ok_def client0_def del: pv_ok.simps dumps.simps)
  show "token_ok client0" by (simp add: token_ok_def client0_def conf0_def)
qed

definition resp0 :: resp where
  "resp0 = \<lparr> rp_conf = conf0, rp_lossy = (\<lambda>b. b), rp_tick = (\<lambda>_. (0, [], 0)) \<rparr>"

lemma e0_store: "store_of e0 = mv_init"
  by (simp add: e0_def engine_new_def mat_init_def store_of_def)

lemma e0_empty: "live_doc c e0 = (\<lambda>_. None)"
  by (simp add: live_doc_def e0_store mv_init_def history_def fun_eq_iff dget_def visible_def)

lemma e0_cells: "cell_wf c e0" "cell_texts c e0 = Map.empty"
  by (simp_all add: cell_wf_def cell_texts_def e0_empty fun_eq_iff)

lemma resp0_kv: "kv_served resp0 (0, seq_new 512 e0) conn_init server0 Map.empty"
proof -
  have "holds KV_COLL (0, e0) (0, e0) Map.empty" by (simp add: holds_def e0_cells e0_steady)
  moreover have "quiet ext0 (seq_new 512 e0)"
    using engine_hist_ok[OF e0_ok] server0_facts(2) by (simp add: quiet_def seq_new_def)
  ultimately show ?thesis
    using server0_facts by (simp add: kv_served_def conn_init_def served_holds_def resp0_def conf0_def server0_def)
qed

end
