(* ===== verification/Proxy.thy ===== *)
theory Proxy
  imports HttpClient
begin

text \<open>
  \<open>NedBdProxy\<close> of \<open>nedb.wrap_redis\<close>: the engine interface of the Redis wrapper over the HTTP
  interface of a server, here the handler of the theory \<open>Server\<close>.  How the URL library and the
  server's URL parser pass a path is a parameter.  An error is the text of the \<open>RuntimeError\<close>.
\<close>

record proxy =
  px_conf :: config
  px_base :: string
  px_name :: string
  px_token :: string
  px_path :: "string \<Rightarrow> string"

text \<open>The last sequence number and head seen.\<close>

record seen =
  sn_seq :: pyval
  sn_head :: pyval

type_synonym pworld = "seen \<times> server"
type_synonym 'a px = "pworld \<Rightarrow> (string + 'a) \<times> pworld"

definition retP :: "'a \<Rightarrow> 'a px" where
  "retP x w = (Inr x, w)"

definition bindP :: "'a px \<Rightarrow> ('a \<Rightarrow> 'b px) \<Rightarrow> 'b px" where
  "bindP m f w = (case m w of (Inl t, w') \<Rightarrow> (Inl t, w') | (Inr a, w') \<Rightarrow> f a w')"

definition tryP :: "'a px \<Rightarrow> (string \<Rightarrow> 'a px) \<Rightarrow> 'a px" where
  \<comment> \<open>\<open>except RuntimeError as e\<close>\<close>
  "tryP m f w = (case m w of (Inl t, w') \<Rightarrow> f t w' | r \<Rightarrow> r)"

definition seen_init :: seen where
  "seen_init = \<lparr> sn_seq = PInt (-1), sn_head = PStr (replicate 64 CHR ''0'') \<rparr>"

definition remember :: "doc \<Rightarrow> seen \<Rightarrow> seen" where
  "remember d s =
     \<lparr> sn_seq = dget d ''seq'' (sn_seq s), sn_head = dget d ''head'' (sn_head s) \<rparr>"

definition error_detail :: "proxy \<Rightarrow> response \<Rightarrow> string" where
  "error_detail K r =
     (case r of
        Answer _ d \<Rightarrow> py_str (c_ext (px_conf K))
          (dget d ''error'' (PStr (dumps (c_ext (px_conf K)) '', '' '': '' (PDict d))))
      | Failure x \<Rightarrow> c_message (px_conf K) x)"

definition error_line :: "proxy \<Rightarrow> string \<Rightarrow> string \<Rightarrow> response \<Rightarrow> string" where
  \<comment> \<open>the text has an arrow where this one has \<open>->\<close>\<close>
  "error_line K meth path r =
     ''nedbd '' @ meth @ '' '' @ px_base K @ path @ '' -> HTTP '' @ show_int (status r) @ '': '' @ error_detail K r"

definition req :: "proxy \<Rightarrow> string \<Rightarrow> string \<Rightarrow> doc option \<Rightarrow> doc px" where
  "req K meth path payload w =
     (case w of (s, sv) \<Rightarrow>
        (case handle (px_conf K)
           \<lparr> rq_method = meth, rq_path = px_path K path, rq_query = [],
             rq_auth = (if px_token K = [] then [] else ''Bearer '' @ px_token K),
             rq_body = (case payload of None \<Rightarrow> []
               | Some d \<Rightarrow> dumps (c_ext (px_conf K)) '', '' '': '' (PDict d)) \<rparr> sv of
           (r, sv') \<Rightarrow>
             (if is_success r then (Inr (json r), (remember (json r) s, sv'))
              else (Inl (error_line K meth path r), (s, sv')))))"

definition px_db :: "proxy \<Rightarrow> string \<Rightarrow> string" where
  "px_db K suffix = ''/v1/databases/'' @ px_name K @ suffix"

definition refresh :: "proxy \<Rightarrow> unit px" where
  "refresh K = bindP (req K ''GET'' (px_db K []) None) (\<lambda>_. retP ())"

definition ensure_db :: "proxy \<Rightarrow> unit px" where
  "ensure_db K =
     tryP (refresh K) (\<lambda>t.
       if str_find ''404'' t then
         bindP (req K ''POST'' ''/v1/databases'' (Some [(''name'', PStr (px_name K))])) (\<lambda>_. retP ())
       else (\<lambda>w. (Inl t, w)))"

definition px_open :: "proxy \<Rightarrow> server \<Rightarrow> (string + unit) \<times> pworld" where
  \<comment> \<open>the constructor\<close>
  "px_open K sv = ensure_db K (seen_init, sv)"

section \<open>The engine interface\<close>

definition px_payload :: "string \<Rightarrow> string \<Rightarrow> doc \<Rightarrow> put_options \<Rightarrow> doc" where
  "px_payload coll i d po =
     [(''coll'', PStr coll), (''id'', PStr i), (''doc'', PDict d)] @
     given ''client'' PStr (po_client po) @ given ''nonce'' PInt (po_nonce po) @ given ''idem'' PStr (po_idem po) @
     given ''evidence'' PStr (po_evidence po) @ given ''confidence'' PFloat (po_conf po) @
     given ''valid_from'' PStr (po_from po) @ given ''valid_to'' PStr (po_to po) @
     given ''caused_by'' PList (po_caused po)"

definition px_put :: "proxy \<Rightarrow> string \<Rightarrow> string \<Rightarrow> doc \<Rightarrow> put_options \<Rightarrow> pyval px" where
  "px_put K coll i d po =
     bindP (req K ''POST'' (px_db K ''/put'') (Some (px_payload coll i d po))) (\<lambda>r.
       retP (dget r ''doc'' (PDict d)))"

definition px_rows :: "proxy \<Rightarrow> string \<Rightarrow> pyval list px" where
  "px_rows K nql =
     bindP (req K ''POST'' (px_db K ''/query'') (Some [(''nql'', PStr nql)])) (\<lambda>r. retP (rows_in r))"

definition as_of_clause :: "int option \<Rightarrow> string" where
  "as_of_clause as_of = (case as_of of None \<Rightarrow> [] | Some n \<Rightarrow> '' AS OF '' @ show_int n)"

definition quoted :: "string \<Rightarrow> string" where
  "quoted s = [CHR 0x22] @ s @ [CHR 0x22]"

definition px_get :: "proxy \<Rightarrow> string \<Rightarrow> string \<Rightarrow> int option \<Rightarrow> pyval option px" where
  "px_get K coll i as_of =
     bindP (px_rows K (''FROM '' @ coll @ as_of_clause as_of @ '' WHERE _id = '' @ quoted i)) (\<lambda>rows.
       retP (case rows of [] \<Rightarrow> None | v # _ \<Rightarrow> Some v))"

definition px_query :: "proxy \<Rightarrow> string \<Rightarrow> pyval list px" where
  "px_query K nql = px_rows K nql"

definition px_create_index :: "proxy \<Rightarrow> string \<Rightarrow> string \<Rightarrow> string \<Rightarrow> unit px" where
  "px_create_index K coll field kind =
     bindP (req K ''POST'' (px_db K ''/index'')
       (Some [(''coll'', PStr coll), (''field'', PStr field), (''kind'', PStr kind)])) (\<lambda>_. retP ())"

definition px_delete :: "proxy \<Rightarrow> string \<Rightarrow> string \<Rightarrow> unit px" where
  "px_delete K coll i = bindP (req K ''DELETE'' (px_db K (''/rows/'' @ coll @ ''/'' @ i)) None) (\<lambda>_. retP ())"

definition edge_id :: "string \<Rightarrow> string \<Rightarrow> string \<Rightarrow> string" where
  "edge_id f r t = f @ ''|'' @ r @ ''|'' @ t"

definition px_link :: "proxy \<Rightarrow> string \<Rightarrow> string \<Rightarrow> string \<Rightarrow> unit px" where
  "px_link K f r t =
     tryP (bindP (req K ''POST'' (px_db K ''/link'')
         (Some [(''frm'', PStr f), (''rel'', PStr r), (''to'', PStr t)])) (\<lambda>_. retP ())) (\<lambda>e.
       if str_find ''404'' e \<or> str_find ''not found'' (str_lower e) then
         bindP (req K ''POST'' (px_db K ''/put'')
           (Some [(''coll'', PStr ''__links__''), (''id'', PStr (edge_id f r t)),
                  (''doc'', PDict [(''_from'', PStr f), (''_rel'', PStr r), (''_to'', PStr t)])])) (\<lambda>_. retP ())
       else (\<lambda>w. (Inl e, w)))"

definition px_unlink :: "proxy \<Rightarrow> string \<Rightarrow> string \<Rightarrow> string \<Rightarrow> unit px" where
  "px_unlink K f r t =
     tryP (bindP (req K ''DELETE'' (px_db K (''/links/'' @ f @ ''/'' @ r @ ''/'' @ t)) None) (\<lambda>_. retP ())) (\<lambda>_.
       tryP (bindP (req K ''DELETE'' (px_db K (''/rows/__links__/'' @ edge_id f r t)) None) (\<lambda>_. retP ())) (\<lambda>_.
         retP ()))"

definition node_parts :: "string \<Rightarrow> string \<times> string" where
  \<comment> \<open>\<open>(node.split(":", 1) + [""])[:2]\<close>\<close>
  "node_parts node = (takeWhile (\<lambda>c. c \<noteq> CHR '':'') node, drop 1 (dropWhile (\<lambda>c. c \<noteq> CHR '':'') node))"

definition node_names :: "proxy \<Rightarrow> string \<Rightarrow> pyval list \<Rightarrow> string list" where
  \<comment> \<open>\<open>[f"{r.get('_coll', coll)}:{r['_id']}" for r in rows if "_id" in r]\<close>\<close>
  "node_names K coll rows =
     concat (map (\<lambda>v. case v of
        PDict r \<Rightarrow> (case map_of r ''_id'' of
            None \<Rightarrow> []
          | Some i \<Rightarrow> [py_str (c_ext (px_conf K)) (dget r ''_coll'' (PStr coll)) @ '':'' @ py_str (c_ext (px_conf K)) i])
      | _ \<Rightarrow> []) rows)"

definition px_neighbors :: "proxy \<Rightarrow> string \<Rightarrow> string \<Rightarrow> int option \<Rightarrow> string list px" where
  "px_neighbors K f rel as_of =
     (case node_parts f of (c, i) \<Rightarrow>
        bindP (px_rows K (''FROM '' @ c @ as_of_clause as_of @ '' WHERE _id = '' @ quoted i @ '' TRAVERSE '' @ rel))
          (\<lambda>rows. retP (node_names K c rows)))"

definition inbound_text :: "string \<Rightarrow> string \<Rightarrow> string" where
  "inbound_text to rel =
     (case node_parts to of (c, i) \<Rightarrow>
        ''FROM '' @ c @ '' WHERE _id = '' @ quoted i @ '' TRAVERSE '' @ rel @ '' REVERSE'')"

definition px_inbound :: "proxy \<Rightarrow> string \<Rightarrow> string \<Rightarrow> string list px" where
  "px_inbound K to rel =
     tryP (bindP (px_rows K (inbound_text to rel)) (\<lambda>rows. retP (node_names K (fst (node_parts to)) rows)))
       (\<lambda>_. retP [])"

definition px_verify :: "proxy \<Rightarrow> bool px" where
  "px_verify K = bindP (req K ''GET'' (px_db K ''/verify'') None) (\<lambda>r. retP (truth_in r ''ok''))"

definition px_checkpoint :: "proxy \<Rightarrow> pyval px" where
  "px_checkpoint K w =
     bindP (req K ''POST'' (px_db K ''/checkpoint'') None) (\<lambda>r w'. (Inr (dget r ''head'' (sn_head (fst w'))), w')) w"

definition px_batch :: "proxy \<Rightarrow> pyval list \<Rightarrow> int px" where
  \<comment> \<open>the request of \<open>_backfill_one\<close>\<close>
  "px_batch K ops =
     bindP (req K ''POST'' (px_db K ''/batch'') (Some [(''ops'', PList ops)])) (\<lambda>r.
       retP (case dget r ''count'' (PInt (int (length ops))) of PInt n \<Rightarrow> n | _ \<Rightarrow> 0))"

end
