(* ===== verification/RedisStream.thy ===== *)
theory RedisStream
  imports Crypto
begin

text \<open>
  \<open>RedisBackend\<close> of \<open>nedb.backends.redis_backend\<close>: the operations of a database in a Redis stream,
  under keys of its own.  The Redis connection is a parameter: the commands the code issues, on a
  state of any type.  A connection that fails is not modelled, except for a read of a key that
  holds another type, which raises.
\<close>

record 'r remote =
  rm_xadd :: "string \<Rightarrow> string \<Rightarrow> 'r \<Rightarrow> 'r" \<comment> \<open>\<open>XADD key * op text\<close>\<close>
  rm_xrange :: "string \<Rightarrow> string \<Rightarrow> 'r \<Rightarrow> string list" \<comment> \<open>the field \<open>op\<close> of \<open>XRANGE key start +\<close>\<close>
  rm_xlen :: "string \<Rightarrow> 'r \<Rightarrow> int"
  rm_publish :: "string \<Rightarrow> string \<Rightarrow> 'r \<Rightarrow> 'r"
  rm_hset :: "string \<Rightarrow> (string, string) dict \<Rightarrow> 'r \<Rightarrow> 'r"
  rm_hgetall :: "string \<Rightarrow> 'r \<Rightarrow> (string, string) dict res"
  rm_get :: "string \<Rightarrow> 'r \<Rightarrow> string option res"
  rm_scan :: "nat \<Rightarrow> string \<Rightarrow> int \<Rightarrow> 'r \<Rightarrow> nat \<times> string list" \<comment> \<open>cursor, pattern, count\<close>
  rm_delete :: "string \<Rightarrow> 'r \<Rightarrow> 'r"

record backend =
  bk_name :: string
  bk_stream :: string
  bk_snap :: string
  bk_meta :: string
  bk_events :: string

definition backend_of :: "string \<Rightarrow> backend" where
  "backend_of name =
     \<lparr> bk_name = name, bk_stream = ''nedb:'' @ name @ '':oplog'', bk_snap = ''nedb:'' @ name @ '':snapshot'',
       bk_meta = ''nedb:'' @ name @ '':meta'', bk_events = ''nedb:'' @ name @ '':events'' \<rparr>"

definition bk_append :: "'r remote \<Rightarrow> backend \<Rightarrow> string \<Rightarrow> 'r \<Rightarrow> 'r" where
  "bk_append R b op_json = rm_xadd R (bk_stream b) op_json"

definition bk_append_batch :: "'r remote \<Rightarrow> backend \<Rightarrow> string list \<Rightarrow> 'r \<Rightarrow> 'r" where
  \<comment> \<open>a pipeline\<close>
  "bk_append_batch R b ops = fold (rm_xadd R (bk_stream b)) ops"

definition bk_read_all :: "'r remote \<Rightarrow> backend \<Rightarrow> 'r \<Rightarrow> string list" where
  "bk_read_all R b = rm_xrange R (bk_stream b) ''-''"

definition bk_read_after :: "'r remote \<Rightarrow> backend \<Rightarrow> string \<Rightarrow> 'r \<Rightarrow> string list" where
  "bk_read_after R b last_id = rm_xrange R (bk_stream b) (''('' @ last_id)"

text \<open>The client encodes texts in UTF-8 and returns bytes.\<close>

definition dump_fields :: "ext \<Rightarrow> doc \<Rightarrow> (string, string) dict" where
  "dump_fields X d = map (\<lambda>(k, v). (utf8_encode k, utf8_encode (dumps X '','' '':'' v))) d"

definition load_fields :: "(string, string) dict \<Rightarrow> doc res" where
  "load_fields raw =
     mapE (\<lambda>(k, v). bindE (utf8_decode k) (\<lambda>k. bindE (bindE (utf8_decode v) loads) (\<lambda>x. Inr (k, x)))) raw"

definition bk_save_snapshot :: "'r remote \<Rightarrow> backend \<Rightarrow> ext \<Rightarrow> doc \<Rightarrow> 'r \<Rightarrow> 'r" where
  "bk_save_snapshot R b X d = rm_hset R (bk_snap b) (dump_fields X d)"

definition bk_load_snapshot :: "'r remote \<Rightarrow> backend \<Rightarrow> 'r \<Rightarrow> doc option res" where
  "bk_load_snapshot R b r =
     bindE (rm_hgetall R (bk_snap b) r) (\<lambda>raw.
       if raw = [] then Inr None else bindE (load_fields raw) (\<lambda>d. Inr (Some d)))"

definition bk_publish_ops :: "'r remote \<Rightarrow> backend \<Rightarrow> ext \<Rightarrow> string list \<Rightarrow> 'r \<Rightarrow> 'r" where
  "bk_publish_ops R b X ops r =
     (if ops = [] then r else rm_publish R (bk_events b) (dumps X '','' '':'' (PList (map PStr ops))) r)"

definition bk_save_meta :: "'r remote \<Rightarrow> backend \<Rightarrow> ext \<Rightarrow> doc \<Rightarrow> 'r \<Rightarrow> 'r" where
  "bk_save_meta R b X d = rm_hset R (bk_meta b) (dump_fields X d)"

definition bk_load_meta :: "'r remote \<Rightarrow> backend \<Rightarrow> 'r \<Rightarrow> doc res" where
  "bk_load_meta R b r = bindE (rm_hgetall R (bk_meta b) r) load_fields"

definition bk_stream_len :: "'r remote \<Rightarrow> backend \<Rightarrow> 'r \<Rightarrow> int" where
  "bk_stream_len R b = rm_xlen R (bk_stream b)"

definition bk_flush :: "'r remote \<Rightarrow> backend \<Rightarrow> 'r \<Rightarrow> 'r" where
  "bk_flush R b = fold (rm_delete R) [bk_stream b, bk_snap b, bk_meta b]"

text \<open>
  What the code relies on of the stream commands: an entry is added at the end of its stream, and
  publishing adds none.
\<close>

definition streams_ok :: "'r remote \<Rightarrow> bool" where
  "streams_ok R \<longleftrightarrow>
     (\<forall>k t k' r. rm_xrange R k' ''-'' (rm_xadd R k t r) =
        (if k' = k then rm_xrange R k' ''-'' r @ [t] else rm_xrange R k' ''-'' r)) \<and>
     (\<forall>c m k' r. rm_xrange R k' ''-'' (rm_publish R c m r) = rm_xrange R k' ''-'' r)"

lemma read_append:
  "streams_ok R \<Longrightarrow> bk_read_all R b (bk_append R b t r) = bk_read_all R b r @ [t]"
  "streams_ok R \<Longrightarrow> bk_read_all R b (bk_publish_ops R b X ops r) = bk_read_all R b r"
  by (simp_all add: streams_ok_def bk_read_all_def bk_append_def bk_publish_ops_def)

lemma read_append_batch:
  "streams_ok R \<Longrightarrow> bk_read_all R b (bk_append_batch R b ops r) = bk_read_all R b r @ ops"
proof (induction ops arbitrary: r)
  case (Cons t ops)
  have "bk_append_batch R b (t # ops) r = bk_append_batch R b ops (bk_append R b t r)"
    by (simp add: bk_append_batch_def bk_append_def)
  with Cons read_append(1)[of R b t r] show ?case by simp
qed (simp add: bk_append_batch_def)

text \<open>Two databases of one server use different keys.\<close>

lemma streams_distinct:
  assumes "a \<noteq> b"
  shows "bk_stream (backend_of a) \<noteq> bk_stream (backend_of b)"
  using assms by (simp add: backend_of_def)

text \<open>What a snapshot stores is what loading returns.\<close>

lemma load_dump_fields:
  assumes "frepr_ok X" "pv_ok (PDict d)"
  shows "load_fields (dump_fields X d) = Inr d"
  using assms(2)
proof (induction d)
  case (Cons kv d)
  then have "pv_ok (snd kv)" "pv_ok (PDict d)" by (cases kv; simp)+
  with Cons.IH assms(1) show ?case
    by (cases kv) (simp add: load_fields_def dump_fields_def loads_dumps del: pv_ok.simps dumps.simps)
qed (simp add: load_fields_def dump_fields_def)

end
