(* ===== verification/Surface.thy ===== *)
theory Surface
  imports Proxy RedisStream Reload Glob
begin

text \<open>
  \<open>NEDBSurface\<close> and \<open>WrappedRedis\<close> of \<open>nedb.wrap_redis\<close>: a database beside an existing Redis
  connection.  The database is the in-process engine, whose operations are kept in a Redis stream, or
  a server behind \<open>NedBdProxy\<close>; both are values of the interface \<open>nedb\<close>.  The Redis connection
  is a parameter (\<open>RedisStream.remote\<close>) and returns bytes, as \<open>RedisBackend\<close> requires.
\<close>

section \<open>Values of the Redis client\<close>

text \<open>Texts, bytes, other scalars, a hash as \<open>HGETALL\<close> returns it, and a document.\<close>

datatype raw = VText string | VBytes string | VNum pyval | VHash "(string \<times> string) list" | VDoc doc

definition bytes_repr :: "string \<Rightarrow> string" where
  \<comment> \<open>\<open>repr\<close> of bytes\<close>
  "bytes_repr b =
     (let q = (if CHR 0x27 \<in> set b \<and> CHR 0x22 \<notin> set b then CHR 0x22 else CHR 0x27);
          esc = (\<lambda>c. let n = (of_char c :: nat) in
            if c = q \<or> n = 92 then [CHR 0x5C, c]
            else if n = 10 then [CHR 0x5C, CHR ''n'']
            else if n = 13 then [CHR 0x5C, CHR ''r'']
            else if n = 9 then [CHR 0x5C, CHR ''t'']
            else if n < 32 \<or> 127 \<le> n then CHR 0x5C # CHR ''x'' # hex2 n
            else [c])
      in CHR ''b'' # q # concat (map esc b) @ [q])"

definition raw_str :: "ext \<Rightarrow> raw \<Rightarrow> string" where
  \<comment> \<open>\<open>str(v)\<close>\<close>
  "raw_str X v =
     (case v of
        VText s \<Rightarrow> s
      | VBytes b \<Rightarrow> bytes_repr b
      | VNum x \<Rightarrow> py_str X x
      | VHash kvs \<Rightarrow> ''{'' @ join '', '' (map (\<lambda>(k, x). bytes_repr k @ '': '' @ bytes_repr x) kvs) @ ''}''
      | VDoc d \<Rightarrow> py_str X (PDict d))"

definition merged :: "doc \<Rightarrow> doc \<Rightarrow> doc" where
  \<comment> \<open>\<open>{**a, **b}\<close>, and the dict of the pairs \<open>b\<close> when \<open>a\<close> is empty\<close>
  "merged a b = fold (\<lambda>(k, v). dset k v) b a"

section \<open>\<open>CollectionMapping\<close>\<close>

record cmap =
  cm_pattern :: string
  cm_coll :: string
  cm_id :: "string \<Rightarrow> string res"
  cm_parse :: "raw \<Rightarrow> doc res"
  cm_type :: string

definition default_id :: "string \<Rightarrow> string res" where
  \<comment> \<open>\<open>k.rsplit(":", 1)[-1]\<close>\<close>
  "default_id k = Inr (rev (takeWhile (\<lambda>c. c \<noteq> CHR '':'') (rev k)))"

definition parse_text :: "string \<Rightarrow> doc res" where
  "parse_text s =
     (case loads s of
        Inr (PDict d) \<Rightarrow> Inr d
      | Inr v \<Rightarrow> Inr [(''_v'', v)]
      | Inl Untyped \<Rightarrow> Inl Untyped
      | Inl _ \<Rightarrow> Inr [(''_v'', PStr s)])"

definition default_parse :: "ext \<Rightarrow> raw \<Rightarrow> doc res" where
  "default_parse X v =
     (case v of
        VBytes b \<Rightarrow> bindE (utf8_decode b) parse_text
      | VText s \<Rightarrow> parse_text s
      | VHash kvs \<Rightarrow>
          bindE (mapE (\<lambda>(k, x). bindE (utf8_decode k) (\<lambda>k. bindE (utf8_decode x) (\<lambda>x. Inr (k, PStr x)))) kvs)
            (\<lambda>d. Inr (merged [] d))
      | VDoc d \<Rightarrow> Inr d
      | VNum x \<Rightarrow> Inr [(''_v'', PStr (py_str X x))])"

definition mapping_of :: "ext \<Rightarrow> string \<Rightarrow> string \<Rightarrow> (string \<Rightarrow> string res) option \<Rightarrow> (raw \<Rightarrow> doc res) option \<Rightarrow>
    string \<Rightarrow> cmap" where
  \<comment> \<open>the constructor\<close>
  "mapping_of X pattern coll idx parser type =
     \<lparr> cm_pattern = pattern, cm_coll = coll, cm_id = (case idx of None \<Rightarrow> default_id | Some f \<Rightarrow> f),
       cm_parse = (case parser of None \<Rightarrow> default_parse X | Some f \<Rightarrow> f), cm_type = type \<rparr>"

section \<open>The two databases\<close>

text \<open>Keyword arguments of the writing methods.\<close>

record kwargs =
  kw_client :: "string option"
  kw_nonce :: "int option"
  kw_idem :: "string option"
  kw_ttl :: "rat option"
  kw_prov :: prov

definition no_kwargs :: kwargs where
  "no_kwargs = \<lparr> kw_client = None, kw_nonce = None, kw_idem = None, kw_ttl = None, kw_prov = no_prov \<rparr>"

record 'd nedb =
  nd_put :: "string \<Rightarrow> string \<Rightarrow> doc \<Rightarrow> kwargs \<Rightarrow> ('d, pyval) prog"
  nd_get :: "string \<Rightarrow> string \<Rightarrow> int option \<Rightarrow> ('d, pyval option) prog"
  nd_delete :: "string \<Rightarrow> string \<Rightarrow> kwargs \<Rightarrow> ('d, unit) prog"
  nd_query :: "string \<Rightarrow> ('d, pyval list) prog"
  nd_create_index :: "string \<Rightarrow> string \<Rightarrow> string \<Rightarrow> ('d, unit) prog"
  nd_link :: "string \<Rightarrow> string \<Rightarrow> string \<Rightarrow> kwargs \<Rightarrow> ('d, unit) prog"
  nd_unlink :: "string \<Rightarrow> string \<Rightarrow> string \<Rightarrow> kwargs \<Rightarrow> ('d, unit) prog"
  nd_neighbors :: "string \<Rightarrow> string \<Rightarrow> int option \<Rightarrow> ('d, string list) prog"
  nd_inbound :: "string \<Rightarrow> string \<Rightarrow> int option \<Rightarrow> ('d, string list) prog"
  nd_verify :: "('d, bool) prog"
  nd_checkpoint :: "('d, pyval) prog"
  nd_head :: "'d \<Rightarrow> pyval"
  nd_seq :: "'d \<Rightarrow> pyval"
  nd_ops :: "'d \<Rightarrow> oprec list" \<comment> \<open>\<open>_db.log.ops\<close>; used in process only\<close>
  nd_batch :: "pyval list \<Rightarrow> ('d, int) prog" \<comment> \<open>the \<open>/batch\<close> request; used through the proxy only\<close>

definition client_of :: "kwargs \<Rightarrow> string" where
  "client_of kw = (case kw_client kw of None \<Rightarrow> ''local'' | Some c \<Rightarrow> c)"

definition in_process :: "ext \<Rightarrow> (nat \<Rightarrow> env) \<Rightarrow> world nedb" where
  "in_process X W = \<lparr>
     nd_put = (\<lambda>coll i d kw.
       bindM (callM W (\<lambda>V. eng_put X V coll i d (client_of kw) (kw_nonce kw) (kw_idem kw) (kw_ttl kw) (kw_prov kw)))
         (\<lambda>x. retM (doc_value x))),
     nd_get = (\<lambda>coll i as_of. bindM (callM W (\<lambda>V. eng_get X V coll i as_of)) (\<lambda>x. retM (map_option PDict x))),
     nd_delete = (\<lambda>coll i kw. callM W (\<lambda>V. eng_delete X V coll i (client_of kw) (kw_nonce kw) (kw_idem kw))),
     nd_query = (\<lambda>nql. bindM (m_query X nql) (\<lambda>ds. retM (map PDict ds))),
     nd_create_index = m_index X,
     nd_link = (\<lambda>f r t kw. callM W (\<lambda>V. eng_link X V f r t (client_of kw) (kw_nonce kw))),
     nd_unlink = (\<lambda>f r t kw. callM W (\<lambda>V. eng_unlink X V f r t (client_of kw) (kw_nonce kw))),
     nd_neighbors = (\<lambda>f r as_of. readM (\<lambda>e. Inr (eng_neighbors f r as_of e))),
     nd_inbound = (\<lambda>t r as_of. readM (\<lambda>e. Inr (eng_inbound t r as_of e))),
     nd_verify = readM (\<lambda>e. Inr (eng_verify X e)),
     nd_checkpoint = bindM (callM W (save_snapshot X)) (\<lambda>h. retM (PStr h)),
     nd_head = (\<lambda>w. PStr (eng_head (snd w))),
     nd_seq = (\<lambda>w. PInt (eng_seq (snd w))),
     nd_ops = (\<lambda>w. l_ops (e_log (snd w))),
     nd_batch = (\<lambda>_. raiseM AttrErr) \<rparr>"

definition proxied :: "'a px \<Rightarrow> (pworld, 'a) prog" where
  "proxied m w = (case m w of (Inl _, w') \<Rightarrow> (Inl RuntimeErr, w') | (Inr a, w') \<Rightarrow> (Inr a, w'))"

definition sent_options :: "kwargs \<Rightarrow> put_options" where
  "sent_options kw =
     \<lparr> po_caused = map_option (map PInt) (p_caused (kw_prov kw)), po_from = p_from (kw_prov kw), po_to = p_to (kw_prov kw),
       po_evidence = p_evidence (kw_prov kw), po_conf = p_conf (kw_prov kw), po_idem = kw_idem kw,
       po_nonce = kw_nonce kw, po_client = kw_client kw \<rparr>"

definition nedbd :: "proxy \<Rightarrow> pworld nedb" where
  "nedbd K = \<lparr>
     nd_put = (\<lambda>coll i d kw. proxied (px_put K coll i d (sent_options kw))),
     nd_get = (\<lambda>coll i as_of. proxied (px_get K coll i as_of)),
     nd_delete = (\<lambda>coll i _. proxied (px_delete K coll i)),
     nd_query = (\<lambda>nql. proxied (px_query K nql)),
     nd_create_index = (\<lambda>c f k. proxied (px_create_index K c f k)),
     nd_link = (\<lambda>f r t _. proxied (px_link K f r t)),
     nd_unlink = (\<lambda>f r t _. proxied (px_unlink K f r t)),
     nd_neighbors = (\<lambda>f r as_of. proxied (px_neighbors K f r as_of)),
     nd_inbound = (\<lambda>t r _. proxied (px_inbound K t r)),
     nd_verify = proxied (px_verify K),
     nd_checkpoint = proxied (px_checkpoint K),
     nd_head = (\<lambda>w. sn_head (fst w)),
     nd_seq = (\<lambda>w. sn_seq (fst w)),
     nd_ops = (\<lambda>_. []),
     nd_batch = (\<lambda>ops. proxied (px_batch K ops)) \<rparr>"

section \<open>\<open>NEDBSurface\<close>\<close>

record ('d, 'r) surface =
  sf_ext :: ext
  sf_nedb :: "'d nedb"
  sf_redis :: "'r remote"
  sf_backend :: backend
  sf_nedbd :: bool

record ('d, 'r) sstate =
  st_db :: 'd
  st_redis :: 'r
  st_maps :: "cmap list"
  st_shadow :: bool
  st_filled :: bool

type_synonym ('d, 'r, 'a) surf = "(('d, 'r) sstate, 'a) prog"

definition on_db :: "('d, 'a) prog \<Rightarrow> ('d, 'r, 'a) surf" where
  "on_db m st = (case m (st_db st) of (r, d) \<Rightarrow> (r, st\<lparr> st_db := d \<rparr>))"

definition readR :: "('r \<Rightarrow> 'a res) \<Rightarrow> ('d, 'r, 'a) surf" where
  "readR f st = (f (st_redis st), st)"

definition swallow :: "('w, 'a) prog \<Rightarrow> 'a \<Rightarrow> ('w, 'a) prog" where
  \<comment> \<open>\<open>except Exception: pass\<close>, with what the code goes on with\<close>
  "swallow m x w = (case m w of (Inl ex, w') \<Rightarrow> (if ex = Untyped then Inl Untyped else Inr x, w') | r \<Rightarrow> r)"

subsection \<open>Persistence\<close>

fun read_entries :: "string list \<Rightarrow> oprec list res" where
  "read_entries [] = Inr []"
| "read_entries (s # ss) =
     (case parse_line s of
        Inl x \<Rightarrow> if x = Untyped then Inl Untyped else read_entries ss
      | Inr r \<Rightarrow> bindE (read_entries ss) (\<lambda>rs. Inr (r # rs)))"

definition surface_reload :: "string list \<Rightarrow> engine \<Rightarrow> unit call" where
  "surface_reload ops_json e =
     (case read_entries ops_json of
        Inl x \<Rightarrow> (Inl x, e)
      | Inr ops \<Rightarrow>
          if ops = [] then (Inr (), e)
          else bindC (on_mat (fold_ops True (filter (\<lambda>r. o_op r \<noteq> ''checkpoint'') ops)) (e\<lparr> e_log := log_load ops \<rparr>))
            (\<lambda>_ e. (Inr (), e\<lparr> e_nonce := l_last (e_log e) \<rparr>)))"

definition sstate_of :: "'d \<Rightarrow> 'r \<Rightarrow> ('d, 'r) sstate" where
  "sstate_of d r = \<lparr> st_db = d, st_redis = r, st_maps = [], st_shadow = False, st_filled = False \<rparr>"

definition surface_open :: "'r remote \<Rightarrow> string \<Rightarrow> 'r \<Rightarrow> (world, 'r) sstate res" where
  \<comment> \<open>the constructor, in process: an engine in memory\<close>
  "surface_open R name r =
     (case surface_reload (bk_read_all R (backend_of name) r) (engine_new False None empty_disk) of
        (Inl x, _) \<Rightarrow> Inl x
      | (Inr _, e) \<Rightarrow> Inr (sstate_of (0, e) r))"

definition surface_open_nedbd :: "proxy \<Rightarrow> server \<Rightarrow> 'r \<Rightarrow> (pworld, 'r) sstate res" where
  "surface_open_nedbd K sv r =
     (case px_open K sv of (Inl _, _) \<Rightarrow> Inl RuntimeErr | (Inr _, w) \<Rightarrow> Inr (sstate_of w r))"

definition persist_last_op :: "('d, 'r) surface \<Rightarrow> ('d, 'r, unit) surf" where
  "persist_last_op F st =
     (if sf_nedbd F then (Inr (), st)
      else (case nd_ops (sf_nedb F) (st_db st) of
              [] \<Rightarrow> (Inr (), st)
            | ops \<Rightarrow>
                (let t = op_line (sf_ext F) (last ops) in
                 (Inr (), st\<lparr> st_redis := bk_publish_ops (sf_redis F) (sf_backend F) (sf_ext F) [t]
                    (bk_append (sf_redis F) (sf_backend F) t (st_redis st)) \<rparr>))))"

subsection \<open>Registration\<close>

definition register :: "cmap \<Rightarrow> ('d, 'r, unit) surf" where
  "register m st = (Inr (), st\<lparr> st_maps := st_maps st @ [m] \<rparr>)"

fun mapping_in :: "string \<Rightarrow> cmap list \<Rightarrow> cmap option" where
  "mapping_in key [] = None"
| "mapping_in key (m # ms) = (if fnmatch (cm_pattern m) key then Some m else mapping_in key ms)"

definition mapping_for :: "string \<Rightarrow> ('d, 'r) sstate \<Rightarrow> cmap option" where
  "mapping_for key st = mapping_in key (st_maps st)"

subsection \<open>Backfill\<close>

text \<open>The keys counted and, through the proxy, the writes collected.\<close>

type_synonym fill = "int \<times> pyval list"

definition flush_pending :: "('d, 'r) surface \<Rightarrow> fill \<Rightarrow> ('d, 'r, fill) surf" where
  \<comment> \<open>\<open>count += _flush()\<close>\<close>
  "flush_pending F acc =
     (if snd acc = [] \<or> \<not> sf_nedbd F then retM acc
      else bindM (swallow (on_db (nd_batch (sf_nedb F) (snd acc))) 0) (\<lambda>n. retM (fst acc + n, [])))"

definition raw_of :: "('d, 'r) surface \<Rightarrow> cmap \<Rightarrow> string \<Rightarrow> ('d, 'r, raw option) surf" where
  "raw_of F m key =
     readR (\<lambda>r. if cm_type m = ''hash'' then bindE (rm_hgetall (sf_redis F) key r) (\<lambda>kvs. Inr (Some (VHash kvs)))
       else bindE (rm_get (sf_redis F) key r) (\<lambda>v. Inr (map_option VBytes v)))"

definition mark :: "string \<Rightarrow> kwargs \<Rightarrow> kwargs" where
  "mark c kw = kw\<lparr> kw_client := Some c \<rparr>"

definition evidence :: "string \<Rightarrow> rat option \<Rightarrow> kwargs" where
  "evidence t conf = no_kwargs\<lparr> kw_prov := no_prov\<lparr> p_evidence := Some t, p_conf := conf \<rparr> \<rparr>"

definition put_op :: "string \<Rightarrow> string \<Rightarrow> doc \<Rightarrow> pyval" where
  "put_op coll i d = PDict [(''op'', PStr ''put''), (''coll'', PStr coll), (''id'', PStr i), (''doc'', PDict d)]"

definition fill_doc :: "('d, 'r) surface \<Rightarrow> cmap \<Rightarrow> string \<Rightarrow> doc \<Rightarrow> fill \<Rightarrow> ('d, 'r, fill) surf" where
  "fill_doc F m i d acc =
     (if sf_nedbd F then
        (let pending = snd acc @ [put_op (cm_coll m) i d] in
         if 500 \<le> length pending then flush_pending F (fst acc, pending) else retM (fst acc, pending))
      else
        bindM (on_db (nd_put (sf_nedb F) (cm_coll m) i d (mark ''__backfill__'' (evidence ''backfill'' (Some 1))))) (\<lambda>_.
        bindM (persist_last_op F) (\<lambda>_. retM (fst acc + 1, []))))"

definition fill_key :: "('d, 'r) surface \<Rightarrow> cmap \<Rightarrow> string \<Rightarrow> fill \<Rightarrow> ('d, 'r, fill) surf" where
  \<comment> \<open>one key; what goes wrong in reading or writing it skips it\<close>
  "fill_key F m raw_key acc =
     bindM (liftM (utf8_decode raw_key)) (\<lambda>key.
     bindM (liftM (cm_id m key)) (\<lambda>i.
       swallow
         (bindM (raw_of F m key) (\<lambda>v.
            case v of
              None \<Rightarrow> retM acc
            | Some v \<Rightarrow>
                bindM (liftM (cm_parse m v)) (\<lambda>d. fill_doc F m i (setdefault ''_source'' (PStr ''backfill'') d) acc)))
         acc))"

partial_function (option) scan_loop :: "('d, 'r) surface \<Rightarrow> cmap \<Rightarrow> int \<Rightarrow> nat \<Rightarrow> fill \<Rightarrow> ('d, 'r) sstate \<Rightarrow>
    (fill res \<times> ('d, 'r) sstate) option" where
  "scan_loop F m sz cursor acc st =
     (case rm_scan (sf_redis F) cursor (cm_pattern m) sz (st_redis st) of
        (next, keys) \<Rightarrow>
          (case foldM (fill_key F m) keys acc st of
             (Inl x, st1) \<Rightarrow> Some (Inl x, st1)
           | (Inr acc1, st1) \<Rightarrow>
               if next = 0 then Some (Inr acc1, st1) else scan_loop F m sz next acc1 st1))"

definition backfill_one :: "('d, 'r) surface \<Rightarrow> cmap \<Rightarrow> int \<Rightarrow> ('d, 'r) sstate \<Rightarrow> (int res \<times> ('d, 'r) sstate) option" where
  "backfill_one F m sz st =
     (case scan_loop F m sz 0 (0, []) st of
        None \<Rightarrow> None
      | Some (Inl x, st1) \<Rightarrow> Some (Inl x, st1)
      | Some (Inr acc, st1) \<Rightarrow>
          (case flush_pending F acc st1 of
             (Inl x, st2) \<Rightarrow> Some (Inl x, st2)
           | (Inr (n, _), st2) \<Rightarrow> Some (Inr n, st2)))"

fun backfill_all :: "('d, 'r) surface \<Rightarrow> cmap list \<Rightarrow> int \<Rightarrow> int \<Rightarrow> ('d, 'r) sstate \<Rightarrow>
    (int res \<times> ('d, 'r) sstate) option" where
  "backfill_all F [] sz tot st = Some (Inr tot, st\<lparr> st_filled := True \<rparr>)"
| "backfill_all F (m # ms) sz tot st =
     (case backfill_one F m sz st of
        None \<Rightarrow> None
      | Some (Inl x, st1) \<Rightarrow> Some (Inl x, st1)
      | Some (Inr n, st1) \<Rightarrow> backfill_all F ms sz (tot + n) st1)"

definition before_colon :: "string \<Rightarrow> string" where
  \<comment> \<open>\<open>pattern.split(":")[0]\<close>\<close>
  "before_colon s = takeWhile (\<lambda>c. c \<noteq> CHR '':'') s"

definition surface_backfill :: "('d, 'r) surface \<Rightarrow> (string \<times> string \<times> (string \<Rightarrow> string res) option \<times>
    (raw \<Rightarrow> doc res) option \<times> string) option \<Rightarrow> int \<Rightarrow> ('d, 'r) sstate \<Rightarrow> (int res \<times> ('d, 'r) sstate) option" where
  \<comment> \<open>the pattern with its collection (empty: not given), extractor, parser and type, or none\<close>
  "surface_backfill F arg sz st =
     (let ms = (case arg of
          None \<Rightarrow> st_maps st
        | Some (pattern, coll, idx, parser, type) \<Rightarrow>
            [mapping_of (sf_ext F) pattern (if coll = [] then before_colon pattern else coll) idx parser type])
      in if ms = [] then Some (Inr 0, st) else backfill_all F ms sz 0 st)"

subsection \<open>Shadow writes\<close>

text \<open>The keyword argument \<open>mapping\<close> of \<open>hset\<close>, if given; no other is looked at.\<close>

definition text_of :: "ext \<Rightarrow> raw \<Rightarrow> string res" where
  \<comment> \<open>\<open>v.decode() if isinstance(v, bytes) else str(v)\<close>\<close>
  "text_of X v = (case v of VBytes b \<Rightarrow> utf8_decode b | _ \<Rightarrow> Inr (raw_str X v))"

fun pair_args :: "raw list \<Rightarrow> (raw \<times> raw) list" where
  "pair_args (a # b # vs) = (a, b) # pair_args vs"
| "pair_args _ = []"

definition str_pairs :: "ext \<Rightarrow> (raw \<times> raw) list \<Rightarrow> doc" where
  "str_pairs X kvs = map (\<lambda>(k, v). (raw_str X k, PStr (raw_str X v))) kvs"

definition decoded_pairs :: "ext \<Rightarrow> (raw \<times> raw) list \<Rightarrow> doc res" where
  "decoded_pairs X kvs =
     mapE (\<lambda>(k, v). bindE (text_of X k) (\<lambda>k. bindE (text_of X v) (\<lambda>v. Inr (k, PStr v)))) kvs"

definition existing_doc :: "('d, 'r) surface \<Rightarrow> string \<Rightarrow> string \<Rightarrow> ('d, 'r, doc) surf" where
  \<comment> \<open>\<open>self._db.get(...) or {}\<close>\<close>
  "existing_doc F coll i =
     bindM (on_db (nd_get (sf_nedb F) coll i None)) (\<lambda>v. liftM (case v of
        None \<Rightarrow> Inr []
      | Some x \<Rightarrow> if py_truth x then (case x of PDict d \<Rightarrow> Inr d | _ \<Rightarrow> Inl TypeErr) else Inr []))"

definition second_str :: "ext \<Rightarrow> raw list \<Rightarrow> string" where
  \<comment> \<open>\<open>str(args[1]) if len(args) > 1 else ""\<close>\<close>
  "second_str X args = (case args of _ # v # _ \<Rightarrow> raw_str X v | _ \<Rightarrow> [])"

definition hset_values :: "ext \<Rightarrow> raw list \<Rightarrow> (raw \<times> raw) list option \<Rightarrow> doc option res" where
  "hset_values X args kwm =
     (if 3 \<le> length args then Inr (Some (str_pairs X (pair_args (tl args))))
      else (case kwm of
              None \<Rightarrow> Inr None
            | Some kvs \<Rightarrow> bindE (decoded_pairs X kvs) (\<lambda>d. Inr (Some d))))"

definition shadow_doc :: "('d, 'r) surface \<Rightarrow> cmap \<Rightarrow> string \<Rightarrow> string \<Rightarrow> raw list \<Rightarrow> (raw \<times> raw) list option \<Rightarrow>
    ('d, 'r, doc option) surf" where
  \<comment> \<open>the document to store; none for an \<open>hset\<close> without fields\<close>
  "shadow_doc F m i cmd args kwm =
     (let X = sf_ext F in
      if cmd = ''hset'' then
        bindM (liftM (hset_values X args kwm)) (\<lambda>vals.
          case vals of
            None \<Rightarrow> retM None
          | Some d \<Rightarrow>
              bindM (existing_doc F (cm_coll m) i) (\<lambda>ex.
              bindM (liftM (cm_parse m (VDoc (merged ex d)))) (\<lambda>d. retM (Some d))))
      else if cmd \<in> {''set'', ''setex'', ''psetex'', ''setnx''} then
        bindM (liftM (cm_parse m (case args of _ # v # _ \<Rightarrow> v | _ \<Rightarrow> VBytes []))) (\<lambda>d. retM (Some d))
      else if cmd \<in> {''incr'', ''incrby'', ''decr'', ''decrby''} then
        bindM (existing_doc F (cm_coll m) i) (\<lambda>ex. retM (Some (dset ''_v'' (PStr (second_str X args)) ex)))
      else
        bindM (existing_doc F (cm_coll m) i) (\<lambda>ex.
          retM (Some (dset (''_redis_'' @ cmd) (PStr (second_str X args)) ex))))"

definition shadow_put :: "('d, 'r) surface \<Rightarrow> string \<Rightarrow> string \<Rightarrow> doc \<Rightarrow> rat option \<Rightarrow> ('d, 'r, unit) surf" where
  "shadow_put F coll i d conf =
     bindM (on_db (nd_put (sf_nedb F) coll i d (mark ''__shadow__'' (evidence ''redis_write'' conf))))
       (\<lambda>_. persist_last_op F)"

definition shadow_key :: "('d, 'r) surface \<Rightarrow> string \<Rightarrow> string \<Rightarrow> raw list \<Rightarrow> (raw \<times> raw) list option \<Rightarrow> ('d, 'r, unit) surf" where
  "shadow_key F cmd key args kwm st =
     (case mapping_for key st of
        Some m \<Rightarrow>
          bindM (liftM (cm_id m key)) (\<lambda>i.
            swallow
              (bindM (shadow_doc F m i cmd args kwm) (\<lambda>x.
                 case x of
                   None \<Rightarrow> retM ()
                 | Some d \<Rightarrow> shadow_put F (cm_coll m) i (setdefault ''_source'' (PStr ''shadow'') d) (Some 1)))
              ()) st
      | None \<Rightarrow>
          swallow
            (shadow_put F ''__redis_shadow__'' key
              [(''cmd'', PStr cmd), (''key'', PStr key), (''_source'', PStr ''shadow_raw'')] None) () st)"

definition shadow :: "('d, 'r) surface \<Rightarrow> string \<Rightarrow> raw list \<Rightarrow> (raw \<times> raw) list option \<Rightarrow> ('d, 'r, unit) surf" where
  \<comment> \<open>a key that is neither text nor bytes fails in the pattern match, where there is a pattern\<close>
  "shadow F cmd args kwm st =
     (case args of
        [] \<Rightarrow> (Inr (), st)
      | VText key # _ \<Rightarrow> shadow_key F cmd key args kwm st
      | VBytes b # _ \<Rightarrow> bindM (liftM (utf8_decode b)) (\<lambda>key. shadow_key F cmd key args kwm) st
      | _ \<Rightarrow> (Inl (if st_maps st = [] then Untyped else TypeErr), st))"

subsection \<open>The API\<close>

definition sf_put :: "('d, 'r) surface \<Rightarrow> string \<Rightarrow> string \<Rightarrow> doc \<Rightarrow> kwargs \<Rightarrow> ('d, 'r, pyval) surf" where
  "sf_put F coll i d kw =
     bindM (on_db (nd_put (sf_nedb F) coll i d kw)) (\<lambda>x. bindM (persist_last_op F) (\<lambda>_. retM x))"

definition sf_delete :: "('d, 'r) surface \<Rightarrow> string \<Rightarrow> string \<Rightarrow> kwargs \<Rightarrow> ('d, 'r, unit) surf" where
  "sf_delete F coll i kw = bindM (on_db (nd_delete (sf_nedb F) coll i kw)) (\<lambda>_. persist_last_op F)"

definition sf_link :: "('d, 'r) surface \<Rightarrow> string \<Rightarrow> string \<Rightarrow> string \<Rightarrow> kwargs \<Rightarrow> ('d, 'r, unit) surf" where
  "sf_link F f r t kw = bindM (on_db (nd_link (sf_nedb F) f r t kw)) (\<lambda>_. persist_last_op F)"

definition sf_unlink :: "('d, 'r) surface \<Rightarrow> string \<Rightarrow> string \<Rightarrow> string \<Rightarrow> kwargs \<Rightarrow> ('d, 'r, unit) surf" where
  "sf_unlink F f r t kw = bindM (on_db (nd_unlink (sf_nedb F) f r t kw)) (\<lambda>_. persist_last_op F)"

definition sf_create_index :: "('d, 'r) surface \<Rightarrow> string \<Rightarrow> string \<Rightarrow> string \<Rightarrow> ('d, 'r, unit) surf" where
  "sf_create_index F coll field kind = on_db (nd_create_index (sf_nedb F) coll field kind)"

definition sf_get :: "('d, 'r) surface \<Rightarrow> string \<Rightarrow> string \<Rightarrow> int option \<Rightarrow> ('d, 'r, pyval option) surf" where
  "sf_get F coll i as_of = on_db (nd_get (sf_nedb F) coll i as_of)"

definition sf_get_as_of :: "('d, 'r) surface \<Rightarrow> string \<Rightarrow> string \<Rightarrow> int \<Rightarrow> ('d, 'r, pyval option) surf" where
  "sf_get_as_of F coll i n = on_db (nd_get (sf_nedb F) coll i (Some n))"

definition sf_query :: "('d, 'r) surface \<Rightarrow> string \<Rightarrow> ('d, 'r, pyval list) surf" where
  "sf_query F nql = on_db (nd_query (sf_nedb F) nql)"

definition sf_neighbors :: "('d, 'r) surface \<Rightarrow> string \<Rightarrow> string \<Rightarrow> int option \<Rightarrow> ('d, 'r, string list) surf" where
  "sf_neighbors F f r as_of = on_db (nd_neighbors (sf_nedb F) f r as_of)"

definition sf_inbound :: "('d, 'r) surface \<Rightarrow> string \<Rightarrow> string \<Rightarrow> int option \<Rightarrow> ('d, 'r, string list) surf" where
  "sf_inbound F t r as_of = on_db (nd_inbound (sf_nedb F) t r as_of)"

definition sf_verify :: "('d, 'r) surface \<Rightarrow> ('d, 'r, bool) surf" where
  "sf_verify F = on_db (nd_verify (sf_nedb F))"

definition sf_head :: "('d, 'r) surface \<Rightarrow> ('d, 'r) sstate \<Rightarrow> pyval" where
  "sf_head F st = nd_head (sf_nedb F) (st_db st)"

definition sf_seq :: "('d, 'r) surface \<Rightarrow> ('d, 'r) sstate \<Rightarrow> pyval" where
  "sf_seq F st = nd_seq (sf_nedb F) (st_db st)"

definition sf_checkpoint :: "('d, 'r) surface \<Rightarrow> ('d, 'r, pyval) surf" where
  "sf_checkpoint F = on_db (nd_checkpoint (sf_nedb F))"

section \<open>\<open>WrappedRedis\<close>\<close>

definition WRITE_CMDS :: "string list" where
  "WRITE_CMDS =
     [''set'', ''setnx'', ''setex'', ''psetex'', ''getset'', ''getdel'', ''getex'', ''mset'', ''msetnx'',
      ''hset'', ''hmset'', ''hsetnx'', ''hincrby'', ''hincrbyfloat'', ''hdel'',
      ''lpush'', ''rpush'', ''lset'', ''linsert'', ''ltrim'', ''lpop'', ''rpop'',
      ''sadd'', ''srem'', ''smove'',
      ''zadd'', ''zincrby'', ''zrem'', ''zremrangebyscore'', ''zremrangebyrank'',
      ''del'', ''delete'', ''unlink'', ''rename'', ''renamenx'',
      ''append'', ''incr'', ''incrby'', ''decr'', ''decrby'', ''setrange'']"

definition wrapped :: "('d, 'r) surface \<Rightarrow> string \<Rightarrow> raw list \<Rightarrow> (raw \<times> raw) list option \<Rightarrow> ('r \<Rightarrow> 'v res \<times> 'r) \<Rightarrow>
    ('d, 'r, 'v) surf" where
  \<comment> \<open>a call of the client's method \<open>name\<close>, which does \<open>run\<close>\<close>
  "wrapped F name args kwm run st =
     (case run (st_redis st) of
        (res, r) \<Rightarrow>
          (let st1 = st\<lparr> st_redis := r \<rparr> in
           case res of
             Inl x \<Rightarrow> (Inl x, st1)
           | Inr v \<Rightarrow>
               if name \<in> set WRITE_CMDS \<and> st_shadow st1 then bindM (shadow F name args kwm) (\<lambda>_. retM v) st1
               else (Inr v, st1)))"

end
