(* ===== verification/SurfaceInv.thy ===== *)
theory SurfaceInv
  imports Surface Collections Lifecycle
begin

text \<open>
  The Redis wrapper in process: as long as its calls leave nonces, idempotency keys and expiry to
  their defaults, the Redis stream holds exactly the operations of the log, and a new surface on the
  same Redis connection gets the same database.
\<close>

section \<open>One call, one operation\<close>

definition good_engine :: "ext \<Rightarrow> engine \<Rightarrow> bool" where
  "good_engine X e \<longleftrightarrow> engine_ok X e \<and> steady e \<and>
     (\<forall>k d. reads (store_of e) k None = Some d \<longrightarrow> lasting d) \<and>
     (\<forall>r\<in>set (l_ops (e_log e)). o_op r \<noteq> ''checkpoint'')"

lemma good_new: "good_engine X (engine_new False None empty_disk)"
proof -
  have "l_ops (e_log (engine_new False None empty_disk)) = []" "store_of (engine_new False None empty_disk) = mv_init"
    by (simp_all add: engine_new_def log_init_def store_of_def mat_init_def)
  then show ?thesis
    by (simp add: good_engine_def engine_ok_new steady_new mv_init_def history_def dget_def visible_def)
qed

definition records :: "ext \<Rightarrow> (world, 'a) prog \<Rightarrow> bool" where
  \<comment> \<open>the call returns, and one operation was appended\<close>
  "records X m \<longleftrightarrow> (\<forall>n e. good_engine X e \<longrightarrow>
     (\<exists>x n' e' r. m (n, e) = (Inr x, (n', e')) \<and> good_engine X e' \<and> l_ops (e_log e') = l_ops (e_log e) @ [r]))"

lemma doc_get_set [simp]:
  "k \<noteq> f \<Longrightarrow> doc_get (dset k v d) f = doc_get d f" "k \<noteq> f \<Longrightarrow> doc_get (setdefault k v d) f = doc_get d f"
  "k \<noteq> f \<Longrightarrow> doc_get (set_opt k g x d) f = doc_get d f"
  by (auto simp: doc_get_def dget_def map_of_dset map_of_setdefault set_opt_def split: option.split)

lemma put_lasting: "lasting d \<Longrightarrow> lasting (stamp q (put_doc i d now None pr))"
  by (simp add: lasting_def stamp_def put_doc_def embed_ttl_def)

lemma one_op:
  assumes "logged e1 e' op pl pr" "e_log e1 = e_log e" "good_engine X e" "engine_ok X e'" "steady e'"
    "op \<noteq> ''checkpoint''" "\<And>k d. reads (store_of e') k None = Some d \<Longrightarrow> lasting d"
  shows "good_engine X e' \<and> (\<exists>r. l_ops (e_log e') = l_ops (e_log e) @ [r])"
  using assms by (auto simp: good_engine_def logged_def)

lemma records_put:
  assumes X: "ext_ok X" "\<And>n. env_ok (W n)"
    and a: "good_coll coll" "pv_ok (PDict d)" "lasting d" "prov_ok pr"
  shows "records X (callM W (\<lambda>V. eng_put X V coll i d client None None None pr))"
  unfolding records_def
proof (intro allI impI)
  fix n e assume g: "good_engine X e"
  then have y: "steady e" by (simp add: good_engine_def)
  from put_steady[OF y a(1)] obtain x e' where
    p: "eng_put X (W n) coll i d client None None None pr e = (Inr x, e')" "steady e'" by blast
  have ok: "engine_ok X e'"
    by (rule step_ok[OF X(1) api_step.put[OF X(2) a(1,2,4) p(1)]]) (use g in \<open>simp add: good_engine_def\<close>)
  note pe = put_effect[OF p(1)]
  obtain m e1 where m: "pick_nonce client None e = (m, e1)" by (cases "pick_nonce client None e")
  from p m have "commit X (v_ts (W n) 0) (v_rand (W n) 0) client m ''put''
      (put_payload coll i (put_doc i d (v_now (W n)) None pr)) None pr e1 = (Inr (), e')"
    by (auto simp: eng_put_def Let_def bindC_Inr)
  note l = commit_logged[OF this]
  have "reads (store_of e') k None = Some d' \<Longrightarrow> lasting d'" for k d'
    using pe g put_lasting[OF a(3)] by (auto simp: good_engine_def split: if_splits)
  with one_op[OF l pick_nonce_frame(2)[OF m] g ok p(2)] p(1)
  show "\<exists>x n' e' r. callM W (\<lambda>V. eng_put X V coll i d client None None None pr) (n, e) = (Inr x, (n', e')) \<and>
      good_engine X e' \<and> l_ops (e_log e') = l_ops (e_log e) @ [r]"
    by (auto simp: callM_def)
qed

lemma records_delete:
  assumes X: "ext_ok X" "\<And>n. env_ok (W n)" and a: "good_coll coll"
  shows "records X (callM W (\<lambda>V. eng_delete X V coll i client None None))"
  unfolding records_def
proof (intro allI impI)
  fix n e assume g: "good_engine X e"
  then have y: "steady e" by (simp add: good_engine_def)
  from delete_steady[OF y a] obtain e' where
    p: "eng_delete X (W n) coll i client None None e = (Inr (), e')" "steady e'" by blast
  have ok: "engine_ok X e'"
    by (rule step_ok[OF X(1) api_step.delete[OF X(2) a p(1)]]) (use g in \<open>simp add: good_engine_def\<close>)
  obtain m e1 where m: "pick_nonce client None e = (m, e1)" by (cases "pick_nonce client None e")
  from p m have "commit X (v_ts (W n) 0) (v_rand (W n) 0) client m ''delete'' (delete_payload coll i) None no_prov e1
      = (Inr (), e')" by (auto simp: eng_delete_def)
  note l = commit_logged[OF this]
  have "reads (store_of e') k None = Some d' \<Longrightarrow> lasting d'" for k d'
    using delete_effect[OF p(1)] g by (auto simp: good_engine_def split: if_splits)
  with one_op[OF l pick_nonce_frame(2)[OF m] g ok p(2)] p(1)
  show "\<exists>x n' e' r. callM W (\<lambda>V. eng_delete X V coll i client None None) (n, e) = (Inr x, (n', e')) \<and>
      good_engine X e' \<and> l_ops (e_log e') = l_ops (e_log e) @ [r]"
    by (auto simp: callM_def)
qed

text \<open>\<open>link\<close> and \<open>unlink\<close> differ in the name of the operation.\<close>

lemma edge_records:
  assumes X: "ext_ok X" and op: "op = ''link'' \<or> op = ''unlink''" and g: "good_engine X e"
    and m: "pick_nonce client None e = (n, e1)"
    and ok: "\<And>e'. commit X ts rnd client n op (link_payload f l t) None no_prov e1 = (Inr (), e') \<Longrightarrow> engine_ok X e'"
  shows "\<exists>e' r. commit X ts rnd client n op (link_payload f l t) None no_prov e1 = (Inr (), e') \<and>
    good_engine X e' \<and> l_ops (e_log e') = l_ops (e_log e) @ [r]"
proof -
  have y: "steady e" using g by (simp add: good_engine_def)
  have h: "good_op r" if "o_op r = op" "o_payload r = link_payload f l t" for r
    using op that by (auto simp: good_op_def)
  from commit_live[OF y m h] obtain e' where
    p: "commit X ts rnd client n op (link_payload f l t) None no_prov e1 = (Inr (), e')" "steady e'" by blast
  note lg = commit_logged[OF p(1)]
  have "store_of e' = store_of e"
    using logged_store[OF lg] op pick_nonce_frame[OF m] by (auto simp: store_event_def store_of_def)
  then have "reads (store_of e') k None = Some d' \<Longrightarrow> lasting d'" for k d'
    using g by (auto simp: good_engine_def)
  with one_op[OF lg pick_nonce_frame(2)[OF m] g ok[OF p(1)] p(2)] op p(1) show ?thesis by auto
qed

lemma records_edge:
  assumes X: "ext_ok X" "\<And>n. env_ok (W n)"
  shows "records X (callM W (\<lambda>V. eng_link X V f l t client None))"
    "records X (callM W (\<lambda>V. eng_unlink X V f l t client None))"
proof -
  have "\<exists>e' r. eng_link X (W n) f l t client None e = (Inr (), e') \<and> good_engine X e' \<and>
      l_ops (e_log e') = l_ops (e_log e) @ [r]"
    "\<exists>e' r. eng_unlink X (W n) f l t client None e = (Inr (), e') \<and> good_engine X e' \<and>
      l_ops (e_log e') = l_ops (e_log e) @ [r]" if g: "good_engine X e" for n e
  proof -
    obtain m e1 where m: "pick_nonce client None e = (m, e1)" by (cases "pick_nonce client None e")
    have ok: "engine_ok X e" using g by (simp add: good_engine_def)
    have s: "eng_link X (W n) f l t client None e = (Inr (), e') \<Longrightarrow> engine_ok X e'"
      "eng_unlink X (W n) f l t client None e = (Inr (), e') \<Longrightarrow> engine_ok X e'" for e'
      using step_ok[OF X(1) api_step.link[OF X(2)] ok] step_ok[OF X(1) api_step.unlink[OF X(2)] ok] by blast+
    show "\<exists>e' r. eng_link X (W n) f l t client None e = (Inr (), e') \<and> good_engine X e' \<and>
        l_ops (e_log e') = l_ops (e_log e) @ [r]"
      using edge_records[OF X(1) _ g m, of "''link''"] s(1) unfolding eng_link_def m by simp
    show "\<exists>e' r. eng_unlink X (W n) f l t client None e = (Inr (), e') \<and> good_engine X e' \<and>
        l_ops (e_log e') = l_ops (e_log e) @ [r]"
      using edge_records[OF X(1) _ g m, of "''unlink''"] s(2) unfolding eng_unlink_def m by simp
  qed
  note one = this
  show "records X (callM W (\<lambda>V. eng_link X V f l t client None))"
  proof (unfold records_def, intro allI impI)
    fix n e assume "good_engine X e"
    from one(1)[OF this, of n] show "\<exists>x n' e' r. callM W (\<lambda>V. eng_link X V f l t client None) (n, e) = (Inr x, n', e') \<and>
        good_engine X e' \<and> l_ops (e_log e') = l_ops (e_log e) @ [r]" by (auto simp: callM_def)
  qed
  show "records X (callM W (\<lambda>V. eng_unlink X V f l t client None))"
  proof (unfold records_def, intro allI impI)
    fix n e assume "good_engine X e"
    from one(2)[OF this, of n] show "\<exists>x n' e' r. callM W (\<lambda>V. eng_unlink X V f l t client None) (n, e) = (Inr x, n', e') \<and>
        good_engine X e' \<and> l_ops (e_log e') = l_ops (e_log e) @ [r]" by (auto simp: callM_def)
  qed
qed

section \<open>The stream mirrors the log\<close>

definition stream_surface :: "ext \<Rightarrow> (nat \<Rightarrow> env) \<Rightarrow> 'r remote \<Rightarrow> string \<Rightarrow> (world, 'r) surface" where
  \<comment> \<open>a surface in process\<close>
  "stream_surface X W R name =
     \<lparr> sf_ext = X, sf_nedb = in_process X W, sf_redis = R, sf_backend = backend_of name, sf_nedbd = False \<rparr>"

definition storable :: "doc \<Rightarrow> bool" where
  \<comment> \<open>a document of JSON values that does not expire\<close>
  "storable d \<longleftrightarrow> pv_ok (PDict d) \<and> lasting d"

text \<open>Keys under the pattern go to a collection; what the parser returns never expires.\<close>

definition map_ok :: "cmap \<Rightarrow> bool" where
  "map_ok m \<longleftrightarrow> good_coll (cm_coll m) \<and> (\<forall>v d. cm_parse m v = Inr d \<longrightarrow> storable d)"

definition mirrored :: "ext \<Rightarrow> 'r remote \<Rightarrow> string \<Rightarrow> (world, 'r) sstate \<Rightarrow> bool" where
  "mirrored X R name st \<longleftrightarrow> good_engine X (snd (st_db st)) \<and>
     bk_read_all R (backend_of name) (st_redis st) = map (op_line X) (l_ops (e_log (snd (st_db st)))) \<and>
     list_all map_ok (st_maps st)"

definition sound :: "ext \<Rightarrow> 'r remote \<Rightarrow> string \<Rightarrow> ('a \<Rightarrow> bool) \<Rightarrow> (world, 'r, 'a) surf \<Rightarrow> bool" where
  \<comment> \<open>the program keeps the mirror, and what it returns satisfies \<open>P\<close>\<close>
  "sound X R name P m \<longleftrightarrow> (\<forall>st. mirrored X R name st \<longrightarrow>
     mirrored X R name (snd (m st)) \<and> (\<forall>x. fst (m st) = Inr x \<longrightarrow> P x))"

named_theorems sound_intros \<open>programs that keep the mirror\<close>

lemma soundI:
  assumes "\<And>st. mirrored X R name st \<Longrightarrow> mirrored X R name (snd (m st)) \<and> (\<forall>x. fst (m st) = Inr x \<longrightarrow> P x)"
  shows "sound X R name P m"
  using assms by (simp add: sound_def)

lemma sound_basic [sound_intros]:
  "P x \<Longrightarrow> sound X R name P (retM x)" "sound X R name P (raiseM ex)"
  "(\<And>x. r = Inr x \<Longrightarrow> P x) \<Longrightarrow> sound X R name P (liftM r)" "(\<And>r x. f r = Inr x \<Longrightarrow> P x) \<Longrightarrow> sound X R name P (readR f)"
  by (simp_all add: sound_def retM_def raiseM_def liftM_def readR_def)

lemma sound_bind:
  assumes "sound X R name Q m" "\<And>x. Q x \<Longrightarrow> sound X R name P (f x)"
  shows "sound X R name P (bindM m f)"
proof (rule soundI)
  fix st assume "mirrored X R name st"
  with assms show "mirrored X R name (snd (bindM m f st)) \<and> (\<forall>x. fst (bindM m f st) = Inr x \<longrightarrow> P x)"
    by (cases "m st"; cases "fst (m st)") (force simp: sound_def bindM_def)+
qed

lemma sound_swallow: "sound X R name P m \<Longrightarrow> P x \<Longrightarrow> sound X R name P (swallow m x)"
  by (auto simp: sound_def swallow_def split: prod.split sum.split)

lemma sound_foldM:
  assumes "\<And>x s. sound X R name (\<lambda>_. True) (f x s)"
  shows "sound X R name (\<lambda>_. True) (foldM f xs s)"
  by (induction xs arbitrary: s) (auto intro: sound_intros sound_bind[OF assms])

lemma persist_append:
  assumes "\<not> sf_nedbd F" "nd_ops (sf_nedb F) (st_db st) = ops @ [r]"
  shows "persist_last_op F st = (let t = op_line (sf_ext F) r in
    (Inr (), st\<lparr> st_redis := bk_publish_ops (sf_redis F) (sf_backend F) (sf_ext F) [t]
       (bk_append (sf_redis F) (sf_backend F) t (st_redis st)) \<rparr>))"
  using assms by (cases ops) (simp_all add: persist_last_op_def)

lemma recorded:
  assumes R: "streams_ok R" and m: "records X m"
  shows "sound X R name (\<lambda>_. True) (bindM (on_db m) (\<lambda>x. bindM (persist_last_op (stream_surface X W R name)) (\<lambda>_. retM (f x))))"
proof (rule soundI)
  fix st :: "(world, 'a) sstate"
  assume s: "mirrored X R name st"
  obtain n e where w: "st_db st = (n, e)" by (cases "st_db st")
  with s have "good_engine X e" by (simp add: mirrored_def)
  with m obtain x n' e' r where c: "m (n, e) = (Inr x, (n', e'))" "good_engine X e'"
    "l_ops (e_log e') = l_ops (e_log e) @ [r]" unfolding records_def by blast
  with s w show "mirrored X R name (snd (bindM (on_db m) (\<lambda>x. bindM (persist_last_op (stream_surface X W R name))
      (\<lambda>_. retM (f x))) st)) \<and> (\<forall>x. fst (bindM (on_db m) (\<lambda>x. bindM (persist_last_op (stream_surface X W R name))
      (\<lambda>_. retM (f x))) st) = Inr x \<longrightarrow> True)"
    using persist_append[of "stream_surface X W R name" "st\<lparr> st_db := (n', e') \<rparr>"]
    by (simp add: mirrored_def bindM_def on_db_def stream_surface_def in_process_def retM_def Let_def read_append[OF R])
qed

lemma recorded_unit:
  assumes "streams_ok R" "records X m"
  shows "sound X R name (\<lambda>_. True) (bindM (on_db m) (\<lambda>_. persist_last_op (stream_surface X W R name)))"
proof -
  have "bindM p (\<lambda>_. retM ()) = p" for p :: "(world, 'a, unit) surf"
    by (simp add: fun_eq_iff bindM_def retM_def split: prod.split sum.split)
  with recorded[OF assms, of name W "\<lambda>_. ()"] show ?thesis by simp
qed

section \<open>What the programs write\<close>

lemma storable_set:
  "storable d \<Longrightarrow> k \<noteq> ''_expires_at'' \<Longrightarrow> storable (dset k (PStr v) d)"
  "storable d \<Longrightarrow> k \<noteq> ''_expires_at'' \<Longrightarrow> storable (setdefault k (PStr v) d)"
  using pv_ok_dset[of d "PStr v" k] pv_ok_setdefault[of d "PStr v" k] by (simp_all add: storable_def lasting_def)

lemma storable_nil: "storable []"
  by (simp add: storable_def lasting_def doc_get_def dget_def)

definition plain_kw :: "kwargs \<Rightarrow> bool" where
  "plain_kw kw \<longleftrightarrow> kw_nonce kw = None \<and> kw_idem kw = None \<and> kw_ttl kw = None \<and> prov_ok (kw_prov kw)"

lemma fl_one: "fl 1 = 1"
  by code_simp

lemma plain_marks: "plain_kw (mark c (evidence t None))" "plain_kw (mark c (evidence t (Some 1)))"
  by (simp_all add: plain_kw_def mark_def evidence_def no_kwargs_def prov_ok_def no_prov_def fl_one)

lemma records_ret:
  assumes "records X m"
  shows "records X (bindM m (\<lambda>x. retM (f x)))"
  unfolding records_def
proof (intro allI impI)
  fix n e assume "good_engine X e"
  with assms obtain x n' e' r where "m (n, e) = (Inr x, (n', e'))" "good_engine X e'"
    "l_ops (e_log e') = l_ops (e_log e) @ [r]" unfolding records_def by blast
  then show "\<exists>x n' e' r. bindM m (\<lambda>x. retM (f x)) (n, e) = (Inr x, n', e') \<and> good_engine X e' \<and>
      l_ops (e_log e') = l_ops (e_log e) @ [r]"
    by (simp add: bindM_def retM_def)
qed

lemma in_process_simps:
  "nd_put (in_process X W) coll i d kw =
     bindM (callM W (\<lambda>V. eng_put X V coll i d (client_of kw) (kw_nonce kw) (kw_idem kw) (kw_ttl kw) (kw_prov kw)))
       (\<lambda>x. retM (doc_value x))"
  "nd_delete (in_process X W) coll i kw = callM W (\<lambda>V. eng_delete X V coll i (client_of kw) (kw_nonce kw) (kw_idem kw))"
  "nd_link (in_process X W) f r t kw = callM W (\<lambda>V. eng_link X V f r t (client_of kw) (kw_nonce kw))"
  "nd_unlink (in_process X W) f r t kw = callM W (\<lambda>V. eng_unlink X V f r t (client_of kw) (kw_nonce kw))"
  by (simp_all add: in_process_def)

lemma stream_surface_simps [simp]:
  "sf_ext (stream_surface X W R name) = X" "sf_nedb (stream_surface X W R name) = in_process X W"
  "sf_redis (stream_surface X W R name) = R" "\<not> sf_nedbd (stream_surface X W R name)"
  by (simp_all add: stream_surface_def)

text \<open>A call on the database that leaves the engine alone.\<close>

lemma sound_same:
  assumes "\<And>n e. good_engine X e \<Longrightarrow> snd (snd (m (n, e))) = e"
  shows "sound X R name (\<lambda>_. True) (on_db m)"
proof (rule soundI)
  fix st assume s: "mirrored X R name st"
  obtain n e where w: "st_db st = (n, e)" by (cases "st_db st")
  with s have "good_engine X e" by (simp add: mirrored_def)
  from assms[OF this, of n] s w show "mirrored X R name (snd (on_db m st)) \<and> (\<forall>x. fst (on_db m st) = Inr x \<longrightarrow> True)"
    by (auto simp: mirrored_def on_db_def split: prod.split)
qed

lemma get_same:
  assumes "good_engine X e"
  shows "eng_get X V coll i as_of e = (mv_get (store_of e) (doc_key coll i) as_of, e)"
proof -
  have "lasting d" if "mv_get (store_of e) (doc_key coll i) None = Inr (Some d)" for d
    using assms that by (simp add: good_engine_def)
  then show ?thesis
    by (auto simp: eng_get_def check_ttl_def lasting_def Let_def split: sum.split option.split)
qed

lemma sound_weaken: "sound X R name P m \<Longrightarrow> sound X R name (\<lambda>_. True) m"
  by (simp add: sound_def)

definition wrapper_ok :: "ext \<Rightarrow> (nat \<Rightarrow> env) \<Rightarrow> 'r remote \<Rightarrow> bool" where
  "wrapper_ok X W R \<longleftrightarrow> ext_ok X \<and> (\<forall>n. env_ok (W n)) \<and> streams_ok R"

lemma sound_writes:
  assumes ok: "wrapper_ok X W R" and kw: "plain_kw kw"
  shows "good_coll coll \<Longrightarrow> storable d \<Longrightarrow> sound X R name (\<lambda>_. True) (sf_put (stream_surface X W R name) coll i d kw)"
    "good_coll coll \<Longrightarrow> sound X R name (\<lambda>_. True) (sf_delete (stream_surface X W R name) coll i kw)"
    "sound X R name (\<lambda>_. True) (sf_link (stream_surface X W R name) f r t kw)"
    "sound X R name (\<lambda>_. True) (sf_unlink (stream_surface X W R name) f r t kw)"
proof -
  have x: "ext_ok X" "\<And>n. env_ok (W n)" "streams_ok R" using ok by (simp_all add: wrapper_ok_def)
  have k: "kw_nonce kw = None" "kw_idem kw = None" "kw_ttl kw = None" "prov_ok (kw_prov kw)"
    using kw by (simp_all add: plain_kw_def)
  show "good_coll coll \<Longrightarrow> storable d \<Longrightarrow> sound X R name (\<lambda>_. True) (sf_put (stream_surface X W R name) coll i d kw)"
    unfolding sf_put_def stream_surface_simps in_process_simps k
    by (intro recorded records_ret records_put x k(4)) (simp_all add: storable_def)
  show "good_coll coll \<Longrightarrow> sound X R name (\<lambda>_. True) (sf_delete (stream_surface X W R name) coll i kw)"
    unfolding sf_delete_def stream_surface_simps in_process_simps k
    by (intro recorded_unit records_delete x)
  show "sound X R name (\<lambda>_. True) (sf_link (stream_surface X W R name) f r t kw)"
    "sound X R name (\<lambda>_. True) (sf_unlink (stream_surface X W R name) f r t kw)"
    unfolding sf_link_def sf_unlink_def stream_surface_simps in_process_simps k
    by (intro recorded_unit records_edge x)+
qed

lemma sound_reads:
  "sound X R name (\<lambda>_. True) (sf_get (stream_surface X W R name) coll i as_of)"
  "sound X R name (\<lambda>_. True) (sf_get_as_of (stream_surface X W R name) coll i n)"
  "sound X R name (\<lambda>_. True) (sf_query (stream_surface X W R name) nql)"
  "sound X R name (\<lambda>_. True) (sf_neighbors (stream_surface X W R name) f r as_of)"
  "sound X R name (\<lambda>_. True) (sf_inbound (stream_surface X W R name) t r as_of)"
  "sound X R name (\<lambda>_. True) (sf_verify (stream_surface X W R name))"
  unfolding sf_get_def sf_get_as_of_def sf_query_def sf_neighbors_def sf_inbound_def sf_verify_def
  by (rule sound_same; simp add: in_process_def bindM_def callM_def readM_def m_query_def retM_def get_same
      split: prod.split sum.split)+

lemma sound_existing:
  "sound X R name storable (existing_doc (stream_surface X W R name) coll i)"
proof (rule soundI)
  fix st :: "(world, 'a) sstate" assume s: "mirrored X R name st"
  obtain n e where w: "st_db st = (n, e)" by (cases "st_db st")
  have g: "good_engine X e" using s w by (simp add: mirrored_def)
  let ?x = "mv_get (store_of e) (doc_key coll i) None"
  have d: "storable d" if "?x = Inr (Some d)" for d
    using g head_doc(2)[OF _ that] that by (auto simp: good_engine_def storable_def)
  have "existing_doc (stream_surface X W R name) coll i st =
      (bindE ?x (\<lambda>v. Inr (case v of None \<Rightarrow> [] | Some d \<Rightarrow> d)), st\<lparr> st_db := (Suc n, e) \<rparr>)"
    by (simp add: existing_doc_def in_process_def bindM_def on_db_def callM_def get_same[OF g] retM_def liftM_def w
        split: sum.split option.split)
  with s w d storable_nil show "mirrored X R name (snd (existing_doc (stream_surface X W R name) coll i st)) \<and>
      (\<forall>x. fst (existing_doc (stream_surface X W R name) coll i st) = Inr x \<longrightarrow> storable x)"
    by (auto simp: mirrored_def split: option.splits simp del: pv_ok.simps)
qed

section \<open>Shadow writes and backfill\<close>

lemma mapping_ok: "list_all map_ok ms \<Longrightarrow> mapping_in key ms = Some m \<Longrightarrow> map_ok m"
  by (induction ms) (auto split: if_splits)

lemma parse_ok: "map_ok m \<Longrightarrow> cm_parse m v = Inr d \<Longrightarrow> storable d"
  by (simp add: map_ok_def)

lemma shadow_put_sound:
  assumes "wrapper_ok X W R" "good_coll coll" "storable d" "conf = None \<or> conf = Some 1"
  shows "sound X R name (\<lambda>_. True) (shadow_put (stream_surface X W R name) coll i d conf)"
proof -
  have "plain_kw (mark ''__shadow__'' (evidence ''redis_write'' conf))" using assms(4) plain_marks by auto
  note w = this[unfolded plain_kw_def]
  show ?thesis
    unfolding shadow_put_def stream_surface_simps in_process_simps using w assms
    by (intro recorded_unit records_ret) (auto simp: wrapper_ok_def storable_def intro!: records_put)
qed

lemma shadow_doc_sound:
  assumes "map_ok m"
  shows "sound X R name (\<lambda>x. \<forall>d. x = Some d \<longrightarrow> storable d) (shadow_doc (stream_surface X W R name) m i cmd args kwm)"
proof -
  let ?S = "sound X R name (\<lambda>x. \<forall>d. x = Some d \<longrightarrow> storable d)"
  have p: "?S (bindM (liftM (cm_parse m v)) (\<lambda>d. retM (Some d)))" for v
    by (rule sound_bind[where Q = storable]) (use parse_ok[OF assms] in \<open>auto intro: sound_intros\<close>)
  have e: "?S (bindM (existing_doc (stream_surface X W R name) (cm_coll m) i) (\<lambda>ex. retM (Some (dset k (PStr t) ex))))"
    if "k \<noteq> ''_expires_at''" for k t
    by (rule sound_bind[OF sound_existing]) (use storable_set(1)[OF _ that] in \<open>auto intro: sound_intros\<close>)
  have h: "?S (bindM (liftM (hset_values X args kwm)) (\<lambda>vals. case vals of None \<Rightarrow> retM None
      | Some d \<Rightarrow> bindM (existing_doc (stream_surface X W R name) (cm_coll m) i) (\<lambda>ex.
          bindM (liftM (cm_parse m (VDoc (merged ex d)))) (\<lambda>d. retM (Some d)))))"
    by (rule sound_bind[where Q = "\<lambda>_. True"])
      (auto intro: sound_intros sound_bind[OF sound_existing] p split: option.split)
  have "''_redis_'' @ cmd \<noteq> ''_expires_at''" by simp
  with p e h show ?thesis unfolding shadow_doc_def Let_def stream_surface_simps by simp
qed

lemma shadow_key_sound:
  assumes ok: "wrapper_ok X W R"
  shows "sound X R name (\<lambda>_. True) (shadow_key (stream_surface X W R name) cmd key args kwm)"
proof -
  let ?F = "stream_surface X W R name"
  have raw: "storable [(''cmd'', PStr cmd), (''key'', PStr key), (''_source'', PStr ''shadow_raw'')]"
    by (simp add: storable_def lasting_def doc_get_def dget_def)
  have coll: "good_coll ''__redis_shadow__''" by (simp add: good_coll_def)
  have put: "sound X R name (\<lambda>_. True) (bindM (shadow_doc ?F m i cmd args kwm) (\<lambda>x. case x of None \<Rightarrow> retM ()
      | Some d \<Rightarrow> shadow_put ?F (cm_coll m) i (setdefault ''_source'' (PStr ''shadow'') d) (Some 1)))"
    if "map_ok m" for m i
    by (rule sound_bind[OF shadow_doc_sound[OF that]])
      (use that storable_set(2) in \<open>auto split: option.split intro!: sound_intros shadow_put_sound[OF ok] simp: map_ok_def\<close>)
  have mapped: "sound X R name (\<lambda>_. True) (bindM (liftM (cm_id m key)) (\<lambda>i.
      swallow (bindM (shadow_doc ?F m i cmd args kwm) (\<lambda>x. case x of None \<Rightarrow> retM ()
        | Some d \<Rightarrow> shadow_put ?F (cm_coll m) i (setdefault ''_source'' (PStr ''shadow'') d) (Some 1))) ()))"
    if "map_ok m" for m
    by (rule sound_bind[where Q = "\<lambda>_. True"]) (rule sound_intros sound_swallow put[OF that] TrueI)+
  have unmapped: "sound X R name (\<lambda>_. True) (swallow (shadow_put ?F ''__redis_shadow__'' key
      [(''cmd'', PStr cmd), (''key'', PStr key), (''_source'', PStr ''shadow_raw'')] None) ())"
    by (rule sound_swallow[OF shadow_put_sound[OF ok coll raw]]) simp_all
  show ?thesis
  proof (rule soundI)
    fix st assume s: "mirrored X R name st"
    show "mirrored X R name (snd (shadow_key ?F cmd key args kwm st)) \<and>
      (\<forall>x. fst (shadow_key ?F cmd key args kwm st) = Inr x \<longrightarrow> True)"
    proof (cases "mapping_for key st")
      case None
      with unmapped s show ?thesis by (simp add: shadow_key_def sound_def)
    next
      case (Some m)
      with s have "map_ok m" using mapping_ok[of "st_maps st" key m] by (simp add: mirrored_def mapping_for_def)
      from mapped[OF this] s Some show ?thesis by (simp add: shadow_key_def sound_def)
    qed
  qed
qed

lemma shadow_sound:
  assumes "wrapper_ok X W R"
  shows "sound X R name (\<lambda>_. True) (shadow (stream_surface X W R name) cmd args kwm)"
proof (cases args)
  case Nil
  then show ?thesis by (simp add: shadow_def sound_def)
next
  case (Cons v args')
  note k = shadow_key_sound[OF assms]
  show ?thesis
  proof (cases v)
    case (VText key)
    then show ?thesis using k unfolding Cons by (simp add: shadow_def[abs_def])
  next
    case (VBytes b)
    have "sound X R name (\<lambda>_. True) (bindM (liftM (utf8_decode b)) (\<lambda>key. shadow_key (stream_surface X W R name) cmd key args kwm))"
      by (rule sound_bind[where Q = "\<lambda>_. True"]) (rule sound_intros k TrueI)+
    then show ?thesis unfolding Cons VBytes by (simp add: shadow_def[abs_def])
  qed (simp_all add: shadow_def sound_def Cons)
qed

text \<open>A command of the application leaves the stream of the database alone.\<close>

definition spares :: "'r remote \<Rightarrow> string \<Rightarrow> ('r \<Rightarrow> 'v res \<times> 'r) \<Rightarrow> bool" where
  "spares R name run \<longleftrightarrow> (\<forall>r. bk_read_all R (backend_of name) (snd (run r)) = bk_read_all R (backend_of name) r)"

lemma wrapped_sound:
  assumes "wrapper_ok X W R" "spares R name run"
  shows "sound X R name (\<lambda>_. True) (wrapped (stream_surface X W R name) cmd args kwm run)"
proof (rule soundI)
  fix st assume s: "mirrored X R name st"
  obtain res r where r: "run (st_redis st) = (res, r)" by (cases "run (st_redis st)")
  let ?st = "st\<lparr> st_redis := r \<rparr>"
  have "bk_read_all R (backend_of name) r = bk_read_all R (backend_of name) (st_redis st)"
    using assms(2) r by (metis snd_conv spares_def)
  with s have m: "mirrored X R name ?st" by (simp add: mirrored_def)
  have "sound X R name (\<lambda>_. True) (bindM (shadow (stream_surface X W R name) cmd args kwm) (\<lambda>_. retM v))" for v :: 'b
    by (rule sound_bind[OF shadow_sound[OF assms(1)]]) (rule sound_intros TrueI)+
  with m r show "mirrored X R name (snd (wrapped (stream_surface X W R name) cmd args kwm run st)) \<and>
      (\<forall>x. fst (wrapped (stream_surface X W R name) cmd args kwm run st) = Inr x \<longrightarrow> True)"
    by (auto simp: wrapped_def Let_def sound_def split: sum.split)
qed

subsection \<open>Backfill\<close>

lemma fill_doc_sound:
  assumes ok: "wrapper_ok X W R" and d: "map_ok m" "storable d"
  shows "sound X R name (\<lambda>_. True) (fill_doc (stream_surface X W R name) m i d acc)"
proof -
  note k = plain_marks(2)[of "''__backfill__''" "''backfill''", unfolded plain_kw_def]
  have "records X (nd_put (in_process X W) (cm_coll m) i d (mark ''__backfill__'' (evidence ''backfill'' (Some 1))))"
    unfolding in_process_simps using k ok d
    by (intro records_ret) (auto simp: wrapper_ok_def storable_def map_ok_def intro!: records_put)
  from recorded[OF _ this, where R = R and f = "\<lambda>_. (fst acc + 1, [] :: pyval list)"] ok show ?thesis
    by (simp add: fill_doc_def wrapper_ok_def)
qed

lemma fill_key_sound:
  assumes ok: "wrapper_ok X W R" and m: "map_ok m"
  shows "sound X R name (\<lambda>_. True) (fill_key (stream_surface X W R name) m raw_key acc)"
proof -
  let ?F = "stream_surface X W R name"
  have p: "sound X R name (\<lambda>_. True) (bindM (liftM (cm_parse m v)) (\<lambda>d.
      fill_doc ?F m i (setdefault ''_source'' (PStr ''backfill'') d) acc))" for v i
    by (rule sound_bind[where Q = storable])
      (use parse_ok[OF m] storable_set(2) in \<open>auto intro!: sound_intros fill_doc_sound[OF ok m]\<close>)
  have "sound X R name (\<lambda>_. True) (bindM (raw_of ?F m key) (\<lambda>v. case v of None \<Rightarrow> retM acc
      | Some v \<Rightarrow> bindM (liftM (cm_parse m v)) (\<lambda>d. fill_doc ?F m i (setdefault ''_source'' (PStr ''backfill'') d) acc)))" for key i
    by (rule sound_bind[where Q = "\<lambda>_. True"])
      (auto simp: raw_of_def split: option.split intro!: sound_intros p)
  note one = this
  show ?thesis
    unfolding fill_key_def
    by (rule sound_bind[where Q = "\<lambda>_. True"], rule sound_intros, rule TrueI)+ (rule sound_swallow[OF one TrueI])
qed

lemma scan_mirrored:
  assumes ok: "wrapper_ok X W R" and l: "scan_loop F m sz cursor acc st = Some y"
  shows "F = stream_surface X W R name \<longrightarrow> map_ok m \<longrightarrow> mirrored X R name st \<longrightarrow> mirrored X R name (snd y)"
proof (rule scan_loop.raw_induct[where P = "\<lambda>F m sz cursor acc st y. F = stream_surface X W R name \<longrightarrow> map_ok m \<longrightarrow>
    mirrored X R name st \<longrightarrow> mirrored X R name (snd y)", OF _ l])
  fix loop F m sz cursor acc st y
  assume IH: "\<And>F m sz cursor acc st y. loop F m sz cursor acc st = Some y \<Longrightarrow>
      F = stream_surface X W R name \<longrightarrow> map_ok m \<longrightarrow> mirrored X R name st \<longrightarrow> mirrored X R name (snd y)"
    and body: "(case rm_scan (sf_redis F) cursor (cm_pattern m) sz (st_redis st) of (next, keys) \<Rightarrow>
      case foldM (fill_key F m) keys acc st of
        (Inl x, st1) \<Rightarrow> Some (Inl x, st1)
      | (Inr acc1, st1) \<Rightarrow> if next = 0 then Some (Inr acc1, st1) else loop F m sz next acc1 st1) = Some y"
  show "F = stream_surface X W R name \<longrightarrow> map_ok m \<longrightarrow> mirrored X R name st \<longrightarrow> mirrored X R name (snd y)"
  proof (intro impI)
    assume F: "F = stream_surface X W R name" and m: "map_ok m" and s: "mirrored X R name st"
    obtain nx keys where k: "rm_scan (sf_redis F) cursor (cm_pattern m) sz (st_redis st) = (nx, keys)"
      by (cases "rm_scan (sf_redis F) cursor (cm_pattern m) sz (st_redis st)")
    obtain res st1 where f: "foldM (fill_key F m) keys acc st = (res, st1)" by (cases "foldM (fill_key F m) keys acc st")
    have "sound X R name (\<lambda>_. True) (foldM (fill_key F m) keys acc)"
      unfolding F by (rule sound_foldM[OF fill_key_sound[OF ok m]])
    with s f have s1: "mirrored X R name st1" unfolding sound_def by (metis snd_conv)
    show "mirrored X R name (snd y)"
    proof (cases res)
      case (Inl x)
      with body k f s1 show ?thesis by auto
    next
      case (Inr acc1)
      show ?thesis
      proof (cases "nx = 0")
        case True
        with body k f Inr s1 show ?thesis by auto
      next
        case False
        with body k f Inr have "loop F m sz nx acc1 st1 = Some y" by simp
        from IH[OF this] F m s1 show ?thesis by simp
      qed
    qed
  qed
qed

lemma backfill_mirrored:
  assumes ok: "wrapper_ok X W R" and s: "mirrored X R name st" and m: "list_all map_ok ms"
    and b: "backfill_all (stream_surface X W R name) ms sz tot st = Some (res, st')"
  shows "mirrored X R name st'"
  using s m b
proof (induction ms arbitrary: tot st)
  case Nil
  then show ?case by (auto simp: mirrored_def)
next
  case (Cons m ms)
  let ?F = "stream_surface X W R name"
  from Cons.prems(3) obtain r st1 where o: "backfill_one ?F m sz st = Some (r, st1)"
    and k: "case r of Inl x \<Rightarrow> (res, st') = (Inl x, st1) | Inr n \<Rightarrow> backfill_all ?F ms sz (tot + n) st1 = Some (res, st')"
    by (auto split: option.splits sum.splits)
  from o obtain r2 st2 where l: "scan_loop ?F m sz 0 (0, []) st = Some (r2, st2)" "st1 = st2"
    by (auto simp: backfill_one_def flush_pending_def retM_def split: option.splits sum.splits prod.splits)
  have "mirrored X R name st1"
    using scan_mirrored[OF ok l(1), of name] Cons.prems(1,2) l(2) by simp
  with k Cons show ?case by (auto split: sum.splits)
qed

section \<open>Sessions\<close>

text \<open>
  The calls a program makes on a wrapped connection, whatever they return: the writing methods with
  their defaults for nonce, idempotency key and expiry, the reading methods, commands of the wrapped client,
  backfill, registration and the switch of the shadow writes.
\<close>

inductive surf_step :: "ext \<Rightarrow> (nat \<Rightarrow> env) \<Rightarrow> 'r remote \<Rightarrow> string \<Rightarrow> (world, 'r) sstate \<Rightarrow> (world, 'r) sstate \<Rightarrow> bool"
  for X W R name where
  put: "plain_kw kw \<Longrightarrow> good_coll coll \<Longrightarrow> storable d \<Longrightarrow>
    surf_step X W R name st (snd (sf_put (stream_surface X W R name) coll i d kw st))"
| delete: "plain_kw kw \<Longrightarrow> good_coll coll \<Longrightarrow>
    surf_step X W R name st (snd (sf_delete (stream_surface X W R name) coll i kw st))"
| link: "plain_kw kw \<Longrightarrow> surf_step X W R name st (snd (sf_link (stream_surface X W R name) f r t kw st))"
| unlink: "plain_kw kw \<Longrightarrow> surf_step X W R name st (snd (sf_unlink (stream_surface X W R name) f r t kw st))"
| get: "surf_step X W R name st (snd (sf_get (stream_surface X W R name) coll i as_of st))"
| query: "surf_step X W R name st (snd (sf_query (stream_surface X W R name) nql st))"
| neighbors: "surf_step X W R name st (snd (sf_neighbors (stream_surface X W R name) f r as_of st))"
| inbound: "surf_step X W R name st (snd (sf_inbound (stream_surface X W R name) t r as_of st))"
| verify: "surf_step X W R name st (snd (sf_verify (stream_surface X W R name) st))"
| command: "spares R name (run :: 'r \<Rightarrow> pyval res \<times> 'r) \<Longrightarrow>
    surf_step X W R name st (snd (wrapped (stream_surface X W R name) cmd args kwm run st))"
| register: "map_ok m \<Longrightarrow> surf_step X W R name st (snd (register m st))"
| shadowing: "surf_step X W R name st (st\<lparr> st_shadow := b \<rparr>)"
| backfill: "list_all map_ok (st_maps st) \<Longrightarrow>
    surface_backfill (stream_surface X W R name) None sz st = Some (res, st') \<Longrightarrow> surf_step X W R name st st'"

abbreviation surf_run :: "ext \<Rightarrow> (nat \<Rightarrow> env) \<Rightarrow> 'r remote \<Rightarrow> string \<Rightarrow> (world, 'r) sstate \<Rightarrow> (world, 'r) sstate \<Rightarrow> bool" where
  "surf_run X W R name \<equiv> (surf_step X W R name)\<^sup>*\<^sup>*"

lemma sound_keeps: "sound X R name P m \<Longrightarrow> mirrored X R name st \<Longrightarrow> mirrored X R name (snd (m st))"
  by (simp add: sound_def)

lemma step_mirrored:
  assumes ok: "wrapper_ok X W R"
  shows "surf_step X W R name st st' \<Longrightarrow> mirrored X R name st \<Longrightarrow> mirrored X R name st'"
proof (induction rule: surf_step.induct)
  case (backfill st sz res st')
  then show ?case
    using backfill_mirrored[OF ok backfill.prems, of "st_maps st" sz 0 res st']
    by (auto simp: surface_backfill_def Let_def split: if_splits)
next
  case (command run st cmd args kwm)
  from sound_keeps[OF wrapped_sound[OF ok command(1)] command(2)] show ?case .
next
  case (register m st)
  then show ?case by (simp add: register_def mirrored_def)
next
  case (shadowing st b)
  then show ?case by (simp add: mirrored_def)
qed (blast intro: sound_keeps sound_writes[OF ok] sound_reads)+

lemma run_mirrored:
  assumes "wrapper_ok X W R" "surf_run X W R name st st'" "mirrored X R name st"
  shows "mirrored X R name st'"
  using assms(2,3) by (induction rule: rtranclp_induct) (auto intro: step_mirrored[OF assms(1)])

section \<open>Reload\<close>

lemma read_entries_lines:
  assumes "frepr_ok X"
  shows "\<forall>r\<in>set ops. op_ok r \<Longrightarrow> read_entries (map (op_line X) ops) = Inr ops"
  by (induction ops) (simp_all add: parse_op_line[OF assms])

lemma opened_mirrored:
  assumes "bk_read_all R (backend_of name) r = []"
  shows "\<exists>st. surface_open R name r = Inr st \<and> mirrored X R name st \<and> st_redis st = r"
  using assms good_new[of X]
  by (simp add: surface_open_def surface_reload_def mirrored_def sstate_of_def)
    (simp add: engine_new_def log_init_def)

lemma reload_mirrored:
  assumes X: "ext_ok X" and m: "mirrored X R name st"
  defines "e \<equiv> snd (st_db st)"
  shows "\<exists>e'. surface_open R name (st_redis st) = Inr (sstate_of (0, e') (st_redis st)) \<and> e_log e' = e_log e \<and>
    store_of e' = store_of e \<and> m_rels (e_mat e') = m_rels (e_mat e) \<and> m_causes (e_mat e') = m_causes (e_mat e)"
proof -
  let ?n = "engine_new False None empty_disk" and ?ops = "l_ops (e_log e)"
  have g: "good_engine X e" and l: "bk_read_all R (backend_of name) (st_redis st) = map (op_line X) ?ops"
    using m by (simp_all add: mirrored_def e_def)
  have ok: "engine_ok X e" and c: "filter (\<lambda>r. o_op r \<noteq> ''checkpoint'') ?ops = ?ops"
    using g by (simp_all add: good_engine_def)
  note ok' = ok[unfolded engine_ok_def]
  have ll: "log_load ?ops = e_log e" using ok' by (simp add: log_ok_def)
  have r: "read_entries (map (op_line X) ?ops) = Inr ?ops"
    by (rule read_entries_lines) (use X ok' in \<open>auto simp: ext_ok_def\<close>)
  obtain mt where mt: "fold_ops True ?ops mat_init = (None, mt)"
    using fold_ops_total[of ?ops mat_init True] ok' by (auto simp: mat_init_def)
  have d: "data_ok ?ops mt" using data_fold[OF mt] by (simp add: mat_init_def)
  have n: "e_mat ?n = mat_init" "e_log ?n = log_init" by (simp_all add: engine_new_def)
  show ?thesis
  proof (cases "?ops = []")
    case True
    have "e_log e = log_init" using ll True by (simp add: log_load_def log_init_def)
    with True l r d mt n ok' show ?thesis
      by (intro exI[of _ ?n]) (simp add: surface_open_def surface_reload_def data_ok_def store_of_def)
  next
    case False
    let ?e = "?n\<lparr> e_log := e_log e, e_mat := mt, e_nonce := l_last (e_log e) \<rparr>"
    have "surface_reload (map (op_line X) ?ops) ?n = (Inr (), ?e)"
      using False by (simp add: surface_reload_def r c ll on_mat_def n mt bindC_def)
    with l d ok' show ?thesis
      by (intro exI[of _ ?e]) (simp add: surface_open_def data_ok_def store_of_def)
  qed
qed

end
