(* ===== verification/SampleSurface.thy ===== *)
theory SampleSurface
  imports Samples SurfaceInv
begin

text \<open>
  A Redis server reduced to its streams, and a session of the wrapper on it that stores one document.
\<close>

definition mem_remote :: "(string \<Rightarrow> string list) remote" where
  "mem_remote =
     \<lparr> rm_xadd = (\<lambda>k t r. r(k := r k @ [t])), rm_xrange = (\<lambda>k _ r. r k), rm_xlen = (\<lambda>k r. int (length (r k))),
       rm_publish = (\<lambda>_ _ r. r), rm_hset = (\<lambda>_ _ r. r), rm_hgetall = (\<lambda>_ _. Inr []), rm_get = (\<lambda>_ _. Inr None),
       rm_scan = (\<lambda>_ _ _ _. (0, [])), rm_delete = (\<lambda>k r. r(k := [])) \<rparr>"

definition sf0 :: "(world, string \<Rightarrow> string list) surface" where
  "sf0 = stream_surface ext0 (\<lambda>_. V0) mem_remote ''db''"

definition ss0 :: "(world, string \<Rightarrow> string list) sstate" where
  "ss0 = sstate_of (0, engine_new False None empty_disk) (\<lambda>_. [])"

definition ss1 :: "(world, string \<Rightarrow> string list) sstate" where
  "ss1 = snd (sf_put sf0 ''c'' ''k'' [(''a'', PInt 1)] no_kwargs ss0)"

lemma ss0_open: "bk_read_all mem_remote (backend_of ''db'') (\<lambda>_. []) = []"
  "surface_open mem_remote ''db'' (\<lambda>_. []) = Inr ss0"
  by (simp_all add: bk_read_all_def mem_remote_def surface_open_def surface_reload_def ss0_def)

lemma wrapper0: "wrapper_ok ext0 (\<lambda>_. V0) mem_remote"
  by (simp add: wrapper_ok_def ext0_env V0_ok streams_ok_def mem_remote_def)

lemma ss1_run: "surf_run ext0 (\<lambda>_. V0) mem_remote ''db'' ss0 ss1"
proof -
  have "plain_kw no_kwargs" by (simp add: plain_kw_def no_kwargs_def prov_ok_def no_prov_def fl_one)
  moreover have "good_coll ''c''" by (simp add: good_coll_def)
  moreover have "storable [(''a'', PInt 1)]" by (simp add: storable_def lasting_def doc_get_def dget_def)
  ultimately have "surf_step ext0 (\<lambda>_. V0) mem_remote ''db'' ss0 ss1"
    unfolding ss1_def sf0_def by (rule surf_step.put)
  then show ?thesis by blast
qed

lemma persist_db: "\<exists>r. persist_last_op F st = (Inr (), st\<lparr> st_redis := r \<rparr>)"
  by (auto simp: persist_last_op_def Let_def split: list.split intro: exI[of _ "st_redis st"])

lemma ss1_ops: "length (l_ops (e_log (snd (st_db ss1)))) = 1"
proof -
  let ?m = "callM (\<lambda>_. V0) (\<lambda>V. eng_put ext0 V ''c'' ''k'' [(''a'', PInt 1)] (client_of no_kwargs) None None None no_prov)"
  have "records ext0 ?m"
    by (rule records_put) (simp_all add: ext0_env V0_ok good_coll_def lasting_def doc_get_def dget_def prov_ok_def no_prov_def fl_one)
  with good_new[of ext0] obtain x n' e' r where
    m: "?m (0, engine_new False None empty_disk) = (Inr x, (n', e'))" and
    l: "l_ops (e_log e') = l_ops (e_log (engine_new False None empty_disk)) @ [r]"
    unfolding records_def by blast
  have k: "kw_nonce no_kwargs = None" "kw_idem no_kwargs = None" "kw_ttl no_kwargs = None" "kw_prov no_kwargs = no_prov"
    by (simp_all add: no_kwargs_def)
  obtain r' where "persist_last_op sf0 (ss0\<lparr> st_db := (n', e') \<rparr>) = (Inr (), ss0\<lparr> st_db := (n', e'), st_redis := r' \<rparr>)"
    using persist_db[of sf0 "ss0\<lparr> st_db := (n', e') \<rparr>"] by auto
  with m have "st_db ss1 = (n', e')"
    by (simp add: ss1_def sf_put_def in_process_simps k bindM_def on_db_def sf0_def ss0_def sstate_of_def)
      (simp add: retM_def bindM_def)
  with l show ?thesis by (simp add: engine_new_def log_init_def)
qed

end
