(* ===== verification/Autoindex.thy ===== *)
theory Autoindex
  imports Client QueryInv Lifecycle
begin

text \<open>
  The wrapper that creates indexes for the fields queries use (\<open>autoindex.py\<close>): the four regular
  expressions that find the fields in the text of a query, the tallies, and what the wrapper promises:
  an index appears exactly when its tally reaches the threshold, and no answer changes.
\<close>

section \<open>Signals\<close>

text \<open>\<open>\w\<close> of the standard library, on code points below 256.\<close>

definition re_word :: "char \<Rightarrow> bool" where
  "re_word c \<longleftrightarrow> word_char c \<or>
     (let n = of_char c :: nat in
      n \<in> {0xAA, 0xB2, 0xB3, 0xB5, 0xB9, 0xBA, 0xBC, 0xBD, 0xBE} \<or> (0xC0 \<le> n \<and> n \<noteq> 0xD7 \<and> n \<noteq> 0xF7))"

text \<open>\<open>re.search\<close>: the first position where the rest of the expression matches.  The flag says
  whether a word character stands before the position.\<close>

fun re_search :: "(bool \<Rightarrow> string \<Rightarrow> 'a option) \<Rightarrow> bool \<Rightarrow> string \<Rightarrow> 'a option" where
  "re_search m w [] = m w []"
| "re_search m w (c # cs) = (case m w (c # cs) of Some x \<Rightarrow> Some x | None \<Rightarrow> re_search m (re_word c) cs)"

definition re_kw :: "string \<Rightarrow> bool \<Rightarrow> string \<Rightarrow> string option" where
  \<comment> \<open>\<open>\b\<close> and a keyword in any case\<close>
  "re_kw k w s =
     (if \<not> w \<and> str_lower (take (length k) s) = str_lower k \<and> length k \<le> length s then Some (drop (length k) s) else None)"

definition word_ends :: "string \<Rightarrow> bool" where
  \<comment> \<open>\<open>\b\<close> behind a word character\<close>
  "word_ends s \<longleftrightarrow> s = [] \<or> \<not> re_word (hd s)"

definition re_many :: "(char \<Rightarrow> bool) \<Rightarrow> string \<Rightarrow> (string \<times> string) option" where
  \<comment> \<open>one or more, greedy\<close>
  "re_many P s = (if takeWhile P s = [] then None else Some (takeWhile P s, dropWhile P s))"

definition FROM_RE :: "bool \<Rightarrow> string \<Rightarrow> string option" where
  "FROM_RE w s =
     Option.bind (re_kw ''FROM'' w s) (\<lambda>r.
     Option.bind (re_many is_space r) (\<lambda>(_, r). map_option fst (re_many re_word r)))"

definition ORDER_RE :: "bool \<Rightarrow> string \<Rightarrow> string option" where
  "ORDER_RE w s =
     Option.bind (re_kw ''ORDER'' w s) (\<lambda>r.
     Option.bind (re_many is_space r) (\<lambda>(_, r).
     Option.bind (re_kw ''BY'' False r) (\<lambda>r.
     Option.bind (re_many is_space r) (\<lambda>(_, r). map_option fst (re_many re_word r)))))"

definition where_stop :: "bool \<Rightarrow> string \<Rightarrow> bool" where
  \<comment> \<open>one of the words that end the clause, or \<open>$\<close>\<close>
  "where_stop w s \<longleftrightarrow> s = [] \<or> s = [CHR 0x0A] \<or>
     list_ex (\<lambda>k. case re_kw k w s of None \<Rightarrow> False | Some r \<Rightarrow> word_ends r)
       [''SEARCH'', ''ORDER'', ''TRAVERSE'', ''LIMIT'']"

fun where_text :: "bool \<Rightarrow> string \<Rightarrow> string" where
  "where_text w [] = []"
| "where_text w (c # cs) = (if where_stop w (c # cs) then [] else c # where_text (re_word c) cs)"

definition WHERE_RE :: "bool \<Rightarrow> string \<Rightarrow> string option" where
  "WHERE_RE w s =
     Option.bind (re_kw ''WHERE'' w s) (\<lambda>r. if word_ends r then Some (where_text True r) else None)"

definition cond_op :: "string \<Rightarrow> (string \<times> string) option" where
  "cond_op s =
     (case filter (\<lambda>p. starts_with p s) [''='', ''!='', ''<>'', ''<='', ''>='', ''<'', ''>''] of
        [] \<Rightarrow> None | p # _ \<Rightarrow> Some (p, drop (length p) s))"

definition COND_RE :: "string \<Rightarrow> ((string \<times> string) \<times> string) option" where
  "COND_RE s =
     Option.bind (re_many re_word s) (\<lambda>(f, r).
     Option.bind (cond_op (dropWhile is_space r)) (\<lambda>(p, r). Some ((f, p), r)))"

lemma COND_RE_shorter: "COND_RE s = Some (x, r) \<Longrightarrow> length r < length s"
proof -
  assume a: "COND_RE s = Some (x, r)"
  then obtain f r1 p where f: "re_many re_word s = Some (f, r1)" and p: "cond_op (dropWhile is_space r1) = Some (p, r)"
    by (auto simp: COND_RE_def bind_eq_Some_conv)
  from f have "length r1 < length s"
    by (cases s) (auto simp: re_many_def length_dropWhile_le less_Suc_eq_le split: if_splits)
  moreover from p have "length r \<le> length (dropWhile is_space r1)"
    by (auto simp: cond_op_def split: list.splits)
  moreover have "length (dropWhile is_space r1) \<le> length r1" by (rule length_dropWhile_le)
  ultimately show ?thesis by simp
qed

function find_conds :: "string \<Rightarrow> (string \<times> string) list" where
  \<comment> \<open>\<open>finditer\<close>\<close>
  "find_conds [] = []"
| "find_conds (c # cs) =
     (case COND_RE (c # cs) of None \<Rightarrow> find_conds cs | Some (x, r) \<Rightarrow> x # find_conds r)"
  by pat_completeness auto
termination
  by (relation "measure length") (auto dest: COND_RE_shorter)

type_synonym signal = "string \<times> string \<times> string"

definition parse_signals :: "string \<Rightarrow> signal list" where
  "parse_signals nql =
     (case re_search FROM_RE False nql of
        None \<Rightarrow> []
      | Some coll \<Rightarrow>
          (case re_search WHERE_RE False nql of
             None \<Rightarrow> []
           | Some t \<Rightarrow> map (\<lambda>(f, p). (coll, f, if p \<in> {''='', ''!='', ''<>''} then ''eq'' else ''ordered'')) (find_conds t)) @
          (case re_search ORDER_RE False nql of None \<Rightarrow> [] | Some f \<Rightarrow> [(coll, f, ''ordered'')]))"

section \<open>The wrapper\<close>

record autodb =
  ad_db :: engine
  ad_threshold :: int
  ad_counts :: "(signal, int) dict"
  ad_created :: "signal set"

definition auto_open :: "engine \<Rightarrow> int \<Rightarrow> autodb" where
  "auto_open e n = \<lparr> ad_db = e, ad_threshold = n, ad_counts = [], ad_created = set (ix_config (m_ix (e_mat e))) \<rparr>"

definition internal :: "string \<Rightarrow> bool" where
  "internal f \<longleftrightarrow> starts_with ''_'' f \<and> f \<noteq> ''_id''"

definition on_auto :: "(engine \<Rightarrow> 'a call) \<Rightarrow> (autodb, 'a) prog" where
  \<comment> \<open>what the wrapper does not define is looked up in the database\<close>
  "on_auto f a = (case f (ad_db a) of (r, e) \<Rightarrow> (r, a\<lparr> ad_db := e \<rparr>))"

definition auto_create :: "ext \<Rightarrow> signal \<Rightarrow> (autodb, unit) prog" where
  "auto_create X s a =
     (case s of (coll, field, kind) \<Rightarrow>
        if s \<in> ad_created a \<or> internal field then (Inr (), a)
        else bindM (on_auto (eng_create_index X coll field kind))
               (\<lambda>_ a. (Inr (), a\<lparr> ad_created := insert s (ad_created a) \<rparr>)) a)"

definition tally_one :: "ext \<Rightarrow> signal \<Rightarrow> (autodb, unit) prog" where
  \<comment> \<open>the three branches for the kinds count alike\<close>
  "tally_one X s a =
     (if s \<in> ad_created a then (Inr (), a)
      else let n = dget (ad_counts a) s 0 + 1; a = a\<lparr> ad_counts := dset s n (ad_counts a) \<rparr> in
        if ad_threshold a \<le> n then auto_create X s a else (Inr (), a))"

fun tally :: "ext \<Rightarrow> signal list \<Rightarrow> (autodb, unit) prog" where
  "tally X [] a = (Inr (), a)"
| "tally X (s # ss) a = bindM (tally_one X s) (\<lambda>_. tally X ss) a"

definition auto_query :: "ext \<Rightarrow> string \<Rightarrow> (autodb, doc list) prog" where
  "auto_query X nql =
     bindM (tally X (parse_signals nql)) (\<lambda>_ a. (eng_query X nql (ad_db a), a))"

section \<open>Reports\<close>

definition signal_text :: "signal \<Rightarrow> string" where
  "signal_text s = (case s of (c, f, k) \<Rightarrow> c @ ''.'' @ f @ '' ('' @ k @ '')'')"

definition analyze :: "autodb \<Rightarrow> doc" where
  "analyze a =
     [(''tallies'', PDict (fold (\<lambda>(s, n). dset (signal_text s) (PInt n)) (ad_counts a) [])),
      (''indexes_created'', PList (map (\<lambda>s. PStr (signal_text s)) (sorted_list_of_set (ad_created a)))),
      (''threshold'', PInt (ad_threshold a))]"

definition suggest :: "autodb \<Rightarrow> (string \<times> int \<times> int) list" where
  \<comment> \<open>the parts of each line: the dash between them is not a character of the model\<close>
  "suggest a =
     map (\<lambda>(s, n). (signal_text s, n, ad_threshold a))
       (filter (\<lambda>(s, n). s \<notin> ad_created a) (sort_key (\<lambda>(s, n). - n) (ad_counts a)))"

section \<open>Creating an index\<close>

lemma backfill_config: "ix_config (m_ix (snd (backfill coll ks m))) = ix_config (m_ix m)"
proof (induction ks arbitrary: m)
  case (Cons k ks)
  have "ix_config (m_ix (snd (on_ix (ix_add coll k d) m))) = ix_config (m_ix m)" for d
    using ix_add_keys(3)[of coll k d "m_ix m"] by (auto simp: on_ix_def split: prod.split)
  then have "ix_config (m_ix (snd (case mv_get (m_store m) k None of
      Inl x \<Rightarrow> (Some x, m) | Inr None \<Rightarrow> (None, m) | Inr (Some d) \<Rightarrow> on_ix (ix_add coll k d) m))) = ix_config (m_ix m)"
    (is "ix_config (m_ix (snd ?c)) = _") by (simp split: sum.split option.split)
  moreover obtain x m1 where "?c = (x, m1)" by (cases ?c)
  ultimately show ?case using Cons[of m1] by (cases x) (simp_all add: andthen_def)
qed simp

lemma create_index_effect:
  assumes "eng_create_index X c f kd e = (Inr (), e')" "mat_ok q (e_mat e)" "good_coll c"
  shows "e_log e' = e_log e" "store_of e' = store_of e"
    "set (ix_config (m_ix (e_mat e'))) = insert (c, f, kd) (set (ix_config (m_ix (e_mat e))))"
proof -
  from assms(1) obtain m where m: "index_mat c f kd (e_mat e) = (None, m)"
    and e': "e' = persist_meta X (e\<lparr> e_mat := m \<rparr>)"
    by (auto simp: eng_create_index_def on_mat_def bindC_Inr split: prod.splits option.splits)
  from index_mat_ok(2)[OF assms(3,2) m] show "e_log e' = e_log e" "store_of e' = store_of e"
    by (simp_all add: e' persist_meta_def store_of_def)
  from m obtain m1 where i: "on_ix (ix_ensure c f kd) (e_mat e) = (None, m1)"
    and "(case mv_keys (m_store m1) (c @ '':'') None of
        Inl x \<Rightarrow> (Some x, m1) | Inr ks \<Rightarrow> backfill c ks m1) = (None, m)"
    by (auto simp: index_mat_def andthen_eq_None)
  then obtain ks where "backfill c ks m1 = (None, m)" by (auto split: sum.splits)
  with backfill_config[of c ks m1] have "ix_config (m_ix m) = ix_config (m_ix m1)" by simp
  with i show "set (ix_config (m_ix (e_mat e'))) = insert (c, f, kd) (set (ix_config (m_ix (e_mat e))))"
    by (auto simp: e' persist_meta_def on_ix_def ix_ensure_def Let_def split: prod.splits if_splits)
qed

section \<open>The tallies\<close>

definition signal_ok :: "signal \<Rightarrow> bool" where
  "signal_ok s \<longleftrightarrow> good_coll (fst s)"

lemma re_search_Some: "re_search m w s = Some x \<Longrightarrow> \<exists>w' s'. m w' s' = Some x"
  by (induction m w s rule: re_search.induct) (auto split: option.splits)

lemma from_coll: "FROM_RE w s = Some c \<Longrightarrow> good_coll c"
proof -
  assume "FROM_RE w s = Some c"
  then obtain r where "c = takeWhile re_word r"
    by (auto simp: FROM_RE_def re_many_def bind_eq_Some_conv split: if_splits)
  then have "\<forall>x\<in>set c. re_word x" by (auto dest: set_takeWhileD)
  moreover have "\<not> re_word (CHR ''.'')" "\<not> re_word (CHR '':'')" by code_simp+
  ultimately show ?thesis by (auto simp: good_coll_def)
qed

lemma signals_ok:
  "s \<in> set (parse_signals nql) \<Longrightarrow> signal_ok s"
proof -
  assume s: "s \<in> set (parse_signals nql)"
  then obtain c where c: "re_search FROM_RE False nql = Some c"
    by (cases "re_search FROM_RE False nql") (auto simp: parse_signals_def)
  with s have "fst s = c" by (auto simp: parse_signals_def split: option.splits)
  with re_search_Some[OF c] from_coll show ?thesis by (auto simp: signal_ok_def)
qed

definition listed :: "autodb \<Rightarrow> bool" where
  \<comment> \<open>what the wrapper takes for created is an index of the database\<close>
  "listed a \<longleftrightarrow> ad_created a \<subseteq> set (ix_config (m_ix (e_mat (ad_db a))))"

lemma tally_one_counts:
  assumes "tally_one X s a = (Inr (), a')"
  shows "ad_threshold a' = ad_threshold a"
    "t \<noteq> s \<Longrightarrow> dget (ad_counts a') t 0 = dget (ad_counts a) t 0 \<and> (t \<in> ad_created a' \<longleftrightarrow> t \<in> ad_created a)"
    "s \<in> ad_created a \<Longrightarrow> a' = a"
    "s \<notin> ad_created a \<Longrightarrow> dget (ad_counts a') s 0 = dget (ad_counts a) s 0 + 1 \<and>
       (s \<in> ad_created a' \<longleftrightarrow> \<not> internal (fst (snd s)) \<and> ad_threshold a \<le> dget (ad_counts a) s 0 + 1)"
  using assms
  by (auto simp: tally_one_def auto_create_def bindM_def on_auto_def Let_def split: if_splits prod.splits sum.splits)

lemma tally_stays:
  "tally X ss a = (Inr (), a') \<Longrightarrow> s \<in> ad_created a \<Longrightarrow>
     s \<in> ad_created a' \<and> dget (ad_counts a') s 0 = dget (ad_counts a) s 0"
proof (induction ss arbitrary: a)
  case (Cons t ss)
  from Cons.prems(1) obtain a1 where one: "tally_one X t a = (Inr (), a1)" and r: "tally X ss a1 = (Inr (), a')"
    by (auto simp: bindM_def split: prod.splits sum.splits)
  from tally_one_counts(2)[OF one, of s] tally_one_counts(3)[OF one] Cons.prems(2) Cons.IH[OF r] show ?case by (cases "t = s") auto
qed simp

text \<open>A field is indexed when its tally reaches the threshold, not before, and is not counted any more.\<close>

lemma tally_exact:
  assumes "tally X ss a = (Inr (), a')" "\<not> internal (fst (snd s))"
    "s \<notin> ad_created a" "dget (ad_counts a) s 0 < ad_threshold a"
  shows "(s \<in> ad_created a' \<longleftrightarrow> ad_threshold a \<le> dget (ad_counts a) s 0 + int (count_list ss s)) \<and>
    dget (ad_counts a') s 0 = min (ad_threshold a) (dget (ad_counts a) s 0 + int (count_list ss s))"
  using assms
proof (induction ss arbitrary: a)
  case (Cons t ss)
  from Cons.prems(1) obtain a1 where one: "tally_one X t a = (Inr (), a1)" and r: "tally X ss a1 = (Inr (), a')"
    by (auto simp: bindM_def split: prod.splits sum.splits)
  note c = tally_one_counts[OF one]
  show ?case
  proof (cases "t = s")
    case False
    with c(1) c(2)[of s] Cons.IH[OF r] Cons.prems(2-4) show ?thesis by simp
  next
    case True
    show ?thesis
    proof (cases "s \<in> ad_created a1")
      case True
      with \<open>t = s\<close> c(4) Cons.prems(2-4) tally_stays[OF r True] show ?thesis by auto
    next
      case False
      with \<open>t = s\<close> c(1,4) Cons.prems(2-4) Cons.IH[OF r] show ?thesis by auto
    qed
  qed
qed simp

lemma tally_one_keeps:
  assumes X: "ext_ok X" and one: "tally_one X s a = (Inr (), a')" and s: "signal_ok s"
    and l: "lifecycle X (ad_db a)" "listed a"
  shows "lifecycle X (ad_db a') \<and> listed a' \<and> e_log (ad_db a') = e_log (ad_db a) \<and> store_of (ad_db a') = store_of (ad_db a)"
proof -
  obtain c f k where k: "s = (c, f, k)" by (cases s)
  from one k consider "ad_db a' = ad_db a" "ad_created a' = ad_created a"
    | "eng_create_index X c f k (ad_db a) = (Inr (), ad_db a')" "ad_created a' = insert s (ad_created a)"
    by (auto simp: tally_one_def auto_create_def bindM_def on_auto_def Let_def split: if_splits prod.splits sum.splits)
  then show ?thesis
  proof cases
    case 1
    with l show ?thesis by (simp add: listed_def)
  next
    case 2
    have g: "good_coll c" using s k by (simp add: signal_ok_def)
    have "mat_ok (eng_seq (ad_db a)) (e_mat (ad_db a))" using lifecycle_ok[OF X l(1)] by (simp add: engine_ok_def)
    note e = create_index_effect[OF 2(1) this g]
    have "lifecycle X (ad_db a')" by (rule lifecycle.call[OF l(1) api_step.create_index[OF g 2(1)]])
    with e 2(2) l(2) k show ?thesis by (auto simp: listed_def)
  qed
qed

lemma tally_keeps:
  assumes "ext_ok X" "tally X ss a = (Inr (), a')" "\<forall>s\<in>set ss. signal_ok s" "lifecycle X (ad_db a)" "listed a"
  shows "lifecycle X (ad_db a') \<and> listed a' \<and> e_log (ad_db a') = e_log (ad_db a) \<and> store_of (ad_db a') = store_of (ad_db a)"
  using assms(2-)
proof (induction ss arbitrary: a)
  case (Cons s ss)
  from Cons.prems(1) obtain a1 where one: "tally_one X s a = (Inr (), a1)" and r: "tally X ss a1 = (Inr (), a')"
    by (auto simp: bindM_def split: prod.splits sum.splits)
  have "signal_ok s" using Cons.prems(2) by simp
  from tally_one_keeps[OF assms(1) one this Cons.prems(3,4)] Cons.IH[OF r] Cons.prems(2) show ?case by simp
qed simp

section \<open>Answers\<close>

definition plain_plan :: "plan \<Rightarrow> bool" where
  \<comment> \<open>WHERE and ORDER BY only, at HEAD or in the past\<close>
  "plain_plan p \<longleftrightarrow> search_text p = None \<and> q_traverse p = None \<and> q_trace p = None \<and> q_limit p = None \<and>
     q_valid p = None \<and> q_group p = None"

lemma plain_execute:
  assumes ok: "engine_ok X e" and it: "iter_ok X" and p: "good_coll (q_from p)" "keyed (q_where p)" "plain_plan p"
  shows "\<exists>rs ds. execute X p e = Inr ds \<and> distinct (map fst rs) \<and> set rs = matches p e \<and> mset ds = mset (map snd rs)"
proof -
  have s: "search_text p = None" using p(3) by (simp add: plain_plan_def)
  from result_rows_matches[OF ok it p(1) s p(2)] obtain rs where
    rs: "result_rows X p e = Inr rs" "distinct (map fst rs)" "set rs = matches p e" by blast
  from order_rows_perm[of X p rs] obtain r where r: "order_rows X p rs = Inr r" "mset r = mset rs" by blast
  have "execute X p e = Inr (map snd r)"
    using p(3) rs(1) r(1)
    by (simp add: execute_def plain_plan_def traverse_rows_def trace_rows_def py_take_def valid_rows_def group_rows_def)
  with rs r(2) show ?thesis by (intro exI[of _ rs] exI[of _ "map snd r"]) simp
qed

lemma same_answers:
  assumes X: "ext_ok X" "iter_ok X" and e: "engine_ok X e" "engine_ok X e'" and st: "store_of e' = store_of e"
    and p: "good_coll (q_from p)" "keyed (q_where p)" "plain_plan p"
  shows "\<exists>ds ds'. execute X p e = Inr ds \<and> execute X p e' = Inr ds' \<and> mset ds' = mset ds"
proof -
  from plain_execute[OF e(1) X(2) p] plain_execute[OF e(2) X(2) p] obtain rs ds rs' ds' where
    a: "execute X p e = Inr ds" "distinct (map fst rs)" "set rs = matches p e" "mset ds = mset (map snd rs)" and
    b: "execute X p e' = Inr ds'" "distinct (map fst rs')" "set rs' = matches p e'" "mset ds' = mset (map snd rs')"
    by blast
  have "matches p e' = matches p e" by (simp add: matches_def st)
  with a(2,3) b(2,3) have "mset rs' = mset rs"
    by (metis set_eq_iff_mset_eq_distinct distinct_map)
  with a b show ?thesis by simp
qed

end
