(* ===== verification/SampleAuto.thy ===== *)
theory SampleAuto
  imports Samples Autoindex
begin

text \<open>
  The signals of a query, and that query through the wrapper whose threshold is one on the sample database.
\<close>

lemma signals0: "parse_signals ''FROM c WHERE a = 1'' = [(''c'', ''a'', ''eq'')]"
  by (simp add: parse_signals_def FROM_RE_def WHERE_RE_def ORDER_RE_def COND_RE_def re_kw_def re_many_def
      where_stop_def word_ends_def cond_op_def starts_with_def str_lower_def char_lower_def is_upper_def is_lower_def
      is_digit_def is_space_def re_word_def word_char_def word_start_def Let_def char_of_def)

lemma plan0: "parse_nql ''FROM c WHERE a = 1'' = Inr ((empty_plan ''c'')\<lparr> q_where := [(''a'', ''='', PInt 1)] \<rparr>)"
  by code_simp

lemma create0: "\<exists>e. eng_create_index ext0 ''c'' ''a'' ''eq'' e1 = (Inr (), e)"
  by (simp add: put0_def e1_def e0_def engine_new_def empty_disk_def eng_put_def put_doc_def
      embed_ttl_def set_opt_def setdefault_def no_prov_def Let_def pick_nonce_def next_nonce_def commit_def
      eng_append_def log_append_def log_init_def eng_flush_def eng_fold_def apply_op_def
      apply_effect_def drop_old_def mat_init_def mv_init_def history_def on_ix_def ix_add_def ix_init_def
      note_causes_def causes_of_def store_of_def mv_put_def stamp_def
      dappend_def dget_def visible_def eng_create_index_def on_mat_def index_mat_def ix_ensure_def mv_keys_def
      eq_add_def starts_with_def doc_key_def ix_key_def after_dot_def doc_get_def andthen_def bindC_def)

lemma e1_life: "lifecycle ext0 e1"
proof (rule lifecycle.call[OF e0_life])
  show "api_step ext0 e0 e1"
    by (rule api_step.put[OF V0_ok, of "''c''" "[(''a'', PInt 1)]" no_prov ext0 "''k''" "''u''" None None None
          e0 "Some doc1"])
      (use put0_run(1) in \<open>simp_all add: put0_def good_coll_def prov_ok_def no_prov_def\<close>)
qed

lemma auto0: "\<exists>ds a'. auto_query ext0 ''FROM c WHERE a = 1'' (auto_open e1 1) = (Inr ds, a') \<and>
  (''c'', ''a'', ''eq'') \<in> ad_created a'"
proof -
  let ?s = "(''c'', ''a'', ''eq'')" and ?p = "(empty_plan ''c'')\<lparr> q_where := [(''a'', ''='', PInt 1)] \<rparr>"
  obtain e where e: "eng_create_index ext0 ''c'' ''a'' ''eq'' e1 = (Inr (), e)" using create0 by blast
  have g: "good_coll ''c''" by (simp add: good_coll_def)
  let ?a = "\<lparr> ad_db = e, ad_threshold = 1, ad_counts = [(?s, 1)], ad_created = {?s} \<rparr>"
  have t: "tally ext0 [?s] (auto_open e1 1) = (Inr (), ?a)"
    using e by (simp add: auto_open_def put0_run tally_one_def auto_create_def internal_def starts_with_def
        bindM_def on_auto_def)
  have "lifecycle ext0 e" by (rule lifecycle.call[OF e1_life api_step.create_index[OF g e]])
  from plain_execute[OF lifecycle_ok[OF ext0_env this] ext0_ok(3), of ?p] obtain ds where
    "execute ext0 ?p e = Inr ds"
    by (auto simp: g empty_plan_def keyed_def plain_plan_def search_text_def)
  with t show ?thesis
    by (intro exI[of _ ds] exI[of _ ?a]) (simp add: auto_query_def signals0 bindM_def eng_query_def plan0)
qed

end
