(* ===== verification/SnapInv.thy ===== *)
theory SnapInv
  imports Lifecycle
begin

text \<open>
  What a checkpoint keeps: opening a database from \<open>snapshot.json\<close> and the operations logged after it
  gives the documents, the edges, the files and the log back; what was written over before the
  checkpoint, and the map of causes up to it, is lost.
\<close>

section \<open>What the calls of the engine leave alone\<close>

definition tiers_ok :: "(string, blobs) dict \<Rightarrow> bool" where
  "tiers_ok bs \<longleftrightarrow> map fst bs = [''warm'', ''cold''] \<and>
     (\<forall>(t, b)\<in>set bs. b_tier b = t \<and> distinct (map fst (b_files b)))"

definition kept :: "engine \<Rightarrow> engine \<Rightarrow> bool" where
  "kept e e' \<longleftrightarrow> e_dek e' = e_dek e \<and> e_path e' = e_path e \<and> d_snap (e_disk e') = d_snap (e_disk e) \<and>
     (tiers_ok (e_blobs e) \<longrightarrow> tiers_ok (e_blobs e'))"

lemma kept_refl [simp]: "kept e e" by (simp add: kept_def)

lemma kept_trans: "kept a b \<Longrightarrow> kept b c \<Longrightarrow> kept a c" by (simp add: kept_def)

lemma kept_frame:
  "e_dek e' = e_dek e \<Longrightarrow> e_path e' = e_path e \<Longrightarrow> d_snap (e_disk e') = d_snap (e_disk e) \<Longrightarrow>
   e_blobs e' = e_blobs e \<Longrightarrow> kept e e'"
  by (simp add: kept_def)

lemma kept_bind:
  assumes "kept e (snd c)" "\<And>a e1. kept e1 (snd (f a e1))"
  shows "kept e (snd (bindC c f))"
proof (cases c)
  case (Pair r e1)
  with assms show ?thesis by (cases r) (auto intro: kept_trans)
qed

lemma kept_flush [simp]: "kept e (eng_flush e)"
  by (rule kept_frame) (simp_all add: eng_flush_def)

lemma kept_append: "kept e (snd (eng_append X ts rnd client n op pl idm pr e))"
  by (auto simp: eng_append_def Let_def eng_flush_def intro!: kept_frame split: sum.split)

lemma kept_fold: "kept e (snd (eng_fold c r e))"
  by (auto simp: eng_fold_def intro!: kept_frame split: prod.split)

lemma kept_commit: "kept e (snd (commit X ts rnd client n op pl idm pr e))"
  unfolding commit_def by (rule kept_bind) (auto simp: kept_append kept_fold)

lemma kept_nonce: "pick_nonce client nonce e = (n, e1) \<Longrightarrow> kept e1 e' = kept e e'"
  by (auto simp: kept_def pick_nonce_def next_nonce_def Let_def split: option.splits)

lemma kept_put: "kept e (snd (eng_put X V coll i d client nonce idm ttl pr e))"
proof -
  obtain n e1 where n: "pick_nonce client nonce e = (n, e1)" by (cases "pick_nonce client nonce e")
  show ?thesis
    unfolding eng_put_def Let_def n prod.case kept_nonce[OF n, symmetric]
    by (rule kept_bind) (simp_all add: kept_commit)
qed

lemma kept_edits:
  "kept e (snd (eng_delete X V coll i client nonce idm e))" "kept e (snd (eng_link X V f r t client nonce e))"
  "kept e (snd (eng_unlink X V f r t client nonce e))"
proof -
  obtain n e1 where n: "pick_nonce client nonce e = (n, e1)" by (cases "pick_nonce client nonce e")
  show "kept e (snd (eng_delete X V coll i client nonce idm e))" "kept e (snd (eng_link X V f r t client nonce e))"
    "kept e (snd (eng_unlink X V f r t client nonce e))"
    unfolding eng_delete_def eng_link_def eng_unlink_def n prod.case kept_nonce[OF n, symmetric]
    by (rule kept_commit)+
qed

lemma kept_ttl: "kept e (snd (ttl_delete X ts rnd coll i e))"
proof -
  obtain n e1 where n: "pick_nonce ''__ttl__'' None e = (n, e1)" by (cases "pick_nonce ''__ttl__'' None e")
  then have n': "next_nonce ''__ttl__'' e = (n, e1)" by (simp add: pick_nonce_def)
  show ?thesis
    unfolding ttl_delete_def n' prod.case kept_nonce[OF n, symmetric]
    by (rule kept_bind) (auto simp: kept_append kept_fold split: sum.split)
qed

lemma kept_get: "kept e (snd (eng_get X V coll i as_of e))"
  by (auto simp: eng_get_def check_ttl_def Let_def intro!: kept_bind kept_ttl split: sum.split option.split bool.split)

lemma kept_sweep: "kept e (snd (sweep_keys X V ks n e))"
proof (induction ks arbitrary: n e)
  case (Cons k ks)
  then show ?case
    by (auto intro!: kept_bind kept_ttl split: sum.split bool.split)
qed simp

lemma kept_put_file: "kept e (snd (eng_put_file X V name data tier client nonce idm e))"
proof (cases "map_of (e_blobs e) tier")
  case None
  then show ?thesis by (simp add: eng_put_file_def)
next
  case (Some bs)
  show ?thesis
  proof (cases "put_file X name data bs")
    case (Inl x)
    with Some show ?thesis by (simp add: eng_put_file_def)
  next
    case (Inr p)
    obtain v bs' where p: "p = (v, bs')" by (cases p)
    let ?e1 = "e\<lparr> e_blobs := dset tier bs' (e_blobs e) \<rparr>"
    from Inr p have "b_tier bs' = b_tier bs \<and> (distinct (map fst (b_files bs)) \<longrightarrow> distinct (map fst (b_files bs')))"
      by (auto simp: put_file_def Let_def bindE_eq_Inr)
    with Some have "tiers_ok (e_blobs e) \<Longrightarrow> tiers_ok (dset tier bs' (e_blobs e))"
      by (cases "e_blobs e") (auto simp: tiers_ok_def Cons_eq_append_conv split: if_splits)
    then have k: "kept e ?e1" by (simp add: kept_def)
    have "kept ?e1 (snd (case file_root bs' name (int v) of
                  Inl x \<Rightarrow> (Inl x, ?e1)
                | Inr rt \<Rightarrow>
                    (case pick_nonce client nonce ?e1 of (n, e2) \<Rightarrow>
                       bindC (eng_append X (v_ts V 0) (v_rand V 0) client n ''put_file''
                                (file_payload name tier v rt) idm no_prov e2)
                         (\<lambda>_ e3. (Inr v, e3)))))"
    proof -
      obtain n e2 where n: "pick_nonce client nonce ?e1 = (n, e2)" by (cases "pick_nonce client nonce ?e1")
      show ?thesis
        unfolding n prod.case
        by (cases "file_root bs' name (int v)") (auto simp: kept_nonce[OF n, symmetric] kept_append intro!: kept_bind)
    qed
    with k have "kept e (snd (eng_put_file X V name data tier client nonce idm e))"
      unfolding eng_put_file_def Some Inr p option.case sum.case prod.case Let_def
      by (rule kept_trans)
    then show ?thesis .
  qed
qed

lemma kept_meta: "kept e (persist_meta X e)"
  by (rule kept_frame) (simp_all add: persist_meta_def)

lemma kept_index: "kept e (snd (eng_create_index X c f k e))"
proof -
  have "kept e (snd (on_mat g e))" for g
    by (rule kept_frame) (simp_all add: on_mat_def split: prod.split)
  then show ?thesis
    unfolding eng_create_index_def by (rule kept_bind) (simp add: kept_meta)
qed

lemma snd_call: "c = (r, e') \<Longrightarrow> kept e (snd c) \<Longrightarrow> kept e e'" by simp

lemma step_kept: "api_step X e e' \<Longrightarrow> kept e e'"
proof (induction rule: api_step.induct)
  case (expire V coll i secs e b e')
  have "kept e (snd (eng_expire X V coll i secs e))"
    by (auto simp: eng_expire_def kept_put intro!: kept_bind split: sum.split option.split)
  with expire(3) show ?case by simp
next
  case (sweep V e n e')
  have "kept e (snd (eng_sweep X V e))"
    by (auto simp: eng_sweep_def kept_sweep kept_meta intro!: kept_bind split: sum.split)
  with sweep(2) show ?case by simp
next
  case (close e)
  then show ?case by (auto simp: eng_close_def kept_def eng_flush_def)
qed (auto dest: snd_call[OF _ kept_put] snd_call[OF _ kept_edits(1)] snd_call[OF _ kept_edits(2)]
    snd_call[OF _ kept_edits(3)] snd_call[OF _ kept_get] snd_call[OF _ kept_put_file] snd_call[OF _ kept_index])

lemma run_kept: "api_run X e e' \<Longrightarrow> kept e e'"
  by (induction rule: rtranclp_induct) (auto intro: kept_trans step_kept)

lemma same_bind:
  "e_blobs (snd c) = b \<Longrightarrow> (\<And>a e1. e_blobs e1 = b \<Longrightarrow> e_blobs (snd (f a e1)) = b) \<Longrightarrow> e_blobs (snd (bindC c f)) = b"
  by (cases c; cases "fst c") auto

lemma on_mat_blobs: "e_blobs (snd (on_mat f e)) = e_blobs e"
  by (simp add: on_mat_def split: prod.split)

lemma load_full_blobs: "e_blobs (snd (load_full X V e)) = e_blobs e"
proof -
  have c: "e_blobs (snd (ensure_config e)) = e_blobs e"
    by (auto simp: ensure_config_def on_mat_blobs split: option.split sum.split)
  have r: "e_blobs (snd (case read_ops X (e_dek e1) (aof_lines (e_disk e1)) of
       Inl x \<Rightarrow> (Inl x, e1)
     | Inr (ops, bad) \<Rightarrow>
         (let e2 = (if bad then rewrite_aof X (v_rand V) ops e1 else e1);
              e3 = e2\<lparr> e_log := log_load ops \<rparr>
          in bindC (fold_into ops e3) (\<lambda>_ e4. (Inr (), e4\<lparr> e_nonce := l_last (e_log e4) \<rparr>))))) = e_blobs e1" for e1
    by (auto simp: Let_def fold_into_def on_mat_blobs rewrite_aof_def intro!: same_bind split: sum.split)
  show ?thesis unfolding load_full_def by (rule same_bind[OF c]) (simp add: r)
qed

lemma open_blobs:
  assumes "d_snap (e_disk e) = None"
  shows "e_blobs (snd (open_files X V e)) = e_blobs e"
proof -
  have "e_blobs (snd (eng_load X V e)) = e_blobs e"
    using assms by (simp add: eng_load_def load_snapshot_def load_full_blobs)
  moreover have "e_blobs (self_heal X V e1) = e_blobs e1" for e1
    by (simp add: self_heal_def rewrite_aof_def Let_def)
  ultimately show ?thesis unfolding open_files_def by (auto intro!: same_bind)
qed

lemma lifecycle_tiers: "lifecycle X e \<Longrightarrow> tiers_ok (e_blobs e)"
proof (induction rule: lifecycle.induct)
  case (create V d dek e)
  then have "snd (open_files X V (engine_new True dek d)) = e" by simp
  then show ?case
    using create(2,3,4) by (simp add: open_files_def) (auto simp: tiers_ok_def blob_init_def)
next
  case (call e e')
  then show ?case using step_kept by (auto simp: kept_def)
next
  case (crash e k tail d V e')
  have "d_snap d = None" using crash(3,4) by (simp add: crash_disk_def)
  with open_blobs[of "engine_new True (e_dek e) d" X V] crash(6) show ?case
    by (simp add: tiers_ok_def blob_init_def)
qed (simp add: tiers_ok_def blob_init_def)

section \<open>The text of a snapshot\<close>

lemma checkpoint_effect:
  assumes X: "ext_ok X" and V: "env_ok V" and ok: "engine_ok X e" and c: "save_snapshot X V e = (Inr h, e1)"
  obtains r sd bd n where "engine_ok X e1" "l_ops (e_log e1) = l_ops (e_log e) @ [r]" "o_seq r = eng_seq e1"
    "e_mat e1 = e_mat e" "e_blobs e1 = e_blobs e" "h = l_head (e_log e1)" "e_dek e1 = e_dek e" "e_open e1 = e_open e"
    "o_op r = ''checkpoint''" "snap_store (store_of e) = Inr sd"
    "snap_blobs X (\<lambda>i. v_rand V (Suc i)) (e_dek e) 0 (e_blobs e) = (bd, n)" "e_path e" "causes_of r = []" "e_open e1 \<longrightarrow> e_buf e1 = []"
    "d_snap (e_disk e1) = Some (snapshot_encode X (v_rand V (Suc n))
       (utf8_encode (dumps X '','' '':'' (snap_doc (o_seq r) h e1 sd bd))) (e_dek e))"
proof -
  from c have p: "e_path e" by (auto simp: save_snapshot_def split: if_splits)
  let ?n = "py_trunc (fl (v_now V * 1000))" and ?pl = "[(''note'', PStr ''snapshot captured'')]"
  from c p obtain r created e2 where
    a: "eng_append X (v_ts V 0) (v_rand V 0) ''__snapshot__'' ?n ''checkpoint'' ?pl None no_prov e = (Inr (r, created), e2)"
    by (auto simp: save_snapshot_def bindC_Inr)
  from c p a obtain sd where sd: "snap_store (store_of e2) = Inr sd"
    by (cases "snap_store (store_of e2)") (auto simp: save_snapshot_def Let_def)
  obtain bd n where bd: "snap_blobs X (\<lambda>i. v_rand V (Suc i)) (e_dek e2) 0 (e_blobs e2) = (bd, n)"
    by (cases "snap_blobs X (\<lambda>i. v_rand V (Suc i)) (e_dek e2) 0 (e_blobs e2)")
  let ?h = "l_head (e_log e2)"
  let ?enc = "snapshot_encode X (v_rand V (Suc n)) (utf8_encode (dumps X '','' '':'' (snap_doc (o_seq r) ?h e2 sd bd))) (e_dek e2)"
  from c p a sd bd have e1: "h = ?h" "e1 = eng_flush (e2\<lparr> e_disk := (e_disk e2)\<lparr> d_snap := Some ?enc \<rparr> \<rparr>)"
    by (auto simp: save_snapshot_def Let_def)
  have V': "length (v_rand V 0) = NONCE_LEN" "fl (v_ts V 0) = v_ts V 0" using V by (simp_all add: env_ok_def)
  have g: "op_good ''checkpoint'' ?pl" by (simp add: op_good_def)
  note i = eng_append_ok[OF X ok V' g prov_ok_none a]
  have cr: "created" using a by (auto simp: eng_append_def log_append_def Let_def split: if_splits sum.splits)
  note r = i(8)[OF cr]
  have k: "kept e e2" "e_open e2 = e_open e"
    using kept_append[of e X "v_ts V 0" "v_rand V 0" "''__snapshot__''" ?n "''checkpoint''" ?pl None no_prov] a
    by (auto simp: eng_append_def Let_def eng_flush_def split: sum.splits if_splits)
  have c': "causes_of r = []" using r by (simp add: causes_of_def no_prov_def)
  have "eng_fold True r e2 = (Inr (), e2)"
    using r c' by (simp add: eng_fold_def apply_op_def apply_effect_def note_causes_def)
  from fold_after_append[OF ok i(1-6) _ _ this] r have "engine_ok X e2" by simp
  then have "engine_ok X (e2\<lparr> e_disk := (e_disk e2)\<lparr> d_snap := Some ?enc \<rparr> \<rparr>)"
    by (simp add: engine_ok_def disk_ok_def eng_seq_def)
  then have "engine_ok X e1" unfolding e1(2) by (rule flush_ok)
  moreover have "e_log e1 = e_log e2" "e_mat e1 = e_mat e2" "e_blobs e1 = e_blobs e2" "e_dek e1 = e_dek e2"
    "e_open e1 = e_open e2" "d_snap (e_disk e1) = Some ?enc"
    unfolding e1(2) by (simp_all add: eng_flush_def)
  moreover have "e_open e1 \<longrightarrow> e_buf e1 = []" unfolding e1(2) by (simp add: eng_flush_def)
  moreover have "snap_doc (o_seq r) ?h e1 sd bd = snap_doc (o_seq r) ?h e2 sd bd"
    using calculation by (simp add: snap_doc_def)
  moreover have "store_of e2 = store_of e" using i(4) by (simp add: store_of_def)
  ultimately show thesis
    using that[of r sd bd n] r i(4,5) k sd bd e1(1) p c' by (simp add: eng_seq_def kept_def)
qed

lemma snapshot_decode_encode:
  assumes X: "ext_ok X" and n: "length nonce = NONCE_LEN"
  shows "snapshot_decode X (snapshot_encode X nonce raw dek) dek = raw"
proof (cases dek)
  case (Some k)
  let ?e = "envelope (encrypt_bytes X nonce raw k AAD_DATA)"
  have "loads (dumps X '','' '':'' ?e) = Inr ?e"
    by (rule loads_dumps) (use X in \<open>simp_all add: ext_ok_def seps_def envelope_def\<close>)
  with Some decrypt_encrypt[OF _ n] X show ?thesis
    by (simp add: snapshot_decode_def snapshot_encode_def envelope_def doc_get_def dget_def ext_ok_def del: dumps.simps)
qed (simp add: snapshot_decode_def snapshot_encode_def)

lemma load_snapshot_text:
  assumes X: "ext_ok X" and n: "length nonce = NONCE_LEN" and d: "pv_ok (PDict d)" "map_of d ''version'' = Some (PInt 1)"
    and s: "d_snap (e_disk e) = Some (snapshot_encode X nonce (utf8_encode (dumps X '','' '':'' (PDict d))) (e_dek e))"
  shows "load_snapshot X e = restore X d e"
proof -
  have "loads (dumps X '','' '':'' (PDict d)) = Inr (PDict d)"
    by (rule loads_dumps) (use X d(1) in \<open>simp_all add: ext_ok_def seps_def\<close>)
  then show ?thesis
    unfolding load_snapshot_def s using d(2)
    by (simp add: snapshot_decode_encode[OF X n] get_or_def dget_def del: dumps.simps)
qed

section \<open>What is written is JSON\<close>

definition entry :: "int \<times> doc option \<Rightarrow> pyval" where
  "entry p = (case p of (q, x) \<Rightarrow>
     PDict [(''v'', case x of None \<Rightarrow> PNone | Some d \<Rightarrow> PDict d), (''seq'', PInt q), (''deleted'', PBool (x = None))])"

lemma snap_store_map:
  assumes "mv_wf s"
  shows "snap_store s = Inr (map (\<lambda>(k, ch). (k, entry (last ch))) (mv_v s))"
proof -
  have "bindE (snap_version ch) (\<lambda>v. Inr (k, v)) = Inr (k, entry (last ch))" if "(k, ch) \<in> set (mv_v s)" for k ch
    using assms that map_of_is_SomeI[of "mv_v s" k ch]
    by (auto simp: mv_wf_def snap_version_def py_index_last entry_def split: prod.split)
  then show ?thesis unfolding snap_store_def by (intro mapE_total) auto
qed

lemma foldl_dset:
  "distinct (map fst acc @ map g xs) \<Longrightarrow> foldl (\<lambda>d x. dset (g x) (h x) d) acc xs = acc @ map (\<lambda>x. (g x, h x)) xs"
proof (induction xs arbitrary: acc)
  case (Cons x xs)
  have "g x \<notin> fst ` set acc" using Cons.prems by auto
  then have "dset (g x) (h x) acc = acc @ [(g x, h x)]"
    by (induction acc) auto
  with Cons show ?case by simp
qed simp

text \<open>No node an edge starts at has a bar in its name.\<close>

definition plain_names :: "rels \<Rightarrow> bool" where
  "plain_names r \<longleftrightarrow> (\<forall>k\<in>set (map fst (r_adj r)). CHR ''|'' \<notin> set (fst k))"

definition edge_entry :: "(string \<times> string) \<times> edge list \<Rightarrow> string \<times> pyval" where
  "edge_entry x = (case x of ((f, l), es) \<Rightarrow> (f @ ''|'' @ l, PList (map snap_edge es)))"

lemma snap_rels_map:
  assumes "plain_names r" "distinct (map fst (r_adj r))"
  shows "snap_rels r = map edge_entry (r_adj r)" "distinct (map fst (map edge_entry (r_adj r)))"
proof -
  have i: "inj_on (\<lambda>x. fst (edge_entry x)) (set (r_adj r))"
  proof (rule inj_onI)
    fix x y assume a: "x \<in> set (r_adj r)" "y \<in> set (r_adj r)" "fst (edge_entry x) = fst (edge_entry y)"
    obtain f l es g m es' where xy: "x = ((f, l), es)" "y = ((g, m), es')" by (metis surj_pair)
    have "CHR ''|'' \<notin> set f" "CHR ''|'' \<notin> set g" using assms(1) a(1,2) xy by (force simp: plain_names_def)+
    with a(3) xy have "fst x = fst y" by (simp add: edge_entry_def append_sep_inj)
    with a(1,2) assms(2) show "x = y" by (metis eq_key_imp_eq_value prod.collapse)
  qed
  moreover have "distinct (r_adj r)" using assms(2) by (simp add: distinct_map)
  ultimately show d: "distinct (map fst (map edge_entry (r_adj r)))" by (simp add: distinct_map comp_def)
  have "snap_rels r = foldl (\<lambda>d x. dset (fst (edge_entry x)) (snd (edge_entry x)) d) [] (r_adj r)"
    by (simp add: snap_rels_def edge_entry_def case_prod_unfold)
  with foldl_dset[of "[]" "\<lambda>x. fst (edge_entry x)" "r_adj r" "\<lambda>x. snd (edge_entry x)"] d
  show "snap_rels r = map edge_entry (r_adj r)" by (simp add: comp_def)
qed

lemma rels_distinct: "distinct (map fst (r_adj r)) \<Longrightarrow> distinct (map fst (r_adj (fold rel_apply es r)))"
proof (induction es arbitrary: r)
  case (Cons e es)
  have "distinct (map fst (close_in k n q d))" if "distinct (map fst d)" for k n q and d :: "(string \<times> string, edge list) dict"
    using that by (auto simp: close_in_def split: option.split)
  with Cons.prems have "distinct (map fst (r_adj (rel_apply e r)))"
    by (cases e) (auto simp: rel_link_def rel_unlink_def)
  from Cons.IH[OF this] show ?case by simp
qed simp

lemma tables_distinct:
  "distinct (map fst (l_last l)) \<Longrightarrow> distinct (map fst (l_idem l)) \<Longrightarrow>
   distinct (map fst (l_last (fold load_step ops l))) \<and> distinct (map fst (l_idem (fold load_step ops l)))"
  by (induction ops arbitrary: l) (auto simp: load_step_def split: option.split)

lemma log_tables: "log_ok X l \<Longrightarrow> distinct (map fst (l_last l)) \<and> distinct (map fst (l_idem l))"
  using tables_distinct[of "\<lparr> l_ops = l_ops l, l_last = [], l_idem = [], l_head = GENESIS \<rparr>" "l_ops l"]
  unfolding log_ok_def log_load_def by (metis (no_types, lifting) oplog.select_convs(2,3) oplog.surjective oplog.update_convs(4) distinct.simps(1) list.simps(8))

section \<open>Files\<close>

definition rnd_ok :: "(nat \<Rightarrow> string) \<Rightarrow> bool" where
  "rnd_ok rnd \<longleftrightarrow> (\<forall>i. length (rnd i) = NONCE_LEN)"

lemma chunks_restored:
  assumes "ext_ok X" "rnd_ok rnd"
  shows "snap_chunks X rnd dek i cs = (d, j) \<Longrightarrow> map fst d = map fst cs \<and> (\<forall>p\<in>set d. pv_ok (snd p)) \<and>
    mapE (\<lambda>(h, enc). bindE (as_str enc) (\<lambda>s. bindE (b64_decode s) (\<lambda>b.
       bindE (chunk_decode X b dek) (\<lambda>c. Inr (h, c))))) d = Inr cs"
proof (induction cs arbitrary: i d)
  case (Cons c cs)
  obtain h data where c: "c = (h, data)" by (cases c)
  obtain d' where d': "snap_chunks X rnd dek (Suc i) cs = (d', j)"
    "d = (h, PStr (b64_encode (chunk_encode X (rnd i) data dek))) # d'"
    using Cons.prems c by (auto split: prod.splits)
  have "chunk_decode X (chunk_encode X (rnd i) data dek) dek = Inr data"
    using decrypt_encrypt[of X "rnd i"] assms
    by (cases dek) (simp_all add: chunk_decode_def chunk_encode_def ext_ok_def rnd_ok_def)
  with Cons.IH[OF d'(1)] d'(2) c show ?case by simp
qed simp

definition tier_entry :: "doc \<Rightarrow> blobs \<Rightarrow> pyval" where
  "tier_entry cd b = PDict [(''chunks'', PDict cd), (''files'', snap_files (b_files b)),
     (''logical_bytes'', PInt (int (b_logical b))), (''dedup_hits'', PInt (int (b_dedup b)))]"

lemma files_restored:
  "bindE (as_dict (snap_files fs)) (mapE load_file) = Inr fs"
  "distinct (map fst fs) \<Longrightarrow> pv_ok (snap_files fs)"
proof -
  have s: "mapE as_str (map PStr xs) = Inr xs" for xs
    by (induction xs) simp_all
  have v: "mapE (\<lambda>r. bindE (as_list r) (mapE as_str)) (map (\<lambda>r. PList (map PStr r)) vs) = Inr vs" for vs
    by (induction vs) (simp_all add: s)
  have "load_file (n, PDict [(''versions'', PList (map (\<lambda>r. PList (map PStr r)) (f_versions f))),
      (''roots'', PList (map PStr (f_roots f)))]) = Inr (n, f)" for n f
    by (simp add: load_file_def need_def s v)
  then show "bindE (as_dict (snap_files fs)) (mapE load_file) = Inr fs"
    by (induction fs) (auto simp: snap_files_def)
  show "distinct (map fst fs) \<Longrightarrow> pv_ok (snap_files fs)"
    by (auto simp: snap_files_def comp_def case_prod_unfold)
qed

lemma tier_restored:
  assumes "ext_ok X" "rnd_ok rnd" "snap_chunks X rnd dek i (b_chunks b) = (cd, j)" "dget bs t (blob_init t) = blob_init t"
    "b_tier b = t"
  shows "load_blob X dek (t, tier_entry cd b) bs = Inr (dset t b bs)"
  using chunks_restored[OF assms(1-3)] files_restored(1)[of "b_files b"] assms(4,5)
  by (cases b) (auto simp: load_blob_def tier_entry_def get_or_def dget_def bindE_eq_Inr Let_def blob_init_def)

lemma blobs_restored:
  assumes X: "ext_ok X" "rnd_ok rnd" and t: "tiers_ok bs" and d: "\<forall>(t, b)\<in>set bs. distinct (map fst (b_chunks b))"
    and s: "snap_blobs X rnd dek 0 bs = (bd, n)"
  shows "foldE (load_blob X dek) bd [(''warm'', blob_init ''warm''), (''cold'', blob_init ''cold'')] = Inr bs"
    "pv_ok (PDict bd)"
proof -
  from t obtain w c where bs: "bs = [(''warm'', w), (''cold'', c)]" "b_tier w = ''warm''" "b_tier c = ''cold''"
    "distinct (map fst (b_files w))" "distinct (map fst (b_files c))"
    by (auto simp: tiers_ok_def map_eq_Cons_conv)
  obtain wd i cd j where wc: "snap_chunks X rnd dek 0 (b_chunks w) = (wd, i)" "snap_chunks X rnd dek i (b_chunks c) = (cd, j)"
    by (metis surj_pair)
  with s bs have bd: "bd = [(''warm'', tier_entry wd w), (''cold'', tier_entry cd c)]"
    by (auto simp: tier_entry_def)
  show "foldE (load_blob X dek) bd [(''warm'', blob_init ''warm''), (''cold'', blob_init ''cold'')] = Inr bs"
    using tier_restored[OF X wc(1) _ bs(2), of "[(''warm'', blob_init ''warm''), (''cold'', blob_init ''cold'')]"]
      tier_restored[OF X wc(2) _ bs(3), of "[(''warm'', w), (''cold'', blob_init ''cold'')]"]
    by (simp add: bd bs(1) dget_def)
  show "pv_ok (PDict bd)"
    using chunks_restored[OF X wc(1)] chunks_restored[OF X wc(2)] files_restored(2)[of "b_files w"] files_restored(2)[of "b_files c"]
      bs d by (simp add: bd tier_entry_def)
qed

section \<open>Documents\<close>

definition with_key :: "string \<Rightarrow> int \<Rightarrow> doc option \<Rightarrow> mat \<Rightarrow> mat" where
  "with_key k q x m =
     m\<lparr> m_store := \<lparr> mv_v = dset k [(q, x)] (mv_v (m_store m)), mv_seqs = dset k [q] (mv_seqs (m_store m)) \<rparr> \<rparr>"

lemma coll_of_doc_key: "good_coll c \<Longrightarrow> coll_of_key (doc_key c i) = c"
  by (auto simp: coll_of_key_def doc_key_def good_coll_def takeWhile_append)

lemma load_entry_key:
  assumes "good_coll c"
  shows "load_entry (doc_key c i, entry (q, x)) m =
    (case x of None \<Rightarrow> Inr (with_key (doc_key c i) q None m)
     | Some d \<Rightarrow> act_res (on_ix (ix_add c (doc_key c i) d) (with_key (doc_key c i) q (Some d) m)))"
  by (cases x) (simp_all add: load_entry_def entry_def doc_get_def need_def dget_def with_key_def coll_of_doc_key[OF assms])

lemma with_key_ok:
  assumes ok: "mat_ok n m" and k: "map_of (mv_v (m_store m)) k = None" and q: "q \<le> n"
  shows "mv_wf (m_store (with_key k q x m))" "mv_upto (m_store (with_key k q x m)) n"
    "head_view (with_key k q x m) = (head_view m)(k := x)"
    "m_ix (with_key k q x m) = m_ix m" "m_rels (with_key k q x m) = m_rels m"
    "m_causes (with_key k q x m) = m_causes m"
    "mv_v (m_store (with_key k q x m)) = mv_v (m_store m) @ [(k, [(q, x)])]"
proof -
  show "m_ix (with_key k q x m) = m_ix m" "m_rels (with_key k q x m) = m_rels m"
    "m_causes (with_key k q x m) = m_causes m"
    by (simp_all add: with_key_def)
  have f: "k \<notin> fst ` set d \<Longrightarrow> dset k v d = d @ [(k, v)]" for v and d :: "(string, (int \<times> doc option) list) dict"
    by (induction d) auto
  have "k \<notin> fst ` set (mv_v (m_store m))" using k by (simp add: map_of_eq_None_iff)
  from f[OF this] show v: "mv_v (m_store (with_key k q x m)) = mv_v (m_store m) @ [(k, [(q, x)])]"
    by (simp add: with_key_def)
  have w: "mv_wf (m_store m)" "mv_upto (m_store m) n" using ok by (simp_all add: mat_ok_def)
  show "mv_wf (m_store (with_key k q x m))"
    using w(1) by (auto simp: mv_wf_def with_key_def)
  show "mv_upto (m_store (with_key k q x m)) n"
    using w(2) q by (auto simp: mv_upto_def with_key_def)
  show "head_view (with_key k q x m) = (head_view m)(k := x)"
    by (auto simp: head_view_def history_def dget_def visible_def with_key_def)
qed

lemma load_entry_ok:
  assumes ok: "mat_ok n m" and k: "map_of (mv_v (m_store m)) k = None" and q: "q \<le> n"
    and c: "good_coll c" "k = doc_key c i" and l: "load_entry (k, entry (q, x)) m = Inr m'"
  shows "mat_ok n m'" "mv_v (m_store m') = mv_v (m_store m) @ [(k, [(q, x)])]" "m_rels m' = m_rels m"
    "m_causes m' = m_causes m"
proof -
  note w = with_key_ok[OF ok k q, of x]
  note ok' = ok[unfolded mat_ok_def]
  have hk: "head_view m k = None" using k by (simp add: head_view_def history_def dget_def)
  have "mat_ok n m' \<and> m_store m' = m_store (with_key k q x m) \<and> m_rels m' = m_rels m \<and> m_causes m' = m_causes m"
  proof (cases x)
    case None
    with l c have m': "m' = with_key k q None m" by (simp add: load_entry_key)
    have "(head_view m)(k := None) = head_view m" using hk by auto
    with w ok' None m' show ?thesis by (simp add: mat_ok_def)
  next
    case (Some d)
    with l c have a: "on_ix (ix_add c k d) (with_key k q x m) = (None, m')"
      by (auto simp: load_entry_key act_res_def split: prod.splits option.splits)
    then have ad: "ix_add c (doc_key c i) d (m_ix m) = (None, m_ix m')"
      using w(4) by (auto simp: on_ix_def c(2) split: prod.splits)
    have fr: "m_store m' = m_store (with_key k q x m)" "m_rels m' = m_rels m" "m_causes m' = m_causes m"
      using on_ix_frame[OF a] w by simp_all
    have "head_view m' = head_view (with_key k q x m)" by (simp add: head_view_def fun_eq_iff fr(1))
    then have v: "head_view m' = (head_view m)(k := Some d)" using w(3) Some by simp
    have e: "eq_exact (m_ix m) (\<lambda>_. head_view m)" "inv_exact (m_ix m) (\<lambda>_. head_view m)" using ok' by simp_all
    have "eq_exact (m_ix m') (\<lambda>_. head_view m')" "inv_exact (m_ix m') (\<lambda>_. head_view m')"
      using eq_exact_add[OF e(1) c(1) _ ad] inv_exact_add[OF e(2) c(1) _ ad] hk c(2) unfolding v by simp_all
    with fr w ok' ix_own_add[OF _ c(1) ad] ix_finite_add[OF _ ad] show ?thesis by (simp add: mat_ok_def)
  qed
  then show "mat_ok n m'" "mv_v (m_store m') = mv_v (m_store m) @ [(k, [(q, x)])]" "m_rels m' = m_rels m"
    "m_causes m' = m_causes m" using w(7) by simp_all
qed

definition latest :: "(string, (int \<times> doc option) list) dict \<Rightarrow> (string, (int \<times> doc option) list) dict" where
  "latest vs = map (\<lambda>(k, ch). (k, [last ch])) vs"

lemma load_entries:
  "mat_ok n m \<Longrightarrow> distinct (map fst (mv_v (m_store m)) @ map fst vs) \<Longrightarrow>
   \<forall>(k, ch)\<in>set vs. (\<exists>c i. good_coll c \<and> k = doc_key c i) \<and> fst (last ch) \<le> n \<Longrightarrow>
   foldE load_entry (map (\<lambda>(k, ch). (k, entry (last ch))) vs) m = Inr m' \<Longrightarrow>
   mat_ok n m' \<and> mv_v (m_store m') = mv_v (m_store m) @ latest vs \<and> m_rels m' = m_rels m \<and> m_causes m' = m_causes m"
proof (induction vs arbitrary: m)
  case (Cons kc vs)
  obtain k ch where kc: "kc = (k, ch)" by (cases kc)
  obtain q x where l: "last ch = (q, x)" by (cases "last ch")
  from Cons.prems(3) kc l obtain c i where c: "good_coll c" "k = doc_key c i" "q \<le> n" by auto
  from Cons.prems(4) kc l obtain m1 where m1: "load_entry (k, entry (q, x)) m = Inr m1"
    "foldE load_entry (map (\<lambda>(k, ch). (k, entry (last ch))) vs) m1 = Inr m'" by (auto simp: bindE_eq_Inr)
  have "map_of (mv_v (m_store m)) k = None"
    using Cons.prems(2) kc by (auto simp: map_of_eq_None_iff)
  note i = load_entry_ok[OF Cons.prems(1) this c(3,1,2) m1(1)]
  from Cons.IH[OF i(1) _ _ m1(2)] Cons.prems(2,3) i(2-4) kc l show ?case by (simp add: latest_def)
qed (simp add: latest_def)

lemma load_entries_return:
  assumes "m_ix m = ix_init" "\<forall>(k, ch)\<in>set vs. \<exists>c i. good_coll c \<and> k = doc_key c i"
  shows "\<exists>m'. foldE load_entry (map (\<lambda>(k, ch). (k, entry (last ch))) vs) m = Inr m' \<and> m_ix m' = ix_init"
  using assms
proof (induction vs arbitrary: m)
  case (Cons kc vs)
  obtain k ch q x where kc: "kc = (k, ch)" "last ch = (q, x)" by (metis surj_pair)
  from Cons.prems(2) kc obtain c i where c: "good_coll c" "k = doc_key c i" by auto
  have "\<exists>m1. load_entry (k, entry (q, x)) m = Inr m1 \<and> m_ix m1 = ix_init"
    using Cons.prems(1) c by (cases x) (auto simp: load_entry_key act_res_def on_ix_def with_key_def)
  with Cons kc show ?case by fastforce
qed simp

section \<open>Reading a shortened history\<close>

definition tail_of :: "int \<Rightarrow> doc mvcc \<Rightarrow> doc mvcc \<Rightarrow> bool" where
  \<comment> \<open>\<open>s'\<close> has of the versions up to \<open>n\<close> the newest only\<close>
  "tail_of n s s' \<longleftrightarrow> (\<forall>k. \<exists>old new. history s k = old @ new \<and> history s' k = drop (length old - 1) old @ new \<and>
     (\<forall>p\<in>set old. fst p \<le> n))"

lemma latest_lookup: "map_of vs k = Some ch \<Longrightarrow> map_of (latest vs) k = Some [last ch]"
  by (induction vs) (auto simp: latest_def split: if_splits)

lemma tail_latest:
  assumes "mv_wf s" "mv_upto s n" "mv_v s' = latest (mv_v s)"
  shows "tail_of n s s'"
  unfolding tail_of_def
proof
  fix k
  have "history s' k = drop (length (history s k) - 1) (history s k)"
  proof (cases "map_of (mv_v s) k")
    case None
    then have "map_of (latest (mv_v s)) k = None" by (force simp: latest_def map_of_eq_None_iff)
    with None assms(3) show ?thesis by (simp add: history_def dget_def)
  next
    case (Some ch)
    then have "ch \<noteq> []" using assms(1) by (simp add: mv_wf_def)
    then have "drop (length ch - 1) ch = [last ch]" by (cases ch rule: rev_cases) simp_all
    moreover have "map_of (latest (mv_v s)) k = Some [last ch]"
      using Some by (rule latest_lookup)
    ultimately show ?thesis using Some assms(3) by (simp add: history_def dget_def)
  qed
  with history_upto[OF assms(2)] show "\<exists>old new. history s k = old @ new \<and>
      history s' k = drop (length old - 1) old @ new \<and> (\<forall>p\<in>set old. fst p \<le> n)"
    by (intro exI[of _ "history s k"] exI[of _ "[]"]) auto
qed

lemma tail_write: "tail_of n s s' \<Longrightarrow> tail_of n (mv_write w s) (mv_write w s')"
  unfolding tail_of_def
proof
  fix k
  assume "\<forall>k. \<exists>old new. history s k = old @ new \<and> history s' k = drop (length old - 1) old @ new \<and>
     (\<forall>p\<in>set old. fst p \<le> n)"
  then obtain old new where h: "history s k = old @ new" "history s' k = drop (length old - 1) old @ new"
    "\<forall>p\<in>set old. fst p \<le> n" by blast
  have "\<exists>xs. history (mv_write w s) k = history s k @ xs \<and> history (mv_write w s') k = history s' k @ xs"
    by (cases w) auto
  then obtain xs where "history (mv_write w s) k = old @ (new @ xs)"
    "history (mv_write w s') k = drop (length old - 1) old @ (new @ xs)" using h by auto
  with h(3) show "\<exists>old new. history (mv_write w s) k = old @ new \<and>
      history (mv_write w s') k = drop (length old - 1) old @ new \<and> (\<forall>p\<in>set old. fst p \<le> n)" by blast
qed

lemma tail_writes: "tail_of n s s' \<Longrightarrow> tail_of n (fold mv_write ws s) (fold mv_write ws s')"
  by (induction ws arbitrary: s s') (auto intro: tail_write)

lemma tail_reads:
  assumes "tail_of n s s'" "t = None \<or> (\<exists>i. t = Some i \<and> n \<le> i)"
  shows "reads s' k t = reads s k t"
proof -
  from assms(1) obtain old new where h: "history s k = old @ new" "history s' k = drop (length old - 1) old @ new"
    "\<forall>p\<in>set old. fst p \<le> n" unfolding tail_of_def by blast
  have v: "visible (drop (length old - 1) old @ xs) = visible (old @ xs)" for xs
    by (cases old rule: rev_cases) (auto simp: visible_def)
  show ?thesis
  proof (cases t)
    case None
    with h v show ?thesis by (simp add: reads_def)
  next
    case (Some i)
    with assms(2) h(3) have "filter (\<lambda>e. fst e \<le> i) old = old" by (auto simp: filter_id_conv)
    moreover from Some assms(2) h(3) have "filter (\<lambda>e. fst e \<le> i) (drop (length old - 1) old) = drop (length old - 1) old"
      by (auto simp: filter_id_conv dest!: in_set_dropD)
    ultimately show ?thesis using Some h v by (simp add: reads_def)
  qed
qed

section \<open>Edges\<close>

definition add_edge :: "string \<Rightarrow> string \<Rightarrow> edge \<Rightarrow> rels \<Rightarrow> rels" where
  "add_edge f l e r = (case e of (t, a, x) \<Rightarrow>
     r\<lparr> r_adj := dappend (f, l) (t, a, x) (r_adj r), r_radj := dappend (t, l) (f, a, x) (r_radj r) \<rparr>)"

lemma load_edges: "foldE (load_edge f l) (map snap_edge es) r = Inr (fold (add_edge f l) es r)"
proof (induction es arbitrary: r)
  case (Cons e es)
  have "load_edge f l (snap_edge e) r = Inr (add_edge f l e r)"
    by (cases e; cases "snd (snd e)")
      (auto simp: load_edge_def snap_edge_def add_edge_def opt_int_def need_def optional_def doc_get_def dget_def)
  with Cons show ?case by simp
qed simp

definition add_edges :: "(string \<times> string) \<times> edge list \<Rightarrow> rels \<Rightarrow> rels" where
  "add_edges x = (case x of ((f, l), es) \<Rightarrow> fold (add_edge f l) es)"

lemma load_relations:
  "\<forall>x\<in>set xs. CHR ''|'' \<notin> set (fst (fst x)) \<Longrightarrow>
   foldE load_relation (map edge_entry xs) m = Inr (m\<lparr> m_rels := fold add_edges xs (m_rels m) \<rparr>)"
proof (induction xs arbitrary: m)
  case (Cons x xs)
  obtain f l es where x: "x = ((f, l), es)" by (metis surj_pair)
  have "CHR ''|'' \<notin> set f" using Cons.prems x by simp
  then have "dropWhile (\<lambda>c. c \<noteq> CHR ''|'') (f @ CHR ''|'' # l) = CHR ''|'' # l"
    "takeWhile (\<lambda>c. c \<noteq> CHR ''|'') (f @ CHR ''|'' # l) = f"
    by (auto simp: dropWhile_append takeWhile_append)
  then have "load_relation (edge_entry x) m = Inr (m\<lparr> m_rels := add_edges x (m_rels m) \<rparr>)"
    by (simp add: x load_relation_def edge_entry_def load_edges add_edges_def)
  with Cons show ?case by simp
qed simp

definition dual :: "rels \<Rightarrow> bool" where
  "dual r \<longleftrightarrow> (\<forall>f l t. spans (dget (r_radj r) (t, l) []) f = spans (dget (r_adj r) (f, l) []) t)"

lemma add_edge_dual: "dual r \<Longrightarrow> dual (add_edge f l e r)"
  by (cases e) (auto simp: dual_def add_edge_def spans_snoc)

lemma add_edges_dual: "dual r \<Longrightarrow> dual (add_edges x r)"
proof -
  have "dual r \<Longrightarrow> dual (fold (add_edge f l) es r)" for f l es
    by (induction es arbitrary: r) (auto intro: add_edge_dual)
  then show "dual r \<Longrightarrow> dual (add_edges x r)" by (cases x) (auto simp: add_edges_def)
qed

lemma add_edges_adj:
  "dget (r_adj (add_edges ((f, l), es) r)) k [] = (if k = (f, l) then dget (r_adj r) k [] @ es else dget (r_adj r) k [])"
proof -
  have "dget (r_adj (fold (add_edge f l) es r)) k [] =
      (if k = (f, l) then dget (r_adj r) k [] @ es else dget (r_adj r) k [])"
  proof (induction es arbitrary: r)
    case (Cons e es)
    have "dget (r_adj (add_edge f l e r)) k [] =
        (if k = (f, l) then dget (r_adj r) k [] @ [e] else dget (r_adj r) k [])"
      by (cases e) (simp add: add_edge_def)
    with Cons[of "add_edge f l e r"] show ?case by (cases "k = (f, l)") simp_all
  qed simp
  then show ?thesis by (simp add: add_edges_def)
qed

lemma restored_adj:
  "distinct (map fst xs) \<Longrightarrow> dget (r_adj (fold add_edges xs r)) k [] = dget (r_adj r) k [] @ dget xs k []"
proof (induction xs arbitrary: r)
  case (Cons x xs)
  obtain f l es where x: "x = ((f, l), es)" by (metis surj_pair)
  have "dget xs (f, l) [] = []" using Cons.prems x by (force simp: dget_def split: option.split dest!: map_of_SomeD)
  moreover have "dget (x # xs) k [] = (if k = (f, l) then es else dget xs k [])" using x by (simp add: dget_def)
  ultimately show ?case using Cons.IH[of "add_edges x r"] Cons.prems x by (auto simp: add_edges_adj)
qed simp

definition same_edges :: "rels \<Rightarrow> rels \<Rightarrow> bool" where
  "same_edges r r' \<longleftrightarrow> (\<forall>k. dget (r_adj r') k [] = dget (r_adj r) k []) \<and>
     (\<forall>t l f. spans (dget (r_radj r') (t, l) []) f = spans (dget (r_radj r) (t, l) []) f)"

lemma restored_edges:
  assumes "rel_wf r" "distinct (map fst (r_adj r))"
  shows "same_edges r (fold add_edges (r_adj r) rels_init)"
proof -
  let ?r = "fold add_edges (r_adj r) rels_init"
  have d: "dual ?r"
  proof -
    have "dual s \<Longrightarrow> dual (fold add_edges xs s)" for xs s
      by (induction xs arbitrary: s) (auto intro: add_edges_dual)
    then show ?thesis by (simp add: dual_def spans_def)
  qed
  have a: "dget (r_adj ?r) k [] = dget (r_adj r) k []" for k
    using restored_adj[OF assms(2), of rels_init k] by simp
  with d assms(1) show ?thesis by (auto simp: same_edges_def dual_def rel_wf_def)
qed

lemma same_edges_apply: "same_edges r r' \<Longrightarrow> same_edges (rel_apply e r) (rel_apply e r')"
  by (cases e) (auto simp: same_edges_def rel_link_def rel_unlink_def spans_snoc spans_close)

lemma same_edges_fold: "same_edges r r' \<Longrightarrow> same_edges (fold rel_apply es r) (fold rel_apply es r')"
  by (induction es arbitrary: r r') (auto intro: same_edges_apply)

lemma count_live: "count (mset (live es t)) x = length (filter (\<lambda>s. edge_live t (x, s)) (spans es x))"
  by (induction es) (auto simp: live_def spans_def)

lemma live_mset:
  assumes "\<And>x. spans es x = spans es' x"
  shows "mset (live es t) = mset (live es' t)"
  by (rule multiset_eqI) (simp add: count_live assms)

lemma same_edges_reads:
  assumes "same_edges r r'"
  shows "neighbors r' f l t = neighbors r f l t" "mset (inbound r' f l t) = mset (inbound r f l t)"
  using assms by (auto simp: same_edges_def neighbors_def inbound_def intro!: live_mset)

lemma same_edges_wf:
  assumes "same_edges r r'" "rel_wf r"
  shows "rel_wf r'"
proof -
  have "distinct (live (dget (r_radj r') (b, l) []) None)" for b l
    using same_edges_reads(2)[OF assms(1), of b l None] assms(2)
    unfolding inbound_def rel_wf_def by (metis mset_eq_imp_distinct_iff)
  with assms show ?thesis by (simp add: rel_wf_def same_edges_def)
qed

section \<open>Loading\<close>

lemma read_strict_lines:
  assumes X: "frepr_ok X"
  shows "\<forall>r\<in>set ops. op_ok r \<Longrightarrow> map (\<lambda>l. aof_decode X l dek) ls = map (op_line X) ops \<Longrightarrow>
    read_strict X dek ls = Inr ops"
proof (induction ops arbitrary: ls)
  case (Cons r ops)
  then obtain l ls' where l: "ls = l # ls'" "aof_decode X l dek = op_line X r"
    "map (\<lambda>l. aof_decode X l dek) ls' = map (op_line X) ops"
    by (cases ls) auto
  with Cons.IH[OF _ l(3)] Cons.prems(1) show ?case
    by (simp add: op_line_strip(2) parse_op_line[OF X])
qed simp

lemma int_table_ints: "int_table (PDict (map (\<lambda>(k, n). (k, PInt n)) d)) = Inr d"
proof -
  have "mapE (\<lambda>(k, n). bindE (as_int n) (\<lambda>i. Inr (k, i))) (map (\<lambda>(k, n). (k, PInt n)) d) = Inr d"
    by (induction d) auto
  then show ?thesis by (simp add: int_table_def)
qed

lemma index_triples: "mapE index_triple (map (\<lambda>(c, f, k). PList [PStr c, PStr f, PStr k]) cfg) = Inr cfg"
  by (induction cfg) auto

definition snap_fields :: "int \<Rightarrow> string \<Rightarrow> engine \<Rightarrow> doc \<Rightarrow> doc \<Rightarrow> doc" where
  "snap_fields sq head e sd bd =
      [(''version'', PInt 1), (''seq'', PInt sq), (''head'', PStr head),
       (''checkpoint_seq'', PInt sq), (''store'', PDict sd),
       (''relations'', PDict (map edge_entry (r_adj (m_rels (e_mat e))))),
       (''index_config'', PList (map (\<lambda>(c, f, k). PList [PStr c, PStr f, PStr k])
          (ix_config (m_ix (e_mat e))))),
       (''nonces'', PDict (map (\<lambda>(c, n). (c, PInt n)) (l_last (e_log e)))),
       (''idem'', PDict (map (\<lambda>(k, n). (k, PInt n)) (l_idem (e_log e)))),
       (''blobs'', PDict bd)]"

text \<open>The engine a snapshot is taken of.\<close>

definition snappable :: "ext \<Rightarrow> engine \<Rightarrow> bool" where
  "snappable X e \<longleftrightarrow> engine_ok X e \<and> plain_names (m_rels (e_mat e)) \<and> tiers_ok (e_blobs e)"

lemma engine_rels:
  assumes "engine_ok X e"
  shows "rel_wf (m_rels (e_mat e))" "distinct (map fst (r_adj (m_rels (e_mat e))))"
proof -
  show "rel_wf (m_rels (e_mat e))" using assms by (simp add: engine_ok_def mat_ok_def)
  have "m_rels (e_mat e) = fold rel_apply (rel_events (l_ops (e_log e))) rels_init"
    using assms by (simp add: engine_ok_def data_ok_def)
  then show "distinct (map fst (r_adj (m_rels (e_mat e))))"
    using rels_distinct[of rels_init "rel_events (l_ops (e_log e))"] by (simp add: rels_init_def)
qed

lemma stored_chains:
  assumes ok: "engine_ok X e"
  shows "mv_wf (store_of e)" "mv_upto (store_of e) (eng_seq e)" "distinct (map fst (mv_v (store_of e)))"
    "\<forall>(k, ch)\<in>set (mv_v (store_of e)). (\<exists>c i. good_coll c \<and> k = doc_key c i) \<and> fst (last ch) \<le> eng_seq e \<and>
       pv_ok (entry (last ch))"
proof -
  show w: "mv_wf (store_of e)" "mv_upto (store_of e) (eng_seq e)" "distinct (map fst (mv_v (store_of e)))"
    using ok by (simp_all add: engine_ok_def mat_ok_def store_of_def mv_wf_def)
  have "(\<exists>c i. good_coll c \<and> k = doc_key c i) \<and> fst (last ch) \<le> eng_seq e \<and> pv_ok (entry (last ch))"
    if "(k, ch) \<in> set (mv_v (store_of e))" for k ch
  proof -
    have m: "map_of (mv_v (store_of e)) k = Some ch" using that w(3) by simp
    then have n: "ch \<noteq> []" and h: "history (store_of e) k = ch" using w(1) by (auto simp: mv_wf_def history_def dget_def)
    obtain q x where l: "last ch = (q, x)" by (cases "last ch")
    have i: "(q, x) \<in> set (history (store_of e) k)" using n h l by (metis last_in_set)
    from stored_doc[OF ok i] history_upto[OF w(2) i] l show ?thesis
      by (cases x) (simp_all add: entry_def)
  qed
  then show "\<forall>(k, ch)\<in>set (mv_v (store_of e)). (\<exists>c i. good_coll c \<and> k = doc_key c i) \<and> fst (last ch) \<le> eng_seq e \<and>
       pv_ok (entry (last ch))" by blast
qed

lemma snap_fields_ok:
  assumes s: "snappable X e" and b: "pv_ok (PDict bd)"
    and sd: "sd = map (\<lambda>(k, ch). (k, entry (last ch))) (mv_v (store_of e))"
  shows "snap_doc q h e sd bd = PDict (snap_fields q h e sd bd)" "pv_ok (PDict (snap_fields q h e sd bd))"
proof -
  have ok: "engine_ok X e" and p: "plain_names (m_rels (e_mat e))" using s by (simp_all add: snappable_def)
  note r = snap_rels_map[OF p engine_rels(2)[OF ok]]
  show "snap_doc q h e sd bd = PDict (snap_fields q h e sd bd)"
    by (simp add: snap_doc_def snap_fields_def r(1))
  have "pv_ok (PDict sd)"
    using stored_chains(3,4)[OF ok] by (auto simp: sd comp_def case_prod_unfold)
  moreover have "pv_ok (PDict (map edge_entry (r_adj (m_rels (e_mat e)))))"
    using r(2) by (auto simp: edge_entry_def snap_edge_def opt_int_def split: option.split)
  moreover have "pv_ok (PDict (map (\<lambda>(c, n). (c, PInt n)) d))" if "distinct (map fst d)" for d :: "(string, int) dict"
    using that by (auto simp: comp_def case_prod_unfold)
  moreover have "distinct (map fst (l_last (e_log e))) \<and> distinct (map fst (l_idem (e_log e)))"
    using ok by (intro log_tables[of X]) (simp add: engine_ok_def)
  ultimately show "pv_ok (PDict (snap_fields q h e sd bd))"
    using b by (simp add: snap_fields_def del: pv_ok.simps(3)) auto
qed

definition restored_mat :: "engine \<Rightarrow> mat \<Rightarrow> bool" where
  "restored_mat e m \<longleftrightarrow> mat_ok (eng_seq e) m \<and> mv_v (m_store m) = latest (mv_v (store_of e)) \<and>
     same_edges (m_rels (e_mat e)) (m_rels m) \<and> m_causes m = []"

lemma restore_fields:
  fixes q :: int and h :: string and disk :: disk
  assumes X: "ext_ok X" "rnd_ok rnd" and s: "snappable X e" and dek: "dek = e_dek e"
    and sd: "sd = map (\<lambda>(k, ch). (k, entry (last ch))) (mv_v (store_of e))"
    and bd: "snap_blobs X rnd dek 0 (e_blobs e) = (bd, n)"
  defines "d \<equiv> snap_fields q h e sd bd" and "e0 \<equiv> engine_new True dek disk"
  shows "restore X d e0 = Inr (so, e') \<Longrightarrow>
      \<exists>m last idm. so = Some q \<and> restored_mat e m \<and> e' = e0\<lparr> e_mat := m, e_blobs := e_blobs e, e_nonce := last,
        e_log := (e_log e0)\<lparr> l_last := last, l_idem := idm \<rparr> \<rparr>"
    and "ix_config (m_ix (e_mat e)) = [] \<Longrightarrow> \<exists>so e'. restore X d e0 = Inr (so, e') \<and> m_ix (e_mat e') = ix_init"
proof -
  have ok: "engine_ok X e" and p: "plain_names (m_rels (e_mat e))" and t: "tiers_ok (e_blobs e)"
    using s by (simp_all add: snappable_def)
  note st = stored_chains[OF ok] and rl = engine_rels[OF ok]
  let ?cfg = "ix_config (m_ix (e_mat e))" and ?vs = "mv_v (store_of e)" and ?adj = "r_adj (m_rels (e_mat e))"
  have "\<forall>(t, b)\<in>set (e_blobs e). distinct (map fst (b_chunks b))"
  proof -
    have "distinct (map fst (e_blobs e))" using t by (auto simp: tiers_ok_def)
    then show ?thesis using ok by (auto simp: engine_ok_def blobs_ok_def)
  qed
  note b = blobs_restored(1)[OF X t this bd]
  have e0: "e_mat e0 = mat_init" "e_dek e0 = dek"
    "e_blobs e0 = [(''warm'', blob_init ''warm''), (''cold'', blob_init ''cold'')]"
    by (simp_all add: e0_def)
  have f: "get_or d ''index_config'' (PList []) = PList (map (\<lambda>(c, f, k). PList [PStr c, PStr f, PStr k]) ?cfg)"
    "get_or d ''store'' (PDict []) = PDict sd"
    "get_or d ''relations'' (PDict []) = PDict (map edge_entry ?adj)"
    "get_or d ''nonces'' (PDict []) = PDict (map (\<lambda>(c, n). (c, PInt n)) (l_last (e_log e)))"
    "get_or d ''idem'' (PDict []) = PDict (map (\<lambda>(k, n). (k, PInt n)) (l_idem (e_log e)))"
    "get_or d ''blobs'' (PDict []) = PDict bd" "need d ''checkpoint_seq'' = Inr (PInt q)"
    by (simp_all add: d_def snap_fields_def get_or_def dget_def need_def)
  have bars: "\<forall>x\<in>set ?adj. CHR ''|'' \<notin> set (fst (fst x))" using p by (auto simp: plain_names_def)
  let ?rest = "\<lambda>m2. Inr (Some q,
      e0\<lparr> e_mat := m2\<lparr> m_rels := fold add_edges ?adj (m_rels m2) \<rparr>, e_blobs := e_blobs e,
          e_nonce := update_all (l_last (e_log e)) (l_last (e_log e0)),
          e_log := (e_log e0)\<lparr> l_last := update_all (l_last (e_log e)) (l_last (e_log e0)),
             l_idem := update_all (l_idem (e_log e)) (l_idem (e_log e0)) \<rparr> \<rparr>)"
  have r: "restore X d e0 =
    bindE (act_res (on_ix (ensure_all ?cfg) mat_init)) (\<lambda>m1. bindE (foldE load_entry sd m1) ?rest)"
    unfolding restore_def f e0
    by (simp add: index_triples load_relations[OF bars] int_table_ints b Let_def)
  show "\<exists>m last idm. so = Some q \<and> restored_mat e m \<and> e' = e0\<lparr> e_mat := m, e_blobs := e_blobs e, e_nonce := last,
        e_log := (e_log e0)\<lparr> l_last := last, l_idem := idm \<rparr> \<rparr>" if "restore X d e0 = Inr (so, e')"
  proof -
    from that r obtain m1 m2 where m1: "on_ix (ensure_all ?cfg) mat_init = (None, m1)"
      and m2: "foldE load_entry sd m1 = Inr m2" and e': "Inr (so, e') = ?rest m2"
      by (auto simp: bindE_eq_Inr act_res_def split: prod.splits option.splits)
    note c = ensure_mat_ok[OF m1]
    have "distinct (map fst (mv_v (m_store m1)) @ map fst ?vs)" using st(3) c(2) by (simp add: mv_init_def)
    moreover have "\<forall>(k, ch)\<in>set ?vs. (\<exists>c i. good_coll c \<and> k = doc_key c i) \<and> fst (last ch) \<le> eng_seq e"
      using st(4) by blast
    ultimately have l: "mat_ok (eng_seq e) m2 \<and> mv_v (m_store m2) = mv_v (m_store m1) @ latest ?vs \<and>
        m_rels m2 = m_rels m1 \<and> m_causes m2 = m_causes m1"
      by (rule load_entries[OF c(1) _ _ m2[unfolded sd]])
    let ?m = "m2\<lparr> m_rels := fold add_edges ?adj (m_rels m2) \<rparr>"
    have se: "same_edges (m_rels (e_mat e)) (m_rels ?m)" using l c(3) restored_edges[OF rl] by simp
    have "mat_ok (eng_seq e) ?m"
      by (rule mat_ok_store_only[of _ m2]) (use l same_edges_wf[OF se rl(1)] in simp_all)
    with se l c have "restored_mat e ?m" by (simp add: restored_mat_def mv_init_def)
    with e' show ?thesis by (intro exI[of _ ?m]) auto
  qed
  assume "?cfg = []"
  then have m1: "act_res (on_ix (ensure_all ?cfg) mat_init) = Inr mat_init"
    by (simp add: on_ix_def act_res_def mat_init_def)
  have "\<forall>(k, ch)\<in>set ?vs. \<exists>c i. good_coll c \<and> k = doc_key c i" using st(4) by blast
  from load_entries_return[OF _ this, of mat_init] obtain m2 where
    "foldE load_entry sd mat_init = Inr m2" "m_ix m2 = ix_init" by (auto simp: sd mat_init_def)
  then show "\<exists>so e'. restore X d e0 = Inr (so, e') \<and> m_ix (e_mat e') = ix_init"
    unfolding r m1 by simp
qed

section \<open>Checkpoint, work, reopen\<close>

lemma newer_ops:
  assumes l: "log_ok X l" and o: "l_ops l = as @ rs"
  shows "filter (\<lambda>r. int (length as) - 1 < o_seq r) (l_ops l) = rs"
proof -
  have m: "map o_seq (as @ rs) = map int [0..<length as + length rs]"
    using l o by (simp add: log_ok_def)
  then have "map o_seq as = map int [0..<length as]" "map o_seq rs = map int [length as..<length as + length rs]"
    by (simp_all add: upt_add_eq_append[of 0] append_eq_append_conv)
  then have "set (map o_seq as) = int ` {0..<length as}" "set (map o_seq rs) = int ` {length as..<length as + length rs}"
    by simp_all
  then have "\<forall>r\<in>set as. \<not> int (length as) - 1 < o_seq r" "\<forall>r\<in>set rs. int (length as) - 1 < o_seq r"
    by force+
  with o show ?thesis by (simp add: filter_id_conv)
qed

text \<open>The engine \<open>e'\<close> has what \<open>e2\<close> has, from the checkpoint at \<open>e1\<close> on.\<close>

definition caught_up :: "ext \<Rightarrow> engine \<Rightarrow> engine \<Rightarrow> engine \<Rightarrow> bool" where
  "caught_up X e1 e2 e' \<longleftrightarrow> e_log e' = e_log e2 \<and> mat_ok (eng_seq e2) (e_mat e') \<and>
     tail_of (eng_seq e1) (store_of e2) (store_of e') \<and> same_edges (m_rels (e_mat e2)) (m_rels (e_mat e')) \<and>
     e_blobs e' = e_blobs e1 \<and>
     m_causes (e_mat e') = fold note_causes (drop (length (l_ops (e_log e1))) (l_ops (e_log e2))) []"

lemma fold_restored:
  assumes ok1: "engine_ok X e1" and ok2: "engine_ok X e2" and o: "l_ops (e_log e2) = l_ops (e_log e1) @ rs"
    and m: "restored_mat e1 m" and f: "fold_ops True rs m = (None, m')"
  shows "mat_ok (eng_seq e2) m'" "tail_of (eng_seq e1) (store_of e2) (m_store m')"
    "same_edges (m_rels (e_mat e2)) (m_rels m')" "m_causes m' = fold note_causes rs []"
proof -
  note w = fold_ops_writes[OF f]
  have d: "store_of e = fold mv_write (writes (l_ops (e_log e))) mv_init"
    "m_rels (e_mat e) = fold rel_apply (rel_events (l_ops (e_log e))) rels_init" if "engine_ok X e" for e
    using that by (simp_all add: engine_ok_def data_ok_def store_of_def)
  have s: "store_of e2 = fold mv_write (writes rs) (store_of e1)"
    "m_rels (e_mat e2) = fold rel_apply (rel_events rs) (m_rels (e_mat e1))"
    unfolding d[OF ok1] d[OF ok2] o by (simp_all add: writes_def rel_events_def map_filter_def)
  have "tail_of (eng_seq e1) (store_of e1) (m_store m)"
    by (rule tail_latest) (use stored_chains(1,2)[OF ok1] m in \<open>simp_all add: restored_mat_def\<close>)
  then show "tail_of (eng_seq e1) (store_of e2) (m_store m')" unfolding s w by (rule tail_writes)
  show "same_edges (m_rels (e_mat e2)) (m_rels m')"
    unfolding s w by (rule same_edges_fold) (use m in \<open>simp add: restored_mat_def\<close>)
  show "m_causes m' = fold note_causes rs []" using w(3) m by (simp add: restored_mat_def)
  have l: "log_ok X (e_log e2)" "\<forall>r\<in>set (l_ops (e_log e2)). good_op r" using ok2 by (auto simp: engine_ok_def)
  have n: "\<forall>r\<in>set rs. eng_seq e1 < o_seq r"
    using arg_cong[OF newer_ops[OF l(1) o], of set] by (auto simp: eng_seq_def)
  show "mat_ok (eng_seq e2) m'"
    by (rule fold_ops_ok[OF _ _ _ _ _ _ f, of "eng_seq e1"])
      (use m l n log_seqs[OF l(1)] o in \<open>auto simp: restored_mat_def eng_seq_def sorted_append\<close>)
qed

lemma checkpoint_load:
  assumes X: "ext_ok X" and V: "env_ok V" and ok: "engine_ok X e" and t: "tiers_ok (e_blobs e)"
    and p: "plain_names (m_rels (e_mat e))" and c: "save_snapshot X V e = (Inr h, e1)"
    and run: "api_run X e1 e2" and op: "e_open e2" "e_buf e2 = []"
  defines "e0 \<equiv> engine_new True (e_dek e2) (e_disk e2)"
  shows "eng_load X V' e0 = (Inr (), e3) \<Longrightarrow> caught_up X e1 e2 e3"
    and "ix_config (m_ix (e_mat e)) = [] \<Longrightarrow> \<exists>e3. eng_load X V' e0 = (Inr (), e3)"
proof -
  from checkpoint_effect[OF X V ok c] obtain r sd bd n where
    ok1: "engine_ok X e1" and l1: "l_ops (e_log e1) = l_ops (e_log e) @ [r]" "o_seq r = eng_seq e1"
    and s1: "e_mat e1 = e_mat e" "e_blobs e1 = e_blobs e" "e_dek e1 = e_dek e"
    and sd: "snap_store (store_of e) = Inr sd"
    and bd: "snap_blobs X (\<lambda>i. v_rand V (Suc i)) (e_dek e) 0 (e_blobs e) = (bd, n)"
    and ds: "d_snap (e_disk e1) = Some (snapshot_encode X (v_rand V (Suc n))
       (utf8_encode (dumps X '','' '':'' (snap_doc (o_seq r) h e1 sd bd))) (e_dek e))" .
  have k: "kept e1 e2" by (rule run_kept[OF run])
  have ok2: "engine_ok X e2" by (rule run_ok[OF X run ok1])
  obtain rs where o: "l_ops (e_log e2) = l_ops (e_log e1) @ rs" using run_grows[OF run] by (auto simp: grows_def)
  have rnd: "rnd_ok (\<lambda>i. v_rand V (Suc i))" "length (v_rand V (Suc n)) = NONCE_LEN"
    using V by (simp_all add: rnd_ok_def env_ok_def)
  have sn: "snappable X e1" using ok1 p t s1 by (simp add: snappable_def)
  have sd': "sd = map (\<lambda>(k, ch). (k, entry (last ch))) (mv_v (store_of e1))"
    using sd snap_store_map[OF stored_chains(1)[OF ok1]] s1(1) by (simp add: store_of_def)
  have bd': "snap_blobs X (\<lambda>i. v_rand V (Suc i)) (e_dek e2) 0 (e_blobs e1) = (bd, n)" "e_dek e2 = e_dek e1"
    using bd s1 k by (simp_all add: kept_def)
  have "\<forall>(t, b)\<in>set (e_blobs e1). distinct (map fst (b_chunks b))"
  proof -
    have "distinct (map fst (e_blobs e1))" using t s1(2) by (auto simp: tiers_ok_def)
    then show ?thesis using ok1 by (auto simp: engine_ok_def blobs_ok_def)
  qed
  note pb = blobs_restored(2)[OF X rnd(1) _ this bd'(1)]
  have "pv_ok (PDict bd)" by (rule pb) (use t s1(2) in simp)
  note f = snap_fields_ok[OF sn this sd', of "o_seq r" h]
  let ?d = "snap_fields (o_seq r) h e1 sd bd"
  have ls: "load_snapshot X e0 = restore X ?d e0"
  proof (rule load_snapshot_text[OF X rnd(2) f(2)])
    show "map_of ?d ''version'' = Some (PInt 1)" by (simp add: snap_fields_def)
    show "d_snap (e_disk e0) = Some (snapshot_encode X (v_rand V (Suc n)) (utf8_encode (dumps X '','' '':'' (PDict ?d))) (e_dek e0))"
      using ds k s1(3) f(1) by (simp add: e0_def kept_def)
  qed
  note re = restore_fields[OF X rnd(1) sn bd'(2) sd' bd'(1), of "o_seq r" h "e_disk e2", folded e0_def]
  obtain lines where ln: "d_aof (e_disk e2) = Some lines"
    "map (\<lambda>x. aof_decode X x (e_dek e2)) lines = map (op_line X) (l_ops (e_log e2))"
    using disk_ok_holds[OF ok2 op] by (auto simp: disk_holds_def)
  have rd: "read_strict X (e_dek e2) lines = Inr (l_ops (e_log e2))"
    by (rule read_strict_lines[OF _ _ ln(2)]) (use X ok2 in \<open>auto simp: ext_ok_def engine_ok_def\<close>)
  have lo: "log_ok X (e_log e2)" using ok2 by (simp add: engine_ok_def)
  then have ll: "log_load (l_ops (e_log e2)) = e_log e2" by (simp add: log_ok_def)
  have q: "o_seq r = int (length (l_ops (e_log e1))) - 1" "0 \<le> o_seq r"
    using l1 by (simp_all add: eng_seq_def)
  have ld: "load_delta X (o_seq r) e' = bindC (fold_into rs (e'\<lparr> e_log := e_log e2 \<rparr>))
      (\<lambda>_ e1. (Inr (), e1\<lparr> e_nonce := l_last (e_log e1) \<rparr>))"
    if "e_disk e' = e_disk e2" "e_dek e' = e_dek e2" for e'
    using that newer_ops[OF lo o] rd by (simp add: load_delta_def aof_lines_def ln(1) ll q(1))
  show "caught_up X e1 e2 e3" if "eng_load X V' e0 = (Inr (), e3)"
  proof -
    from that ls obtain so e' where r': "restore X ?d e0 = Inr (so, e')" by (auto simp: eng_load_def split: sum.splits)
    from re(1)[OF r'] obtain m last idm where so: "so = Some (o_seq r)" and m: "restored_mat e1 m"
      and e': "e' = e0\<lparr> e_mat := m, e_blobs := e_blobs e1, e_nonce := last,
        e_log := (e_log e0)\<lparr> l_last := last, l_idem := idm \<rparr> \<rparr>" by blast
    have "load_delta X (o_seq r) e' = (Inr (), e3)"
      using that ls r' so q(2) by (simp add: eng_load_def)
    moreover have "e_disk e' = e_disk e2" "e_dek e' = e_dek e2" by (simp_all add: e' e0_def)
    ultimately obtain m' where g: "fold_ops True rs m = (None, m')"
      and e3: "e3 = e'\<lparr> e_log := e_log e2, e_mat := m', e_nonce := l_last (e_log e2) \<rparr>"
      by (auto simp: ld bindC_Inr fold_into_def on_mat_def e' split: prod.splits option.splits)
    from fold_restored[OF ok1 ok2 o m g] show ?thesis
      by (simp add: caught_up_def e3 e' store_of_def o)
  qed
  assume "ix_config (m_ix (e_mat e)) = []"
  with re(2) s1(1) obtain so e' where r': "restore X ?d e0 = Inr (so, e')" "m_ix (e_mat e') = ix_init" by auto
  from re(1)[OF r'(1)] obtain m last idm where so: "so = Some (o_seq r)"
    and e': "e' = e0\<lparr> e_mat := m, e_blobs := e_blobs e1, e_nonce := last,
        e_log := (e_log e0)\<lparr> l_last := last, l_idem := idm \<rparr> \<rparr>" by blast
  have "\<forall>r\<in>set rs. good_op r" using ok2 o by (auto simp: engine_ok_def)
  from fold_ops_total[OF this, of "e_mat e'" True] r'(2) obtain m' where "fold_ops True rs (e_mat e') = (None, m')"
    by blast
  moreover have "e_disk e' = e_disk e2" "e_dek e' = e_dek e2" by (simp_all add: e' e0_def)
  ultimately have "\<exists>e3. load_delta X (o_seq r) e' = (Inr (), e3)"
    by (simp add: ld fold_into_def on_mat_def)
  with ls r'(1) so q(2) show "\<exists>e3. eng_load X V' e0 = (Inr (), e3)" by (simp add: eng_load_def)
qed

lemma checkpoint_open:
  assumes X: "ext_ok X" and V: "env_ok V" and ok: "engine_ok X e" and t: "tiers_ok (e_blobs e)"
    and p: "plain_names (m_rels (e_mat e))" and c: "save_snapshot X V e = (Inr h, e1)"
    and run: "api_run X e1 e2" and op: "e_open e2" "e_buf e2 = []"
  defines "e0 \<equiv> engine_new True (e_dek e2) (e_disk e2)"
  shows "open_files X V' e0 = (Inr (), e') \<Longrightarrow> caught_up X e1 e2 e'"
    and "ix_config (m_ix (e_mat e)) = [] \<Longrightarrow> \<exists>e'. open_files X V' e0 = (Inr (), e')"
proof -
  note ld = checkpoint_load[OF X V ok t p c run op, folded e0_def]
  have ok1: "engine_ok X e1" by (rule checkpoint_effect[OF X V ok c])
  have ok2: "engine_ok X e2" by (rule run_ok[OF X run ok1])
  have a: "d_aof (e_disk e0) \<noteq> None" using disk_ok_holds[OF ok2 op] by (auto simp: disk_holds_def e0_def)
  show "caught_up X e1 e2 e'" if "open_files X V' e0 = (Inr (), e')"
  proof -
    from that a obtain e3 where e3: "eng_load X V' e0 = (Inr (), e3)"
      and e': "e' = (let e2 = self_heal X V'
               (if e_dek e3 \<noteq> None \<and> d_aof (e_disk e3) \<noteq> None then backfill_encrypt X V' e3 else e3)
             in e2\<lparr> e_open := True, e_disk := (e_disk e2)\<lparr> d_aof := Some (aof_lines (e_disk e2)) \<rparr> \<rparr>)"
      by (auto simp: open_files_def bindC_Inr Let_def)
    have cu: "caught_up X e1 e2 e3" by (rule ld(1)[OF e3])
    let ?e = "if e_dek e3 \<noteq> None \<and> d_aof (e_disk e3) \<noteq> None then backfill_encrypt X V' e3 else e3"
    have "log_verify X (e_log ?e)"
      using cu ok2 by (simp add: caught_up_def engine_ok_def log_ok_def)
    from self_heal_ok[OF this] have "e' = ?e\<lparr> e_open := True, e_disk := (e_disk ?e)\<lparr> d_aof := Some (aof_lines (e_disk ?e)) \<rparr> \<rparr>"
      unfolding e' Let_def by simp
    with cu show ?thesis by (auto simp: caught_up_def store_of_def)
  qed
  assume "ix_config (m_ix (e_mat e)) = []"
  from ld(2)[OF this] obtain e3 where "eng_load X V' e0 = (Inr (), e3)" by blast
  with a show "\<exists>e'. open_files X V' e0 = (Inr (), e')" by (simp add: open_files_def)
qed

lemma caught_up_reads:
  assumes ok: "engine_ok X e2" and c: "caught_up X e1 e2 e'"
  shows "e_log e' = e_log e2 \<and> eng_verify X e' \<and> mat_ok (eng_seq e') (e_mat e') \<and>
      (\<forall>k t. t = None \<or> (\<exists>n. t = Some n \<and> eng_seq e1 \<le> n) \<longrightarrow>
         mv_get (store_of e') k t = mv_get (store_of e2) k t) \<and>
      (\<forall>f l t. eng_neighbors f l t e' = eng_neighbors f l t e2 \<and>
         mset (eng_inbound f l t e') = mset (eng_inbound f l t e2)) \<and>
      e_blobs e' = e_blobs e1 \<and>
      m_causes (e_mat e') = fold note_causes (drop (length (l_ops (e_log e1))) (l_ops (e_log e2))) []"
proof -
  note c' = c[unfolded caught_up_def]
  have w: "mv_wf (store_of e2)" "mv_wf (store_of e')"
    using stored_chains(1)[OF ok] c' by (simp_all add: mat_ok_def store_of_def)
  have "log_verify X (e_log e2)" using ok by (simp add: engine_ok_def log_ok_def)
  then have v: "eng_verify X e'" using c' by (simp add: eng_verify_def)
  have "mv_get (store_of e') k t = mv_get (store_of e2) k t" if "t = None \<or> (\<exists>n. t = Some n \<and> eng_seq e1 \<le> n)" for k t
    using tail_reads[OF _ that] c' by (simp add: mv_get_reads[OF w(1)] mv_get_reads[OF w(2)])
  moreover have "eng_neighbors f l t e' = eng_neighbors f l t e2" "mset (eng_inbound f l t e') = mset (eng_inbound f l t e2)" for f l t
    using same_edges_reads[of "m_rels (e_mat e2)" "m_rels (e_mat e')"] c' by (simp_all add: eng_neighbors_def eng_inbound_def)
  moreover have "eng_seq e' = eng_seq e2" using c' by (simp add: eng_seq_def)
  ultimately show ?thesis using c' v by simp
qed

text \<open>A checkpoint is taken whenever the clock is past the previous one.\<close>

lemma checkpoint_returns:
  assumes ok: "engine_ok X e" and p: "e_path e"
    and n: "dget (l_last (e_log e)) ''__snapshot__'' 0 < py_trunc (fl (v_now V * 1000))"
  shows "\<exists>h e1. save_snapshot X V e = (Inr h, e1)"
proof -
  have "\<exists>r c e2. eng_append X (v_ts V 0) (v_rand V 0) ''__snapshot__'' (py_trunc (fl (v_now V * 1000))) ''checkpoint''
      [(''note'', PStr ''snapshot captured'')] None no_prov e = (Inr (r, c), e2) \<and> e_mat e2 = e_mat e"
    using n by (auto simp: eng_append_def log_append_def Let_def eng_flush_def)
  then obtain r c e2 where a: "eng_append X (v_ts V 0) (v_rand V 0) ''__snapshot__'' (py_trunc (fl (v_now V * 1000)))
      ''checkpoint'' [(''note'', PStr ''snapshot captured'')] None no_prov e = (Inr (r, c), e2)" "e_mat e2 = e_mat e" by blast
  have "mv_wf (store_of e2)" using stored_chains(1)[OF ok] a(2) by (simp add: store_of_def)
  from snap_store_map[OF this] a p show ?thesis
    by (simp add: save_snapshot_def Let_def split: prod.split)
qed

end
