(* ===== verification/SampleSnap.thy ===== *)
theory SampleSnap
  imports Samples SnapInv
begin

text \<open>
  A checkpoint of the sample database, one second after the epoch.
\<close>

definition V1 :: env where "V1 = V0\<lparr> v_now := 1 \<rparr>"

lemma V1_ok: "env_ok V1"
  using V0_ok by (simp add: V1_def env_ok_def)

definition snap0 :: "string call" where "snap0 = save_snapshot ext0 V1 e1"

definition e1c :: engine where "e1c = snd snap0"

lemma e1_facts: "e_path e1" "dget (l_last (e_log e1)) ''__snapshot__'' 0 = 0" "r_adj (m_rels (e_mat e1)) = []"
  by (simp_all add: put0_def e1_def e0_def engine_new_def empty_disk_def eng_put_def put_doc_def
      embed_ttl_def set_opt_def setdefault_def no_prov_def Let_def pick_nonce_def next_nonce_def commit_def
      eng_append_def log_append_def log_init_def eng_flush_def eng_fold_def apply_op_def
      apply_effect_def drop_old_def mat_init_def mv_init_def history_def on_ix_def ix_add_def ix_init_def
      note_causes_def causes_of_def store_of_def mv_put_def stamp_def dget_def rels_init_def)

lemma snap0_run:
  assumes "engine_ok ext0 e1"
  shows "\<exists>h. snap0 = (Inr h, e1c)" "e_open e1c" "e_buf e1c = []"
proof -
  have "py_trunc (fl (1 * 1000)) = 1000" by code_simp
  then have "py_trunc (fl (v_now V1 * 1000)) = 1000" by (simp add: V1_def)
  with checkpoint_returns[OF assms e1_facts(1), of V1] e1_facts(2) obtain h where
    h: "save_snapshot ext0 V1 e1 = (Inr h, e1c)" by (auto simp: snap0_def e1c_def)
  then show "\<exists>h. snap0 = (Inr h, e1c)" by (simp add: snap0_def)
  have "e_open e1c = e_open e1" by (rule checkpoint_effect[OF ext0_env V1_ok assms h])
  then show o: "e_open e1c" by (simp add: put0_run(2))
  have "e_open e1c \<longrightarrow> e_buf e1c = []" by (rule checkpoint_effect[OF ext0_env V1_ok assms h])
  with o show "e_buf e1c = []" by simp
qed

end
