(* ===== verification/Spec2Isabelle.thy ===== *)
theory Spec2Isabelle
  imports Samples NqlText Inclusion Isolation RedisHash RedisTypes MongoInv SqlInv SampleServer SampleSurface SampleAuto SampleSnap
begin

text \<open>
  NEDB (aof-db): a versioned database whose only source of truth is an append-only log of operations
  chained by hash.  This library models its Python reference implementation, \<open>src/python/nedb\<close>, and the
  Python client, \<open>src/client/python/nedb_client\<close>, and proves what the parts promise.

  The program and the theories.  A write is an operation.  \<open>log.py\<close> (theory \<open>OpLog\<close>) gives it a
  sequence number, checks its nonce and idempotency key and chains its hash to the head.  \<open>engine.py\<close>
  (\<open>Engine\<close>) folds each operation into the materialized state (\<open>apply_op\<close>, theory \<open>Materialize\<close>): the
  multi-version store of \<open>store.py\<close> (\<open>Store\<close>), the edges of \<open>relations.py\<close> (\<open>Relations\<close>), the indexes
  of \<open>index.py\<close> (\<open>Indexes\<close>) and the map from operations to those they caused.  The log lines go to an
  append-only file, encrypted by \<open>crypto.py\<close> (\<open>Crypto\<close>) when there is a key; opening a database decodes the
  file, repairs it and folds it again (\<open>Reload\<close>), or starts from a checkpoint of \<open>snapshot.py\<close>
  (\<open>Snapshot\<close>).  Queries are texts: \<open>query.py\<close> (\<open>Nql\<close>) parses them to plans, \<open>NEDB.execute\<close>
  (\<open>Execute\<close>) runs the plans.  Files are chunked and filed by hash (\<open>cascade.py\<close>, theory \<open>Cascade\<close>) under
  Merkle roots (\<open>merkle.py\<close>, theory \<open>Merkle\<close>); \<open>proof.py\<close> (\<open>Inclusion\<close>) proves to a third party that an
  operation is in the log.  \<open>concurrent.py\<close> (\<open>Sequencer\<close>) puts a queue and a single committer with group
  commit in front of an engine.  \<open>server.py\<close> keeps the sequencers of many databases (\<open>Manager\<close>) and serves
  them over HTTP (\<open>Server\<close>); \<open>client.py\<close> (\<open>HttpClient\<close>) is its client, \<open>resp2.py\<close> (\<open>Resp2\<close>) the Redis
  protocol in front of the Redis adapter.  Adapters translate other interfaces to engine calls:
  \<open>redis_compat.py\<close> (\<open>Redis\<close>, with \<open>Glob\<close>), \<open>mongo.py\<close> (\<open>MongoQuery\<close>, \<open>MongoUpdate\<close>, \<open>Mongo\<close>),
  \<open>sql.py\<close> (\<open>Sql\<close>).  \<open>autoindex.py\<close> (\<open>Autoindex\<close>) creates indexes for the fields queries name.
  \<open>wrap_redis.py\<close> and \<open>backends/redis_backend.py\<close> (\<open>Proxy\<close>, \<open>RedisStream\<close>, \<open>Surface\<close>) keep a
  database beside an existing Redis, its operations in a Redis stream.  \<open>Prelude\<close>, \<open>PyVal\<close>, \<open>Json\<close> and
  \<open>Hex\<close> hold what all of them use of Python and its standard library, \<open>Client\<close> what adapters share.

  How the code becomes definitions.  A class is a record of its attributes; a method is a function from
  the state to its result and the state it leaves, and a raised exception is a value (\<open>exn\<close>) beside the
  state at that moment, so that partial effects of failing calls are visible.  \<open>dict\<close> is an association
  list in insertion order, \<open>set\<close> a set whose iteration order is a parameter, \<open>int\<close> is unbounded, \<open>float\<close>
  a rational rounded to doubles, \<open>str\<close> and \<open>bytes\<close> are lists of characters below 256.  Time and random
  bytes a call draws are its argument (\<open>env\<close>).  A database that several adapters use is a value of a
  record of operations (\<open>redis\<close> in \<open>Redis\<close>, \<open>nedb\<close> in \<open>Surface\<close>), given once by the engine and once by
  the server.  Mongo updates, which write through shared dicts, run on an explicit heap of dicts.

  The interfaces.  \<open>hash_chain\<close> (\<open>Chain\<close>) is interpreted by the operation log and by the chain of
  inclusion proofs; \<open>time_travel\<close> (\<open>TimeTravel\<close>) by the store and the relations; \<open>doc_table\<close> and its
  extension \<open>cells\<close> (\<open>Collections\<close>) by the collections of an engine; \<open>cell_store\<close> with its extensions
  \<open>kv_store\<close> (\<open>RedisKv\<close>) and \<open>hash_store\<close> (\<open>RedisHash\<close>) by the Redis adapter on the engine and on a
  served database (\<open>ServedRedis\<close>).  What is proved inside them is used through these interpretations.

  What the lemmas show.
  \<^item> \<open>Runs\<close>, \<open>Lifecycle\<close>: \<open>api_step\<close> is one returning call of the engine, \<open>lifecycle\<close> the engines a
    client can hold (created, called, crashed, reopened).  \<open>EngineInv\<close> has their invariant \<open>engine_ok\<close>:
    the chain verifies, the state is the fold of the log, the indexes are exact, the file decodes to the log.
  \<^item> \<open>QueryInv\<close>, \<open>TraceInv\<close>, \<open>NqlText\<close>: answers do not depend on indexes, AS OF is the query of the shortened
    log, TRACE is the causal closure, the parser and the grammar agree.
  \<^item> \<open>ReloadInv\<close>, \<open>SnapInv\<close>: what reopening restores, loses and heals, from the file alone and from a
    checkpoint.  \<open>OpLog\<close>, \<open>Crypto\<close>, \<open>Merkle\<close>, \<open>Inclusion\<close>,
    \<open>Cascade\<close>, \<open>Json\<close> carry their own laws; statements about hashes hold up to an exhibited collision.
  \<^item> \<open>Sequencer\<close>, \<open>Isolation\<close>: group commit is serial execution, readers are isolated, what is
    acknowledged is on disk.  \<open>Served\<close>, \<open>ServerInv\<close>, \<open>ServerSafe\<close>, \<open>ClientInv\<close>: a request is the engine
    call it stands for, no request rewrites the past, and the client reads what it wrote.
  \<^item> \<open>RedisInv\<close>, \<open>RedisKv\<close>, \<open>RedisHash\<close>, \<open>RedisTypes\<close>, \<open>Resp2Inv\<close>: the string and hash commands refine maps,
    in process, served, and over the wire; every reply has the type of its command.
  \<^item> \<open>MongoInv\<close>, \<open>SqlInv\<close>, \<open>SurfaceInv\<close>: exactness of \<open>find\<close>, the effect of the SQL statements, and that
    the Redis stream of the wrapper is the log.
  \<^item> \<open>Samples\<close>, \<open>SampleServer\<close>, \<open>SampleSurface\<close>, \<open>SampleAuto\<close>, \<open>SampleSnap\<close>: concrete states on which every property
    with a hypothesis is applied.

  Termination and fuel.  Loops of the code are structural recursions or functions with a measure (the lexers
  and readers by the text left, TRACE by the operations not yet seen, the serving loop by the bytes left).
  The JSON scanner takes fuel; the length of the text plus one is enough, which the round trip shows.
  \<open>run_committer\<close> takes the number of atomic steps of the committer: \<open>group_commit_serial\<close> shows that some
  number drains any queue; for the single intent of a request five are enough, and two for the stop marker
  (theory \<open>Served\<close>).
  The loops of the wrapper over SCAN end only if the Redis server lets
  them, so \<open>scan_loop\<close> and the backfill return \<open>None\<close> when they do not.

  Assumptions.  The record \<open>ext\<close> stands for compiled code: BLAKE2b, AES-GCM, HKDF, \<open>zlib\<close>, \<open>lzma\<close>,
  \<open>repr\<close> of a float, the Gear table, the order of sets.  \<open>ext_ok\<close> collects the documented facts used of them
  (digest length, inverses, decimal notations that read back), \<open>iter_ok\<close> that a set is iterated once
  over, \<open>env_ok\<close> that nonces have their length and times are doubles.  \<open>wire_ok\<close> states that the HTTP library
  sends the JSON body and path it is given, \<open>streams_ok\<close> that XADD appends and PUBLISH adds nothing,
  \<open>spares\<close> that a wrapped command leaves the keys of the wrapper alone.  Regular expressions of Mongo
  filters, ObjectIds, the ticks of the list commands and the texts of exceptions are parameters.

  Not modelled.  The command line of \<open>server.py\<close>, its \<open>--doctor\<close> report and the start of the compiled
  server (process management and printing); sockets and threads, beyond the atomic steps of the committer and the
  writers; the names re-exported by \<open>__init__.py\<close> and its stub for the compiled core; the Rust core itself, which
  is another program; the scripts under \<open>bench\<close>, \<open>examples\<close>, \<open>tools\<close> and \<open>scripts\<close>, which measure or demonstrate and keep no
  state.  Texts with code points from 256 on, floats that are not finite, and the aliasing of documents a
  caller keeps after passing them in are outside the model.
\<close>

section \<open>The engine\<close>



text \<open>C2 (the past does not change): whatever calls follow, a read at a sequence number the log
  has reached keeps its answer, for documents and for relations.\<close>

theorem history_immutable:
  assumes "ext_ok X" "lifecycle X e" "api_run X e e'" "0 \<le> n" "n \<le> eng_seq e"
  shows "mv_get (store_of e') k (Some n) = mv_get (store_of e) k (Some n) \<and>
    eng_neighbors f r (Some n) e' = eng_neighbors f r (Some n) e \<and>
    eng_inbound f r (Some n) e' = eng_inbound f r (Some n) e"
proof -
  have ok: "engine_ok X e" "engine_ok X e'"
    using lifecycle_ok[OF assms(1,2)] run_ok[OF assms(1,3)] by blast+
  have n: "n < int (length (l_ops (e_log e)))" using assms(5) by (simp add: eng_seq_def)
  note p = past_immutable[OF ok run_grows[OF assms(3)] assms(4) n]
  from p(2)[of "Out f r"] p(2)[of "In f r"] p(1)[of k] show ?thesis
    by (simp add: eng_neighbors_def eng_inbound_def rel_read_def mv_get_reads eng_mat(1)[OF ok(1)] eng_mat(1)[OF ok(2)])
qed

theorem history_immutable_witness:
  "\<exists>e2. eng_delete ext0 V0 ''c'' ''k'' ''u'' None None e1 = (Inr (), e2) \<and>
    mv_get (store_of e2) (doc_key ''c'' ''k'') (Some 0) = mv_get (store_of e1) (doc_key ''c'' ''k'') (Some 0)"
proof -
  obtain e2 where d: "eng_delete ext0 V0 ''c'' ''k'' ''u'' None None e1 = (Inr (), e2)"
    using delete1_run by blast
  have "api_run ext0 e1 e2"
    by (rule r_into_rtranclp, rule api_step.delete[OF V0_ok _ d]) (simp add: good_coll_def)
  from history_immutable[OF ext0_env e1_life this, of 0] d put0_run(7) show ?thesis
    by (auto simp: eng_seq_def)
qed

text \<open>C3 (time travel): a query with AS OF \<open>n\<close>, with any WHERE, ORDER BY, TRAVERSE, LIMIT, VALID and
  GROUP BY but no SEARCH and no TRACE, answers what the same query answers at HEAD on the state obtained by
  replaying the log up to \<open>n\<close> into an empty engine; that replay never fails.\<close>

theorem query_time_travel:
  assumes "ext_ok X" "lifecycle X e" "0 \<le> n" "search_text p = None" "q_trace p = None"
  shows "\<exists>m. fold_ops False (slice_until n (e_log e)) mat_init = (None, m) \<and>
    execute X (p\<lparr> q_as_of := Some n \<rparr>) e = execute X (p\<lparr> q_as_of := None \<rparr>) (e\<lparr> e_mat := m \<rparr>)"
  unfolding slice_until_def
  by (rule execute_as_of[OF lifecycle_ok[OF assms(1,2)] assms(3-5)])

theorem query_time_travel_witness:
  "\<exists>m. fold_ops False (slice_until 0 (e_log e1)) mat_init = (None, m) \<and>
    execute ext0 ((empty_plan ''c'')\<lparr> q_as_of := Some 0 \<rparr>) e1 =
    execute ext0 ((empty_plan ''c'')\<lparr> q_as_of := None \<rparr>) (e1\<lparr> e_mat := m \<rparr>)"
  by (rule query_time_travel[OF ext0_env e1_life])
    (simp_all add: empty_plan_def search_text_def)




text \<open>C6 (reopening is complete): opening what a closed or flushed engine left on disk, without an
  index configuration file, returns, and restores the log, every version of every document, every relation
  and the cause map.\<close>

theorem reopen_complete:
  assumes "ext_ok X" "env_ok V" "lifecycle X e" "e_open e" "e_buf e = []" "d_snap (e_disk e) = None"
    "d_meta (e_disk e) = None"
  shows "\<exists>e'. open_files X V (engine_new True (e_dek e) (e_disk e)) = (Inr (), e') \<and>
    e_log e' = e_log e \<and> store_of e' = store_of e \<and> m_rels (e_mat e') = m_rels (e_mat e) \<and>
    m_causes (e_mat e') = m_causes (e_mat e)"
proof -
  note ok = lifecycle_ok[OF assms(1,3)]
  from open_files_returns[OF assms(1) engine_log_good[OF ok] disk_ok_holds[OF ok assms(4,5)] assms(6,7)]
  obtain e' where o: "open_files X V (engine_new True (e_dek e) (e_disk e)) = (Inr (), e')" by blast
  with reopen_restores[OF assms(1,2) ok assms(4-6) o] show ?thesis by blast
qed

theorem reopen_complete_witness:
  "\<exists>e'. open_files ext0 V0 (engine_new True None (e_disk e1)) = (Inr (), e') \<and> e_log e' = e_log e1"
  using reopen_complete[OF ext0_env V0_ok e1_life put0_run(2-5)] put0_run(6) by auto


text \<open>C7 (read your write): a put without an idempotency key returns the document as stored, stamped
  with its sequence number and with the fields of the argument, and afterwards that document and no other reads differently at HEAD.\<close>

theorem put_then_read:
  assumes "eng_put X V coll i d client nonce None ttl pr e = (Inr r, e')"
  shows "(\<exists>s. r = Some s \<and> s = stamp (eng_seq e + 1) (put_doc i d (v_now V) ttl pr) \<and>
      doc_get s ''_seq'' = PInt (eng_seq e + 1) \<and>
      (\<forall>f. \<not> starts_with ''_'' f \<longrightarrow> map_of s f = map_of d f)) \<and>
    (\<forall>k. mv_get (store_of e') k None = (if k = doc_key coll i then Inr r else mv_get (store_of e) k None))"
  using put_effect[OF assms] by (auto simp: map_of_stored stamp_seq)

theorem put_then_read_witness:
  "doc_get doc1 ''_seq'' = PInt (eng_seq e0 + 1) \<and> map_of doc1 ''a'' = Some (PInt 1) \<and>
    mv_get (store_of e1) (doc_key ''c'' ''k'') None = Inr (Some doc1)"
  using put_then_read[OF put0_run(1)[unfolded put0_def]] by (auto simp: starts_with_def)

text \<open>C8 (determinism): in every engine a client can hold whose indexes can be rebuilt,
  \<open>verify_determinism\<close> returns \<open>True\<close>; without index configuration they always can.\<close>

theorem determinism_check:
  assumes "ext_ok X" "lifecycle X e" "fst (rebuild e) = None \<or> ix_config (m_ix (e_mat e)) = []"
  shows "verify_determinism e = Inr True"
  using determinism rebuild_no_index lifecycle_ok[OF assms(1,2)] assms(3) by blast

theorem determinism_check_witness: "verify_determinism e1 = Inr True"
  by (rule determinism_check[OF ext0_env e1_life]) (simp add: put0_run)

section \<open>Queries\<close>

text \<open>C9 (ORDER BY is the stable sort): where the field holds numbers or is missing, ascending order
  is the library's stable sort by value with the missing ones last, and descending order is its mirror
  image; in every case, whatever the values are, ORDER BY returns a permutation of the rows.\<close>

theorem order_by_stable:
  assumes "q_order p = Some (f, dir)"
  shows "(\<exists>r. order_rows X p rows = Inr r \<and> mset r = mset rows) \<and>
    ((\<forall>r\<in>set rows. doc_get (snd r) f = PNone \<or> num_of (doc_get (snd r) f) \<noteq> None) \<longrightarrow>
     order_rows X p rows =
      Inr (if dir = ''DESC'' then rev (sort_key (\<lambda>r. num_rank (doc_get (snd r) f)) (rev rows))
           else sort_key (\<lambda>r. num_rank (doc_get (snd r) f)) rows)) \<and>
    ((\<forall>r\<in>set rows. doc_get (snd r) f = PNone \<or> (\<exists>s. doc_get (snd r) f = PStr s)) \<longrightarrow>
     order_rows X p rows =
      Inr (if dir = ''DESC'' then rev (sort_key (\<lambda>r. str_rank (doc_get (snd r) f)) (rev rows))
           else sort_key (\<lambda>r. str_rank (doc_get (snd r) f)) rows))"
  using order_rows_perm order_rows_num[OF assms] order_rows_str[OF assms] by blast

theorem order_by_stable_witness:
  "order_rows ext0 ((empty_plan ''c'')\<lparr> q_order := Some (''a'', ''ASC'') \<rparr>)
     [(''c:1'', [(''a'', PInt 2)]), (''c:2'', []), (''c:3'', [(''a'', PInt 1)])] =
   Inr [(''c:3'', [(''a'', PInt 1)]), (''c:1'', [(''a'', PInt 2)]), (''c:2'', [])]"
proof -
  let ?p = "(empty_plan ''c'')\<lparr> q_order := Some (''a'', ''ASC'') \<rparr>"
  let ?rows = "[(''c:1'', [(''a'', PInt 2)]), (''c:2'', []), (''c:3'', [(''a'', PInt 1)])]"
  have "q_order ?p = Some (''a'', ''ASC'')" by simp
  note o = order_by_stable[OF this, of ext0 ?rows, THEN conjunct2, THEN conjunct1, THEN mp]
  have "order_rows ext0 ?p ?rows = Inr (sort_key (\<lambda>r. num_rank (doc_get (snd r) ''a'')) ?rows)"
    by (subst o) (simp_all add: doc_get_def dget_def)
  then show ?thesis by (simp add: doc_get_def dget_def num_rank_def)
qed

text \<open>C10 (TRACE backward): the walk ends, and the rows it returns are exactly the document versions
  reachable from the query's rows through \<open>_caused_by\<close>, transitively.\<close>

theorem trace_backward_exact:
  assumes "q_trace p = Some t" "t \<noteq> []" "\<not> q_reverse p" "trace_rows X p e rows = Inr out"
  shows "set out = {r. \<exists>d\<in>snd ` set rows. causal (e_log e) (store_of e) d r}"
proof -
  from assms have "trace_back (e_log e) (store_of e) (rev (map snd rows)) {} = Inr out"
    by (simp add: trace_rows_def)
  from trace_back_exact[OF this] show ?thesis by simp
qed

theorem trace_backward_exact_witness:
  "set ([] :: row list) = {r. \<exists>d\<in>snd ` set [(''c:k'', doc1)]. causal (e_log e1) (store_of e1) d r}"
  by (rule trace_backward_exact[of "(empty_plan ''c'')\<lparr> q_trace := Some ''caused_by'' \<rparr>" "''caused_by''" ext0 e1])
    (simp_all add: trace_rows_def empty_plan_def iter_causes_def doc1_def doc_get_def dget_def)



text \<open>C12 (NQL round trip): the text of a plan the parser can produce parses back to that plan.\<close>

theorem nql_roundtrip:
  assumes "plan_ok p" "float_free p"
  shows "parse_nql (nql_text p) = Inr p"
  by (rule parse_nql_text[OF assms])

theorem nql_roundtrip_witness:
  "parse_nql (nql_text ((empty_plan ''c'')\<lparr> q_limit := Some 3 \<rparr>)) = Inr ((empty_plan ''c'')\<lparr> q_limit := Some 3 \<rparr>)"
proof (rule nql_roundtrip)
  show "plan_ok ((empty_plan ''c'')\<lparr> q_limit := Some 3 \<rparr>)" by code_simp
  show "float_free ((empty_plan ''c'')\<lparr> q_limit := Some 3 \<rparr>)" by (simp add: float_free_def empty_plan_def)
qed



section \<open>The log\<close>



text \<open>C15 (replay protection): an append is rejected exactly when its nonce is not above the last one
  of its client, unless its idempotency key has been seen; so in every engine a client can hold the nonces of
  each client strictly increase along the log.\<close>

theorem replay_guard:
  assumes "ext_ok X" "lifecycle X e"
  shows "(log_append X c n op pl None ts pr (e_log e) = Inl ReplayErr \<longleftrightarrow> n \<le> dget (l_last (e_log e)) c 0) \<and>
    (\<forall>r\<in>set (l_ops (e_log e)). o_nonce r \<le> dget (l_last (e_log e)) (o_client r) 0) \<and>
    (\<forall>i j. i < j \<longrightarrow> j < length (l_ops (e_log e)) \<longrightarrow>
       o_client (l_ops (e_log e) ! i) = o_client (l_ops (e_log e) ! j) \<longrightarrow>
       o_nonce (l_ops (e_log e) ! i) < o_nonce (l_ops (e_log e) ! j))"
  using lifecycle_ok[OF assms] by (auto simp: engine_ok_def nonces_ok_def log_append_def Let_def)

theorem replay_guard_witness:
  "log_append ext0 ''u'' 1 ''put'' [] None 0 no_prov (e_log e1) = Inl ReplayErr \<longleftrightarrow>
    1 \<le> dget (l_last (e_log e1)) ''u'' 0"
  using replay_guard[OF ext0_env e1_life] by blast

text \<open>C16 (an operation survives its file line): whatever the data key, a line of the append-only file -
  plain, or the AES-GCM envelope - decodes to the operation that was written.\<close>

theorem aof_line_roundtrip:
  assumes "gcm_ok X" "frepr_ok X" "length nonce = NONCE_LEN" "op_ok r"
  shows "parse_line (aof_decode X (aof_encode X nonce (op_line X r) dek) dek) = Inr r"
  using aof_decode_encode[OF assms(1-3) op_line_strip] parse_op_line[OF assms(2,4)] by simp

theorem aof_line_roundtrip_witness:
  "parse_line (aof_decode ext0 (aof_encode ext0 (replicate 12 (CHR 0x07)) (op_line ext0 (hd (l_ops (e_log e1))))
      (Some ''key'')) (Some ''key'')) = Inr (hd (l_ops (e_log e1)))"
proof (rule aof_line_roundtrip[OF ext0_ok(4) exact_repr_ok])
  show "length (replicate 12 (CHR 0x07)) = NONCE_LEN" by (simp add: NONCE_LEN_def)
  show "op_ok (hd (l_ops (e_log e1)))" by (rule hd_e1(2))
qed

text \<open>C17 (checkpoints): after a checkpoint and any further calls, opening the flushed database from
  \<open>snapshot.json\<close> and the newer operations returns when there are no indexes, and then the log is complete
  and verifies, the indexes are exact, reads at HEAD and at every sequence number from the checkpoint on give
  the same documents, and the edges are the same at every number.  The files are those of the checkpoint,
  and the map of causes has only the causes logged after it.\<close>

theorem checkpoint_restores:
  assumes "ext_ok X" "lifecycle X e" "env_ok V" "plain_names (m_rels (e_mat e))"
    and "save_snapshot X V e = (Inr h, ec)" "api_run X ec e2" "e_open e2" "e_buf e2 = []"
    and "open_files X V' (engine_new True (e_dek e2) (e_disk e2)) = (r, e')"
  shows "(ix_config (m_ix (e_mat e)) = [] \<longrightarrow> r = Inr ()) \<and>
    (r = Inr () \<longrightarrow> e_log e' = e_log e2 \<and> eng_verify X e' \<and> mat_ok (eng_seq e') (e_mat e') \<and>
      (\<forall>k t. t = None \<or> (\<exists>n. t = Some n \<and> eng_seq ec \<le> n) \<longrightarrow>
         mv_get (store_of e') k t = mv_get (store_of e2) k t) \<and>
      (\<forall>f l t. eng_neighbors f l t e' = eng_neighbors f l t e2 \<and>
         mset (eng_inbound f l t e') = mset (eng_inbound f l t e2)) \<and>
      e_blobs e' = e_blobs ec \<and>
      m_causes (e_mat e') = fold note_causes (drop (length (l_ops (e_log ec))) (l_ops (e_log e2))) [])"
proof -
  note ok = lifecycle_ok[OF assms(1,2)] and c = checkpoint_open[OF assms(1,3) lifecycle_ok[OF assms(1,2)]
      lifecycle_tiers[OF assms(2)] assms(4-8), of V']
  have "engine_ok X ec" by (rule checkpoint_effect[OF assms(1,3) ok assms(5)])
  then have ok2: "engine_ok X e2" by (rule run_ok[OF assms(1,6)])
  have "ix_config (m_ix (e_mat e)) = [] \<longrightarrow> r = Inr ()" using c(2) assms(9) by auto
  moreover have "caught_up X ec e2 e'" if "r = Inr ()" using c(1) assms(9) that by simp
  ultimately show ?thesis using caught_up_reads[OF ok2] by blast
qed

theorem checkpoint_restores_witness:
  "\<exists>e'. open_files ext0 V0 (engine_new True (e_dek e1c) (e_disk e1c)) = (Inr (), e') \<and>
    mv_get (store_of e') (doc_key ''c'' ''k'') None = mv_get (store_of e1c) (doc_key ''c'' ''k'') None"
proof -
  note s = snap0_run[OF lifecycle_ok[OF ext0_env e1_life]]
  obtain h where h: "save_snapshot ext0 V1 e1 = (Inr h, e1c)" using s(1) by (auto simp: snap0_def)
  have p: "plain_names (m_rels (e_mat e1))" by (simp add: plain_names_def e1_facts(3))
  obtain r e' where o: "open_files ext0 V0 (engine_new True (e_dek e1c) (e_disk e1c)) = (r, e')" by fastforce
  from checkpoint_restores[OF ext0_env e1_life V1_ok p h _ s(2,3) o] put0_run(10) o show ?thesis by auto
qed

section \<open>Opening a damaged or encrypted database\<close>



text \<open>C19 (rotating the master key keeps the data key): after \<open>rewrap_dek\<close> the new master key unwraps
  the data key the old one did, whatever random bytes are drawn.\<close>

theorem key_rotation:
  assumes "gcm_ok X" "frepr_ok X" "load_or_create_dek X f n1 file old = Inr (dek, txt)"
    "rewrap_dek X f n1 n2 file old new = Inr txt'"
  shows "load_or_create_dek X f' n' (Some txt') new = Inr (dek, txt')"
  by (rule rewrap_keeps_dek[OF assms])

theorem key_rotation_witness:
  "\<exists>txt'. rewrap_dek ext0 ''fresh'' ''n1'' ''n2'' None ''old'' ''new'' = Inr txt' \<and>
    load_or_create_dek ext0 [] [] (Some txt') ''new'' = Inr (''fresh'', txt')"
proof -
  have l: "load_or_create_dek ext0 ''fresh'' ''n1'' None ''old'' =
      Inr (''fresh'', save_wrapped_dek ext0 ''n1'' ''fresh'' ''old'')"
    by (simp add: load_or_create_dek_def)
  then obtain txt' where r: "rewrap_dek ext0 ''fresh'' ''n1'' ''n2'' None ''old'' ''new'' = Inr txt'"
    by (simp add: rewrap_dek_def)
  from key_rotation[OF ext0_ok(4) exact_repr_ok l r] r show ?thesis by blast
qed

section \<open>Files\<close>

text \<open>C20 (file versions): storing a file appends one version to it - readable, as are all earlier
  versions and all other files, with the bytes they had - unless the hash function has a collision.\<close>

theorem file_versions:
  assumes "codecs_ok X" "blobs_ok X b" "put_file X name data b = Inr (v, b')"
  shows "collision X \<or>
    (v = length (contents X b name) \<and> get_file X b' name (int v) = Inr data \<and>
     (\<forall>i < v. get_file X b' name (int i) = get_file X b name (int i)) \<and>
     (\<forall>n. n \<noteq> name \<longrightarrow> contents X b' n = contents X b n))"
proof -
  have "collision X \<or> ?thesis" if c: "v = length (contents X b name)"
    "\<forall>n. contents X b' n = (if n = name then contents X b name @ [Inr data] else contents X b n)"
  proof -
    have p': "map_of (b_files b') name \<noteq> None"
      using c by (auto simp: contents_def split: option.splits)
    have p: "map_of (b_files b) name \<noteq> None" if "i < v" for i
      using that c(1) by (auto simp: contents_def split: option.splits)
    have g: "get_file X b' name (int i) = bindE (py_index (contents X b name @ [Inr data]) (int i)) (\<lambda>r. r)" for i
      using get_file_contents[OF p', of X "int i"] c(2) by simp
    have "get_file X b' name (int i) = get_file X b name (int i)" if "i < v" for i
      using g[of i] get_file_contents[OF p[OF that], of X "int i"] that c(1) by (simp add: nth_append)
    moreover have "get_file X b' name (int v) = Inr data" using g[of v] c(1) by simp
    ultimately show ?thesis using c by simp
  qed
  with put_file_contents[OF assms] show ?thesis by blast
qed

theorem file_versions_witness:
  "\<exists>b'. put_file ext0 ''f'' ''abc'' (blob_init ''warm'') = Inr (0, b') \<and>
    (collision ext0 \<or> get_file ext0 b' ''f'' 0 = Inr ''abc'')"
proof -
  have ok: "blobs_ok ext0 (blob_init ''warm'')" by (simp add: blobs_ok_def blob_init_def)
  obtain v b' where p: "put_file ext0 ''f'' ''abc'' (blob_init ''warm'') = Inr (v, b')"
    using put_file_total[of ext0 "''abc''" "blob_init ''warm''" "''f''"] by metis
  moreover have "v = 0"
    using put_file_total[of ext0 "''abc''" "blob_init ''warm''" "''f''"] p
    by (auto simp: blob_init_def)
  ultimately show ?thesis
    using file_versions[OF ext0_ok(2) ok p] by auto
qed

text \<open>C21 (chunking): the chunks of a file are non-empty, none is longer than the maximum, all but the
  last reach the minimum, they concatenate to the file, and two files that are cut at one point and agree from
  there on share all later chunks.\<close>

theorem chunking:
  shows "concat (chunk X d) = d \<and>
    (chunk X d = xs @ c # ys \<longrightarrow> 0 < length c \<and> length c \<le> CHUNK_MAX \<and> (ys \<noteq> [] \<longrightarrow> CHUNK_MIN \<le> length c)) \<and>
    (chunk X d = us @ vs \<longrightarrow> chunk X d' = us' @ vs' \<longrightarrow> concat vs = concat vs' \<longrightarrow> vs = vs')"
  using concat_chunk chunk_loop_sizes[of X d 0 xs c ys] chunk_resync[of X d us vs d' us' vs']
  by (auto simp: chunk_def)

theorem chunking_witness: "concat (chunk ext0 ''ab'') = ''ab''"
  using chunking[of ext0 "''ab''"] by blast



section \<open>Inclusion proofs\<close>

text \<open>C23 (inclusion proofs verify): the proof the server issues for the hash of any operation of a
  verified log is accepted by the client's checker, and the checker never raises, whatever it is given.\<close>

theorem inclusion_complete:
  assumes "digest_ok X" "log_ok X l" "r \<in> set (l_ops l)"
  shows "(\<exists>p. issue_proof X l (o_hash r) = Inr (Some p) \<and> verify_proof X p = Inr True) \<and>
    (\<forall>p. \<exists>b. verify_proof X p = Inr b)"
  using issued_verifies[OF assms] verify_proof_total by blast

theorem inclusion_complete_witness:
  "\<exists>p. issue_proof ext0 (e_log e1) (o_hash (hd (l_ops (e_log e1)))) = Inr (Some p) \<and> verify_proof ext0 p = Inr True"
proof -
  have "log_ok ext0 (e_log e1)" using lifecycle_ok[OF ext0_env e1_life] by (simp add: engine_ok_def)
  moreover have "hd (l_ops (e_log e1)) \<in> set (l_ops (e_log e1))"
    using put0_run(7) by (intro hd_in_set) auto
  ultimately show ?thesis using inclusion_complete[OF ext0_ok(1)] by blast
qed



section \<open>The sequencer\<close>


text \<open>C26 (group commit is serial commit): the committer drains a queue of intents in finitely many
  steps; each caller gets the result, and the database the state, that applying the intents one after
  the other with a flush after each gives, and the committed number is then HEAD.\<close>

theorem group_commit_serial:
  assumes "s_pc s = Waiting" "e_defer (s_db s)" "stop = [] \<or> stop = [Stop]"
    "s_q s = map (\<lambda>(t, i). Intent t i) ts @ stop" "ts \<noteq> []"
  shows "\<exists>n s'. s' = run_committer X n s \<and>
    s_pc s' = (if stop = [] then Waiting else Stopped) \<and> s_q s' = [] \<and>
    s_done s' = s_done s @ fst (direct X ts (undefer (s_db s))) \<and>
    undefer (s_db s') = snd (direct X ts (undefer (s_db s))) \<and> s_committed s' = eng_seq (s_db s')"
  using drain[OF assms, of X] by (auto simp: Let_def)

theorem group_commit_serial_witness:
  "\<exists>n s'. s' = run_committer ext0 n
      ((seq_new 1 (e1\<lparr> e_defer := True \<rparr>))\<lparr> s_pc := Waiting, s_q := [Intent 0 (IDelete V0 ''c'' ''k'' ''u'' None None), Stop] \<rparr>) \<and>
    s_pc s' = Stopped \<and> s_q s' = []"
  using group_commit_serial[of "(seq_new 1 (e1\<lparr> e_defer := True \<rparr>))\<lparr> s_pc := Waiting,
      s_q := [Intent 0 (IDelete V0 ''c'' ''k'' ''u'' None None), Stop] \<rparr>" "[Stop]"
      "[(0, IDelete V0 ''c'' ''k'' ''u'' None None)]" ext0]
  by (auto simp: seq_new_def)



text \<open>C28 (a write that races with \<open>close\<close> is lost and never answered): a writer that passed the
  closed check before \<open>close\<close> but enqueues after the stop marker leaves its intent in the queue of a
  committer that has returned; that state is reachable, and from it the writer waits forever.\<close>

theorem late_submit_hangs:
  assumes "intent_ok i"
  shows "seq_run X (seq_new mx db) (lost_submit mx t i db) \<and>
    Intent t i \<in> set (s_q (lost_submit mx t i db)) \<and>
    \<not> (\<exists>s' r. seq_run X (lost_submit mx t i db) s' \<and> submitted t s' = Some r)"
  using lost_submit_reached[OF assms] lost_submit_waits by (fastforce simp: lost_submit_def)

theorem late_submit_hangs_witness:
  "seq_run ext0 (seq_new 8 e1) (lost_submit 8 0 (IDelete V0 ''c'' ''k'' ''u'' None None) e1) \<and>
    \<not> (\<exists>s' r. seq_run ext0 (lost_submit 8 0 (IDelete V0 ''c'' ''k'' ''u'' None None) e1) s' \<and>
      submitted 0 s' = Some r)"
proof -
  have "intent_ok (IDelete V0 ''c'' ''k'' ''u'' None None)" using V0_ok by (simp add: intent_ok_def)
  from late_submit_hangs[OF this, of ext0 8 e1 0] show ?thesis by blast
qed


section \<open>The network interfaces\<close>

text \<open>C29 (a client reads what it wrote): through the client, the HTTP handler, the sequencer and the
  engine of a server that has the database open, without indexes, a put is answered with the document as
  stored, its sequence number and the new head, and the \<open>get\<close> that follows returns that document, whose
  fields are those of the argument but for the reserved ones.\<close>

theorem client_reads_its_write:
  assumes "ext_ok (c_ext (cl_conf K))" "iter_ok (c_ext (cl_conf K))"
    and "wire_ok K" "token_ok K" "name_valid (cl_db K)"
    and "map_of (sv_open sv) (cl_db K) = Some s" "ready s" "engine_ok (c_ext (cl_conf K)) (s_db s)" "steady (s_db s)"
    and "env_ok (c_env (cl_conf K) (sv_n sv))"
    and "good_coll coll" "name_ok coll" "CHR 0x22 \<notin> set i" "own_ids coll (s_db s)"
    and "pv_ok (PDict d)" "doc_get d ''caused_by'' = PNone" "map_of d ''_id'' = None \<or> map_of d ''_id'' = Some (PStr i)"
  shows "\<exists>sv' n d' h. client_put K coll i d no_options sv =
      (Inr (ok @ [(''doc'', PDict d'), (''seq'', PInt n), (''head'', PStr h)]), sv') \<and>
    client_get K coll i sv' = (Inr (Some (PDict d')), sv') \<and>
    doc_get d' ''_seq'' = PInt n \<and> (\<forall>f. \<not> starts_with ''_'' f \<longrightarrow> map_of d' f = map_of d f)"
proof -
  have "steady (deferring (s_db s))" using assms(9) by simp
  from put_steady[OF this assms(11)] obtain x e where
    "eng_put (c_ext (cl_conf K)) (c_env (cl_conf K) (sv_n sv)) coll i d ''local'' None None None no_prov
      (deferring (s_db s)) = (Inr x, e)" by blast
  from put_then_get[OF assms(1-8,10-17) this] show ?thesis by blast
qed

theorem client_reads_its_write_witness:
  "\<exists>sv' d'. client_get client0 ''c'' ''k'' sv' = (Inr (Some (PDict d')), sv') \<and> map_of d' ''a'' = Some (PInt 1) \<and>
    sv' = snd (client_put client0 ''c'' ''k'' [(''a'', PInt 1)] no_options server0)"
proof -
  have x: "cl_conf client0 = conf0" "c_ext conf0 = ext0" "cl_db client0 = ''db0''" "c_env conf0 n = V0" for n
    by (simp_all add: client0_def conf0_def)
  have o: "own_ids ''c'' e0"
    by (simp add: own_ids_def e0_def engine_new_def mat_init_def store_of_def mv_init_def mv_get_def history_def dget_def visible_def)
  have n: "name_ok ''c''" by code_simp
  from client_reads_its_write[of client0 server0 "seq_new 512 e0" "''c''" "''k''" "[(''a'', PInt 1)]", unfolded x,
    OF ext0_env ext0_ok(3) client0_wire server0_facts(4,1,2)] e0_ok e0_steady V0_ok o n
  show ?thesis unfolding server0_facts(3)
    by (auto simp: good_coll_def doc_get_def dget_def starts_with_def)
qed



text \<open>C31 (requests are confined): no request makes, changes, opens or closes anything under a name the
  pattern for database names rejects, such as one that leaves the data root; and on a server with a token,
  requests that do not carry it change nothing at all.\<close>

theorem server_confined:
  "outside_root sv (requests C qs sv) \<and>
   (c_token C \<noteq> [] \<and> (\<forall>q\<in>set qs. rq_auth q \<noteq> ''Bearer '' @ c_token C) \<longrightarrow> requests C qs sv = sv)"
  using requests_outside requests_unauthorized by blast

theorem server_confined_witness: "requests conf0 [\<lparr> rq_method = ''DELETE'', rq_path = ''/v1/databases/db0'', rq_query = [], rq_auth = [], rq_body = [] \<rparr>] server0 = server0"
  by (rule server_confined[THEN conjunct2, THEN mp]) (simp add: conf0_def)

text \<open>C32 (a RESP2 session of string commands): on a connection to an open database without indexes, the
  bytes of any sequence of string commands are answered, in order, with the encoding of what each command
  returns on the map of the string keys, or with an error line where it is an error there; afterwards
  the string keys are the resulting map and nothing else in the database has changed.\<close>

theorem resp_session:
  assumes "kv_served P w0 c sv m"
  shows "\<exists>bs c' sv'. serve P (concat (map (wire \<circ> kv_args) ks)) c sv = (bs, c', sv') \<and> cn_db c' = cn_db c \<and>
    list_all2 reply_bytes (fst (kv_session ks m)) bs \<and> kv_served P w0 c' sv' (snd (kv_session ks m))"
  by (rule kv_serve[OF assms])

theorem resp_session_witness:
  "\<exists>c' sv'. serve resp0 (wire [''SET'', ''n'', ''1''] @ wire [''INCRBY'', ''n'', ''2'']) conn_init server0 =
      ([''$2'' @ crlf @ ''OK'' @ crlf, '':3'' @ crlf], c', sv')"
proof -
  have k: "map (wire \<circ> kv_args) [KSet ''n'' ''1'', KIncrBy ''n'' 2] = [wire [''SET'', ''n'', ''1''], wire [''INCRBY'', ''n'', ''2'']]"
  proof -
    have "show_int 2 = ''2''" by code_simp
    then show ?thesis by (simp add: kv_args_def)
  qed
  have r: "fst (kv_session [KSet ''n'' ''1'', KIncrBy ''n'' 2] Map.empty) = [Some (RText ''OK''), Some (RInt 3)]"
  proof -
    have "int_of_str ''1'' = Inr 1" by code_simp
    then show ?thesis by simp
  qed
  have e: "encode (RText ''OK'') = ''$2'' @ crlf @ ''OK'' @ crlf" "encode (RInt 3) = '':3'' @ crlf" by code_simp+
  from resp_session[OF resp0_kv, of "[KSet ''n'' ''1'', KIncrBy ''n'' 2]", unfolded k r] e show ?thesis
    by (auto simp: list_all2_Cons1 reply_bytes_def)
qed

text \<open>C33 (pipelining): a command as clients encode it is read back exactly, whatever bytes follow it; so a
  connection answers each command of a pipeline, whatever the commands are, with one reply, in order.\<close>

theorem resp_pipeline:
  assumes "list_all (\<lambda>args. args \<noteq> []) cmds"
  shows "serve P (concat (map wire cmds)) c sv = respond_all P cmds c sv \<and>
    length (fst (respond_all P cmds c sv)) = length cmds \<and> read_command P (wire args @ rest) = Inr (Some args, rest)"
  using serve_all[OF assms, of P c sv] respond_all_length[of P cmds c sv] read_wire[of P args rest]
  by (cases "respond_all P cmds c sv") auto

theorem resp_pipeline_witness:
  "length (fst (respond_all resp0 [[''PING''], [''EXPIRE'', ''k'']] conn_init server0)) = 2 \<and>
    read_command resp0 (wire [''GET'', ''a b''] @ ''*1'') = Inr (Some [''GET'', ''a b''], ''*1'')"
  using resp_pipeline[of "[[''PING''], [''EXPIRE'', ''k'']]" resp0 conn_init server0 "[''GET'', ''a b'']" "''*1''"] by simp

text \<open>C34 (the Redis wrapper can be reloaded): a surface opened on an empty stream mirrors the log.
  Whatever API calls that leave nonces, idempotency keys and expiry to their defaults, wrapped commands
  with or without shadow writes, and backfills follow, the stream holds exactly the operations of the
  log, and a new surface on the same connection gets a verifying engine with the same log, store,
  relations and cause map.\<close>

theorem surface_restores:
  assumes "wrapper_ok X W R" "bk_read_all R (backend_of name) r = []" "surface_open R name r = Inr st0"
    and "surf_run X W R name st0 st"
  defines "e \<equiv> snd (st_db st)"
  shows "bk_read_all R (backend_of name) (st_redis st) = map (op_line X) (l_ops (e_log e)) \<and>
    (\<exists>e'. surface_open R name (st_redis st) = Inr (sstate_of (0, e') (st_redis st)) \<and> eng_verify X e' \<and>
       e_log e' = e_log e \<and> store_of e' = store_of e \<and> m_rels (e_mat e') = m_rels (e_mat e) \<and>
       m_causes (e_mat e') = m_causes (e_mat e))"
proof -
  have m: "mirrored X R name st"
    using run_mirrored[OF assms(1,4)] opened_mirrored[OF assms(2), of X] assms(3) by auto
  have "eng_verify X e" using m by (simp add: mirrored_def good_engine_def engine_ok_def log_ok_def eng_verify_def e_def)
  with reload_mirrored[OF _ m] assms(1) m show ?thesis
    unfolding wrapper_ok_def e_def mirrored_def by (auto simp: eng_verify_def)
qed

theorem surface_restores_witness:
  "length (bk_read_all mem_remote (backend_of ''db'') (st_redis ss1)) = 1 \<and>
   (\<exists>e'. surface_open mem_remote ''db'' (st_redis ss1) = Inr (sstate_of (0, e') (st_redis ss1)) \<and>
     store_of e' = store_of (snd (st_db ss1)))"
  using surface_restores[OF wrapper0 ss0_open ss1_run] ss1_ops by auto

section \<open>The compatibility adapters\<close>

text \<open>C35 (Mongo \<open>find\<close> is exact): a filter without \<open>_id\<close> that decides every document and asks no
  equality-indexed field to be null finds exactly the documents of the collection that match it, each
  once, whichever indexes narrow the candidates, and changes nothing.\<close>

theorem mongo_find_exact:
  assumes "ext_ok X" "iter_ok X" "lifecycle X e" "good_coll c" "name_ok c"
    "null_free (m_ix (e_mat e)) c filt" "map_of filt ''_id'' = None"
    "\<And>k d. starts_with (c @ '':'') k \<Longrightarrow> mv_get (store_of e) k None = Inr (Some d) \<Longrightarrow>
      match_doc R (PDict d) (PDict filt) = Inr (P d)"
  shows "\<exists>rs. find_docs X R W \<lparr> mc_coll = c, mc_client = u \<rparr> filt (n, e) = (Inr (map snd rs), (n, e)) \<and>
    distinct (map fst rs) \<and>
    set rs = {(k, d). starts_with (c @ '':'') k \<and> mv_get (store_of e) k None = Inr (Some d) \<and> P d}"
proof -
  note ok = lifecycle_ok[OF assms(1,3)]
  note g = mv_get_reads[OF eng_mat(1)[OF ok]]
  show ?thesis
    using find_exact[of X "(n, e)" "\<lparr> mc_coll = c, mc_client = u \<rparr>" filt R P W] ok assms(2,4-8)
    by (simp add: g)
qed



theorem mongo_find_exact_witness:
  "\<exists>rs. find_docs ext0 (\<lambda>_ _ _ _ _. None) (\<lambda>_. V0) \<lparr> mc_coll = ''c'', mc_client = ''u'' \<rparr>
      [(''a'', PInt 1)] (0, e1) = (Inr (map snd rs), (0, e1)) \<and>
    set rs = {(k, d). starts_with ''c:'' k \<and> mv_get (store_of e1) k None = Inr (Some d) \<and>
      eq_val (map_of d ''a'') (PInt 1)}"
proof -
  have n: "name_ok ''c''" by code_simp
  have nf: "null_free (m_ix (e_mat e1)) ''c'' [(''a'', PInt 1)]" by (simp add: null_free_def)
  have m: "match_doc (\<lambda>_ _ _ _ _. None) (PDict d) (PDict [(''a'', PInt 1)]) = Inr (eq_val (map_of d ''a'') (PInt 1))" for d
    by (simp add: match_doc.simps match_key_def match_field.simps is_op_doc_def get_path_plain starts_with_def)
  from mongo_find_exact[OF ext0_env ext0_ok(3) e1_life _ n nf _ m, of "\<lambda>_. V0" "''u''" 0] show ?thesis
    by (simp add: good_coll_def) blast
qed

text \<open>C37 (Redis strings are a map): on a database without indexes whose string keys were written by
  the adapter, each string command returns what it returns on the map from keys to texts, changes the map as
  it does there and nothing else in the database; where the map semantics is an error the command raises and
  changes nothing.\<close>

theorem redis_strings:
  assumes "cell_wf KV_COLL (snd w)" "steady (snd w)"
  shows "case kv_sem c (cell_texts KV_COLL (snd w)) of
      Some (r, m) \<Rightarrow> \<exists>w'. redis_exec (on_engine X W client tick) (fst (kv_wire c)) (snd (kv_wire c)) w = (Inr r, w') \<and>
        holds KV_COLL w w' m
    | None \<Rightarrow> \<exists>x w'. redis_exec (on_engine X W client tick) (fst (kv_wire c)) (snd (kv_wire c)) w = (Inl x, w') \<and>
        holds KV_COLL w w' (cell_texts KV_COLL (snd w))"
  by (rule ekv.kv_refines) (use assms in \<open>simp add: holds_def\<close>)

theorem redis_strings_witness:
  "\<exists>w'. redis_exec (on_engine ext0 (\<lambda>_. V0) ''r'' (\<lambda>_. (0, [], 0)))
      ''INCRBY'' [''n'', show_int 5] (0, engine_new True None empty_disk) = (Inr (RInt 5), w') \<and>
    cell_texts KV_COLL (snd w') = [''n'' \<mapsto> show_int 5]"
proof -
  let ?e = "engine_new True None empty_disk"
  have v: "live_doc KV_COLL ?e = (\<lambda>_. None)"
    by (simp add: live_doc_def engine_new_def store_of_def mat_init_def mv_init_def history_def fun_eq_iff dget_def visible_def)
  then have "cell_wf KV_COLL ?e" "cell_texts KV_COLL ?e = Map.empty"
    by (simp_all add: cell_wf_def cell_texts_def fun_eq_iff)
  with redis_strings[where w = "(0, ?e)" and c = "KIncrBy ''n'' 5" and X = ext0 and W = "\<lambda>_. V0" and client = "''r''"
      and tick = "\<lambda>_. (0, [], 0)"] steady_new show ?thesis by (auto simp: holds_def)
qed







end
